(* ===== verification/Prelude.thy ===== *)
theory Prelude
  imports Main "HOL-Library.Word"
begin

text \<open>
  Shared vocabulary of the development: the machine integers of the i686 target, the flat
  physical memory, the counting loop of C, the little-endian accesses, and the word lemmas
  the components use.  Nothing in this theory is about one component.

  \<^item> \<open>u8\<close>, \<open>u16\<close>, \<open>u32\<close>: the fixed-width integers.  A C \<open>int\<close> is a \<open>u32\<close> read with
    \<open>sint\<close> (two's complement); the signed comparison is \<open><s\<close>.
  \<^item> \<open>addr\<close> is a 32-bit address and \<open>mem\<close> the flat memory.  The kernel runs with flat
    segments and identity-mapped pages, so every address is readable and writable and a
    dereference never traps: memory is a total function.
  \<^item> \<open>for_u32 lo hi f s\<close> is \<open>for (i = lo; i < hi; i++) s = f i s\<close> with unsigned comparison.
  \<^item> \<open>region p n\<close> is the set of the \<open>n\<close> addresses from \<open>p\<close> on, \<open>same_outside R m m'\<close> the
    frame condition "\<open>m'\<close> differs from \<open>m\<close> in \<open>R\<close> at most".
\<close>

unbundle bit_operations_syntax

type_synonym u8 = "8 word"
type_synonym u16 = "16 word"
type_synonym u32 = "32 word"
type_synonym addr = "32 word"
type_synonym mem = "32 word \<Rightarrow> 8 word"

abbreviation NULL :: addr where
  "NULL \<equiv> 0"

named_theorems layout_simps \<open>address arithmetic of fields, blocks and tables\<close>

lemma u32_bound: "unat (x :: u32) < 4294967296"
  using unsigned_less [of x] by simp

lemma unat_add_u32: "unat a + unat b < 4294967296 \<Longrightarrow> unat (a + b) = unat a + unat b" for a b :: u32
  by (simp add: unat_word_ariths)

lemma unat_mult_u32: "unat a * unat b < 4294967296 \<Longrightarrow> unat (a * b) = unat a * unat b" for a b :: u32
  by (simp add: unat_word_ariths)

lemma unat_m1_u32 [simp]: "unat (- 1 :: u32) = 4294967295"
  by (simp add: unsigned_minus_1_eq_mask mask_eq_exp_minus_1)

section \<open>Signed reading of small words\<close>

lemma unat_uint_less: "unat x < numeral k \<longleftrightarrow> uint x < numeral k" for x :: u32
  using of_nat_less_iff [of "unat x" "numeral k", where 'a = int] by simp

lemma sint_small: "unat x < 2147483648 \<Longrightarrow> sint x = uint x" for x :: u32
proof -
  assume "unat x < 2147483648"
  moreover have "- 2147483648 \<le> uint x" by (rule order_trans [OF _ uint_ge_0]) simp
  ultimately show ?thesis
    by (simp add: sint_uint signed_take_bit_int_eq_self_iff unat_uint_less)
qed

lemma sint_large: "2147483648 \<le> unat x \<Longrightarrow> sint x < 0" for x :: u32
proof -
  assume "2147483648 \<le> unat x"
  then have "2147483648 \<le> uint x" and "uint x < 4294967296"
    using u32_bound [of x] unat_uint_less [of x] by (simp_all add: not_less [symmetric])
  then have "uint x div 2147483648 = 1"
    by (simp add: div_int_pos_iff int_div_pos_eq [of _ _ _ "uint x - 2147483648"])
  then have "bit (uint x) 31" by (simp add: bit_iff_odd)
  then show ?thesis by (simp add: sint_uint signed_take_bit_negative_iff)
qed

lemma zero_sless: "0 <s x \<longleftrightarrow> 0 < unat x \<and> unat x < 2147483648" for x :: u32
  using sint_small [of x] sint_large [of x] of_nat_less_iff [of 0 "unat x", where 'a = int]
  by (cases "unat x < 2147483648") (auto simp: word_sless_alt)

lemma sint_Suc: "i <s n \<Longrightarrow> sint (i + 1) = sint i + 1" for i n :: u32
proof -
  assume "i <s n"
  then have "sint i < 2147483647" using sint_lt [of n] by (simp add: word_sless_alt)
  then show ?thesis
    using sint_ge [of i] by (simp add: sint_word_add signed_take_bit_int_eq_self_iff)
qed

lemma sless_small:
  "unat i < 2147483648 \<Longrightarrow> unat n < 2147483648 \<Longrightarrow> i <s n \<longleftrightarrow> i < n" for i n :: u32
  by (simp add: word_sless_alt sint_small word_less_def)

lemma unat_of_nat_u32 [simp]: "k < 4294967296 \<Longrightarrow> unat (of_nat k :: u32) = k"
  by (simp add: unat_of_nat take_bit_nat_eq_self_iff)

lemma sint_of_nat_u32: "k < 2147483648 \<Longrightarrow> sint (of_nat k :: u32) = int k"
proof -
  assume k: "k < 2147483648"
  have "uint (of_nat k :: u32) = int k" using k by (simp add: unsigned_of_nat take_bit_nat_eq_self_iff)
  with k show ?thesis by (simp add: sint_small)
qed

lemma of_nat_u32_less:
  "i < 4294967296 \<Longrightarrow> j < 4294967296 \<Longrightarrow> (of_nat i :: u32) < of_nat j \<longleftrightarrow> i < j"
  by (simp add: word_less_nat_alt)

lemma of_nat_u32_eq:
  "i < 4294967296 \<Longrightarrow> j < 4294967296 \<Longrightarrow> (of_nat i :: u32) = of_nat j \<longleftrightarrow> i = j"
  by (metis unat_of_nat_u32)

lemma u32_of_nat_iffs:
  fixes x :: u32
  assumes "k < 4294967296"
  shows "x = of_nat k \<longleftrightarrow> unat x = k" "of_nat k \<le> x \<longleftrightarrow> k \<le> unat x" "x < of_nat k \<longleftrightarrow> unat x < k"
  using assms by (auto simp: word_le_nat_alt word_less_nat_alt)

lemma of_nat_u32_sless: "i < j \<Longrightarrow> j < 2147483648 \<Longrightarrow> (of_nat i :: u32) <s of_nat j"
  by (simp add: sless_small of_nat_u32_less)

section \<open>The counting loop\<close>

lemma unat_Suc_less: "i < hi \<Longrightarrow> unat (i + 1) = Suc (unat i)" for i hi :: u32
  by unat_arith

function for_u32 :: "u32 \<Rightarrow> u32 \<Rightarrow> (u32 \<Rightarrow> 's \<Rightarrow> 's) \<Rightarrow> 's \<Rightarrow> 's" where
  "for_u32 i hi f s = (if i < hi then for_u32 (i + 1) hi f (f i s) else s)"
  by pat_completeness auto
termination
  by (relation "measure (\<lambda>(i, hi, f, s). unat hi - unat i)")
    (auto simp: unat_Suc_less word_less_nat_alt)

declare for_u32.simps [simp del]

lemma for_u32_done [simp]: "\<not> i < hi \<Longrightarrow> for_u32 i hi f s = s"
  by (subst for_u32.simps) simp

lemma for_u32_step: "i < hi \<Longrightarrow> for_u32 i hi f s = for_u32 (i + 1) hi f (f i s)"
  by (subst for_u32.simps) simp

text \<open>The invariant rule of the loop: \<open>P i s\<close> holds before iteration \<open>i\<close>.\<close>

lemma for_u32_invariant:
  assumes "lo \<le> hi" and "P lo s"
    and "\<And>i s. lo \<le> i \<Longrightarrow> i < hi \<Longrightarrow> P i s \<Longrightarrow> P (i + 1) (f i s)"
  shows "P hi (for_u32 lo hi f s)"
  using assms
proof (induction lo hi f s rule: for_u32.induct)
  case (1 i hi f s)
  show ?case
  proof (cases "i < hi")
    case True
    have "i + 1 \<le> hi" and "\<And>j. i + 1 \<le> j \<Longrightarrow> i \<le> j"
      using True by unat_arith+
    moreover have "P (i + 1) (f i s)"
      using "1.prems" True by simp
    ultimately have "P hi (for_u32 (i + 1) hi f (f i s))"
      using "1.IH" [OF True] "1.prems"(3) by blast
    then show ?thesis by (simp add: for_u32_step [OF True])
  next
    case False
    with "1.prems" show ?thesis by (simp add: not_less)
  qed
qed

text \<open>The same loop with a signed bound: \<open>for (int i = lo; i < hi; i++)\<close>.\<close>

function for_s32 :: "u32 \<Rightarrow> u32 \<Rightarrow> (u32 \<Rightarrow> 's \<Rightarrow> 's) \<Rightarrow> 's \<Rightarrow> 's" where
  "for_s32 i hi f s = (if i <s hi then for_s32 (i + 1) hi f (f i s) else s)"
  by pat_completeness auto
termination
  by (relation "measure (\<lambda>(i, hi, f, s). nat (sint hi - sint i))")
    (auto simp: sint_Suc, simp add: word_sless_alt)

declare for_s32.simps [simp del]

lemma for_s32_eq:
  assumes "unat hi < 2147483648" and "unat i \<le> unat hi"
  shows "for_s32 i hi f s = for_u32 i hi f s"
  using assms
proof (induction "unat hi - unat i" arbitrary: i s)
  case 0
  then have "\<not> i < hi" "\<not> i <s hi" by (simp_all add: sless_small word_less_nat_alt)
  then show ?case by (simp add: for_s32.simps)
next
  case (Suc k)
  then have lt: "i < hi" "i <s hi" by (simp_all add: sless_small word_less_nat_alt)
  with Suc.hyps(1) [of "i + 1"] Suc.hyps(2) Suc.prems unat_Suc_less [OF lt(1)] show ?case
    by (simp add: for_s32.simps [of i] for_u32_step)
qed

lemma for_s32_none: "\<not> i <s hi \<Longrightarrow> for_s32 i hi f s = s"
  by (simp add: for_s32.simps)

section \<open>Widening a character\<close>

lemma narrow_ucast [simp]: "ucast (ucast (c :: u8) :: u32) = c"
  by (rule bit_word_eqI) (simp add: bit_simps)

lemma narrow_scast [simp]: "ucast (scast (c :: u8) :: u32) = c"
  by (rule bit_word_eqI) (case_tac "n = 7"; auto simp: bit_simps min_def)

lemma char_ucast_eq [simp]: "(ucast (a :: u8) :: u32) = ucast b \<longleftrightarrow> a = b"
  by (metis narrow_ucast)

lemma char_scast_eq [simp]: "(scast (a :: u8) :: u32) = scast b \<longleftrightarrow> a = b"
  by (metis narrow_scast)

lemma char_cast_0 [simp]:
  "(ucast (a :: u8) :: u32) = 0 \<longleftrightarrow> a = 0" "(scast (a :: u8) :: u32) = 0 \<longleftrightarrow> a = 0"
  by (metis narrow_ucast unsigned_0, metis narrow_scast signed_0 unsigned_0)

section \<open>Regions and frames\<close>

definition region :: "addr \<Rightarrow> u32 \<Rightarrow> addr set" where
  "region p n = {a. a - p < n}"

lemma mem_region [simp]: "a \<in> region p n \<longleftrightarrow> a - p < n"
  by (simp add: region_def)

lemma region_step: "i < hi \<Longrightarrow> a - p < i + 1 \<longleftrightarrow> a - p < i \<or> a = p + i" for a p i hi :: u32
proof -
  assume "i < hi"
  then have "a - p < i + 1 \<longleftrightarrow> a - p < i \<or> a - p = i" by unat_arith
  moreover have "a - p = i \<longleftrightarrow> a = p + i" by (auto simp: algebra_simps)
  ultimately show ?thesis by simp
qed

lemma region_unat:
  assumes "unat p + unat n \<le> 4294967296"
  shows "a \<in> region p n \<longleftrightarrow> unat p \<le> unat a \<and> unat a < unat p + unat n"
proof -
  have "unat (a - p) = (if unat p \<le> unat a then unat a - unat p else unat a + 4294967296 - unat p)"
    by (simp add: unat_sub_if_size word_size)
  with assms u32_bound [of p] show ?thesis
    by (auto simp: word_less_nat_alt split: if_splits)
qed

text \<open>Addresses given as offsets from a common base.\<close>

lemma offset_region:
  assumes "n < 4294967296" and "p + l < 4294967296"
  shows "(v + of_nat n) - (v + of_nat p) < (of_nat l :: u32) \<longleftrightarrow> p \<le> n \<and> n < p + l"
proof -
  have "unat (of_nat n - of_nat p :: u32) = (if p \<le> n then n - p else n + 4294967296 - p)"
    using assms by (simp add: unat_sub_if_size word_size)
  moreover have "(v + of_nat n) - (v + of_nat p) = (of_nat n - of_nat p :: u32)" by simp
  ultimately show ?thesis
    using assms by (simp only: word_less_nat_alt) auto
qed

lemma region_empty [simp]: "region p 0 = {}"
  by (auto simp: region_def)

definition same_outside :: "addr set \<Rightarrow> mem \<Rightarrow> mem \<Rightarrow> bool" where
  "same_outside R m m' \<longleftrightarrow> (\<forall>a. a \<notin> R \<longrightarrow> m' a = m a)"

lemma same_outside_refl [simp, intro]: "same_outside R m m"
  by (simp add: same_outside_def)

lemma same_outside_trans:
  "same_outside R m m' \<Longrightarrow> same_outside R' m' m'' \<Longrightarrow> R \<subseteq> S \<Longrightarrow> R' \<subseteq> S \<Longrightarrow> same_outside S m m''"
  by (metis same_outside_def subsetD)

lemma same_outside_mono: "same_outside R m m' \<Longrightarrow> R \<subseteq> S \<Longrightarrow> same_outside S m m'"
  by (auto simp: same_outside_def)

lemma same_outsideD: "same_outside R m m' \<Longrightarrow> a \<notin> R \<Longrightarrow> m' a = m a"
  by (simp add: same_outside_def)

lemma same_outside_upd: "same_outside R m m' \<Longrightarrow> a \<in> R \<Longrightarrow> same_outside R m (m'(a := v))"
  by (auto simp: same_outside_def)

section \<open>Little-endian accesses\<close>

definition ld16 :: "mem \<Rightarrow> addr \<Rightarrow> u16" where
  "ld16 m a = ucast (m a) OR push_bit 8 (ucast (m (a + 1)))"

definition ld32 :: "mem \<Rightarrow> addr \<Rightarrow> u32" where
  "ld32 m a = ucast (m a) OR push_bit 8 (ucast (m (a + 1)))
     OR push_bit 16 (ucast (m (a + 2))) OR push_bit 24 (ucast (m (a + 3)))"

definition st32 :: "mem \<Rightarrow> addr \<Rightarrow> u32 \<Rightarrow> mem" where
  "st32 m a v = m(a := ucast v, a + 1 := ucast (drop_bit 8 v),
     a + 2 := ucast (drop_bit 16 v), a + 3 := ucast (drop_bit 24 v))"

definition st16 :: "mem \<Rightarrow> addr \<Rightarrow> u16 \<Rightarrow> mem" where
  "st16 m a v = m(a := ucast v, a + 1 := ucast (drop_bit 8 v))"

lemma ld16_cong: "m a = m' a \<Longrightarrow> m (a + 1) = m' (a + 1) \<Longrightarrow> ld16 m a = ld16 m' a"
  by (simp add: ld16_def)

lemma ld16_st16_same [simp]: "ld16 (st16 m a v) a = v"
proof -
  have "bit (ucast (ucast v :: u8) OR push_bit 8 (ucast (ucast (drop_bit 8 v) :: u8)) :: u16) n = bit v n"
    if "n < 16" for n
    using that by (cases "n < 8") (auto simp: bit_simps)
  then show ?thesis by (auto simp: ld16_def st16_def intro: bit_word_eqI)
qed

lemma bytes_ld16 [simp]: "ucast (ld16 m a) = m a" "ucast (drop_bit 8 (ld16 m a)) = m (a + 1)"
  unfolding ld16_def by (rule bit_word_eqI; auto simp: bit_simps dest: bit_imp_le_length)+

lemma same_outside_st16: "same_outside (region a 2) m (st16 m a v)"
  by (auto simp: same_outside_def st16_def)

lemma ld32_cong: "(\<And>b. b \<in> region a 4 \<Longrightarrow> m b = m' b) \<Longrightarrow> ld32 m a = ld32 m' a"
  by (simp add: ld32_def)

lemma ld32_st32_same [simp]: "ld32 (st32 m a v) a = v"
proof -
  have "bit (ucast (ucast v :: u8) OR push_bit 8 (ucast (ucast (drop_bit 8 v) :: u8))
     OR push_bit 16 (ucast (ucast (drop_bit 16 v) :: u8))
     OR push_bit 24 (ucast (ucast (drop_bit 24 v) :: u8)) :: u32) n = bit v n" if "n < 32" for n
  proof -
    consider "n < 8" | "8 \<le> n" "n < 16" | "16 \<le> n" "n < 24" | "24 \<le> n" by linarith
    then show ?thesis using that by cases (auto simp: bit_simps)
  qed
  then show ?thesis by (auto simp: ld32_def st32_def intro: bit_word_eqI)
qed

lemma bytes_ld32:
  "ucast (ld32 m a) = m a" "ucast (drop_bit 8 (ld32 m a)) = m (a + 1)"
  "ucast (drop_bit 16 (ld32 m a)) = m (a + 2)" "ucast (drop_bit 24 (ld32 m a)) = m (a + 3)"
  unfolding ld32_def by (rule bit_word_eqI; auto simp: bit_simps dest: bit_imp_le_length)+

lemma st32_same: "st32 m a (ld32 m a) = m"
  by (simp add: st32_def bytes_ld32)

lemma same_outside_st32: "same_outside (region a 4) m (st32 m a v)"
  by (auto simp: same_outside_def st32_def)

lemma st32_cong: "same_outside (region a 4) m m' \<Longrightarrow> st32 m' a v = st32 m a v"
proof
  fix b assume "same_outside (region a 4) m m'"
  then have "m' b = m b" if "\<not> b - a < 4" using that by (simp add: same_outside_def)
  moreover have "b \<in> {a, a + 1, a + 2, a + 3}" if "b - a < 4"
  proof -
    have "unat (b - a) \<in> {0, 1, 2, 3}" using that by (auto simp: word_less_nat_alt)
    then have "b - a \<in> {0, 1, 2, 3}" by (auto simp: word_unat_eq_iff)
    then show ?thesis by (auto simp: algebra_simps)
  qed
  ultimately show "st32 m' a v b = st32 m a v b" by (cases "b - a < 4") (auto simp: st32_def)
qed

lemma st32_outside: "4 \<le> b - a \<Longrightarrow> st32 m a v b = m b"
  using same_outside_st32 [of a m v] by (simp add: same_outside_def not_less)

lemma ld32_same_outside:
  "same_outside R m m' \<Longrightarrow> region a 4 \<inter> R = {} \<Longrightarrow> ld32 m' a = ld32 m a"
  by (rule ld32_cong) (auto simp: same_outside_def)

text \<open>Two words at distinct word-aligned addresses do not overlap.\<close>

lemma word_aligned_apart:
  fixes a b :: addr
  assumes "a \<noteq> b" and "a mod 4 = 0" and "b mod 4 = 0"
  shows "4 \<le> a - b"
proof -
  have "4 dvd unat a" and "4 dvd unat b"
    using arg_cong [OF assms(2), of unat] arg_cong [OF assms(3), of unat]
    by (simp_all add: unat_mod mod_eq_0_iff_dvd)
  then obtain k l where "unat a = 4 * k" and "unat b = 4 * l" by (auto elim!: dvdE)
  moreover have "unat b < 4 * 1073741824" "unat a \<noteq> unat b"
    using unsigned_less [of b] assms(1) by (simp_all add: word_unat_eq_iff)
  ultimately have "4 \<le> unat (a - b)"
    by (auto simp: unat_sub_if_size word_size)
  then show ?thesis by (simp add: word_le_nat_alt)
qed

lemma region4_disjoint:
  fixes a b :: addr
  assumes "4 \<le> a - b" and "4 \<le> b - a"
  shows "region a 4 \<inter> region b 4 = {}"
proof (rule equals0I)
  fix x
  assume "x \<in> region a 4 \<inter> region b 4"
  then have "x - a < 4" and "x - b < 4" by simp_all
  moreover have "a - b = (x - b) - (x - a)" and "b - a = (x - a) - (x - b)" by simp_all
  ultimately show False
    using assms u32_bound [of a] u32_bound [of b] u32_bound [of x]
    by (simp add: word_le_nat_alt word_less_nat_alt unat_sub_if_size word_size split: if_splits)
qed

lemma ld32_st32_other:
  "a \<noteq> b \<Longrightarrow> a mod 4 = 0 \<Longrightarrow> b mod 4 = 0 \<Longrightarrow> ld32 (st32 m a v) b = ld32 m b"
  by (rule ld32_same_outside [OF same_outside_st32 region4_disjoint])
    (simp_all add: word_aligned_apart)

lemma ld32_st32:
  "a mod 4 = 0 \<Longrightarrow> b mod 4 = 0 \<Longrightarrow> ld32 (st32 m a v) b = (if a = b then v else ld32 m b)"
  by (simp add: ld32_st32_other)

section \<open>Fields of one structure\<close>

lemma field_subset:
  assumes "unat i + unat n \<le> unat N"
  shows "region (p + i) n \<subseteq> region p N"
proof
  fix a assume "a \<in> region (p + i) n"
  then have "unat (a - (p + i)) < unat n" by (simp add: word_less_nat_alt)
  moreover have "a - p = (a - (p + i)) + i" by simp
  ultimately have "unat (a - p) < unat N"
    using assms u32_bound [of N] by (simp only: unat_add_u32)
  then show "a \<in> region p N" by (simp add: word_less_nat_alt)
qed

lemma field_disjoint:
  assumes "unat i + unat n \<le> unat j" "unat j + unat k \<le> 4294967296"
  shows "region (p + i) n \<inter> region (p + j) k = {}"
proof (rule equals0I)
  fix a assume "a \<in> region (p + i) n \<inter> region (p + j) k"
  then have a: "unat (a - (p + i)) < unat n" "unat (a - (p + j)) < unat k" by (simp_all add: word_less_nat_alt)
  have "unat ((a - (p + i)) + i) = unat (a - (p + i)) + unat i"
    using a(1) assms u32_bound [of j] by (intro unat_add_u32) simp
  moreover have "unat ((a - (p + j)) + j) = unat (a - (p + j)) + unat j"
    using a(2) assms(2) by (intro unat_add_u32) simp
  moreover have "(a - (p + i)) + i = (a - (p + j)) + j" by simp
  ultimately show False using a(1) assms(1) by simp
qed

lemma ld32_upd: "4 \<le> b - a \<Longrightarrow> ld32 (m(b := v)) a = ld32 m a" for a b :: addr
  by (rule ld32_cong) (auto simp: not_less)

lemma ld32_st32_fields:
  "4 \<le> i - j \<Longrightarrow> 4 \<le> j - i \<Longrightarrow> ld32 (st32 m (p + i) v) (p + j) = ld32 m (p + j)" for i j :: addr
  by (rule ld32_same_outside [OF same_outside_st32 region4_disjoint]) simp_all

lemma ld32_st32_field0:
  "4 \<le> i \<Longrightarrow> 4 \<le> - i \<Longrightarrow> ld32 (st32 m (p + i) v) p = ld32 m p"
  "4 \<le> i \<Longrightarrow> 4 \<le> - i \<Longrightarrow> ld32 (st32 m p v) (p + i) = ld32 m (p + i)" for i :: addr
  by (rule ld32_same_outside [OF same_outside_st32 region4_disjoint]; simp)+

lemmas struct_fields = ld32_st32_fields ld32_st32_field0

text \<open>A field of one structure and a field of another.\<close>

lemma ld32_st32_apart:
  assumes "region p n \<inter> region q k = {}" "unat i + 4 \<le> unat n" "unat j + 4 \<le> unat k"
  shows "ld32 (st32 m (p + i) v) (q + j) = ld32 m (q + j)"
  using assms field_subset [of i 4 n p] field_subset [of j 4 k q]
  by (intro ld32_same_outside [OF same_outside_st32]) (simp del: mem_region, blast)

lemma same_outside_field:
  "same_outside (region p n) m m1 \<Longrightarrow> unat i + 4 \<le> unat n \<Longrightarrow> same_outside (region p n) m (st32 m1 (p + i) v)"
  using field_subset [of i 4 n p] by (auto intro: same_outside_trans [OF _ same_outside_st32] simp del: mem_region)

section \<open>Page-aligned objects and their fields\<close>

text \<open>
  The allocator hands out multiples of 4096.  An object at such an address with a field at an
  offset below 4096 is determined by the field's address.
\<close>

definition page_aligned :: "addr \<Rightarrow> bool" where
  "page_aligned p \<longleftrightarrow> p mod 4096 = 0"

lemma page_aligned_0 [simp]: "page_aligned 0"
  by (simp add: page_aligned_def)

lemma page_aligned_iff: "page_aligned p \<longleftrightarrow> 4096 dvd unat p"
proof -
  have "page_aligned p \<longleftrightarrow> unat (p mod 4096) = 0"
    unfolding page_aligned_def by (metis unat_eq_zero)
  then show ?thesis by (simp add: unat_mod mod_eq_0_iff_dvd)
qed

lemma page_alignedE:
  assumes "page_aligned p"
  obtains k where "unat p = 4096 * k" and "k < 1048576"
proof -
  obtain k where "unat p = 4096 * k" using assms by (auto simp: page_aligned_iff elim!: dvdE)
  moreover have "unat p < 4096 * 1048576" using unsigned_less [of p] by simp
  ultimately show thesis using that by simp
qed

lemma unat_page_add:
  assumes "page_aligned p" and "off < 4096"
  shows "unat (p + off) = unat p + unat off"
proof -
  obtain k where "unat p = 4096 * k" and "k < 1048576"
    using assms(1) by (rule page_alignedE)
  moreover have "unat off < 4096" using assms(2) by (simp add: word_less_nat_alt)
  ultimately have "unat p + unat off < 2 ^ 32" by simp
  then show ?thesis by (simp add: unat_word_ariths)
qed

lemma page_field_eq [layout_simps]:
  assumes p: "page_aligned p" and q: "page_aligned q" and i: "i < 4096" and j: "j < 4096"
  shows "p + i = q + j \<longleftrightarrow> p = q \<and> i = j"
proof
  assume "p + i = q + j"
  then have *: "unat p + unat i = unat q + unat j"
    using unat_page_add [OF p i] unat_page_add [OF q j] by simp
  obtain k l where kl: "unat p = 4096 * k" "unat q = 4096 * l"
    using p q by (metis page_alignedE)
  have ij: "unat i < 4096" "unat j < 4096" using i j by (simp_all add: word_less_nat_alt)
  from * kl ij have "k = l" by (metis div_mult_self4 div_less add.commute add_0 zero_neq_numeral)
  with * kl show "p = q \<and> i = j" by (simp add: word_unat_eq_iff)
qed simp

lemma page_field_aligned [layout_simps]:
  assumes p: "page_aligned p" and i: "off < 4096" and "off mod 4 = 0"
  shows "(p + off) mod 4 = 0"
proof -
  obtain k where "unat p = 4 * (1024 * k)" using p by (auto elim!: page_alignedE)
  moreover have "4 dvd unat off"
    using arg_cong [OF assms(3), of unat] by (simp add: unat_mod mod_eq_0_iff_dvd)
  ultimately have "4 dvd unat p + unat off" by simp
  then have "unat ((p + off) mod 4) = 0"
    by (simp add: unat_mod unat_page_add [OF p i] mod_eq_0_iff_dvd)
  then show ?thesis by (metis unat_eq_zero)
qed

lemma ld32_st32_field [layout_simps]:
  assumes "page_aligned p" "page_aligned q" "i < 4096" "j < 4096" "i mod 4 = 0" "j mod 4 = 0"
  shows "ld32 (st32 m (p + i) v) (q + j) = (if p = q \<and> i = j then v else ld32 m (q + j))"
  using assms by (simp add: ld32_st32 page_field_aligned page_field_eq)

section \<open>Page frames\<close>

lemma frame_mask: "(0xFFFFF000 :: u32) = NOT (mask 12)"
  by (simp add: mask_eq_exp_minus_1)

lemma bit_frame: "bit (x AND 0xFFFFF000) n \<longleftrightarrow> 12 \<le> n \<and> bit x n" for x :: u32
  unfolding frame_mask by (auto simp: bit_simps dest: bit_imp_le_length)

lemma page_aligned_bits: "page_aligned p \<longleftrightarrow> (\<forall>n<12. \<not> bit p n)"
proof -
  have "page_aligned p \<longleftrightarrow> take_bit 12 p = 0" by (simp add: page_aligned_def take_bit_eq_mod)
  also have "\<dots> \<longleftrightarrow> (\<forall>n<12. \<not> bit p n)" by (auto simp: bit_eq_iff bit_simps dest: bit_imp_le_length)
  finally show ?thesis .
qed

lemma small_bits: "f < 4096 \<longleftrightarrow> (\<forall>n. bit f n \<longrightarrow> n < 12)" for f :: u32
proof -
  have "f < 4096 \<longleftrightarrow> unat f mod 4096 = unat f"
    by (simp add: word_less_nat_alt) (metis mod_less mod_less_divisor zero_less_numeral)
  also have "\<dots> \<longleftrightarrow> take_bit 12 f = f" by (simp add: take_bit_eq_mod word_unat_eq_iff unat_mod)
  also have "\<dots> \<longleftrightarrow> (\<forall>n. bit f n \<longrightarrow> n < 12)"
  proof
    assume "take_bit 12 f = f"
    then show "\<forall>n. bit f n \<longrightarrow> n < 12" by (metis bit_take_bit_iff)
  next
    assume "\<forall>n. bit f n \<longrightarrow> n < 12"
    then show "take_bit 12 f = f" by (intro bit_word_eqI) (auto simp: bit_take_bit_iff)
  qed
  finally show ?thesis .
qed

lemma page_aligned_frame [simp]: "page_aligned (x AND 0xFFFFF000)"
  by (simp add: page_aligned_bits bit_frame)

lemma frame_or: "page_aligned p \<Longrightarrow> f < 4096 \<Longrightarrow> (p OR f) AND 0xFFFFF000 = p"
  by (rule bit_word_eqI, subst bit_frame) (fastforce simp: bit_or_iff page_aligned_bits small_bits not_less)

lemma bit_page_or: "page_aligned p \<Longrightarrow> n < 12 \<Longrightarrow> bit (p OR f) n \<longleftrightarrow> bit f n"
  by (auto simp: bit_or_iff page_aligned_bits)

lemma or_small: "f < 4096 \<Longrightarrow> g < 4096 \<Longrightarrow> f OR g < (4096 :: u32)"
  by (auto simp add: small_bits bit_simps)

lemma ucast_small [simp]: "(ucast (f :: u8) :: u32) < 4096"
  by (auto simp add: small_bits bit_simps dest: bit_imp_le_length)

lemma page_aligned_add: "page_aligned p \<Longrightarrow> page_aligned q \<Longrightarrow> page_aligned (p + q)"
  by (simp add: page_aligned_iff unat_word_ariths dvd_mod_iff)

lemma page_aligned_4096 [simp]: "page_aligned 4096"
  by (simp add: page_aligned_iff)

text \<open>The words of a page, read and written by index.\<close>

lemma word_index [layout_simps]:
  assumes "k < (1024 :: u32)"
  shows "4 * k < 4096" "(4 * k) mod 4 = 0"
proof -
  have "unat k < 1024" using assms by (simp add: word_less_nat_alt)
  then have u: "unat (4 * k) = 4 * unat k" by (simp add: unat_mult_u32)
  show "4 * k < 4096" using u \<open>unat k < 1024\<close> by (simp add: word_less_nat_alt)
  have "unat ((4 * k) mod 4) = 0" by (simp add: unat_mod u)
  then show "(4 * k) mod 4 = 0" by (metis unat_eq_zero)
qed

lemma word_index_eq: "k < 1024 \<Longrightarrow> l < 1024 \<Longrightarrow> 4 * k = 4 * l \<longleftrightarrow> k = l" for k l :: u32
  by (auto simp: word_less_nat_alt word_unat_eq_iff unat_mult_u32)

lemma ld32_st32_index:
  assumes "page_aligned p" "page_aligned q" "k < 1024" "l < 1024"
  shows "ld32 (st32 m (p + 4 * k) v) (q + 4 * l) = (if p = q \<and> k = l then v else ld32 m (q + 4 * l))"
  using assms by (simp add: ld32_st32_field word_index word_index_eq)

text \<open>Two-word structures at page-aligned addresses.\<close>

lemma pair_words [layout_simps]:
  assumes "page_aligned p" "page_aligned q"
  shows "ld32 (st32 m p v) q = (if p = q then v else ld32 m q)"
    "ld32 (st32 m (p + 4) v) q = ld32 m q"
    "ld32 (st32 m p v) (q + 4) = ld32 m (q + 4)"
    "ld32 (st32 m (p + 4) v) (q + 4) = (if p = q then v else ld32 m (q + 4))"
  using ld32_st32_index [OF assms, of 0 0 m v] ld32_st32_index [OF assms, of 1 0 m v]
    ld32_st32_index [OF assms, of 0 1 m v] ld32_st32_index [OF assms, of 1 1 m v] by simp_all

lemma page_word_subset:
  assumes "page_aligned p" "k < 1024"
  shows "region (p + 4 * k) 4 \<subseteq> region p 4096"
proof
  fix a assume "a \<in> region (p + 4 * k) 4"
  then have "unat (a - (p + 4 * k)) < 4" by (simp add: word_less_nat_alt)
  moreover have "unat (4 * k) \<le> 4092"
    using assms(2) by (simp add: word_less_nat_alt unat_mult_u32)
  moreover have "a - p = (a - (p + 4 * k)) + 4 * k" by simp
  ultimately have "unat (a - p) < 4096" by (simp only: unat_add_u32)
  then show "a \<in> region p 4096" by (simp add: word_less_nat_alt)
qed

lemma pair_subset:
  assumes "page_aligned p"
  shows "region p 4 \<subseteq> region p 4096" "region (p + 4) 4 \<subseteq> region p 4096"
  using page_word_subset [OF assms, of 0] page_word_subset [OF assms, of 1] by simp_all

lemma pages_disjoint:
  assumes "page_aligned p" "page_aligned q" "p \<noteq> q"
  shows "region p 4096 \<inter> region q 4096 = {}"
proof (rule equals0I)
  fix a assume "a \<in> region p 4096 \<inter> region q 4096"
  then have "p + (a - p) = q + (a - q) \<longleftrightarrow> p = q \<and> a - p = a - q"
    using assms by (intro page_field_eq) simp_all
  with assms(3) show False by simp
qed

lemma ld32_page_cong:
  assumes "\<And>a. a \<in> A \<Longrightarrow> m a = m' a" and "page_aligned p" and "region p 4096 \<subseteq> A" and "k < 1024"
  shows "ld32 m (p + 4 * k) = ld32 m' (p + 4 * k)"
  using assms page_word_subset [OF assms(2,4)] by (intro ld32_cong) blast

lemma fresh_page_neq: "region p 4096 \<subseteq> A \<Longrightarrow> region q 4096 \<inter> A = {} \<Longrightarrow> p \<noteq> q"
  using mem_region [of p p 4096] by fastforce

end
