(* ===== verification/Config.thy ===== *)
theory Config
  imports Prelude
begin

text \<open>
  The numeric configuration of the kernel (\<^verbatim>\<open>config.h\<close>) and its status codes
  (\<^verbatim>\<open>status.h\<close>), as constants of the width the code uses them at.  Both are unfolded by the
  simplifier.  \<open>ISERR\<close> is the macro of \<^verbatim>\<open>kernel.h\<close>: a value read as \<open>int\<close> that is negative.
\<close>

section \<open>config.h\<close>

definition PEACHOS_TOTAL_INTERRUPTS :: u32 where
  [simp]: "PEACHOS_TOTAL_INTERRUPTS = 512"

definition KERNEL_CODE_SELECTOR :: u16 where
  [simp]: "KERNEL_CODE_SELECTOR = 0x8"

definition KERNEL_DATA_SELECTOR :: u32 where
  [simp]: "KERNEL_DATA_SELECTOR = 0x10"

definition HEAP_BLOCK_SIZE_BYTES :: u32 where
  [simp]: "HEAP_BLOCK_SIZE_BYTES = 4096"

definition HEAP_SIZE_IN_BYTES :: u32 where
  [simp]: "HEAP_SIZE_IN_BYTES = 104857600"

definition HEAP_START_ADDR :: addr where
  [simp]: "HEAP_START_ADDR = 0x1000000"

definition HEAP_TABLE_START_ADDR :: addr where
  [simp]: "HEAP_TABLE_START_ADDR = 0x00007E00"

definition PEACHOS_SECTOR_SIZE :: u32 where
  [simp]: "PEACHOS_SECTOR_SIZE = 512"

definition PEACHOS_MAX_PATH_LENGTH :: u32 where
  [simp]: "PEACHOS_MAX_PATH_LENGTH = 108"

definition PEACHOS_MAX_FILESYSTEMS :: u32 where
  [simp]: "PEACHOS_MAX_FILESYSTEMS = 12"

definition PEACHOS_MAX_FILE_DESCRIPTORS :: u32 where
  [simp]: "PEACHOS_MAX_FILE_DESCRIPTORS = 512"

definition PEACHOS_DESCRIPTOR_SEGMENTS :: u32 where
  [simp]: "PEACHOS_DESCRIPTOR_SEGMENTS = 6"

definition PEACHOS_PROGRAM_VIRTUAL_ADDRESS :: addr where
  [simp]: "PEACHOS_PROGRAM_VIRTUAL_ADDRESS = 0x400000"

definition PEACHOS_USER_PROGRAM_STACK_SIZE :: u32 where
  [simp]: "PEACHOS_USER_PROGRAM_STACK_SIZE = 1024 * 16"

definition PEACHOS_PROGRAM_STACK_VIRTUAL_ADDRESS_START :: addr where
  [simp]: "PEACHOS_PROGRAM_STACK_VIRTUAL_ADDRESS_START = 0x3FF000"

definition PEACHOS_PROGRAM_STACK_VIRTUAL_ADDRESS_END :: addr where
  [simp]: "PEACHOS_PROGRAM_STACK_VIRTUAL_ADDRESS_END =
     PEACHOS_PROGRAM_STACK_VIRTUAL_ADDRESS_START - PEACHOS_USER_PROGRAM_STACK_SIZE"

definition USER_DATA_SEGMENT :: u32 where
  [simp]: "USER_DATA_SEGMENT = 0x23"

definition USER_CODE_SEGMENT :: u32 where
  [simp]: "USER_CODE_SEGMENT = 0x1b"

definition PEACHOS_MAX_PROGRAM_ALLOCATIONS :: u32 where
  [simp]: "PEACHOS_MAX_PROGRAM_ALLOCATIONS = 1024"

definition PEACHOS_MAX_PROCESSES :: u32 where
  [simp]: "PEACHOS_MAX_PROCESSES = 12"

definition PEACHOS_MAX_ISR80H_COMMANDS :: u32 where
  [simp]: "PEACHOS_MAX_ISR80H_COMMANDS = 1024"

definition PEACHOS_KEYBOARD_BUFFER_SIZE :: u32 where
  [simp]: "PEACHOS_KEYBOARD_BUFFER_SIZE = 1024"

section \<open>status.h\<close>

definition PEACHOS_ALL_OK :: u32 where
  [simp]: "PEACHOS_ALL_OK = 0"

definition EINVARG :: u32 where
  [simp]: "EINVARG = 1"

definition EIO :: u32 where
  [simp]: "EIO = 2"

definition EBADPATH :: u32 where
  [simp]: "EBADPATH = 3"

definition ENOMEM :: u32 where
  [simp]: "ENOMEM = 4"

definition EFSNOTUS :: u32 where
  [simp]: "EFSNOTUS = 5"

definition ERDONLY :: u32 where
  [simp]: "ERDONLY = 6"

definition EUNIMP :: u32 where
  [simp]: "EUNIMP = 7"

definition EISTKN :: u32 where
  [simp]: "EISTKN = 8"

section \<open>kernel.h\<close>

definition ISERR :: "u32 \<Rightarrow> bool" where
  "ISERR v \<longleftrightarrow> v <s 0"

end
