(* ===== verification/Layout.thy ===== *)
theory Layout
  imports Config
begin

text \<open>
  The layout of the C structures.  A type is a scalar of some bytes, an array, a structure or a union;
  \<open>sizeof\<close>, \<open>alignof\<close> and \<open>field_at\<close> compute sizes and offsets as the i386 ABI lays types down: a scalar is
  aligned to its size (at most 4), fields follow each other at the next aligned offset, and
  \<open>__attribute__((packed))\<close> drops the padding.  Then the structures of the headers and of \<^verbatim>\<open>fat16.c\<close> are
  declared, field by field.  \<open>Typed_Access\<close> relates the literal offsets of the other theories to these declarations.
\<close>

section \<open>Types\<close>

datatype ctype =
  Scalar nat
| Array nat ctype
| Struct bool "(string \<times> ctype) list"
| Union "(string \<times> ctype) list"

abbreviation uint8_t :: ctype where "uint8_t \<equiv> Scalar 1"
abbreviation uint16_t :: ctype where "uint16_t \<equiv> Scalar 2"
abbreviation uint32_t :: ctype where "uint32_t \<equiv> Scalar 4"
abbreviation int_t :: ctype where "int_t \<equiv> Scalar 4"
abbreviation char_t :: ctype where "char_t \<equiv> Scalar 1"
abbreviation pointer :: ctype where "pointer \<equiv> Scalar 4"

definition round_up :: "nat \<Rightarrow> nat \<Rightarrow> nat" where
  "round_up n a = (n + a - 1) div a * a"

fun alignof :: "ctype \<Rightarrow> nat" and fields_align :: "(string \<times> ctype) list \<Rightarrow> nat" where
  "alignof (Scalar n) = n"
| "alignof (Array n t) = alignof t"
| "alignof (Struct packed fs) = (if packed then 1 else fields_align fs)"
| "alignof (Union fs) = fields_align fs"
| "fields_align [] = 1"
| "fields_align ((f, t) # fs) = max (alignof t) (fields_align fs)"

definition place :: "bool \<Rightarrow> nat \<Rightarrow> ctype \<Rightarrow> nat" where
  "place packed off t = (if packed then off else round_up off (alignof t))"

fun sizeof :: "ctype \<Rightarrow> nat" and fields_end :: "bool \<Rightarrow> nat \<Rightarrow> (string \<times> ctype) list \<Rightarrow> nat"
  and widest :: "(string \<times> ctype) list \<Rightarrow> nat" where
  "sizeof (Scalar n) = n"
| "sizeof (Array n t) = n * sizeof t"
| "sizeof (Struct packed fs) =
     (if packed then fields_end True 0 fs else round_up (fields_end False 0 fs) (fields_align fs))"
| "sizeof (Union fs) = round_up (widest fs) (fields_align fs)"
| "fields_end packed off [] = off"
| "fields_end packed off ((f, t) # fs) = fields_end packed (place packed off t + sizeof t) fs"
| "widest [] = 0"
| "widest ((f, t) # fs) = max (sizeof t) (widest fs)"

text \<open>A path leads from an object to a part of it: members of structures and unions, elements of arrays.
  \<open>field_at t ps\<close> is the offset and the type of the part of \<open>t\<close> at \<open>ps\<close>.\<close>

datatype step = Member string | Index nat

fun field_at :: "ctype \<Rightarrow> step list \<Rightarrow> (nat \<times> ctype) option"
  and member_at :: "bool \<Rightarrow> nat \<Rightarrow> (string \<times> ctype) list \<Rightarrow> string \<Rightarrow> step list \<Rightarrow> (nat \<times> ctype) option"
  and variant_at :: "(string \<times> ctype) list \<Rightarrow> string \<Rightarrow> step list \<Rightarrow> (nat \<times> ctype) option" where
  "field_at t [] = Some (0, t)"
| "field_at (Array n t) (Index i # ps) =
     (if i < n then map_option (\<lambda>(off, u). (i * sizeof t + off, u)) (field_at t ps) else None)"
| "field_at (Struct packed fs) (Member f # ps) = member_at packed 0 fs f ps"
| "field_at (Union fs) (Member f # ps) = variant_at fs f ps"
| "field_at _ _ = None"
| "member_at packed off [] f ps = None"
| "member_at packed off ((g, t) # fs) f ps =
     (if f = g then map_option (\<lambda>(o', u). (place packed off t + o', u)) (field_at t ps)
      else member_at packed (place packed off t + sizeof t) fs f ps)"
| "variant_at [] f ps = None"
| "variant_at ((g, t) # fs) f ps = (if f = g then field_at t ps else variant_at fs f ps)"

text \<open>Two paths part at a structure or an array; the variants of a union share their bytes.\<close>

fun member_type :: "(string \<times> ctype) list \<Rightarrow> string \<Rightarrow> ctype option" where
  "member_type [] f = None"
| "member_type ((g, t) # fs) f = (if f = g then Some t else member_type fs f)"

fun paths_part :: "ctype \<Rightarrow> step list \<Rightarrow> step list \<Rightarrow> bool" where
  "paths_part (Array n t) (Index i # ps) (Index j # qs) = (if i = j then paths_part t ps qs else True)"
| "paths_part (Struct packed fs) (Member f # ps) (Member g # qs) =
     (if f = g then (case member_type fs f of None \<Rightarrow> False | Some t \<Rightarrow> paths_part t ps qs) else True)"
| "paths_part _ _ _ = False"

text \<open>Every alignment is positive: no empty scalars.\<close>

fun proper :: "ctype \<Rightarrow> bool" and proper_fields :: "(string \<times> ctype) list \<Rightarrow> bool" where
  "proper (Scalar n) \<longleftrightarrow> 0 < n"
| "proper (Array n t) \<longleftrightarrow> proper t"
| "proper (Struct packed fs) \<longleftrightarrow> proper_fields fs"
| "proper (Union fs) \<longleftrightarrow> proper_fields fs"
| "proper_fields [] \<longleftrightarrow> True"
| "proper_fields ((f, t) # fs) \<longleftrightarrow> proper t \<and> proper_fields fs"

section \<open>Sizes and offsets\<close>

lemma round_up_le: "0 < a \<Longrightarrow> n \<le> round_up n a"
proof -
  assume "0 < a"
  then have "(n + a - 1) mod a < a" by simp
  then show "n \<le> round_up n a" unfolding round_up_def
    using div_mult_mod_eq [of "n + a - 1" a] by linarith
qed

lemma dvd_round_up: "a dvd round_up n a"
  by (simp add: round_up_def)

lemma alignof_pos: "proper t \<Longrightarrow> 0 < alignof t" and fields_align_pos: "0 < fields_align fs"
  by (induction t and fs rule: alignof_fields_align.induct) auto

lemma place_le: "proper t \<Longrightarrow> off \<le> place packed off t"
  by (simp add: place_def round_up_le alignof_pos)

lemma fields_end_le: "proper_fields fs \<Longrightarrow> off \<le> fields_end packed off fs"
proof (induction fs arbitrary: off)
  case (Cons ft fs)
  obtain f t where ft: "ft = (f, t)" by (cases ft)
  have "off \<le> place packed off t + sizeof t" using place_le [of t off packed] Cons.prems ft by simp
  also have "\<dots> \<le> fields_end packed (place packed off t + sizeof t) fs" using Cons ft by simp
  finally show ?case by (simp add: ft)
qed simp

lemma member_bounds:
  assumes "\<And>g t ps off' u. (g, t) \<in> set fs \<Longrightarrow> field_at t ps = Some (off', u) \<Longrightarrow> off' + sizeof u \<le> sizeof t"
  shows "proper_fields fs \<Longrightarrow> member_at packed off fs f ps = Some (off', u) \<Longrightarrow>
    off \<le> off' \<and> off' + sizeof u \<le> fields_end packed off fs"
  using assms
proof (induction fs arbitrary: off)
  case (Cons gt fs)
  obtain g t where gt: "gt = (g, t)" by (cases gt)
  let ?at = "place packed off t"
  have at: "off \<le> ?at" "?at + sizeof t \<le> fields_end packed (?at + sizeof t) fs"
    using Cons.prems(1) gt by (auto intro: place_le fields_end_le)
  show ?case
  proof (cases "f = g")
    case True
    then obtain o' where o': "off' = ?at + o'" "field_at t ps = Some (o', u)" using Cons.prems(2) gt by auto
    have "o' + sizeof u \<le> sizeof t" using Cons.prems(3) [OF _ o'(2)] gt by auto
    with o'(1) at show ?thesis by (simp add: gt)
  next
    case False
    then have "?at + sizeof t \<le> off' \<and> off' + sizeof u \<le> fields_end packed (?at + sizeof t) fs"
      using Cons.prems(1,2) Cons.prems(3) [OF list.set_intros(2)] gt by (intro Cons.IH) simp_all
    with at show ?thesis by (simp add: gt)
  qed
qed simp

lemma variant_bounds:
  assumes "\<And>g t ps off' u. (g, t) \<in> set fs \<Longrightarrow> field_at t ps = Some (off', u) \<Longrightarrow> off' + sizeof u \<le> sizeof t"
  shows "variant_at fs f ps = Some (off', u) \<Longrightarrow> off' + sizeof u \<le> widest fs"
  using assms
proof (induction fs)
  case (Cons gt fs)
  obtain g t where gt: "gt = (g, t)" by (cases gt)
  show ?case
  proof (cases "f = g")
    case True
    then show ?thesis using Cons.prems(1) Cons.prems(2) [of g t] gt by fastforce
  next
    case False
    then have "off' + sizeof u \<le> widest fs"
      using Cons.prems(1) Cons.prems(2) [OF list.set_intros(2)] gt by (intro Cons.IH) simp_all
    then show ?thesis by (simp add: gt)
  qed
qed simp

lemma proper_member: "proper_fields fs \<Longrightarrow> (g, t) \<in> set fs \<Longrightarrow> proper t"
  by (induction fs) auto

text \<open>A part lies within the object.\<close>

lemma field_bounds: "proper t \<Longrightarrow> field_at t ps = Some (off, u) \<Longrightarrow> off + sizeof u \<le> sizeof t"
proof (induction t arbitrary: ps off u)
  case (Scalar n)
  then show ?case by (cases ps) auto
next
  case (Array n t)
  show ?case
  proof (cases ps)
    case Nil
    then show ?thesis using Array.prems by simp
  next
    case (Cons p qs)
    then obtain i o' where i: "i < n" "off = i * sizeof t + o'" "field_at t qs = Some (o', u)"
      using Array.prems(2) by (cases p) (auto split: if_splits)
    then have "o' + sizeof u \<le> sizeof t" using Array by simp
    moreover have "Suc i * sizeof t \<le> n * sizeof t" using i(1) by (intro mult_le_mono) simp_all
    ultimately show ?thesis by (simp add: i(2))
  qed
next
  case (Struct packed fs)
  have part: "off' + sizeof v \<le> sizeof t'" if "(g, t') \<in> set fs" "field_at t' qs = Some (off', v)" for g t' qs off' v
    using Struct.IH [OF that(1), of t'] that proper_member [of fs g t'] Struct.prems(1) by simp
  show ?case
  proof (cases ps)
    case Nil
    then show ?thesis using Struct.prems by simp
  next
    case (Cons p qs)
    then obtain f where "member_at packed 0 fs f qs = Some (off, u)" using Struct.prems(2) by (cases p) auto
    then have "off + sizeof u \<le> fields_end packed 0 fs"
      using member_bounds [of fs packed 0 f qs off u, OF part] Struct.prems(1) by simp
    also have "\<dots> \<le> sizeof (Struct packed fs)" by (simp add: round_up_le fields_align_pos)
    finally show ?thesis .
  qed
next
  case (Union fs)
  have part: "off' + sizeof v \<le> sizeof t'" if "(g, t') \<in> set fs" "field_at t' qs = Some (off', v)" for g t' qs off' v
    using Union.IH [OF that(1), of t'] that proper_member [of fs g t'] Union.prems(1) by simp
  show ?case
  proof (cases ps)
    case Nil
    then show ?thesis using Union.prems by simp
  next
    case (Cons p qs)
    then obtain f where "variant_at fs f qs = Some (off, u)" using Union.prems(2) by (cases p) auto
    then have "off + sizeof u \<le> widest fs" using variant_bounds [of fs f qs off u, OF part] by simp
    also have "\<dots> \<le> sizeof (Union fs)" by (simp add: round_up_le fields_align_pos)
    finally show ?thesis .
  qed
qed

lemma member_at_bounds:
  assumes "proper_fields fs" "member_at packed off fs f ps = Some (off', u)"
  shows "off \<le> off' \<and> off' + sizeof u \<le> fields_end packed off fs"
  using member_bounds [OF _ assms] field_bounds proper_member [OF assms(1)] by blast

text \<open>Parts at paths that part do not overlap.\<close>

lemma member_at_slot:
  "member_at packed off fs f ps = (case member_at packed off fs f [] of None \<Rightarrow> None
     | Some (base, t) \<Rightarrow> map_option (\<lambda>(o', u). (base + o', u)) (field_at t ps))"
proof (induction fs arbitrary: off)
  case (Cons gt fs)
  then show ?case by (cases gt) (auto simp: option.map_comp o_def split_beta)
qed simp

lemma member_slot_type: "member_at packed off fs f [] = Some (base, t) \<Longrightarrow> member_type fs f = Some t \<and> (f, t) \<in> set fs"
proof (induction fs arbitrary: off)
  case (Cons gt fs)
  then show ?case by (cases gt) (auto split: if_splits)
qed simp

lemma member_slots_apart:
  "proper_fields fs \<Longrightarrow> f \<noteq> g \<Longrightarrow> member_at packed off fs f [] = Some (b, t) \<Longrightarrow>
    member_at packed off fs g [] = Some (c, u) \<Longrightarrow> b + sizeof t \<le> c \<or> c + sizeof u \<le> b"
proof (induction fs arbitrary: off)
  case (Cons hv fs)
  obtain h v where hv: "hv = (h, v)" by (cases hv)
  note behind = member_at_bounds [of fs packed "place packed off v + sizeof v"]
  show ?case
  proof (cases "h \<in> {f, g}")
    case True
    then show ?thesis using Cons.prems hv behind by (auto split: if_splits)
  next
    case False
    then show ?thesis using Cons.prems hv by (intro Cons.IH [of "place packed off v + sizeof v"]) auto
  qed
qed simp

lemma elements_apart:
  fixes i j k :: nat
  assumes "i \<noteq> j" "x + a \<le> k" "y + b \<le> k"
  shows "i * k + x + a \<le> j * k + y \<or> j * k + y + b \<le> i * k + x"
proof (cases "i < j")
  case True
  then have "Suc i * k \<le> j * k" by (intro mult_le_mono) simp_all
  with assms(2) show ?thesis by simp
next
  case False
  then have "Suc j * k \<le> i * k" using assms(1) by (intro mult_le_mono) simp_all
  with assms(3) show ?thesis by simp
qed

lemma fields_apart:
  "proper t \<Longrightarrow> paths_part t ps qs \<Longrightarrow> field_at t ps = Some (x, u) \<Longrightarrow> field_at t qs = Some (y, v) \<Longrightarrow>
    x + sizeof u \<le> y \<or> y + sizeof v \<le> x"
proof (induction t ps qs arbitrary: x y rule: paths_part.induct)
  case (1 n t i ps j qs)
  obtain x' y' where at: "field_at t ps = Some (x', u)" "field_at t qs = Some (y', v)" "x = i * sizeof t + x'" "y = j * sizeof t + y'"
    using "1.prems"(3,4) by (auto split: if_splits)
  have "x' + sizeof u \<le> sizeof t" "y' + sizeof v \<le> sizeof t" using field_bounds at "1.prems"(1) by simp_all
  then show ?case
    using elements_apart [of i j x' "sizeof u" "sizeof t" y' "sizeof v"] "1.IH" [of x' y'] at "1.prems"(1,2) by (cases "i = j") auto
next
  case (2 packed fs f ps g qs)
  obtain b t c w x' y' where at: "member_at packed 0 fs f [] = Some (b, t)" "member_at packed 0 fs g [] = Some (c, w)"
    "field_at t ps = Some (x', u)" "field_at w qs = Some (y', v)" "x = b + x'" "y = c + y'"
    using "2.prems"(3,4) member_at_slot [of packed 0 fs f ps] member_at_slot [of packed 0 fs g qs] by (auto split: option.splits)
  note types = member_slot_type [OF at(1)] member_slot_type [OF at(2)]
  have proper: "proper t" "proper w" using "2.prems"(1) types proper_member [of fs] by auto
  show ?case
  proof (cases "f = g")
    case True
    then show ?thesis using "2.IH" [of t x' y'] "2.prems"(2) types at proper by simp
  next
    case False
    then have "b + sizeof t \<le> c \<or> c + sizeof w \<le> b" using member_slots_apart [OF _ False at(1,2)] "2.prems"(1) by simp
    then show ?thesis using field_bounds [OF proper(1) at(3)] field_bounds [OF proper(2) at(4)] at(5,6) by linarith
  qed
qed auto

text \<open>Without packed structures every part is aligned as its type asks, if the object is.\<close>

fun natural :: "ctype \<Rightarrow> bool" and natural_fields :: "(string \<times> ctype) list \<Rightarrow> bool" where
  "natural (Scalar n) \<longleftrightarrow> n = 1 \<or> n = 2 \<or> n = 4"
| "natural (Array n t) \<longleftrightarrow> natural t"
| "natural (Struct packed fs) \<longleftrightarrow> \<not> packed \<and> natural_fields fs"
| "natural (Union fs) \<longleftrightarrow> natural_fields fs"
| "natural_fields [] \<longleftrightarrow> True"
| "natural_fields ((f, t) # fs) \<longleftrightarrow> natural t \<and> natural_fields fs"

lemma natural_align: "natural t \<Longrightarrow> alignof t \<in> {1, 2, 4}"
  and natural_fields_align: "natural_fields fs \<Longrightarrow> fields_align fs \<in> {1, 2, 4}"
  by (induction t and fs rule: alignof_fields_align.induct) (auto simp: max_def)

lemma natural_member:
  assumes "natural_fields fs" "(f, t) \<in> set fs"
  shows "natural t" "alignof t dvd fields_align fs"
proof -
  have "natural t \<and> alignof t dvd fields_align fs"
    using assms
  proof (induction fs)
    case (Cons gu fs)
    obtain g u where gu: "gu = (g, u)" by (cases gu)
    have "alignof u \<in> {1, 2, 4}" "fields_align fs \<in> {1, 2, 4}"
      using Cons.prems(1) gu natural_align natural_fields_align by auto
    then have "alignof u dvd max (alignof u) (fields_align fs)" "fields_align fs dvd max (alignof u) (fields_align fs)"
      by (auto simp: max_def)
    then show ?case using Cons gu by (auto intro: dvd_trans)
  qed simp
  then show "natural t" "alignof t dvd fields_align fs" by simp_all
qed

lemma alignof_dvd_sizeof: "natural t \<Longrightarrow> alignof t dvd sizeof t"
  by (induction t) (auto simp: dvd_round_up)

lemma member_aligned:
  assumes "natural_fields fs" "member_at False off fs f [] = Some (b, t)"
  shows "alignof t dvd b"
  using assms
proof (induction fs arbitrary: off)
  case (Cons gu fs)
  then show ?case by (cases gu) (auto simp: place_def dvd_round_up split: if_splits)
qed simp

lemma variant_member: "variant_at fs f ps = Some (x, u) \<Longrightarrow> \<exists>t. (f, t) \<in> set fs \<and> field_at t ps = Some (x, u)"
  by (induction fs) (auto split: if_splits)

lemma field_aligned: "natural t \<Longrightarrow> field_at t ps = Some (x, u) \<Longrightarrow> alignof u dvd x \<and> alignof u dvd alignof t"
proof (induction t arbitrary: ps x u)
  case (Scalar n)
  then show ?case by (cases ps) auto
next
  case (Array n t)
  show ?case
  proof (cases ps)
    case (Cons p qs)
    then obtain i x' where i: "x = i * sizeof t + x'" "field_at t qs = Some (x', u)"
      using Array.prems(2) by (cases p) (auto split: if_splits)
    then have at: "alignof u dvd x'" "alignof u dvd alignof t" using Array by simp_all
    then have "alignof u dvd sizeof t" using alignof_dvd_sizeof [of t] Array.prems(1) by (auto intro: dvd_trans)
    with at show ?thesis by (simp add: i(1))
  qed (use Array.prems in simp)
next
  case (Struct packed fs)
  show ?case
  proof (cases ps)
    case (Cons p qs)
    then obtain f b t x' where at: "member_at False 0 fs f [] = Some (b, t)" "field_at t qs = Some (x', u)" "x = b + x'"
      using Struct.prems member_at_slot [of False 0 fs _ qs] by (cases p) (auto split: option.splits)
    have fs: "natural_fields fs" "(f, t) \<in> set fs" using Struct.prems(1) member_slot_type [OF at(1)] by auto
    have "alignof u dvd x' \<and> alignof u dvd alignof t"
      using Struct.IH [OF fs(2), of t] natural_member(1) [OF fs] at(2) by simp
    then show ?thesis
      using member_aligned [OF fs(1) at(1)] natural_member(2) [OF fs] at(3) Struct.prems(1)
      by (auto intro: dvd_trans)
  qed (use Struct.prems in simp)
next
  case (Union fs)
  show ?case
  proof (cases ps)
    case (Cons p qs)
    then obtain f t where at: "(f, t) \<in> set fs" "field_at t qs = Some (x, u)"
      using Union.prems(2) variant_member by (cases p) (auto, blast)
    have "natural_fields fs" using Union.prems(1) by simp
    with Union.IH [OF at(1), of t] natural_member [OF this at(1)] at(2) show ?thesis by (auto intro: dvd_trans)
  qed (use Union.prems in simp)
qed

section \<open>The structures of the program\<close>

text \<open>A union without a name is a member with the empty name.\<close>

definition struct_heapTable :: ctype where
  "struct_heapTable = Struct False
     [(''entries'', pointer),
      (''total'', uint32_t)]"

definition struct_heap :: ctype where
  "struct_heap = Struct False
     [(''table'', struct_heapTable),
      (''saddr'', pointer)]"

definition struct_paging_4gb_chunk :: ctype where
  "struct_paging_4gb_chunk = Struct False
     [(''directory_entry'', pointer)]"

definition struct_gdt :: ctype where
  "struct_gdt = Struct True
     [(''limit0_15'', uint16_t),
      (''base0_15'', uint16_t),
      (''base16_23'', uint8_t),
      (''access_byte'', uint8_t),
      (''flags'', uint8_t),
      (''base24_31'', uint8_t)]"

definition struct_gdt_structured :: ctype where
  "struct_gdt_structured = Struct False
     [(''base'', uint32_t),
      (''limit'', uint32_t),
      (''type'', uint8_t)]"

definition struct_tss :: ctype where
  "struct_tss = Struct True (map (\<lambda>f. (f, uint32_t))
     [''link'', ''esp0'', ''ss0'', ''esp1'', ''esp2'', ''ss2'', ''sr3'', ''eip'', ''eflags'', ''eax'', ''ecx'', ''edx'', ''ebx'', ''esp'', ''ebp'', ''esi'', ''edi'', ''es'', ''cs'', ''ss'', ''ds'', ''fs'', ''gs'', ''ldtr'', ''iopb''])"

definition struct_path_root :: ctype where
  "struct_path_root = Struct False
     [(''driveNo'', int_t),
      (''first'', pointer)]"

definition struct_path_part :: ctype where
  "struct_path_part = Struct False
     [(''part'', pointer),
      (''next'', pointer)]"

definition struct_disk :: ctype where
  "struct_disk = Struct False
     [(''diskType'', uint32_t),
      (''sectorSize'', int_t),
      (''id'', int_t),
      (''filesystem'', pointer),
      (''fs_private'', pointer)]"

definition struct_disk_stream :: ctype where
  "struct_disk_stream = Struct False
     [(''pos'', int_t),
      (''disk'', pointer)]"

definition struct_file_stat :: ctype where
  "struct_file_stat = Struct False
     [(''flags'', uint32_t),
      (''filesize'', uint32_t)]"

definition struct_fileSystem :: ctype where
  "struct_fileSystem = Struct False
     [(''resolve'', pointer),
      (''open'', pointer),
      (''read'', pointer),
      (''seek'', pointer),
      (''stat'', pointer),
      (''close'', pointer),
      (''name'', Array 20 char_t)]"

definition struct_file_descriptor :: ctype where
  "struct_file_descriptor = Struct False
     [(''index'', int_t),
      (''filesystem'', pointer),
      (''privateInfo'', pointer),
      (''disk'', pointer)]"

definition struct_fat_header_extended :: ctype where
  "struct_fat_header_extended = Struct True
     [(''drive_number'', uint8_t),
      (''win_nt_bit'', uint8_t),
      (''signature'', uint8_t),
      (''volume_id'', uint32_t),
      (''volume_id_string'', Array 11 uint8_t),
      (''system_id_string'', Array 8 uint8_t)]"

definition struct_fat_header :: ctype where
  "struct_fat_header = Struct True
     [(''short_jmp_ins'', Array 3 uint8_t),
      (''oem_identified'', Array 8 uint8_t),
      (''bytes_per_sector'', uint16_t),
      (''sectors_per_cluster'', uint8_t),
      (''reserved_sectors'', uint16_t),
      (''fat_copies'', uint8_t),
      (''rood_dir_entries'', uint16_t),
      (''number_of_sectors'', uint16_t),
      (''media_type'', uint8_t),
      (''sectors_per_fat'', uint16_t),
      (''sectors_per_track'', uint16_t),
      (''number_of_heads'', uint16_t),
      (''hidden_sectors'', uint32_t),
      (''sectors_big'', uint32_t)]"

definition struct_fat_h :: ctype where
  "struct_fat_h = Struct False
     [(''primary_header'', struct_fat_header),
      (''shared'', Union [(''extended_header'', struct_fat_header_extended)])]"

definition struct_fat_directory_item :: ctype where
  "struct_fat_directory_item = Struct True
     [(''filename'', Array 8 uint8_t),
      (''ext'', Array 3 uint8_t),
      (''attribute'', uint8_t),
      (''reserved'', uint8_t),
      (''creation_time_tenths_of_a_sec'', uint8_t),
      (''creation_time'', uint16_t),
      (''creation_date'', uint16_t),
      (''last_access'', uint16_t),
      (''high_16_bits_first_cluster'', uint16_t),
      (''last_mode_time'', uint16_t),
      (''last_mode_date'', uint16_t),
      (''low_16_bits_first_cluster'', uint16_t),
      (''filesize'', uint32_t)]"

definition struct_fat_directory :: ctype where
  "struct_fat_directory = Struct False
     [(''item'', pointer),
      (''total'', int_t),
      (''sector_pos'', int_t),
      (''ending_sector_pos'', int_t)]"

definition struct_fat_item :: ctype where
  "struct_fat_item = Struct False
     [('''', Union [(''item'', pointer), (''directory'', pointer)]),
      (''type'', uint32_t)]"

definition struct_fat_file_descriptor :: ctype where
  "struct_fat_file_descriptor = Struct False
     [(''item'', pointer),
      (''pos'', uint32_t)]"

definition struct_fat_private :: ctype where
  "struct_fat_private = Struct False
     [(''header'', struct_fat_h),
      (''root_directory'', struct_fat_directory),
      (''cluster_read_stream'', pointer),
      (''fat_read_stream'', pointer),
      (''directory_stream'', pointer)]"

definition struct_registers :: ctype where
  "struct_registers = Struct False (map (\<lambda>f. (f, uint32_t))
     [''edi'', ''esi'', ''ebp'', ''ebx'', ''edx'', ''ecx'', ''eax'', ''ip'', ''cs'', ''flags'', ''esp'', ''ss''])"

definition struct_task :: ctype where
  "struct_task = Struct False
     [(''page_directory'', pointer),
      (''registers'', struct_registers),
      (''process'', pointer),
      (''next'', pointer),
      (''prev'', pointer)]"

definition struct_keyboard_buffer :: ctype where
  "struct_keyboard_buffer = Struct False
     [(''buffer'', Array (unat PEACHOS_KEYBOARD_BUFFER_SIZE) char_t),
      (''tail'', int_t),
      (''head'', int_t)]"

definition struct_process :: ctype where
  "struct_process = Struct False
     [(''id'', uint16_t),
      (''filename'', Array (unat PEACHOS_MAX_PATH_LENGTH) char_t),
      (''task'', pointer),
      (''allocations'', Array (unat PEACHOS_MAX_PROGRAM_ALLOCATIONS) pointer),
      (''ptr'', pointer),
      (''stack'', pointer),
      (''size'', uint32_t),
      (''keyboard'', struct_keyboard_buffer)]"

definition struct_idt_desc :: ctype where
  "struct_idt_desc = Struct True
     [(''offset_1'', uint16_t),
      (''selector'', uint16_t),
      (''zero'', uint8_t),
      (''type_attr'', uint8_t),
      (''offset_2'', uint16_t)]"

definition struct_idtr_desc :: ctype where
  "struct_idtr_desc = Struct True
     [(''limit'', uint16_t),
      (''base'', uint32_t)]"

definition struct_interrupt_frame :: ctype where
  "struct_interrupt_frame = Struct True (map (\<lambda>f. (f, uint32_t))
     [''edi'', ''esi'', ''ebp'', ''reserved'', ''ebx'', ''edx'', ''ecx'', ''eax'', ''ip'', ''cs'', ''flags'', ''esp'', ''ss''])"

definition struct_keyboard :: ctype where
  "struct_keyboard = Struct False
     [(''init_func'', pointer),
      (''name'', Array 20 char_t),
      (''next'', pointer)]"

lemmas struct_decls = struct_heapTable_def struct_heap_def struct_paging_4gb_chunk_def struct_gdt_def struct_gdt_structured_def struct_tss_def struct_path_root_def struct_path_part_def struct_disk_def struct_disk_stream_def struct_file_stat_def struct_fileSystem_def struct_file_descriptor_def struct_fat_header_extended_def struct_fat_header_def struct_fat_h_def struct_fat_directory_item_def struct_fat_directory_def struct_fat_item_def struct_fat_file_descriptor_def struct_fat_private_def struct_registers_def struct_task_def struct_keyboard_buffer_def struct_process_def struct_idt_desc_def struct_idtr_desc_def struct_interrupt_frame_def struct_keyboard_def

definition kernel_structs :: "ctype list" where
  "kernel_structs =
     [struct_heapTable, struct_heap, struct_paging_4gb_chunk, struct_gdt, struct_gdt_structured, struct_tss, struct_path_root, struct_path_part, struct_disk, struct_disk_stream, struct_file_stat, struct_fileSystem, struct_file_descriptor, struct_fat_header_extended, struct_fat_header, struct_fat_h, struct_fat_directory_item, struct_fat_directory, struct_fat_item, struct_fat_file_descriptor, struct_fat_private, struct_registers, struct_task, struct_keyboard_buffer, struct_process, struct_idt_desc, struct_idtr_desc, struct_interrupt_frame, struct_keyboard]"

lemmas layout_eval = struct_decls place_def round_up_def

section \<open>Sizes and offsets the other theories use\<close>

lemma heap_layout:
  "sizeof struct_heapTable = 8"
  "sizeof struct_heap = 12"
  "sizeof struct_paging_4gb_chunk = 4"
  "field_at struct_heap [Member ''table'', Member ''entries''] = Some (0, pointer)"
  "field_at struct_heap [Member ''table'', Member ''total''] = Some (4, uint32_t)"
  "field_at struct_heap [Member ''saddr''] = Some (8, pointer)"
  "field_at struct_paging_4gb_chunk [Member ''directory_entry''] = Some (0, pointer)"
  by (simp_all add: layout_eval)

lemma segment_layout:
  "sizeof struct_gdt = 8"
  "sizeof struct_gdt_structured = 12"
  "sizeof struct_tss = 100"
  "sizeof struct_idt_desc = 8"
  "sizeof struct_idtr_desc = 6"
  "field_at struct_tss [Member ''esp0''] = Some (4, uint32_t)"
  "field_at struct_tss [Member ''ss0''] = Some (8, uint32_t)"
  "field_at struct_idt_desc [Member ''offset_1''] = Some (0, uint16_t)"
  "field_at struct_idt_desc [Member ''selector''] = Some (2, uint16_t)"
  "field_at struct_idt_desc [Member ''zero''] = Some (4, uint8_t)"
  "field_at struct_idt_desc [Member ''type_attr''] = Some (5, uint8_t)"
  "field_at struct_idt_desc [Member ''offset_2''] = Some (6, uint16_t)"
  "field_at struct_idtr_desc [Member ''base''] = Some (2, uint32_t)"
  by (simp_all add: layout_eval)

lemma path_layout:
  "sizeof struct_path_root = 8"
  "sizeof struct_path_part = 8"
  "field_at struct_path_root [Member ''driveNo''] = Some (0, int_t)"
  "field_at struct_path_root [Member ''first''] = Some (4, pointer)"
  "field_at struct_path_part [Member ''part''] = Some (0, pointer)"
  "field_at struct_path_part [Member ''next''] = Some (4, pointer)"
  by (simp_all add: layout_eval)

lemma disk_layout:
  "sizeof struct_disk = 20"
  "sizeof struct_disk_stream = 8"
  "field_at struct_disk [Member ''diskType''] = Some (0, uint32_t)"
  "field_at struct_disk [Member ''sectorSize''] = Some (4, int_t)"
  "field_at struct_disk [Member ''id''] = Some (8, int_t)"
  "field_at struct_disk [Member ''filesystem''] = Some (12, pointer)"
  "field_at struct_disk [Member ''fs_private''] = Some (16, pointer)"
  "field_at struct_disk_stream [Member ''pos''] = Some (0, int_t)"
  "field_at struct_disk_stream [Member ''disk''] = Some (4, pointer)"
  by (simp_all add: layout_eval)

lemma file_layout:
  "sizeof struct_file_stat = 8"
  "sizeof struct_file_descriptor = 16"
  "field_at struct_fileSystem [Member ''name''] = Some (24, Array 20 char_t)"
  "field_at struct_file_descriptor [Member ''index''] = Some (0, int_t)"
  "field_at struct_file_descriptor [Member ''filesystem''] = Some (4, pointer)"
  "field_at struct_file_descriptor [Member ''privateInfo''] = Some (8, pointer)"
  "field_at struct_file_descriptor [Member ''disk''] = Some (12, pointer)"
  "field_at struct_file_stat [Member ''flags''] = Some (0, uint32_t)"
  "field_at struct_file_stat [Member ''filesize''] = Some (4, uint32_t)"
  by (simp_all add: layout_eval)

lemma fat16_layout:
  "sizeof struct_fat_h = 62"
  "sizeof struct_fat_private = 92"
  "sizeof struct_fat_directory = 16"
  "sizeof struct_fat_directory_item = 32"
  "sizeof struct_fat_item = 8"
  "sizeof struct_fat_file_descriptor = 8"
  "field_at struct_fat_private [Member ''header'', Member ''primary_header'', Member ''sectors_per_cluster''] = Some (13, uint8_t)"
  "field_at struct_fat_private [Member ''header'', Member ''primary_header'', Member ''reserved_sectors''] = Some (14, uint16_t)"
  "field_at struct_fat_private [Member ''header'', Member ''primary_header'', Member ''fat_copies''] = Some (16, uint8_t)"
  "field_at struct_fat_private [Member ''header'', Member ''primary_header'', Member ''rood_dir_entries''] = Some (17, uint16_t)"
  "field_at struct_fat_private [Member ''header'', Member ''primary_header'', Member ''sectors_per_fat''] = Some (22, uint16_t)"
  "field_at struct_fat_private [Member ''header'', Member ''shared'', Member ''extended_header'', Member ''signature''] = Some (38, uint8_t)"
  "field_at struct_fat_private [Member ''root_directory''] = Some (64, struct_fat_directory)"
  "field_at struct_fat_private [Member ''root_directory'', Member ''ending_sector_pos''] = Some (76, int_t)"
  "field_at struct_fat_private [Member ''cluster_read_stream''] = Some (80, pointer)"
  "field_at struct_fat_private [Member ''fat_read_stream''] = Some (84, pointer)"
  "field_at struct_fat_private [Member ''directory_stream''] = Some (88, pointer)"
  "field_at struct_fat_directory [Member ''item''] = Some (0, pointer)"
  "field_at struct_fat_directory [Member ''total''] = Some (4, int_t)"
  "field_at struct_fat_directory [Member ''sector_pos''] = Some (8, int_t)"
  "field_at struct_fat_directory [Member ''ending_sector_pos''] = Some (12, int_t)"
  "field_at struct_fat_directory_item [Member ''filename''] = Some (0, Array 8 uint8_t)"
  "field_at struct_fat_directory_item [Member ''ext''] = Some (8, Array 3 uint8_t)"
  "field_at struct_fat_directory_item [Member ''attribute''] = Some (11, uint8_t)"
  "field_at struct_fat_directory_item [Member ''high_16_bits_first_cluster''] = Some (20, uint16_t)"
  "field_at struct_fat_directory_item [Member ''low_16_bits_first_cluster''] = Some (26, uint16_t)"
  "field_at struct_fat_directory_item [Member ''filesize''] = Some (28, uint32_t)"
  "field_at struct_fat_item [Member '''', Member ''item''] = Some (0, pointer)"
  "field_at struct_fat_item [Member '''', Member ''directory''] = Some (0, pointer)"
  "field_at struct_fat_item [Member ''type''] = Some (4, uint32_t)"
  "field_at struct_fat_file_descriptor [Member ''item''] = Some (0, pointer)"
  "field_at struct_fat_file_descriptor [Member ''pos''] = Some (4, uint32_t)"
  by (simp_all add: layout_eval)

lemma task_layout:
  "sizeof struct_task = 64"
  "sizeof struct_registers = 48"
  "sizeof struct_interrupt_frame = 52"
  "field_at struct_task [Member ''page_directory''] = Some (0, pointer)"
  "field_at struct_task [Member ''registers''] = Some (4, struct_registers)"
  "field_at struct_task [Member ''registers'', Member ''ip''] = Some (32, uint32_t)"
  "field_at struct_task [Member ''registers'', Member ''cs''] = Some (36, uint32_t)"
  "field_at struct_task [Member ''registers'', Member ''flags''] = Some (40, uint32_t)"
  "field_at struct_task [Member ''registers'', Member ''esp''] = Some (44, uint32_t)"
  "field_at struct_task [Member ''registers'', Member ''ss''] = Some (48, uint32_t)"
  "field_at struct_task [Member ''process''] = Some (52, pointer)"
  "field_at struct_task [Member ''next''] = Some (56, pointer)"
  "field_at struct_task [Member ''prev''] = Some (60, pointer)"
  "field_at struct_interrupt_frame [Member ''eax''] = Some (28, uint32_t)"
  "field_at struct_interrupt_frame [Member ''ip''] = Some (32, uint32_t)"
  "field_at struct_interrupt_frame [Member ''cs''] = Some (36, uint32_t)"
  "field_at struct_interrupt_frame [Member ''flags''] = Some (40, uint32_t)"
  "field_at struct_interrupt_frame [Member ''esp''] = Some (44, uint32_t)"
  "field_at struct_interrupt_frame [Member ''ss''] = Some (48, uint32_t)"
  by (simp_all add: layout_eval)

lemma process_layout:
  "sizeof struct_process = 5256"
  "sizeof struct_keyboard = 28"
  "field_at struct_process [Member ''id''] = Some (0, uint16_t)"
  "field_at struct_process [Member ''filename''] = Some (2, Array 108 char_t)"
  "field_at struct_process [Member ''task''] = Some (112, pointer)"
  "field_at struct_process [Member ''allocations''] = Some (116, Array 1024 pointer)"
  "field_at struct_process [Member ''ptr''] = Some (4212, pointer)"
  "field_at struct_process [Member ''stack''] = Some (4216, pointer)"
  "field_at struct_process [Member ''size''] = Some (4220, uint32_t)"
  "field_at struct_process [Member ''keyboard'', Member ''buffer''] = Some (4224, Array 1024 char_t)"
  "field_at struct_process [Member ''keyboard'', Member ''tail''] = Some (5248, int_t)"
  "field_at struct_process [Member ''keyboard'', Member ''head''] = Some (5252, int_t)"
  "field_at struct_keyboard [Member ''init_func''] = Some (0, pointer)"
  "field_at struct_keyboard [Member ''name''] = Some (4, Array 20 char_t)"
  "field_at struct_keyboard [Member ''next''] = Some (24, pointer)"
  by (simp_all add: layout_eval)

section \<open>Parts of the declared structures\<close>

lemma kernel_structs_proper: "\<forall>t\<in>set kernel_structs. proper t \<and> sizeof t \<le> 5256"
  by (simp add: kernel_structs_def layout_eval)

text \<open>A part of a structure (a field, a field of a nested structure, an element of an array) lies inside the object,
  two parts whose paths part at a structure or an array share no byte, and in a structure that is not packed every part
  of an aligned object is aligned.\<close>

lemma kernel_structs_separate:
  fixes p :: addr
  assumes "t \<in> set kernel_structs" "field_at t ps = Some (x, u)" "field_at t qs = Some (y, v)"
  shows "region (p + of_nat x) (of_nat (sizeof u)) \<subseteq> region p (of_nat (sizeof t)) \<and>
    (paths_part t ps qs \<longrightarrow> region (p + of_nat x) (of_nat (sizeof u)) \<inter> region (p + of_nat y) (of_nat (sizeof v)) = {}) \<and>
    (natural t \<and> 4 dvd unat p \<longrightarrow> alignof u dvd unat (p + of_nat x))"
proof (intro conjI impI)
  have t: "proper t" "sizeof t \<le> 5256" using kernel_structs_proper assms(1) by auto
  have inside: "x + sizeof u \<le> sizeof t" "y + sizeof v \<le> sizeof t" using field_bounds t(1) assms(2,3) by auto
  then have small: "unat (of_nat k :: u32) = k" if "k \<in> {x, y, sizeof u, sizeof v, sizeof t}" for k
    using that t(2) by auto
  show "region (p + of_nat x) (of_nat (sizeof u)) \<subseteq> region p (of_nat (sizeof t))"
    by (rule field_subset) (use inside(1) in \<open>simp add: small\<close>)
  show "region (p + of_nat x) (of_nat (sizeof u)) \<inter> region (p + of_nat y) (of_nat (sizeof v)) = {}" if "paths_part t ps qs"
    using fields_apart [OF t(1) that assms(2,3)]
  proof
    assume "x + sizeof u \<le> y"
    then show ?thesis using inside t(2) by (intro field_disjoint) (simp_all add: small)
  next
    assume "y + sizeof v \<le> x"
    then have "region (p + of_nat y) (of_nat (sizeof v)) \<inter> region (p + of_nat x) (of_nat (sizeof u)) = {}"
      using inside t(2) by (intro field_disjoint) (simp_all add: small)
    then show ?thesis by blast
  qed
  assume *: "natural t \<and> 4 dvd unat p"
  then have "alignof u dvd x" "alignof u dvd alignof t" "alignof t dvd 4"
    using field_aligned [OF _ assms(2)] natural_align [of t] by auto
  then have al: "alignof u dvd x" "alignof u dvd 4" by (blast intro: dvd_trans)+
  have "unat (p + of_nat x) = (unat p + x) mod 2 ^ 32"
    using small [of x] by (simp add: unat_word_ariths)
  moreover have "alignof u dvd 2 ^ 32" using al(2) by (rule dvd_trans) simp
  moreover have "alignof u dvd unat p + x" using dvd_trans [OF al(2)] al(1) * by (intro dvd_add) auto
  ultimately show "alignof u dvd unat (p + of_nat x)" by (simp only: dvd_mod)
qed

end
