(* ===== verification/Memory.thy ===== *)
theory Memory
  imports Config
begin

text \<open>
  \<^verbatim>\<open>memory/memory.c\<close>: \<open>memset\<close>, \<open>memcmp\<close> and \<open>memcpy\<close> on the flat memory.  The C functions
  \<open>memset\<close> and \<open>memcpy\<close> return their first argument; the model returns the memory they leave.
  The lemmas give each a closed form: which byte every address holds afterwards.
\<close>

definition memset :: "mem \<Rightarrow> addr \<Rightarrow> u32 \<Rightarrow> u32 \<Rightarrow> mem" where
  "memset m ptr t n = for_u32 0 n (\<lambda>i m. m(ptr + i := ucast t)) m"

text \<open>\<open>char\<close> is signed on the target, so the final comparison of \<open>memcmp\<close> is \<open><s\<close>.\<close>

function memcmp :: "mem \<Rightarrow> addr \<Rightarrow> addr \<Rightarrow> u32 \<Rightarrow> u32" where
  "memcmp m s1 s2 count =
     (if 0 <s count then
        (if m s1 \<noteq> m s2 then (if m s1 <s m s2 then - 1 else 1)
         else memcmp m (s1 + 1) (s2 + 1) (count - 1))
      else 0)"
  by pat_completeness auto
termination
  by (relation "measure (\<lambda>(m, s1, s2, count). unat count)")
    (auto simp: zero_sless unat_sub_if_size)

function memcpy :: "mem \<Rightarrow> addr \<Rightarrow> addr \<Rightarrow> u32 \<Rightarrow> mem" where
  "memcpy m d s len = (if len \<noteq> 0 then memcpy (m(d := m s)) (d + 1) (s + 1) (len - 1) else m)"
  by pat_completeness auto
termination
  by (relation "measure (\<lambda>(m, d, s, len). unat len)") (auto simp: measure_unat)

declare memcmp.simps [simp del] memcpy.simps [simp del]

section \<open>Closed forms\<close>

lemma memset_apply: "memset m p t n a = (if a - p < n then ucast t else m a)"
proof -
  define P where "P i m' \<longleftrightarrow> (\<forall>a. m' a = (if a - p < i then ucast t else m a))" for i and m' :: mem
  have "P n (memset m p t n)"
    unfolding memset_def
  proof (rule for_u32_invariant [where P = P])
    show "P 0 m" by (simp add: P_def)
  next
    fix i m'
    assume "i < n" and "P i m'"
    then show "P (i + 1) (m'(p + i := ucast t))"
      by (auto simp: P_def region_step)
  qed simp
  then show ?thesis by (simp add: P_def)
qed

lemma memset_frame: "same_outside (region p n) m (memset m p t n)"
  by (simp add: same_outside_def memset_apply)

lemma memset_zero_word: "unat i + 4 \<le> unat n \<Longrightarrow> ld32 (memset m p 0 n) (p + i) = 0"
proof -
  assume "unat i + 4 \<le> unat n"
  then have "region (p + i) 4 \<subseteq> region p n" using field_subset [of i 4 n p] by simp
  then have "memset m p 0 n a = 0" if "a \<in> region (p + i) 4" for a using that by (auto simp: memset_apply)
  then have "ld32 (memset m p 0 n) (p + i) = ld32 (\<lambda>_. 0) (p + i)" by (intro ld32_cong)
  then show ?thesis by (simp add: ld32_def)
qed

text \<open>
  The forward copy of \<open>memcpy\<close> is right whenever the destination does not start strictly inside
  the source, so it also moves an overlapping block downwards.
\<close>

lemma memcpy_apply:
  assumes "d = s \<or> len \<le> d - s"
  shows "memcpy m d s len a = (if a - d < len then m (s + (a - d)) else m a)"
  using assms
proof (induction m d s len rule: memcpy.induct)
  case (1 m d s len)
  show ?case
  proof (cases "len = 0")
    case True
    then show ?thesis by (simp add: memcpy.simps)
  next
    case False
    have shift: "a - (d + 1) = a - d - 1" "s + 1 + (a - d - 1) = s + (a - d)" by simp_all
    have x: "x - 1 < len - 1 \<longleftrightarrow> x \<noteq> 0 \<and> x < len" for x
      using False by unat_arith
    have "d + 1 = s + 1 \<or> len - 1 \<le> (d + 1) - (s + 1)"
      using "1.prems" False by (auto; unat_arith)
    then have IH: "memcpy (m(d := m s)) (d + 1) (s + 1) (len - 1) a =
        (if a - d - 1 < len - 1 then (m(d := m s)) (s + (a - d)) else (m(d := m s)) a)"
      by (rule "1.IH" [OF False, unfolded shift])
    have "s + (a - d) \<noteq> d" if "a - d \<noteq> 0" and "a - d < len"
    proof
      assume "s + (a - d) = d"
      then have "d - s = a - d" by (simp add: algebra_simps)
      with that "1.prems" show False by auto
    qed
    with False IH show ?thesis
      by (subst memcpy.simps) (auto simp: x word_gt_0)
  qed
qed

lemma memcpy_frame:
  "d = s \<or> len \<le> d - s \<Longrightarrow> same_outside (region d len) m (memcpy m d s len)"
  by (simp add: same_outside_def memcpy_apply)

lemma memcmp_eq_0_iff:
  "unat n < 2147483648 \<Longrightarrow> memcmp m p q n = 0 \<longleftrightarrow> (\<forall>i<n. m (p + i) = m (q + i))"
proof (induction m p q n rule: memcmp.induct)
  case (1 m p q n)
  show ?case
  proof (cases "0 <s n \<and> m p = m q")
    case True
    then have n: "0 < n" and eq: "m p = m q" and pos: "0 <s n"
      by (auto simp: zero_sless word_less_nat_alt)
    have "unat (n - 1) < 2147483648"
      using "1.prems" n by unat_arith
    then have IH: "memcmp m (p + 1) (q + 1) (n - 1) = 0 \<longleftrightarrow>
        (\<forall>i<n - 1. m (p + 1 + i) = m (q + 1 + i))"
      using "1.IH" pos eq by simp
    have "(\<forall>i<n. m (p + i) = m (q + i)) \<longleftrightarrow> (\<forall>i<n - 1. m (p + 1 + i) = m (q + 1 + i))"
    proof (intro iffI allI impI)
      fix i assume all: "\<forall>i<n. m (p + i) = m (q + i)" and "i < n - 1"
      then have "i + 1 < n" using n by unat_arith
      then show "m (p + 1 + i) = m (q + 1 + i)"
        using all [rule_format, of "i + 1"] by (simp add: ac_simps)
    next
      fix i assume all: "\<forall>i<n - 1. m (p + 1 + i) = m (q + 1 + i)" and "i < n"
      show "m (p + i) = m (q + i)"
      proof (cases "i = 0")
        case False
        then have "i - 1 < n - 1" using \<open>i < n\<close> by unat_arith
        with all have "m (p + 1 + (i - 1)) = m (q + 1 + (i - 1))" by blast
        then show ?thesis by (simp add: algebra_simps)
      qed (use eq in simp)
    qed
    with IH pos eq show ?thesis by (subst memcmp.simps) simp
  next
    case False
    show ?thesis
    proof (cases "0 <s n")
      case True
      then have "0 < n" by (simp add: zero_sless word_less_nat_alt)
      with False True show ?thesis by (subst memcmp.simps) (auto intro!: exI [of _ 0])
    next
      case notpos: False
      with "1.prems" have "unat n = 0" by (simp add: zero_sless)
      then have "n = 0" by (metis unat_eq_zero)
      then show ?thesis by (subst memcmp.simps) simp
    qed
  qed
qed

section \<open>Properties\<close>

text \<open>\<open>memcpy\<close> copies the block: afterwards the destination holds the bytes the source held
  before, and nothing else changes, for separate blocks and for blocks that are moved downwards
  over themselves.\<close>
lemma memcpy_copies:
  assumes "d = s \<or> len \<le> d - s"
  shows "(\<forall>i<len. memcpy m d s len (d + i) = m (s + i)) \<and>
    same_outside (region d len) m (memcpy m d s len)"
  using assms by (simp add: memcpy_apply memcpy_frame)

lemma memcpy_copies_witness:
  "memcpy ((\<lambda>_. 0)(0x100 := 65, 0x101 := 66)) 0xFF 0x100 2 0x100 = 66"
proof -
  have "\<forall>i<2. memcpy ((\<lambda>_. 0)(0x100 := 65, 0x101 := 66)) 0xFF 0x100 2 (0xFF + i) =
      ((\<lambda>_. 0)(0x100 := 65, 0x101 := 66 :: u8)) (0x100 + i)"
    using memcpy_copies [of "0xFF" "0x100" 2 "(\<lambda>_. 0)(0x100 := 65, 0x101 := 66)"] by simp
  from spec [OF this, of 1] show ?thesis by simp
qed

end
