(* ===== verification/Allocator.thy ===== *)
theory Allocator
  imports Config
begin

text \<open>
  What the kernel's components rely on when they ask for memory in pieces of at most one page:
  the interface \<open>page_allocator\<close>.  \<open>owned s\<close> is the memory the clients may use, that is all but
  the allocator's own table and its free pages, \<open>free_pages s\<close> how many more requests can be
  served.  The laws say that a new page
  is fresh, aligned and zeroed over the bytes asked for, that nothing already owned changes, and
  that a client that writes to owned memory only cannot disturb the allocator.  The lemmas proved
  here once are what the clients use: allocation followed by initialisation of the new page, and
  a run of several allocations.
\<close>

locale page_allocator =
  fixes alloc :: "u32 \<Rightarrow> 's \<Rightarrow> addr \<times> 's"
    and mem_of :: "'s \<Rightarrow> mem"
    and set_mem :: "mem \<Rightarrow> 's \<Rightarrow> 's"
    and inv :: "'s \<Rightarrow> bool"
    and owned :: "'s \<Rightarrow> addr set"
    and free_pages :: "'s \<Rightarrow> nat"
  assumes mem_set [simp]: "mem_of (set_mem m s) = m"
    and set_set [simp]: "set_mem m (set_mem m' s) = set_mem m s"
    and set_same [simp]: "set_mem (mem_of s) s = s"
    and alloc_none: "inv s \<Longrightarrow> 0 < n \<Longrightarrow> n \<le> 4096 \<Longrightarrow> free_pages s = 0 \<Longrightarrow> alloc n s = (NULL, s)"
    and alloc_inv: "inv s \<Longrightarrow> 0 < n \<Longrightarrow> n \<le> 4096 \<Longrightarrow> 0 < free_pages s \<Longrightarrow> inv (snd (alloc n s))"
    and alloc_page: "inv s \<Longrightarrow> 0 < n \<Longrightarrow> n \<le> 4096 \<Longrightarrow> 0 < free_pages s \<Longrightarrow>
      fst (alloc n s) \<noteq> NULL \<and> page_aligned (fst (alloc n s))"
    and alloc_fresh: "inv s \<Longrightarrow> 0 < n \<Longrightarrow> n \<le> 4096 \<Longrightarrow> 0 < free_pages s \<Longrightarrow>
      region (fst (alloc n s)) 4096 \<inter> owned s = {}"
    and alloc_owned: "inv s \<Longrightarrow> 0 < n \<Longrightarrow> n \<le> 4096 \<Longrightarrow> 0 < free_pages s \<Longrightarrow>
      owned (snd (alloc n s)) = owned s \<union> region (fst (alloc n s)) 4096"
    and alloc_free_pages: "inv s \<Longrightarrow> 0 < n \<Longrightarrow> n \<le> 4096 \<Longrightarrow> 0 < free_pages s \<Longrightarrow>
      free_pages (snd (alloc n s)) = free_pages s - 1"
    and alloc_zeroed: "inv s \<Longrightarrow> 0 < n \<Longrightarrow> n \<le> 4096 \<Longrightarrow> 0 < free_pages s \<Longrightarrow>
      a \<in> region (fst (alloc n s)) n \<Longrightarrow> mem_of (snd (alloc n s)) a = 0"
    and alloc_keeps: "inv s \<Longrightarrow> 0 < n \<Longrightarrow> n \<le> 4096 \<Longrightarrow> 0 < free_pages s \<Longrightarrow>
      a \<in> owned s \<Longrightarrow> mem_of (snd (alloc n s)) a = mem_of s a"
    and alloc_only_mem: "snd (alloc n s) = set_mem (mem_of (snd (alloc n s))) s"
    and write_owned: "inv s \<Longrightarrow> same_outside (owned s) (mem_of s) m \<Longrightarrow>
      inv (set_mem m s) \<and> owned (set_mem m s) = owned s \<and> free_pages (set_mem m s) = free_pages s"
begin

lemmas alloc_laws = alloc_inv alloc_page alloc_fresh alloc_owned alloc_free_pages

lemma set_alloc: "set_mem m (snd (alloc n s)) = set_mem m s"
  using alloc_only_mem [of n s] by (metis set_set)

text \<open>Allocate a page, then initialise it and perhaps update older owned memory \<open>D\<close>.\<close>

lemma alloc_then_write:
  assumes "inv s" "0 < n" "n \<le> 4096" "0 < free_pages s"
    and "same_outside (region (fst (alloc n s)) 4096 \<union> D) (mem_of (snd (alloc n s))) m"
    and "D \<subseteq> owned s"
  shows "inv (set_mem m s)"
    and "owned (set_mem m s) = owned s \<union> region (fst (alloc n s)) 4096"
    and "free_pages (set_mem m s) = free_pages s - 1"
    and "same_outside (- owned s \<union> D) (mem_of s) m"
proof -
  note laws = alloc_laws [OF assms(1-4)]
  let ?s' = "snd (alloc n s)" and ?p = "fst (alloc n s)"
  have "set_mem m ?s' = set_mem m s" by (rule set_alloc)
  moreover have "same_outside (owned ?s') (mem_of ?s') m"
    using assms(5,6) laws by (auto elim: same_outside_mono)
  ultimately have "inv (set_mem m s) \<and> owned (set_mem m s) = owned ?s' \<and>
      free_pages (set_mem m s) = free_pages ?s'"
    using write_owned [OF laws(1)] by metis
  then show "inv (set_mem m s)"
    and "owned (set_mem m s) = owned s \<union> region ?p 4096"
    and "free_pages (set_mem m s) = free_pages s - 1"
    using laws by simp_all
  show "same_outside (- owned s \<union> D) (mem_of s) m"
    unfolding same_outside_def
  proof (intro allI impI)
    fix a assume a: "a \<notin> - owned s \<union> D"
    with laws(3) have "a \<notin> region ?p 4096 \<union> D" by auto
    with assms(5) have "m a = mem_of ?s' a" by (rule same_outsideD)
    with a show "m a = mem_of s a" using alloc_keeps [OF assms(1-4)] by simp
  qed
qed

primrec alloc_run :: "u32 list \<Rightarrow> 's \<Rightarrow> addr list \<times> 's" where
  "alloc_run [] s = ([], s)"
| "alloc_run (n # ns) s =
     (let (p, s1) = alloc n s; (ps, s2) = alloc_run ns s1 in (p # ps, s2))"

lemma alloc_run_fresh:
  assumes "inv s" and "\<forall>n\<in>set ns. 0 < n \<and> n \<le> 4096" and "length ns \<le> free_pages s"
    and "alloc_run ns s = (ps, s')"
  shows "inv s' \<and> length ps = length ns \<and> owned s \<subseteq> owned s' \<and>
    (\<forall>p\<in>set ps. p \<noteq> NULL \<and> page_aligned p \<and> region p 4096 \<inter> owned s = {} \<and>
       region p 4096 \<subseteq> owned s') \<and>
    (\<forall>i<length ps. \<forall>j<i. region (ps ! i) 4096 \<inter> region (ps ! j) 4096 = {}) \<and>
    (\<forall>a\<in>owned s. mem_of s' a = mem_of s a)"
  using assms
proof (induction ns arbitrary: s ps)
  case Nil
  then show ?case by simp
next
  case (Cons n ns)
  define p s1 where "p = fst (alloc n s)" and "s1 = snd (alloc n s)"
  have n: "0 < n" "n \<le> 4096" and f: "0 < free_pages s" using Cons.prems by auto
  note laws = alloc_laws [OF Cons.prems(1) n f, folded p_def s1_def]
  obtain ps1 where run: "alloc_run ns s1 = (ps1, s')" and ps: "ps = p # ps1"
    using Cons.prems(4) by (auto simp: p_def s1_def split: prod.splits)
  have IH: "inv s' \<and> length ps1 = length ns \<and> owned s1 \<subseteq> owned s' \<and>
    (\<forall>p\<in>set ps1. p \<noteq> NULL \<and> page_aligned p \<and> region p 4096 \<inter> owned s1 = {} \<and>
       region p 4096 \<subseteq> owned s') \<and>
    (\<forall>i<length ps1. \<forall>j<i. region (ps1 ! i) 4096 \<inter> region (ps1 ! j) 4096 = {}) \<and>
    (\<forall>a\<in>owned s1. mem_of s' a = mem_of s1 a)"
    using Cons.prems laws run by (intro Cons.IH) auto
  have "region (ps ! i) 4096 \<inter> region (ps ! j) 4096 = {}" if "i < length ps" "j < i" for i j
    using that IH laws(4) ps by (cases i; cases j) (fastforce simp: nth_mem)+
  moreover have "mem_of s' a = mem_of s a" if "a \<in> owned s" for a
    using that IH laws(4) alloc_keeps [OF Cons.prems(1) n f that] by (simp add: s1_def)
  ultimately show ?case using IH laws ps by auto
qed

end

text \<open>
  An allocator that also takes pages back.  \<open>page s p\<close> says that \<open>p\<close> is the start of a one-page
  allocation that is live in \<open>s\<close>; such a page can be released, which changes no memory the
  clients own.
\<close>

locale page_heap = page_allocator +
  fixes release :: "addr \<Rightarrow> 'a \<Rightarrow> 'a"
    and page :: "'a \<Rightarrow> addr \<Rightarrow> bool"
  assumes page_owned: "inv s \<Longrightarrow> page s p \<Longrightarrow> p \<noteq> NULL \<and> page_aligned p \<and> region p 4096 \<subseteq> owned s"
    and alloc_live: "inv s \<Longrightarrow> 0 < n \<Longrightarrow> n \<le> 4096 \<Longrightarrow> 0 < free_pages s \<Longrightarrow>
      page (snd (alloc n s)) (fst (alloc n s))"
    and alloc_keeps_pages: "inv s \<Longrightarrow> 0 < n \<Longrightarrow> n \<le> 4096 \<Longrightarrow> 0 < free_pages s \<Longrightarrow> page s q \<Longrightarrow>
      page (snd (alloc n s)) q"
    and write_pages: "inv s \<Longrightarrow> same_outside (owned s) (mem_of s) m \<Longrightarrow> page (set_mem m s) q = page s q"
    and release_inv: "inv s \<Longrightarrow> page s p \<Longrightarrow> inv (release p s)"
    and release_owned: "inv s \<Longrightarrow> page s p \<Longrightarrow> owned (release p s) = owned s - region p 4096"
    and release_free: "inv s \<Longrightarrow> page s p \<Longrightarrow> free_pages (release p s) = Suc (free_pages s)"
    and release_keeps: "inv s \<Longrightarrow> page s p \<Longrightarrow> a \<in> owned s \<Longrightarrow> mem_of (release p s) a = mem_of s a"
    and release_keeps_pages: "inv s \<Longrightarrow> page s p \<Longrightarrow> page s q \<Longrightarrow> q \<noteq> p \<Longrightarrow> page (release p s) q"
    and release_no_new: "inv s \<Longrightarrow> page s p \<Longrightarrow> page (release p s) q \<Longrightarrow> page s q"
    and release_only_mem: "release p s = set_mem (mem_of (release p s)) s"
begin

lemmas release_laws = release_inv release_owned release_free

lemma page_not_fresh:
  assumes "inv s" "0 < n" "n \<le> 4096" "0 < free_pages s" "page s q"
  shows "q \<noteq> fst (alloc n s)"
  using page_owned [OF assms(1,5)] alloc_fresh [OF assms(1-4)] mem_region [of q q 4096] by fastforce

lemma alloc_write_pages:
  assumes "inv s" "0 < n" "n \<le> 4096" "0 < free_pages s"
    and "same_outside (region (fst (alloc n s)) 4096 \<union> D) (mem_of (snd (alloc n s))) m"
    and "D \<subseteq> owned s"
  shows "page (set_mem m s) (fst (alloc n s))" and "page s q \<Longrightarrow> page (set_mem m s) q"
proof -
  have "same_outside (owned (snd (alloc n s))) (mem_of (snd (alloc n s))) m"
    using assms(5,6) alloc_owned [OF assms(1-4)] by (auto elim: same_outside_mono)
  from write_pages [OF alloc_inv [OF assms(1-4)] this]
  have "page (set_mem m s) q = page (snd (alloc n s)) q" for q by (simp add: set_alloc)
  then show "page (set_mem m s) (fst (alloc n s))" and "page s q \<Longrightarrow> page (set_mem m s) q"
    using alloc_live [OF assms(1-4)] alloc_keeps_pages [OF assms(1-4)] by simp_all
qed

text \<open>The pages of a list of distinct live pages, released one after the other.\<close>

lemma release_list:
  assumes "inv s" and "distinct ps" and "\<forall>p\<in>set ps. page s p"
  shows "inv (fold release ps s) \<and>
    owned (fold release ps s) = owned s - (\<Union>p\<in>set ps. region p 4096) \<and>
    free_pages (fold release ps s) = free_pages s + length ps \<and>
    (\<forall>a\<in>owned (fold release ps s). mem_of (fold release ps s) a = mem_of s a) \<and>
    (\<forall>q. page s q \<and> q \<notin> set ps \<longrightarrow> page (fold release ps s) q)"
  using assms
proof (induction ps arbitrary: s)
  case Nil
  then show ?case by simp
next
  case (Cons p ps)
  have p: "page s p" using Cons.prems by simp
  note laws = release_laws [OF Cons.prems(1) p]
  have "\<forall>q\<in>set ps. page (release p s) q"
    using Cons.prems release_keeps_pages [OF Cons.prems(1) p] by auto
  then have IH: "inv (fold release ps (release p s)) \<and>
    owned (fold release ps (release p s)) = owned (release p s) - (\<Union>p\<in>set ps. region p 4096) \<and>
    free_pages (fold release ps (release p s)) = free_pages (release p s) + length ps \<and>
    (\<forall>a\<in>owned (fold release ps (release p s)). mem_of (fold release ps (release p s)) a = mem_of (release p s) a) \<and>
    (\<forall>q. page (release p s) q \<and> q \<notin> set ps \<longrightarrow> page (fold release ps (release p s)) q)"
    using Cons.prems laws by (intro Cons.IH) auto
  have "mem_of (fold release ps (release p s)) a = mem_of s a"
    if "a \<in> owned (fold release ps (release p s))" for a
    using that IH laws release_keeps [OF Cons.prems(1) p] by auto
  moreover have "page (fold release ps (release p s)) q" if "page s q" "q \<noteq> p" "q \<notin> set ps" for q
    using that IH release_keeps_pages [OF Cons.prems(1) p] by blast
  ultimately show ?case using IH laws by (simp add: Diff_eq ac_simps)
qed

lemma release_list_other:
  assumes "inv s" "distinct ps" "\<forall>p\<in>set ps. page s p" "page s q" "q \<notin> set ps" "a \<in> region q 4096"
  shows "mem_of (fold release ps s) a = mem_of s a"
proof -
  have "region q 4096 \<inter> region p 4096 = {}" if "p \<in> set ps" for p
    using that assms page_owned [OF assms(1)] by (intro pages_disjoint) auto
  with assms(6) have "a \<notin> (\<Union>p\<in>set ps. region p 4096)" by blast
  moreover have "a \<in> owned s" using page_owned [OF assms(1,4)] assms(6) by blast
  ultimately show ?thesis using release_list [OF assms(1-3)] by blast
qed

text \<open>
  \<open>grows s s' ps D\<close>: from \<open>s\<close> to \<open>s'\<close> the pages \<open>ps\<close> were allocated, and of the memory owned
  before at most \<open>D\<close> was written.  Clients compose their steps with it.
\<close>

definition grows :: "'a \<Rightarrow> 'a \<Rightarrow> addr list \<Rightarrow> addr set \<Rightarrow> bool" where
  "grows s s' ps D \<longleftrightarrow> inv s \<and> inv s' \<and> s' = set_mem (mem_of s') s \<and>
     owned s' = owned s \<union> (\<Union>p\<in>set ps. region p 4096) \<and> free_pages s = free_pages s' + length ps \<and>
     same_outside (- owned s \<union> D) (mem_of s) (mem_of s') \<and> (\<forall>q. page s q \<longrightarrow> page s' q) \<and>
     distinct ps \<and> (\<forall>p\<in>set ps. page s' p \<and> region p 4096 \<inter> owned s = {})"

lemma grows_keeps: "grows s s' ps D \<Longrightarrow> a \<in> owned s \<Longrightarrow> a \<notin> D \<Longrightarrow> mem_of s' a = mem_of s a"
  by (auto simp: grows_def same_outside_def)

lemma grows_mono: "grows s s' ps D \<Longrightarrow> D \<inter> owned s \<subseteq> E \<Longrightarrow> grows s s' ps E"
  by (auto simp: grows_def elim!: same_outside_mono)

lemma grows_perm: "grows s s' ps D \<Longrightarrow> distinct qs \<Longrightarrow> set qs = set ps \<Longrightarrow> grows s s' qs D"
  using distinct_card [of ps] distinct_card [of qs] by (auto simp: grows_def)

lemma grows_write:
  assumes "inv s" and "same_outside D (mem_of s) m" and "D \<subseteq> owned s"
  shows "grows s (set_mem m s) [] D"
proof -
  have "same_outside (owned s) (mem_of s) m" using assms(2,3) by (rule same_outside_mono)
  with assms show ?thesis
    using write_owned [of s m] write_pages [of s m]
    by (auto simp: grows_def elim: same_outside_mono)
qed

lemma grows_alloc:
  assumes "inv s" "0 < n" "n \<le> 4096" "0 < free_pages s"
    and "same_outside (region (fst (alloc n s)) 4096 \<union> D) (mem_of (snd (alloc n s))) m"
    and "D \<subseteq> owned s"
  shows "grows s (set_mem m s) [fst (alloc n s)] D"
  using alloc_then_write [OF assms] alloc_write_pages [OF assms] alloc_fresh [OF assms(1-4)] assms(1,4)
  by (auto simp: grows_def simp del: mem_region)

lemma grows_trans:
  assumes "grows s s1 ps D" and "grows s1 s2 qs E"
  shows "grows s s2 (ps @ qs) (D \<union> E)"
proof -
  have own: "owned s1 = owned s \<union> (\<Union>p\<in>set ps. region p 4096)"
    and new: "\<forall>p\<in>set ps. page s1 p" "\<forall>q\<in>set qs. region q 4096 \<inter> owned s1 = {}"
    using assms by (auto simp: grows_def simp del: mem_region)
  have "p \<noteq> q" if "p \<in> set ps" "q \<in> set qs" for p q
  proof
    assume "p = q"
    with that own new have "region p 4096 = {}" by blast
    then show False using mem_region [of p p 4096] by simp
  qed
  then have "distinct (ps @ qs)" using assms by (auto simp: grows_def)
  moreover have "same_outside (- owned s \<union> (D \<union> E)) (mem_of s) (mem_of s2)"
    using assms own unfolding grows_def by (auto intro: same_outside_trans)
  moreover have "s2 = set_mem (mem_of s2) s"
    using assms unfolding grows_def by (metis set_set)
  ultimately show ?thesis
    using assms own by (auto simp: grows_def simp del: mem_region)
qed

lemma fold_release_only_mem: "fold release qs t = set_mem (mem_of (fold release qs t)) t"
proof (induction qs arbitrary: t)
  case (Cons q qs)
  have "set_mem x (release q t) = set_mem x t" for x using release_only_mem [of q t] by (metis set_set)
  then have "fold release qs (release q t) = set_mem (mem_of (fold release qs (release q t))) t"
    by (rule trans [OF Cons.IH])
  then show ?case by (simp only: fold_simps)
qed simp

lemma grows_old_page:
  assumes "grows s s' ps D" "page s q"
  shows "q \<notin> set ps"
proof
  assume "q \<in> set ps"
  then have "region q 4096 \<inter> owned s = {}" "region q 4096 \<subseteq> owned s"
    using assms page_owned [of s q] by (auto simp: grows_def simp del: mem_region)
  then have "region q 4096 = {}" by blast
  then show False using mem_region [of q q 4096] by simp
qed

text \<open>Some of the pages allocated on the way are released again.\<close>

lemma grows_release_front:
  assumes "grows s s' (ps @ qs) D"
  shows "grows s (fold release ps s') qs D"
proof -
  have g: "inv s'" "distinct ps" "\<forall>p\<in>set ps. page s' p" "\<And>p. p \<in> set (ps @ qs) \<Longrightarrow> region p 4096 \<inter> owned s = {}"
    "owned s' = owned s \<union> (\<Union>p\<in>set (ps @ qs). region p 4096)" "free_pages s = free_pages s' + length (ps @ qs)"
    "same_outside (- owned s \<union> D) (mem_of s) (mem_of s')" "s' = set_mem (mem_of s') s" "distinct qs" "set ps \<inter> set qs = {}"
    "\<forall>q\<in>set qs. page s' q" "inv s"
    using assms by (auto simp: grows_def simp del: mem_region)
  note r = release_list [OF g(1-3)]
  have "region p 4096 \<inter> region q 4096 = {}" if "p \<in> set ps" "q \<in> set qs" for p q
    using that g(3,10,11) page_owned [OF g(1), of p] page_owned [OF g(1), of q] by (intro pages_disjoint) auto
  then have own: "owned (fold release ps s') = owned s \<union> (\<Union>p\<in>set qs. region p 4096)"
    using r g(4,5) by (auto simp del: mem_region)
  have "fold release ps s' = set_mem (mem_of (fold release ps s')) s"
    using fold_release_only_mem [of ps s'] g(8) by (metis set_set)
  moreover have "page (fold release ps s') q" if "page s q" for q
  proof -
    have "page s' q" using assms that by (auto simp: grows_def)
    moreover have "q \<notin> set ps" using grows_old_page [OF assms that] by simp
    ultimately show ?thesis using r by blast
  qed
  moreover have "page (fold release ps s') q" if "q \<in> set qs" for q using r g(10,11) that by blast
  moreover have "same_outside (- owned s \<union> D) (mem_of s) (mem_of (fold release ps s'))"
    unfolding same_outside_def
  proof (intro allI impI)
    fix a assume a: "a \<notin> - owned s \<union> D"
    then have "a \<in> owned (fold release ps s')" using own by blast
    then have "mem_of (fold release ps s') a = mem_of s' a" using r by blast
    then show "mem_of (fold release ps s') a = mem_of s a" using same_outsideD [OF g(7) a] by simp
  qed
  ultimately show ?thesis using r g(4,6,9,12) own by (simp add: grows_def)
qed

text \<open>Pages that were there before a release, seen from the state after it.\<close>

lemma grows_backwards:
  assumes "inv s" "distinct ps" "\<forall>p\<in>set ps. page s p"
  shows "grows (fold release ps s) s ps {}"
proof -
  have before: "page s q" if "inv s" "distinct ps" "\<forall>p\<in>set ps. page s p" "page (fold release ps s) q" for ps s q
    using that
  proof (induction ps arbitrary: s)
    case (Cons p ps)
    have p: "page s p" using Cons.prems(3) by simp
    have "\<forall>q\<in>set ps. page (release p s) q"
      using Cons.prems(2,3) release_keeps_pages [OF Cons.prems(1) p] by auto
    then have "page (release p s) q" 
      using Cons.prems(2,4) by (intro Cons.IH [OF release_inv [OF Cons.prems(1) p]]) simp_all
    then show ?case using release_no_new [OF Cons.prems(1) p] by blast
  qed simp
  let ?t = "fold release ps s" and ?new = "\<Union>p\<in>set ps. region p 4096"
  note r = release_list [OF assms]
  have "?new \<subseteq> owned s" using assms(3) page_owned [OF assms(1)] by blast
  then have own: "owned s = owned ?t \<union> ?new" using r by blast
  have "region p 4096 \<inter> owned ?t = {}" if "p \<in> set ps" for p using r that by blast
  moreover have "page s q" if "page ?t q" for q using before [OF assms that] .
  moreover have "same_outside (- owned ?t \<union> {}) (mem_of ?t) (mem_of s)" using r by (simp add: same_outside_def)
  moreover have "free_pages ?t = free_pages s + length ps" "inv ?t" using r by simp_all
  moreover have "s = set_mem (mem_of s) ?t" using fold_release_only_mem [of ps s] by (metis set_set set_same)
  ultimately show ?thesis using assms own unfolding grows_def by blast
qed

lemma grows_release: "grows s s' ps D \<Longrightarrow> grows s (fold release ps s') [] D"
  using grows_release_front [of s s' ps "[]" D] by simp

end

end
