(* ===== verification/Heap.thy ===== *)
theory Heap
  imports Memory Allocator
begin

text \<open>
  The block allocator: \<^verbatim>\<open>memory/heap/heap.c\<close> and the kernel instance of it in
  \<^verbatim>\<open>memory/heap/kheap.c\<close>.  The pool is cut into blocks of 4096 bytes; a table of one byte per
  block, itself in memory at \<open>entries\<close>, says which blocks are taken and where a run of blocks
  ends.  The model keeps the table in the flat memory, at the address the code keeps it.

  \<open>heap_tbl\<close> reads the table as a list; \<open>first_fit\<close>, \<open>alloc_run\<close> and \<open>free_run\<close> describe on
  such lists what the allocator is meant to do, and the lemmas relate the code to them: the
  search, the marking of a run, its release, the exact effect on every byte of memory.
\<close>

section \<open>heap.h, heap.c\<close>

definition HEAP_BLOCK_TABLE_ENTRY_TAKEN :: u8 where
  [simp]: "HEAP_BLOCK_TABLE_ENTRY_TAKEN = 0x01"

definition HEAP_BLOCK_TABLE_ENTRY_FREE :: u8 where
  [simp]: "HEAP_BLOCK_TABLE_ENTRY_FREE = 0x00"

definition HEAP_BLOCK_HAS_NEXT :: u8 where
  [simp]: "HEAP_BLOCK_HAS_NEXT = 0b10000000"

definition HEAP_BLOCK_IS_LAST :: u8 where
  [simp]: "HEAP_BLOCK_IS_LAST = 0b01000000"

record heapTable =
  entries :: addr
  total :: u32

record heap =
  table :: heapTable
  saddr :: addr

definition InitializeHeapTable :: "heapTable \<Rightarrow> mem \<Rightarrow> mem" where
  "InitializeHeapTable ht m =
     for_u32 0 (total ht) (\<lambda>i m. m(entries ht + i := HEAP_BLOCK_TABLE_ENTRY_FREE)) m"

definition CreateHeap :: "heap \<Rightarrow> mem \<Rightarrow> addr \<Rightarrow> addr \<Rightarrow> addr \<Rightarrow> u32 \<times> heap \<times> mem" where
  "CreateHeap hp m heapTableStAddr startAddr endAddr =
     (if ((endAddr - startAddr) + 1) mod HEAP_BLOCK_SIZE_BYTES \<noteq> 0 then (- EINVARG, hp, m)
      else
        let ht = \<lparr>entries = heapTableStAddr,
                  total = ((endAddr - startAddr) + 1) div HEAP_BLOCK_SIZE_BYTES\<rparr>
        in (0, \<lparr>table = ht, saddr = startAddr\<rparr>, InitializeHeapTable ht m))"

definition BlocksToAllocate :: "u32 \<Rightarrow> u32" where
  "BlocksToAllocate bytes =
     (if bytes mod HEAP_BLOCK_SIZE_BYTES = 0 then bytes div HEAP_BLOCK_SIZE_BYTES
      else (bytes + (HEAP_BLOCK_SIZE_BYTES - bytes mod HEAP_BLOCK_SIZE_BYTES))
             div HEAP_BLOCK_SIZE_BYTES)"

function search_loop :: "heap \<Rightarrow> mem \<Rightarrow> u32 \<Rightarrow> u32 \<Rightarrow> u32 \<Rightarrow> u32 \<Rightarrow> u32" where
  "search_loop hp m blocksToAllocate i bs bc =
     (if i < total (table hp) then
        (if m (entries (table hp) + i) OR HEAP_BLOCK_TABLE_ENTRY_FREE = 0 then
           (let bs' = (if bc = 0 then i else bs); bc' = bc + 1 in
              if bc' = blocksToAllocate then bs'
              else search_loop hp m blocksToAllocate (i + 1) bs' bc')
         else search_loop hp m blocksToAllocate (i + 1) (- 1) 0)
      else bs)"
  by pat_completeness auto
termination
  by (relation "measure (\<lambda>(hp, m, n, i, bs, bc). unat (total (table hp)) - unat i)")
    (auto simp: unat_Suc_less word_less_nat_alt)

definition searchForContiguousBlocks :: "heap \<Rightarrow> mem \<Rightarrow> u32 \<Rightarrow> u32" where
  "searchForContiguousBlocks hp m blocksToAllocate = search_loop hp m blocksToAllocate 0 (- 1) 0"

definition UpdateHeapTableOfAllocation :: "heap \<Rightarrow> mem \<Rightarrow> u32 \<Rightarrow> u32 \<Rightarrow> mem" where
  "UpdateHeapTableOfAllocation hp m stIndex blocksToAllocate =
     (let m' = for_u32 stIndex (stIndex + blocksToAllocate - 1)
                 (\<lambda>i m. m(entries (table hp) + i :=
                            HEAP_BLOCK_TABLE_ENTRY_TAKEN OR HEAP_BLOCK_HAS_NEXT)) m
      in m'(entries (table hp) + (stIndex + blocksToAllocate - 1) :=
              HEAP_BLOCK_TABLE_ENTRY_TAKEN OR HEAP_BLOCK_IS_LAST))"

definition HeapMalloc :: "heap \<Rightarrow> mem \<Rightarrow> u32 \<Rightarrow> addr \<times> mem" where
  "HeapMalloc hp m bytes =
     (let blocksToAllocate = BlocksToAllocate bytes;
          si = searchForContiguousBlocks hp m blocksToAllocate
      in if si = - 1 then (NULL, m)
         else (saddr hp + si * HEAP_BLOCK_SIZE_BYTES,
               UpdateHeapTableOfAllocation hp m si blocksToAllocate))"

function free_loop :: "heap \<Rightarrow> mem \<Rightarrow> u32 \<Rightarrow> u32 \<Rightarrow> u32 \<times> mem" where
  "free_loop hp m i lastIdx =
     (if i < total (table hp) then
        (if m (entries (table hp) + i) AND HEAP_BLOCK_IS_LAST = HEAP_BLOCK_IS_LAST then (i, m)
         else free_loop hp (m(entries (table hp) + i := HEAP_BLOCK_TABLE_ENTRY_FREE)) (i + 1) lastIdx)
      else (lastIdx, m))"
  by pat_completeness auto
termination
  by (relation "measure (\<lambda>(hp, m, i, lastIdx). unat (total (table hp)) - unat i)")
    (auto simp: unat_Suc_less word_less_nat_alt)

definition HeapFree :: "heap \<Rightarrow> mem \<Rightarrow> addr \<Rightarrow> u32 \<times> mem" where
  "HeapFree hp m a =
     (if a mod HEAP_BLOCK_SIZE_BYTES \<noteq> 0 then (- EINVARG, m)
      else
        let si = (a - saddr hp) div HEAP_BLOCK_SIZE_BYTES;
            (lastIdx, m') = free_loop hp m si si
        in (0, m'(entries (table hp) + lastIdx := HEAP_BLOCK_TABLE_ENTRY_FREE)))"

declare search_loop.simps [simp del] free_loop.simps [simp del]

section \<open>kheap.c\<close>

text \<open>
  The state the kernel heap works on.  Later components extend this record, so the operations
  are polymorphic in the rest of the state.
\<close>

record kheap_state =
  ram :: mem
  kernelHeap :: heap

definition KheapInit :: "'a kheap_state_scheme \<Rightarrow> 'a kheap_state_scheme" where
  "KheapInit s =
     (let (_, hp, m) = CreateHeap (kernelHeap s) (ram s) HEAP_TABLE_START_ADDR HEAP_START_ADDR
                         (HEAP_START_ADDR + HEAP_SIZE_IN_BYTES - 1)
      in s\<lparr>ram := m, kernelHeap := hp\<rparr>)"

definition kMalloc :: "u32 \<Rightarrow> 'a kheap_state_scheme \<Rightarrow> addr \<times> 'a kheap_state_scheme" where
  "kMalloc bytes s = (let (p, m) = HeapMalloc (kernelHeap s) (ram s) bytes in (p, s\<lparr>ram := m\<rparr>))"

definition kFree :: "addr \<Rightarrow> 'a kheap_state_scheme \<Rightarrow> 'a kheap_state_scheme" where
  "kFree a s = s\<lparr>ram := snd (HeapFree (kernelHeap s) (ram s) a)\<rparr>"

definition kZalloc :: "u32 \<Rightarrow> 'a kheap_state_scheme \<Rightarrow> addr \<times> 'a kheap_state_scheme" where
  "kZalloc bytes s =
     (let (ptr, s') = kMalloc bytes s in
        if ptr = NULL then (0, s') else (ptr, s'\<lparr>ram := memset (ram s') ptr 0 bytes\<rparr>))"

section \<open>The table as a list\<close>

definition heap_tbl :: "heap \<Rightarrow> mem \<Rightarrow> u8 list" where
  "heap_tbl hp m = map (\<lambda>i. m (entries (table hp) + of_nat i)) [0..<unat (total (table hp))]"

definition free_run :: "u8 list \<Rightarrow> nat \<Rightarrow> nat \<Rightarrow> bool" where
  "free_run tbl i n \<longleftrightarrow> i + n \<le> length tbl \<and> (\<forall>j<n. tbl ! (i + j) = 0)"

definition first_fit :: "u8 list \<Rightarrow> nat \<Rightarrow> nat option" where
  "first_fit tbl n = find (\<lambda>i. free_run tbl i n) [0..<length tbl]"

definition free_tail :: "u8 list \<Rightarrow> nat" where
  "free_tail tbl = length (takeWhile (\<lambda>e. e = 0) (rev tbl))"

definition search_spec :: "u8 list \<Rightarrow> nat \<Rightarrow> u32" where
  "search_spec tbl n =
     (case first_fit tbl n of
        Some i \<Rightarrow> of_nat i
      | None \<Rightarrow> if free_tail tbl = 0 then - 1 else of_nat (length tbl - free_tail tbl))"

lemma length_heap_tbl [simp]: "length (heap_tbl hp m) = unat (total (table hp))"
  by (simp add: heap_tbl_def)

lemma nth_heap_tbl:
  "i < unat (total (table hp)) \<Longrightarrow> heap_tbl hp m ! i = m (entries (table hp) + of_nat i)"
  by (simp add: heap_tbl_def)

lemma first_fit_SomeI:
  assumes "free_run tbl i n" and "0 < n" and "\<And>k. k < i \<Longrightarrow> \<not> free_run tbl k n"
  shows "first_fit tbl n = Some i"
proof -
  have "i < length tbl" using assms(1,2) by (auto simp: free_run_def)
  with assms show ?thesis by (auto simp: first_fit_def find_Some_iff intro!: exI [of _ i])
qed

lemma first_fit_NoneI: "(\<And>k. k < length tbl \<Longrightarrow> \<not> free_run tbl k n) \<Longrightarrow> first_fit tbl n = None"
  by (auto simp: first_fit_def find_None_iff)

lemma first_fitD:
  "first_fit tbl n = Some i \<Longrightarrow> free_run tbl i n \<and> i < length tbl \<and> (\<forall>k<i. \<not> free_run tbl k n)"
  by (auto simp: first_fit_def find_Some_iff)

lemma free_tail_eq:
  assumes "bc \<le> length tbl" and "\<forall>j. length tbl - bc \<le> j \<and> j < length tbl \<longrightarrow> tbl ! j = 0"
    and "bc < length tbl \<Longrightarrow> tbl ! (length tbl - bc - 1) \<noteq> 0"
  shows "free_tail tbl = bc"
proof -
  have "drop (length tbl - bc) tbl = replicate bc 0"
  proof (rule nth_equalityI)
    fix j assume "j < length (drop (length tbl - bc) tbl)"
    with assms(1) have "j < bc" by simp
    then have "tbl ! (length tbl - bc + j) = 0"
      using assms(1) by (intro assms(2) [rule_format] conjI) linarith+
    with \<open>j < bc\<close> assms(1) show "drop (length tbl - bc) tbl ! j = replicate bc 0 ! j" by simp
  qed (use assms(1) in simp)
  then have "tbl = take (length tbl - bc) tbl @ replicate bc 0"
    by (metis append_take_drop_id)
  then have "rev tbl = replicate bc 0 @ rev (take (length tbl - bc) tbl)"
    by (metis rev_append rev_replicate)
  moreover have "takeWhile (\<lambda>e. e = 0) (rev (take (length tbl - bc) tbl)) = []"
  proof (cases "bc < length tbl")
    case True
    then obtain k where k: "length tbl - bc = Suc k" by (metis Suc_diff_Suc)
    then have "take (length tbl - bc) tbl = take k tbl @ [tbl ! k]" and "tbl ! k \<noteq> 0"
      using True assms(3) by (simp_all add: take_Suc_conv_app_nth)
    then show ?thesis by simp
  qed (use assms(1) in simp)
  ultimately show ?thesis
    by (simp add: free_tail_def takeWhile_append)
qed

section \<open>The search\<close>

lemma search_loop_spec:
  fixes hp m
  defines "tbl \<equiv> heap_tbl hp m" and "N \<equiv> unat (total (table hp))"
  assumes "0 < n" "n < 4294967296" "N < 2147483648"
    and "bc \<le> i" "i \<le> N" "bc < n"
    and "\<forall>j. i - bc \<le> j \<and> j < i \<longrightarrow> tbl ! j = 0"
    and "bc < i \<longrightarrow> tbl ! (i - bc - 1) \<noteq> 0"
    and "\<forall>k. k + n \<le> i \<longrightarrow> \<not> free_run tbl k n"
  shows "search_loop hp m (of_nat n) (of_nat i) (if bc = 0 then - 1 else of_nat (i - bc)) (of_nat bc) =
    search_spec tbl n"
  using assms(6-)
proof (induction "N - i" arbitrary: i bc)
  case 0
  then have i: "i = N" by simp
  have len: "length tbl = N" by (simp add: tbl_def N_def)
  have "free_tail tbl = bc"
    using "0.prems" i len by (intro free_tail_eq) auto
  moreover have "first_fit tbl n = None"
    using "0.prems"(6) i len assms(3) by (intro first_fit_NoneI) (auto simp: free_run_def)
  moreover have "\<not> (of_nat i :: u32) < total (table hp)"
    using i by (simp add: N_def)
  ultimately show ?case
    using i len by (subst search_loop.simps) (simp add: search_spec_def)
next
  case (Suc d)
  then have iN: "i < N" by simp
  have len: "length tbl = N" by (simp add: tbl_def N_def)
  have lt: "(of_nat i :: u32) < total (table hp)"
    using iN assms(5) by (simp add: word_less_nat_alt N_def)
  have ent: "m (entries (table hp) + of_nat i) = tbl ! i" using iN by (simp add: tbl_def N_def nth_heap_tbl)
  show ?case
  proof (cases "tbl ! i = 0")
    case free: True
    define bs' where "bs' = (if (of_nat bc :: u32) = 0 then of_nat i
      else if bc = 0 then - 1 else of_nat (i - bc) :: u32)"
    have bcz: "(of_nat bc :: u32) = 0 \<longleftrightarrow> bc = 0"
      using of_nat_u32_eq [of bc 0] Suc.prems(1,2) assms(5) by simp
    have bs': "bs' = of_nat (Suc i - Suc bc)"
      using bcz by (auto simp: bs'_def)
    show ?thesis
    proof (cases "Suc bc = n")
      case True
      have "free_run tbl (Suc i - n) n"
        unfolding free_run_def
      proof (intro conjI allI impI)
        fix j assume "j < n"
        then have "i - bc \<le> Suc i - n + j" "Suc i - n + j \<le> i" using True Suc.prems(1) by auto
        then show "tbl ! (Suc i - n + j) = 0"
          using Suc.prems(4) free by (cases "Suc i - n + j = i") auto
      qed (use True iN len Suc.prems(1) in auto)
      moreover have "\<not> free_run tbl k n" if "k < Suc i - n" for k
        using Suc.prems(6) that by auto
      ultimately have "first_fit tbl n = Some (Suc i - n)"
        using assms(3) by (intro first_fit_SomeI) auto
      moreover have "(of_nat bc :: u32) + 1 = of_nat n" using True by (simp flip: True)
      ultimately show ?thesis
        using lt ent free True bs'
        by (subst search_loop.simps) (simp add: Let_def bs'_def search_spec_def)
    next
      case False
      then have "(of_nat bc :: u32) + 1 \<noteq> of_nat n"
        using of_nat_u32_eq [of "Suc bc" n] Suc.prems(1,2) assms(4,5) by (simp add: add.commute)
      moreover have "\<not> free_run tbl k n" if "k + n \<le> Suc i" for k
      proof (cases "k + n \<le> i")
        case True
        then show ?thesis using Suc.prems(6) by auto
      next
        case notle: False
        with that False Suc.prems(3) have "k < i - bc" and kn: "k + n = Suc i" by auto
        then have "tbl ! (k + (i - bc - 1 - k)) \<noteq> 0" using Suc.prems(5) by auto
        moreover have "i - bc - 1 - k < n" using kn assms(3) by arith
        ultimately show ?thesis by (auto simp: free_run_def)
      qed
      moreover have "search_loop hp m (of_nat n) (of_nat (Suc i))
          (if Suc bc = 0 then - 1 else of_nat (Suc i - Suc bc)) (of_nat (Suc bc)) = search_spec tbl n"
        using Suc.hyps(2) Suc.prems iN free False calculation(2)
        by (intro Suc.hyps(1)) (auto simp: less_Suc_eq)
      ultimately show ?thesis
        using lt ent free bs'
        by (subst search_loop.simps) (simp add: Let_def bs'_def add.commute)
    qed
  next
    case taken: False
    have "\<not> free_run tbl k n" if "k + n \<le> Suc i" for k
    proof (cases "k + n \<le> i")
      case True
      then show ?thesis using Suc.prems(6) by auto
    next
      case False
      with that assms(3) have "i = k + (i - k)" "i - k < n" by auto
      with taken show ?thesis unfolding free_run_def by metis
    qed
    then have "search_loop hp m (of_nat n) (of_nat (Suc i))
        (if (0::nat) = 0 then - 1 else of_nat (Suc i - 0)) (of_nat 0) = search_spec tbl n"
      using Suc.hyps(2) iN taken assms(3) by (intro Suc.hyps(1)) auto
    then show ?thesis
      using lt ent taken by (subst search_loop.simps) (simp add: add.commute)
  qed
qed

lemma searchForContiguousBlocks_spec:
  assumes "0 < n" "n < 4294967296" "unat (total (table hp)) < 2147483648"
  shows "searchForContiguousBlocks hp m (of_nat n) = search_spec (heap_tbl hp m) n"
  using search_loop_spec [where i = 0 and bc = 0, OF assms] assms(1)
  by (simp add: searchForContiguousBlocks_def free_run_def)

section \<open>Marking and releasing a run\<close>

lemma UpdateHeapTableOfAllocation_apply:
  assumes "0 < n" and "unat st + unat n < 4294967296"
  shows "UpdateHeapTableOfAllocation hp m st n a =
    (if a - entries (table hp) = st + n - 1 then 0x41
     else if st \<le> a - entries (table hp) \<and> a - entries (table hp) < st + n - 1 then 0x81
     else m a)"
proof -
  let ?e = "entries (table hp)"
  let ?f = "\<lambda>i m. m(?e + i := HEAP_BLOCK_TABLE_ENTRY_TAKEN OR HEAP_BLOCK_HAS_NEXT)"
  define P where "P i m' \<longleftrightarrow> (\<forall>a. m' a = (if st \<le> a - ?e \<and> a - ?e < i then 0x81 else m a))"
    for i and m' :: mem
  have "P (st + n - 1) (for_u32 st (st + n - 1) ?f m)"
  proof (rule for_u32_invariant [where P = P])
    have "n \<noteq> 0" and "0 < unat n" using assms(1) by (auto simp: word_less_nat_alt)
    then have "unat (st + (n - 1)) = unat st + (unat n - 1)"
      using assms(2) unat_add_u32 [of st "n - 1"] by (simp add: unat_minus_one)
    then show "st \<le> st + n - 1" by (simp add: word_le_nat_alt add_diff_eq)
    show "P st m" by (auto simp: P_def)
  next
    fix i m' assume i: "st \<le> i" "i < st + n - 1" and "P i m'"
    have "st \<le> x \<and> x < i + 1 \<longleftrightarrow> (st \<le> x \<and> x < i) \<or> x = i" for x
      using i(1) unat_Suc_less [OF i(2)]
      by (auto simp: word_le_nat_alt word_less_nat_alt word_unat_eq_iff)
    moreover have "a - ?e = i \<longleftrightarrow> a = ?e + i" for a by (auto simp: algebra_simps)
    ultimately show "P (i + 1) (?f i m')"
      using \<open>P i m'\<close> by (auto simp: P_def)
  qed
  moreover have "a - ?e = st + n - 1 \<longleftrightarrow> a = ?e + (st + n - 1)" by (auto simp: algebra_simps)
  ultimately show ?thesis
    by (auto simp: UpdateHeapTableOfAllocation_def P_def)
qed

lemma free_loop_apply:
  assumes "i \<le> l" "l < unat (total (table hp))"
    and "\<And>j. i \<le> j \<Longrightarrow> j < l \<Longrightarrow> m (entries (table hp) + of_nat j) AND 0x40 \<noteq> 0x40"
    and "m (entries (table hp) + of_nat l) AND 0x40 = 0x40"
  shows "free_loop hp m (of_nat i) st =
    (of_nat l, \<lambda>a. if of_nat i \<le> a - entries (table hp) \<and> a - entries (table hp) < of_nat l then 0 else m a)"
  using assms
proof (induction "l - i" arbitrary: i m)
  case 0
  then have "i = l" by simp
  moreover have "(of_nat l :: u32) < total (table hp)"
    using "0.prems"(2) u32_bound [of "total (table hp)"] by (simp add: word_less_nat_alt)
  ultimately show ?case using "0.prems"(4) by (subst free_loop.simps) (auto simp: fun_eq_iff)
next
  case (Suc d)
  let ?e = "entries (table hp)"
  have il: "i < l" using Suc.hyps(2) by simp
  have big: "l < 4294967296" using Suc.prems(2) u32_bound [of "total (table hp)"] by simp
  have lt: "(of_nat i :: u32) < total (table hp)"
    using il Suc.prems(2) u32_bound [of "total (table hp)"] by (simp add: word_less_nat_alt)
  define m1 where "m1 = m(?e + of_nat i := 0)"
  have same: "m1 (?e + of_nat j) = m (?e + of_nat j)" if "Suc i \<le> j" "j \<le> l" for j
    using that big by (auto simp: m1_def of_nat_u32_eq)
  have "free_loop hp m1 (of_nat (Suc i)) st =
      (of_nat l, \<lambda>a. if of_nat (Suc i) \<le> a - ?e \<and> a - ?e < of_nat l then 0 else m1 a)"
    using Suc.hyps(2) Suc.prems same il by (intro Suc.hyps(1)) auto
  moreover have "(if of_nat (Suc i) \<le> a - ?e \<and> a - ?e < of_nat l then 0 else m1 a) =
      (if of_nat i \<le> a - ?e \<and> a - ?e < of_nat l then 0 else m a)" for a
  proof -
    have "a = ?e + of_nat i \<longleftrightarrow> a - ?e = of_nat i" by (auto simp: algebra_simps)
    moreover have "of_nat i \<le> x \<longleftrightarrow> of_nat (Suc i) \<le> x \<or> x = of_nat i" for x :: u32
      using il big by (simp add: word_le_nat_alt word_unat_eq_iff del: of_nat_Suc) auto
    moreover have "(of_nat i :: u32) < of_nat l" using il big by (simp add: of_nat_u32_less)
    ultimately show ?thesis by (auto simp: m1_def)
  qed
  moreover have "m (?e + of_nat i) AND 0x40 \<noteq> 0x40" using Suc.prems(3) il by simp
  ultimately show ?case
    using lt by (subst free_loop.simps) (simp add: m1_def add.commute)
qed

section \<open>The layout of a heap\<close>

text \<open>
  The pool is page-aligned, the table lies below it, and the pool does not run past the end of
  the address space.  \<open>KheapInit\<close> establishes this for the kernel heap.
\<close>

definition heap_ok :: "heap \<Rightarrow> bool" where
  "heap_ok hp \<longleftrightarrow> page_aligned (saddr hp) \<and>
     unat (entries (table hp)) + unat (total (table hp)) \<le> unat (saddr hp) \<and>
     unat (saddr hp) + 4096 * unat (total (table hp)) \<le> 4294967296"

definition block :: "heap \<Rightarrow> nat \<Rightarrow> addr" where
  "block hp i = saddr hp + of_nat i * 4096"

lemma heap_ok_total: "heap_ok hp \<Longrightarrow> unat (total (table hp)) \<le> 1048576"
  by (simp add: heap_ok_def)

lemma unat_block:
  assumes "heap_ok hp" and "i < unat (total (table hp))"
  shows "unat (block hp i) = unat (saddr hp) + 4096 * i"
proof -
  have i: "unat (saddr hp) + 4096 * i < 4294967296" using assms by (auto simp: heap_ok_def)
  then have "unat (of_nat i * 4096 :: u32) = i * 4096"
    by (subst unat_mult_u32) simp_all
  with i show ?thesis by (simp add: block_def unat_add_u32)
qed

lemma block_aligned:
  assumes "heap_ok hp" and "i < unat (total (table hp))"
  shows "page_aligned (block hp i)"
proof -
  obtain k where "unat (saddr hp) = 4096 * k"
    using assms(1) by (auto simp: heap_ok_def elim: page_alignedE)
  then have "unat (block hp i) = 4096 * (k + i)" using unat_block [OF assms] by simp
  then show ?thesis by (simp add: page_aligned_iff)
qed

lemma block_index:
  assumes "heap_ok hp" and "i < unat (total (table hp))"
  shows "(block hp i - saddr hp) div 4096 = of_nat i"
proof -
  have "block hp i - saddr hp = of_nat i * 4096" by (simp add: block_def)
  moreover have "unat (of_nat i * 4096 :: u32) = i * 4096"
    using assms by (subst unat_mult_u32) (auto simp: heap_ok_def)
  ultimately have "unat ((block hp i - saddr hp) div 4096) = unat (of_nat i :: u32)"
    using assms(2) heap_ok_total [OF assms(1)] by (simp add: unat_div)
  then show ?thesis by (simp add: word_unat_eq_iff)
qed

lemma block_nonnull:
  assumes "heap_ok hp" and "i < unat (total (table hp))"
  shows "block hp i \<noteq> NULL"
proof
  assume "block hp i = NULL"
  then have "unat (saddr hp) = 0" using unat_block [OF assms] by simp
  with assms show False by (simp add: heap_ok_def)
qed

text \<open>What marking and clearing a run of \<open>n\<close> blocks from block \<open>i\<close> on do to every byte.\<close>

definition marked :: "heap \<Rightarrow> mem \<Rightarrow> nat \<Rightarrow> nat \<Rightarrow> mem" where
  "marked hp m i n = (\<lambda>a. let off = unat (a - entries (table hp)) in
     if off = i + n - 1 then 0x41 else if i \<le> off \<and> off < i + n - 1 then 0x81 else m a)"

definition cleared :: "heap \<Rightarrow> mem \<Rightarrow> nat \<Rightarrow> nat \<Rightarrow> mem" where
  "cleared hp m i n = (\<lambda>a. let off = unat (a - entries (table hp)) in
     if i \<le> off \<and> off < i + n then 0 else m a)"

text \<open>A run of \<open>n\<close> taken blocks that starts at \<open>i\<close>.\<close>

definition alloc_at :: "u8 list \<Rightarrow> nat \<Rightarrow> nat \<Rightarrow> bool" where
  "alloc_at tbl i n \<longleftrightarrow> 0 < n \<and> i + n \<le> length tbl \<and> (\<forall>j<n - 1. tbl ! (i + j) = 0x81) \<and>
     tbl ! (i + n - 1) = 0x41 \<and> (0 < i \<longrightarrow> tbl ! (i - 1) \<noteq> 0x81)"

lemma HeapMalloc_fit:
  assumes "heap_ok hp" and "0 < BlocksToAllocate bytes"
    and "first_fit (heap_tbl hp m) (unat (BlocksToAllocate bytes)) = Some i"
  shows "HeapMalloc hp m bytes = (block hp i, marked hp m i (unat (BlocksToAllocate bytes)))"
proof -
  let ?n = "BlocksToAllocate bytes"
  have N: "unat (total (table hp)) \<le> 1048576" using assms(1) by (rule heap_ok_total)
  have fit: "i + unat ?n \<le> unat (total (table hp))" and n: "0 < unat ?n"
    using first_fitD [OF assms(3)] assms(2) by (auto simp: free_run_def word_less_nat_alt)
  have "searchForContiguousBlocks hp m (of_nat (unat ?n)) = of_nat i"
    using N n u32_bound [of ?n] assms(3)
    by (subst searchForContiguousBlocks_spec) (auto simp: search_spec_def)
  then have si: "searchForContiguousBlocks hp m ?n = of_nat i" by simp
  have "unat (of_nat i :: u32) \<noteq> unat (- 1 :: u32)" using fit N n by simp
  then have ne: "(of_nat i :: u32) \<noteq> - 1" by metis
  have last: "(of_nat i :: u32) + ?n - 1 = of_nat (i + unat ?n - 1)"
    using n by (simp add: of_nat_diff)
  have "UpdateHeapTableOfAllocation hp m (of_nat i) ?n = marked hp m i (unat ?n)"
  proof
    fix a
    show "UpdateHeapTableOfAllocation hp m (of_nat i) ?n a = marked hp m i (unat ?n) a"
      using fit N n u32_of_nat_iffs [of i] u32_of_nat_iffs [of "i + unat ?n - 1"]
      by (subst UpdateHeapTableOfAllocation_apply [OF assms(2)])
        (simp_all add: last marked_def Let_def del: of_nat_add)
  qed
  with si ne show ?thesis by (simp add: HeapMalloc_def block_def)
qed

lemma free_loop_run:
  assumes "alloc_at (heap_tbl hp m) i n"
  shows "free_loop hp m (of_nat i) st =
    (of_nat (i + n - 1), \<lambda>a. if of_nat i \<le> a - entries (table hp) \<and>
        a - entries (table hp) < of_nat (i + n - 1) then 0 else m a)"
proof (rule free_loop_apply)
  have run: "\<And>j. j < n - 1 \<Longrightarrow> heap_tbl hp m ! (i + j) = 0x81" "heap_tbl hp m ! (i + n - 1) = 0x41"
    and len: "i + n \<le> unat (total (table hp))" "0 < n"
    using assms by (auto simp: alloc_at_def)
  show "i \<le> i + n - 1" "i + n - 1 < unat (total (table hp))" using len by auto
  show "m (entries (table hp) + of_nat (i + n - 1)) AND 0x40 = 0x40"
    using run(2) len by (simp add: nth_heap_tbl del: of_nat_add)
  fix j assume j: "i \<le> j" "j < i + n - 1"
  then have "heap_tbl hp m ! j = 0x81" using run(1) [of "j - i"] by simp
  with j len show "m (entries (table hp) + of_nat j) AND 0x40 \<noteq> 0x40" by (simp add: nth_heap_tbl)
qed

lemma HeapFree_run:
  assumes "heap_ok hp" and "alloc_at (heap_tbl hp m) i n"
  shows "HeapFree hp m (block hp i) = (0, cleared hp m i n)"
proof -
  let ?e = "entries (table hp)"
  have len: "0 < n" "i + n \<le> unat (total (table hp))" using assms(2) by (auto simp: alloc_at_def)
  have N: "unat (total (table hp)) \<le> 1048576" using assms(1) by (rule heap_ok_total)
  have i: "i < unat (total (table hp))" using len by simp
  have "(\<lambda>a. if of_nat i \<le> a - ?e \<and> a - ?e < of_nat (i + n - 1) then 0 else m a)
      (?e + of_nat (i + n - 1) := 0) = cleared hp m i n"
  proof
    fix a
    have big: "i < 4294967296" "i + n - 1 < 4294967296" using len N by simp_all
    have "a = ?e + of_nat (i + n - 1) \<longleftrightarrow> unat (a - ?e) = i + n - 1"
      using u32_of_nat_iffs(1) [OF big(2), of "a - ?e"] by (auto simp: algebra_simps)
    moreover note u32_of_nat_iffs(2) [OF big(1), of "a - ?e"] u32_of_nat_iffs(3) [OF big(2), of "a - ?e"]
    ultimately show "((\<lambda>a. if of_nat i \<le> a - ?e \<and> a - ?e < of_nat (i + n - 1) then 0 else m a)
      (?e + of_nat (i + n - 1) := 0)) a = cleared hp m i n a"
      using len by (auto simp: cleared_def Let_def simp del: of_nat_add)
  qed
  then show ?thesis
    using block_aligned [OF assms(1) i] block_index [OF assms(1) i] free_loop_run [OF assms(2)]
    by (simp add: HeapFree_def page_aligned_def Let_def del: of_nat_add)
qed

section \<open>The table after an operation\<close>

lemma unat_table_offset [simp]:
  "j < unat (total (table hp)) \<Longrightarrow> unat (of_nat j :: u32) = j"
  using u32_bound [of "total (table hp)"] by simp

lemma heap_tbl_marked:
  "j < unat (total (table hp)) \<Longrightarrow> heap_tbl hp (marked hp m i n) ! j =
    (if j = i + n - 1 then 0x41 else if i \<le> j \<and> j < i + n - 1 then 0x81 else heap_tbl hp m ! j)"
  by (simp add: marked_def nth_heap_tbl)

lemma heap_tbl_cleared:
  "j < unat (total (table hp)) \<Longrightarrow> heap_tbl hp (cleared hp m i n) ! j =
    (if i \<le> j \<and> j < i + n then 0 else heap_tbl hp m ! j)"
  by (simp add: cleared_def nth_heap_tbl)

lemma cleared_marked:
  assumes "free_run (heap_tbl hp m) i n" "0 < n"
  shows "cleared hp (marked hp m i n) i n = m"
proof
  fix a
  let ?off = "unat (a - entries (table hp))"
  have "m a = 0" if "i \<le> ?off" "?off < i + n"
  proof -
    have "?off - i < n" using that by linarith
    then have "heap_tbl hp m ! (i + (?off - i)) = 0"
      using assms(1) unfolding free_run_def by blast
    with that assms(1) show ?thesis by (simp add: free_run_def nth_heap_tbl)
  qed
  with assms(2) show "cleared hp (marked hp m i n) i n a = m a"
    by (auto simp: cleared_def marked_def Let_def)
qed

text \<open>
  Well-formed tables: only the three codes the allocator writes occur, and a block that has a
  next one is followed by a block of the same run.
\<close>

definition wf_table :: "u8 list \<Rightarrow> bool" where
  "wf_table tbl \<longleftrightarrow> (\<forall>i<length tbl. (tbl ! i = 0 \<or> tbl ! i = 0x41 \<or> tbl ! i = 0x81) \<and>
     (tbl ! i = 0x81 \<longrightarrow> Suc i < length tbl \<and> (tbl ! Suc i = 0x81 \<or> tbl ! Suc i = 0x41)))"

lemma wf_table_marked:
  assumes "wf_table (heap_tbl hp m)" and "free_run (heap_tbl hp m) i n" and "0 < n"
  shows "wf_table (heap_tbl hp (marked hp m i n))"
  unfolding wf_table_def length_heap_tbl
proof (intro allI impI)
  fix j assume j: "j < unat (total (table hp))"
  have run: "heap_tbl hp m ! (i + k) = 0" if "k < n" for k
    using assms(2) that by (simp add: free_run_def)
  have fit: "i + n \<le> unat (total (table hp))" using assms(2) by (simp add: free_run_def)
  have old: "heap_tbl hp m ! j = 0 \<or> heap_tbl hp m ! j = 0x41 \<or> heap_tbl hp m ! j = 0x81"
    "heap_tbl hp m ! j = 0x81 \<Longrightarrow> Suc j < unat (total (table hp)) \<and>
       (heap_tbl hp m ! Suc j = 0x81 \<or> heap_tbl hp m ! Suc j = 0x41)"
    using assms(1) j by (auto simp: wf_table_def)
  have "heap_tbl hp m ! Suc j = 0" if "i \<le> Suc j" "Suc j < i + n"
    using run [of "Suc j - i"] that by simp
  then show "(heap_tbl hp (marked hp m i n) ! j = 0 \<or> heap_tbl hp (marked hp m i n) ! j = 0x41 \<or>
       heap_tbl hp (marked hp m i n) ! j = 0x81) \<and>
     (heap_tbl hp (marked hp m i n) ! j = 0x81 \<longrightarrow> Suc j < unat (total (table hp)) \<and>
       (heap_tbl hp (marked hp m i n) ! Suc j = 0x81 \<or> heap_tbl hp (marked hp m i n) ! Suc j = 0x41))"
    using old j fit assms(3)
    by (cases "Suc j < unat (total (table hp))") (auto simp: heap_tbl_marked)
qed

lemma wf_table_cleared:
  assumes "wf_table (heap_tbl hp m)" and "alloc_at (heap_tbl hp m) i n"
  shows "wf_table (heap_tbl hp (cleared hp m i n))"
  unfolding wf_table_def length_heap_tbl
proof (intro allI impI)
  fix j assume j: "j < unat (total (table hp))"
  have run: "0 < n" "i + n \<le> unat (total (table hp))" "heap_tbl hp m ! (i + n - 1) = 0x41"
    and start: "0 < i \<Longrightarrow> heap_tbl hp m ! (i - 1) \<noteq> 0x81"
    using assms(2) by (auto simp: alloc_at_def)
  have old: "heap_tbl hp m ! j = 0 \<or> heap_tbl hp m ! j = 0x41 \<or> heap_tbl hp m ! j = 0x81"
    "heap_tbl hp m ! j = 0x81 \<Longrightarrow> Suc j < unat (total (table hp)) \<and>
       (heap_tbl hp m ! Suc j = 0x81 \<or> heap_tbl hp m ! Suc j = 0x41)"
    using assms(1) j by (auto simp: wf_table_def)
  have out: "\<not> (i \<le> Suc j \<and> Suc j < i + n)" if "heap_tbl hp m ! j = 0x81" "\<not> (i \<le> j \<and> j < i + n)"
  proof
    assume "i \<le> Suc j \<and> Suc j < i + n"
    with that(2) have "Suc j = i" by linarith
    with start that(1) show False by auto
  qed
  show "(heap_tbl hp (cleared hp m i n) ! j = 0 \<or> heap_tbl hp (cleared hp m i n) ! j = 0x41 \<or>
       heap_tbl hp (cleared hp m i n) ! j = 0x81) \<and>
     (heap_tbl hp (cleared hp m i n) ! j = 0x81 \<longrightarrow> Suc j < unat (total (table hp)) \<and>
       (heap_tbl hp (cleared hp m i n) ! Suc j = 0x81 \<or> heap_tbl hp (cleared hp m i n) ! Suc j = 0x41))"
    using old j out
    by (cases "Suc j < unat (total (table hp))") (auto simp: heap_tbl_cleared split: if_splits)
qed

lemma alloc_at_marked:
  assumes "wf_table (heap_tbl hp m)" and "free_run (heap_tbl hp m) i n" and "0 < n"
  shows "alloc_at (heap_tbl hp (marked hp m i n)) i n"
proof -
  have run: "heap_tbl hp m ! i = 0" "i + n \<le> unat (total (table hp))"
    using assms(2,3) by (auto simp: free_run_def dest: spec [of _ 0])
  have "heap_tbl hp m ! (i - 1) \<noteq> 0x81" if "0 < i"
  proof
    assume "heap_tbl hp m ! (i - 1) = 0x81"
    moreover have "i - 1 < length (heap_tbl hp m)" using run assms(3) by simp
    ultimately have "heap_tbl hp m ! Suc (i - 1) = 0x81 \<or> heap_tbl hp m ! Suc (i - 1) = 0x41"
      using assms(1) unfolding wf_table_def by blast
    with run(1) that show False by simp
  qed
  then show ?thesis
    using run assms(3) by (auto simp: alloc_at_def heap_tbl_marked)
qed

text \<open>Runs that were allocated before stay allocated.\<close>

lemma alloc_at_nonzero: "alloc_at tbl k l \<Longrightarrow> k \<le> j \<Longrightarrow> j < k + l \<Longrightarrow> tbl ! j \<noteq> 0"
proof -
  assume run: "alloc_at tbl k l" and j: "k \<le> j" "j < k + l"
  have "tbl ! (k + (j - k)) = 0x81" if "j \<noteq> k + l - 1"
  proof -
    have "j - k < l - 1" using j that by linarith
    with run show ?thesis unfolding alloc_at_def by blast
  qed
  with run j show ?thesis by (cases "j = k + l - 1") (auto simp: alloc_at_def)
qed

lemma alloc_at_kept_marked:
  assumes "free_run (heap_tbl hp m) i n" and "0 < n" and "alloc_at (heap_tbl hp m) k l"
  shows "alloc_at (heap_tbl hp (marked hp m i n)) k l"
    and "k + l \<le> i \<or> i + n \<le> k"
proof -
  have free: "heap_tbl hp m ! j = 0" if "i \<le> j" "j < i + n" for j
  proof -
    have "j - i < n" using that by linarith
    with that show ?thesis using assms(1) by (auto simp: free_run_def dest: spec [of _ "j - i"])
  qed
  have len: "i + n \<le> unat (total (table hp))" "k + l \<le> unat (total (table hp))" "0 < l"
    using assms(1,3) by (auto simp: free_run_def alloc_at_def)
  show apart: "k + l \<le> i \<or> i + n \<le> k"
  proof (rule ccontr)
    assume "\<not> ?thesis"
    then have "k \<le> max i k" "max i k < k + l" "i \<le> max i k" "max i k < i + n" using len assms(2) by auto
    with free [of "max i k"] alloc_at_nonzero [OF assms(3), of "max i k"] show False by simp
  qed
  have same: "heap_tbl hp (marked hp m i n) ! j = heap_tbl hp m ! j" if "k \<le> j" "j < k + l" for j
  proof -
    have "j \<noteq> i + n - 1" "\<not> (i \<le> j \<and> j < i + n - 1)" "j < unat (total (table hp))"
      using that apart len assms(2) by linarith+
    then show ?thesis by (auto simp: heap_tbl_marked)
  qed
  have "heap_tbl hp (marked hp m i n) ! (k - 1) \<noteq> 0x81" if "0 < k"
    using that apart len assms(2,3) by (subst heap_tbl_marked) (auto simp: alloc_at_def)
  then show "alloc_at (heap_tbl hp (marked hp m i n)) k l"
    using assms(3) len same by (auto simp: alloc_at_def)
qed

lemma alloc_at_apart:
  assumes "alloc_at tbl i n" and "alloc_at tbl k l"
  shows "(i = k \<and> n = l) \<or> i + n \<le> k \<or> k + l \<le> i"
proof -
  have body: "tbl ! j = 0x81" if "alloc_at tbl i n" "i \<le> j" "j < i + n - 1" for i n j
  proof -
    have "j - i < n - 1" using that by linarith
    with that show ?thesis by (auto simp: alloc_at_def dest!: spec [of _ "j - i"])
  qed
  have no_start: "\<not> (i < k \<and> k < i + n)" if "alloc_at tbl i n" "alloc_at tbl k l" for i n k l
  proof
    assume "i < k \<and> k < i + n"
    then have "tbl ! (k - 1) = 0x81" using body [OF that(1), of "k - 1"] by auto
    with \<open>i < k \<and> k < i + n\<close> that(2) show False by (auto simp: alloc_at_def)
  qed
  have no_short: "\<not> n < l" if "alloc_at tbl i n" "alloc_at tbl i l" for n l
  proof
    assume "n < l"
    moreover have "0 < n" "tbl ! (i + n - 1) = 0x41" using that(1) by (auto simp: alloc_at_def)
    ultimately show False using body [OF that(2), of "i + n - 1"] by (simp; linarith)
  qed
  show ?thesis
    using no_start [OF assms] no_start [OF assms(2,1)] no_short [of n l] no_short [of l n] assms
    by (cases "i = k") auto
qed

lemma alloc_at_kept_cleared:
  assumes "alloc_at (heap_tbl hp m) i n" and "alloc_at (heap_tbl hp m) k l" and "k \<noteq> i"
  shows "alloc_at (heap_tbl hp (cleared hp m i n)) k l"
proof -
  have apart: "i + n \<le> k \<or> k + l \<le> i" using alloc_at_apart [OF assms(1,2)] assms(3) by auto
  have len: "k + l \<le> unat (total (table hp))" "0 < l" using assms(2) by (auto simp: alloc_at_def)
  have "heap_tbl hp (cleared hp m i n) ! j = heap_tbl hp m ! j" if "k \<le> j" "j < k + l" for j
    using that apart len by (subst heap_tbl_cleared) auto
  moreover have "heap_tbl hp (cleared hp m i n) ! (k - 1) \<noteq> 0x81" if "0 < k"
    using that len assms(2) by (subst heap_tbl_cleared) (auto simp: alloc_at_def)
  ultimately show ?thesis using assms(2) len by (auto simp: alloc_at_def)
qed

text \<open>In a well-formed table every taken block belongs to a run, so it can be released.\<close>

lemma wf_table_run_end:
  assumes "wf_table tbl" and "j < length tbl" and "tbl ! j \<noteq> 0"
  shows "\<exists>e\<ge>j. e < length tbl \<and> tbl ! e = 0x41 \<and> (\<forall>x. j \<le> x \<and> x < e \<longrightarrow> tbl ! x = 0x81)"
  using assms(2,3)
proof (induction "length tbl - j" arbitrary: j)
  case 0
  then show ?case by simp
next
  case (Suc d)
  show ?case
  proof (cases "tbl ! j = 0x41")
    case True
    with Suc.prems show ?thesis by (intro exI [of _ j]) auto
  next
    case False
    with Suc.prems assms(1) have next1: "tbl ! j = 0x81" "Suc j < length tbl" "tbl ! Suc j \<noteq> 0"
      by (auto simp: wf_table_def)
    have "d = length tbl - Suc j" using Suc.hyps(2) by simp
    with next1 obtain e where "Suc j \<le> e" "e < length tbl" "tbl ! e = 0x41"
        "\<forall>x. Suc j \<le> x \<and> x < e \<longrightarrow> tbl ! x = 0x81"
      using Suc.hyps(1) [of "Suc j"] by auto
    with next1 show ?thesis
      by (intro exI [of _ e] conjI allI impI) (auto simp: Suc_le_eq nat_less_le)
  qed
qed

lemma run_start: "\<exists>i\<le>j. (\<forall>x. i \<le> x \<and> x < j \<longrightarrow> tbl ! x = 0x81) \<and> (0 < i \<longrightarrow> tbl ! (i - 1) \<noteq> (0x81 :: u8))"
proof (induction j)
  case 0
  then show ?case by auto
next
  case (Suc j)
  then obtain i where i: "i \<le> j" "\<forall>x. i \<le> x \<and> x < j \<longrightarrow> tbl ! x = 0x81"
    "0 < i \<longrightarrow> tbl ! (i - 1) \<noteq> 0x81" by blast
  show ?case
  proof (cases "tbl ! j = 0x81")
    case True
    with i show ?thesis by (intro exI [of _ i]) (auto simp: less_Suc_eq)
  next
    case False
    then show ?thesis by (intro exI [of _ "Suc j"]) auto
  qed
qed

lemma wf_table_in_run:
  assumes "wf_table tbl" and "j < length tbl" and "tbl ! j \<noteq> 0"
  shows "\<exists>i n. alloc_at tbl i n \<and> i \<le> j \<and> j < i + n"
proof -
  obtain e where e: "j \<le> e" "e < length tbl" "tbl ! e = 0x41" "\<forall>x. j \<le> x \<and> x < e \<longrightarrow> tbl ! x = 0x81"
    using wf_table_run_end [OF assms] by blast
  obtain i where i: "i \<le> j" "\<forall>x. i \<le> x \<and> x < j \<longrightarrow> tbl ! x = 0x81" "0 < i \<longrightarrow> tbl ! (i - 1) \<noteq> 0x81"
    using run_start by blast
  have "tbl ! x = 0x81" if "i \<le> x" "x < e" for x
    using e(4) i(2) that by (cases "x < j") auto
  then have "alloc_at tbl i (Suc e - i)"
    using e i by (auto simp: alloc_at_def)
  with e i show ?thesis by (intro exI [of _ i] exI [of _ "Suc e - i"]) auto
qed

section \<open>Block counts\<close>

lemma BlocksToAllocate_ceil:
  assumes "unat bytes \<le> 4294963200"
  shows "unat (BlocksToAllocate bytes) = (unat bytes + 4095) div 4096"
proof -
  define k r where "k = unat bytes div 4096" and "r = unat bytes mod 4096"
  have x: "unat bytes = 4096 * k + r" and r: "r < 4096" by (simp_all add: k_def r_def)
  have mod: "unat (bytes mod 4096) = r" by (simp add: unat_mod r_def)
  show ?thesis
  proof (cases "bytes mod 4096 = 0")
    case True
    then have "r = 0" using mod by simp
    with True x show ?thesis by (simp add: BlocksToAllocate_def unat_div)
  next
    case False
    then have "r \<noteq> 0" using mod by (metis unat_eq_zero)
    have "unat (4096 - bytes mod 4096) = 4096 - r"
      using mod r by (simp add: unat_sub_if_size)
    moreover have "4096 * k + 4096 < 4294967296 + 1" using x assms \<open>r \<noteq> 0\<close> r by simp
    ultimately have "unat (bytes + (4096 - bytes mod 4096)) = 4096 * (k + 1)"
      using x r \<open>r \<noteq> 0\<close> assms by (subst unat_add_u32) auto
    then have "unat ((bytes + (4096 - bytes mod 4096)) div 4096) = k + 1"
      by (simp add: unat_div)
    moreover have "(unat bytes + 4095) div 4096 = k + 1"
      using x r \<open>r \<noteq> 0\<close> by (intro div_nat_eqI) simp_all
    ultimately show ?thesis using False by (simp add: BlocksToAllocate_def)
  qed
qed

lemma BlocksToAllocate_page: "0 < bytes \<Longrightarrow> bytes \<le> 4096 \<Longrightarrow> BlocksToAllocate bytes = 1"
proof -
  assume "0 < bytes" "bytes \<le> 4096"
  then have b: "0 < unat bytes" "unat bytes \<le> 4096" by (simp_all add: word_less_nat_alt word_le_nat_alt)
  then have "(unat bytes + 4095) div 4096 = 1" by (intro div_nat_eqI) simp_all
  then have "unat (BlocksToAllocate bytes) = unat (1 :: u32)"
    using b by (simp add: BlocksToAllocate_ceil)
  then show ?thesis by (simp add: word_unat_eq_iff)
qed

definition free_blocks :: "heap \<Rightarrow> mem \<Rightarrow> nat" where
  "free_blocks hp m = length (filter (\<lambda>e. e = 0) (heap_tbl hp m))"

lemma free_blocks_card:
  "free_blocks hp m = card {i. i < unat (total (table hp)) \<and> heap_tbl hp m ! i = 0}"
  by (simp add: free_blocks_def length_filter_conv_card)

lemma free_blocks_marked_1:
  assumes "free_run (heap_tbl hp m) i 1"
  shows "free_blocks hp (marked hp m i 1) = free_blocks hp m - 1"
proof -
  let ?A = "\<lambda>m. {j. j < unat (total (table hp)) \<and> heap_tbl hp m ! j = 0}"
  have "i \<in> ?A m" using assms by (auto simp: free_run_def)
  moreover have "?A (marked hp m i 1) = ?A m - {i}"
    by (auto simp: heap_tbl_marked split: if_splits)
  moreover have "finite (?A m)" by simp
  ultimately show ?thesis by (simp add: free_blocks_card)
qed

text \<open>A request for one block fits as long as some block is free.\<close>

lemma first_fit_1: "0 < free_blocks hp m \<Longrightarrow> \<exists>i. first_fit (heap_tbl hp m) 1 = Some i"
proof -
  assume "0 < free_blocks hp m"
  then obtain k where "k < unat (total (table hp))" "heap_tbl hp m ! k = 0"
    by (auto simp: free_blocks_card card_gt_0_iff)
  then have "free_run (heap_tbl hp m) k 1" by (simp add: free_run_def)
  with \<open>k < unat (total (table hp))\<close> have "first_fit (heap_tbl hp m) 1 \<noteq> None"
    by (auto simp: first_fit_def find_None_iff)
  then show ?thesis by blast
qed

section \<open>The kernel heap as a page allocator\<close>

definition kheap_inv :: "'a kheap_state_scheme \<Rightarrow> bool" where
  "kheap_inv s \<longleftrightarrow> heap_ok (kernelHeap s) \<and> wf_table (heap_tbl (kernelHeap s) (ram s))"

text \<open>The memory of the clients: everything but the table and the free blocks.\<close>

definition heap_table :: "heap \<Rightarrow> addr set" where
  "heap_table hp = region (entries (table hp)) (total (table hp))"

definition kheap_owned :: "'a kheap_state_scheme \<Rightarrow> addr set" where
  "kheap_owned s = {a. a \<notin> heap_table (kernelHeap s) \<and>
     (\<forall>i<unat (total (table (kernelHeap s))).
        heap_tbl (kernelHeap s) (ram s) ! i = 0 \<longrightarrow> a \<notin> region (block (kernelHeap s) i) 4096)}"

definition kheap_free :: "'a kheap_state_scheme \<Rightarrow> nat" where
  "kheap_free s = free_blocks (kernelHeap s) (ram s)"

lemma block_region:
  assumes "heap_ok hp" and "i < unat (total (table hp))"
  shows "a \<in> region (block hp i) 4096 \<longleftrightarrow>
    unat (saddr hp) + 4096 * i \<le> unat a \<and> unat a < unat (saddr hp) + 4096 * Suc i"
proof -
  have "unat (block hp i) + unat (4096 :: u32) \<le> 4294967296"
    using assms unat_block [OF assms] by (auto simp: heap_ok_def)
  from region_unat [OF this, of a] show ?thesis using unat_block [OF assms] by auto
qed

lemma blocks_disjoint:
  assumes "heap_ok hp" and "i < unat (total (table hp))" and "j < unat (total (table hp))" and "i \<noteq> j"
  shows "region (block hp i) 4096 \<inter> region (block hp j) 4096 = {}"
  using assms(4) block_region [OF assms(1,2)] block_region [OF assms(1,3)]
  by (auto simp del: mem_region)

text \<open>The table depends on its own bytes only, and the pool lies above it.\<close>

lemma heap_tbl_cong:
  assumes "same_outside R m m'" and "R \<inter> heap_table hp = {}"
  shows "heap_tbl hp m' = heap_tbl hp m"
proof (rule nth_equalityI)
  fix i assume "i < length (heap_tbl hp m')"
  then have i: "i < unat (total (table hp))" by simp
  have "(of_nat i :: u32) < total (table hp)" using i by (simp add: word_less_nat_alt)
  then have "entries (table hp) + of_nat i \<in> heap_table hp" by (simp add: heap_table_def)
  with assms(2) have "entries (table hp) + of_nat i \<notin> R" by blast
  with assms(1) i show "heap_tbl hp m' ! i = heap_tbl hp m ! i"
    by (simp add: nth_heap_tbl same_outsideD)
qed simp

lemma table_below:
  assumes "heap_ok hp" and "a \<in> heap_table hp"
  shows "unat a < unat (saddr hp)"
proof -
  have "unat (entries (table hp)) + unat (total (table hp)) \<le> 4294967296"
    using assms(1) u32_bound [of "saddr hp"] by (simp add: heap_ok_def)
  from region_unat [OF this, of a] assms show ?thesis by (simp add: heap_table_def heap_ok_def)
qed

lemma heap_tbl_same_outside:
  assumes "heap_ok hp" and "same_outside R m m'" and "\<And>a. a \<in> R \<Longrightarrow> unat (saddr hp) \<le> unat a"
  shows "heap_tbl hp m' = heap_tbl hp m"
  using assms table_below [OF assms(1)] by (intro heap_tbl_cong) (auto simp flip: not_le)

lemma block_not_table:
  assumes "heap_ok hp" and "i < unat (total (table hp))" and "a \<in> region (block hp i) 4096"
  shows "a \<notin> heap_table hp"
  using table_below [OF assms(1), of a] block_region [OF assms(1,2), of a] assms(3) by auto

lemma kheap_write_owned:
  assumes "kheap_inv s" and "same_outside (kheap_owned s) (ram s) m"
  shows "kheap_inv (s\<lparr>ram := m\<rparr>) \<and> kheap_owned (s\<lparr>ram := m\<rparr>) = kheap_owned s \<and>
    kheap_free (s\<lparr>ram := m\<rparr>) = kheap_free s"
proof -
  have "heap_tbl (kernelHeap s) m = heap_tbl (kernelHeap s) (ram s)"
    using assms(2) by (rule heap_tbl_cong) (auto simp: kheap_owned_def)
  with assms(1) show ?thesis
    by (simp add: kheap_inv_def kheap_owned_def kheap_free_def free_blocks_def)
qed

lemma kZalloc_fit:
  assumes "heap_ok (kernelHeap s)" and "0 < BlocksToAllocate bytes"
    and "first_fit (heap_tbl (kernelHeap s) (ram s)) (unat (BlocksToAllocate bytes)) = Some i"
  shows "kZalloc bytes s = (block (kernelHeap s) i,
    s\<lparr>ram := memset (marked (kernelHeap s) (ram s) i (unat (BlocksToAllocate bytes)))
                 (block (kernelHeap s) i) 0 bytes\<rparr>)"
proof -
  have "i < unat (total (table (kernelHeap s)))" using first_fitD [OF assms(3)] by simp
  then have "block (kernelHeap s) i \<noteq> NULL" using assms(1) by (rule block_nonnull [rotated])
  then show ?thesis by (simp add: kZalloc_def kMalloc_def HeapMalloc_fit [OF assms])
qed

text \<open>The state after a one-page allocation, in terms of the block that was found.\<close>

lemma kZalloc_page:
  assumes "kheap_inv s" and "0 < n" and "n \<le> 4096" and "0 < kheap_free s"
  obtains i where "i < unat (total (table (kernelHeap s)))"
    and "heap_tbl (kernelHeap s) (ram s) ! i = 0"
    and "kZalloc n s = (block (kernelHeap s) i,
      s\<lparr>ram := memset (marked (kernelHeap s) (ram s) i 1) (block (kernelHeap s) i) 0 n\<rparr>)"
    and "heap_tbl (kernelHeap s) (memset (marked (kernelHeap s) (ram s) i 1) (block (kernelHeap s) i) 0 n) =
      heap_tbl (kernelHeap s) (marked (kernelHeap s) (ram s) i 1)"
    and "free_run (heap_tbl (kernelHeap s) (ram s)) i 1"
proof -
  let ?hp = "kernelHeap s"
  obtain i where fit: "first_fit (heap_tbl ?hp (ram s)) 1 = Some i"
    using assms(4) first_fit_1 by (auto simp: kheap_free_def)
  have ok: "heap_ok ?hp" using assms(1) by (simp add: kheap_inv_def)
  have i: "i < unat (total (table ?hp))" and run: "free_run (heap_tbl ?hp (ram s)) i 1"
    using first_fitD [OF fit] by auto
  have sub: "unat (saddr ?hp) \<le> unat a" if "a \<in> region (block ?hp i) n" for a
  proof -
    have "a \<in> region (block ?hp i) 4096" using that assms(3) by (simp add: order.strict_trans2)
    then show ?thesis using block_region [OF ok i] by (simp del: mem_region)
  qed
  show thesis
  proof (rule that [OF i _ _ _ run])
    show "heap_tbl ?hp (ram s) ! i = 0" using run by (auto simp: free_run_def)
    show "kZalloc n s = (block ?hp i, s\<lparr>ram := memset (marked ?hp (ram s) i 1) (block ?hp i) 0 n\<rparr>)"
      using kZalloc_fit [OF ok, of n i] fit BlocksToAllocate_page [OF assms(2,3)] by simp
    show "heap_tbl ?hp (memset (marked ?hp (ram s) i 1) (block ?hp i) 0 n) =
        heap_tbl ?hp (marked ?hp (ram s) i 1)"
      using sub by (intro heap_tbl_same_outside [OF ok memset_frame])
  qed
qed

lemma heap_tbl_marked_1:
  "j < unat (total (table hp)) \<Longrightarrow>
   heap_tbl hp (marked hp m i (Suc 0)) ! j = (if j = i then 0x41 else heap_tbl hp m ! j)"
  by (auto simp: heap_tbl_marked)

lemma marked_outside:
  assumes "a \<notin> heap_table hp" and "i + n \<le> unat (total (table hp))" and "0 < n"
  shows "marked hp m i n a = m a"
  using assms by (auto simp: marked_def heap_table_def Let_def word_less_nat_alt)

interpretation kz: page_allocator kZalloc ram "\<lambda>m s. s\<lparr>ram := m\<rparr>" kheap_inv kheap_owned kheap_free
proof unfold_locales
  fix s :: "'a kheap_state_scheme" and n :: u32
  assume n: "0 < n" "n \<le> 4096" and inv: "kheap_inv s" and free: "kheap_free s = 0"
  let ?hp = "kernelHeap s" and ?tbl = "heap_tbl (kernelHeap s) (ram s)"
  have ok: "heap_ok ?hp" using inv by (simp add: kheap_inv_def)
  have none: "?tbl ! i \<noteq> 0" if "i < unat (total (table ?hp))" for i
    using free that by (auto simp: kheap_free_def free_blocks_card)
  have "first_fit ?tbl 1 = None"
    using none by (intro first_fit_NoneI) (auto simp: free_run_def)
  moreover have "free_tail ?tbl = 0"
    using none by (intro free_tail_eq) auto
  ultimately have "searchForContiguousBlocks ?hp (ram s) (of_nat 1) = - 1"
    using heap_ok_total [OF ok] by (subst searchForContiguousBlocks_spec) (auto simp: search_spec_def)
  then show "kZalloc n s = (NULL, s)"
    by (simp add: kZalloc_def kMalloc_def HeapMalloc_def BlocksToAllocate_page [OF n])
next
  fix s :: "'a kheap_state_scheme" and n :: u32
  show "snd (kZalloc n s) = s\<lparr>ram := ram (snd (kZalloc n s))\<rparr>"
    by (auto simp: kZalloc_def kMalloc_def split: prod.split)
next
  fix s :: "'a kheap_state_scheme" and m
  assume "kheap_inv s" "same_outside (kheap_owned s) (ram s) m"
  then show "kheap_inv (s\<lparr>ram := m\<rparr>) \<and> kheap_owned (s\<lparr>ram := m\<rparr>) = kheap_owned s \<and>
      kheap_free (s\<lparr>ram := m\<rparr>) = kheap_free s"
    by (rule kheap_write_owned)
next
  fix s :: "'a kheap_state_scheme" and n :: u32
  assume n: "0 < n" "n \<le> 4096" and inv: "kheap_inv s" and free: "0 < kheap_free s"
  let ?hp = "kernelHeap s"
  have ok: "heap_ok ?hp" and wf: "wf_table (heap_tbl ?hp (ram s))" using inv by (simp_all add: kheap_inv_def)
  obtain i where i: "i < unat (total (table ?hp))" "heap_tbl ?hp (ram s) ! i = 0"
    and z: "kZalloc n s = (block ?hp i, s\<lparr>ram := memset (marked ?hp (ram s) i 1) (block ?hp i) 0 n\<rparr>)"
    and tbl: "heap_tbl ?hp (memset (marked ?hp (ram s) i 1) (block ?hp i) 0 n) =
      heap_tbl ?hp (marked ?hp (ram s) i 1)" and run: "free_run (heap_tbl ?hp (ram s)) i 1"
    using inv n free by (rule kZalloc_page)
  show "kheap_inv (snd (kZalloc n s))"
    using ok wf run tbl by (simp add: z kheap_inv_def wf_table_marked)
  show "fst (kZalloc n s) \<noteq> NULL \<and> page_aligned (fst (kZalloc n s))"
    using i ok by (simp add: z block_nonnull block_aligned)
  show "region (fst (kZalloc n s)) 4096 \<inter> kheap_owned s = {}"
    using i by (auto simp: z kheap_owned_def simp del: mem_region)
  show "kheap_owned (snd (kZalloc n s)) = kheap_owned s \<union> region (fst (kZalloc n s)) 4096"
  proof (rule set_eqI)
    fix a
    have new: "heap_tbl ?hp (marked ?hp (ram s) i (Suc 0)) ! j = 0 \<longleftrightarrow> j \<noteq> i \<and> heap_tbl ?hp (ram s) ! j = 0"
      if "j < unat (total (table ?hp))" for j using that by (simp add: heap_tbl_marked_1)
    have "a \<notin> region (block ?hp j) 4096" if "j < unat (total (table ?hp))" "j \<noteq> i" "a \<in> region (block ?hp i) 4096" for j
      using blocks_disjoint [OF ok i(1) that(1)] that by blast
    with block_not_table [OF ok i(1), of a] tbl new i
    show "a \<in> kheap_owned (snd (kZalloc n s)) \<longleftrightarrow> a \<in> kheap_owned s \<union> region (fst (kZalloc n s)) 4096"
      by (cases "a \<in> region (block ?hp i) 4096") (auto simp: z kheap_owned_def simp del: mem_region)
  qed
  show "kheap_free (snd (kZalloc n s)) = kheap_free s - 1"
    using free_blocks_marked_1 [OF run] tbl by (simp add: z kheap_free_def free_blocks_def)
  show "ram (snd (kZalloc n s)) a = 0" if "a \<in> region (fst (kZalloc n s)) n" for a
    using that by (simp add: z memset_apply)
  show "ram (snd (kZalloc n s)) a = ram s a" if a: "a \<in> kheap_owned s" for a
  proof -
    have "a \<notin> region (block ?hp i) 4096" and out: "a \<notin> heap_table ?hp"
      using a i by (auto simp: kheap_owned_def simp del: mem_region)
    then have "\<not> a - block ?hp i < n" using n(2) by auto
    with marked_outside [OF out] i show ?thesis by (simp add: z memset_apply)
  qed
qed simp_all

section \<open>One-page allocations\<close>

definition kheap_page :: "'a kheap_state_scheme \<Rightarrow> addr \<Rightarrow> bool" where
  "kheap_page s p \<longleftrightarrow> (\<exists>i<unat (total (table (kernelHeap s))).
     p = block (kernelHeap s) i \<and> alloc_at (heap_tbl (kernelHeap s) (ram s)) i 1)"

lemma free_blocks_cleared_1:
  assumes "alloc_at (heap_tbl hp m) i 1"
  shows "free_blocks hp (cleared hp m i 1) = Suc (free_blocks hp m)"
proof -
  let ?A = "\<lambda>m. {j. j < unat (total (table hp)) \<and> heap_tbl hp m ! j = 0}"
  have i: "i < unat (total (table hp))" "i \<notin> ?A m" using assms by (auto simp: alloc_at_def)
  then have "?A (cleared hp m i 1) = insert i (?A m)"
    by (auto simp: heap_tbl_cleared split: if_splits)
  moreover have "finite (?A m)" by simp
  ultimately show ?thesis using i(2) by (simp add: free_blocks_card)
qed

lemma cleared_outside:
  assumes "a \<notin> heap_table hp" and "i + n \<le> unat (total (table hp))"
  shows "cleared hp m i n a = m a"
  using assms by (auto simp: cleared_def heap_table_def Let_def word_less_nat_alt)

lemma alloc_at_before_clear:
  assumes "alloc_at (heap_tbl hp m) i 1" "alloc_at (heap_tbl hp (cleared hp m i 1)) j 1"
  shows "alloc_at (heap_tbl hp m) j 1"
proof -
  have "heap_tbl hp m ! (j - 1) \<noteq> 0x81" if "0 < j"
  proof (cases "j - 1 = i")
    case False
    with that assms(2) show ?thesis by (subst (asm) alloc_at_def) (auto simp: heap_tbl_cleared split: if_splits)
  qed (use assms(1) in \<open>simp add: alloc_at_def\<close>)
  then show ?thesis using assms(2) by (auto simp: alloc_at_def heap_tbl_cleared split: if_splits)
qed

lemma kFree_page:
  assumes "kheap_inv s" and "kheap_page s p"
  obtains i where "i < unat (total (table (kernelHeap s)))" "p = block (kernelHeap s) i"
    "alloc_at (heap_tbl (kernelHeap s) (ram s)) i 1"
    "kFree p s = s\<lparr>ram := cleared (kernelHeap s) (ram s) i 1\<rparr>"
  using assms HeapFree_run by (auto simp: kheap_page_def kheap_inv_def kFree_def)

interpretation kp: page_heap kZalloc ram "\<lambda>m s. s\<lparr>ram := m\<rparr>" kheap_inv kheap_owned kheap_free kFree kheap_page
proof unfold_locales
  fix s :: "'a kheap_state_scheme" and p
  assume inv: "kheap_inv s" and "kheap_page s p"
  then obtain i where i: "i < unat (total (table (kernelHeap s)))" "p = block (kernelHeap s) i"
    "alloc_at (heap_tbl (kernelHeap s) (ram s)) i 1"
    "kFree p s = s\<lparr>ram := cleared (kernelHeap s) (ram s) i 1\<rparr>" by (rule kFree_page)
  let ?hp = "kernelHeap s" and ?tbl = "heap_tbl (kernelHeap s) (ram s)"
  have ok: "heap_ok ?hp" and wf: "wf_table ?tbl" using inv by (simp_all add: kheap_inv_def)
  have taken: "?tbl ! i \<noteq> 0" using i(3) by (simp add: alloc_at_def)
  have apart: "a \<notin> region (block ?hp j) 4096"
    if "j < unat (total (table ?hp))" "j \<noteq> i" "a \<in> region (block ?hp i) 4096" for a j
    using blocks_disjoint [OF ok i(1) that(1)] that by blast
  show "p \<noteq> NULL \<and> page_aligned p \<and> region p 4096 \<subseteq> kheap_owned s"
    using i taken ok apart block_not_table [OF ok i(1)]
    by (auto simp: block_nonnull block_aligned kheap_owned_def simp del: mem_region)
  show "kheap_inv (kFree p s)" using ok wf_table_cleared [OF wf i(3)] by (simp add: i(4) kheap_inv_def)
  show "kheap_free (kFree p s) = Suc (kheap_free s)"
    using free_blocks_cleared_1 [OF i(3)] by (simp add: i(4) kheap_free_def)
  have new: "heap_tbl ?hp (cleared ?hp (ram s) i (Suc 0)) ! j = 0 \<longleftrightarrow> j = i \<or> ?tbl ! j = 0"
    if "j < unat (total (table ?hp))" for j using that by (auto simp: heap_tbl_cleared)
  show "kheap_owned (kFree p s) = kheap_owned s - region p 4096"
    unfolding i(4) kheap_owned_def using i(1,2) new by (auto simp del: mem_region)
  show "ram (kFree p s) a = ram s a" if "a \<in> kheap_owned s" for a
    using that i(1,4) by (simp add: kheap_owned_def cleared_outside del: mem_region)
  show "kheap_page (kFree p s) q" if q: "kheap_page s q" "q \<noteq> p" for q
  proof -
    obtain k where k: "k < unat (total (table ?hp))" "q = block ?hp k" "alloc_at ?tbl k 1"
      using q(1) by (auto simp: kheap_page_def)
    then have "alloc_at (heap_tbl ?hp (cleared ?hp (ram s) i 1)) k 1"
      using q(2) i(2) alloc_at_kept_cleared [OF i(3)] by auto
    with k show ?thesis by (auto simp: kheap_page_def i(4))
  qed
  show "kheap_page s q" if "kheap_page (kFree p s) q" for q
    using that i(3) alloc_at_before_clear [OF i(3)] by (auto simp: kheap_page_def i(4))
next
  fix s :: "'a kheap_state_scheme" and n :: u32
  assume n: "0 < n" "n \<le> 4096" and inv: "kheap_inv s" and free: "0 < kheap_free s"
  let ?hp = "kernelHeap s"
  have wf: "wf_table (heap_tbl ?hp (ram s))" using inv by (simp add: kheap_inv_def)
  obtain i where i: "i < unat (total (table ?hp))"
    and z: "kZalloc n s = (block ?hp i, s\<lparr>ram := memset (marked ?hp (ram s) i 1) (block ?hp i) 0 n\<rparr>)"
    and tbl: "heap_tbl ?hp (memset (marked ?hp (ram s) i 1) (block ?hp i) 0 n) =
      heap_tbl ?hp (marked ?hp (ram s) i 1)" and run: "free_run (heap_tbl ?hp (ram s)) i 1"
    using inv n free by (rule kZalloc_page)
  show "kheap_page (snd (kZalloc n s)) (fst (kZalloc n s))"
    using i tbl alloc_at_marked [OF wf run] by (auto simp: z kheap_page_def)
  show "kheap_page (snd (kZalloc n s)) q" if "kheap_page s q" for q
    using that tbl alloc_at_kept_marked(1) [OF run] by (auto simp: z kheap_page_def)
next
  fix s :: "'a kheap_state_scheme" and m q
  assume "same_outside (kheap_owned s) (ram s) m"
  then have "heap_tbl (kernelHeap s) m = heap_tbl (kernelHeap s) (ram s)"
    by (rule heap_tbl_cong) (auto simp: kheap_owned_def)
  then show "kheap_page (s\<lparr>ram := m\<rparr>) q = kheap_page s q" by (simp add: kheap_page_def)
next
  fix s :: "'a kheap_state_scheme" and p
  show "kFree p s = s\<lparr>ram := ram (kFree p s)\<rparr>" by (simp add: kFree_def)
qed

section \<open>Initialisation\<close>

lemma InitializeHeapTable_memset: "InitializeHeapTable ht m = memset m (entries ht) 0 (total ht)"
  by (simp add: InitializeHeapTable_def memset_def)

lemma heap_tbl_Initialize:
  "heap_tbl hp (InitializeHeapTable (table hp) m) = replicate (unat (total (table hp))) 0"
  by (rule nth_equalityI)
    (simp_all add: nth_heap_tbl InitializeHeapTable_memset memset_apply word_less_nat_alt)

lemma wf_table_free [simp]: "wf_table (replicate n 0)"
  by (simp add: wf_table_def)

definition kernel_heap :: heap where
  "kernel_heap = \<lparr>table = \<lparr>entries = 0x7E00, total = 25600\<rparr>, saddr = 0x1000000\<rparr>"

lemma kernel_heap_simps [simp]:
  "entries (table kernel_heap) = 0x7E00" "total (table kernel_heap) = 25600"
  "saddr kernel_heap = 0x1000000"
  by (simp_all add: kernel_heap_def)

lemma heap_ok_kernel_heap: "heap_ok kernel_heap"
  by (simp add: heap_ok_def page_aligned_iff)

lemma pool_blocks:
  assumes "heap_ok hp"
  shows "(\<exists>i<unat (total (table hp)). a \<in> region (block hp i) 4096) \<longleftrightarrow>
    unat (saddr hp) \<le> unat a \<and> unat a < unat (saddr hp) + 4096 * unat (total (table hp))"
proof
  assume r: "unat (saddr hp) \<le> unat a \<and> unat a < unat (saddr hp) + 4096 * unat (total (table hp))"
  let ?i = "(unat a - unat (saddr hp)) div 4096"
  have "?i < unat (total (table hp))" using r by (intro less_mult_imp_div_less) auto
  moreover have "4096 * ?i \<le> unat a - unat (saddr hp)" "unat a - unat (saddr hp) < 4096 * Suc ?i"
    by (simp, simp add: dividend_less_times_div)
  ultimately show "\<exists>i<unat (total (table hp)). a \<in> region (block hp i) 4096"
    using r block_region [OF assms, of ?i a] by (intro exI [of _ ?i]) auto
qed (auto simp: block_region [OF assms] simp del: mem_region)

lemma KheapInit_eq:
  "KheapInit s = s\<lparr>ram := InitializeHeapTable (table kernel_heap) (ram s), kernelHeap := kernel_heap\<rparr>"
  by (simp add: KheapInit_def CreateHeap_def kernel_heap_def Let_def)

section \<open>When nothing fits\<close>

lemma free_tail_le: "free_tail tbl \<le> length tbl"
  using length_takeWhile_le [of "\<lambda>e. e = 0" "rev tbl"] by (simp add: free_tail_def)

lemma free_tail_run: "free_run tbl (length tbl - free_tail tbl) (free_tail tbl)"
  unfolding free_run_def
proof (intro conjI allI impI)
  fix j assume j: "j < free_tail tbl"
  let ?k = "free_tail tbl - Suc j"
  have "?k < length (takeWhile (\<lambda>e. e = 0) (rev tbl))" using j by (simp add: free_tail_def)
  from nth_mem [OF this] set_takeWhileD takeWhile_nth [OF this] have "rev tbl ! ?k = 0" by fastforce
  moreover have "length tbl - Suc ?k = length tbl - free_tail tbl + j" and "?k < length tbl"
    using j free_tail_le [of tbl] by auto
  ultimately show "tbl ! (length tbl - free_tail tbl + j) = 0" by (simp add: rev_nth)
qed (simp add: free_tail_le)

lemma free_tail_short: "first_fit tbl n = None \<Longrightarrow> 0 < n \<Longrightarrow> free_tail tbl < n"
proof (rule ccontr)
  assume none: "first_fit tbl n = None" "0 < n" and "\<not> free_tail tbl < n"
  then have "free_run tbl (length tbl - free_tail tbl) n" "length tbl - free_tail tbl < length tbl"
    using free_tail_run [of tbl] free_tail_le [of tbl] by (auto simp: free_run_def)
  with none show False by (auto simp: first_fit_def find_None_iff)
qed

lemma HeapMalloc_nofit:
  assumes "heap_ok hp" and "0 < BlocksToAllocate bytes"
    and "first_fit (heap_tbl hp m) (unat (BlocksToAllocate bytes)) = None"
  defines "st \<equiv> unat (total (table hp)) - free_tail (heap_tbl hp m)"
  shows "HeapMalloc hp m bytes =
    (if free_tail (heap_tbl hp m) = 0 then (NULL, m)
     else (block hp st, UpdateHeapTableOfAllocation hp m (of_nat st) (BlocksToAllocate bytes)))"
proof -
  let ?n = "BlocksToAllocate bytes"
  have N: "unat (total (table hp)) \<le> 1048576" using assms(1) by (rule heap_ok_total)
  have "searchForContiguousBlocks hp m (of_nat (unat ?n)) = search_spec (heap_tbl hp m) (unat ?n)"
    using N assms(2) u32_bound [of ?n] by (intro searchForContiguousBlocks_spec) (auto simp: word_less_nat_alt)
  then have si: "searchForContiguousBlocks hp m ?n =
      (if free_tail (heap_tbl hp m) = 0 then - 1 else of_nat st)"
    using assms(3) by (simp add: search_spec_def st_def)
  have "unat (of_nat st :: u32) \<noteq> unat (- 1 :: u32)" using N by (simp add: st_def)
  then have "(of_nat st :: u32) \<noteq> - 1" by metis
  with si show ?thesis by (simp add: HeapMalloc_def block_def Let_def)
qed

section \<open>Reachable heaps\<close>

text \<open>
  What can happen to a heap: it is initialised, requests that fit are served, allocated runs are
  released, and its clients write to the pool.
\<close>

inductive heap_reach :: "heap \<Rightarrow> mem \<Rightarrow> bool" for hp where
  reach_init: "heap_reach hp (InitializeHeapTable (table hp) m)"
| reach_malloc: "heap_reach hp m \<Longrightarrow> 0 < BlocksToAllocate bytes \<Longrightarrow>
    first_fit (heap_tbl hp m) (unat (BlocksToAllocate bytes)) \<noteq> None \<Longrightarrow>
    heap_reach hp (snd (HeapMalloc hp m bytes))"
| reach_free: "heap_reach hp m \<Longrightarrow> alloc_at (heap_tbl hp m) i n \<Longrightarrow>
    heap_reach hp (snd (HeapFree hp m (block hp i)))"
| reach_write: "heap_reach hp m \<Longrightarrow> same_outside {a. saddr hp \<le> a} m m' \<Longrightarrow> heap_reach hp m'"

lemma heap_reach_wf: "heap_reach hp m \<Longrightarrow> heap_ok hp \<Longrightarrow> wf_table (heap_tbl hp m)"
proof (induction rule: heap_reach.induct)
  case (reach_init m)
  then show ?case by (simp add: heap_tbl_Initialize)
next
  case (reach_malloc m bytes)
  then obtain i where i: "first_fit (heap_tbl hp m) (unat (BlocksToAllocate bytes)) = Some i" by blast
  have "wf_table (heap_tbl hp (marked hp m i (unat (BlocksToAllocate bytes))))"
    using reach_malloc.IH reach_malloc.prems reach_malloc.hyps(2) first_fitD [OF i]
    by (intro wf_table_marked) (simp_all add: word_less_nat_alt)
  then show ?case
    using HeapMalloc_fit [OF reach_malloc.prems reach_malloc.hyps(2) i] by simp
next
  case (reach_free m i n)
  then show ?case using HeapFree_run [of hp m i n] wf_table_cleared [of hp m i n] by simp
next
  case (reach_write m m')
  have "heap_tbl hp m' = heap_tbl hp m"
    using reach_write.prems reach_write.hyps(2)
    by (rule heap_tbl_same_outside) (simp add: word_le_nat_alt)
  with reach_write show ?case by simp
qed

section \<open>Properties\<close>

text \<open>A small heap for the witnesses: four blocks, the first of them taken.\<close>

definition demo_heap :: heap where
  "demo_heap = \<lparr>table = \<lparr>entries = 0x7E00, total = 4\<rparr>, saddr = 0x1000000\<rparr>"

definition demo_ram :: mem where
  "demo_ram = (\<lambda>_. 0)(0x7E00 := 0x41)"

lemma demo_ok: "heap_ok demo_heap"
  by (simp add: demo_heap_def heap_ok_def page_aligned_iff)

lemma demo_tbl: "heap_tbl demo_heap demo_ram = [0x41, 0, 0, 0]"
  by (simp add: heap_tbl_def demo_heap_def demo_ram_def upt_rec)

lemma demo_wf: "wf_table (heap_tbl demo_heap demo_ram)"
  unfolding demo_tbl by (simp add: wf_table_def All_less_Suc)

lemma demo_fit: "first_fit (heap_tbl demo_heap demo_ram) 2 = Some 1"
  unfolding demo_tbl
  by (rule first_fit_SomeI) (auto simp: free_run_def less_2_cases_iff)

text \<open>C37. The search of the heap table is first fit: it returns the first run of free blocks that
  is long enough; when there is none it returns -1, unless the table ends in free blocks, in
  which case it returns the start of that (too short) run.\<close>
theorem search_first_fit:
  assumes "0 < n" and "unat (total (table hp)) < 2147483648"
  shows "searchForContiguousBlocks hp m n = search_spec (heap_tbl hp m) (unat n)"
  using searchForContiguousBlocks_spec [of "unat n" hp m] assms u32_bound [of n]
  by (simp add: word_less_nat_alt)

theorem search_first_fit_witness:
  "searchForContiguousBlocks demo_heap demo_ram 2 = 1"
  using search_first_fit [of 2 demo_heap demo_ram] demo_fit
  by (simp add: demo_heap_def search_spec_def)

text \<open>C4. A request that fits is served with the first fitting run: the result is the page-aligned
  address of its first block, the run of as many blocks as the rounded-up size needs is marked,
  every older run stays allocated and does not overlap the new one, the table stays well formed
  and no byte outside the table changes.\<close>
theorem HeapMalloc_correct:
  assumes "heap_ok hp" and "wf_table (heap_tbl hp m)" and "0 < bytes" and "unat bytes \<le> 4294963200"
    and "first_fit (heap_tbl hp m) ((unat bytes + 4095) div 4096) = Some i"
    and "HeapMalloc hp m bytes = (p, m')"
  shows "p = block hp i \<and> p \<noteq> NULL \<and> page_aligned p \<and> wf_table (heap_tbl hp m') \<and>
    alloc_at (heap_tbl hp m') i ((unat bytes + 4095) div 4096) \<and>
    (\<forall>k l. alloc_at (heap_tbl hp m) k l \<longrightarrow> alloc_at (heap_tbl hp m') k l \<and>
       (k + l \<le> i \<or> i + (unat bytes + 4095) div 4096 \<le> k)) \<and>
    same_outside (region (entries (table hp)) (total (table hp))) m m'"
proof -
  define n where "n = (unat bytes + 4095) div 4096"
  have B: "unat (BlocksToAllocate bytes) = n" using BlocksToAllocate_ceil [OF assms(4)] by (simp add: n_def)
  have n: "0 < n" using assms(3) by (auto simp: n_def word_less_nat_alt div_greater_zero_iff)
  have r: "p = block hp i" "m' = marked hp m i n"
    using HeapMalloc_fit [of hp bytes m i] assms B n by (simp_all add: word_less_nat_alt n_def)
  have fit: "free_run (heap_tbl hp m) i n" "i < unat (total (table hp))"
    using first_fitD [OF assms(5)] by (simp_all add: n_def)
  note kept = alloc_at_kept_marked [OF fit(1) n]
  have "same_outside (region (entries (table hp)) (total (table hp))) m m'"
    using fit n by (auto simp: r same_outside_def marked_def Let_def word_less_nat_alt free_run_def)
  with r fit n kept assms(1,2) show ?thesis
    by (simp add: block_nonnull block_aligned wf_table_marked alloc_at_marked flip: n_def)
qed

theorem HeapMalloc_correct_witness:
  "fst (HeapMalloc demo_heap demo_ram 5000) = 0x1001000"
  using HeapMalloc_correct [OF demo_ok demo_wf, of 5000 1] demo_fit
  by (cases "HeapMalloc demo_heap demo_ram 5000") (simp add: block_def demo_heap_def)

text \<open>C5. Releasing what a request returned undoes the request: \<open>HeapFree\<close> succeeds and memory is
  byte for byte as before the allocation.\<close>
theorem HeapFree_HeapMalloc:
  assumes "heap_ok hp" and "wf_table (heap_tbl hp m)" and "0 < BlocksToAllocate bytes"
    and "first_fit (heap_tbl hp m) (unat (BlocksToAllocate bytes)) = Some i"
  shows "HeapFree hp (snd (HeapMalloc hp m bytes)) (fst (HeapMalloc hp m bytes)) = (0, m)"
proof -
  let ?n = "unat (BlocksToAllocate bytes)"
  have n: "0 < ?n" using assms(3) by (simp add: word_less_nat_alt)
  have fit: "free_run (heap_tbl hp m) i ?n" using first_fitD [OF assms(4)] by simp
  show ?thesis
    using HeapFree_run [OF assms(1) alloc_at_marked [OF assms(2) fit n]] cleared_marked [OF fit n]
    by (simp add: HeapMalloc_fit [OF assms(1,3,4)])
qed

theorem HeapFree_HeapMalloc_witness:
  "HeapFree demo_heap (snd (HeapMalloc demo_heap demo_ram 5000))
     (fst (HeapMalloc demo_heap demo_ram 5000)) = (0, demo_ram)"
  by (rule HeapFree_HeapMalloc [OF demo_ok demo_wf, where i = 1])
    (use demo_fit in \<open>simp_all add: BlocksToAllocate_def\<close>)

text \<open>Releasing an allocated run frees exactly the blocks of that run: they read as free
  afterwards, every other run stays allocated, the table stays well formed and nothing outside
  the table changes.\<close>
lemma HeapFree_exact:
  assumes "heap_ok hp" and "wf_table (heap_tbl hp m)" and "alloc_at (heap_tbl hp m) i n"
    and "HeapFree hp m (block hp i) = (r, m')"
  shows "r = 0 \<and> free_run (heap_tbl hp m') i n \<and> wf_table (heap_tbl hp m') \<and>
    (\<forall>k l. alloc_at (heap_tbl hp m) k l \<and> k \<noteq> i \<longrightarrow> alloc_at (heap_tbl hp m') k l) \<and>
    (\<forall>j<unat (total (table hp)). \<not> (i \<le> j \<and> j < i + n) \<longrightarrow> heap_tbl hp m' ! j = heap_tbl hp m ! j) \<and>
    same_outside (region (entries (table hp)) (total (table hp))) m m'"
proof -
  have r: "r = 0" "m' = cleared hp m i n" using HeapFree_run [OF assms(1,3)] assms(4) by simp_all
  have len: "i + n \<le> unat (total (table hp))" using assms(3) by (simp add: alloc_at_def)
  then have "free_run (heap_tbl hp m') i n" by (simp add: free_run_def r heap_tbl_cleared)
  moreover have "same_outside (region (entries (table hp)) (total (table hp))) m m'"
    using len by (auto simp: r same_outside_def cleared_def Let_def word_less_nat_alt)
  ultimately show ?thesis
    using r wf_table_cleared [OF assms(2,3)] alloc_at_kept_cleared [OF assms(3)]
    by (auto simp: heap_tbl_cleared)
qed

lemma demo_alloc: "alloc_at (heap_tbl demo_heap demo_ram) 0 1"
  by (simp add: demo_tbl alloc_at_def)

lemma HeapFree_exact_witness:
  "fst (HeapFree demo_heap demo_ram 0x1000000) = 0"
  using HeapFree_exact [OF demo_ok demo_wf demo_alloc]
  by (cases "HeapFree demo_heap demo_ram 0x1000000") (simp add: block_def demo_heap_def)

text \<open>C6. On every heap the kernel can reach - initialised, with requests that fit, releases of
  allocated runs and writes to the pool in any order - each taken block lies in exactly one
  allocated run, so it has one owner and can be released.\<close>
theorem heap_reach_unique_run:
  assumes "heap_reach hp m" and "heap_ok hp"
    and "j < unat (total (table hp))" and "heap_tbl hp m ! j \<noteq> 0"
  shows "\<exists>!run. case run of (i, n) \<Rightarrow> alloc_at (heap_tbl hp m) i n \<and> i \<le> j \<and> j < i + n"
proof -
  have "wf_table (heap_tbl hp m)" using assms(1,2) by (rule heap_reach_wf)
  then obtain i n where "alloc_at (heap_tbl hp m) i n" "i \<le> j" "j < i + n"
    using wf_table_in_run [of "heap_tbl hp m" j] assms(3,4) by auto
  then show ?thesis by (intro ex1I [of _ "(i, n)"]) (auto dest: alloc_at_apart)
qed

lemma demo_init_fit:
  "first_fit (heap_tbl demo_heap (InitializeHeapTable (table demo_heap) (\<lambda>_. 7))) (Suc 0) = Some 0"
  by (rule first_fit_SomeI) (simp_all add: free_run_def heap_tbl_Initialize, simp_all add: demo_heap_def)

lemma demo_reach: "heap_reach demo_heap (snd (HeapMalloc demo_heap (InitializeHeapTable (table demo_heap) (\<lambda>_. 7)) 1))"
proof (rule reach_malloc [OF reach_init])
  show "first_fit (heap_tbl demo_heap (InitializeHeapTable (table demo_heap) (\<lambda>_. 7)))
      (unat (BlocksToAllocate 1)) \<noteq> None"
    by (simp add: demo_init_fit BlocksToAllocate_page)
qed (simp add: BlocksToAllocate_page)

lemma demo_reach_taken:
  "heap_tbl demo_heap (snd (HeapMalloc demo_heap (InitializeHeapTable (table demo_heap) (\<lambda>_. 7)) 1)) ! 0 \<noteq> 0"
proof -
  let ?m = "InitializeHeapTable (table demo_heap) (\<lambda>_. 7)"
  have "first_fit (heap_tbl demo_heap ?m) (unat (BlocksToAllocate 1)) = Some 0"
    by (simp add: BlocksToAllocate_page demo_init_fit)
  from HeapMalloc_fit [OF demo_ok _ this] show ?thesis
    by (simp add: BlocksToAllocate_page heap_tbl_marked) (simp add: demo_heap_def heap_tbl_marked)
qed

theorem heap_reach_unique_run_witness:
  "\<exists>!run. case run of (i, n) \<Rightarrow>
     alloc_at (heap_tbl demo_heap (snd (HeapMalloc demo_heap
       (InitializeHeapTable (table demo_heap) (\<lambda>_. 7)) 1))) i n \<and> i \<le> 0 \<and> 0 < i + n"
  by (rule heap_reach_unique_run [OF demo_reach demo_ok _ demo_reach_taken]) (simp add: demo_heap_def)

lemma KheapInit_owned:
  "kheap_owned (KheapInit s) =
     - region HEAP_TABLE_START_ADDR 25600 - region HEAP_START_ADDR HEAP_SIZE_IN_BYTES"
proof (rule set_eqI)
  fix a
  show "a \<in> kheap_owned (KheapInit s) \<longleftrightarrow>
      a \<in> - region HEAP_TABLE_START_ADDR 25600 - region HEAP_START_ADDR HEAP_SIZE_IN_BYTES"
    using pool_blocks [OF heap_ok_kernel_heap, of a] region_unat [of "0x1000000" 104857600 a]
    by (simp add: KheapInit_eq kheap_owned_def heap_table_def heap_tbl_Initialize del: mem_region) blast
qed

lemma KheapInit_ready: "kheap_inv (KheapInit s)" "kheap_free (KheapInit s) = 25600"
  by (simp_all add: KheapInit_eq kheap_inv_def kheap_free_def free_blocks_def heap_ok_kernel_heap heap_tbl_Initialize)

text \<open>\<open>KheapInit\<close> sets up the kernel heap: its table at 0x7E00 is cleared, the invariant holds,
  the clients own exactly what is neither the table nor the pool, and all 25600 blocks of the
  100 MiB pool are free.\<close>
lemma KheapInit_establishes:
  "kheap_inv (KheapInit s) \<and>
   kheap_owned (KheapInit s) = - region HEAP_TABLE_START_ADDR 25600 - region HEAP_START_ADDR HEAP_SIZE_IN_BYTES \<and>
   kheap_free (KheapInit s) = 25600 \<and>
   saddr (kernelHeap (KheapInit s)) = HEAP_START_ADDR \<and>
   same_outside (region HEAP_TABLE_START_ADDR 25600) (ram s) (ram (KheapInit s))"
proof -
  have "same_outside (region 0x7E00 25600) (ram s) (memset (ram s) 0x7E00 0 25600)"
    by (rule memset_frame)
  then have "same_outside (region HEAP_TABLE_START_ADDR 25600) (ram s) (ram (KheapInit s))"
    by (simp add: KheapInit_eq InitializeHeapTable_memset)
  moreover have "saddr (kernelHeap (KheapInit s)) = HEAP_START_ADDR" by (simp add: KheapInit_eq)
  ultimately show ?thesis using KheapInit_owned [of s] KheapInit_ready [of s] by simp
qed

text \<open>Any sequence of zeroed allocations of at most a page each, no longer than the number of
  free blocks, succeeds: every result is a fresh page-aligned page, the pages are pairwise
  disjoint and disjoint from all memory handed out before, whose contents do not change.\<close>
lemma kZalloc_run_fresh:
  assumes "kheap_inv s" and "\<forall>n\<in>set ns. 0 < n \<and> n \<le> 4096" and "length ns \<le> kheap_free s"
    and "kz.alloc_run ns s = (ps, s')"
  shows "kheap_inv s' \<and> length ps = length ns \<and>
    (\<forall>p\<in>set ps. p \<noteq> NULL \<and> page_aligned p \<and> region p 4096 \<inter> kheap_owned s = {} \<and>
       region p 4096 \<subseteq> kheap_owned s') \<and>
    (\<forall>i<length ps. \<forall>j<i. region (ps ! i) 4096 \<inter> region (ps ! j) 4096 = {}) \<and>
    (\<forall>a\<in>kheap_owned s. ram s' a = ram s a)"
  using kz.alloc_run_fresh [OF assms] by blast

definition boot_ram :: kheap_state where
  "boot_ram = KheapInit \<lparr>ram = \<lambda>_. 0, kernelHeap = kernel_heap\<rparr>"

lemma boot_ram_inv: "kheap_inv boot_ram" "kheap_free boot_ram = 25600"
  by (simp_all add: boot_ram_def KheapInit_eq kheap_inv_def kheap_free_def free_blocks_def
      heap_ok_kernel_heap heap_tbl_Initialize)

lemma boot_ram_low: "unat a < 32256 \<Longrightarrow> a \<in> kheap_owned boot_ram"
  using region_unat [of "0x7E00" 25600 a] region_unat [of "0x1000000" 104857600 a]
  by (simp add: boot_ram_def KheapInit_owned del: mem_region)

lemma kZalloc_run_fresh_witness:
  "length (fst (kz.alloc_run [4096, 64] boot_ram)) = 2"
  using kZalloc_run_fresh [OF boot_ram_inv(1), of "[4096, 64]"] boot_ram_inv(2)
  by (cases "kz.alloc_run [4096, 64] boot_ram") simp

text \<open>C39. The size in blocks is the size in bytes divided by 4096, rounded up, for every size up to
  the last full page below 4 GiB; above that the rounding wraps around and asks for no block.\<close>
theorem BlocksToAllocate_rounds_up:
  "unat (BlocksToAllocate bytes) =
    (if unat bytes \<le> 4294963200 then (unat bytes + 4095) div 4096 else 0)"
proof (cases "unat bytes \<le> 4294963200")
  case False
  define r where "r = unat bytes - 4294963200"
  have r: "unat bytes = r + 4096 * 1048575" "0 < r" "r < 4096"
    using False u32_bound [of bytes] by (simp_all add: r_def)
  have "(r + 1048575 * 4096) mod 4096 = r mod 4096" by (rule mod_mult_self1)
  then have mod: "unat (bytes mod 4096) = r" using r by (simp add: unat_mod)
  then have "bytes mod 4096 \<noteq> 0" using r(2) by (metis less_irrefl unat_0)
  moreover have "unat (4096 - bytes mod 4096) = 4096 - r" using mod r by (simp add: unat_sub_if_size)
  then have "unat (bytes + (4096 - bytes mod 4096)) = 0"
    using r by (simp add: unat_word_ariths)
  then have "bytes + (4096 - bytes mod 4096) = 0" by (metis unat_eq_zero)
  ultimately show ?thesis using False by (simp add: BlocksToAllocate_def)
qed (simp add: BlocksToAllocate_ceil)

text \<open>C38. A request that fits nowhere is refused with a null pointer and no change only when the last
  block of the table is taken.  When the table ends in free blocks the request is granted
  nevertheless: the caller gets the start of the short run at the end, and the marking of the
  run writes the end-of-run code beyond the last entry of the table.\<close>
theorem HeapMalloc_no_fit:
  assumes "heap_ok hp" and "0 < BlocksToAllocate bytes"
    and "first_fit (heap_tbl hp m) (unat (BlocksToAllocate bytes)) = None"
    and "st = unat (total (table hp)) - free_tail (heap_tbl hp m)"
    and "e = st + unat (BlocksToAllocate bytes) - 1"
  shows "(free_tail (heap_tbl hp m) = 0 \<longrightarrow> HeapMalloc hp m bytes = (NULL, m)) \<and>
    (0 < free_tail (heap_tbl hp m) \<longrightarrow> fst (HeapMalloc hp m bytes) = block hp st \<and>
       unat (total (table hp)) \<le> e \<and>
       snd (HeapMalloc hp m bytes) (entries (table hp) + of_nat e) = 0x41)"
proof -
  let ?n = "BlocksToAllocate bytes"
  have n: "0 < unat ?n" "unat ?n \<le> 1048576"
    using assms(2) u32_bound [of "bytes + (4096 - bytes mod 4096)"] u32_bound [of bytes]
    by (auto simp: word_less_nat_alt BlocksToAllocate_def unat_div)
  have short: "free_tail (heap_tbl hp m) < unat ?n" using free_tail_short [OF assms(3) n(1)] .
  have "(of_nat st :: u32) + ?n - 1 = of_nat e" using n(1) by (simp add: assms(5) of_nat_diff)
  moreover have "st \<le> 1048576" using heap_ok_total [OF assms(1)] by (simp add: assms(4))
  ultimately have "UpdateHeapTableOfAllocation hp m (of_nat st) ?n (entries (table hp) + of_nat e) = 0x41"
    using n by (subst UpdateHeapTableOfAllocation_apply [OF assms(2)]) auto
  moreover have "unat (total (table hp)) \<le> e"
    using short n free_tail_le [of "heap_tbl hp m"] by (simp add: assms(4,5))
  ultimately show ?thesis using HeapMalloc_nofit [OF assms(1-3)] by (simp add: assms(4))
qed

theorem HeapMalloc_no_fit_witness:
  "fst (HeapMalloc demo_heap demo_ram 16384) = block demo_heap 1 \<and>
   snd (HeapMalloc demo_heap demo_ram 16384) (entries (table demo_heap) + of_nat 4) = 0x41"
proof -
  have B: "BlocksToAllocate 16384 = 4" by (simp add: BlocksToAllocate_def)
  have "\<not> free_run [0x41, 0, 0, 0 :: u8] k 4" for k
    by (cases k) (auto simp: free_run_def intro: exI [of _ 0])
  then have none: "first_fit (heap_tbl demo_heap demo_ram) (unat (BlocksToAllocate 16384)) = None"
    unfolding demo_tbl B by (intro first_fit_NoneI) simp
  have tail: "free_tail (heap_tbl demo_heap demo_ram) = 3"
    by (simp add: demo_tbl free_tail_def)
  have tot: "unat (total (table demo_heap)) = 4" by (simp add: demo_heap_def)
  have "0 < BlocksToAllocate 16384"
    "1 = unat (total (table demo_heap)) - free_tail (heap_tbl demo_heap demo_ram)"
    "4 = 1 + unat (BlocksToAllocate 16384) - 1"
    by (simp_all add: B tail tot)
  from HeapMalloc_no_fit [OF demo_ok this(1) none this(2,3)] tail show ?thesis by simp
qed

end
