(* ===== verification/Paging.thy ===== *)
theory Paging
  imports Heap
begin

text \<open>
  Page directories and page tables: \<^verbatim>\<open>memory/paging/paging.c\<close>, \<^verbatim>\<open>paging.h\<close> and the two
  instructions of \<^verbatim>\<open>paging.asm\<close>.  Directories and tables are arrays of 1024 little-endian words in
  memory, as the hardware reads them.

  The abstract side is \<open>translate\<close>, the address translation of the i686 MMU, and \<open>vspace_ok\<close>, the
  shape of an address space: every directory entry present, every table a page of its own.  The
  lemmas say what each operation does to the translation of every virtual address.
\<close>

section \<open>paging.h, paging.c\<close>

definition PAGING_IS_PRESENT :: u32 where
  [simp]: "PAGING_IS_PRESENT = 0b000000001"

definition PAGING_IS_WRITEABLE :: u32 where
  [simp]: "PAGING_IS_WRITEABLE = 0b000000010"

definition PAGING_CACHE_DISABLE :: u32 where
  [simp]: "PAGING_CACHE_DISABLE = 0b000010000"

definition PAGING_WRITE_THROUGH :: u32 where
  [simp]: "PAGING_WRITE_THROUGH = 0b000001000"

definition PAGING_ACCESS_FROM_ALL :: u32 where
  [simp]: "PAGING_ACCESS_FROM_ALL = 0b000000100"

definition PAGE_SIZE_IN_BYTES :: u32 where
  [simp]: "PAGE_SIZE_IN_BYTES = HEAP_BLOCK_SIZE_BYTES"

definition PAGE_TABLE_ENTRIES_PER_TABLE :: u32 where
  [simp]: "PAGE_TABLE_ENTRIES_PER_TABLE = HEAP_BLOCK_SIZE_BYTES div 4"

record paging_state = kheap_state +
  current_directory :: addr
  cr3 :: addr
  cr0 :: u32

definition paging_load_directory :: "addr \<Rightarrow> 'a paging_state_scheme \<Rightarrow> 'a paging_state_scheme" where
  "paging_load_directory directory s = s\<lparr>cr3 := directory\<rparr>"

definition enable_paging :: "'a paging_state_scheme \<Rightarrow> 'a paging_state_scheme" where
  "enable_paging s = s\<lparr>cr0 := cr0 s OR 0x80000000\<rparr>"

text \<open>The inner loop of \<open>paging_new_4gb\<close> fills one table, the outer loop makes one table per
  directory entry.  The C code does not look at a null result of \<open>kZalloc\<close>; neither does the model.\<close>

definition fill_table :: "addr \<Rightarrow> u32 \<Rightarrow> u8 \<Rightarrow> mem \<Rightarrow> mem" where
  "fill_table entry pageTableStartAddr flags m =
     for_u32 0 PAGE_TABLE_ENTRIES_PER_TABLE
       (\<lambda>pageTableIndex m. st32 m (entry + 4 * pageTableIndex)
          ((pageTableStartAddr + pageTableIndex * PAGE_SIZE_IN_BYTES) OR ucast flags)) m"

definition new_table :: "addr \<Rightarrow> u8 \<Rightarrow> u32 \<Rightarrow> 'a kheap_state_scheme \<Rightarrow> 'a kheap_state_scheme" where
  "new_table directory flags pageDirectoryIndex s =
     (let (entry, s') = kZalloc (4 * PAGE_TABLE_ENTRIES_PER_TABLE) s;
          pageTableStartAddr = pageDirectoryIndex * PAGE_TABLE_ENTRIES_PER_TABLE * PAGE_SIZE_IN_BYTES;
          m = fill_table entry pageTableStartAddr flags (ram s')
      in s'\<lparr>ram := st32 m (directory + 4 * pageDirectoryIndex)
                      (entry OR ucast flags OR PAGING_IS_WRITEABLE)\<rparr>)"

definition paging_new_4gb :: "u8 \<Rightarrow> 'a kheap_state_scheme \<Rightarrow> addr \<times> 'a kheap_state_scheme" where
  "paging_new_4gb flags s =
     (let (directory, s1) = kZalloc (4 * PAGE_TABLE_ENTRIES_PER_TABLE) s;
          s2 = for_u32 0 PAGE_TABLE_ENTRIES_PER_TABLE (new_table directory flags) s1;
          (chunk_4gb, s3) = kZalloc 4 s2
      in (chunk_4gb, s3\<lparr>ram := st32 (ram s3) chunk_4gb directory\<rparr>))"

definition paging_4gb_chunk_get_directory :: "mem \<Rightarrow> addr \<Rightarrow> addr" where
  "paging_4gb_chunk_get_directory m chunk = ld32 m chunk"

definition paging_switch :: "addr \<Rightarrow> 'a paging_state_scheme \<Rightarrow> 'a paging_state_scheme" where
  "paging_switch chunk s =
     (paging_load_directory (ld32 (ram s) chunk) s)\<lparr>current_directory := ld32 (ram s) chunk\<rparr>"

definition modifyPageTableEntry ::
  "addr \<Rightarrow> u32 \<Rightarrow> 'a paging_state_scheme \<Rightarrow> 'a paging_state_scheme" where
  "modifyPageTableEntry virtualAddress phyAddr s =
     (let pageDirectoryIndex = virtualAddress div (PAGE_TABLE_ENTRIES_PER_TABLE * PAGE_SIZE_IN_BYTES);
          pageTableStartAddr = ld32 (ram s) (current_directory s + 4 * pageDirectoryIndex) AND 0xfffff000;
          pageTableIndex = virtualAddress mod (PAGE_TABLE_ENTRIES_PER_TABLE * PAGE_SIZE_IN_BYTES)
                             div PAGE_SIZE_IN_BYTES;
          e = pageTableStartAddr + 4 * pageTableIndex
      in s\<lparr>ram := st32 (ram s) e ((ld32 (ram s) e AND 0x00000FFF) OR phyAddr)\<rparr>)"

definition paging_free_4gb :: "addr \<Rightarrow> 'a kheap_state_scheme \<Rightarrow> 'a kheap_state_scheme" where
  "paging_free_4gb chunk s =
     (let s1 = for_u32 0 PAGE_TABLE_ENTRIES_PER_TABLE
                 (\<lambda>i s. kFree (ld32 (ram s) (ld32 (ram s) chunk + 4 * i) AND 0xfffff000) s) s;
          s2 = kFree (ld32 (ram s1) chunk) s1
      in kFree chunk s2)"

definition paging_set :: "addr \<Rightarrow> addr \<Rightarrow> addr \<Rightarrow> mem \<Rightarrow> u32 \<times> mem" where
  "paging_set directory virt phy m =
     (if virt mod PAGE_SIZE_IN_BYTES \<noteq> 0 \<or> (phy AND 0xfffff000) mod PAGE_SIZE_IN_BYTES \<noteq> 0
      then (- EINVARG, m)
      else
        let pageDirectoryIndex = virt div (PAGE_TABLE_ENTRIES_PER_TABLE * PAGE_SIZE_IN_BYTES);
            pageTableStartAddr = ld32 m (directory + 4 * pageDirectoryIndex) AND 0xfffff000;
            pageTableIndex = virt mod (PAGE_TABLE_ENTRIES_PER_TABLE * PAGE_SIZE_IN_BYTES)
                               div PAGE_SIZE_IN_BYTES
        in (PEACHOS_ALL_OK, st32 m (pageTableStartAddr + 4 * pageTableIndex) phy))"

definition paging_map :: "addr \<Rightarrow> addr \<Rightarrow> addr \<Rightarrow> u32 \<Rightarrow> mem \<Rightarrow> u32 \<times> mem" where
  "paging_map chunk virt phy flags m =
     (if virt mod PAGE_SIZE_IN_BYTES \<noteq> 0 \<or> phy mod PAGE_SIZE_IN_BYTES \<noteq> 0 then (- EINVARG, m)
      else paging_set (ld32 m chunk) virt (phy OR flags) m)"

function map_range_loop ::
  "addr \<Rightarrow> u32 \<Rightarrow> u32 \<Rightarrow> u32 \<Rightarrow> addr \<Rightarrow> addr \<Rightarrow> u32 \<Rightarrow> mem \<Rightarrow> u32 \<times> mem" where
  "map_range_loop directory flags count i virt phy res m =
     (if i <s count then
        let (res', m') = paging_map directory virt phy flags m in
          if res' <s 0 then (res', m')
          else map_range_loop directory flags count (i + 1) (virt + PAGE_SIZE_IN_BYTES)
                 (phy + PAGE_SIZE_IN_BYTES) res' m'
      else (res, m))"
  by pat_completeness auto
termination
  by (relation "measure (\<lambda>(d, f, count, i, v, p, r, m). nat (sint count - sint i))")
    (auto simp: sint_Suc, simp add: word_sless_alt)

declare map_range_loop.simps [simp del]

definition paging_map_range :: "addr \<Rightarrow> addr \<Rightarrow> addr \<Rightarrow> u32 \<Rightarrow> u32 \<Rightarrow> mem \<Rightarrow> u32 \<times> mem" where
  "paging_map_range directory virt phy count flags m =
     map_range_loop directory flags count 0 virt phy 0 m"

definition paging_map_to :: "addr \<Rightarrow> addr \<Rightarrow> addr \<Rightarrow> addr \<Rightarrow> u32 \<Rightarrow> mem \<Rightarrow> u32 \<times> mem" where
  "paging_map_to directory virt phy phy_end flags m =
     (if virt mod PAGE_SIZE_IN_BYTES \<noteq> 0 then (- EINVARG, m)
      else if phy mod PAGE_SIZE_IN_BYTES \<noteq> 0 then (- EINVARG, m)
      else if phy_end mod PAGE_SIZE_IN_BYTES \<noteq> 0 then (- EINVARG, m)
      else
        let total_bytes = phy_end - phy;
            total_pages = total_bytes div PAGE_SIZE_IN_BYTES;
            (res, m') = paging_map_range directory virt phy total_pages flags m
        in if res <s 0 then (- EIO, m') else (res, m'))"

definition paging_align_addres :: "addr \<Rightarrow> addr" where
  "paging_align_addres ptr =
     (if ptr mod PAGE_SIZE_IN_BYTES \<noteq> 0
      then ptr + (PAGE_SIZE_IN_BYTES - ptr mod PAGE_SIZE_IN_BYTES) else ptr)"

definition paging_get_indexes :: "addr \<Rightarrow> u32 \<times> u32" where
  "paging_get_indexes virt =
     (virt div (PAGE_SIZE_IN_BYTES * PAGE_TABLE_ENTRIES_PER_TABLE), virt mod PAGE_SIZE_IN_BYTES)"

definition paging_get :: "addr \<Rightarrow> addr \<Rightarrow> mem \<Rightarrow> u32" where
  "paging_get directory virt m =
     (let (directory_index, table_index) = paging_get_indexes virt;
          directoryEntry = ld32 m (directory + 4 * directory_index);
          pageTable = directoryEntry AND 0xfffff000
      in ld32 m (pageTable + 4 * table_index))"

section \<open>Address translation\<close>

text \<open>
  The two-level translation of the MMU with 4 KiB pages: the physical address, and the write
  and user permissions that both levels grant.
\<close>

definition pdi :: "addr \<Rightarrow> u32" where
  "pdi va = va div 0x400000"

definition pti :: "addr \<Rightarrow> u32" where
  "pti va = va mod 0x400000 div 0x1000"

definition pde :: "mem \<Rightarrow> addr \<Rightarrow> u32 \<Rightarrow> u32" where
  "pde m dir i = ld32 m (dir + 4 * i)"

definition pt :: "mem \<Rightarrow> addr \<Rightarrow> u32 \<Rightarrow> addr" where
  "pt m dir i = pde m dir i AND 0xFFFFF000"

definition pte :: "mem \<Rightarrow> addr \<Rightarrow> addr \<Rightarrow> u32" where
  "pte m dir va = ld32 m (pt m dir (pdi va) + 4 * pti va)"

definition perms :: "u32 \<Rightarrow> u32 \<Rightarrow> bool \<times> bool" where
  "perms d t = (bit d 1 \<and> bit t 1, bit d 2 \<and> bit t 2)"

definition translate :: "mem \<Rightarrow> addr \<Rightarrow> addr \<Rightarrow> (addr \<times> bool \<times> bool) option" where
  "translate m dir va =
     (let d = pde m dir (pdi va); t = pte m dir va in
        if bit d 0 \<and> bit t 0 then Some ((t AND 0xFFFFF000) + va mod 4096, perms d t) else None)"

text \<open>The shape of an address space, and of the structure that points to it.\<close>

definition vspace_ok :: "mem \<Rightarrow> addr \<Rightarrow> bool" where
  "vspace_ok m dir \<longleftrightarrow> page_aligned dir \<and>
     (\<forall>i<1024. bit (pde m dir i) 0 \<and> pt m dir i \<noteq> dir \<and>
        (\<forall>j<1024. pt m dir i = pt m dir j \<longrightarrow> i = j))"

definition chunk_ok :: "mem \<Rightarrow> addr \<Rightarrow> bool" where
  "chunk_ok m c \<longleftrightarrow> page_aligned c \<and> vspace_ok m (ld32 m c) \<and> c \<noteq> ld32 m c \<and>
     (\<forall>i<1024. pt m (ld32 m c) i \<noteq> c)"

text \<open>Every directory entry grants write access.\<close>

definition dir_writable :: "mem \<Rightarrow> addr \<Rightarrow> bool" where
  "dir_writable m dir \<longleftrightarrow> (\<forall>i<1024. bit (pde m dir i) 1)"

lemma pt_aligned [simp]: "page_aligned (pt m dir i)"
  by (simp add: pt_def)

lemma unat_pdi: "unat (pdi va) = unat va div 4096 div 1024"
  by (simp add: pdi_def unat_div div_mult2_eq [symmetric])

lemma unat_pti: "unat (pti va) = unat va div 4096 mod 1024"
proof -
  have "unat va mod (4096 * 1024) div 4096 = unat va div 4096 mod 1024"
    by (simp only: mod_mult2_eq)
  then show ?thesis by (simp add: pti_def unat_div unat_mod)
qed

lemma pdi_bound [simp]: "pdi va < 1024"
proof -
  have "unat va div 4096 div 1024 < 1024" using u32_bound [of va] by (simp add: less_mult_imp_div_less)
  then show ?thesis by (simp add: word_less_nat_alt unat_pdi)
qed

lemma pti_bound [simp]: "pti va < 1024"
  by (simp add: word_less_nat_alt unat_pti)

lemma page_index_eq: "pdi va = pdi vb \<and> pti va = pti vb \<longleftrightarrow> unat va div 4096 = unat vb div 4096"
  by (metis unat_pdi unat_pti word_unat_eq_iff div_mult_mod_eq)

lemma page_offset:
  assumes "page_aligned virt"
  shows "va - virt < 4096 \<longleftrightarrow> unat va div 4096 = unat virt div 4096"
proof -
  obtain k where k: "unat virt = 4096 * k" "k < 1048576" using assms by (rule page_alignedE)
  have "unat virt + unat (4096 :: u32) \<le> 4294967296" using k by simp
  from region_unat [OF this, of va] have "va - virt < 4096 \<longleftrightarrow> 4096 * k \<le> unat va \<and> unat va < 4096 * k + 4096"
    using k by simp
  also have "\<dots> \<longleftrightarrow> unat va div 4096 = k"
    by (auto intro!: div_nat_eqI)
  finally show ?thesis using k by simp
qed

lemma same_page: "page_aligned virt \<Longrightarrow> pdi va = pdi virt \<and> pti va = pti virt \<longleftrightarrow> va - virt < 4096"
  by (simp add: page_index_eq page_offset)

section \<open>Mapping a page\<close>

lemma paging_set_eq:
  "page_aligned virt \<Longrightarrow> paging_set dir virt phy m =
    (0, st32 m (pt m dir (pdi virt) + 4 * pti virt) phy)"
  using page_aligned_frame [of phy]
  by (simp add: paging_set_def page_aligned_def pt_def pde_def pdi_def pti_def Let_def)

lemma pde_upd:
  "vspace_ok m dir \<Longrightarrow> i < 1024 \<Longrightarrow> k < 1024 \<Longrightarrow> j < 1024 \<Longrightarrow>
   pde (st32 m (pt m dir i + 4 * k) v) dir j = pde m dir j"
  by (auto simp: vspace_ok_def pde_def ld32_st32_index)

lemma vspace_upd:
  assumes "vspace_ok m dir" and "i < 1024" and "k < 1024"
  shows "vspace_ok (st32 m (pt m dir i + 4 * k) v) dir"
proof -
  have "pde (st32 m (pt m dir i + 4 * k) v) dir j = pde m dir j" if "j < 1024" for j
    using assms that by (intro pde_upd)
  with assms(1) show ?thesis by (auto simp: vspace_ok_def pt_def)
qed

lemma pte_upd:
  assumes "vspace_ok m dir" and "page_aligned virt"
  shows "pte (st32 m (pt m dir (pdi virt) + 4 * pti virt) v) dir va =
    (if va - virt < 4096 then v else pte m dir va)"
proof -
  let ?m = "st32 m (pt m dir (pdi virt) + 4 * pti virt) v"
  have "pt ?m dir (pdi va) = pt m dir (pdi va)"
    using pde_upd [OF assms(1)] by (simp add: pt_def)
  moreover have "pt m dir (pdi virt) = pt m dir (pdi va) \<longleftrightarrow> pdi virt = pdi va"
    using assms(1) by (auto simp: vspace_ok_def)
  moreover have "pdi virt = pdi va \<and> pti virt = pti va \<longleftrightarrow> va - virt < 4096"
    using same_page [OF assms(2), of va] by auto
  ultimately show ?thesis
    by (simp add: pte_def ld32_st32_index)
qed

lemma translate_upd:
  assumes "vspace_ok m dir" and "page_aligned virt"
  shows "translate (st32 m (pt m dir (pdi virt) + 4 * pti virt) v) dir va =
    (if va - virt < 4096
     then if bit v 0 then Some ((v AND 0xFFFFF000) + va mod 4096, perms (pde m dir (pdi va)) v) else None
     else translate m dir va)"
proof -
  have "bit (pde m dir (pdi va)) 0" using assms(1) by (simp add: vspace_ok_def)
  then show ?thesis
    using pde_upd [OF assms(1), of "pdi virt" "pti virt" "pdi va"] pte_upd [OF assms]
    by (simp add: translate_def Let_def)
qed

lemma chunk_upd:
  assumes "chunk_ok m c" and "i < 1024" and "k < 1024"
  shows "ld32 (st32 m (pt m (ld32 m c) i + 4 * k) v) c = ld32 m c"
    and "chunk_ok (st32 m (pt m (ld32 m c) i + 4 * k) v) c"
proof -
  let ?m = "st32 m (pt m (ld32 m c) i + 4 * k) v"
  have "ld32 ?m (c + 4 * 0) = ld32 m (c + 4 * 0)"
    using assms by (subst ld32_st32_index) (auto simp: chunk_ok_def)
  then show same: "ld32 ?m c = ld32 m c" by simp
  have "pt ?m (ld32 m c) j = pt m (ld32 m c) j" if "j < 1024" for j
    using pde_upd [of m "ld32 m c" i k j v] assms that by (simp add: chunk_ok_def pt_def)
  moreover have "vspace_ok ?m (ld32 m c)" using assms by (intro vspace_upd) (simp_all add: chunk_ok_def)
  ultimately show "chunk_ok ?m c" using assms(1) by (simp add: chunk_ok_def same)
qed

text \<open>The tables of an address space: all that mapping a page may write to.\<close>

definition tables :: "mem \<Rightarrow> addr \<Rightarrow> addr set" where
  "tables m dir = (\<Union>i\<in>{i. i < 1024}. region (pt m dir i) 4096)"

lemma tables_upd:
  assumes "vspace_ok m dir" and "i < 1024" and "k < 1024"
  shows "tables (st32 m (pt m dir i + 4 * k) v) dir = tables m dir"
proof -
  have "pt (st32 m (pt m dir i + 4 * k) v) dir j = pt m dir j" if "j < 1024" for j
    using pde_upd [OF assms that] by (simp add: pt_def)
  then show ?thesis by (auto simp: tables_def)
qed

lemma same_outside_tables:
  assumes "i < 1024" and "k < 1024"
  shows "same_outside (tables m dir) m (st32 m (pt m dir i + 4 * k) v)"
  using same_outside_st32 page_word_subset [OF pt_aligned assms(2)] assms(1)
  by (fastforce simp: tables_def elim!: same_outside_mono)

lemma paging_map_eq:
  assumes "page_aligned virt" and "page_aligned phy"
  shows "paging_map c virt phy flags m =
    (0, st32 m (pt m (ld32 m c) (pdi virt) + 4 * pti virt) (phy OR flags))"
  using assms by (simp add: paging_map_def paging_set_eq) (simp add: page_aligned_def)

section \<open>Mapping a range\<close>

text \<open>What a successful mapping of \<open>n\<close> pages has done.\<close>

definition mapped :: "addr \<Rightarrow> addr \<Rightarrow> addr \<Rightarrow> nat \<Rightarrow> u32 \<Rightarrow> mem \<Rightarrow> mem \<Rightarrow> bool" where
  "mapped c virt phy n flags m m' \<longleftrightarrow>
     chunk_ok m' c \<and> ld32 m' c = ld32 m c \<and> same_outside (tables m (ld32 m c)) m m' \<and>
     tables m' (ld32 m c) = tables m (ld32 m c) \<and>
     (\<forall>i<1024. pde m' (ld32 m c) i = pde m (ld32 m c) i) \<and>
     (\<forall>va. translate m' (ld32 m c) va =
        (if unat (va - virt) < 4096 * n
         then Some (phy + (va - virt), perms (pde m (ld32 m c) (pdi va)) flags)
         else translate m (ld32 m c) va))"

lemma mapped_0: "chunk_ok m c \<Longrightarrow> mapped c virt phy 0 flags m m"
  by (simp add: mapped_def)

lemma frame_plus_offset: "page_aligned virt \<Longrightarrow> va - virt < 4096 \<Longrightarrow> va mod 4096 = va - virt"
proof -
  assume virt: "page_aligned virt" and off: "va - virt < 4096"
  obtain k where "unat virt = 4096 * k" using virt by (rule page_alignedE)
  moreover have "unat va = unat virt + unat (va - virt)"
    using unat_page_add [OF virt off] by simp
  ultimately have "unat (va mod 4096) = unat (va - virt)"
    using off by (simp add: unat_mod word_less_nat_alt)
  then show ?thesis by (simp add: word_unat_eq_iff)
qed

lemma perms_or: "page_aligned p \<Longrightarrow> perms d (p OR f) = perms d f"
  by (simp add: perms_def bit_page_or)

lemma mapped_1:
  assumes "chunk_ok m c" "page_aligned virt" "page_aligned phy" "bit flags 0" "flags < 4096"
  shows "mapped c virt phy 1 flags m (snd (paging_map c virt phy flags m))"
proof -
  have vs: "vspace_ok m (ld32 m c)" using assms(1) by (simp add: chunk_ok_def)
  note upd = translate_upd [OF vs assms(2)] chunk_upd [OF assms(1)] tables_upd [OF vs] pde_upd [OF vs]
    same_outside_tables
  have "phy + va mod 4096 = phy + (va - virt)" if "va - virt < 4096" for va
    using frame_plus_offset [OF assms(2) that] by simp
  moreover have "unat x < 4096 \<longleftrightarrow> x < 4096" for x :: u32 by (simp add: word_less_nat_alt)
  ultimately show ?thesis
    using assms(3-5)
    by (simp add: paging_map_eq [OF assms(2,3)] mapped_def upd frame_or perms_or bit_page_or)
qed

lemma mapped_step:
  assumes "mapped c virt phy 1 flags m m1" "mapped c (virt + 4096) (phy + 4096) n flags m1 m2"
    and "n < 1048575"
  shows "mapped c virt phy (Suc n) flags m m2"
proof -
  have eq: "unat (va - (virt + 4096)) = (if 4096 \<le> unat (va - virt) then unat (va - virt) - 4096
      else unat (va - virt) + 4294967296 - 4096)" for va
  proof -
    have "va - (virt + 4096) = (va - virt) - 4096" by simp
    then show ?thesis by (simp only: unat_sub_if_size) (simp add: word_size)
  qed
  have split: "unat (va - virt) < 4096 * Suc n \<longleftrightarrow>
      unat (va - (virt + 4096)) < 4096 * n \<or> unat (va - virt) < 4096" for va
    using assms(3) by (auto simp: eq)
  have "phy + 4096 + (va - (virt + 4096)) = phy + (va - virt)" for va by simp
  then show ?thesis
    using assms(1,2) split unfolding mapped_def by (auto intro: same_outside_trans)
qed

lemma map_range_loop_mapped:
  assumes "chunk_ok m c" "page_aligned virt" "page_aligned phy" "bit flags 0" "flags < 4096"
    and "i \<le> n" "n - i < 1048576" "n < 2147483648"
  shows "\<exists>m'. map_range_loop c flags (of_nat n) (of_nat i) virt phy 0 m = (0, m') \<and>
    mapped c virt phy (n - i) flags m m'"
  using assms
proof (induction "n - i" arbitrary: i virt phy m)
  case 0
  then show ?case by (subst map_range_loop.simps) (simp add: mapped_0)
next
  case (Suc d)
  define m1 where "m1 = snd (paging_map c virt phy flags m)"
  have i: "i < n" using Suc.hyps(2) by simp
  have run: "paging_map c virt phy flags m = (0, m1)"
    using Suc.prems by (simp add: m1_def paging_map_eq)
  have first: "mapped c virt phy 1 flags m m1"
    unfolding m1_def using Suc.prems by (intro mapped_1)
  have "\<exists>m'. map_range_loop c flags (of_nat n) (of_nat (Suc i)) (virt + 4096) (phy + 4096) 0 m1 = (0, m') \<and>
      mapped c (virt + 4096) (phy + 4096) (n - Suc i) flags m1 m'"
    using Suc first i
    by (intro Suc.hyps(1)) (simp_all add: page_aligned_add mapped_def)
  then obtain m' where m': "map_range_loop c flags (of_nat n) (of_nat (Suc i)) (virt + 4096) (phy + 4096) 0 m1 =
      (0, m')" "mapped c (virt + 4096) (phy + 4096) (n - Suc i) flags m1 m'" by blast
  have "mapped c virt phy (Suc (n - Suc i)) flags m m'"
    using first m'(2) Suc.hyps(2) Suc.prems(7) by (intro mapped_step) auto
  moreover have "Suc (n - Suc i) = n - i" using i by simp
  moreover have "map_range_loop c flags (of_nat n) (of_nat i) virt phy 0 m = (0, m')"
    using m'(1) run i Suc.prems(8)
    by (subst map_range_loop.simps) (simp add: of_nat_u32_sless add.commute)
  ultimately show ?case by auto
qed

lemma paging_map_range_mapped:
  assumes "chunk_ok m c" "page_aligned virt" "page_aligned phy" "bit flags 0" "flags < 4096"
    and "unat n < 1048576"
  shows "\<exists>m'. paging_map_range c virt phy n flags m = (0, m') \<and> mapped c virt phy (unat n) flags m m'"
  using map_range_loop_mapped [OF assms(1-5), of 0 "unat n"] assms(6)
  by (simp add: paging_map_range_def)

lemma page_aligned_diff: "page_aligned p \<Longrightarrow> page_aligned q \<Longrightarrow> 4096 * unat ((q - p) div 4096) = unat (q - p)"
proof -
  assume p: "page_aligned p" and q: "page_aligned q"
  have "page_aligned (q - p)"
    using p q by (simp add: page_aligned_iff unat_sub_if_size word_size)
  then obtain k where "unat (q - p) = 4096 * k" by (rule page_alignedE)
  then show ?thesis by (simp add: unat_div)
qed

section \<open>A new address space\<close>

lemma fill_table_spec:
  assumes "page_aligned e"
  shows "same_outside (region e 4096) m (fill_table e st flags m) \<and>
    (\<forall>k<1024. ld32 (fill_table e st flags m) (e + 4 * k) = (st + k * 4096) OR ucast flags)"
proof -
  let ?f = "\<lambda>k m. st32 m (e + 4 * k) ((st + k * 4096) OR ucast flags)"
  define P where "P i m' \<longleftrightarrow> same_outside (region e 4096) m m' \<and>
    (\<forall>k<i. ld32 m' (e + 4 * k) = (st + k * 4096) OR ucast flags)" for i m'
  have "P 1024 (for_u32 0 1024 ?f m)"
  proof (rule for_u32_invariant [where P = P])
    fix i m' assume i: "i < 1024" and P: "P i m'"
    have "same_outside (region e 4096) m (?f i m')"
      using P page_word_subset [OF assms i] same_outside_st32
      by (auto simp: P_def elim!: same_outside_trans)
    moreover have "ld32 (?f i m') (e + 4 * k) = (st + k * 4096) OR ucast flags" if "k < i + 1" for k
    proof -
      have "k = i \<or> k < i" "k < 1024"
        using that i unat_Suc_less [OF i] by (auto simp: word_less_nat_alt word_unat_eq_iff)
      with P i assms show ?thesis by (auto simp: P_def ld32_st32_index)
    qed
    ultimately show "P (i + 1) (?f i m')" by (simp add: P_def)
  qed (simp_all add: P_def)
  then show ?thesis by (simp add: fill_table_def P_def)
qed

text \<open>The state of the outer loop after \<open>i\<close> tables, started from \<open>s1\<close> with an owned directory page.\<close>

definition built :: "addr \<Rightarrow> u8 \<Rightarrow> 'a kheap_state_scheme \<Rightarrow> u32 \<Rightarrow> 'a kheap_state_scheme \<Rightarrow> bool" where
  "built dir flags s1 i s \<longleftrightarrow> kheap_inv s \<and> kheap_free s = kheap_free s1 - unat i \<and>
     kheap_owned s1 \<subseteq> kheap_owned s \<and> s = s1\<lparr>ram := ram s\<rparr> \<and>
     (\<forall>q. kheap_page s1 q \<longrightarrow> kheap_page s q) \<and>
     same_outside (- kheap_owned s1 \<union> region dir 4096) (ram s1) (ram s) \<and>
     (\<forall>j<i. pde (ram s) dir j = pt (ram s) dir j OR (ucast flags OR 2) \<and>
        kheap_page s (pt (ram s) dir j) \<and>
        region (pt (ram s) dir j) 4096 \<subseteq> kheap_owned s \<and>
        region (pt (ram s) dir j) 4096 \<inter> kheap_owned s1 = {} \<and>
        (\<forall>k<1024. ld32 (ram s) (pt (ram s) dir j + 4 * k) = (j * 0x400000 + k * 4096) OR ucast flags) \<and>
        (\<forall>k<i. pt (ram s) dir j = pt (ram s) dir k \<longrightarrow> j = k))"

lemma ucast_or_small [simp]: "ucast (f :: u8) OR 2 < (4096 :: u32)"
  by (simp add: or_small)

lemma new_table_page:
  assumes "kheap_inv s" "0 < kheap_free s"
  shows "page_aligned (fst (kZalloc 4096 s))" "region (fst (kZalloc 4096 s)) 4096 \<inter> kheap_owned s = {}"
  using kz.alloc_page [of s 4096] kz.alloc_fresh [of s 4096] assms by simp_all

lemma new_table_writes:
  fixes s :: "'a kheap_state_scheme" and flags :: u8
  assumes "kheap_inv s" "0 < kheap_free s" and dir: "page_aligned dir" "region dir 4096 \<subseteq> kheap_owned s"
    and i: "i < 1024"
  defines "e \<equiv> fst (kZalloc 4096 s)" and "s' \<equiv> new_table dir flags i s"
  shows "s' = s\<lparr>ram := ram s'\<rparr>" "kheap_inv s'" "kheap_free s' = kheap_free s - 1"
    "kheap_owned s' = kheap_owned s \<union> region e 4096"
    "same_outside (- kheap_owned s \<union> region dir 4096) (ram s) (ram s')"
    "\<And>j. j < 1024 \<Longrightarrow> pde (ram s') dir j = (if j = i then e OR (ucast flags OR 2) else pde (ram s) dir j)"
    "\<And>k. k < 1024 \<Longrightarrow> ld32 (ram s') (e + 4 * k) = (i * 0x400000 + k * 4096) OR ucast flags"
    "kheap_page s' e" "\<And>q. kheap_page s q \<Longrightarrow> kheap_page s' q"
proof -
  note laws = new_table_page [OF assms(1,2), folded e_def]
  have ne: "dir \<noteq> e" using fresh_page_neq [OF dir(2) laws(2)] .
  define m where "m = fill_table e (i * 0x400000) flags (ram (snd (kZalloc 4096 s)))"
  define m' where "m' = st32 m (dir + 4 * i) (e OR (ucast flags OR 2))"
  have s': "s' = s\<lparr>ram := m'\<rparr>"
    by (simp add: s'_def new_table_def e_def m'_def m_def Let_def case_prod_beta or.assoc
        kz.set_alloc mult.commute [of i])
  have fill: "same_outside (region e 4096) (ram (snd (kZalloc 4096 s))) m"
    "\<And>k. k < 1024 \<Longrightarrow> ld32 m (e + 4 * k) = (i * 0x400000 + k * 4096) OR ucast flags"
    using fill_table_spec [OF laws(1)] by (simp_all add: m_def)
  have out: "same_outside (region e 4096 \<union> region dir 4096) (ram (snd (kZalloc 4096 s))) m'"
    unfolding m'_def
    using same_outside_trans [OF fill(1) same_outside_st32] page_word_subset [OF dir(1) i] by blast
  note w = kz.alloc_then_write [OF assms(1) _ _ assms(2), of 4096 "region dir 4096" m', folded e_def,
      OF _ _ out dir(2)]
    and wp = kp.alloc_write_pages [OF assms(1) _ _ assms(2), of 4096 "region dir 4096" m', folded e_def,
      OF _ _ out dir(2)]
  show "s' = s\<lparr>ram := ram s'\<rparr>" using s' by simp
  show "kheap_inv s'" "kheap_free s' = kheap_free s - 1" "kheap_owned s' = kheap_owned s \<union> region e 4096"
    "same_outside (- kheap_owned s \<union> region dir 4096) (ram s) (ram s')"
    using w by (simp_all add: s')
  show "kheap_page s' e" "\<And>q. kheap_page s q \<Longrightarrow> kheap_page s' q" using wp by (simp_all add: s')
  have keep: "m a = ram s a" if "a \<in> kheap_owned s" for a
    using same_outsideD [OF fill(1), of a] kz.alloc_keeps [OF assms(1) _ _ assms(2) that, of 4096]
      laws(2) that by (auto simp del: mem_region)
  show "pde (ram s') dir j = (if j = i then e OR (ucast flags OR 2) else pde (ram s) dir j)"
    if "j < 1024" for j
    using that i dir ld32_page_cong [OF keep dir that]
    by (simp add: s' m'_def pde_def ld32_st32_index)
  show "ld32 (ram s') (e + 4 * k) = (i * 0x400000 + k * 4096) OR ucast flags" if "k < 1024" for k
    using that i dir laws ne fill(2) by (simp add: s' m'_def ld32_st32_index)
qed

lemma built_step:
  assumes "page_aligned dir" and "region dir 4096 \<subseteq> kheap_owned s1" and "1024 < kheap_free s1"
    and "i < 1024" and "built dir flags s1 i s"
  shows "built dir flags s1 (i + 1) (new_table dir flags i s)"
proof -
  define e s' where "e = fst (kZalloc 4096 s)" and "s' = new_table dir flags i s"
  have b: "kheap_inv s" "0 < kheap_free s" "region dir 4096 \<subseteq> kheap_owned s"
    using assms by (auto simp: built_def word_less_nat_alt)
  note w = new_table_writes [OF b(1,2) assms(1) b(3) assms(4), where flags = flags,
      folded e_def s'_def]
  note fresh = new_table_page [OF b(1,2), folded e_def]
  have lt: "j < i + 1 \<longleftrightarrow> j = i \<or> j < i" for j
    using unat_Suc_less [OF assms(4)] by (auto simp: word_less_nat_alt word_unat_eq_iff)
  have small: "j < 1024" if "j < i + 1" for j using that assms(4) by (auto simp: lt)
  have pt_i: "pt (ram s') dir i = e" using fresh(1) assms(4) by (simp add: pt_def w(6) frame_or)
  have old: "pt (ram s') dir j = pt (ram s) dir j" if "j < i" for j
    using that small [of j] by (auto simp: pt_def w(6) lt)
  have oldreg: "region (pt (ram s) dir j) 4096 \<subseteq> kheap_owned s"
    "region (pt (ram s) dir j) 4096 \<inter> kheap_owned s1 = {}" if "j < i" for j
    using assms(5) that by (auto simp: built_def)
  have ne: "pt (ram s) dir j \<noteq> e" if "j < i" for j
    using fresh_page_neq [OF oldreg(1) [OF that] fresh(2)] .
  have inj: "j = k" if "j < i + 1" "k < i + 1" "pt (ram s') dir j = pt (ram s') dir k" for j k
    using that ne not_sym [OF ne] pt_i old assms(5)
    by (cases "j = i"; cases "k = i") (auto simp: lt built_def)
  have same: "ld32 (ram s') (pt (ram s) dir j + 4 * k) = ld32 (ram s) (pt (ram s) dir j + 4 * k)"
    if "j < i" "k < 1024" for j k
  proof (rule ld32_page_cong [where A = "region (pt (ram s) dir j) 4096"])
    fix a assume "a \<in> region (pt (ram s) dir j) 4096"
    with oldreg [OF that(1)] assms(2) have "a \<notin> - kheap_owned s \<union> region dir 4096" by blast
    with w(5) show "ram s' a = ram s a" by (rule same_outsideD)
  qed (use that in simp_all)
  have "same_outside (- kheap_owned s1 \<union> region dir 4096) (ram s1) (ram s')"
    using assms(5) by (intro same_outside_trans [OF _ w(5)]) (auto simp: built_def simp del: mem_region)
  moreover have "s' = s1\<lparr>ram := ram s'\<rparr>"
    using assms(5) w(1) unfolding built_def by (metis kz.set_set)
  moreover have "pde (ram s') dir j = pt (ram s') dir j OR (ucast flags OR 2) \<and>
      kheap_page s' (pt (ram s') dir j) \<and>
      region (pt (ram s') dir j) 4096 \<subseteq> kheap_owned s' \<and>
      region (pt (ram s') dir j) 4096 \<inter> kheap_owned s1 = {} \<and>
      (\<forall>k<1024. ld32 (ram s') (pt (ram s') dir j + 4 * k) = (j * 0x400000 + k * 4096) OR ucast flags) \<and>
      (\<forall>k<i + 1. pt (ram s') dir j = pt (ram s') dir k \<longrightarrow> j = k)" if "j < i + 1" for j
  proof (cases "j = i")
    case True
    with w fresh assms(4,5) pt_i inj [OF that] show ?thesis by (auto simp: built_def)
  next
    case False
    then have "j < i" using that lt by simp
    with w assms(5) old same small [OF that] False inj [OF that] show ?thesis
      by (auto simp: built_def)
  qed
  ultimately show ?thesis
    using w(2,3,4,9) assms(5) unat_Suc_less [OF assms(4)] unfolding built_def s'_def [symmetric] by auto
qed

lemma page_aligned_mult: "page_aligned (x * 4096)" "page_aligned (x * 0x400000)"
  by (simp_all add: page_aligned_iff unat_word_ariths dvd_mod_iff)

lemma page_split: "pdi va * 0x400000 + pti va * 4096 + va mod 4096 = va"
proof -
  have "unat va mod (4096 * 1024) mod 4096 = unat va mod 4096"
    by (simp only: mod_mult2_eq) simp
  then have "va mod 0x400000 mod 4096 = va mod 4096"
    by (simp add: word_unat_eq_iff unat_mod)
  then have "pti va * 4096 + va mod 4096 = va mod 0x400000"
    using div_mult_mod_eq [of "va mod 0x400000" 4096] by (simp add: pti_def)
  then show ?thesis
    using div_mult_mod_eq [of va "0x400000"] by (simp add: pdi_def add.assoc)
qed

lemma built_vspace:
  assumes "page_aligned dir" and "region dir 4096 \<subseteq> kheap_owned s1" and "built dir flags s1 1024 s"
    and "bit flags 0"
  shows "vspace_ok (ram s) dir"
    and "translate (ram s) dir va = Some (va, bit flags 1, bit flags 2)"
    and "dir_writable (ram s) dir"
proof -
  have b: "pde (ram s) dir j = pt (ram s) dir j OR (ucast flags OR 2)"
    "region (pt (ram s) dir j) 4096 \<inter> kheap_owned s1 = {}"
    "\<And>k. k < 1024 \<Longrightarrow> ld32 (ram s) (pt (ram s) dir j + 4 * k) = (j * 0x400000 + k * 4096) OR ucast flags"
    "\<And>k. k < 1024 \<Longrightarrow> pt (ram s) dir j = pt (ram s) dir k \<Longrightarrow> j = k" if "j < 1024" for j
    using assms(3) that by (auto simp: built_def)
  have pres: "bit (pde (ram s) dir j) 0" if "j < 1024" for j
    using b(1) [OF that] assms(4) by (simp add: bit_page_or bit_simps)
  have ne: "pt (ram s) dir j \<noteq> dir" if "j < 1024" for j
    using fresh_page_neq [OF assms(2) b(2) [OF that]] by simp
  show "vspace_ok (ram s) dir"
    using assms(1) b(4) pres ne by (auto simp: vspace_ok_def)
  have al: "page_aligned (pdi va * 0x400000 + pti va * 4096)"
    by (intro page_aligned_add page_aligned_mult)
  have e: "pte (ram s) dir va = (pdi va * 0x400000 + pti va * 4096) OR ucast flags"
    by (simp add: pte_def b(3))
  have w: "bit (pde (ram s) dir j) 1" if "j < 1024" for j using b(1) [OF that] by (simp add: bit_page_or bit_simps)
  then show "dir_writable (ram s) dir" by (simp add: dir_writable_def)
  have "bit (pde (ram s) dir (pdi va)) 1" "bit (pde (ram s) dir (pdi va)) 2 = bit flags 2"
    using w by (simp_all add: b(1) bit_page_or) (simp_all add: bit_simps)
  moreover have "bit (ucast flags :: u32) n = bit flags n" if "n < 8" for n
    using that by (simp add: bit_simps)
  ultimately have "perms (pde (ram s) dir (pdi va)) (pte (ram s) dir va) = (bit flags 1, bit flags 2)"
    using al by (simp add: perms_def e bit_page_or)
  moreover have "bit (pte (ram s) dir va) 0" using al assms(4) by (simp add: e bit_page_or bit_simps)
  ultimately show "translate (ram s) dir va = Some (va, bit flags 1, bit flags 2)"
    using pres al by (simp add: translate_def) (simp add: e frame_or page_split)
qed

text \<open>Memory that agrees on the directory and its tables has the same address space.\<close>

lemma vspace_cong:
  assumes "\<And>a. a \<in> A \<Longrightarrow> m' a = m a" and "page_aligned dir" and "region dir 4096 \<subseteq> A"
    and "tables m dir \<subseteq> A"
  shows "j < 1024 \<Longrightarrow> pde m' dir j = pde m dir j"
    and "j < 1024 \<Longrightarrow> pt m' dir j = pt m dir j"
    and "pte m' dir va = pte m dir va"
    and "translate m' dir va = translate m dir va"
    and "tables m' dir = tables m dir"
    and "vspace_ok m' dir \<longleftrightarrow> vspace_ok m dir"
proof -
  show d: "pde m' dir j = pde m dir j" if "j < 1024" for j
    using ld32_page_cong [of A m' m, OF assms(1-3) that] by (simp add: pde_def)
  then show p: "pt m' dir j = pt m dir j" if "j < 1024" for j using that by (simp add: pt_def)
  have "region (pt m dir j) 4096 \<subseteq> A" if "j < 1024" for j using assms(4) that by (auto simp: tables_def)
  then have "ld32 m' (pt m dir j + 4 * k) = ld32 m (pt m dir j + 4 * k)" if "j < 1024" "k < 1024" for j k
    using that by (intro ld32_page_cong [of A m' m, OF assms(1)]) simp_all
  then show t: "pte m' dir va = pte m dir va" by (simp add: pte_def p)
  with d show "translate m' dir va = translate m dir va" by (simp add: translate_def)
  show "tables m' dir = tables m dir" by (simp add: tables_def p)
  show "vspace_ok m' dir \<longleftrightarrow> vspace_ok m dir" by (simp add: vspace_ok_def d p)
qed

text \<open>An address space whose 1026 pages are live one-page allocations.\<close>

definition vspace_live :: "'a kheap_state_scheme \<Rightarrow> addr \<Rightarrow> bool" where
  "vspace_live s c \<longleftrightarrow> kheap_page s c \<and> kheap_page s (ld32 (ram s) c) \<and>
     (\<forall>i<1024. kheap_page s (pt (ram s) (ld32 (ram s) c) i))"

definition vspace_pages :: "mem \<Rightarrow> addr \<Rightarrow> addr set" where
  "vspace_pages m c = region c 4096 \<union> region (ld32 m c) 4096 \<union> tables m (ld32 m c)"

lemma built_loop:
  assumes "kheap_inv s1" and "page_aligned dir" and "region dir 4096 \<subseteq> kheap_owned s1"
    and "1024 < kheap_free s1"
  shows "built dir flags s1 1024 (for_u32 0 1024 (new_table dir flags) s1)"
proof (rule for_u32_invariant [where P = "built dir flags s1"])
  show "built dir flags s1 0 s1" using assms(1) by (simp add: built_def)
qed (use assms built_step in auto)

text \<open>The directory and its 1024 tables, before the structure that points to them is allocated.\<close>

lemma paging_new_tables:
  fixes s :: "'a kheap_state_scheme" and flags :: u8
  assumes "kheap_inv s" and "1026 \<le> kheap_free s" and "bit flags 0"
  defines "dir \<equiv> fst (kZalloc 4096 s)"
  defines "s2 \<equiv> for_u32 0 1024 (new_table dir flags) (snd (kZalloc 4096 s))"
  shows "kheap_inv s2" "kheap_free s2 = kheap_free s - 1025" "s2 = s\<lparr>ram := ram s2\<rparr>"
    "kheap_owned s \<subseteq> kheap_owned s2" "\<And>a. a \<in> kheap_owned s \<Longrightarrow> ram s2 a = ram s a"
    "vspace_ok (ram s2) dir" "\<And>va. translate (ram s2) dir va = Some (va, bit flags 1, bit flags 2)"
    "region dir 4096 \<union> tables (ram s2) dir \<subseteq> kheap_owned s2"
    "(region dir 4096 \<union> tables (ram s2) dir) \<inter> kheap_owned s = {}"
    "kheap_page s2 dir" "\<And>j. j < 1024 \<Longrightarrow> kheap_page s2 (pt (ram s2) dir j)"
    "\<And>q. kheap_page s q \<Longrightarrow> kheap_page s2 q" "dir_writable (ram s2) dir"
proof -
  define s1 where "s1 = snd (kZalloc 4096 s)"
  have free: "0 < kheap_free s" using assms(2) by simp
  note l1 = kz.alloc_laws [OF assms(1) _ _ free, of 4096, folded dir_def s1_def, simplified]
  have dir: "page_aligned dir" "region dir 4096 \<subseteq> kheap_owned s1" using l1 by auto
  have b: "built dir flags s1 1024 s2"
    unfolding s2_def s1_def [symmetric] using l1 dir assms(2) by (intro built_loop) auto
  then have own: "kheap_owned s1 \<subseteq> kheap_owned s2" "s2 = s1\<lparr>ram := ram s2\<rparr>"
    and out: "same_outside (- kheap_owned s1 \<union> region dir 4096) (ram s1) (ram s2)"
    by (auto simp: built_def)
  show "kheap_inv s2" "kheap_free s2 = kheap_free s - 1025" using b l1 by (auto simp: built_def)
  show "kheap_owned s \<subseteq> kheap_owned s2" using own(1) l1 by auto
  show "s2 = s\<lparr>ram := ram s2\<rparr>" using own(2) by (simp add: s1_def kz.set_alloc)
  show "ram s2 a = ram s a" if "a \<in> kheap_owned s" for a
  proof -
    have "a \<notin> - kheap_owned s1 \<union> region dir 4096" using that l1 by auto
    then show ?thesis
      using same_outsideD [OF out] kz.alloc_keeps [OF assms(1) _ _ free that, of 4096]
      by (simp flip: s1_def)
  qed
  show "vspace_ok (ram s2) dir" "\<And>va. translate (ram s2) dir va = Some (va, bit flags 1, bit flags 2)" "dir_writable (ram s2) dir"
    using built_vspace [OF dir b assms(3)] by simp_all
  show "region dir 4096 \<union> tables (ram s2) dir \<subseteq> kheap_owned s2"
    "(region dir 4096 \<union> tables (ram s2) dir) \<inter> kheap_owned s = {}"
    using b dir l1 own(1) by (auto simp: built_def tables_def simp del: mem_region)
  show "kheap_page s2 dir" "\<And>j. j < 1024 \<Longrightarrow> kheap_page s2 (pt (ram s2) dir j)"
    "\<And>q. kheap_page s q \<Longrightarrow> kheap_page s2 q"
    using b kp.alloc_live [OF assms(1) _ _ free, of 4096] kp.alloc_keeps_pages [OF assms(1) _ _ free, of 4096]
    by (auto simp: built_def dir_def s1_def)
qed

lemma paging_new_4gb_spec:
  assumes "kheap_inv s" and "1026 \<le> kheap_free s" and "bit flags 0"
    and "paging_new_4gb flags s = (c, s')"
  shows "kheap_inv s'" "kheap_free s' = kheap_free s - 1026" "s' = s\<lparr>ram := ram s'\<rparr>"
    "kheap_owned s \<subseteq> kheap_owned s'" "\<And>a. a \<in> kheap_owned s \<Longrightarrow> ram s' a = ram s a"
    "chunk_ok (ram s') c"
    "\<And>va. translate (ram s') (ld32 (ram s') c) va = Some (va, bit flags 1, bit flags 2)"
    "vspace_pages (ram s') c \<subseteq> kheap_owned s'" "vspace_pages (ram s') c \<inter> kheap_owned s = {}"
    "vspace_live s' c" "\<And>q. kheap_page s q \<Longrightarrow> kheap_page s' q" "dir_writable (ram s') (ld32 (ram s') c)"
proof -
  define dir where "dir = fst (kZalloc 4096 s)"
  define s2 where "s2 = for_u32 0 1024 (new_table dir flags) (snd (kZalloc 4096 s))"
  have c: "c = fst (kZalloc 4 s2)" and s': "s' = s2\<lparr>ram := st32 (ram (snd (kZalloc 4 s2))) c dir\<rparr>"
    using assms(4) by (auto simp: paging_new_4gb_def s2_def dir_def Let_def case_prod_beta kz.set_alloc)
  note t = paging_new_tables [OF assms(1-3), folded dir_def, folded s2_def]
  have "0 < kheap_free s2" using t(2) assms(2) by simp
  note l2 = kz.alloc_laws [OF t(1) _ _ this, of 4, folded c, simplified]
    and w = kz.alloc_then_write [OF t(1) _ _ this, of 4 "{}", folded c, simplified]
    and wp = kp.alloc_write_pages [OF t(1) _ _ this, of 4 "{}", folded c, simplified]
  have "same_outside (region c 4096) (ram (snd (kZalloc 4 s2))) (ram s')"
    using page_word_subset [of c 0] l2 by (auto simp: s' intro: same_outside_mono [OF same_outside_st32])
  note w' = w [OF this] and wp' = wp [OF this]
  have s'2: "s2\<lparr>ram := ram s'\<rparr> = s'" by (simp add: s')
  have keep: "ram s' a = ram s2 a" if "a \<in> kheap_owned s2" for a
    using same_outsideD [OF w'(4)] that by simp
  show "kheap_inv s'" and "kheap_free s' = kheap_free s - 1026"
    using w'(1,3) t(2) by (simp_all add: s'2)
  have owned: "kheap_owned s' = kheap_owned s2 \<union> region c 4096" using w'(2) by (simp add: s'2)
  then show "kheap_owned s \<subseteq> kheap_owned s'" using t(4) by auto
  show "s' = s\<lparr>ram := ram s'\<rparr>" using t(3) by (simp add: s') (metis kz.set_set)
  show "ram s' a = ram s a" if "a \<in> kheap_owned s" for a using that keep t(4,5) by auto
  have ld: "ld32 (ram s') c = dir" by (simp add: s')
  have reg: "page_aligned dir" "region dir 4096 \<subseteq> kheap_owned s2" "tables (ram s2) dir \<subseteq> kheap_owned s2"
    using t(6,8) by (auto simp: vspace_ok_def)
  note vs = vspace_cong [of "kheap_owned s2" "ram s'" "ram s2" dir, OF keep reg, simplified]
  have "c \<noteq> dir" using fresh_page_neq [OF reg(2)] l2 by auto
  moreover have "pt (ram s2) dir i \<noteq> c" if "i < 1024" for i
    using that reg(3) l2 fresh_page_neq [of "pt (ram s2) dir i" "kheap_owned s2" c]
    by (auto simp: tables_def simp del: mem_region)
  ultimately show "chunk_ok (ram s') c" using l2 t(6) by (simp add: chunk_ok_def ld vs)
  show "translate (ram s') (ld32 (ram s') c) va = Some (va, bit flags 1, bit flags 2)" for va
    using t(7) by (simp add: ld vs)
  show "dir_writable (ram s') (ld32 (ram s') c)" using t(13) by (simp add: ld dir_writable_def vs)
  show "vspace_pages (ram s') c \<subseteq> kheap_owned s'" "vspace_pages (ram s') c \<inter> kheap_owned s = {}"
    using owned t(4,8,9) l2 by (auto simp: vspace_pages_def ld vs simp del: mem_region)
  show "vspace_live s' c" "\<And>q. kheap_page s q \<Longrightarrow> kheap_page s' q"
    using wp' t(10-12) by (simp_all add: vspace_live_def ld vs s'2)
qed

section \<open>Releasing an address space\<close>

definition vspace_list :: "mem \<Rightarrow> addr \<Rightarrow> addr list" where
  "vspace_list m c = map (\<lambda>i. pt m (ld32 m c) (of_nat i)) [0..<1024] @ [ld32 m c, c]"

lemma vspace_list_distinct:
  assumes "chunk_ok m c"
  shows "distinct (vspace_list m c)"
proof -
  have small: "(of_nat i :: u32) < 1024" if "i < 1024" for i
    using that by (simp add: word_less_nat_alt)
  have "inj_on (\<lambda>i. pt m (ld32 m c) (of_nat i)) (set [0..<1024])"
  proof (rule inj_onI)
    fix i j assume ij: "i \<in> set [0..<1024]" "j \<in> set [0..<1024]"
      and "pt m (ld32 m c) (of_nat i) = pt m (ld32 m c) (of_nat j)"
    then have "(of_nat i :: u32) = of_nat j"
      using assms small [of i] small [of j] by (auto simp: chunk_ok_def vspace_ok_def)
    with ij show "i = j" by (simp add: of_nat_u32_eq)
  qed
  moreover have "pt m (ld32 m c) (of_nat i) \<noteq> ld32 m c" "pt m (ld32 m c) (of_nat i) \<noteq> c" if "i < 1024" for i
    using assms small [OF that] by (auto simp: chunk_ok_def vspace_ok_def)
  moreover have "ld32 m c \<noteq> c" using assms by (auto simp: chunk_ok_def)
  ultimately show ?thesis
    by (simp add: vspace_list_def distinct_map) (metis (no_types, lifting) imageE atLeastLessThan_iff)
qed

lemma vspace_list_pages:
  "(\<Union>p\<in>set (vspace_list m c). region p 4096) = vspace_pages m c"
proof -
  have "{i :: u32. i < 1024} = of_nat ` {..<1024}"
    by (auto simp: word_less_nat_alt image_def) (metis lessThan_iff of_nat_unat ucast_id)
  then have "tables m (ld32 m c) = (\<Union>i<1024. region (pt m (ld32 m c) (of_nat i)) 4096)"
    by (simp add: tables_def)
  then show ?thesis
    by (auto simp: vspace_list_def vspace_pages_def lessThan_atLeast0 simp del: mem_region)
qed

lemma paging_free_4gb_fold:
  assumes "kheap_inv s" "chunk_ok (ram s) c" "vspace_live s c"
  shows "paging_free_4gb c s = fold kFree (vspace_list (ram s) c) s"
proof -
  let ?dir = "ld32 (ram s) c"
  define ps where "ps i = map (\<lambda>i. pt (ram s) ?dir (of_nat i)) [0..<i]" for i
  let ?f = "\<lambda>i s. kFree (ld32 (ram s) (ld32 (ram s) c + 4 * i) AND 0xfffff000) s"
  define P where "P i s' \<longleftrightarrow> s' = fold kFree (ps (unat i)) s" for i :: u32 and s'
  have small: "(of_nat i :: u32) < 1024" if "i < 1024" for i using that by (simp add: word_less_nat_alt)
  have dist: "distinct (vspace_list (ram s) c)" using assms(2) by (rule vspace_list_distinct)
  have kept: "ram (fold kFree (ps n) s) a = ram s a"
    if n: "n \<le> 1024" and a: "a \<in> region c 4096 \<union> region ?dir 4096" for n a
  proof -
    have "[0..<1024] = [0..<n] @ [n..<1024]" using upt_add_eq_append [of 0 n "1024 - n"] n by simp
    then have "vspace_list (ram s) c = ps n @ map (\<lambda>i. pt (ram s) ?dir (of_nat i)) [n..<1024] @ [?dir, c]"
      by (simp add: vspace_list_def ps_def)
    with dist have "distinct (ps n)" "c \<notin> set (ps n)" "?dir \<notin> set (ps n)" by auto
    moreover have "\<forall>p\<in>set (ps n). kheap_page s p" "kheap_page s c" "kheap_page s ?dir"
      using assms(3) n small by (auto simp: ps_def vspace_live_def)
    ultimately show ?thesis using a kp.release_list_other [OF assms(1), of "ps n"] by blast
  qed
  have "P 1024 (for_u32 0 1024 ?f s)"
  proof (rule for_u32_invariant [where P = P])
    fix i s' assume i: "i < 1024" and P: "P i s'"
    have n: "unat i \<le> 1024" using i by (simp add: word_less_nat_alt)
    have "ld32 (ram s') (c + 4 * 0) = ld32 (ram s) (c + 4 * 0)"
      "ld32 (ram s') (?dir + 4 * i) = ld32 (ram s) (?dir + 4 * i)"
      using kept [OF n] P assms(2) i
      by (intro ld32_page_cong [where A = "region c 4096 \<union> region ?dir 4096"];
          simp add: P_def chunk_ok_def vspace_ok_def del: mem_region)+
    then have "?f i s' = kFree (pt (ram s) ?dir i) s'" by (simp add: pt_def pde_def)
    then show "P (i + 1) (?f i s')" using P unat_Suc_less [OF i] by (simp add: P_def ps_def)
  qed (simp_all add: P_def ps_def)
  then have loop: "for_u32 0 1024 ?f s = fold kFree (ps 1024) s" by (simp add: P_def)
  have "ld32 (ram (fold kFree (ps 1024) s)) (c + 4 * 0) = ?dir"
    using kept [of 1024] assms(2)
    by (subst ld32_page_cong [where A = "region c 4096" and m' = "ram s"])
      (auto simp: chunk_ok_def simp del: mem_region)
  with loop show ?thesis by (simp add: paging_free_4gb_def Let_def vspace_list_def ps_def)
qed

section \<open>Rounding up to a page\<close>

text \<open>\<open>paging_align_addres\<close> rounds up to the next page boundary: the result is page-aligned, not
  below the address and less than a page above it, for every address of the last full page or
  below; higher addresses wrap around to 0.\<close>
lemma paging_align_addres_spec:
  "page_aligned (paging_align_addres p) \<and>
   (if unat p \<le> 4294963200
    then unat p \<le> unat (paging_align_addres p) \<and> unat (paging_align_addres p) < unat p + 4096
    else paging_align_addres p = 0)"
proof -
  define k r where "k = unat p div 4096" and "r = unat p mod 4096"
  have p: "unat p = 4096 * k + r" and r: "r < 4096" by (simp_all add: k_def r_def)
  have k: "k < 1048576" using p u32_bound [of p] by simp
  have mod: "unat (p mod 4096) = r" by (simp add: unat_mod r_def)
  show ?thesis
  proof (cases "p mod 4096 = 0")
    case True
    then have "paging_align_addres p = p" "r = 0" using mod by (auto simp: paging_align_addres_def)
    with p k show ?thesis by (auto simp: page_aligned_iff)
  next
    case False
    then have "r \<noteq> 0" using mod by (metis unat_eq_zero)
    have "unat (4096 - p mod 4096) = 4096 - r" using mod r by (simp add: unat_sub_if_size)
    then have "unat (p + (4096 - p mod 4096)) = (4096 * k + 4096) mod 4294967296"
      using p r by (simp add: unat_word_ariths)
    then have u: "unat (paging_align_addres p) = (4096 * k + 4096) mod 4294967296"
      using False by (simp add: paging_align_addres_def)
    then have "page_aligned (paging_align_addres p)" by (simp add: page_aligned_iff dvd_mod_iff)
    moreover have "paging_align_addres p = 0" if "\<not> unat p \<le> 4294963200"
    proof -
      have "k = 1048575" using that p r k by simp
      then show ?thesis using u by (simp add: unat_eq_zero [symmetric])
    qed
    ultimately show ?thesis using u p r k \<open>r \<noteq> 0\<close> by auto
  qed
qed

section \<open>Properties\<close>

text \<open>C7. A new address space maps every virtual address to itself with the permissions in \<open>flags\<close>
  (a directory entry never takes the write permission away), in 1026 pages that were free
  before; memory handed out earlier keeps its contents.\<close>
theorem paging_new_4gb_identity:
  assumes "kheap_inv s" and "1026 \<le> kheap_free s" and "bit flags 0"
    and "paging_new_4gb flags s = (c, s')"
  shows "(\<forall>va. translate (ram s') (paging_4gb_chunk_get_directory (ram s') c) va =
      Some (va, bit flags 1, bit flags 2)) \<and>
    chunk_ok (ram s') c \<and> kheap_inv s' \<and> kheap_free s' = kheap_free s - 1026 \<and>
    vspace_pages (ram s') c \<subseteq> kheap_owned s' - kheap_owned s \<and>
    (\<forall>a\<in>kheap_owned s. ram s' a = ram s a)"
  using paging_new_4gb_spec [OF assms]
  by (auto simp: paging_4gb_chunk_get_directory_def simp del: mem_region)

theorem paging_new_4gb_identity_witness:
  "chunk_ok (ram (snd (paging_new_4gb 3 boot_ram))) (fst (paging_new_4gb 3 boot_ram))"
  using paging_new_4gb_identity [OF boot_ram_inv(1), of 3] boot_ram_inv(2)
  by (cases "paging_new_4gb 3 boot_ram") simp

text \<open>C34. Releasing an address space gives its 1026 pages back, no more and no less: afterwards the
  clients own what they owned without those pages, with its contents, and a new address space
  followed by its release leaves the owned memory and the number of free blocks as they were.\<close>
theorem paging_free_4gb_releases:
  assumes "kheap_inv s" and "1026 \<le> kheap_free s" and "bit flags 0"
    and "paging_new_4gb flags s = (c, s1)" and "paging_free_4gb c s1 = s2"
  shows "kheap_inv s2 \<and> kheap_owned s2 = kheap_owned s1 - vspace_pages (ram s1) c \<and>
    kheap_free s2 = kheap_free s \<and> kheap_owned s \<subseteq> kheap_owned s2 \<and>
    (\<forall>a\<in>kheap_owned s. ram s2 a = ram s a) \<and> (\<forall>q. kheap_page s q \<longrightarrow> kheap_page s2 q)"
proof -
  note n = paging_new_4gb_spec [OF assms(1-4)]
  let ?ps = "vspace_list (ram s1) c"
  have live: "\<forall>p\<in>set ?ps. kheap_page s1 p"
    using n(10) by (auto simp: vspace_list_def vspace_live_def word_less_nat_alt)
  have s2: "s2 = fold kFree ?ps s1" using paging_free_4gb_fold [OF n(1,6,10)] assms(5) by simp
  note r = kp.release_list [OF n(1) vspace_list_distinct [OF n(6)] live, folded s2, unfolded vspace_list_pages]
  have "q \<notin> set ?ps" if "kheap_page s q" for q
  proof
    assume "q \<in> set ?ps"
    then have "q \<in> vspace_pages (ram s1) c" using vspace_list_pages [of "ram s1" c] by force
    with n(9) kp.page_owned [OF assms(1) that] show False using mem_region [of q q 4096] by fastforce
  qed
  moreover have "ram s2 a = ram s a" if "a \<in> kheap_owned s" for a
  proof -
    have "a \<in> kheap_owned s2" using that r n(4,9) by blast
    then show ?thesis using that r n(5) by simp
  qed
  moreover have "length ?ps = 1026" by (simp add: vspace_list_def)
  ultimately show ?thesis using r n(2,4,9,11) assms(2) by auto
qed

theorem paging_free_4gb_releases_witness:
  "kheap_free (paging_free_4gb (fst (paging_new_4gb 3 boot_ram)) (snd (paging_new_4gb 3 boot_ram))) = 25600"
  using paging_free_4gb_releases [OF boot_ram_inv(1), of 3] boot_ram_inv(2)
  by (cases "paging_new_4gb 3 boot_ram") simp

lemma boot_chunk: "chunk_ok (ram (snd (paging_new_4gb 3 boot_ram))) (fst (paging_new_4gb 3 boot_ram))"
  using paging_new_4gb_spec(6) [OF boot_ram_inv(1), of 3] boot_ram_inv(2)
  by (cases "paging_new_4gb 3 boot_ram") simp

lemma paging_map_to_mapped:
  assumes "chunk_ok m c" and "page_aligned virt" and "page_aligned phy" and "page_aligned phy_end"
    and "bit flags 0" and "flags < 4096"
  shows "\<exists>m' n. paging_map_to c virt phy phy_end flags m = (0, m') \<and> mapped c virt phy n flags m m' \<and>
    4096 * n = unat (phy_end - phy)"
proof -
  let ?n = "(phy_end - phy) div 4096"
  have n: "4096 * unat ?n = unat (phy_end - phy)" using assms(3,4) by (rule page_aligned_diff)
  with u32_bound [of "phy_end - phy"] have "unat ?n < 1048576" by simp
  then obtain m1 where m1: "paging_map_range c virt phy ?n flags m = (0, m1)"
    "mapped c virt phy (unat ?n) flags m m1"
    using paging_map_range_mapped [OF assms(1-3,5,6)] by blast
  then have "paging_map_to c virt phy phy_end flags m = (0, m1)"
    using assms(2-4) by (simp add: paging_map_to_def page_aligned_def)
  with m1(2) n show ?thesis by blast
qed

text \<open>C8. \<open>paging_map_to\<close> with aligned arguments succeeds and maps exactly the range: the addresses
  from \<open>virt\<close> on go to the bytes of \<open>[phy, phy_end)\<close> in order, with the permissions of \<open>flags\<close>
  that the directory entry grants; the translation of every other address is as before, the
  address space stays well formed and only its tables are written.\<close>
theorem paging_map_to_maps:
  assumes "chunk_ok m c" and "page_aligned virt" and "page_aligned phy" and "page_aligned phy_end"
    and "bit flags 0" and "flags < 4096" and "paging_map_to c virt phy phy_end flags m = (r, m')"
  shows "r = 0 \<and> chunk_ok m' c \<and> ld32 m' c = ld32 m c \<and>
    same_outside (tables m (ld32 m c)) m m' \<and>
    (\<forall>va. translate m' (ld32 m c) va =
       (if va - virt < phy_end - phy
        then Some (phy + (va - virt), perms (pde m (ld32 m c) (pdi va)) flags)
        else translate m (ld32 m c) va))"
proof -
  obtain m1 n where "paging_map_to c virt phy phy_end flags m = (0, m1)" "mapped c virt phy n flags m m1"
    and n: "4096 * n = unat (phy_end - phy)"
    using paging_map_to_mapped [OF assms(1-6)] by blast
  with assms(7) show ?thesis by (simp add: mapped_def n word_less_nat_alt)
qed

theorem paging_map_to_maps_witness:
  "fst (paging_map_to (fst (paging_new_4gb 3 boot_ram)) 0x400000 0x1400000 0x1402000 7
     (ram (snd (paging_new_4gb 3 boot_ram)))) = 0"
  using paging_map_to_maps [OF boot_chunk, of "0x400000" "0x1400000" "0x1402000" 7]
  by (cases "paging_map_to (fst (paging_new_4gb 3 boot_ram)) 0x400000 0x1400000 0x1402000 7
     (ram (snd (paging_new_4gb 3 boot_ram)))") (simp add: page_aligned_iff)

text \<open>The mapping operations refuse unaligned addresses: \<open>paging_map\<close> and \<open>paging_map_to\<close> return
  \<open>-EINVARG\<close> and write nothing when one of the addresses is not a multiple of the page size,
  and so does \<open>paging_map_range\<close> when there is at least one page to map.\<close>
lemma paging_map_unaligned:
  "(\<not> page_aligned virt \<or> \<not> page_aligned phy \<longrightarrow>
      paging_map c virt phy flags m = (- EINVARG, m) \<and>
      (0 <s count \<longrightarrow> paging_map_range c virt phy count flags m = (- EINVARG, m))) \<and>
   (\<not> page_aligned virt \<or> \<not> page_aligned phy \<or> \<not> page_aligned phy_end \<longrightarrow>
      paging_map_to c virt phy phy_end flags m = (- EINVARG, m))"
proof -
  have un: "paging_map c virt phy flags m = (- EINVARG, m)" if "\<not> page_aligned virt \<or> \<not> page_aligned phy"
    using that by (auto simp: paging_map_def page_aligned_def)
  moreover have "paging_map_range c virt phy count flags m = (- EINVARG, m)"
    if "\<not> page_aligned virt \<or> \<not> page_aligned phy" "0 <s count"
    using un [OF that(1)] that(2)
    by (simp add: paging_map_range_def map_range_loop.simps [of c flags count 0] word_sless_alt)
  ultimately show ?thesis by (auto simp: paging_map_to_def page_aligned_def)
qed

lemma paging_map_unaligned_witness:
  "paging_map 0x2000 0x401 0x3000 7 (\<lambda>_. 0) = (- EINVARG, \<lambda>_. 0) \<and>
   paging_map_to 0x2000 0x1000 0x3000 0x3800 7 (\<lambda>_. 0) = (- EINVARG, \<lambda>_. 0)"
  using paging_map_unaligned [of "0x401" "0x3000" "0x2000" 7 "\<lambda>_. 0" 1 0]
    paging_map_unaligned [of "0x1000" "0x3000" "0x2000" 7 "\<lambda>_. 0" 1 "0x3800"]
  by (simp add: page_aligned_iff)

text \<open>\<open>paging_get\<close> computes the table index as \<open>virt % 4096\<close>, so for a page-aligned address it
  always reads entry 0 of the page table.  In a freshly made address space it returns the entry
  of the 4 MiB region the address lies in, and not the entry of the page.\<close>
lemma paging_get_reads_entry_0:
  assumes "page_aligned virt"
  shows "paging_get dir virt m = ld32 m (pt m dir (pdi virt))"
  using assms by (simp add: paging_get_def paging_get_indexes_def page_aligned_def pt_def pde_def pdi_def)

lemma paging_get_reads_entry_0_witness:
  "paging_get 0x2000 0x401000 (st32 (st32 (st32 (\<lambda>_. 0) 0x2004 0x3007) 0x3000 0x9007) 0x3004 0xA007) =
   0x9007"
  using paging_get_reads_entry_0 [of "0x401000" "0x2000"
      "st32 (st32 (st32 (\<lambda>_. 0) 0x2004 0x3007) 0x3000 0x9007) 0x3004 0xA007"]
  by (simp add: page_aligned_iff pt_def pde_def pdi_def ld32_st32)

end
