(* ===== verification/CString.thy ===== *)
theory CString
  imports Memory
begin

text \<open>
  \<^verbatim>\<open>string/string.c\<close>: the string routines on the flat memory.  \<open>char\<close> is a signed byte, so
  character classes and differences are computed on the signed reading (\<open><=s\<close>, \<open>scast\<close>), while
  \<open>istrncmp\<close> works on \<open>unsigned char\<close> as in the source.  The two loops without a bound
  (\<open>strlen\<close>, \<open>strcpy\<close>) are \<open>option\<close>-valued: \<open>None\<close> is a loop that never returns.

  \<open>cstr m p xs\<close> says that the C string at \<open>p\<close> has the characters \<open>xs\<close>; the lemmas state
  every routine over it.
\<close>

section \<open>The routines\<close>

partial_function (option) strlen_loop :: "mem \<Rightarrow> addr \<Rightarrow> u32 \<Rightarrow> u32 option" where
  "strlen_loop m ptr i = (if m ptr \<noteq> 0 then strlen_loop m (ptr + 1) (i + 1) else Some i)"

definition strlen :: "mem \<Rightarrow> addr \<Rightarrow> u32 option" where
  "strlen m ptr = strlen_loop m ptr 0"

definition toNumericDigit :: "u8 \<Rightarrow> u32" where
  "toNumericDigit c = scast c - 48"

definition isDigit :: "u8 \<Rightarrow> bool" where
  "isDigit c \<longleftrightarrow> 48 \<le>s c \<and> c \<le>s 57"

function strnlen_loop :: "mem \<Rightarrow> addr \<Rightarrow> u32 \<Rightarrow> u32 \<Rightarrow> u32" where
  "strnlen_loop m ptr maxlen i =
     (if i <s maxlen then (if m (ptr + i) = 0 then i else strnlen_loop m ptr maxlen (i + 1)) else i)"
  by pat_completeness auto
termination
  by (relation "measure (\<lambda>(m, ptr, maxlen, i). nat (sint maxlen - sint i))")
    (auto simp: sint_Suc word_sless_alt)

definition strnlen :: "mem \<Rightarrow> addr \<Rightarrow> u32 \<Rightarrow> u32" where
  "strnlen m ptr maxlen = strnlen_loop m ptr maxlen 0"

partial_function (option) strcpy_loop :: "mem \<Rightarrow> addr \<Rightarrow> addr \<Rightarrow> mem option" where
  "strcpy_loop m dest src =
     (if m src \<noteq> 0 then strcpy_loop (m(dest := m src)) (dest + 1) (src + 1)
      else Some (m(dest := 0)))"

definition strcpy :: "mem \<Rightarrow> addr \<Rightarrow> addr \<Rightarrow> mem option" where
  "strcpy m dest src = strcpy_loop m dest src"

function strncpy_loop :: "mem \<Rightarrow> addr \<Rightarrow> addr \<Rightarrow> u32 \<Rightarrow> u32 \<Rightarrow> u32 \<times> mem" where
  "strncpy_loop m dest src n i =
     (if i <s n - 1 then
        (if m (src + i) = 0 then (i, m)
         else strncpy_loop (m(dest + i := m (src + i))) dest src n (i + 1))
      else (i, m))"
  by pat_completeness auto
termination
  by (relation "measure (\<lambda>(m, dest, src, n, i). nat (sint (n - 1) - sint i))")
    (auto simp: sint_Suc word_sless_alt)

definition strncpy :: "mem \<Rightarrow> addr \<Rightarrow> addr \<Rightarrow> u32 \<Rightarrow> mem" where
  "strncpy m dest src n = (let (i, m') = strncpy_loop m dest src n 0 in m'(dest + i := 0))"

function strnlen_terminator_loop :: "mem \<Rightarrow> addr \<Rightarrow> u32 \<Rightarrow> u8 \<Rightarrow> u32 \<Rightarrow> u32 \<Rightarrow> u32" where
  "strnlen_terminator_loop m str maxlen terminator i len =
     (if i <s maxlen then
        (if m (str + i) = 0 \<or> m (str + i) = terminator then len
         else strnlen_terminator_loop m str maxlen terminator (i + 1) (len + 1))
      else len)"
  by pat_completeness auto
termination
  by (relation "measure (\<lambda>(m, str, maxlen, terminator, i, len). nat (sint maxlen - sint i))")
    (auto simp: sint_Suc word_sless_alt)

definition strnlen_terminator :: "mem \<Rightarrow> addr \<Rightarrow> u32 \<Rightarrow> u8 \<Rightarrow> u32" where
  "strnlen_terminator m str maxlen terminator = strnlen_terminator_loop m str maxlen terminator 0 0"

definition toLower :: "u8 \<Rightarrow> u8" where
  "toLower s = (if 65 \<le>s s \<and> s \<le>s 90 then s + 32 else s)"

function istrncmp :: "mem \<Rightarrow> addr \<Rightarrow> addr \<Rightarrow> u32 \<Rightarrow> u32" where
  "istrncmp m s1 s2 n =
     (if n \<noteq> 0 then
        (let u1 = m s1; u2 = m s2 in
           if u1 \<noteq> u2 \<and> toLower u1 \<noteq> toLower u2 then ucast u1 - ucast u2
           else if u1 = 0 then 0
           else istrncmp m (s1 + 1) (s2 + 1) (n - 1))
      else 0)"
  by pat_completeness auto
termination
  by (relation "measure (\<lambda>(m, s1, s2, n). unat n)") (auto simp: measure_unat)

function strncmp :: "mem \<Rightarrow> addr \<Rightarrow> addr \<Rightarrow> u32 \<Rightarrow> u32" where
  "strncmp m s1 s2 lenToCompare =
     (if lenToCompare \<noteq> 0 then
        (if m s1 \<noteq> m s2 then scast (m s1) - scast (m s2)
         else if m s1 = 0 then 0
         else strncmp m (s1 + 1) (s2 + 1) (lenToCompare - 1))
      else 0)"
  by pat_completeness auto
termination
  by (relation "measure (\<lambda>(m, s1, s2, n). unat n)") (auto simp: measure_unat)

declare strnlen_loop.simps [simp del] strncpy_loop.simps [simp del]
  strnlen_terminator_loop.simps [simp del] istrncmp.simps [simp del] strncmp.simps [simp del]

section \<open>C strings\<close>

fun cstr :: "mem \<Rightarrow> addr \<Rightarrow> u8 list \<Rightarrow> bool" where
  "cstr m p [] \<longleftrightarrow> m p = 0"
| "cstr m p (x # xs) \<longleftrightarrow> x \<noteq> 0 \<and> m p = x \<and> cstr m (p + 1) xs"

lemma cstr_iff:
  "cstr m p xs \<longleftrightarrow> (\<forall>i<length xs. m (p + of_nat i) = xs ! i) \<and>
     m (p + of_nat (length xs)) = 0 \<and> 0 \<notin> set xs"
proof (induction xs arbitrary: p)
  case (Cons x xs)
  have "(\<forall>i<length (x # xs). m (p + of_nat i) = (x # xs) ! i) \<longleftrightarrow>
      m p = x \<and> (\<forall>i<length xs. m (p + 1 + of_nat i) = xs ! i)"
    by (auto simp: less_Suc_eq_0_disj add.assoc)
  with Cons.IH [of "p + 1"] show ?case by (auto simp: add.assoc)
qed simp

lemma cstr_length:
  assumes "cstr m p xs"
  shows "length xs < 4294967296"
proof (rule ccontr)
  assume "\<not> length xs < 4294967296"
  then have long: "4294967296 \<le> length xs" by simp
  define k where "k = length xs - 4294967296"
  have "k < length xs" and "length xs = k + 4294967296" using long by (simp_all add: k_def)
  moreover have "(of_nat (k + 4294967296) :: u32) = of_nat k"
    by (simp only: word_of_nat_eq_iff) (simp add: take_bit_eq_mod)
  ultimately have "m (p + of_nat k) = 0" and "xs ! k \<in> set xs"
    using assms by (metis cstr_iff, metis nth_mem)
  with assms \<open>k < length xs\<close> show False by (auto simp: cstr_iff)
qed

lemma strlen_loop_cstr: "cstr m p xs \<Longrightarrow> strlen_loop m p i = Some (i + of_nat (length xs))"
  by (induction xs arbitrary: p i) (simp_all add: strlen_loop.simps add.assoc)

lemma strlen_cstr: "cstr m p xs \<Longrightarrow> strlen m p = Some (of_nat (length xs))"
  by (simp add: strlen_def strlen_loop_cstr)

text \<open>A zero byte anywhere in the address space makes every pointer a C string.\<close>

lemma cstr_exists:
  assumes "m z = 0"
  shows "\<exists>xs. cstr m p xs"
  using assms
proof (induction "unat (z - p)" arbitrary: p)
  case 0
  then have "z = p" by (metis unat_eq_zero right_minus_eq)
  with 0 show ?case by (intro exI [of _ "[]"]) simp
next
  case (Suc k)
  show ?case
  proof (cases "m p = 0")
    case True
    then show ?thesis by (intro exI [of _ "[]"]) simp
  next
    case False
    have "z - p \<noteq> 0" using Suc.hyps(2) by auto
    then have "unat (z - p - 1) = unat (z - p) - 1" by (rule unat_minus_one)
    moreover have "z - p - 1 = z - (p + 1)" by simp
    ultimately have "k = unat (z - (p + 1))" using Suc.hyps(2) by (metis diff_Suc_1)
    then obtain xs where "cstr m (p + 1) xs" using Suc.hyps(1) Suc.prems by blast
    with False show ?thesis by (intro exI [of _ "m p # xs"]) simp
  qed
qed

lemma cstr_frame:
  assumes "cstr m p xs" and "same_outside R m m'"
    and "\<And>i. i \<le> length xs \<Longrightarrow> p + of_nat i \<notin> R"
  shows "cstr m' p xs"
  using assms by (auto simp: cstr_iff same_outside_def)

section \<open>The bounded routines over C strings\<close>

text \<open>Positions below the length of a C string hold its characters.\<close>

lemma cstr_nth: "cstr m p xs \<Longrightarrow> i < length xs \<Longrightarrow> m (p + of_nat i) = xs ! i \<and> xs ! i \<noteq> 0"
  by (auto simp: cstr_iff) (metis nth_mem)

lemma cstr_end: "cstr m p xs \<Longrightarrow> m (p + of_nat (length xs)) = 0"
  by (simp add: cstr_iff)

lemma strnlen_loop_cstr:
  assumes "cstr m p xs" and "n < 2147483648" and "i \<le> min (length xs) n"
  shows "strnlen_loop m p (of_nat n) (of_nat i) = of_nat (min (length xs) n)"
  using assms(3)
proof (induction "min (length xs) n - i" arbitrary: i)
  case 0
  then have i: "i = min (length xs) n" by simp
  show ?case
  proof (cases "length xs < n")
    case True
    with i assms(1,2) show ?thesis by (subst strnlen_loop.simps) (simp add: cstr_end sless_small)
  next
    case False
    with i show ?thesis by (subst strnlen_loop.simps) (simp add: word_sless_alt)
  qed
next
  case (Suc k)
  then have i: "i < length xs" "i < n" by simp_all
  have IH: "strnlen_loop m p (of_nat n) (of_nat (Suc i)) = of_nat (min (length xs) n)"
    by (rule Suc.hyps(1)) (use Suc.hyps(2) i in auto)
  have "of_nat i <s (of_nat n :: u32)"
    using i assms(2) by (simp add: of_nat_u32_sless)
  with i IH assms(1) show ?case
    by (subst strnlen_loop.simps) (simp add: cstr_nth add.commute)
qed

lemma strnlen_cstr:
  "cstr m p xs \<Longrightarrow> n < 2147483648 \<Longrightarrow> strnlen m p (of_nat n) = of_nat (min (length xs) n)"
  using strnlen_loop_cstr [of m p xs n 0] by (simp add: strnlen_def)

lemma take_unat_Cons: "n \<noteq> 0 \<Longrightarrow> take (unat n) (x # xs) = x # take (unat (n - 1)) xs" for n :: u32
  by (metis take_Suc_Cons unat_minus_one Suc_pred' unat_gt_0)

lemma toLower_eq_0 [simp]: "toLower c = 0 \<longleftrightarrow> c = 0"
proof -
  have "c + 32 \<noteq> 0" if "65 \<le>s c"
  proof
    assume "c + 32 = 0"
    then have "c = - 32" by (simp add: eq_neg_iff_add_eq_0)
    with that show False by (simp add: word_sle_eq)
  qed
  moreover have "\<not> 65 \<le>s (0 :: u8)" by (simp add: word_sle_eq)
  ultimately show ?thesis by (auto simp: toLower_def)
qed

lemma toLower_0 [simp]: "toLower 0 = 0"
  by simp

text \<open>
  \<open>istrncmp\<close> decides equality up to case on the first \<open>n\<close> characters, \<open>strncmp\<close> equality.
\<close>

lemma istrncmp_cstr:
  "cstr m p xs \<Longrightarrow> cstr m q ys \<Longrightarrow>
   istrncmp m p q n = 0 \<longleftrightarrow> map toLower (take (unat n) xs) = map toLower (take (unat n) ys)"
proof (induction xs arbitrary: p q ys n)
  case Nil
  then show ?case
    by (cases ys; cases "n = 0"; subst istrncmp.simps) (auto simp: Let_def take_unat_Cons)
next
  case (Cons x xs)
  show ?case
  proof (cases ys)
    case Nil
    with Cons.prems show ?thesis
      by (cases "n = 0"; subst istrncmp.simps) (auto simp: Let_def take_unat_Cons)
  next
    case [simp]: (Cons y ys')
    show ?thesis
    proof (cases "n = 0")
      case False
      have "istrncmp m (p + 1) (q + 1) (n - 1) = 0 \<longleftrightarrow>
          map toLower (take (unat (n - 1)) xs) = map toLower (take (unat (n - 1)) ys')"
        using Cons.prems by (intro Cons.IH) auto
      with Cons.prems False show ?thesis
        by (subst istrncmp.simps) (auto simp: Let_def take_unat_Cons)
    qed (subst istrncmp.simps, simp)
  qed
qed

lemma strncmp_cstr:
  "cstr m p xs \<Longrightarrow> cstr m q ys \<Longrightarrow>
   strncmp m p q n = 0 \<longleftrightarrow> take (unat n) xs = take (unat n) ys"
proof (induction xs arbitrary: p q ys n)
  case Nil
  then show ?case
    by (cases ys; cases "n = 0"; subst strncmp.simps) (auto simp: take_unat_Cons)
next
  case (Cons x xs)
  show ?case
  proof (cases ys)
    case Nil
    with Cons.prems show ?thesis
      by (cases "n = 0"; subst strncmp.simps) (auto simp: take_unat_Cons)
  next
    case [simp]: (Cons y ys')
    show ?thesis
    proof (cases "n = 0")
      case False
      have "strncmp m (p + 1) (q + 1) (n - 1) = 0 \<longleftrightarrow>
          take (unat (n - 1)) xs = take (unat (n - 1)) ys'"
        using Cons.prems by (intro Cons.IH) auto
      with Cons.prems False show ?thesis
        by (subst strncmp.simps) (auto simp: take_unat_Cons)
    qed (subst strncmp.simps, simp)
  qed
qed

text \<open>\<open>copied m d s i\<close>: the first \<open>i\<close> bytes at \<open>s\<close> have been copied to \<open>d\<close>.\<close>

definition copied :: "mem \<Rightarrow> addr \<Rightarrow> addr \<Rightarrow> u32 \<Rightarrow> mem" where
  "copied m d s i = (\<lambda>a. if a - d < i then m (s + (a - d)) else m a)"

lemma copied_0 [simp]: "copied m d s 0 = m"
  by (simp add: copied_def)

lemma copied_step:
  assumes "i < n" and "region d n \<inter> region s n = {}"
  shows "copied m d s i (s + i) = m (s + i)"
    and "(copied m d s i)(d + i := m (s + i)) = copied m d s (i + 1)"
proof -
  have "s + i \<in> region s n" using assms(1) by simp
  with assms(2) have "\<not> s + i - d < n" by auto
  then have "\<not> s + i - d < i" using assms(1) by (meson less_trans)
  then show "copied m d s i (s + i) = m (s + i)" by (simp add: copied_def)
  show "(copied m d s i)(d + i := m (s + i)) = copied m d s (i + 1)"
    using assms(1) by (auto simp: copied_def region_step fun_eq_iff)
qed

lemma strncpy_loop_cstr:
  assumes "cstr m s xs" and "0 < n" and "n < 2147483648"
    and disj: "region d (of_nat n) \<inter> region s (of_nat n) = {}"
    and "i \<le> min (length xs) (n - 1)"
  shows "strncpy_loop (copied m d s (of_nat i)) d s (of_nat n) (of_nat i) =
    (of_nat (min (length xs) (n - 1)), copied m d s (of_nat (min (length xs) (n - 1))))"
  using assms(5)
proof (induction "min (length xs) (n - 1) - i" arbitrary: i)
  case 0
  then have i: "i = min (length xs) (n - 1)" by linarith
  then have "i < n" using assms(2) by linarith
  then have lt: "(of_nat i :: u32) < of_nat n" using assms(3) by (simp add: of_nat_u32_less)
  show ?case
  proof (cases "i = length xs")
    case True
    then have "copied m d s (of_nat i) (s + of_nat i) = 0"
      using copied_step(1) [OF lt disj] cstr_end [OF assms(1)] by simp
    with i show ?thesis by (subst strncpy_loop.simps) simp
  next
    case False
    with i have "i = n - 1" by linarith
    with assms(2) have "(of_nat i :: u32) = of_nat n - 1" by (simp add: of_nat_diff)
    then have "\<not> (of_nat i <s (of_nat n - 1 :: u32))" by (simp add: word_sless_alt)
    with i show ?thesis by (subst strncpy_loop.simps) simp
  qed
next
  case (Suc k)
  then have i: "i < length xs" "i < n - 1" by simp_all
  then have lt: "(of_nat i :: u32) < of_nat n" using assms(3) by (simp add: of_nat_u32_less)
  have less: "of_nat i <s (of_nat (n - 1) :: u32)"
    by (rule of_nat_u32_sless) (use i assms(3) in auto)
  have n1: "(of_nat n :: u32) - 1 = of_nat (n - 1)" using assms(2) by (simp add: of_nat_diff)
  have "strncpy_loop (copied m d s (of_nat (Suc i))) d s (of_nat n) (of_nat (Suc i)) =
    (of_nat (min (length xs) (n - 1)), copied m d s (of_nat (min (length xs) (n - 1))))"
    by (rule Suc.hyps(1)) (use Suc.hyps(2) i in auto)
  moreover have "m (s + of_nat i) \<noteq> 0" using cstr_nth [OF assms(1) i(1)] by simp
  ultimately show ?case using less [folded n1]
    by (subst strncpy_loop.simps) (simp add: copied_step [OF lt disj] add.commute)
qed

lemma strncpy_cstr:
  assumes "cstr m s xs" and "0 < n" and "n < 2147483648"
    and "region d (of_nat n) \<inter> region s (of_nat n) = {}"
  shows "strncpy m d s (of_nat n) =
    (copied m d s (of_nat (min (length xs) (n - 1))))(d + of_nat (min (length xs) (n - 1)) := 0)"
  using strncpy_loop_cstr [OF assms, of 0] by (simp add: strncpy_def)

lemma copied_frame: "same_outside (region d i) m (copied m d s i)"
  by (simp add: same_outside_def copied_def)

text \<open>Wherever the string is, and however long: \<open>strncpy\<close> stays in its buffer.\<close>

lemma strncpy_loop_frame:
  assumes "0 < n" "n < 2147483648" "i \<le> n - 1"
  shows "\<exists>j m'. strncpy_loop m d s (of_nat n) (of_nat i) = (of_nat j, m') \<and> j \<le> n - 1 \<and> same_outside (region d (of_nat n)) m m'"
  using assms(3)
proof (induction "n - 1 - i" arbitrary: i m)
  case 0
  then have "i = n - 1" by linarith
  with assms(1) have "\<not> (of_nat i <s (of_nat n - 1 :: u32))" by (simp add: word_sless_alt of_nat_diff)
  then show ?case using 0 by (subst strncpy_loop.simps) auto
next
  case (Suc k)
  then have i: "i < n - 1" by simp
  have n1: "(of_nat n :: u32) - 1 = of_nat (n - 1)" using assms(1) by (simp add: of_nat_diff)
  have less: "of_nat i <s (of_nat n - 1 :: u32)"
    unfolding n1 by (rule of_nat_u32_sless) (use i assms(2) in auto)
  show ?case
  proof (cases "m (s + of_nat i) = 0")
    case True
    with less i show ?thesis by (subst strncpy_loop.simps) auto
  next
    case False
    have "(of_nat i :: u32) < of_nat n" using i assms(2) by (simp add: of_nat_u32_less)
    then have w: "same_outside (region d (of_nat n)) m (m(d + of_nat i := m (s + of_nat i)))"
      by (intro same_outside_upd same_outside_refl) simp
    have "k = n - 1 - Suc i" "Suc i \<le> n - 1" using Suc.hyps(2) i by simp_all
    from Suc.hyps(1) [OF this, of "m(d + of_nat i := m (s + of_nat i))"] obtain j m' where "strncpy_loop (m(d + of_nat i := m (s + of_nat i))) d s (of_nat n) (of_nat (Suc i)) = (of_nat j, m')"
      "j \<le> n - 1" "same_outside (region d (of_nat n)) (m(d + of_nat i := m (s + of_nat i))) m'"
      by blast
    with less False w show ?thesis
      by (subst strncpy_loop.simps) (auto simp: add.commute intro: same_outside_trans)
  qed
qed

lemma strncpy_frame:
  assumes "0 < n" "n < 2147483648"
  shows "same_outside (region d (of_nat n)) m (strncpy m d s (of_nat n))"
proof -
  obtain j m' where "strncpy_loop m d s (of_nat n) 0 = (of_nat j, m')" "j \<le> n - 1" "same_outside (region d (of_nat n)) m m'"
    using strncpy_loop_frame [OF assms, of 0 m d s] by auto
  moreover from this have "(of_nat j :: u32) < of_nat n" using assms by (simp add: of_nat_u32_less)
  ultimately show ?thesis by (auto simp: strncpy_def intro: same_outside_upd)
qed


text \<open>
  \<open>strncpy\<close> into a buffer of \<open>n\<close> bytes leaves the first \<open>n - 1\<close> characters, always terminated,
  and touches nothing outside the buffer.
\<close>

lemma strncpy_terminated:
  assumes "cstr m s xs" and "0 < n" and "n < 2147483648"
    and "region d (of_nat n) \<inter> region s (of_nat n) = {}"
  shows "cstr (strncpy m d s (of_nat n)) d (take (n - 1) xs)"
    and "same_outside (region d (of_nat n)) m (strncpy m d s (of_nat n))"
proof -
  define k where "k = min (length xs) (n - 1)"
  have k: "k < n" "k \<le> length xs" and len: "length (take (n - 1) xs) = k"
    using assms(2) by (auto simp: k_def)
  have eq: "strncpy m d s (of_nat n) = (copied m d s (of_nat k))(d + of_nat k := 0)"
    using strncpy_cstr [OF assms] by (simp add: k_def)
  have kn: "(of_nat k :: u32) < of_nat n"
    using k assms(3) by (simp add: word_less_nat_alt)
  have lt: "(of_nat i :: u32) < of_nat k" "(of_nat i :: u32) \<noteq> of_nat k" if "i < k" for i
    using that k assms(3) by (simp_all add: of_nat_u32_less of_nat_u32_eq)
  show "cstr (strncpy m d s (of_nat n)) d (take (n - 1) xs)"
    unfolding cstr_iff len eq
    using cstr_nth [OF assms(1)] k lt assms(1)
    by (auto simp: copied_def k_def cstr_iff dest: in_set_takeD)
  show "same_outside (region d (of_nat n)) m (strncpy m d s (of_nat n))"
    unfolding eq
  proof (rule same_outside_upd)
    show "same_outside (region d (of_nat n)) m (copied m d s (of_nat k))"
      by (rule same_outside_mono [OF copied_frame]) (use kn in auto)
  qed (use kn in simp)
qed

lemma strcpy_loop_cstr:
  assumes "cstr m s xs" and "length xs < 2147483648"
    and "\<And>i j. i \<le> length xs \<Longrightarrow> j \<le> length xs \<Longrightarrow> d + of_nat i \<noteq> s + of_nat j"
  shows "\<exists>m'. strcpy_loop m d s = Some m' \<and> cstr m' d xs \<and>
    same_outside {d + of_nat i | i. i \<le> length xs} m m'"
  using assms
proof (induction xs arbitrary: m d s)
  case Nil
  then have "strcpy_loop m d s = Some (m(d := 0))" by (simp add: strcpy_loop.simps)
  moreover have "same_outside {d + of_nat i | i. i \<le> length []} m (m(d := 0))"
    by (rule same_outside_upd) auto
  ultimately show ?case by simp
next
  case (Cons x xs)
  define m1 where "m1 = m(d := x)"
  have ms: "m s = x" and x: "x \<noteq> 0" and tail: "cstr m (s + 1) xs" using Cons.prems(1) by auto
  have apart: "d + 1 + of_nat i \<noteq> s + 1 + of_nat j" if "i \<le> length xs" "j \<le> length xs" for i j
    using Cons.prems(3) [of "Suc i" "Suc j"] that by (simp add: add.assoc)
  have "same_outside {d} m m1" by (auto simp: same_outside_def m1_def)
  moreover have "s + 1 + of_nat j \<notin> {d}" if "j \<le> length xs" for j
    using Cons.prems(3) [of 0 "Suc j"] that by (simp add: add.assoc)
  ultimately have "cstr m1 (s + 1) xs" using cstr_frame [OF tail] by blast
  then obtain m' where m': "strcpy_loop m1 (d + 1) (s + 1) = Some m'" "cstr m' (d + 1) xs"
      "same_outside {d + 1 + of_nat i | i. i \<le> length xs} m1 m'"
    using Cons.IH [of m1 "s + 1" "d + 1"] Cons.prems(2) apart by auto
  have "d \<noteq> d + 1 + of_nat i" if "i \<le> length xs" for i
  proof
    assume "d = d + 1 + of_nat i"
    then have "(of_nat (Suc i) :: u32) = 0" by (simp add: add.assoc)
    then have "unat (of_nat (Suc i) :: u32) = 0" by (simp only: unat_0)
    then show False using that Cons.prems(2) by (simp del: of_nat_Suc)
  qed
  then have "m' d = x" using same_outsideD [OF m'(3), of d] by (auto simp: m1_def)
  then have "cstr m' d (x # xs)" using m'(2) x by simp
  moreover have "same_outside {d + of_nat i | i. i \<le> length (x # xs)} m m'"
  proof (rule same_outside_trans [OF \<open>same_outside {d} m m1\<close> m'(3)])
    show "{d + 1 + of_nat i | i. i \<le> length xs} \<subseteq> {d + of_nat i | i. i \<le> length (x # xs)}"
      by (force simp: add.assoc intro: exI [of _ "Suc i" for i])
  qed (auto intro: exI [of _ 0])
  moreover have "strcpy_loop m d s = Some m'"
    using m'(1) ms x by (simp add: strcpy_loop.simps [of m] m1_def)
  ultimately show ?case by blast
qed

lemma strnlen_terminator_loop_cstr:
  assumes "cstr m p xs" and "n < 2147483648" and "i \<le> length (takeWhile (\<lambda>c. c \<noteq> t) (take n xs))"
  shows "strnlen_terminator_loop m p (of_nat n) t (of_nat i) (of_nat i) =
    of_nat (length (takeWhile (\<lambda>c. c \<noteq> t) (take n xs)))"
  using assms(3)
proof (induction "length (takeWhile (\<lambda>c. c \<noteq> t) (take n xs)) - i" arbitrary: i)
  case 0
  let ?w = "takeWhile (\<lambda>c. c \<noteq> t) (take n xs)"
  from 0 have i: "i = length ?w" by simp
  show ?case
  proof (cases "i < n \<and> i < length xs")
    case True
    then have "take n xs ! i = t"
      using nth_length_takeWhile [of "\<lambda>c. c \<noteq> t" "take n xs"] i by simp
    with True i cstr_nth [OF assms(1), of i] show ?thesis
      by (subst strnlen_terminator_loop.simps) auto
  next
    case False
    have "i \<le> length (take n xs)" using i by (simp only: length_takeWhile_le)
    with False have "i = n \<or> i = length xs" by auto
    with i cstr_end [OF assms(1)] show ?thesis
      by (subst strnlen_terminator_loop.simps) (auto simp: word_sless_alt)
  qed
next
  case (Suc k)
  let ?w = "takeWhile (\<lambda>c. c \<noteq> t) (take n xs)"
  have i: "i < length ?w" using Suc.hyps(2) by simp
  then have lt: "i < n" "i < length xs"
    using length_takeWhile_le [of "\<lambda>c. c \<noteq> t" "take n xs"] by auto
  have "xs ! i \<noteq> t"
    using i lt takeWhile_nth [OF i] set_takeWhileD [OF nth_mem [OF i]] by auto
  moreover have "of_nat i <s (of_nat n :: u32)"
    using lt assms(2) by (simp add: of_nat_u32_sless)
  moreover have "strnlen_terminator_loop m p (of_nat n) t (of_nat (Suc i)) (of_nat (Suc i)) =
      of_nat (length ?w)"
    by (rule Suc.hyps(1)) (use Suc.hyps(2) i in auto)
  ultimately show ?case
    using cstr_nth [OF assms(1) lt(2)]
    by (subst strnlen_terminator_loop.simps) (simp add: add.commute)
qed

lemma strnlen_terminator_cstr:
  "cstr m p xs \<Longrightarrow> n < 2147483648 \<Longrightarrow>
   strnlen_terminator m p (of_nat n) t = of_nat (length (takeWhile (\<lambda>c. c \<noteq> t) (take n xs)))"
  using strnlen_terminator_loop_cstr [of m p xs n 0] by (simp add: strnlen_terminator_def)

section \<open>Properties\<close>

definition demo_strings :: mem where
  "demo_strings = (\<lambda>_. 0)(0x100 := 65, 0x101 := 66, 0x200 := 97, 0x201 := 98, 0x202 := 99)"

lemma demo_cstr: "cstr demo_strings 0x100 [65, 66]" "cstr demo_strings 0x200 [97, 98, 99]"
  by (simp_all add: demo_strings_def)

text \<open>C40. \<open>strlen\<close> returns whenever memory holds a zero byte anywhere, and its result is the length
  of the C string at the pointer.\<close>
theorem strlen_returns:
  assumes "m z = 0"
  shows "\<exists>xs. cstr m p xs \<and> strlen m p = Some (of_nat (length xs))"
  using cstr_exists [of m z p] assms strlen_cstr by blast

theorem strlen_returns_witness: "\<exists>xs. cstr demo_strings 0x200 xs \<and> strlen demo_strings 0x200 = Some (of_nat (length xs))"
  by (rule strlen_returns [of _ 0]) (simp add: demo_strings_def)

text \<open>\<open>strncpy\<close> into a buffer of \<open>n\<close> bytes leaves a terminated copy of the first \<open>n - 1\<close>
  characters in it and writes nothing outside the buffer.\<close>
lemma strncpy_bounded:
  assumes "cstr m src xs" and "0 < n" and "n < 2147483648"
    and "region dest (of_nat n) \<inter> region src (of_nat n) = {}"
  shows "cstr (strncpy m dest src (of_nat n)) dest (take (n - 1) xs) \<and>
    same_outside (region dest (of_nat n)) m (strncpy m dest src (of_nat n))"
  using strncpy_terminated [OF assms] by simp

lemma strncpy_bounded_witness: "cstr (strncpy demo_strings 0x300 0x200 3) 0x300 [97, 98]"
proof -
  have "region 0x300 (of_nat 3) \<inter> region 0x200 (of_nat 3) = {}"
  proof (rule equals0I)
    fix a assume "a \<in> region 0x300 (of_nat 3) \<inter> region 0x200 (of_nat 3)"
    then show False using region_unat [of "0x300" 3 a] region_unat [of "0x200" 3 a] by simp
  qed
  from strncpy_bounded [OF demo_cstr(2) _ _ this] show ?thesis by simp
qed

text \<open>\<open>istrncmp\<close> returns 0 exactly when the first \<open>n\<close> characters of the two strings agree up to
  ASCII case.\<close>
lemma istrncmp_equal:
  assumes "cstr m p xs" and "cstr m q ys"
  shows "istrncmp m p q n = 0 \<longleftrightarrow> map toLower (take (unat n) xs) = map toLower (take (unat n) ys)"
  using assms by (rule istrncmp_cstr)

lemma istrncmp_equal_witness: "istrncmp demo_strings 0x100 0x200 2 = 0"
  using istrncmp_equal [OF demo_cstr, of 2] by (simp add: toLower_def word_sle_eq)

end
