(* ===== verification/Terminal.thy ===== *)
theory Terminal
  imports Paging CString
begin

text \<open>
  The text terminal of \<^verbatim>\<open>kernel.c\<close>: \<open>print\<close>, the cursor and the video memory at 0xB8000, and
  \<open>panic\<close>, which prints a message and stops for ever.  A computation that may panic returns an
  \<open>outcome\<close>: a value and a state, or the state in which the machine halted.

  The specification is a typewriter: \<open>screen\<close> is a cursor position and a function from positions
  to cells, and \<open>screen_write\<close> the effect of a character on it.  \<open>terminal_writechar\<close> refines it.
\<close>

section \<open>kernel.c: the terminal\<close>

definition VGA_WIDTH :: u32 where
  [simp]: "VGA_WIDTH = 80"

definition VGA_HEIGHT :: u32 where
  [simp]: "VGA_HEIGHT = 20"

record terminal_state = paging_state +
  video_mem :: addr
  terminal_row :: u16
  terminal_col :: u16

definition terminal_make_char :: "u8 \<Rightarrow> u8 \<Rightarrow> u16" where
  "terminal_make_char c colour = ucast (push_bit 8 (scast colour :: u32) OR scast c)"

definition terminal_putchar ::
  "u32 \<Rightarrow> u32 \<Rightarrow> u8 \<Rightarrow> u8 \<Rightarrow> 'a terminal_state_scheme \<Rightarrow> 'a terminal_state_scheme" where
  "terminal_putchar x y c colour s =
     s\<lparr>ram := st16 (ram s) (video_mem s + 2 * (y * VGA_WIDTH + x)) (terminal_make_char c colour)\<rparr>"

function terminal_writechar :: "u8 \<Rightarrow> u8 \<Rightarrow> 'a terminal_state_scheme \<Rightarrow> 'a terminal_state_scheme"
  and terminal_backspace :: "'a terminal_state_scheme \<Rightarrow> 'a terminal_state_scheme" where
  "terminal_writechar c colour s =
     (if c = 10 then s\<lparr>terminal_row := terminal_row s + 1, terminal_col := 0\<rparr>
      else if c = 8 then terminal_backspace s
      else
        let s1 = terminal_putchar (ucast (terminal_col s)) (ucast (terminal_row s)) c colour s;
            s2 = s1\<lparr>terminal_col := terminal_col s1 + 1\<rparr>
        in if VGA_WIDTH \<le> ucast (terminal_col s2)
           then s2\<lparr>terminal_col := 0, terminal_row := terminal_row s2 + 1\<rparr> else s2)"
| "terminal_backspace s =
     (if terminal_row s = 0 \<and> terminal_col s = 0 then s
      else if terminal_col s = 0 then
        let s1 = s\<lparr>terminal_row := terminal_row s - 1, terminal_col := ucast (VGA_WIDTH - 1)\<rparr>
        in terminal_putchar (ucast (terminal_col s1)) (ucast (terminal_row s1)) 32 15 s1
      else
        let s1 = s\<lparr>terminal_col := terminal_col s - 1\<rparr>;
            s2 = terminal_writechar 32 15 s1
        in s2\<lparr>terminal_col := terminal_col s2 - 1\<rparr>)"
  by pat_completeness auto
termination
  by (relation "measure (case_sum (\<lambda>(c, colour, s). if c = 8 then 2 else 0) (\<lambda>s. 1 :: nat))") auto

declare terminal_writechar.simps [simp del] terminal_backspace.simps [simp del]

definition terminal_initialize :: "'a terminal_state_scheme \<Rightarrow> 'a terminal_state_scheme" where
  "terminal_initialize s =
     for_u32 0 VGA_HEIGHT (\<lambda>y. for_u32 0 VGA_WIDTH (\<lambda>x. terminal_putchar x y 32 0))
       (s\<lparr>video_mem := 0xB8000, terminal_row := 0, terminal_col := 0\<rparr>)"

text \<open>\<open>print\<close> does not return when the string has no terminator anywhere in memory.\<close>

definition print :: "addr \<Rightarrow> 'a terminal_state_scheme \<Rightarrow> 'a terminal_state_scheme option" where
  "print str s =
     map_option (\<lambda>len. for_u32 0 len (\<lambda>i s. terminal_writechar (ram s (str + i)) 15 s) s)
       (strlen (ram s) str)"

text \<open>
  The messages of \<open>panic\<close> are string literals; the model takes the characters of the literal.
  \<open>print_cstr\<close> below shows that printing a string in memory writes its characters this way.
\<close>

datatype ('v, 's) outcome = Returns 'v 's | Panics 's

definition print_chars :: "u8 list \<Rightarrow> 'a terminal_state_scheme \<Rightarrow> 'a terminal_state_scheme" where
  "print_chars xs s = fold (\<lambda>c. terminal_writechar c 15) xs s"

definition panic :: "string \<Rightarrow> 'a terminal_state_scheme \<Rightarrow> ('v, 'a terminal_state_scheme) outcome" where
  "panic msg s = Panics (print_chars (map of_char msg) s)"

section \<open>The screen\<close>

type_synonym screen = "nat \<times> (nat \<Rightarrow> u16)"

definition screen_write :: "u8 \<Rightarrow> u8 \<Rightarrow> screen \<Rightarrow> screen" where
  "screen_write c colour = (\<lambda>(pos, cells).
     if c = 10 then (80 * (pos div 80 + 1), cells)
     else if c = 8 then (if pos = 0 then (pos, cells) else (pos - 1, cells(pos - 1 := terminal_make_char 32 15)))
     else (pos + 1, cells(pos := terminal_make_char c colour)))"

definition cursor :: "'a terminal_state_scheme \<Rightarrow> nat" where
  "cursor s = 80 * unat (terminal_row s) + unat (terminal_col s)"

text \<open>Rows are 16-bit, so there are \<open>80 * 65536\<close> positions.\<close>

definition cells :: "'a terminal_state_scheme \<Rightarrow> nat \<Rightarrow> u16" where
  "cells s k = (if k < 5242880 then ld16 (ram s) (video_mem s + 2 * of_nat k) else 0)"

definition screen_of :: "'a terminal_state_scheme \<Rightarrow> screen" where
  "screen_of s = (cursor s, cells s)"

lemma u16_bound: "unat (x :: u16) < 65536"
  using unsigned_less [of x] by simp

lemma unat_ucast_16 [simp]: "unat (ucast (x :: u16) :: u32) = unat x"
  by (simp add: unsigned_ucast_eq take_bit_nat_eq_self_iff u16_bound [THEN less_trans])

lemma cell_apart:
  assumes "k < 5242880" "j < 5242880" "k \<noteq> j"
  shows "ld16 (st16 m (v + 2 * of_nat k) x) (v + 2 * of_nat j) = ld16 m (v + 2 * of_nat j)"
proof -
  have "v + of_nat n \<notin> region (v + of_nat (2 * k)) 2" if "n = 2 * j \<or> n = 2 * j + 1" for n
    using offset_region [of n "2 * k" 2 v] that assms by auto
  from this [of "2 * j"] this [of "2 * j + 1"]
  have "v + 2 * of_nat j \<notin> region (v + 2 * of_nat k) 2" "v + 2 * of_nat j + 1 \<notin> region (v + 2 * of_nat k) 2"
    by (simp_all add: add.assoc add.commute [of 1])
  then show ?thesis
    using same_outsideD [OF same_outside_st16 [of "v + 2 * of_nat k" m x]] by (intro ld16_cong)
qed

lemma cell_address:
  "2 * (ucast (y :: u16) * 80 + ucast (x :: u16)) = (2 * of_nat (80 * unat y + unat x) :: u32)"
proof -
  have "ucast z = (of_nat (unat z) :: u32)" for z :: u16
    using unat_ucast_16 [of z] by (metis of_nat_unat ucast_id)
  from this [of x] this [of y] show ?thesis by simp
qed

lemma cells_putchar:
  fixes x y :: u16
  assumes "unat x < 80"
  shows "cells (terminal_putchar (ucast x) (ucast y) c clr s) =
    (cells s)(80 * unat y + unat x := terminal_make_char c clr)"
proof -
  have "80 * unat y + unat x < 5242880" using assms u16_bound [of y] by simp
  moreover have "terminal_putchar (ucast x) (ucast y) c clr s = s\<lparr>ram := st16 (ram s)
      (video_mem s + 2 * of_nat (80 * unat y + unat x)) (terminal_make_char c clr)\<rparr>"
    using cell_address [of y x] by (simp add: terminal_putchar_def)
  ultimately show ?thesis
    using cell_apart [of "80 * unat y + unat x"]
    by (auto simp: cells_def fun_eq_iff simp del: of_nat_add of_nat_mult)
qed

lemma putchar_sel [simp]:
  "terminal_row (terminal_putchar x y c clr s) = terminal_row s"
  "terminal_col (terminal_putchar x y c clr s) = terminal_col s"
  "video_mem (terminal_putchar x y c clr s) = video_mem s"
  by (simp_all add: terminal_putchar_def)

lemma cells_cursor_upd [simp]:
  "cells (s\<lparr>terminal_row := r\<rparr>) = cells s" "cells (s\<lparr>terminal_col := c\<rparr>) = cells s"
  by (simp_all add: cells_def fun_eq_iff)

lemma unat_u16_inc: "unat x < 65535 \<Longrightarrow> unat (x + 1) = Suc (unat x)" for x :: u16
  by (simp add: unat_word_ariths)

lemma unat_u16_dec: "x \<noteq> 0 \<Longrightarrow> unat (x - 1) = unat x - 1" for x :: u16
  by (rule unat_minus_one)

lemma wide_le: "(80 :: u32) \<le> ucast (x :: u16) \<longleftrightarrow> 80 \<le> unat x"
  by (simp add: word_le_nat_alt)

text \<open>A character that is neither a newline nor a backspace.\<close>

lemma writechar_plain:
  assumes "c \<noteq> 10" "c \<noteq> 8" "unat (terminal_col s) < 80" "unat (terminal_row s) < 65535"
  shows "cursor (terminal_writechar c clr s) = cursor s + 1"
    and "cells (terminal_writechar c clr s) = (cells s)(cursor s := terminal_make_char c clr)"
    and "unat (terminal_col (terminal_writechar c clr s)) < 80"
    and "unat (terminal_col s) < 79 \<Longrightarrow> terminal_col (terminal_writechar c clr s) = terminal_col s + 1 \<and>
      terminal_row (terminal_writechar c clr s) = terminal_row s"
proof -
  have col: "unat (terminal_col s + 1) = Suc (unat (terminal_col s))"
    and row: "unat (terminal_row s + 1) = Suc (unat (terminal_row s))"
    using assms(3,4) by (simp_all add: unat_u16_inc)
  have "80 \<le> unat (terminal_col s + 1) \<longleftrightarrow> unat (terminal_col s) = 79" using col assms(3) by auto
  note eqs = terminal_writechar.simps [of c clr s] assms(1,2) wide_le this Let_def
  show "cursor (terminal_writechar c clr s) = cursor s + 1"
    "cells (terminal_writechar c clr s) = (cells s)(cursor s := terminal_make_char c clr)"
    "unat (terminal_col (terminal_writechar c clr s)) < 80"
    using assms(3) col row by (simp_all add: eqs cursor_def cells_putchar)
  show "unat (terminal_col s) < 79 \<Longrightarrow> terminal_col (terminal_writechar c clr s) = terminal_col s + 1 \<and>
      terminal_row (terminal_writechar c clr s) = terminal_row s"
    by (simp add: eqs)
qed

lemma backspace_screen:
  assumes "unat (terminal_col s) < 80" "unat (terminal_row s) < 65535" "0 < cursor s"
  shows "cursor (terminal_backspace s) = cursor s - 1"
    and "cells (terminal_backspace s) = (cells s)(cursor s - 1 := terminal_make_char 32 15)"
    and "unat (terminal_col (terminal_backspace s)) < 80"
proof -
  have ne: "\<not> (terminal_row s = 0 \<and> terminal_col s = 0)" using assms(3) by (auto simp: cursor_def)
  have "cursor (terminal_backspace s) = cursor s - 1 \<and>
      cells (terminal_backspace s) = (cells s)(cursor s - 1 := terminal_make_char 32 15) \<and>
      unat (terminal_col (terminal_backspace s)) < 80"
  proof (cases "terminal_col s = 0")
    case True
    then have row: "terminal_row s \<noteq> 0" using ne by simp
    then have "unat (terminal_row s) = Suc (unat (terminal_row s - 1))"
      by (simp add: unat_u16_dec unat_gt_0)
    with True row cells_putchar [of 79 "terminal_row s - 1" 32 15
        "s\<lparr>terminal_row := terminal_row s - 1, terminal_col := 79\<rparr>"] show ?thesis
      by (simp add: terminal_backspace.simps [of s] cursor_def add.commute [of 79])
  next
    case False
    define s1 where "s1 = s\<lparr>terminal_col := terminal_col s - 1\<rparr>"
    have dec: "unat (terminal_col s - 1) = unat (terminal_col s) - 1" "0 < unat (terminal_col s)"
      using False by (simp_all add: unat_u16_dec unat_gt_0)
    then have w: "terminal_col (terminal_writechar 32 15 s1) = terminal_col s1 + 1"
      "terminal_row (terminal_writechar 32 15 s1) = terminal_row s1"
      "cells (terminal_writechar 32 15 s1) = (cells s1)(cursor s1 := terminal_make_char 32 15)"
      using writechar_plain [of 32 s1 15] assms(1,2) by (simp_all add: s1_def)
    have "terminal_backspace s = (terminal_writechar 32 15 s1)
        \<lparr>terminal_col := terminal_col (terminal_writechar 32 15 s1) - 1\<rparr>"
      using False by (subst terminal_backspace.simps) (simp add: s1_def Let_def)
    with w dec assms(1) show ?thesis by (simp add: cursor_def s1_def)
  qed
  then show "cursor (terminal_backspace s) = cursor s - 1"
    "cells (terminal_backspace s) = (cells s)(cursor s - 1 := terminal_make_char 32 15)"
    "unat (terminal_col (terminal_backspace s)) < 80" by simp_all
qed

lemma writechar_screen:
  assumes "unat (terminal_col s) < 80" "unat (terminal_row s) < 65535"
  shows "screen_of (terminal_writechar c clr s) = screen_write c clr (screen_of s) \<and>
    unat (terminal_col (terminal_writechar c clr s)) < 80"
proof -
  consider "c = 10" | "c = 8" | "c \<noteq> 10" "c \<noteq> 8" by blast
  then show ?thesis
  proof cases
    case 1
    have "(80 * unat (terminal_row s) + unat (terminal_col s)) div 80 = unat (terminal_row s)"
      using assms(1) by simp
    with 1 assms show ?thesis
      by (simp add: terminal_writechar.simps screen_of_def screen_write_def cursor_def unat_u16_inc)
  next
    case 2
    show ?thesis
    proof (cases "cursor s = 0")
      case True
      then have "terminal_row s = 0 \<and> terminal_col s = 0"
        by (simp add: cursor_def) (metis unat_eq_zero)
      with True 2 show ?thesis
        by (simp add: terminal_writechar.simps terminal_backspace.simps screen_of_def screen_write_def)
    next
      case False
      with backspace_screen [OF assms] 2 show ?thesis
        by (simp add: terminal_writechar.simps screen_of_def screen_write_def)
    qed
  next
    case 3
    with writechar_plain [OF 3 assms, of clr] show ?thesis
      by (simp add: screen_of_def screen_write_def)
  qed
qed

text \<open>The bytes of the first \<open>n\<close> positions of the screen.\<close>

definition screen_bytes :: "'a terminal_state_scheme \<Rightarrow> nat \<Rightarrow> addr set" where
  "screen_bytes s n = {video_mem s + of_nat i | i. i < 2 * n}"

lemma screen_bytes_mono: "n \<le> k \<Longrightarrow> screen_bytes s n \<subseteq> screen_bytes s k"
  by (auto simp: screen_bytes_def)

lemma putchar_frame:
  fixes x y :: u16
  assumes "80 * unat y + unat x < n"
  shows "same_outside (screen_bytes s n) (ram s) (ram (terminal_putchar (ucast x) (ucast y) c clr s))"
proof -
  let ?k = "80 * unat y + unat x"
  have "2 * ?k < 2 * n" "2 * ?k + 1 < 2 * n" using assms by simp_all
  then have "video_mem s + of_nat (2 * ?k) \<in> screen_bytes s n"
    "video_mem s + of_nat (2 * ?k + 1) \<in> screen_bytes s n"
    unfolding screen_bytes_def by blast+
  then show ?thesis
    using cell_address [of y x]
    by (simp add: terminal_putchar_def st16_def same_outside_upd add.assoc add.commute [of 1])
qed

lemma writechar_frame:
  "same_outside (screen_bytes s (cursor s + 1)) (ram s) (ram (terminal_writechar c clr s)) \<and>
   video_mem (terminal_writechar c clr s) = video_mem s"
proof -
  have plain: "same_outside (screen_bytes s (cursor s + 1)) (ram s) (ram (terminal_writechar c clr s)) \<and>
      video_mem (terminal_writechar c clr s) = video_mem s"
    if "c \<noteq> 8" for c clr and s :: "'a terminal_state_scheme"
    using putchar_frame [of "terminal_row s" "terminal_col s" "cursor s + 1" s c clr] that
    by (subst (1 2) terminal_writechar.simps) (simp add: Let_def cursor_def)
  show ?thesis
  proof (cases "c = 8")
    case True
    have row: "unat (terminal_row s) = Suc (unat (terminal_row s - 1))" if "terminal_row s \<noteq> 0"
      using that by (simp add: unat_u16_dec unat_gt_0)
    have col: "unat (terminal_col s) = Suc (unat (terminal_col s - 1))" if "terminal_col s \<noteq> 0"
      using that by (simp add: unat_u16_dec unat_gt_0)
    define s1 where "s1 = s\<lparr>terminal_col := terminal_col s - 1\<rparr>"
    define s0 where "s0 = s\<lparr>terminal_row := terminal_row s - 1, terminal_col := 79\<rparr>"
    have "cursor s1 + 1 = cursor s" if "terminal_col s \<noteq> 0"
      using col [OF that] by (simp add: cursor_def s1_def)
    then have b1: "same_outside (screen_bytes s (cursor s + 1)) (ram s) (ram (terminal_writechar 32 15 s1)) \<and>
        video_mem (terminal_writechar 32 15 s1) = video_mem s" if "terminal_col s \<noteq> 0"
      using plain [of 32 s1 15] that
      by (auto simp: s1_def screen_bytes_def elim!: same_outside_mono)
    have b0: "same_outside (screen_bytes s (cursor s + 1)) (ram s)
        (ram (terminal_putchar (ucast (79 :: u16)) (ucast (terminal_row s - 1)) 32 15 s0))"
      if "terminal_row s \<noteq> 0"
      using putchar_frame [of "terminal_row s - 1" 79 "cursor s + 1" s0 32 15] row [OF that]
      by (simp add: cursor_def s0_def screen_bytes_def)
    show ?thesis
      using b0 b1 True unfolding terminal_writechar.simps [of c clr s] terminal_backspace.simps [of s]
      by (auto simp: Let_def s0_def s1_def)
  qed (rule plain)
qed

section \<open>Printing\<close>

text \<open>Typing changes memory and the cursor, nothing else.\<close>

lemma writechar_only:
  "terminal_writechar c clr s = s\<lparr>ram := ram (terminal_writechar c clr s), terminal_row := terminal_row (terminal_writechar c clr s),
     terminal_col := terminal_col (terminal_writechar c clr s)\<rparr>"
proof -
  have plain: "terminal_writechar c clr s = s\<lparr>ram := ram (terminal_writechar c clr s),
      terminal_row := terminal_row (terminal_writechar c clr s), terminal_col := terminal_col (terminal_writechar c clr s)\<rparr>"
    if "c \<noteq> 8" for c clr and s :: "'a terminal_state_scheme"
    using that by (simp add: terminal_writechar.simps terminal_putchar_def Let_def)
  show ?thesis
  proof (cases "c = 8")
    case True
    then have "terminal_writechar c clr s = terminal_backspace s" by (simp add: terminal_writechar.simps)
    then show ?thesis
      by (simp add: terminal_backspace.simps [of s] terminal_writechar.simps [of 32] terminal_putchar_def Let_def)
  qed (rule plain)
qed

lemma print_chars_only:
  "print_chars xs s = s\<lparr>ram := ram (print_chars xs s), terminal_row := terminal_row (print_chars xs s),
     terminal_col := terminal_col (print_chars xs s)\<rparr>"
proof (induction xs arbitrary: s)
  case (Cons x xs)
  have e: "print_chars (x # xs) s = print_chars xs (terminal_writechar x 15 s)" by (simp add: print_chars_def)
  show ?case unfolding e by (subst Cons.IH, subst writechar_only) simp
qed (simp add: print_chars_def)

lemma row_below: "cursor s < 5242800 \<Longrightarrow> unat (terminal_row s) < 65535"
  by (simp add: cursor_def)

lemma screen_write_pos: "fst (screen_write c clr (pos, f)) \<le> pos + 80"
  using div_mult_mod_eq [of pos 80] by (auto simp: screen_write_def)

lemma print_chars_screen:
  assumes "unat (terminal_col s) < 80" "cursor s + 80 * length xs < 5242800"
  shows "screen_of (print_chars xs s) = fold (\<lambda>c. screen_write c 15) xs (screen_of s) \<and>
    unat (terminal_col (print_chars xs s)) < 80 \<and> cursor (print_chars xs s) \<le> cursor s + 80 * length xs \<and>
    video_mem (print_chars xs s) = video_mem s \<and>
    same_outside (screen_bytes s (cursor s + 80 * length xs + 1)) (ram s) (ram (print_chars xs s))"
  using assms
proof (induction xs arbitrary: s)
  case Nil
  then show ?case by (simp add: print_chars_def)
next
  case (Cons c xs)
  define s1 where "s1 = terminal_writechar c 15 s"
  have w: "screen_of s1 = screen_write c 15 (screen_of s)" "unat (terminal_col s1) < 80"
    using writechar_screen [OF Cons.prems(1) row_below] Cons.prems(2) by (auto simp: s1_def)
  have fr: "same_outside (screen_bytes s (cursor s + 1)) (ram s) (ram s1)" "video_mem s1 = video_mem s"
    using writechar_frame by (auto simp: s1_def)
  have pos: "cursor s1 \<le> cursor s + 80"
    using screen_write_pos [of c 15 "cursor s" "cells s"] w(1) by (simp add: screen_of_def prod_eq_iff)
  have IH: "screen_of (print_chars xs s1) = fold (\<lambda>c. screen_write c 15) xs (screen_of s1) \<and>
    unat (terminal_col (print_chars xs s1)) < 80 \<and> cursor (print_chars xs s1) \<le> cursor s1 + 80 * length xs \<and>
    video_mem (print_chars xs s1) = video_mem s1 \<and>
    same_outside (screen_bytes s1 (cursor s1 + 80 * length xs + 1)) (ram s1) (ram (print_chars xs s1))"
    using w(2) pos Cons.prems(2) by (intro Cons.IH) auto
  have "screen_bytes s1 (cursor s1 + 80 * length xs + 1) \<subseteq> screen_bytes s (cursor s + 80 * length (c # xs) + 1)"
    using fr(2) pos by (auto simp: screen_bytes_def)
  then have "same_outside (screen_bytes s (cursor s + 80 * length (c # xs) + 1)) (ram s) (ram (print_chars xs s1))"
    using IH fr(1) by (auto intro!: same_outside_trans [OF fr(1)] screen_bytes_mono)
  moreover have "print_chars (c # xs) s = print_chars xs s1" by (simp add: print_chars_def s1_def)
  ultimately show ?case using IH w fr(2) pos by auto
qed

lemma print_cstr:
  assumes "cstr (ram s) str xs" "unat (terminal_col s) < 80" "cursor s + 80 * length xs < 5242800"
    and "\<And>i. i < length xs \<Longrightarrow> str + of_nat i \<notin> screen_bytes s (cursor s + 80 * length xs + 1)"
  shows "print str s = Some (print_chars xs s)"
proof -
  let ?f = "\<lambda>i s. terminal_writechar (ram s (str + i)) 15 s"
  define P where "P i s' \<longleftrightarrow> s' = print_chars (take (unat i) xs) s" for i :: u32 and s'
  have len: "length xs < 4294967296" using assms(1) by (rule cstr_length)
  have "P (of_nat (length xs)) (for_u32 0 (of_nat (length xs)) ?f s)"
  proof (rule for_u32_invariant [where P = P])
    fix i s' assume i: "i < of_nat (length xs)" and P: "P i s'"
    have lt: "unat i < length xs" using i len by (simp add: word_less_nat_alt)
    have "same_outside (screen_bytes s (cursor s + 80 * length (take (unat i) xs) + 1)) (ram s) (ram s')"
      using print_chars_screen [of s "take (unat i) xs"] assms(2,3) P lt by (simp add: P_def)
    then have "same_outside (screen_bytes s (cursor s + 80 * length xs + 1)) (ram s) (ram s')"
      by (rule same_outside_mono) (use lt in \<open>intro screen_bytes_mono, simp\<close>)
    then have "ram s' (str + i) = xs ! unat i"
      using same_outsideD assms(4) [OF lt] cstr_nth [OF assms(1) lt] by (metis of_nat_unat ucast_id)
    then show "P (i + 1) (?f i s')"
      using P lt unat_Suc_less [OF i] by (simp add: P_def print_chars_def take_Suc_conv_app_nth)
  qed (simp_all add: P_def print_chars_def)
  with len strlen_cstr [OF assms(1)] show ?thesis by (simp add: print_def P_def)
qed

section \<open>Properties\<close>

text \<open>C35. \<open>terminal_writechar\<close> refines the typewriter screen for every character, control characters
  included: the cursor moves and one cell changes as \<open>screen_write\<close> says, the column stays below
  the width, and memory outside the cells up to the cursor is untouched.\<close>
theorem terminal_writechar_refines:
  assumes "unat (terminal_col s) < 80" and "unat (terminal_row s) < 65535"
  shows "screen_of (terminal_writechar c colour s) = screen_write c colour (screen_of s) \<and>
    unat (terminal_col (terminal_writechar c colour s)) < 80 \<and>
    same_outside (screen_bytes s (cursor s + 1)) (ram s) (ram (terminal_writechar c colour s))"
  using writechar_screen [OF assms] writechar_frame by blast

definition demo_terminal :: terminal_state where
  "demo_terminal = \<lparr>ram = (\<lambda>_. 0)(0x100 := 72, 0x101 := 105), kernelHeap = kernel_heap,
     current_directory = 0, cr3 = 0, cr0 = 0, video_mem = 0xB8000, terminal_row = 1, terminal_col = 0\<rparr>"

theorem terminal_writechar_refines_witness:
  "cursor (terminal_writechar 8 15 demo_terminal) = 79"
  using terminal_writechar_refines [of demo_terminal 8 15]
  by (simp add: demo_terminal_def screen_of_def screen_write_def cursor_def)

text \<open>\<open>print\<close> of a string in memory returns, and types the characters of the string one after the
  other, provided the string does not lie in the part of video memory the text may reach.\<close>
lemma print_types_string:
  assumes "cstr (ram s) str xs" and "unat (terminal_col s) < 80" and "cursor s + 80 * length xs < 5242800"
    and "\<forall>i<length xs. str + of_nat i \<notin> screen_bytes s (cursor s + 80 * length xs + 1)"
  shows "\<exists>s'. print str s = Some s' \<and> screen_of s' = fold (\<lambda>c. screen_write c 15) xs (screen_of s)"
  using print_cstr [OF assms(1-3)] print_chars_screen [OF assms(2,3)] assms(4) by blast

lemma print_types_string_witness:
  "\<exists>s'. print 0x100 demo_terminal = Some s' \<and> fst (screen_of s') = 82"
proof -
  have "0x100 + of_nat i \<notin> screen_bytes demo_terminal 241" if "i < 2" for i
  proof
    assume "0x100 + of_nat i \<in> screen_bytes demo_terminal 241"
    then obtain j where j: "j < 482" and eq: "(of_nat (0x100 + i) :: u32) = of_nat (0xB8000 + j)"
      by (auto simp: screen_bytes_def demo_terminal_def)
    from eq have "0x100 + i = 0xB8000 + j" by (subst (asm) of_nat_u32_eq) (use j that in simp_all)
    with that show False by simp
  qed
  then have "\<exists>s'. print 0x100 demo_terminal = Some s' \<and>
      screen_of s' = fold (\<lambda>c. screen_write c 15) [72, 105] (screen_of demo_terminal)"
    by (intro print_types_string) (simp_all add: demo_terminal_def cursor_def)
  then show ?thesis by (auto simp: screen_of_def screen_write_def cursor_def demo_terminal_def)
qed

end
