(* ===== verification/Disk.thy ===== *)
theory Disk
  imports Terminal "HOL-Library.Monad_Syntax" "HOL-Library.Signed_Division"
begin

text \<open>
  The disk driver \<^verbatim>\<open>disk/disk.c\<close> and the byte stream over it \<^verbatim>\<open>disk/streamer.c\<close>.

  The machine behind the I/O ports is a parameter: a device state \<open>'d\<close> and the effect of \<open>insb\<close>,
  \<open>insw\<close> and \<open>outb\<close> (\<^verbatim>\<open>io/io.asm\<close>) on it.  \<open>ata_device\<close> states what the driver relies on: after the
  command sequence the drive offers the words of the sector in order, and its status register
  reports data sooner or later.  \<open>struct disk\<close> is five words at an address fixed by the linker
  (\<open>diskType\<close>, \<open>sectorSize\<close>, \<open>id\<close>, \<open>filesystem\<close>, \<open>fs_private\<close>), \<open>struct disk_stream\<close> two (\<open>pos\<close>, \<open>disk\<close>).

  The main lemma: reading from a stream yields the bytes of the disk from the stream's position
  on, whatever the sector boundaries in between.
\<close>

section \<open>Ports\<close>

record 'd ports =
  insb :: "u16 \<Rightarrow> 'd \<Rightarrow> u8 \<times> 'd"
  insw :: "u16 \<Rightarrow> 'd \<Rightarrow> u16 \<times> 'd"
  outb :: "u16 \<Rightarrow> u8 \<Rightarrow> 'd \<Rightarrow> 'd"

record 'd disk_state = terminal_state +
  dev :: 'd
  disk :: addr

section \<open>disk.c\<close>

definition PEACHOS_DISK_TYPE_REAL :: u32 where
  [simp]: "PEACHOS_DISK_TYPE_REAL = 0"

text \<open>The command registers: drive and high address bits, sector count, address, command.\<close>

definition ata_command :: "'d ports \<Rightarrow> u32 \<Rightarrow> u32 \<Rightarrow> 'd \<Rightarrow> 'd" where
  "ata_command io startLba totalSectors d =
     (let d1 = outb io 0x1F6 (ucast (signed_drop_bit 24 startLba OR 0xE0)) d;
          d2 = outb io 0x01F2 (ucast totalSectors) d1;
          d3 = outb io 0x1F3 (ucast (startLba AND 0xff)) d2;
          d4 = outb io 0x1F4 (ucast (signed_drop_bit 8 startLba)) d3;
          d5 = outb io 0x1F5 (ucast (signed_drop_bit 16 startLba)) d4
      in outb io 0x1F7 0x20 d5)"

partial_function (option) ata_poll :: "'d ports \<Rightarrow> 'd \<Rightarrow> 'd option" where
  "ata_poll io d =
     (let (status, d') = insb io 0x1F7 d
      in if status AND 0x8 = 0 then ata_poll io d' else Some d')"

definition ata_words :: "'d ports \<Rightarrow> addr \<Rightarrow> mem \<times> 'd \<Rightarrow> mem \<times> 'd" where
  "ata_words io ptr =
     for_s32 0 256 (\<lambda>wordsRead (m, d). let (w, d') = insw io 0x1F0 d in (st16 m (ptr + 2 * wordsRead) w, d'))"

function ata_sectors :: "'d ports \<Rightarrow> u32 \<Rightarrow> u32 \<Rightarrow> addr \<Rightarrow> mem \<Rightarrow> 'd \<Rightarrow> (mem \<times> 'd) option" where
  "ata_sectors io totalSectors sectorsRead ptr m d =
     (if sectorsRead <s totalSectors then
        (case ata_poll io d of
           None \<Rightarrow> None
         | Some d1 \<Rightarrow>
             let (m', d') = ata_words io ptr (m, d1)
             in ata_sectors io totalSectors (sectorsRead + 1) (ptr + 512) m' d')
      else Some (m, d))"
  by pat_completeness auto
termination
  by (relation "measure (\<lambda>(io, n, i, p, m, d). nat (sint n - sint i))")
    (auto simp: sint_Suc word_sless_alt)

declare ata_sectors.simps [simp del]

text \<open>The buffer may be an automatic array of the caller, so the memory it is in is an argument.\<close>

definition disk_read_sector ::
  "'d ports \<Rightarrow> u32 \<Rightarrow> u32 \<Rightarrow> addr \<Rightarrow> mem \<Rightarrow> 'd \<Rightarrow> (u32 \<times> mem \<times> 'd) option" where
  "disk_read_sector io startLba totalSectors buff m d =
     map_option (\<lambda>(m', d'). (0, m', d'))
       (ata_sectors io totalSectors 0 buff m (ata_command io startLba totalSectors d))"

definition disk_get :: "u32 \<Rightarrow> ('d, 'a) disk_state_scheme \<Rightarrow> addr" where
  "disk_get index s = (if index \<noteq> 0 then 0 else disk s)"

definition disk_read_block :: "'d ports \<Rightarrow> addr \<Rightarrow> u32 \<Rightarrow> u32 \<Rightarrow> addr \<Rightarrow> mem \<Rightarrow>
    ('d, 'a) disk_state_scheme \<Rightarrow> (u32 \<times> mem \<times> ('d, 'a) disk_state_scheme) option" where
  "disk_read_block io idisk lba n buff m s =
     (if idisk \<noteq> disk s then Some (- EIO, m, s)
      else map_option (\<lambda>(res, m', d'). (res, m', s\<lparr>dev := d'\<rparr>)) (disk_read_sector io lba n buff m (dev s)))"

section \<open>streamer.c\<close>

text \<open>Signed division and remainder of C, which round towards zero.\<close>

definition cdiv :: "u32 \<Rightarrow> u32 \<Rightarrow> u32" where
  "cdiv a b = word_of_int (sint a sdiv sint b)"

definition cmod :: "u32 \<Rightarrow> u32 \<Rightarrow> u32" where
  "cmod a b = word_of_int (sint a smod sint b)"

definition diskSteamerNew :: "u32 \<Rightarrow> ('d, 'a) disk_state_scheme \<Rightarrow> addr \<times> ('d, 'a) disk_state_scheme" where
  "diskSteamerNew diskNo s =
     (if disk_get diskNo s = 0 then (0, s)
      else
        let (streamer, s1) = kZalloc 8 s
        in (streamer, s1\<lparr>ram := st32 (st32 (ram s1) streamer 0) (streamer + 4) (disk_get diskNo s)\<rparr>))"

definition diskSteamerSeek :: "addr \<Rightarrow> u32 \<Rightarrow> ('d, 'a) disk_state_scheme \<Rightarrow> u32 \<times> ('d, 'a) disk_state_scheme" where
  "diskSteamerSeek stream pos s = (0, s\<lparr>ram := st32 (ram s) stream pos\<rparr>)"

text \<open>The local sector buffer is a memory of its own, at offset 0.\<close>

definition stream_copy :: "mem \<Rightarrow> u32 \<Rightarrow> addr \<Rightarrow> u32 \<Rightarrow> mem \<Rightarrow> mem" where
  "stream_copy buff offset out n = for_s32 0 n (\<lambda>i m. m(out + i := buff (i + offset)))"

partial_function (option) diskSteamerRead :: "'d ports \<Rightarrow> addr \<Rightarrow> addr \<Rightarrow> u32 \<Rightarrow>
    ('d, 'a) disk_state_scheme \<Rightarrow> (u32 \<times> ('d, 'a) disk_state_scheme) option" where
  "diskSteamerRead io stream out total_bytes s =
     (let pos = ld32 (ram s) stream;
          sector = cdiv pos PEACHOS_SECTOR_SIZE;
          offset = cmod pos PEACHOS_SECTOR_SIZE;
          overflow = (PEACHOS_SECTOR_SIZE \<le>s offset + total_bytes)
      in do {
        (res, buff, s1) \<leftarrow> disk_read_block io (ld32 (ram s) (stream + 4)) sector 1 0 (\<lambda>_. 0) s;
        if res <s 0 then Some (res, s1)
        else
          let total_to_read = (if overflow then PEACHOS_SECTOR_SIZE - offset else total_bytes);
              m1 = stream_copy buff offset out total_to_read (ram s1);
              m2 = st32 m1 stream (ld32 m1 stream + total_to_read);
              s2 = s1\<lparr>ram := m2\<rparr>
          in if overflow
             then diskSteamerRead io stream
                    (if 0 <s total_to_read then out + total_to_read else out) (total_bytes - total_to_read) s2
             else Some (res, s2)
      })"

definition diskStreamerClose :: "addr \<Rightarrow> ('d, 'a) disk_state_scheme \<Rightarrow> ('d, 'a) disk_state_scheme" where
  "diskStreamerClose stream s = kFree stream s"

section \<open>What the driver relies on\<close>

text \<open>
  \<open>xfer d\<close> is the transfer the drive is in: the sector and the number of words already taken;
  \<open>data lba\<close> are the 512 bytes of a sector.
\<close>

definition ata_device :: "'d ports \<Rightarrow> ('d \<Rightarrow> (u32 \<times> nat) option) \<Rightarrow> (u32 \<Rightarrow> mem) \<Rightarrow> bool" where
  "ata_device io xfer data \<longleftrightarrow>
     (\<forall>lba d. unat lba < 268435456 \<longrightarrow> xfer (ata_command io lba 1 d) = Some (lba, 0)) \<and>
     (\<forall>lba d. xfer d = Some (lba, 0) \<longrightarrow> (\<exists>d'. ata_poll io d = Some d' \<and> xfer d' = Some (lba, 0))) \<and>
     (\<forall>lba d k. xfer d = Some (lba, k) \<and> k < 256 \<longrightarrow>
        fst (insw io 0x1F0 d) = ld16 (data lba) (2 * of_nat k) \<and>
        xfer (snd (insw io 0x1F0 d)) = Some (lba, Suc k))"

lemma ata_words_spec:
  assumes "ata_device io xfer data" "xfer d = Some (lba, 0)"
  shows "\<exists>d'. ata_words io p (m, d) = (\<lambda>a. if a - p < 512 then data lba (a - p) else m a, d')"
proof -
  let ?f = "\<lambda>wordsRead (m, d). let (w, d') = insw io 0x1F0 d in (st16 m (p + 2 * wordsRead) w, d')"
  define P where "P i x \<longleftrightarrow> xfer (snd x) = Some (lba, unat i) \<and>
    (\<forall>a. fst x a = (if a - p < 2 * i then data lba (a - p) else m a))" for i :: u32 and x :: "mem \<times> 'a"
  have "P 256 (for_u32 0 256 ?f (m, d))"
  proof (rule for_u32_invariant [where P = P])
    fix i x assume i: "i < 256" and P: "P i x"
    obtain m1 d1 where x: "x = (m1, d1)" by (cases x)
    have lt: "unat i < 256" using i by (simp add: word_less_nat_alt)
    have w: "fst (insw io 0x1F0 d1) = ld16 (data lba) (2 * i)" "xfer (snd (insw io 0x1F0 d1)) = Some (lba, Suc (unat i))"
      using assms(1) P lt by (auto simp: ata_device_def P_def x)
    have dbl: "unat (2 * i) = 2 * unat i" using lt by (simp add: unat_mult_u32)
    have dbl1: "unat (2 * i + 2) = 2 * unat i + 2" using lt dbl by (simp add: unat_add_u32)
    have "a - p < 2 * (i + 1) \<longleftrightarrow> a - p < 2 * i \<or> a - p = 2 * i \<or> a - p = 2 * i + 1" for a
    proof -
      have "unat (2 * i + 1) = 2 * unat i + 1" using dbl lt by (simp add: unat_add_u32)
      then show ?thesis by (auto simp: word_less_nat_alt word_unat_eq_iff dbl dbl1 distrib_left)
    qed
    moreover have "a - p = k \<longleftrightarrow> a = p + k" for a k by (auto simp: algebra_simps)
    ultimately show "P (i + 1) (?f i x)"
      using P w unat_Suc_less [OF i]
      by (auto simp: P_def x st16_def case_prod_beta Let_def add.assoc)
  qed (use assms(2) in \<open>simp_all add: P_def\<close>)
  then have "P 256 (ata_words io p (m, d))" by (simp add: ata_words_def for_s32_eq)
  then show ?thesis
    by (intro exI [of _ "snd (ata_words io p (m, d))"]) (auto simp: P_def prod_eq_iff)
qed

lemma disk_read_sector_spec:
  assumes "ata_device io xfer data" "unat lba < 268435456"
  shows "\<exists>d'. disk_read_sector io lba 1 p m d =
    Some (0, \<lambda>a. if a - p < 512 then data lba (a - p) else m a, d')"
proof -
  obtain d1 where "ata_poll io (ata_command io lba 1 d) = Some d1" "xfer d1 = Some (lba, 0)"
    using assms unfolding ata_device_def by blast
  moreover obtain d2 where "ata_words io p (m, d1) = (\<lambda>a. if a - p < 512 then data lba (a - p) else m a, d2)"
    using ata_words_spec [OF assms(1) \<open>xfer d1 = Some (lba, 0)\<close>] by blast
  ultimately show ?thesis
    by (simp add: disk_read_sector_def ata_sectors.simps [of io 1] word_sless_alt)
qed

section \<open>The byte stream\<close>

definition disk_byte :: "(u32 \<Rightarrow> mem) \<Rightarrow> nat \<Rightarrow> u8" where
  "disk_byte data k = data (of_nat (k div 512)) (of_nat (k mod 512))"

definition filled :: "(u32 \<Rightarrow> mem) \<Rightarrow> nat \<Rightarrow> addr \<Rightarrow> nat \<Rightarrow> mem \<Rightarrow> mem" where
  "filled data p out t m = (\<lambda>a. if unat (a - out) < t then disk_byte data (p + unat (a - out)) else m a)"

lemma cdivmod_of_nat:
  assumes "p < 2147483648" "q < 2147483648"
  shows "cdiv (of_nat p) (of_nat q) = of_nat (p div q)" "cmod (of_nat p) (of_nat q) = of_nat (p mod q)"
proof -
  have sint: "sint (of_nat p :: u32) = int p" "sint (of_nat q :: u32) = int q"
    using assms by (simp_all add: sint_of_nat_u32)
  have "int p sdiv int q = int (p div q)" "int p smod int q = int (p mod q)"
    by (simp_all add: signed_divide_int_def signed_modulo_int_def sgn_if zdiv_int zmod_int)
  then show "cdiv (of_nat p) (of_nat q) = of_nat (p div q)" "cmod (of_nat p) (of_nat q) = of_nat (p mod q)"
    by (simp_all add: cdiv_def cmod_def sint)
qed

lemma cdivmod_nat:
  assumes "p < 2147483648"
  shows "cdiv (of_nat p) 512 = of_nat (p div 512)" "cmod (of_nat p) 512 = of_nat (p mod 512)"
  using cdivmod_of_nat [OF assms, of 512] by simp_all

lemma stream_copy_spec:
  assumes "unat n < 2147483648"
  shows "stream_copy buff offset out n m = (\<lambda>a. if a - out < n then buff (a - out + offset) else m a)"
proof -
  define P where "P i m' \<longleftrightarrow> (\<forall>a. m' a = (if a - out < i then buff (a - out + offset) else m a))" for i and m' :: mem
  have "P n (for_u32 0 n (\<lambda>i m. m(out + i := buff (i + offset))) m)"
    by (rule for_u32_invariant [where P = P]) (auto simp: P_def region_step)
  then show ?thesis using assms by (auto simp: stream_copy_def for_s32_eq P_def)
qed

lemma filled_extend:
  assumes "n \<le> t" "t < 4294967296" "\<And>a. a \<in> region stream 4 \<Longrightarrow> t \<le> unat (a - out)"
  shows "st32 (filled data (p + n) (out + of_nat n) (t - n) (st32 (filled data p out n m) stream v)) stream v' =
    st32 (filled data p out t m) stream v'"
proof (rule st32_cong)
  have off: "unat (a - (out + of_nat n)) = (if n \<le> unat (a - out) then unat (a - out) - n
      else unat (a - out) + 4294967296 - n)" for a
  proof -
    have "a - (out + of_nat n) = (a - out) - of_nat n" by simp
    then show ?thesis using assms(1,2) by (simp only: unat_sub_if_size) (simp add: word_size)
  qed
  show "same_outside (region stream 4) (filled data p out t m)
      (filled data (p + n) (out + of_nat n) (t - n) (st32 (filled data p out n m) stream v))"
    unfolding same_outside_def
  proof (intro allI impI)
    fix a assume "a \<notin> region stream 4"
    then have "st32 (filled data p out n m) stream v a = filled data p out n m a"
      using same_outsideD [OF same_outside_st32] by blast
    moreover have "unat (a - (out + of_nat n)) < t - n \<longleftrightarrow> n \<le> unat (a - out) \<and> unat (a - out) < t"
      using assms(1,2) off u32_bound [of "a - out"] by auto
    ultimately show "filled data (p + n) (out + of_nat n) (t - n) (st32 (filled data p out n m) stream v) a =
        filled data p out t m a"
      using assms(1) off [of a] by (auto simp: filled_def)
  qed
qed

text \<open>One round: the part of the request that lies in the sector of the position.\<close>

lemma stream_round:
  assumes "ata_device io xfer data" "p < 2147483648" "ld32 (ram s) stream = of_nat p"
    "ld32 (ram s) (stream + 4) = disk s"
  shows "\<exists>buff d'. disk_read_block io (ld32 (ram s) (stream + 4)) (cdiv (ld32 (ram s) stream) 512) 1 0 (\<lambda>_. 0) s =
      Some (0, buff, s\<lparr>dev := d'\<rparr>) \<and>
    (\<forall>n out m. p mod 512 + n \<le> 512 \<longrightarrow>
       stream_copy buff (of_nat (p mod 512)) out (of_nat n) m = filled data p out n m)"
proof -
  have "unat (of_nat (p div 512) :: u32) < 268435456" using assms(2) by simp
  from disk_read_sector_spec [OF assms(1) this, of 0 "\<lambda>_. 0" "dev s"] obtain d' where
    d: "disk_read_sector io (of_nat (p div 512)) 1 0 (\<lambda>_. 0) (dev s) =
      Some (0, \<lambda>a. if a < 512 then data (of_nat (p div 512)) a else 0, d')" unfolding diff_zero by blast
  define buff where "buff = (\<lambda>a. if a < 512 then data (of_nat (p div 512)) a else 0)"
  have "stream_copy buff (of_nat (p mod 512)) out (of_nat n) m = filled data p out n m"
    if n: "p mod 512 + n \<le> 512" for n out m
  proof
    fix a
    have byte: "buff (a - out + of_nat (p mod 512)) = disk_byte data (p + unat (a - out))" if "unat (a - out) < n"
    proof -
      define j r where "j = unat (a - out)" and "r = p mod 512"
      have r: "r + j < 512" using that n by (simp add: j_def r_def)
      have "p + j = 512 * (p div 512) + (r + j)" by (simp add: r_def)
      then have "(p + j) div 512 = p div 512" "(p + j) mod 512 = r + j"
        using r by (simp_all only: div_mult_self4 mod_mult_self4) simp_all
      moreover have "a - out + of_nat r = of_nat (r + j)" by (simp add: j_def add.commute)
      moreover have "(of_nat (r + j) :: u32) < 512" using r by (simp add: word_less_nat_alt del: of_nat_add)
      ultimately show ?thesis by (simp add: buff_def disk_byte_def j_def r_def del: of_nat_add)
    qed
    then show "stream_copy buff (of_nat (p mod 512)) out (of_nat n) m a = filled data p out n m a"
      using n by (subst stream_copy_spec) (auto simp: filled_def word_less_nat_alt)
  qed
  with d show ?thesis
    using assms(2-4) by (auto simp: disk_read_block_def cdivmod_nat buff_def)
qed

lemma filled_ld32:
  assumes "\<And>a. a \<in> region stream 8 \<Longrightarrow> t \<le> unat (a - out)" "k \<le> t" "region q 4 \<subseteq> region stream 8"
  shows "ld32 (filled data p out k m) q = ld32 m q"
proof (rule ld32_cong)
  fix b assume "b \<in> region q 4"
  then have "t \<le> unat (b - out)" using assms(1,3) by blast
  then show "filled data p out k m b = m b" using assms(2) by (simp add: filled_def)
qed

lemma diskSteamerRead_steps:
  assumes dev: "ata_device io xfer data"
  shows "p + t + 512 < 2147483648 \<Longrightarrow> ld32 (ram s) stream = of_nat p \<Longrightarrow> ld32 (ram s) (stream + 4) = disk s \<Longrightarrow>
    (\<And>a. a \<in> region stream 8 \<Longrightarrow> t \<le> unat (a - out)) \<Longrightarrow>
    \<exists>d'. diskSteamerRead io stream out (of_nat t) s =
      Some (0, s\<lparr>ram := st32 (filled data p out t (ram s)) stream (of_nat (p + t)), dev := d'\<rparr>)"
proof (induction t arbitrary: p out s rule: less_induct)
  case (less t)
  define n where "n = 512 - p mod 512"
  obtain buff d' where
    read: "disk_read_block io (ld32 (ram s) (stream + 4)) (cdiv (ld32 (ram s) stream) 512) 1 0 (\<lambda>_. 0) s =
      Some (0, buff, s\<lparr>dev := d'\<rparr>)" and
    copy: "\<And>n out m. p mod 512 + n \<le> 512 \<Longrightarrow>
       stream_copy buff (of_nat (p mod 512)) out (of_nat n) m = filled data p out n m"
    using stream_round [OF dev _ less.prems(2,3)] less.prems(1) by fastforce
  have ovf: "(512 \<le>s of_nat (p mod 512) + (of_nat t :: u32)) \<longleftrightarrow> n \<le> t"
  proof -
    have "sint (of_nat (p mod 512 + t) :: u32) = int (p mod 512 + t)"
      using less.prems(1) by (intro sint_of_nat_u32) (use mod_less_divisor [of 512 p] in linarith)
    then show ?thesis by (simp add: word_sle_eq n_def) linarith
  qed
  note out = less.prems(4)
  have sub: "region stream 4 \<subseteq> region stream 8" "region (stream + 4) 4 \<subseteq> region stream 8"
    by (auto simp: subset_iff) unat_arith+
  have apart: "region (stream + 4) 4 \<inter> region stream 4 = {}" by (rule region4_disjoint) simp_all
  have n: "0 < n" "n \<le> 512" "p mod 512 + n = 512" by (simp_all add: n_def less_imp_le)
  have keep: "ld32 (filled data p out k (ram s)) stream = of_nat p" 
    "ld32 (filled data p out k (ram s)) (stream + 4) = disk s" if "k \<le> t" for k
    using filled_ld32 [OF out that sub(1)] filled_ld32 [OF out that sub(2)] less.prems(2,3) by simp_all
  have pos: "p < 2147483648" using less.prems(1) by simp
  have small: "p mod 512 + t \<le> 512" if "\<not> n \<le> t" using that n by simp
  note round = Let_def less.prems(2) cdivmod_nat [OF pos] read [unfolded less.prems(2) cdivmod_nat [OF pos]] ovf keep small copy n(3)
  show ?case
  proof (cases "n \<le> t")
    case False
    then show ?thesis
      unfolding diskSteamerRead.simps [of io stream out "of_nat t"] by (intro exI [of _ d']) (simp add: round)
  next
    case True
    define s2 where "s2 = s\<lparr>dev := d', ram := st32 (filled data p out n (ram s)) stream (of_nat (p + n))\<rparr>"
    have "0 <s (of_nat n :: u32)" using n(1,2) by (simp add: word_sless_alt sint_of_nat_u32)
    moreover have "512 - of_nat (p mod 512) = (of_nat n :: u32)" by (simp add: n_def less_imp_le)
    ultimately have len: "0 <s (of_nat n :: u32)" "512 - of_nat (p mod 512) = (of_nat n :: u32)" by blast+
    have "diskSteamerRead io stream out (of_nat t) s = diskSteamerRead io stream (out + of_nat n) (of_nat (t - n)) s2"
      unfolding diskSteamerRead.simps [of io stream out "of_nat t"] using True by (simp add: round len s2_def)
    moreover have "\<exists>d'. diskSteamerRead io stream (out + of_nat n) (of_nat (t - n)) s2 =
      Some (0, s2\<lparr>ram := st32 (filled data (p + n) (out + of_nat n) (t - n) (ram s2)) stream (of_nat (p + n + (t - n))), dev := d'\<rparr>)"
    proof (rule less.IH)
      show "ld32 (ram s2) (stream + 4) = disk s2"
        using keep [OF True] ld32_same_outside [OF same_outside_st32 apart] by (simp add: s2_def)
      fix a assume "a \<in> region stream 8"
      then have "t \<le> unat (a - out)" by (rule out)
      moreover have "a - (out + of_nat n) = (a - out) - of_nat n" by simp
      ultimately show "t - n \<le> unat (a - (out + of_nat n))"
        using True n by (simp only: unat_sub_if_size) (simp add: word_size)
    qed (use n True less.prems(1) in \<open>simp_all add: s2_def\<close>)
    moreover have "st32 (filled data (p + n) (out + of_nat n) (t - n) (ram s2)) stream (of_nat (p + n + (t - n))) =
       st32 (filled data p out t (ram s)) stream (of_nat (p + t))"
    proof -
      have "t < 4294967296" using less.prems(1) by simp
      moreover have "\<And>a. a \<in> region stream 4 \<Longrightarrow> t \<le> unat (a - out)" using out sub(1) by blast
      ultimately show ?thesis using filled_extend [OF True] True by (simp add: s2_def)
    qed
    ultimately show ?thesis by (auto simp: s2_def)
  qed
qed

text \<open>A drive for the witness: it serves a fixed content and is ready at once.\<close>

record model_drive =
  high :: u8
  low :: u8
  mid :: u8
  upper :: u8
  words_taken :: nat

definition model_lba :: "model_drive \<Rightarrow> u32" where
  "model_lba d = ucast (low d) OR push_bit 8 (ucast (mid d)) OR push_bit 16 (ucast (upper d)) OR
     push_bit 24 (ucast (high d)) AND 0x0F000000"

definition model_ports :: "(u32 \<Rightarrow> mem) \<Rightarrow> model_drive ports" where
  "model_ports data = \<lparr>
     insb = (\<lambda>port d. (0x48, d)),
     insw = (\<lambda>port d. (ld16 (data (model_lba d)) (2 * of_nat (words_taken d)), d\<lparr>words_taken := Suc (words_taken d)\<rparr>)),
     outb = (\<lambda>port v d. if port = 0x1F6 then d\<lparr>high := v\<rparr>
        else if port = 0x1F3 then d\<lparr>low := v\<rparr>
        else if port = 0x1F4 then d\<lparr>mid := v\<rparr>
        else if port = 0x1F5 then d\<lparr>upper := v\<rparr>
        else if port = 0x1F7 then d\<lparr>words_taken := 0\<rparr> else d)\<rparr>"

lemma model_lba_bits:
  assumes "unat lba < 268435456"
  shows "ucast (ucast (lba AND 0xff) :: u8) OR push_bit 8 (ucast (ucast (signed_drop_bit 8 lba) :: u8)) OR
     push_bit 16 (ucast (ucast (signed_drop_bit 16 lba) :: u8)) OR
     push_bit 24 (ucast (ucast (signed_drop_bit 24 lba OR 0xE0) :: u8)) AND 0x0F000000 = (lba :: u32)"
proof (rule bit_word_eqI)
  fix n assume "n < LENGTH(32)"
  then have n: "n < 32" by simp
  have high: "\<not> bit lba k" if "28 \<le> k" for k
  proof -
    have "take_bit 28 (unat lba) = unat lba" using assms by (simp add: take_bit_nat_eq_self)
    then have "take_bit 28 lba = lba" by (simp add: word_unat_eq_iff unsigned_take_bit_eq del: take_bit_numeral_1)
    then show ?thesis using that by (metis bit_take_bit_iff not_less)
  qed
  have masks: "(0xff :: u32) = mask 8" "(0x0F000000 :: u32) = push_bit 24 (mask 4)" "(0xE0 :: u32) = push_bit 5 (mask 3)"
    by (simp_all add: mask_eq_exp_minus_1)
  let ?w = "ucast (ucast (lba AND mask 8) :: u8) OR push_bit 8 (ucast (ucast (signed_drop_bit 8 lba) :: u8)) OR
     push_bit 16 (ucast (ucast (signed_drop_bit 16 lba) :: u8)) OR
     push_bit 24 (ucast (ucast (signed_drop_bit 24 lba OR push_bit 5 (mask 3)) :: u8)) AND push_bit 24 (mask 4) :: u32"
  consider "n < 8" | "8 \<le> n" "n < 16" | "16 \<le> n" "n < 24" | "24 \<le> n" "n < 28" | "28 \<le> n" by linarith
  then have "bit ?w n = bit lba n"
    using n high by cases (auto simp: bit_simps bit_signed_drop_bit_iff)
  then show "bit (ucast (ucast (lba AND 0xff) :: u8) OR push_bit 8 (ucast (ucast (signed_drop_bit 8 lba) :: u8)) OR
     push_bit 16 (ucast (ucast (signed_drop_bit 16 lba) :: u8)) OR
     push_bit 24 (ucast (ucast (signed_drop_bit 24 lba OR 0xE0) :: u8)) AND 0x0F000000 :: u32) n = bit lba n"
    unfolding masks .
qed

lemma model_command:
  assumes "unat lba < 268435456"
  shows "model_lba (ata_command (model_ports data) lba 1 d) = lba"
    "words_taken (ata_command (model_ports data) lba 1 d) = 0"
  using model_lba_bits [OF assms]
  by (simp_all add: ata_command_def model_ports_def model_lba_def Let_def)

lemma model_ports_device:
  "ata_device (model_ports data) (\<lambda>d. Some (model_lba d, words_taken d)) data"
proof -
  have "ata_poll (model_ports data) d = Some d" for d
    by (subst ata_poll.simps) (simp add: model_ports_def)
  then show ?thesis
    unfolding ata_device_def by (simp add: model_command) (simp add: model_ports_def model_lba_def)
qed

lemma stream_read:
  assumes "ata_device io xfer data" "ld32 (ram s) stream = of_nat p" "ld32 (ram s) (stream + 4) = disk s"
    "p + t + 512 < 2147483648" "region stream 8 \<inter> region out (of_nat t) = {}"
  shows "\<exists>m d'. diskSteamerRead io stream out (of_nat t) s = Some (0, s\<lparr>ram := m, dev := d'\<rparr>) \<and>
    (\<forall>k < t. m (out + of_nat k) = disk_byte data (p + k)) \<and>
    ld32 m stream = of_nat (p + t) \<and>
    same_outside (region out (of_nat t) \<union> region stream 4) (ram s) m"
proof -
  have far: "t \<le> unat (a - out)" if "a \<in> region stream 8" for a
    using that assms(4,5) by (auto simp: word_less_nat_alt set_eq_iff)
  let ?m = "st32 (filled data p out t (ram s)) stream (of_nat (p + t))"
  have sub: "region stream 4 \<subseteq> region stream 8" by (auto simp: subset_iff) unat_arith
  have out: "out + of_nat k \<notin> region stream 4" if "k < t" for k
    using far [of "out + of_nat k"] sub that assms(4) by auto
  have "?m (out + of_nat k) = disk_byte data (p + k)" if "k < t" for k
    using same_outsideD [OF same_outside_st32 out [OF that]] that assms(4) by (simp add: filled_def)
  moreover have "same_outside (region out (of_nat t)) (ram s) (filled data p out t (ram s))"
    using assms(4) by (auto simp: same_outside_def filled_def word_less_nat_alt)
  moreover obtain d' where "diskSteamerRead io stream out (of_nat t) s = Some (0, s\<lparr>ram := ?m, dev := d'\<rparr>)"
    using diskSteamerRead_steps [OF assms(1,4,2,3) far] by blast
  moreover have "ld32 ?m stream = of_nat (p + t)" by simp
  ultimately show ?thesis
    using same_outside_trans [OF _ same_outside_st32, of "region out (of_nat t)" "ram s"] by blast
qed

definition demo_content :: "u32 \<Rightarrow> mem" where
  "demo_content lba i = ucast (lba * 7 + i)"

definition demo_stream :: "model_drive disk_state" where
  "demo_stream = \<lparr>ram = st32 (st32 (\<lambda>_. 0) 0x2000 1000) 0x2004 0x8000, kernelHeap = kernel_heap,
     current_directory = 0, cr3 = 0, cr0 = 0, video_mem = 0xB8000, terminal_row = 0, terminal_col = 0,
     dev = \<lparr>high = 0, low = 0, mid = 0, upper = 0, words_taken = 0\<rparr>, disk = 0x8000\<rparr>"

text \<open>C9. A read from a stream returns: the buffer then holds the bytes of the disk from the
  stream's position on, however many sectors they span, the position is behind the last byte
  read, and no other memory changes.\<close>

theorem diskSteamerRead_correct:
  assumes "ata_device io xfer data" "ld32 (ram s) stream = of_nat p" "ld32 (ram s) (stream + 4) = disk s"
    "p + t + 512 < 2147483648" "region stream 8 \<inter> region out (of_nat t) = {}"
  shows "\<exists>m d'. diskSteamerRead io stream out (of_nat t) s = Some (0, s\<lparr>ram := m, dev := d'\<rparr>) \<and>
    (\<forall>k < t. m (out + of_nat k) = disk_byte data (p + k)) \<and>
    ld32 m stream = of_nat (p + t) \<and>
    same_outside (region out (of_nat t) \<union> region stream 4) (ram s) m"
  using assms by (rule stream_read)

theorem diskSteamerRead_correct_witness:
  "\<exists>m d'. diskSteamerRead (model_ports demo_content) 0x2000 0x3000 (of_nat 1200) demo_stream =
      Some (0, demo_stream\<lparr>ram := m, dev := d'\<rparr>) \<and>
    (\<forall>k < 1200. m (0x3000 + of_nat k) = disk_byte demo_content (1000 + k)) \<and>
    ld32 m 0x2000 = of_nat (1000 + 1200) \<and>
    same_outside (region 0x3000 (of_nat 1200) \<union> region 0x2000 4) (ram demo_stream) m"
proof (rule diskSteamerRead_correct [OF model_ports_device])
  have "a \<notin> region 0x3000 (of_nat 1200)" if "a \<in> region 0x2000 8" for a :: addr
    using that by (simp add: region_unat del: mem_region)
  then show "region 0x2000 8 \<inter> region 0x3000 (of_nat 1200 :: u32) = {}" by blast
qed (simp_all add: demo_stream_def ld32_st32)

end
