(* ===== verification/Path_Parser.thy ===== *)
theory Path_Parser
  imports Heap CString "HOL-Library.Monad_Syntax"
begin

text \<open>
  Paths: \<^verbatim>\<open>fs/pparser.c\<close>.  A path such as \<^verbatim>\<open>0:/bin/sh\<close> becomes a \<open>path_root\<close> with the drive
  number and a linked list of \<open>path_part\<close>s on the heap; both are two-word structures (\<open>driveNo\<close>
  and \<open>part\<close> at offset 0, \<open>first\<close> and \<open>next\<close> at offset 4).

  The specification splits the characters after the drive: \<open>path_parts\<close>.  \<open>plist\<close> says that a
  linked list in memory holds given parts.  The lemmas show that parsing builds that list in
  fresh pages, that bad paths are refused without a change, and that releasing the list gives
  back every page of it.
\<close>

section \<open>pparser.c\<close>

definition pathparser_path_valid_format :: "mem \<Rightarrow> addr \<Rightarrow> bool" where
  "pathparser_path_valid_format m filename =
     (let len = strnlen m filename PEACHOS_MAX_PATH_LENGTH in
        (3 \<le>s len \<and> isDigit (m filename)) \<and>
        (m (filename + 1) = of_char CHR '':'' \<and> m (filename + 2) = of_char CHR ''/''))"

definition pathparser_get_drive_by_path :: "mem \<Rightarrow> addr \<Rightarrow> u32 \<times> addr" where
  "pathparser_get_drive_by_path m path =
     (if \<not> pathparser_path_valid_format m path then (- EBADPATH, path)
      else (toNumericDigit (m path), path + 3))"

definition pathparser_create_root :: "u32 \<Rightarrow> 'a kheap_state_scheme \<Rightarrow> addr \<times> 'a kheap_state_scheme" where
  "pathparser_create_root driveNumber s =
     (let (pathRoot, s1) = kZalloc 8 s
      in (pathRoot, s1\<lparr>ram := st32 (st32 (ram s1) pathRoot driveNumber) (pathRoot + 4) 0\<rparr>))"

partial_function (option) path_part_loop :: "mem \<Rightarrow> addr \<Rightarrow> addr \<Rightarrow> u32 \<Rightarrow> (mem \<times> addr \<times> u32) option" where
  "path_part_loop m result_path_part path i =
     (if m path \<noteq> of_char CHR ''/'' \<and> m path \<noteq> 0
      then path_part_loop (m(result_path_part + i := m path)) result_path_part (path + 1) (i + 1)
      else Some (m, path, i))"

definition pathparser_get_path_part ::
  "addr \<Rightarrow> 'a kheap_state_scheme \<Rightarrow> (addr \<times> addr \<times> 'a kheap_state_scheme) option" where
  "pathparser_get_path_part path s =
     (let (result_path_part, s1) = kZalloc PEACHOS_MAX_PATH_LENGTH s in
      do {
        (m, path1, i) \<leftarrow> path_part_loop (ram s1) result_path_part path 0;
        let s2 = s1\<lparr>ram := m\<rparr>;
        let path2 = (if m path1 = of_char CHR ''/'' then path1 + 1 else path1);
        if i = 0 then Some (0, path2, kFree result_path_part s2)
        else Some (result_path_part, path2, s2)
      })"

definition pathparser_parse_path_part ::
  "addr \<Rightarrow> addr \<Rightarrow> 'a kheap_state_scheme \<Rightarrow> (addr \<times> addr \<times> 'a kheap_state_scheme) option" where
  "pathparser_parse_path_part last_part path s =
     do {
       (path_part, path1, s1) \<leftarrow> pathparser_get_path_part path s;
       if path_part = 0 then Some (0, path1, s1)
       else
         let (part, s2) = kZalloc 8 s1;
             m1 = st32 (ram s2) part path_part;
             m2 = st32 m1 (part + 4) 0;
             m3 = (if last_part \<noteq> 0 then st32 m2 (last_part + 4) part else m2)
         in Some (part, path1, s2\<lparr>ram := m3\<rparr>)
     }"

partial_function (option) pathparser_free_loop ::
  "addr \<Rightarrow> 'a kheap_state_scheme \<Rightarrow> 'a kheap_state_scheme option" where
  "pathparser_free_loop part s =
     (if part \<noteq> 0
      then pathparser_free_loop (ld32 (ram s) (part + 4)) (kFree part (kFree (ld32 (ram s) part) s))
      else Some s)"

definition pathparser_free :: "addr \<Rightarrow> 'a kheap_state_scheme \<Rightarrow> 'a kheap_state_scheme option" where
  "pathparser_free root s = map_option (kFree root) (pathparser_free_loop (ld32 (ram s) (root + 4)) s)"

partial_function (option) pathparser_parse_loop ::
  "addr \<Rightarrow> addr \<Rightarrow> 'a kheap_state_scheme \<Rightarrow> 'a kheap_state_scheme option" where
  "pathparser_parse_loop part tmp_path s =
     (if part \<noteq> 0
      then do {
        (part', tmp_path', s') \<leftarrow> pathparser_parse_path_part part tmp_path s;
        pathparser_parse_loop part' tmp_path' s'
      }
      else Some s)"

definition pathparser_parse ::
  "addr \<Rightarrow> addr \<Rightarrow> 'a kheap_state_scheme \<Rightarrow> (addr \<times> 'a kheap_state_scheme) option" where
  "pathparser_parse path curr_directory_path s =
     do {
       len \<leftarrow> strlen (ram s) path;
       if PEACHOS_MAX_PATH_LENGTH <s len then Some (0, s)
       else
         let (res, tmp_path) = pathparser_get_drive_by_path (ram s) path in
         if res <s 0 then Some (0, s)
         else
           let (path_root, s1) = pathparser_create_root res s in
           if path_root = 0 then Some (0, s1)
           else do {
             (first_part, tmp_path1, s2) \<leftarrow> pathparser_parse_path_part 0 tmp_path s1;
             if first_part = 0 then Some (path_root, s2)
             else do {
               let s3 = s2\<lparr>ram := st32 (ram s2) (path_root + 4) first_part\<rparr>;
               (part, tmp_path2, s4) \<leftarrow> pathparser_parse_path_part first_part tmp_path1 s3;
               s5 \<leftarrow> pathparser_parse_loop part tmp_path2 s4;
               Some (path_root, s5)
             }
           }
     }"

section \<open>The parts of a path\<close>

definition slash :: u8 where
  "slash = of_char CHR ''/''"

function path_parts :: "u8 list \<Rightarrow> u8 list list" where
  "path_parts xs =
     (let w = takeWhile (\<lambda>c. c \<noteq> slash) xs
      in if w = [] then [] else w # path_parts (drop (Suc (length w)) xs))"
  by pat_completeness auto
termination
  by (relation "measure length") (auto simp: takeWhile_eq_Nil_iff)

declare path_parts.simps [simp del]

text \<open>The list at \<open>p\<close> consists of the nodes and strings \<open>ns\<close> and holds the parts \<open>ws\<close>.\<close>

fun plist :: "mem \<Rightarrow> addr \<Rightarrow> (addr \<times> addr) list \<Rightarrow> u8 list list \<Rightarrow> bool" where
  "plist m p [] [] \<longleftrightarrow> p = 0"
| "plist m p ((q, t) # ns) (w # ws) \<longleftrightarrow>
     p = q \<and> q \<noteq> 0 \<and> ld32 m q = t \<and> cstr m t w \<and> plist m (ld32 m (q + 4)) ns ws"
| "plist m p _ _ \<longleftrightarrow> False"

definition node_pages :: "(addr \<times> addr) list \<Rightarrow> addr list" where
  "node_pages ns = concat (map (\<lambda>(q, t). [t, q]) ns)"

text \<open>The bytes of a string of \<open>n\<close> characters, terminator included.\<close>

definition str_bytes :: "addr \<Rightarrow> nat \<Rightarrow> addr set" where
  "str_bytes p n = {p + of_nat i | i. i \<le> n}"

lemma cstr_cong:
  assumes "cstr m p xs" and "\<And>a. a \<in> str_bytes p (length xs) \<Longrightarrow> m' a = m a"
  shows "cstr m' p xs"
proof -
  have "m' (p + of_nat i) = m (p + of_nat i)" if "i \<le> length xs" for i
    using assms(2) that by (auto simp: str_bytes_def)
  with assms(1) show ?thesis by (simp add: cstr_iff)
qed

lemma cstr_owned:
  "cstr m p xs \<Longrightarrow> str_bytes p (length xs) \<subseteq> A \<Longrightarrow> (\<And>a. a \<in> A \<Longrightarrow> m' a = m a) \<Longrightarrow> cstr m' p xs"
  by (rule cstr_cong) blast+

lemma str_bytes_Suc: "str_bytes (p + 1) n \<subseteq> str_bytes p (Suc n)"
  by (auto simp: str_bytes_def add.assoc) (metis of_nat_Suc Suc_le_mono)

lemma cstr_drop: "cstr m p xs \<Longrightarrow> k \<le> length xs \<Longrightarrow> cstr m (p + of_nat k) (drop k xs)"
  by (induction k arbitrary: p xs) (case_tac xs; fastforce simp: add.assoc)+

section \<open>Reading one part\<close>

text \<open>What the copying loop does, from position \<open>i\<close> of the buffer on.\<close>

lemma path_part_loop_copies:
  assumes "cstr m path xs" and "str_bytes path (length xs) \<inter> region res 4096 = {}"
    and "unat i + length xs < 4096"
  shows "\<exists>m'. path_part_loop m res path i =
      Some (m', path + of_nat (length (takeWhile (\<lambda>c. c \<noteq> slash) xs)),
            i + of_nat (length (takeWhile (\<lambda>c. c \<noteq> slash) xs))) \<and>
    (\<forall>j<length (takeWhile (\<lambda>c. c \<noteq> slash) xs). m' (res + i + of_nat j) = xs ! j) \<and>
    (\<forall>a. (\<forall>j<length (takeWhile (\<lambda>c. c \<noteq> slash) xs). a \<noteq> res + i + of_nat j) \<longrightarrow> m' a = m a)"
  using assms
proof (induction xs arbitrary: m path i)
  case Nil
  then show ?case by (subst path_part_loop.simps) auto
next
  case (Cons x xs)
  show ?case
  proof (cases "x = slash")
    case True
    with Cons.prems show ?thesis by (subst path_part_loop.simps) (auto simp: slash_def)
  next
    case False
    define m1 where "m1 = m(res + i := x)"
    define w where "w = takeWhile (\<lambda>c. c \<noteq> slash) xs"
    have i1: "unat (i + 1) = Suc (unat i)"
      using Cons.prems(3) by (simp add: unat_add_u32)
    have dst: "res + i \<in> region res 4096" using Cons.prems(3) by (simp add: word_less_nat_alt)
    have sub: "str_bytes (path + 1) (length xs) \<subseteq> str_bytes path (length (x # xs))"
      using str_bytes_Suc by simp
    have "cstr m1 (path + 1) xs"
    proof (rule cstr_cong)
      fix a assume "a \<in> str_bytes (path + 1) (length xs)"
      with sub dst Cons.prems(2) show "m1 a = m a" by (auto simp: m1_def)
    qed (use Cons.prems(1) in simp)
    then obtain m' where m': "path_part_loop m1 res (path + 1) (i + 1) =
        Some (m', path + 1 + of_nat (length w), i + 1 + of_nat (length w))"
      "\<forall>j<length w. m' (res + (i + 1) + of_nat j) = xs ! j"
      "\<forall>a. (\<forall>j<length w. a \<noteq> res + (i + 1) + of_nat j) \<longrightarrow> m' a = m1 a"
      using Cons.IH [of m1 "path + 1" "i + 1"] Cons.prems(2,3) sub i1 unfolding w_def by auto
    have "length w \<le> length xs" by (simp add: w_def length_takeWhile_le)
    then have ne: "res + i \<noteq> res + (i + 1) + of_nat j" if "j < length w" for j
    proof -
      have "(of_nat (Suc j) :: u32) \<noteq> 0"
        using that \<open>length w \<le> length xs\<close> Cons.prems(3) of_nat_u32_eq [of "Suc j" 0] by simp
      then show ?thesis by (simp add: add.assoc)
    qed
    have "path_part_loop m res path i = path_part_loop m1 res (path + 1) (i + 1)"
      using Cons.prems(1) False by (subst path_part_loop.simps) (auto simp: m1_def slash_def)
    moreover have "m' (res + i + of_nat j) = (x # xs) ! j" if "j < Suc (length w)" for j
      using that m'(2,3) ne by (cases j) (auto simp: m1_def add.assoc)
    moreover have "m' a = m a" if "\<forall>j<Suc (length w). a \<noteq> res + i + of_nat j" for a
    proof -
      have "a \<noteq> res + i" using that by (auto dest: spec [of _ 0])
      moreover have "a \<noteq> res + (i + 1) + of_nat j" if "j < length w" for j
        using that \<open>\<forall>j<Suc (length w). a \<noteq> res + i + of_nat j\<close>
        by (auto simp: add.assoc dest: spec [of _ "Suc j"])
      ultimately show ?thesis using m'(3) by (simp add: m1_def)
    qed
    ultimately show ?thesis using m'(1) False by (simp add: w_def add.assoc)
  qed
qed

lemma str_bytes_drop:
  assumes "k \<le> n"
  shows "str_bytes (p + of_nat k) (n - k) \<subseteq> str_bytes p n"
proof
  fix a assume "a \<in> str_bytes (p + of_nat k) (n - k)"
  then obtain i where "a = p + of_nat (k + i)" "k + i \<le> n"
    using assms by (auto simp: str_bytes_def add.assoc)
  then show "a \<in> str_bytes p n" unfolding str_bytes_def by blast
qed

text \<open>Where the path continues after a part: behind the slash, or at the terminator.\<close>

lemma path_rest:
  assumes "cstr m path xs"
  defines "n \<equiv> length (takeWhile (\<lambda>c. c \<noteq> slash) xs)"
  defines "path2 \<equiv> (if m (path + of_nat n) = slash then path + of_nat n + 1 else path + of_nat n)"
  shows "cstr m path2 (drop (Suc n) xs)"
    and "str_bytes path2 (length (drop (Suc n) xs)) \<subseteq> str_bytes path (length xs)"
proof -
  have n: "n \<le> length xs" by (simp add: n_def length_takeWhile_le)
  have "cstr m path2 (drop (Suc n) xs) \<and>
      str_bytes path2 (length (drop (Suc n) xs)) \<subseteq> str_bytes path (length xs)"
  proof (cases "n < length xs")
    case True
    then have "xs ! n = slash" using nth_length_takeWhile [of "\<lambda>c. c \<noteq> slash" xs] by (simp add: n_def)
    then have "path2 = path + of_nat (Suc n)"
      using cstr_nth [OF assms(1) True] by (simp add: path2_def add.assoc add.commute [of 1])
    with True cstr_drop [OF assms(1), of "Suc n"] str_bytes_drop [of "Suc n" "length xs" path]
    show ?thesis by simp
  next
    case False
    then have "n = length xs" using n by simp
    then have "path2 = path + of_nat (length xs)"
      using cstr_end [OF assms(1)] by (simp add: path2_def slash_def)
    with False cstr_end [OF assms(1)] show ?thesis by (auto simp: str_bytes_def)
  qed
  then show "cstr m path2 (drop (Suc n) xs)"
    "str_bytes path2 (length (drop (Suc n) xs)) \<subseteq> str_bytes path (length xs)" by simp_all
qed

lemma get_path_part_spec:
  assumes "kheap_inv s" "0 < kheap_free s" "cstr (ram s) path xs"
    "str_bytes path (length xs) \<subseteq> kheap_owned s" "length xs < 108"
  defines "w \<equiv> takeWhile (\<lambda>c. c \<noteq> slash) xs" and "t \<equiv> fst (kZalloc 108 s)"
  shows "\<exists>path2 s1. pathparser_get_path_part path s = Some (if w = [] then 0 else t, path2, s1) \<and>
    kp.grows s s1 (if w = [] then [] else [t]) {} \<and> (w \<noteq> [] \<longrightarrow> cstr (ram s1) t w) \<and>
    cstr (ram s1) path2 (drop (Suc (length w)) xs) \<and>
    str_bytes path2 (length (drop (Suc (length w)) xs)) \<subseteq> str_bytes path (length xs)"
proof -
  define s0 where "s0 = snd (kZalloc 108 s)"
  have fresh: "region t 4096 \<inter> kheap_owned s = {}"
    using kz.alloc_fresh [OF assms(1) _ _ assms(2), of 108] by (simp add: t_def)
  have keep0: "ram s0 a = ram s a" if "a \<in> kheap_owned s" for a
    using kz.alloc_keeps [OF assms(1) _ _ assms(2) that, of 108] by (simp add: s0_def)
  have str0: "cstr (ram s0) path xs" using assms(3,4) keep0 by (rule cstr_owned)
  have "str_bytes path (length xs) \<inter> region t 4096 = {}" using assms(4) fresh by blast
  from path_part_loop_copies [OF str0 this, of 0] obtain m where
    loop: "path_part_loop (ram s0) t path 0 = Some (m, path + of_nat (length w), of_nat (length w))"
    and copy: "\<And>j. j < length w \<Longrightarrow> m (t + of_nat j) = xs ! j"
    and other: "\<And>a. (\<forall>j<length w. a \<noteq> t + of_nat j) \<Longrightarrow> m a = ram s0 a"
    using assms(5) by (auto simp: w_def)
  have len: "length w \<le> length xs" "length w < 108"
    using assms(5) length_takeWhile_le [of "\<lambda>c. c \<noteq> slash" xs] by (simp_all add: w_def)
  have out: "same_outside (region t 4096) (ram s0) m"
    unfolding same_outside_def
  proof (intro allI impI other)
    fix a j assume "a \<notin> region t 4096" "j < length w"
    then show "a \<noteq> t + of_nat j" using len(2) by (auto simp: word_less_nat_alt)
  qed
  define s1 where "s1 = s\<lparr>ram := m\<rparr>"
  have g: "kp.grows s s1 [t] {}"
    using kp.grows_alloc [OF assms(1) _ _ assms(2), of 108 "{}" m] out
    by (simp add: s1_def t_def s0_def)
  have keep: "m a = ram s a" if "a \<in> kheap_owned s" for a
    using kp.grows_keeps [OF g that] by (simp add: s1_def)
  have str: "cstr m path xs" using assms(3,4) keep by (rule cstr_owned)
  note rest = path_rest [OF str, folded w_def]
  define path2 where "path2 = (if m (path + of_nat (length w)) = slash
    then path + of_nat (length w) + 1 else path + of_nat (length w))"
  have zero: "(of_nat (length w) :: u32) = 0 \<longleftrightarrow> w = []"
    using of_nat_u32_eq [of "length w" 0] len(2) by simp
  have run: "pathparser_get_path_part path s =
      (if w = [] then Some (0, path2, kFree t s1) else Some (t, path2, s1))"
    using loop zero
    by (simp add: pathparser_get_path_part_def t_def s0_def s1_def path2_def slash_def
        case_prod_beta Let_def kz.set_alloc)
  show ?thesis
  proof (cases "w = []")
    case True
    have g': "kp.grows s (kFree t s1) [] {}" using kp.grows_release [OF g] by simp
    have "ram (kFree t s1) a = m a" if "a \<in> kheap_owned s" for a
      using kp.grows_keeps [OF g' that] keep [OF that] by simp
    then have "cstr (ram (kFree t s1)) path2 (drop (Suc (length w)) xs)"
      using rest(1) [folded path2_def] order_trans [OF rest(2) [folded path2_def] assms(4)] by (rule cstr_owned [rotated -1])
    with True run g' rest(2) show ?thesis by (auto simp: path2_def)
  next
    case False
    have nth: "xs ! j = w ! j" if "j < length w" for j using takeWhile_nth that by (metis w_def)
    have "t + of_nat (length w) \<noteq> t + of_nat j" if "j < length w" for j
      using that len(2) by (simp add: of_nat_u32_eq)
    then have "m (t + of_nat (length w)) = ram s0 (t + of_nat (length w))" using other by blast
    also have "\<dots> = 0"
      using kz.alloc_zeroed [OF assms(1) _ _ assms(2), of 108 "t + of_nat (length w)"] len(2)
      by (simp add: s0_def t_def word_less_nat_alt)
    finally have "cstr m t w"
      using copy nth str by (auto simp: cstr_iff w_def dest: set_takeWhileD)
    with False run g rest show ?thesis by (auto simp: path2_def s1_def)
  qed
qed

lemma str_bytes_page: "n < 4096 \<Longrightarrow> str_bytes t n \<subseteq> region t 4096"
  by (auto simp: str_bytes_def word_less_nat_alt)

text \<open>Appending a node for the next part behind \<open>last\<close>.\<close>

lemma link_node:
  assumes "kheap_inv s" "0 < kheap_free s" "kheap_page s t" "prv = 0 \<or> kheap_page s prv"
  defines "part \<equiv> fst (kZalloc 8 s)"
  defines "m2 \<equiv> st32 (st32 (ram (snd (kZalloc 8 s))) part t) (part + 4) 0"
  defines "m3 \<equiv> (if prv \<noteq> 0 then st32 m2 (prv + 4) part else m2)"
  shows "kp.grows s (s\<lparr>ram := m3\<rparr>) [part] (if prv = 0 then {} else region (prv + 4) 4)"
    and "part \<noteq> 0" "ld32 m3 part = t" "ld32 m3 (part + 4) = 0" "prv \<noteq> 0 \<Longrightarrow> ld32 m3 (prv + 4) = part"
proof -
  let ?D = "if prv = 0 then {} else region (prv + 4) 4"
  have part: "part \<noteq> 0" "page_aligned part" "region part 4096 \<inter> kheap_owned s = {}"
    using kz.alloc_page [OF assms(1) _ _ assms(2), of 8] kz.alloc_fresh [OF assms(1) _ _ assms(2), of 8]
    by (simp_all add: part_def)
  have prv: "page_aligned prv" "region prv 4096 \<subseteq> kheap_owned s" if "prv \<noteq> 0"
    using kp.page_owned [OF assms(1), of prv] assms(4) that by auto
  have ne: "prv \<noteq> part"
  proof
    assume "prv = part"
    with prv part have "region part 4096 = {}" by auto
    then show False using mem_region [of part part 4096] by simp
  qed
  have "same_outside (region part 4096) (ram (snd (kZalloc 8 s))) m2"
    unfolding m2_def using pair_subset [OF part(2)]
    by (intro same_outside_trans [OF same_outside_st32 same_outside_st32])
  then have "same_outside (region part 4096 \<union> ?D) (ram (snd (kZalloc 8 s))) m3"
    unfolding m3_def using same_outside_st32
    by (auto intro: same_outside_trans elim: same_outside_mono)
  moreover have "?D \<subseteq> kheap_owned s" using prv pair_subset(2) [of prv] by auto
  ultimately show "kp.grows s (s\<lparr>ram := m3\<rparr>) [part] ?D"
    using kp.grows_alloc [OF assms(1) _ _ assms(2), of 8 ?D m3] by (simp add: part_def)
  show "part \<noteq> 0" by (rule part)
  show "ld32 m3 part = t" "ld32 m3 (part + 4) = 0" "prv \<noteq> 0 \<Longrightarrow> ld32 m3 (prv + 4) = part"
    using part(2) prv(1) ne by (simp_all add: m3_def m2_def pair_words)
qed

lemma parse_path_part_spec:
  assumes "kheap_inv s" "2 \<le> kheap_free s" "cstr (ram s) path xs"
    "str_bytes path (length xs) \<subseteq> kheap_owned s" "length xs < 108"
    "prv = 0 \<or> kheap_page s prv \<and> str_bytes path (length xs) \<inter> region prv 4096 = {}"
  defines "w \<equiv> takeWhile (\<lambda>c. c \<noteq> slash) xs"
  shows "\<exists>part path2 s1. pathparser_parse_path_part prv path s = Some (part, path2, s1) \<and>
    cstr (ram s1) path2 (drop (Suc (length w)) xs) \<and>
    str_bytes path2 (length (drop (Suc (length w)) xs)) \<subseteq> str_bytes path (length xs) \<and>
    (w = [] \<longrightarrow> part = 0 \<and> kp.grows s s1 [] {}) \<and>
    (w \<noteq> [] \<longrightarrow> (\<exists>t. kp.grows s s1 [t, part] (if prv = 0 then {} else region (prv + 4) 4) \<and>
       part \<noteq> 0 \<and> ld32 (ram s1) part = t \<and> ld32 (ram s1) (part + 4) = 0 \<and>
       (prv \<noteq> 0 \<longrightarrow> ld32 (ram s1) (prv + 4) = part) \<and> cstr (ram s1) t w))"
proof -
  define t where "t = fst (kZalloc 108 s)"
  have "0 < kheap_free s" using assms(2) by simp
  from get_path_part_spec [OF assms(1) this assms(3-5), folded w_def t_def] obtain path2 s1 where
    get: "pathparser_get_path_part path s = Some (if w = [] then 0 else t, path2, s1)"
    and g: "kp.grows s s1 (if w = [] then [] else [t]) {}" and str: "w \<noteq> [] \<Longrightarrow> cstr (ram s1) t w"
    and rest: "cstr (ram s1) path2 (drop (Suc (length w)) xs)"
      "str_bytes path2 (length (drop (Suc (length w)) xs)) \<subseteq> str_bytes path (length xs)" by auto
  show ?thesis
  proof (cases "w = []")
    case True
    with get g rest show ?thesis by (simp add: pathparser_parse_path_part_def)
  next
    case False
    have s1: "kheap_inv s1" "0 < kheap_free s1" "kheap_page s1 t" "prv = 0 \<or> kheap_page s1 prv"
      "kheap_owned s \<subseteq> kheap_owned s1" "region t 4096 \<inter> kheap_owned s = {}" "region t 4096 \<subseteq> kheap_owned s1"
      using g False assms(2,6) by (auto simp: kp.grows_def simp del: mem_region)
    have tn: "t \<noteq> 0" using kp.page_owned [OF s1(1,3)] by simp
    define part where "part = fst (kZalloc 8 s1)"
    define m2 where "m2 = st32 (st32 (ram (snd (kZalloc 8 s1))) part t) (part + 4) 0"
    define m3 where "m3 = (if prv \<noteq> 0 then st32 m2 (prv + 4) part else m2)"
    note l = link_node [OF s1(1-4), folded part_def, folded m2_def, folded m3_def]
    have run: "pathparser_parse_path_part prv path s = Some (part, path2, s1\<lparr>ram := m3\<rparr>)"
      using get False tn
      by (simp add: pathparser_parse_path_part_def part_def m3_def m2_def case_prod_beta Let_def kz.set_alloc)
    have prvD: "(if prv = 0 then {} else region (prv + 4) 4) \<subseteq> kheap_owned s"
      "str_bytes path (length xs) \<inter> (if prv = 0 then {} else region (prv + 4) 4) = {}"
      using assms(6) kp.page_owned [OF assms(1), of prv] pair_subset(2) [of prv] by auto
    have keep: "m3 a = ram s1 a" if "a \<in> kheap_owned s1" "a \<notin> (if prv = 0 then {} else region (prv + 4) 4)" for a
      using kp.grows_keeps [OF l(1) that] by simp
    have "length w < 4096" using assms(5) length_takeWhile_le [of "\<lambda>c. c \<noteq> slash" xs] by (simp add: w_def)
    have "cstr m3 t w"
    proof (rule cstr_owned [OF str [OF False] str_bytes_page [OF \<open>length w < 4096\<close>]])
      fix a assume "a \<in> region t 4096"
      with s1(6,7) prvD(1) show "m3 a = ram s1 a" by (intro keep) blast+
    qed
    moreover have "cstr m3 path2 (drop (Suc (length w)) xs)"
    proof (rule cstr_owned [OF rest])
      fix a assume "a \<in> str_bytes path (length xs)"
      with assms(4) s1(5) prvD(2) show "m3 a = ram s1 a" by (intro keep) blast+
    qed
    moreover have "kp.grows s (s1\<lparr>ram := m3\<rparr>) [t, part] (if prv = 0 then {} else region (prv + 4) 4)"
      using kp.grows_trans [OF g l(1)] False by simp
    ultimately show ?thesis using run rest(2) l False by auto
  qed
qed

section \<open>The whole list\<close>

lemma grows_ld32:
  assumes "kp.grows s s1 ps D" and "page_aligned p" and "region p 4096 \<subseteq> kheap_owned s"
    and "region p 4096 \<inter> D = {}"
  shows "ld32 (ram s1) p = ld32 (ram s) p" "ld32 (ram s1) (p + 4) = ld32 (ram s) (p + 4)"
proof -
  have "ram s1 a = ram s a" if "a \<in> region p 4096" for a
    using kp.grows_keeps [OF assms(1)] assms(3,4) that by blast
  then have "ld32 (ram s1) (p + 4 * k) = ld32 (ram s) (p + 4 * k)" if "k < 1024" for k
    using assms(2) that by (intro ld32_page_cong [where A = "region p 4096"]) auto
  from this [of 0] this [of 1] show "ld32 (ram s1) p = ld32 (ram s) p"
    "ld32 (ram s1) (p + 4) = ld32 (ram s) (p + 4)" by simp_all
qed

lemma grows_ld32_first:
  assumes "kp.grows s s1 ps (region (p + 4) 4)" and "page_aligned p" and "region p 4096 \<subseteq> kheap_owned s"
  shows "ld32 (ram s1) p = ld32 (ram s) p"
proof (rule ld32_cong)
  fix a assume a: "a \<in> region p 4"
  have "region p 4 \<inter> region (p + 4) 4 = {}" by (rule region4_disjoint) simp_all
  with a have "a \<notin> region (p + 4) 4" by blast
  moreover have "a \<in> kheap_owned s" using a pair_subset(1) [OF assms(2)] assms(3) by blast
  ultimately show "ram s1 a = ram s a" using kp.grows_keeps [OF assms(1)] by blast
qed

text \<open>A node whose list is completed later keeps its own contents.\<close>

lemma plist_head:
  assumes "kp.grows s1 s2 ps (region (q + 4) 4)" "kheap_page s1 q" "kheap_page s1 t" "t \<noteq> q"
    "ld32 (ram s1) q = t" "cstr (ram s1) t w" "length w < 4096"
    "plist (ram s2) (ld32 (ram s2) (q + 4)) ns ws"
  shows "plist (ram s2) q ((q, t) # ns) (w # ws)"
proof -
  have "kheap_inv s1" using assms(1) by (simp add: kp.grows_def)
  note own = kp.page_owned [OF this assms(2)] kp.page_owned [OF this assms(3)]
  have "region t 4096 \<inter> region (q + 4) 4 = {}"
    using pages_disjoint [of t q] pair_subset(2) [of q] own assms(4) by blast
  then have "cstr (ram s2) t w"
    using kp.grows_keeps [OF assms(1)] own
    by (intro cstr_owned [OF assms(6) str_bytes_page [OF assms(7)]]) blast
  moreover have "ld32 (ram s2) q = t" using grows_ld32_first [OF assms(1)] own(1) assms(5) by simp
  ultimately show ?thesis using own(1) assms(8) by simp
qed

lemma path_parts_Nil: "takeWhile (\<lambda>c. c \<noteq> slash) xs = [] \<Longrightarrow> path_parts xs = []"
  by (subst path_parts.simps) simp

lemma path_parts_Cons:
  "takeWhile (\<lambda>c. c \<noteq> slash) xs = w \<Longrightarrow> w \<noteq> [] \<Longrightarrow> path_parts xs = w # path_parts (drop (Suc (length w)) xs)"
  by (subst path_parts.simps) (simp add: Let_def)

lemma parse_loop_spec:
  assumes "kheap_inv s" "2 + 2 * length (path_parts xs) \<le> kheap_free s" "cstr (ram s) path xs"
    "str_bytes path (length xs) \<subseteq> kheap_owned s" "length xs < 108"
    "kheap_page s part" "str_bytes path (length xs) \<inter> region part 4096 = {}"
    "ld32 (ram s) (part + 4) = 0"
  shows "\<exists>s1 ns. pathparser_parse_loop part path s = Some s1 \<and>
    kp.grows s s1 (node_pages ns) (region (part + 4) 4) \<and>
    plist (ram s1) (ld32 (ram s1) (part + 4)) ns (path_parts xs)"
  using assms
proof (induction xs arbitrary: s path part rule: length_induct)
  case (1 xs)
  define w where "w = takeWhile (\<lambda>c. c \<noteq> slash) xs"
  have pg: "part \<noteq> 0" "page_aligned part" "region part 4096 \<subseteq> kheap_owned s"
    using kp.page_owned [OF "1.prems"(1,6)] by auto
  have "2 \<le> kheap_free s" "part = 0 \<or> kheap_page s part \<and> str_bytes path (length xs) \<inter> region part 4096 = {}"
    using "1.prems" by auto
  from parse_path_part_spec [OF "1.prems"(1) this(1) "1.prems"(3-5) this(2), folded w_def]
  obtain part' path2 s1 where run: "pathparser_parse_path_part part path s = Some (part', path2, s1)"
    and rest: "cstr (ram s1) path2 (drop (Suc (length w)) xs)"
      "str_bytes path2 (length (drop (Suc (length w)) xs)) \<subseteq> str_bytes path (length xs)"
    and empty: "w = [] \<Longrightarrow> part' = 0 \<and> kp.grows s s1 [] {}"
    and more: "w \<noteq> [] \<Longrightarrow> \<exists>t. kp.grows s s1 [t, part'] (region (part + 4) 4) \<and> part' \<noteq> 0 \<and>
      ld32 (ram s1) part' = t \<and> ld32 (ram s1) (part' + 4) = 0 \<and> ld32 (ram s1) (part + 4) = part' \<and>
      cstr (ram s1) t w"
    using pg(1) by auto
  have step: "pathparser_parse_loop part path s = pathparser_parse_loop part' path2 s1"
    using run pg(1) by (subst pathparser_parse_loop.simps) simp
  show ?case
  proof (cases "w = []")
    case True
    then have "pathparser_parse_loop part path s = Some s1" and g: "kp.grows s s1 [] {}"
      using empty step by (simp_all add: pathparser_parse_loop.simps [of 0])
    moreover have "ld32 (ram s1) (part + 4) = 0" using grows_ld32(2) [OF g pg(2,3)] "1.prems"(8) by simp
    moreover have "path_parts xs = []" using True by (simp add: path_parts_Nil w_def)
    ultimately show ?thesis
      using kp.grows_mono [OF g] by (intro exI [of _ s1] exI [of _ "[]"]) (simp add: node_pages_def)
  next
    case False
    then obtain t where g: "kp.grows s s1 [t, part'] (region (part + 4) 4)" and p': "part' \<noteq> 0"
      "ld32 (ram s1) part' = t" "ld32 (ram s1) (part' + 4) = 0" "ld32 (ram s1) (part + 4) = part'"
      "cstr (ram s1) t w" using more by blast
    have parts: "path_parts xs = w # path_parts (drop (Suc (length w)) xs)"
      using False by (simp add: path_parts_Cons w_def)
    have s1: "kheap_inv s1" "kheap_free s = kheap_free s1 + 2" "kheap_page s1 part'" "kheap_page s1 t"
      "kheap_owned s \<subseteq> kheap_owned s1" "region part' 4096 \<inter> kheap_owned s = {}"
      "region t 4096 \<inter> kheap_owned s = {}" "t \<noteq> part'"
      using g by (auto simp: kp.grows_def simp del: mem_region)
    note own1 = kp.page_owned [OF s1(1,3)] kp.page_owned [OF s1(1,4)]
    let ?r = "drop (Suc (length w)) xs"
    have "length ?r < length xs" using False by (cases xs) (auto simp: w_def)
    then obtain s2 ns where s2: "pathparser_parse_loop part' path2 s1 = Some s2"
      "kp.grows s1 s2 (node_pages ns) (region (part' + 4) 4)"
      "plist (ram s2) (ld32 (ram s2) (part' + 4)) ns (path_parts ?r)"
      using "1.IH" [rule_format, of ?r s1 path2 part'] s1 p' rest "1.prems"(2,4,5) parts by auto blast
    have sub': "region (part' + 4) 4 \<subseteq> region part' 4096" using own1 pair_subset(2) by blast
    have "part \<noteq> part'" using fresh_page_neq [OF pg(3) s1(6)] .
    then have "region part 4096 \<inter> region (part' + 4) 4 = {}"
      using pages_disjoint [OF pg(2), of part'] own1(1) sub' by blast
    then have "ld32 (ram s2) (part + 4) = part'"
      using grows_ld32(2) [OF s2(2) pg(2)] p'(4) pg(3) s1(5) by auto
    moreover have "length w < 4096"
      using "1.prems"(5) length_takeWhile_le [of "\<lambda>c. c \<noteq> slash" xs] by (simp add: w_def)
    then have "plist (ram s2) part' ((part', t) # ns) (path_parts xs)"
      unfolding parts using p' s1 s2 by (intro plist_head [OF s2(2)])
    moreover have "kp.grows s s2 ([t, part'] @ node_pages ns) (region (part + 4) 4)"
      by (rule kp.grows_mono [OF kp.grows_trans [OF g s2(2)]]) (use sub' s1(6) in blast)
    then have "kp.grows s s2 (node_pages ((part', t) # ns)) (region (part + 4) 4)"
      by (simp add: node_pages_def)
    ultimately show ?thesis
      using step s2(1) by (intro exI [of _ s2] exI [of _ "(part', t) # ns"]) simp
  qed
qed

section \<open>Parsing\<close>

lemma digit_value:
  assumes "isDigit d"
  shows "\<not> toNumericDigit d <s 0"
proof -
  have "48 \<le> sint d" "sint d \<le> 57" using assms by (simp_all add: isDigit_def word_sle_eq)
  moreover have "sint (scast d :: u32) = sint d" by (rule sint_up_scast) (simp add: is_up)
  ultimately have "sint (scast d - 48 :: u32) = sint d - 48"
    by (simp add: sint_word_ariths signed_take_bit_int_eq_self_iff)
  with \<open>48 \<le> sint d\<close> show ?thesis by (simp add: toNumericDigit_def word_sless_alt)
qed

lemma create_root_spec:
  assumes "kheap_inv s" "0 < kheap_free s"
  shows "\<exists>root s1. pathparser_create_root drv s = (root, s1) \<and> kp.grows s s1 [root] {} \<and> root \<noteq> 0 \<and>
    ld32 (ram s1) root = drv \<and> ld32 (ram s1) (root + 4) = 0"
proof -
  define root where "root = fst (kZalloc 8 s)"
  define m where "m = st32 (st32 (ram (snd (kZalloc 8 s))) root drv) (root + 4) 0"
  have root: "root \<noteq> 0" "page_aligned root"
    using kz.alloc_page [OF assms(1) _ _ assms(2), of 8] by (simp_all add: root_def)
  have "same_outside (region root 4096) (ram (snd (kZalloc 8 s))) m"
    unfolding m_def using pair_subset [OF root(2)]
    by (intro same_outside_trans [OF same_outside_st32 same_outside_st32])
  then have "kp.grows s (s\<lparr>ram := m\<rparr>) [root] {}"
    using kp.grows_alloc [OF assms(1) _ _ assms(2), of 8 "{}" m] by (simp add: root_def)
  moreover have "pathparser_create_root drv s = (root, s\<lparr>ram := m\<rparr>)"
    by (simp add: pathparser_create_root_def root_def m_def case_prod_beta kz.set_alloc)
  ultimately show ?thesis using root by (simp add: m_def pair_words)
qed

text \<open>A path of the right form gets past the checks of \<open>pathparser_parse\<close>.\<close>

lemma parse_checks:
  assumes "cstr m path (d # of_char CHR '':'' # slash # xs)" "isDigit d" "length xs \<le> 105"
  shows "strlen m path = Some (of_nat (3 + length xs))" "\<not> 108 <s (of_nat (3 + length xs) :: u32)"
    "pathparser_get_drive_by_path m path = (toNumericDigit d, path + 3)"
    "cstr m (path + 3) xs"
proof -
  have s: "m path = d" "m (path + 1) = of_char CHR '':''" "m (path + 2) = slash" "cstr m (path + 3) xs"
    using assms(1) by (auto simp: add.assoc)
  then show "cstr m (path + 3) xs" by simp
  show "strlen m path = Some (of_nat (3 + length xs))" using strlen_cstr [OF assms(1)] by simp
  have len: "strnlen m path 108 = of_nat (3 + length xs)"
    using strnlen_cstr [OF assms(1), of 108] assms(3) by simp
  have small: "(of_nat (3 + length xs) :: u32) <s 109" "2 <s (of_nat (3 + length xs) :: u32)"
    using of_nat_u32_sless [of "3 + length xs" 109] of_nat_u32_sless [of 2 "3 + length xs"] assms(3)
    by simp_all
  then show "\<not> 108 <s (of_nat (3 + length xs) :: u32)" by (simp add: word_sless_alt del: of_nat_add)
  have "3 \<le>s (of_nat (3 + length xs) :: u32)" using small(2) by (simp add: word_sless_alt word_sle_eq del: of_nat_add)
  then show "pathparser_get_drive_by_path m path = (toNumericDigit d, path + 3)"
    using s assms(2) len
    by (simp add: pathparser_get_drive_by_path_def pathparser_path_valid_format_def slash_def del: of_nat_add)
qed

text \<open>The first node is hung into the root, then the rest of the list is built behind it.\<close>

lemma attach_first:
  assumes "kheap_inv s" "kheap_page s root" "kheap_page s q" "kheap_page s t" "root \<noteq> q" "root \<noteq> t" "t \<noteq> q"
    "ld32 (ram s) q = t" "ld32 (ram s) (q + 4) = 0" "cstr (ram s) t w" "length w < 4096"
    "cstr (ram s) path xs" "str_bytes path (length xs) \<subseteq> kheap_owned s" "length xs < 108"
    "str_bytes path (length xs) \<inter> (region root 4096 \<union> region q 4096) = {}"
    "2 + 2 * length (path_parts xs) \<le> kheap_free s"
  shows "\<exists>s' ns. pathparser_parse_loop q path (s\<lparr>ram := st32 (ram s) (root + 4) q\<rparr>) = Some s' \<and>
    kp.grows s s' (node_pages ns) (region (root + 4) 4 \<union> region (q + 4) 4) \<and>
    ld32 (ram s') root = ld32 (ram s) root \<and>
    plist (ram s') (ld32 (ram s') (root + 4)) ((q, t) # ns) (w # path_parts xs)"
proof -
  define s3 where "s3 = s\<lparr>ram := st32 (ram s) (root + 4) q\<rparr>"
  note r = kp.page_owned [OF assms(1,2)] and q = kp.page_owned [OF assms(1,3)] and t = kp.page_owned [OF assms(1,4)]
  have g3: "kp.grows s s3 [] (region (root + 4) 4)"
    unfolding s3_def using pair_subset(2) [of root] r
    by (intro kp.grows_write assms(1) same_outside_st32) auto
  have s3: "kheap_inv s3" "kheap_page s3 root" "kheap_page s3 q" "kheap_page s3 t" "kheap_owned s3 = kheap_owned s"
    "kheap_free s3 = kheap_free s"
    using g3 assms(2-4) by (auto simp: kp.grows_def)
  have root4: "region (root + 4) 4 \<subseteq> region root 4096" using pair_subset(2) r by blast
  have apart: "region p 4096 \<inter> region (root + 4) 4 = {}" if "page_aligned p" "p \<noteq> root" for p
    using pages_disjoint [OF that(1), of root] that(2) r root4 by blast
  have kept: "ram s3 a = ram s a" if "a \<in> kheap_owned s" "a \<notin> region root 4096" for a
    using kp.grows_keeps [OF g3 that(1)] root4 that(2) by blast
  have q3: "ld32 (ram s3) q = t" "ld32 (ram s3) (q + 4) = 0"
    using grows_ld32 [OF g3 _ _ apart [of q]] q assms(5,8,9) by auto
  have t3: "cstr (ram s3) t w"
  proof (rule cstr_owned [OF assms(10) str_bytes_page [OF assms(11)]])
    fix a assume "a \<in> region t 4096"
    then show "ram s3 a = ram s a" using kept t pages_disjoint [of t root] assms(6) r by blast
  qed
  have p3: "cstr (ram s3) path xs"
  proof (rule cstr_owned [OF assms(12) order_refl])
    fix a assume "a \<in> str_bytes path (length xs)"
    then show "ram s3 a = ram s a" using kept assms(13,15) by blast
  qed
  have "2 + 2 * length (path_parts xs) \<le> kheap_free s3" "str_bytes path (length xs) \<subseteq> kheap_owned s3"
    "str_bytes path (length xs) \<inter> region q 4096 = {}"
    using s3 assms(13,15,16) by auto
  from parse_loop_spec [OF s3(1) this(1) p3 this(2) assms(14) s3(3) this(3) q3(2)] obtain s' ns where
    loop: "pathparser_parse_loop q path s3 = Some s'" and g: "kp.grows s3 s' (node_pages ns) (region (q + 4) 4)"
    and pl: "plist (ram s') (ld32 (ram s') (q + 4)) ns (path_parts xs)" by blast
  have "region root 4096 \<inter> region (q + 4) 4 = {}"
    using pages_disjoint [of root q] pair_subset(2) [of q] r q assms(5) by blast
  then have "ld32 (ram s') root = ld32 (ram s3) root" "ld32 (ram s') (root + 4) = ld32 (ram s3) (root + 4)"
    using grows_ld32 [OF g, of root] r s3(5) by auto
  then have "ld32 (ram s') root = ld32 (ram s) root" "ld32 (ram s') (root + 4) = q"
    using r by (simp_all add: s3_def pair_words)
  moreover have "plist (ram s') q ((q, t) # ns) (w # path_parts xs)"
    by (rule plist_head [OF g s3(3,4) assms(7) q3(1) t3 assms(11) pl])
  ultimately show ?thesis
    using loop kp.grows_trans [OF g3 g] by (intro exI [of _ s'] exI [of _ ns]) (simp add: s3_def)
qed

lemma bind_pair:
  "Option.bind x (\<lambda>(a, b, c). Option.bind (f a b c) (\<lambda>y. Some (r, y))) =
   map_option (Pair r) (Option.bind x (\<lambda>(a, b, c). f a b c))"
  by (cases x) (auto simp: map_conv_bind_option comp_def split: prod.splits)

lemma parse_start:
  assumes "kheap_inv s" "cstr (ram s) path (d # of_char CHR '':'' # slash # xs)" "isDigit d" "length xs \<le> 105"
    "str_bytes path (3 + length xs) \<subseteq> kheap_owned s" "3 \<le> kheap_free s"
  defines "w \<equiv> takeWhile (\<lambda>c. c \<noteq> slash) xs"
  obtains root s1 first tmp1 s2 where
    "kp.grows s s1 [root] {}" "root \<noteq> 0" "ld32 (ram s1) root = toNumericDigit d" "ld32 (ram s1) (root + 4) = 0"
    "cstr (ram s2) tmp1 (drop (Suc (length w)) xs)"
    "str_bytes tmp1 (length (drop (Suc (length w)) xs)) \<subseteq> kheap_owned s"
    "w = [] \<longrightarrow> first = 0 \<and> kp.grows s1 s2 [] {}"
    "w \<noteq> [] \<longrightarrow> (\<exists>t. kp.grows s1 s2 [t, first] {} \<and> first \<noteq> 0 \<and>
      ld32 (ram s2) first = t \<and> ld32 (ram s2) (first + 4) = 0 \<and> cstr (ram s2) t w)"
    "pathparser_parse path cur s = (if first = 0 then Some (root, s2)
       else map_option (Pair root)
         (pathparser_parse_loop first tmp1 (s2\<lparr>ram := st32 (ram s2) (root + 4) first\<rparr>)))"
proof -
  note chk = parse_checks [OF assms(2-4)]
  have "0 < kheap_free s" using assms(6) by simp
  from create_root_spec [OF assms(1) this] obtain root s1 where
    cr: "pathparser_create_root (toNumericDigit d) s = (root, s1)" and g1: "kp.grows s s1 [root] {}"
    and root: "root \<noteq> 0" "ld32 (ram s1) root = toNumericDigit d" "ld32 (ram s1) (root + 4) = 0" by blast
  have s1: "kheap_inv s1" "kheap_free s = kheap_free s1 + 1" "kheap_owned s \<subseteq> kheap_owned s1"
    using g1 by (auto simp: kp.grows_def simp del: mem_region)
  have sub: "str_bytes (path + 3) (length xs) \<subseteq> kheap_owned s"
    using str_bytes_drop [of 3 "3 + length xs" path] assms(5) by auto
  have str1: "cstr (ram s1) (path + 3) xs"
    by (rule cstr_owned [OF chk(4) sub]) (simp add: kp.grows_keeps [OF g1])
  have "2 \<le> kheap_free s1" "length xs < 108" "str_bytes (path + 3) (length xs) \<subseteq> kheap_owned s1"
    using assms(4,6) s1(2,3) sub by auto
  from parse_path_part_spec [OF s1(1) this(1) str1 this(3,2), of 0, folded w_def] obtain first tmp1 s2 where
    run: "pathparser_parse_path_part 0 (path + 3) s1 = Some (first, tmp1, s2)"
    and rest: "cstr (ram s2) tmp1 (drop (Suc (length w)) xs)"
      "str_bytes tmp1 (length (drop (Suc (length w)) xs)) \<subseteq> str_bytes (path + 3) (length xs)"
    and empty: "w = [] \<Longrightarrow> first = 0 \<and> kp.grows s1 s2 [] {}"
    and more: "w \<noteq> [] \<Longrightarrow> \<exists>t. kp.grows s1 s2 [t, first] {} \<and> first \<noteq> 0 \<and>
      ld32 (ram s2) first = t \<and> ld32 (ram s2) (first + 4) = 0 \<and> cstr (ram s2) t w" by auto
  have "pathparser_parse path cur s = (if first = 0 then Some (root, s2)
       else map_option (Pair root)
         (pathparser_parse_loop first tmp1 (s2\<lparr>ram := st32 (ram s2) (root + 4) first\<rparr>)))"
    using chk(1-3) digit_value [OF assms(3)] cr root(1) run
    by (simp add: pathparser_parse_def pathparser_parse_loop.simps [of first] Let_def bind_pair del: of_nat_add)
  with that g1 root rest sub empty more show thesis by blast
qed

lemma pathparser_parse_spec:
  assumes "kheap_inv s" "cstr (ram s) path (d # of_char CHR '':'' # slash # xs)" "isDigit d" "length xs \<le> 105"
    "str_bytes path (3 + length xs) \<subseteq> kheap_owned s" "3 + 2 * length (path_parts xs) \<le> kheap_free s"
  shows "\<exists>root s' ns. pathparser_parse path cur s = Some (root, s') \<and>
    kp.grows s s' (root # node_pages ns) {} \<and> ld32 (ram s') root = toNumericDigit d \<and>
    plist (ram s') (ld32 (ram s') (root + 4)) ns (path_parts xs)"
proof -
  define w where "w = takeWhile (\<lambda>c. c \<noteq> slash) xs"
  have free: "3 \<le> kheap_free s" using assms(6) by simp
  obtain root s1 first tmp1 s2 where
    g1: "kp.grows s s1 [root] {}" and root: "root \<noteq> 0" "ld32 (ram s1) root = toNumericDigit d" "ld32 (ram s1) (root + 4) = 0"
    and rest: "cstr (ram s2) tmp1 (drop (Suc (length w)) xs)"
      "str_bytes tmp1 (length (drop (Suc (length w)) xs)) \<subseteq> kheap_owned s"
    and empty: "w = [] \<longrightarrow> first = 0 \<and> kp.grows s1 s2 [] {}"
    and more: "w \<noteq> [] \<longrightarrow> (\<exists>t. kp.grows s1 s2 [t, first] {} \<and> first \<noteq> 0 \<and>
      ld32 (ram s2) first = t \<and> ld32 (ram s2) (first + 4) = 0 \<and> cstr (ram s2) t w)"
    and parse: "pathparser_parse path cur s = (if first = 0 then Some (root, s2)
       else map_option (Pair root)
         (pathparser_parse_loop first tmp1 (s2\<lparr>ram := st32 (ram s2) (root + 4) first\<rparr>)))"
    by (rule parse_start [OF assms(1-5) free, where cur = cur, folded w_def])
  have s1: "kheap_inv s1" "kheap_free s = kheap_free s1 + 1" "kheap_page s1 root" "kheap_owned s \<subseteq> kheap_owned s1"
    "region root 4096 \<inter> kheap_owned s = {}"
    using g1 by (auto simp: kp.grows_def simp del: mem_region)
  note rp = kp.page_owned [OF s1(1,3)]
  show ?thesis
  proof (cases "w = []")
    case True
    then have g2: "kp.grows s1 s2 [] {}" and "first = 0" using empty by auto
    moreover have "ld32 (ram s2) root = toNumericDigit d" "ld32 (ram s2) (root + 4) = 0"
      using grows_ld32 [OF g2, of root] rp root by auto
    ultimately show ?thesis
      using parse kp.grows_trans [OF g1 g2] True
      by (intro exI [of _ root] exI [of _ s2] exI [of _ "[]"]) (simp add: node_pages_def path_parts_Nil w_def)
  next
    case False
    then obtain t where g2: "kp.grows s1 s2 [t, first] {}" and n: "first \<noteq> 0" "ld32 (ram s2) first = t"
      "ld32 (ram s2) (first + 4) = 0" "cstr (ram s2) t w" using more by blast
    have s2: "kheap_inv s2" "kheap_page s2 root" "kheap_page s2 first" "kheap_page s2 t" "t \<noteq> first"
      "kheap_free s1 = kheap_free s2 + 2" "kheap_owned s1 \<subseteq> kheap_owned s2"
      "region t 4096 \<inter> kheap_owned s1 = {}" "region first 4096 \<inter> kheap_owned s1 = {}"
      using g2 s1(3) by (auto simp: kp.grows_def simp del: mem_region)
    have ne: "root \<noteq> t" "root \<noteq> first" using fresh_page_neq s2(8,9) rp by blast+
    let ?r = "drop (Suc (length w)) xs"
    have parts: "path_parts xs = w # path_parts ?r" using False by (simp add: path_parts_Cons w_def)
    have "length w < 4096"
      using assms(4) length_takeWhile_le [of "\<lambda>c. c \<noteq> slash" xs] by (simp add: w_def)
    moreover have "str_bytes tmp1 (length ?r) \<inter> (region root 4096 \<union> region first 4096) = {}"
      using rest(2) s1(4,5) s2(9) by blast
    moreover have "str_bytes tmp1 (length ?r) \<subseteq> kheap_owned s2" "length ?r < 108"
      "2 + 2 * length (path_parts ?r) \<le> kheap_free s2"
      using rest(2) s1(2,4) s2(6,7) assms(4,6) parts by auto
    ultimately obtain s' ns where s': "pathparser_parse_loop first tmp1
        (s2\<lparr>ram := st32 (ram s2) (root + 4) first\<rparr>) = Some s'"
      "kp.grows s2 s' (node_pages ns) (region (root + 4) 4 \<union> region (first + 4) 4)"
      "ld32 (ram s') root = ld32 (ram s2) root"
      "plist (ram s') (ld32 (ram s') (root + 4)) ((first, t) # ns) (w # path_parts ?r)"
      using attach_first [OF s2(1-4) ne(2,1) s2(5) n(2-4) _ rest(1)] by blast
    have "ld32 (ram s2) root = toNumericDigit d" using grows_ld32(1) [OF g2, of root] rp root by simp
    moreover have "kp.grows s s' (root # node_pages ((first, t) # ns)) {}"
    proof -
      have "(region (root + 4) 4 \<union> region (first + 4) 4) \<inter> kheap_owned s = {}"
        using pair_subset(2) [of root] pair_subset(2) [of first] rp kp.page_owned [OF s2(1,3)] s1(4,5) s2(9) by blast
      then show ?thesis
        using kp.grows_mono [OF kp.grows_trans [OF g1 kp.grows_trans [OF g2 s'(2)]], of "{}"]
        by (simp add: node_pages_def)
    qed
    ultimately show ?thesis
      using parse n(1) s' parts
      by (intro exI [of _ root] exI [of _ s'] exI [of _ "(first, t) # ns"]) simp
  qed
qed

section \<open>Releasing the list\<close>

lemma plist_cong:
  assumes "plist m p ns ws" "\<And>q a. q \<in> set (node_pages ns) \<Longrightarrow> a \<in> region q 4096 \<Longrightarrow> m' a = m a"
    "\<forall>q\<in>set (node_pages ns). page_aligned q" "\<forall>w\<in>set ws. length w < 4096"
  shows "plist m' p ns ws"
  using assms
proof (induction m p ns ws rule: plist.induct)
  case (2 m p q t ns w ws)
  have pages: "set (node_pages ((q, t) # ns)) = insert t (insert q (set (node_pages ns)))"
    by (simp add: node_pages_def)
  have q: "page_aligned q" "\<And>a. a \<in> region q 4096 \<Longrightarrow> m' a = m a"
    and t: "\<And>a. a \<in> region t 4096 \<Longrightarrow> m' a = m a"
    and rest: "\<And>u a. u \<in> set (node_pages ns) \<Longrightarrow> a \<in> region u 4096 \<Longrightarrow> m' a = m a"
    using "2.prems"(2,3) unfolding pages by blast+
  have "ld32 m' (q + 4 * k) = ld32 m (q + 4 * k)" if "k < 1024" for k
    using q that by (intro ld32_page_cong [where A = "region q 4096"]) auto
  from this [of 0] this [of 1] have "ld32 m' q = ld32 m q" "ld32 m' (q + 4) = ld32 m (q + 4)" by simp_all
  moreover have "cstr m' t w"
    using "2.prems"(1,4) by (intro cstr_owned [OF _ str_bytes_page t]) auto
  moreover have "plist m' (ld32 m (q + 4)) ns ws"
    by (rule "2.IH") (use "2.prems" pages rest in auto)
  ultimately show ?case using "2.prems"(1) by simp
qed simp_all

lemma free_loop_fold:
  assumes "kheap_inv s" "plist (ram s) p ns ws" "distinct (node_pages ns)"
    "\<forall>q\<in>set (node_pages ns). kheap_page s q" "\<forall>w\<in>set ws. length w < 4096"
  shows "pathparser_free_loop p s = Some (fold kFree (node_pages ns) s)"
  using assms
proof (induction ns arbitrary: p s ws)
  case Nil
  then show ?case by (cases ws) (simp_all add: pathparser_free_loop.simps node_pages_def)
next
  case (Cons n ns)
  obtain q t where n: "n = (q, t)" by (cases n)
  obtain w ws' where ws: "ws = w # ws'" using Cons.prems(2) n by (cases ws) auto
  let ?s = "fold kFree [t, q] s"
  have pages: "node_pages (n # ns) = [t, q] @ node_pages ns" by (simp add: node_pages_def n)
  have live: "distinct [t, q]" "\<forall>p\<in>set [t, q]. kheap_page s p" using Cons.prems(3,4) pages by auto
  note r = kp.release_list [OF Cons.prems(1) live]
  have keep: "ram ?s a = ram s a" if "u \<in> set (node_pages ns)" "a \<in> region u 4096" for u a
    using that Cons.prems(3,4) pages
    by (intro kp.release_list_other [OF Cons.prems(1) live, of u]) auto
  have al: "\<forall>u\<in>set (node_pages ns). page_aligned u"
    using kp.page_owned [OF Cons.prems(1)] Cons.prems(4) pages by auto
  have "plist (ram s) (ld32 (ram s) (q + 4)) ns ws'" using Cons.prems(2) n ws by simp
  then have "plist (ram ?s) (ld32 (ram s) (q + 4)) ns ws'"
    by (rule plist_cong) (use keep al Cons.prems(5) ws in auto)
  then have "pathparser_free_loop (ld32 (ram s) (q + 4)) ?s = Some (fold kFree (node_pages ns) ?s)"
    using Cons.prems(3-5) pages r ws by (intro Cons.IH) auto
  moreover have "pathparser_free_loop p s = pathparser_free_loop (ld32 (ram s) (q + 4)) ?s"
    using Cons.prems(2) n ws by (subst pathparser_free_loop.simps) auto
  ultimately show ?case by (simp add: pages)
qed

lemma path_parts_length: "w \<in> set (path_parts xs) \<Longrightarrow> length w \<le> length xs"
proof (induction xs rule: path_parts.induct)
  case (1 xs)
  then show ?case
    using length_takeWhile_le [of "\<lambda>c. c \<noteq> slash" xs]
    by (subst (asm) (2) path_parts.simps) (fastforce simp: Let_def split: if_splits)
qed

lemma pathparser_free_spec:
  assumes "kp.grows s s' (root # node_pages ns) {}" "plist (ram s') (ld32 (ram s') (root + 4)) ns ws"
    "\<forall>w\<in>set ws. length w < 4096"
  shows "\<exists>s''. pathparser_free root s' = Some s'' \<and> kp.grows s s'' [] {}"
proof -
  have g: "kheap_inv s'" "distinct (root # node_pages ns)" "\<forall>q\<in>set (root # node_pages ns). kheap_page s' q"
    using assms(1) by (auto simp: kp.grows_def simp del: mem_region)
  then have "pathparser_free root s' = Some (fold kFree (node_pages ns @ [root]) s')"
    using free_loop_fold [OF g(1) assms(2)] assms(3) by (simp add: pathparser_free_def)
  moreover have "kp.grows s s' (node_pages ns @ [root]) {}"
    using assms(1) by (rule kp.grows_perm) (use g(2) in auto)
  ultimately show ?thesis using kp.grows_release by blast
qed

section \<open>Properties\<close>

text \<open>C17. Parsing a path of the form \<^verbatim>\<open>d:/part/part\<close> with at most 108 characters returns a root with
  the drive number and a list of exactly the parts between the slashes, up to the first empty
  one; root, nodes and strings are distinct fresh pages of the heap and no memory that was in
  use before changes.\<close>
theorem pathparser_parse_builds:
  assumes "kheap_inv s" and "cstr (ram s) path (d # of_char CHR '':'' # slash # xs)" and "isDigit d"
    and "length xs \<le> 105" and "str_bytes path (3 + length xs) \<subseteq> kheap_owned s"
    and "3 + 2 * length (path_parts xs) \<le> kheap_free s"
  shows "\<exists>root s' ns. pathparser_parse path cur s = Some (root, s') \<and> root \<noteq> 0 \<and>
    ld32 (ram s') root = toNumericDigit d \<and>
    plist (ram s') (ld32 (ram s') (root + 4)) ns (path_parts xs) \<and>
    kheap_inv s' \<and> distinct (root # node_pages ns) \<and>
    (\<forall>p\<in>set (root # node_pages ns). kheap_page s' p \<and> region p 4096 \<inter> kheap_owned s = {}) \<and>
    (\<forall>a\<in>kheap_owned s. ram s' a = ram s a)"
proof -
  obtain root s' ns where r: "pathparser_parse path cur s = Some (root, s')"
    "kp.grows s s' (root # node_pages ns) {}" "ld32 (ram s') root = toNumericDigit d"
    "plist (ram s') (ld32 (ram s') (root + 4)) ns (path_parts xs)"
    using pathparser_parse_spec [OF assms] by blast
  moreover have "kheap_inv s'" "distinct (root # node_pages ns)"
    "\<forall>p\<in>set (root # node_pages ns). kheap_page s' p \<and> region p 4096 \<inter> kheap_owned s = {}"
    "\<forall>a\<in>kheap_owned s. ram s' a = ram s a"
    using r(2) kp.grows_keeps [OF r(2)] by (auto simp: kp.grows_def simp del: mem_region)
  moreover have "root \<noteq> 0" using kp.page_owned [of s' root] calculation(5,7) by simp
  ultimately show ?thesis by blast
qed

text \<open>A heap with the path \<^verbatim>\<open>0:/a/b\<close> at address 0x500.\<close>

definition demo_path :: kheap_state where
  "demo_path = boot_ram\<lparr>ram := (ram boot_ram)(0x500 := 48, 0x501 := 58, 0x502 := 47, 0x503 := 97,
     0x504 := 47, 0x505 := 98, 0x506 := 0)\<rparr>"

lemma demo_path_str: "cstr (ram demo_path) 0x500 (48 # of_char CHR '':'' # slash # [97, 47, 98])"
  by (simp add: demo_path_def slash_def)

lemma demo_path_low:
  "kheap_inv demo_path \<and> kheap_free demo_path = 25600 \<and> kheap_owned demo_path = kheap_owned boot_ram"
proof -
  have low: "a \<in> kheap_owned boot_ram" if "a \<in> {0x500, 0x501, 0x502, 0x503, 0x504, 0x505, 0x506}" for a
    using that by (intro boot_ram_low) auto
  have "same_outside (kheap_owned boot_ram) (ram boot_ram) (ram demo_path)"
    unfolding demo_path_def using low by (auto intro!: same_outside_upd)
  moreover have "demo_path = boot_ram\<lparr>ram := ram demo_path\<rparr>" by (simp add: demo_path_def)
  ultimately show ?thesis
    using kheap_write_owned [OF boot_ram_inv(1), of "ram demo_path"] boot_ram_inv(2) by simp
qed

lemma demo_path_bytes: "str_bytes 0x500 6 \<subseteq> kheap_owned demo_path"
proof
  fix a :: addr assume "a \<in> str_bytes 0x500 6"
  then obtain i where "a = of_nat (0x500 + i)" "i \<le> 6" by (auto simp: str_bytes_def)
  then have "unat a < 32256" using unat_of_nat_u32 [of "0x500 + i"] by (simp del: of_nat_add)
  then show "a \<in> kheap_owned demo_path" using boot_ram_low demo_path_low by simp
qed

lemma demo_path_parts: "path_parts [97, 47, 98] = [[97], [98]]"
  by (simp add: path_parts.simps slash_def)

theorem pathparser_parse_builds_witness:
  "\<exists>root s' ns. pathparser_parse 0x500 0 demo_path = Some (root, s') \<and>
     plist (ram s') (ld32 (ram s') (root + 4)) ns [[97], [98]]"
proof -
  have "isDigit 48" by (simp add: isDigit_def word_sle_eq)
  from pathparser_parse_builds [OF _ demo_path_str this, of 0] demo_path_low demo_path_bytes demo_path_parts
  show ?thesis by auto
qed

text \<open>A path that is longer than 108 characters, does not start with a digit, or does not go on
  with \<^verbatim>\<open>:/\<close> is refused: the result is a null pointer and nothing has changed.\<close>
lemma pathparser_parse_rejects:
  assumes "cstr (ram s) path xs" and "length xs < 2147483648"
    and "108 < length xs \<or> length xs < 3 \<or> \<not> isDigit (xs ! 0) \<or> xs ! 1 \<noteq> of_char CHR '':'' \<or>
      xs ! 2 \<noteq> of_char CHR ''/''"
  shows "pathparser_parse path cur s = Some (0, s)"
proof (cases "108 < length xs")
  case True
  then have "108 <s (of_nat (length xs) :: u32)"
    using of_nat_u32_sless [of 108 "length xs"] assms(2) by simp
  then show ?thesis using strlen_cstr [OF assms(1)] by (simp add: pathparser_parse_def)
next
  case False
  then have "\<not> 108 <s (of_nat (length xs) :: u32)" by (simp add: sless_small word_less_nat_alt)
  moreover have len: "strnlen (ram s) path 108 = of_nat (length xs)"
    using strnlen_cstr [OF assms(1), of 108] False by simp
  have "\<not> pathparser_path_valid_format (ram s) path"
  proof (cases "length xs < 3")
    case True
    then have "(of_nat (length xs) :: u32) <s 3" using of_nat_u32_sless [of "length xs" 3] by simp
    then show ?thesis using len by (simp add: pathparser_path_valid_format_def word_sless_alt word_sle_eq)
  next
    case long: False
    then have "xs \<noteq> []" by auto
    with long have "ram s path = xs ! 0" "ram s (path + 1) = xs ! 1" "ram s (path + 2) = xs ! 2"
      using cstr_nth [OF assms(1), of 0] cstr_nth [OF assms(1), of 1] cstr_nth [OF assms(1), of 2] by auto
    with long False assms(3) show ?thesis by (auto simp: pathparser_path_valid_format_def)
  qed
  then have "pathparser_get_drive_by_path (ram s) path = (- EBADPATH, path)"
    by (simp add: pathparser_get_drive_by_path_def)
  ultimately show ?thesis
    using strlen_cstr [OF assms(1)] by (simp add: pathparser_parse_def word_sless_alt)
qed

lemma pathparser_parse_rejects_witness: "pathparser_parse 0x503 0 demo_path = Some (0, demo_path)"
  by (rule pathparser_parse_rejects [of _ _ "[97, 47, 98]"])
    (simp_all add: demo_path_def isDigit_def word_sle_eq)

text \<open>C18. Releasing a parsed path gives back every page that parsing took: afterwards the heap owns
  the same memory with the same contents and has as many free pages as before the parse.\<close>
theorem pathparser_free_restores:
  assumes "kheap_inv s" and "cstr (ram s) path (d # of_char CHR '':'' # slash # xs)" and "isDigit d"
    and "length xs \<le> 105" and "str_bytes path (3 + length xs) \<subseteq> kheap_owned s"
    and "3 + 2 * length (path_parts xs) \<le> kheap_free s"
  shows "\<exists>root s1 s2. pathparser_parse path cur s = Some (root, s1) \<and> pathparser_free root s1 = Some s2 \<and>
    kheap_inv s2 \<and> kheap_owned s2 = kheap_owned s \<and> kheap_free s2 = kheap_free s \<and>
    (\<forall>a\<in>kheap_owned s. ram s2 a = ram s a)"
proof -
  obtain root s1 ns where r: "pathparser_parse path cur s = Some (root, s1)"
    "kp.grows s s1 (root # node_pages ns) {}"
    "plist (ram s1) (ld32 (ram s1) (root + 4)) ns (path_parts xs)"
    using pathparser_parse_spec [OF assms] by blast
  have "\<forall>w\<in>set (path_parts xs). length w < 4096"
    using path_parts_length [of _ xs] assms(4) by fastforce
  from pathparser_free_spec [OF r(2,3) this] obtain s2 where
    "pathparser_free root s1 = Some s2" and g: "kp.grows s s2 [] {}" by blast
  moreover have "\<forall>a\<in>kheap_owned s. ram s2 a = ram s a" using kp.grows_keeps [OF g] by simp
  ultimately show ?thesis using r(1) by (auto simp: kp.grows_def)
qed

theorem pathparser_free_restores_witness:
  "\<exists>root s1 s2. pathparser_parse 0x500 0 demo_path = Some (root, s1) \<and> pathparser_free root s1 = Some s2 \<and>
     kheap_free s2 = 25600"
proof -
  have "isDigit 48" by (simp add: isDigit_def word_sle_eq)
  from pathparser_free_restores [OF _ demo_path_str this, of 0] demo_path_low demo_path_bytes demo_path_parts
  show ?thesis by auto
qed

end
