(* ===== verification/Vfs.thy ===== *)
theory Vfs
  imports Disk Path_Parser
begin

text \<open>
  The interface between the file layer and a file system, \<^verbatim>\<open>fs/file.h\<close>: open modes, seek modes, the
  structures a client sees, and the table of functions a file system provides.  A function of the
  table returns a value and the new state, or nothing when it does not return.

  \<open>fs_state\<close> adds the addresses the linker gives to the globals \<open>fat16_fs\<close>, \<open>filesystems\<close> and
  \<open>file_descriptors\<close>, and \<open>kstack\<close>, the part of the kernel stack that holds the automatic variables
  whose address is passed on.  No two of them that live at the same time share an offset:
  \<open>temp_filename\<close> (108 bytes) is at 0, \<open>item\<close> (32) at 112, \<open>result\<close> (2) at 144, \<open>stat\<close> (8) at 148,
  \<open>process\<close> (4) at 156 and \<open>buff\<close> (4096) at 160.
\<close>

section \<open>file.h\<close>

definition SEEK_SET :: u32 where [simp]: "SEEK_SET = 0"
definition SEEK_CUR :: u32 where [simp]: "SEEK_CUR = 1"
definition SEEK_END :: u32 where [simp]: "SEEK_END = 2"

definition FILE_MODE_READ :: u32 where [simp]: "FILE_MODE_READ = 0"
definition FILE_MODE_WRITE :: u32 where [simp]: "FILE_MODE_WRITE = 1"
definition FILE_MODE_APPEND :: u32 where [simp]: "FILE_MODE_APPEND = 2"
definition FILE_MODE_INVALID :: u32 where [simp]: "FILE_MODE_INVALID = 3"

definition FILE_STAT_READ_ONLY :: u32 where [simp]: "FILE_STAT_READ_ONLY = 1"

record 'd fs_state = "'d disk_state" +
  fat16_fs :: addr
  filesystems :: addr
  file_descriptors :: addr
  kstack :: addr

record 's fileSystem =
  resolve_fn :: "addr \<Rightarrow> 's \<Rightarrow> (u32 \<times> 's) option"
  open_fn :: "addr \<Rightarrow> addr \<Rightarrow> u32 \<Rightarrow> 's \<Rightarrow> (addr \<times> 's) option"
  read_fn :: "addr \<Rightarrow> addr \<Rightarrow> u32 \<Rightarrow> u32 \<Rightarrow> addr \<Rightarrow> 's \<Rightarrow> (u32 \<times> 's) option"
  seek_fn :: "addr \<Rightarrow> u32 \<Rightarrow> u32 \<Rightarrow> 's \<Rightarrow> (u32 \<times> 's) option"
  stat_fn :: "addr \<Rightarrow> addr \<Rightarrow> addr \<Rightarrow> 's \<Rightarrow> (u32 \<times> 's) option"
  close_fn :: "addr \<Rightarrow> 's \<Rightarrow> (u32 \<times> 's) option"

section \<open>String literals\<close>

text \<open>The string routines applied to a literal, given by its characters: what \<open>strcpy\<close> and
  \<open>strncmp\<close> do when the second argument points to them.\<close>

primrec strcpy_literal :: "mem \<Rightarrow> addr \<Rightarrow> u8 list \<Rightarrow> mem" where
  "strcpy_literal m dest [] = m(dest := 0)"
| "strcpy_literal m dest (x # xs) = strcpy_literal (m(dest := x)) (dest + 1) xs"

primrec strncmp_literal :: "mem \<Rightarrow> addr \<Rightarrow> u8 list \<Rightarrow> u32 \<Rightarrow> u32" where
  "strncmp_literal m s1 [] n = (if n \<noteq> 0 then scast (m s1) else 0)"
| "strncmp_literal m s1 (x # xs) n =
     (if n \<noteq> 0 then (if m s1 \<noteq> x then scast (m s1) - scast x else strncmp_literal m (s1 + 1) xs (n - 1)) else 0)"

lemma strncmp_literal_cstr:
  "cstr m s2 xs \<Longrightarrow> strncmp_literal m s1 xs n = strncmp m s1 s2 n"
proof (induction xs arbitrary: s1 s2 n)
  case Nil
  then show ?case by (subst strncmp.simps) (auto simp: Let_def)
next
  case (Cons x xs)
  then show ?case by (subst strncmp.simps) (auto simp: Let_def)
qed

lemma strcpy_literal_cstr:
  assumes "cstr m src xs" "str_bytes dest (length xs) \<inter> str_bytes src (length xs) = {}"
  shows "strcpy m dest src = Some (strcpy_literal m dest xs)"
  unfolding strcpy_def using assms
proof (induction xs arbitrary: m dest src)
  case Nil
  then show ?case by (subst strcpy_loop.simps) simp
next
  case (Cons x xs)
  have dest: "dest \<in> str_bytes dest (length (x # xs))"
    unfolding str_bytes_def by (intro CollectI exI [of _ 0]) simp
  have sub: "str_bytes (p + 1) (length xs) \<subseteq> str_bytes p (length (x # xs))" for p using str_bytes_Suc by simp
  have "cstr (m(dest := x)) (src + 1) xs"
    by (rule cstr_owned [where m = m and A = "str_bytes src (length (x # xs))"]) (use Cons.prems dest sub in auto)
  moreover have "str_bytes (dest + 1) (length xs) \<inter> str_bytes (src + 1) (length xs) = {}"
    using Cons.prems(2) sub by blast
  ultimately have "strcpy_loop (m(dest := x)) (dest + 1) (src + 1) = Some (strcpy_literal (m(dest := x)) (dest + 1) xs)"
    by (rule Cons.IH)
  then show ?case using Cons.prems(1) by (subst strcpy_loop.simps) simp
qed

end
