(* ===== verification/Fat16.thy ===== *)
theory Fat16
  imports Vfs
begin

text \<open>
  The FAT16 file system, \<^verbatim>\<open>fs/fat/fat16.c\<close>.  Its structures are in memory at the offsets the
  compiler gives them:

  \<^item> \<open>struct fat_private\<close> (92 bytes): the 62 bytes of the boot sector header at 0 (sectors per cluster
    at 13, reserved sectors at 14, copies of the table at 16, root entries at 17, sectors per table
    at 22, signature at 38), \<open>root_directory\<close> at 64, the three streams at 80, 84 and 88;
  \<^item> \<open>struct fat_directory\<close> (16): \<open>item\<close>, \<open>total\<close>, \<open>sector_pos\<close>, \<open>ending_sector_pos\<close>;
  \<^item> \<open>struct fat_directory_item\<close> (32): name at 0, extension at 8, attribute at 11, high and low half of
    the first cluster at 20 and 26, size at 28;
  \<^item> \<open>struct fat_item\<close> (8): \<open>item\<close> or \<open>directory\<close> at 0, \<open>type\<close> at 4; \<open>struct fat_file_descriptor\<close> (8):
    \<open>item\<close> at 0, \<open>pos\<close> at 4;
  \<^item> \<open>struct disk\<close>: \<open>sectorSize\<close> at 4, \<open>id\<close> at 8, \<open>filesystem\<close> at 12, \<open>fs_private\<close> at 16.

  A division by zero (a volume with no sectors per cluster) traps, so the model has no result.
\<close>

section \<open>fat16.c\<close>

definition PEACHOS_FAT16_SIGNATURE :: u32 where [simp]: "PEACHOS_FAT16_SIGNATURE = 0x29"
definition PEACHOS_FAT16_FAT_ENTRY_SIZE :: u32 where [simp]: "PEACHOS_FAT16_FAT_ENTRY_SIZE = 0x02"
definition PEACHOS_FAT16_BAD_SECTOR :: u32 where [simp]: "PEACHOS_FAT16_BAD_SECTOR = 0xFF7"
definition FAT_ITEM_TYPE_DIRECTORY :: u32 where [simp]: "FAT_ITEM_TYPE_DIRECTORY = 0"
definition FAT_ITEM_TYPE_FILE :: u32 where [simp]: "FAT_ITEM_TYPE_FILE = 1"
definition FAT_FILE_READ_ONLY :: u8 where [simp]: "FAT_FILE_READ_ONLY = 0x1"
definition FAT_FILE_SUBDIRECTORY :: u8 where [simp]: "FAT_FILE_SUBDIRECTORY = 0x10"

definition fat16_init :: "('d, 'a) fs_state_scheme \<Rightarrow> addr \<times> ('d, 'a) fs_state_scheme" where
  "fat16_init s = (fat16_fs s, s\<lparr>ram := strcpy_literal (ram s) (fat16_fs s + 24) (map of_char ''FAT16'')\<rparr>)"

definition fat16_init_private :: "addr \<Rightarrow> addr \<Rightarrow> ('d, 'a) fs_state_scheme \<Rightarrow> ('d, 'a) fs_state_scheme" where
  "fat16_init_private idisk private s =
     (let s1 = s\<lparr>ram := memset (ram s) private 0 92\<rparr>;
          (stream1, s2) = diskSteamerNew (ld32 (ram s1) (idisk + 8)) s1;
          s3 = s2\<lparr>ram := st32 (ram s2) (private + 80) stream1\<rparr>;
          (stream2, s4) = diskSteamerNew (ld32 (ram s3) (idisk + 8)) s3;
          s5 = s4\<lparr>ram := st32 (ram s4) (private + 84) stream2\<rparr>;
          (stream3, s6) = diskSteamerNew (ld32 (ram s5) (idisk + 8)) s5;
          s7 = s6\<lparr>ram := st32 (ram s6) (private + 88) stream3\<rparr>
      in s7\<lparr>ram := st32 (ram s7) (idisk + 16) private\<rparr>)"

definition fat16_sector_to_absolute :: "mem \<Rightarrow> addr \<Rightarrow> u32 \<Rightarrow> u32" where
  "fat16_sector_to_absolute m idisk sector = sector * ld32 m (idisk + 4)"

partial_function (option) total_items_loop :: "'d ports \<Rightarrow> addr \<Rightarrow> addr \<Rightarrow> u32 \<Rightarrow>
    ('d, 'a) fs_state_scheme \<Rightarrow> (u32 \<times> ('d, 'a) fs_state_scheme) option" where
  "total_items_loop io stream item total_valid_entries s =
     do {
       (res, s1) \<leftarrow> diskSteamerRead io stream item 32 s;
       if res \<noteq> PEACHOS_ALL_OK then Some (- EIO, s1)
       else if ram s1 item = 0xE5 then total_items_loop io stream item total_valid_entries s1
       else if ram s1 item = 0 then Some (total_valid_entries, s1)
       else total_items_loop io stream item (total_valid_entries + 1) s1
     }"

definition fat16_get_total_items_for_directory :: "'d ports \<Rightarrow> addr \<Rightarrow> u32 \<Rightarrow>
    ('d, 'a) fs_state_scheme \<Rightarrow> (u32 \<times> ('d, 'a) fs_state_scheme) option" where
  "fat16_get_total_items_for_directory io idisk directory_start_sector s =
     (let item = kstack s + 112;
          fat_private = ld32 (ram s) (idisk + 16);
          stream = ld32 (ram s) (fat_private + 88);
          (res, s1) = diskSteamerSeek stream (fat16_sector_to_absolute (ram s) idisk directory_start_sector) s
      in if res \<noteq> PEACHOS_ALL_OK then Some (- EIO, s1)
         else total_items_loop io stream item 0 s1)"

definition fat16_get_root_directory :: "'d ports \<Rightarrow> addr \<Rightarrow> addr \<Rightarrow> addr \<Rightarrow>
    ('d, 'a) fs_state_scheme \<Rightarrow> (u32 \<times> ('d, 'a) fs_state_scheme) option" where
  "fat16_get_root_directory io idisk private directory s =
     (let root_dir_sector_pos = ucast (ram s (private + 16)) * ucast (ld16 (ram s) (private + 22)) +
                                  ucast (ld16 (ram s) (private + 14));
          root_dir_entries = ucast (ld16 (ram s) (private + 17));
          root_dir_size = root_dir_entries * 32;
          sectorSize = ld32 (ram s) (idisk + 4)
      in if sectorSize = 0 then None
         else
           let quot = cdiv root_dir_size sectorSize;
               total_sectors = (if cmod root_dir_size sectorSize \<noteq> 0 then quot + 1 else quot)
           in do {
             (total_entries, s1) \<leftarrow> fat16_get_total_items_for_directory io idisk root_dir_sector_pos s;
             let (dir, s2) = kZalloc root_dir_size s1;
             if dir = 0 then Some (- ENOMEM, s2)
             else
               let stream = ld32 (ram s2) (private + 88);
                   (res, s3) = diskSteamerSeek stream (fat16_sector_to_absolute (ram s2) idisk root_dir_sector_pos) s2
               in if res \<noteq> PEACHOS_ALL_OK then Some (- EIO, s3)
                  else do {
                    (res, s4) \<leftarrow> diskSteamerRead io stream dir root_dir_size s3;
                    if res \<noteq> PEACHOS_ALL_OK then Some (- EIO, s4)
                    else
                      let m1 = st32 (ram s4) directory dir;
                          m2 = st32 m1 (directory + 4) total_entries;
                          m3 = st32 m2 (directory + 8) root_dir_sector_pos;
                          m4 = st32 m3 (directory + 12) (root_dir_sector_pos + total_sectors)
                      in Some (0, s4\<lparr>ram := m4\<rparr>)
                  }
           })"

text \<open>\<open>fat16_resolve\<close>: the body up to the label \<open>out\<close> and the part behind it.\<close>

definition fat16_resolve_body :: "'d ports \<Rightarrow> addr \<Rightarrow> addr \<Rightarrow> addr \<Rightarrow>
    ('d, 'a) fs_state_scheme \<Rightarrow> (u32 \<times> ('d, 'a) fs_state_scheme) option" where
  "fat16_resolve_body io idisk fat_private stream s =
     (if stream = 0 then Some (- ENOMEM, s)
      else do {
        (res, s1) \<leftarrow> diskSteamerRead io stream fat_private 62 s;
        if res \<noteq> PEACHOS_ALL_OK then Some (- EIO, s1)
        else if ram s1 (fat_private + 38) \<noteq> 0x29 then Some (- EFSNOTUS, s1)
        else do {
          (res, s2) \<leftarrow> fat16_get_root_directory io idisk fat_private (fat_private + 64) s1;
          if res \<noteq> PEACHOS_ALL_OK then Some (- EIO, s2)
          else Some (0, s2\<lparr>ram := st32 (ram s2) (idisk + 12) (fat16_fs s2)\<rparr>)
        }
      })"

definition fat16_resolve :: "'d ports \<Rightarrow> addr \<Rightarrow>
    ('d, 'a) fs_state_scheme \<Rightarrow> (u32 \<times> ('d, 'a) fs_state_scheme) option" where
  "fat16_resolve io idisk s =
     (let (fat_private, s1) = kZalloc 4 s;
          s2 = fat16_init_private idisk fat_private s1;
          (stream, s3) = diskSteamerNew (ld32 (ram s2) (idisk + 8)) s2
      in do {
        (res, s4) \<leftarrow> fat16_resolve_body io idisk fat_private stream s3;
        let s5 = (if res \<noteq> PEACHOS_ALL_OK
                  then let s' = kFree fat_private s4 in s'\<lparr>ram := st32 (ram s') (idisk + 16) 0\<rparr> else s4);
        Some (res, if stream \<noteq> 0 then diskStreamerClose stream s5 else s5)
      })"

partial_function (option) fat16_to_proper_string :: "mem \<Rightarrow> addr \<Rightarrow> addr \<Rightarrow> (mem \<times> addr) option" where
  "fat16_to_proper_string m out in_ptr =
     (if m in_ptr \<noteq> 0x00 \<and> m in_ptr \<noteq> 0x20
      then fat16_to_proper_string (m(out := m in_ptr)) (out + 1) (in_ptr + 1)
      else Some (if m in_ptr = 0x20 then m(out := 0) else m, out))"

definition fat16_get_full_filename_with_extension :: "mem \<Rightarrow> addr \<Rightarrow> addr \<Rightarrow> u32 \<Rightarrow> mem option" where
  "fat16_get_full_filename_with_extension m item out max_len =
     do {
       (m1, out_temp) \<leftarrow> fat16_to_proper_string (memset m out 0 max_len) out item;
       if m1 (item + 8) \<noteq> 0x00 \<and> m1 (item + 8) \<noteq> 0x20
       then map_option fst (fat16_to_proper_string (m1(out_temp := of_char CHR ''.'')) (out_temp + 1) (item + 8))
       else Some m1
     }"

definition fat16_clone_directory_item ::
  "addr \<Rightarrow> u32 \<Rightarrow> ('d, 'a) fs_state_scheme \<Rightarrow> addr \<times> ('d, 'a) fs_state_scheme" where
  "fat16_clone_directory_item item sz s =
     (if sz < 32 then (0, s)
      else
        let (item_copy, s1) = kZalloc sz s
        in if item_copy = 0 then (item_copy, s1)
           else (item_copy, s1\<lparr>ram := memcpy (ram s1) item_copy item sz\<rparr>))"

definition fat16_get_first_cluster :: "mem \<Rightarrow> addr \<Rightarrow> u32" where
  "fat16_get_first_cluster m item = push_bit 16 (ucast (ld16 m (item + 20))) OR ucast (ld16 m (item + 26))"

definition fat16_cluster_to_sector :: "mem \<Rightarrow> addr \<Rightarrow> u32 \<Rightarrow> u32" where
  "fat16_cluster_to_sector m private cluster =
     ld32 m (private + 76) + (cluster - 2) * ucast (m (private + 13))"

definition fat16_get_first_fat_sector :: "mem \<Rightarrow> addr \<Rightarrow> u32" where
  "fat16_get_first_fat_sector m private = ucast (ld16 m (private + 14)) + 1"

definition fat16_get_fat_entry :: "'d ports \<Rightarrow> addr \<Rightarrow> u32 \<Rightarrow>
    ('d, 'a) fs_state_scheme \<Rightarrow> (u32 \<times> ('d, 'a) fs_state_scheme) option" where
  "fat16_get_fat_entry io idisk cluster s =
     (let private = ld32 (ram s) (idisk + 16);
          stream = ld32 (ram s) (private + 84);
          result = kstack s + 144
      in if stream = 0 then Some (- 1, s)
         else
           let fat_table_position = fat16_get_first_fat_sector (ram s) private * ld32 (ram s) (idisk + 4);
               (res, s1) = diskSteamerSeek stream (fat_table_position * (cluster * PEACHOS_FAT16_FAT_ENTRY_SIZE)) s
           in if res <s 0 then Some (res, s1)
              else do {
                (res, s2) \<leftarrow> diskSteamerRead io stream result 2 (s1\<lparr>ram := st16 (ram s1) result 0\<rparr>);
                if res <s 0 then Some (res, s2)
                else Some (ucast (ld16 (ram s2) result), s2)
              })"

function cluster_loop :: "'d ports \<Rightarrow> addr \<Rightarrow> u32 \<Rightarrow> u32 \<Rightarrow> u32 \<Rightarrow>
    ('d, 'a) fs_state_scheme \<Rightarrow> (u32 \<times> ('d, 'a) fs_state_scheme) option" where
  "cluster_loop io idisk clusters_ahead i cluster_to_use s =
     (if i <s clusters_ahead then
        (case fat16_get_fat_entry io idisk cluster_to_use s of
           None \<Rightarrow> None
         | Some (entry, s1) \<Rightarrow>
             if entry = 0xFF8 \<or> entry = 0xFFF then Some (- EIO, s1)
             else if entry = PEACHOS_FAT16_BAD_SECTOR then Some (- EIO, s1)
             else if entry = 0xFF0 \<or> entry = 0xFFF6 then Some (- EIO, s1)
             else if entry = 0x00 then Some (- EIO, s1)
             else cluster_loop io idisk clusters_ahead (i + 1) entry s1)
      else Some (cluster_to_use, s))"
  by pat_completeness auto
termination
  by (relation "measure (\<lambda>(io, idisk, n, i, c, s). nat (sint n - sint i))")
    (auto simp: sint_Suc word_sless_alt)

declare cluster_loop.simps [simp del]

definition fat16_get_cluster_for_offset :: "'d ports \<Rightarrow> addr \<Rightarrow> u32 \<Rightarrow> u32 \<Rightarrow>
    ('d, 'a) fs_state_scheme \<Rightarrow> (u32 \<times> ('d, 'a) fs_state_scheme) option" where
  "fat16_get_cluster_for_offset io idisk starting_cluster offset s =
     (let private = ld32 (ram s) (idisk + 16);
          size_of_cluster_bytes = ucast (ram s (private + 13)) * ld32 (ram s) (idisk + 4)
      in if size_of_cluster_bytes = 0 then None
         else cluster_loop io idisk (cdiv offset size_of_cluster_bytes) 0 starting_cluster s)"

partial_function (option) fat16_read_internal_from_stream :: "'d ports \<Rightarrow> addr \<Rightarrow> addr \<Rightarrow> u32 \<Rightarrow> u32 \<Rightarrow> u32 \<Rightarrow> addr \<Rightarrow>
    ('d, 'a) fs_state_scheme \<Rightarrow> (u32 \<times> ('d, 'a) fs_state_scheme) option" where
  "fat16_read_internal_from_stream io idisk stream cluster offset total_bytes out s =
     (let private = ld32 (ram s) (idisk + 16);
          size_of_cluster_bytes = ucast (ram s (private + 13)) * ld32 (ram s) (idisk + 4)
      in do {
        (cluster_to_use, s1) \<leftarrow> fat16_get_cluster_for_offset io idisk cluster offset s;
        if cluster_to_use <s 0 then Some (cluster_to_use, s1)
        else if size_of_cluster_bytes = 0 then None
        else
          let offset_from_cluster = cmod offset size_of_cluster_bytes;
              starting_sector = fat16_cluster_to_sector (ram s1) private cluster_to_use;
              starting_pos = starting_sector * ld32 (ram s1) (idisk + 4) + offset_from_cluster;
              total_to_read = (if size_of_cluster_bytes <s total_bytes then size_of_cluster_bytes else total_bytes);
              (res, s2) = diskSteamerSeek stream starting_pos s1
          in if res \<noteq> PEACHOS_ALL_OK then Some (res, s2)
             else do {
               (res, s3) \<leftarrow> diskSteamerRead io stream out total_to_read s2;
               if res \<noteq> PEACHOS_ALL_OK then Some (res, s3)
               else if 0 <s total_bytes - total_to_read
               then fat16_read_internal_from_stream io idisk stream cluster (offset + total_to_read)
                      (total_bytes - total_to_read) (out + total_to_read) s3
               else Some (res, s3)
             }
      })"

definition fat16_read_internal :: "'d ports \<Rightarrow> addr \<Rightarrow> u32 \<Rightarrow> u32 \<Rightarrow> u32 \<Rightarrow> addr \<Rightarrow>
    ('d, 'a) fs_state_scheme \<Rightarrow> (u32 \<times> ('d, 'a) fs_state_scheme) option" where
  "fat16_read_internal io idisk starting_cluster offset total_bytes out s =
     (let fs_private = ld32 (ram s) (idisk + 16);
          stream = ld32 (ram s) (fs_private + 80)
      in fat16_read_internal_from_stream io idisk stream starting_cluster offset total_bytes out s)"

definition fat16_free_directory :: "addr \<Rightarrow> ('d, 'a) fs_state_scheme \<Rightarrow> ('d, 'a) fs_state_scheme" where
  "fat16_free_directory directory s =
     (if directory = 0 then s
      else
        let s1 = (if ld32 (ram s) directory \<noteq> 0 then kFree (ld32 (ram s) directory) s else s)
        in kFree directory s1)"

definition fat16_load_fat_directory :: "'d ports \<Rightarrow> addr \<Rightarrow> addr \<Rightarrow>
    ('d, 'a) fs_state_scheme \<Rightarrow> (addr \<times> ('d, 'a) fs_state_scheme) option" where
  "fat16_load_fat_directory io idisk item s =
     (let fat_private = ld32 (ram s) (idisk + 16)
      in if ram s (item + 11) \<noteq> FAT_FILE_SUBDIRECTORY then Some (0, s)
         else
           let (directory, s1) = kZalloc 16 s
           in if directory = 0 then Some (directory, s1)
              else
                let cluster = fat16_get_first_cluster (ram s1) item;
                    cluster_sector = fat16_cluster_to_sector (ram s1) fat_private cluster
                in do {
                  (total_items, s2) \<leftarrow> fat16_get_total_items_for_directory io idisk cluster_sector s1;
                  let s3 = s2\<lparr>ram := st32 (ram s2) (directory + 4) total_items\<rparr>;
                  let directory_size_bytes = ld32 (ram s3) (directory + 4) * 32;
                  let (items, s4) = kZalloc directory_size_bytes s3;
                  let s5 = s4\<lparr>ram := st32 (ram s4) directory items\<rparr>;
                  if ld32 (ram s5) directory = 0 then Some (directory, s5)
                  else do {
                    (res, s6) \<leftarrow> fat16_read_internal io idisk cluster 0x00 directory_size_bytes (ld32 (ram s5) directory) s5;
                    Some (directory, s6)
                  }
                })"

definition fat16_new_fat_item_for_directory_item :: "'d ports \<Rightarrow> addr \<Rightarrow> addr \<Rightarrow>
    ('d, 'a) fs_state_scheme \<Rightarrow> (addr \<times> ('d, 'a) fs_state_scheme) option" where
  "fat16_new_fat_item_for_directory_item io idisk item s =
     (let (f_item, s1) = kZalloc 8 s
      in if f_item = 0 then Some (0, s1)
         else do {
           s2 \<leftarrow> (if ram s1 (item + 11) AND FAT_FILE_SUBDIRECTORY \<noteq> 0
                  then do {
                    (directory, s') \<leftarrow> fat16_load_fat_directory io idisk item s1;
                    Some (s'\<lparr>ram := st32 (st32 (ram s') f_item directory) (f_item + 4) FAT_ITEM_TYPE_DIRECTORY\<rparr>)
                  }
                  else Some s1);
           let s3 = s2\<lparr>ram := st32 (ram s2) (f_item + 4) FAT_ITEM_TYPE_FILE\<rparr>;
           let (copy, s4) = fat16_clone_directory_item item 32 s3;
           Some (f_item, s4\<lparr>ram := st32 (ram s4) f_item copy\<rparr>)
         })"

partial_function (option) find_item_loop :: "'d ports \<Rightarrow> addr \<Rightarrow> addr \<Rightarrow> addr \<Rightarrow> u32 \<Rightarrow> addr \<Rightarrow>
    ('d, 'a) fs_state_scheme \<Rightarrow> (addr \<times> ('d, 'a) fs_state_scheme) option" where
  "find_item_loop io idisk fat_directory name i f_item s =
     (if i < ld32 (ram s) (fat_directory + 4) then
        let temp_filename = kstack s;
            entry = ld32 (ram s) fat_directory + 32 * i
        in do {
          m \<leftarrow> fat16_get_full_filename_with_extension (ram s) entry temp_filename PEACHOS_MAX_PATH_LENGTH;
          if istrncmp m temp_filename name PEACHOS_MAX_PATH_LENGTH = 0
          then do {
            (f_item', s1) \<leftarrow> fat16_new_fat_item_for_directory_item io idisk entry (s\<lparr>ram := m\<rparr>);
            find_item_loop io idisk fat_directory name (i + 1) f_item' s1
          }
          else find_item_loop io idisk fat_directory name (i + 1) f_item (s\<lparr>ram := m\<rparr>)
        }
      else Some (f_item, s))"

definition fat16_find_item_in_directory :: "'d ports \<Rightarrow> addr \<Rightarrow> addr \<Rightarrow> addr \<Rightarrow>
    ('d, 'a) fs_state_scheme \<Rightarrow> (addr \<times> ('d, 'a) fs_state_scheme) option" where
  "fat16_find_item_in_directory io idisk fat_directory name s = find_item_loop io idisk fat_directory name 0 0 s"

definition fat16_fat_item_free :: "addr \<Rightarrow> ('d, 'a) fs_state_scheme \<Rightarrow> ('d, 'a) fs_state_scheme" where
  "fat16_fat_item_free item s =
     (let s1 = (if ld32 (ram s) (item + 4) = FAT_ITEM_TYPE_DIRECTORY
                then fat16_free_directory (ld32 (ram s) item) s
                else if ld32 (ram s) (item + 4) = FAT_ITEM_TYPE_FILE
                then kFree (ld32 (ram s) item) s else s)
      in kFree item s1)"

partial_function (option) entry_loop :: "'d ports \<Rightarrow> addr \<Rightarrow> addr \<Rightarrow> addr \<Rightarrow>
    ('d, 'a) fs_state_scheme \<Rightarrow> (addr \<times> ('d, 'a) fs_state_scheme) option" where
  "entry_loop io idisk current_item next_part s =
     (if next_part \<noteq> 0 then
        if ld32 (ram s) (current_item + 4) \<noteq> FAT_ITEM_TYPE_DIRECTORY then Some (0, s)
        else do {
          (temp_item, s1) \<leftarrow> fat16_find_item_in_directory io idisk (ld32 (ram s) current_item) (ld32 (ram s) next_part) s;
          let s2 = fat16_fat_item_free current_item s1;
          entry_loop io idisk temp_item (ld32 (ram s2) (next_part + 4)) s2
        }
      else Some (current_item, s))"

definition fat16_get_directory_entry :: "'d ports \<Rightarrow> addr \<Rightarrow> addr \<Rightarrow>
    ('d, 'a) fs_state_scheme \<Rightarrow> (addr \<times> ('d, 'a) fs_state_scheme) option" where
  "fat16_get_directory_entry io idisk path s =
     (let private = ld32 (ram s) (idisk + 16)
      in do {
        (root_item, s1) \<leftarrow> fat16_find_item_in_directory io idisk (private + 64) (ld32 (ram s) path) s;
        if root_item = 0 then Some (0, s1)
        else entry_loop io idisk root_item (ld32 (ram s1) (path + 4)) s1
      })"

definition fat16_open :: "'d ports \<Rightarrow> addr \<Rightarrow> addr \<Rightarrow> u32 \<Rightarrow>
    ('d, 'a) fs_state_scheme \<Rightarrow> (addr \<times> ('d, 'a) fs_state_scheme) option" where
  "fat16_open io idisk path mode s =
     (if mode \<noteq> FILE_MODE_READ then Some (- ERDONLY, s)
      else
        let (descriptor, s1) = kZalloc 8 s
        in if descriptor = 0 then Some (- ENOMEM, s1)
           else do {
             (item, s2) \<leftarrow> fat16_get_directory_entry io idisk path s1;
             let s3 = s2\<lparr>ram := st32 (ram s2) descriptor item\<rparr>;
             if ld32 (ram s3) descriptor = 0 then Some (- EIO, s3)
             else Some (descriptor, s3\<lparr>ram := st32 (ram s3) (descriptor + 4) 0\<rparr>)
           })"

function read_loop :: "'d ports \<Rightarrow> addr \<Rightarrow> addr \<Rightarrow> u32 \<Rightarrow> u32 \<Rightarrow> u32 \<Rightarrow> u32 \<Rightarrow> addr \<Rightarrow>
    ('d, 'a) fs_state_scheme \<Rightarrow> (u32 \<times> ('d, 'a) fs_state_scheme) option" where
  "read_loop io idisk item sz nmemb i offset out_ptr s =
     (if i < nmemb then
        (case fat16_read_internal io idisk (fat16_get_first_cluster (ram s) item) offset sz out_ptr s of
           None \<Rightarrow> None
         | Some (res, s1) \<Rightarrow>
             if ISERR res then Some (res, s1)
             else read_loop io idisk item sz nmemb (i + 1) (offset + sz) (out_ptr + sz) s1)
      else Some (nmemb, s))"
  by pat_completeness auto
termination
  by (relation "measure (\<lambda>(io, idisk, item, sz, nmemb, i, offset, out_ptr, s). unat nmemb - unat i)")
    (auto simp: unat_Suc_less word_less_nat_alt)

declare read_loop.simps [simp del]

definition fat16_read :: "'d ports \<Rightarrow> addr \<Rightarrow> addr \<Rightarrow> u32 \<Rightarrow> u32 \<Rightarrow> addr \<Rightarrow>
    ('d, 'a) fs_state_scheme \<Rightarrow> (u32 \<times> ('d, 'a) fs_state_scheme) option" where
  "fat16_read io idisk fat_desc sz nmemb out_ptr s =
     (let item = ld32 (ram s) (ld32 (ram s) fat_desc);
          offset = ld32 (ram s) (fat_desc + 4)
      in read_loop io idisk item sz nmemb 0 offset out_ptr s)"

definition fat16_seek :: "addr \<Rightarrow> u32 \<Rightarrow> u32 \<Rightarrow> ('d, 'a) fs_state_scheme \<Rightarrow> u32 \<times> ('d, 'a) fs_state_scheme" where
  "fat16_seek desc offset seek_mode s =
     (let desc_item = ld32 (ram s) desc
      in if ld32 (ram s) (desc_item + 4) \<noteq> FAT_ITEM_TYPE_FILE then (- EINVARG, s)
         else
           let ritem = ld32 (ram s) desc_item
           in if ld32 (ram s) (ritem + 28) \<le> offset then (- EIO, s)
              else if seek_mode = SEEK_SET then (0, s\<lparr>ram := st32 (ram s) (desc + 4) offset\<rparr>)
              else if seek_mode = SEEK_END then (- EUNIMP, s)
              else if seek_mode = SEEK_CUR
              then (0, s\<lparr>ram := st32 (ram s) (desc + 4) (ld32 (ram s) (desc + 4) + offset)\<rparr>)
              else (- EINVARG, s))"

definition fat16_stat :: "addr \<Rightarrow> addr \<Rightarrow> addr \<Rightarrow> ('d, 'a) fs_state_scheme \<Rightarrow> u32 \<times> ('d, 'a) fs_state_scheme" where
  "fat16_stat idisk descriptor stat s =
     (let desc_item = ld32 (ram s) descriptor
      in if ld32 (ram s) (desc_item + 4) \<noteq> FAT_ITEM_TYPE_FILE then (- EINVARG, s)
         else
           let ritem = ld32 (ram s) desc_item;
               m1 = st32 (ram s) (stat + 4) (ld32 (ram s) (ritem + 28));
               m2 = st32 m1 stat 0x00;
               m3 = (if m2 (ritem + 11) AND FAT_FILE_READ_ONLY \<noteq> 0
                     then st32 m2 stat (ld32 m2 stat OR FILE_STAT_READ_ONLY) else m2)
           in (0, s\<lparr>ram := m3\<rparr>))"

definition fat16_free_file_descriptor :: "addr \<Rightarrow> ('d, 'a) fs_state_scheme \<Rightarrow> ('d, 'a) fs_state_scheme" where
  "fat16_free_file_descriptor desc s = kFree desc (fat16_fat_item_free (ld32 (ram s) desc) s)"

definition fat16_close :: "addr \<Rightarrow> ('d, 'a) fs_state_scheme \<Rightarrow> u32 \<times> ('d, 'a) fs_state_scheme" where
  "fat16_close private s = (0, fat16_free_file_descriptor private s)"

definition fat16_functions :: "'d ports \<Rightarrow> ('d, 'a) fs_state_scheme fileSystem" where
  "fat16_functions io = \<lparr>
     resolve_fn = fat16_resolve io,
     open_fn = fat16_open io,
     read_fn = fat16_read io,
     seek_fn = (\<lambda>private offset seek_mode s. Some (fat16_seek private offset seek_mode s)),
     stat_fn = (\<lambda>idisk private stat s. Some (fat16_stat idisk private stat s)),
     close_fn = (\<lambda>private s. Some (fat16_close private s))\<rparr>"

section \<open>Reading a file\<close>

text \<open>The structures a read goes through, and what they must hold: the disk with its sector size, the
  volume with its stream and cluster size, and a file whose first cluster starts at the byte \<open>start\<close> of the
  disk and has \<open>cb\<close> bytes.\<close>

definition file_stream :: "mem \<Rightarrow> addr \<Rightarrow> addr" where
  "file_stream m idisk = ld32 m (ld32 m (idisk + 16) + 80)"

definition file_item :: "mem \<Rightarrow> addr \<Rightarrow> addr" where
  "file_item m desc = ld32 m (ld32 m desc)"

definition file_structures :: "mem \<Rightarrow> addr \<Rightarrow> addr \<Rightarrow> addr set" where
  "file_structures m idisk desc =
     region idisk 20 \<union> region (ld32 m (idisk + 16)) 92 \<union> region (file_stream m idisk + 4) 4 \<union>
     region desc 8 \<union> region (ld32 m desc) 8 \<union> region (file_item m desc) 32"

definition file_starts :: "mem \<Rightarrow> addr \<Rightarrow> addr \<Rightarrow> nat \<Rightarrow> nat \<Rightarrow> bool" where
  "file_starts m idisk desc start cb \<longleftrightarrow>
     ld32 m (idisk + 4) = 512 \<and> ld32 m (file_stream m idisk + 4) = idisk \<and>
     cb = 512 * unat (m (ld32 m (idisk + 16) + 13)) \<and>
     unat (fat16_get_first_cluster m (file_item m desc)) < 2147483648 \<and>
     start = 512 * unat (fat16_cluster_to_sector m (ld32 m (idisk + 16)) (fat16_get_first_cluster m (file_item m desc)))"

lemma file_structures_kept:
  assumes "\<And>a. a \<in> file_structures m idisk desc \<Longrightarrow> m' a = m a"
  shows "ld32 m' (idisk + 16) = ld32 m (idisk + 16)" "file_stream m' idisk = file_stream m idisk"
    "file_item m' desc = file_item m desc" "file_structures m' idisk desc = file_structures m idisk desc"
    "file_starts m' idisk desc start cb = file_starts m idisk desc start cb"
    "fat16_get_first_cluster m' (file_item m desc) = fat16_get_first_cluster m (file_item m desc)"
    "ld32 m' (desc + 4) = ld32 m (desc + 4)" "ld32 m' desc = ld32 m desc"
proof -
  have word: "ld32 m' (p + i) = ld32 m (p + i)"
    if "region p n \<subseteq> file_structures m idisk desc" "unat i + 4 \<le> unat n" for p i n
    using field_subset [of i 4 n p] that by (intro ld32_cong assms) (auto simp del: mem_region)
  have byte: "m' (p + i) = m (p + i)" if "region p n \<subseteq> file_structures m idisk desc" "i < n" for p i n
    using that by (intro assms) (auto simp: subset_iff)
  have parts: "region idisk 20 \<subseteq> file_structures m idisk desc" "region (ld32 m (idisk + 16)) 92 \<subseteq> file_structures m idisk desc"
    "region (file_stream m idisk + 4) 4 \<subseteq> file_structures m idisk desc" "region desc 8 \<subseteq> file_structures m idisk desc"
    "region (ld32 m desc) 8 \<subseteq> file_structures m idisk desc" "region (file_item m desc) 32 \<subseteq> file_structures m idisk desc"
    by (auto simp: file_structures_def simp del: mem_region)
  note word_at = parts [THEN word]
  show p: "ld32 m' (idisk + 16) = ld32 m (idisk + 16)" using word_at(1) [of 16] by simp
  show st: "file_stream m' idisk = file_stream m idisk" using word_at(2) [of 80] p by (simp add: file_stream_def)
  show d: "ld32 m' (desc + 4) = ld32 m (desc + 4)" "ld32 m' desc = ld32 m desc"
    using word_at(4) [of 4] word_at(4) [of 0] by simp_all
  show it: "file_item m' desc = file_item m desc" using word_at(5) [of 0] d by (simp add: file_item_def)
  show "file_structures m' idisk desc = file_structures m idisk desc" by (simp add: file_structures_def p st d it)
  have half: "ld16 m' (file_item m desc + i) = ld16 m (file_item m desc + i)" if "i < 31" for i
  proof (rule ld16_cong)
    have "i < 32" "i + 1 < 32" using that by unat_arith+
    then show "m' (file_item m desc + i) = m (file_item m desc + i)" "m' (file_item m desc + i + 1) = m (file_item m desc + i + 1)"
      using byte [OF parts(6), of i] byte [OF parts(6), of "i + 1"] by (simp_all add: add.assoc)
  qed
  show cl: "fat16_get_first_cluster m' (file_item m desc) = fat16_get_first_cluster m (file_item m desc)"
    by (simp add: fat16_get_first_cluster_def half)
  show "file_starts m' idisk desc start cb = file_starts m idisk desc start cb"
    using word_at(1) [of 4] word_at(2) [of 76] word_at(3) [of 0] byte [OF parts(2), of 13]
    by (simp add: file_starts_def p st it cl fat16_cluster_to_sector_def)
qed

lemma fat16_read_block:
  assumes dev: "ata_device io xfer data" and begins: "file_starts (ram s) (disk s) desc start cb"
    and n: "0 < n" "off + n \<le> cb" "start + cb + 512 < 2147483648"
    and apart: "region (file_stream (ram s) (disk s)) 8 \<inter> region out (of_nat n) = {}"
  shows "\<exists>m d'. fat16_read_internal io (disk s) (fat16_get_first_cluster (ram s) (file_item (ram s) desc)) (of_nat off) (of_nat n) out s =
      Some (0, s\<lparr>ram := m, dev := d'\<rparr>) \<and>
    (\<forall>k<n. m (out + of_nat k) = disk_byte data (start + off + k)) \<and>
    same_outside (region out (of_nat n) \<union> region (file_stream (ram s) (disk s)) 4) (ram s) m"
proof -
  define stream priv cl where "stream = file_stream (ram s) (disk s)" and "priv = ld32 (ram s) (disk s + 16)"
    and "cl = fat16_get_first_cluster (ram s) (file_item (ram s) desc)"
  define s1 where "s1 = s\<lparr>ram := st32 (ram s) stream (of_nat (start + off))\<rparr>"
  have f: "ld32 (ram s) (disk s + 4) = 512" "ld32 (ram s) (stream + 4) = disk s" "cb = 512 * unat (ram s (priv + 13))"
    "unat cl < 2147483648" "start = 512 * unat (fat16_cluster_to_sector (ram s) priv cl)"
    using begins by (simp_all add: file_starts_def stream_def priv_def cl_def)
  have "unat (ucast (ram s (priv + 13)) :: u32) = unat (ram s (priv + 13))"
    using unsigned_less [of "ram s (priv + 13)", where 'a = nat] by (simp add: unsigned_ucast_eq take_bit_nat_eq_self_iff)
  then have cb: "ucast (ram s (priv + 13)) * 512 = (of_nat cb :: u32)" "cb < 2147483648" "cb \<noteq> 0"
    using f(3) n by (simp_all add: word_unat_eq_iff unat_mult_u32)
  have cb0: "(of_nat cb :: u32) \<noteq> 0" using cb(2,3) by (simp add: word_unat_eq_iff)
  have small: "off < 2147483648" "off < cb" using n cb by simp_all
  have "\<not> 0 <s (0 :: u32)" by (simp add: word_sless_alt)
  then have loop: "fat16_get_cluster_for_offset io (disk s) cl (of_nat off) s = Some (cl, s)"
    using cb cb0 small cdivmod_of_nat [OF small(1) cb(2)] f(1)
    by (simp add: fat16_get_cluster_for_offset_def priv_def [symmetric] cluster_loop.simps [of io "disk s" 0 0])
  have pos: "fat16_cluster_to_sector (ram s) priv cl * 512 + of_nat off = (of_nat (start + off) :: u32)"
    using f(5) by (simp add: mult.commute)
  have "\<not> of_nat cb <s (of_nat n :: u32)"
    using sint_of_nat_u32 [of n] sint_of_nat_u32 [of cb] n cb(2) by (simp add: word_sless_alt)
  moreover have "\<not> cl <s 0" "\<not> 0 <s (0 :: u32)" using f(4) by (simp_all add: word_sless_alt sint_small)
  moreover obtain m d' where read: "diskSteamerRead io stream out (of_nat n) s1 = Some (0, s1\<lparr>ram := m, dev := d'\<rparr>)"
    "\<forall>k<n. m (out + of_nat k) = disk_byte data (start + off + k)"
    "same_outside (region out (of_nat n) \<union> region stream 4) (ram s1) m"
  proof -
    have "region (stream + 4) 4 \<inter> region (stream + 0) 4 = {}" using field_disjoint [of 0 4 4 4 stream] by auto
    then have "ld32 (ram s1) (stream + 4) = disk s1"
      using ld32_same_outside [OF same_outside_st32, of "stream + 4" stream] f(2) by (simp add: s1_def)
    moreover have "ld32 (ram s1) stream = of_nat (start + off)" by (simp add: s1_def)
    ultimately show ?thesis
      using stream_read [OF dev, of s1 stream "start + off" n out] n apart that by (auto simp: stream_def)
  qed
  moreover have s1': "s\<lparr>ram := st32 (ram s) stream (of_nat start + of_nat off)\<rparr> = s1" by (simp add: s1_def)
  ultimately have "fat16_read_internal_from_stream io (disk s) stream cl (of_nat off) (of_nat n) out s =
      Some (0, s1\<lparr>ram := m, dev := d'\<rparr>)"
    using loop cb cb0 f(1) cdivmod_of_nat [OF small(1) cb(2)] small pos
    by (subst fat16_read_internal_from_stream.simps)
      (simp add: priv_def [symmetric] diskSteamerSeek_def Let_def)
  moreover have "same_outside (region out (of_nat n) \<union> region stream 4) (ram s) m"
    using read(3) by (intro same_outside_trans [OF same_outside_st32 [of stream "ram s"] read(3) [unfolded s1_def, simplified]]) auto
  ultimately show ?thesis
    using read(2) by (auto simp: fat16_read_internal_def stream_def [symmetric] file_stream_def [symmetric] cl_def [symmetric] s1_def)
qed

lemma two_words: "region p 8 \<subseteq> region p 4 \<union> region (p + 4) (4 :: u32)"
proof
  fix a assume "a \<in> region p 8"
  then have "a - p < 8" by simp
  moreover have "b < 4 \<or> b - 4 < 4" if "b < 8" for b :: u32 using that by unat_arith
  ultimately have "a - p < 4 \<or> a - p - 4 < 4" by blast
  then show "a \<in> region p 4 \<union> region (p + 4) 4" by (simp add: diff_diff_eq)
qed

lemma region_of_nat: "n < 4294967296 \<Longrightarrow> a \<in> region p (of_nat n) \<longleftrightarrow> unat (a - p) < n"
  by (simp add: word_less_nat_alt)

lemma read_loop_spec:
  assumes dev: "ata_device io xfer data" and sz: "0 < sz" and room: "start + cb + 512 < 2147483648"
  shows "unat i + n = unat nmemb \<Longrightarrow> file_starts (ram s) (disk s) desc start cb \<Longrightarrow> off + n * sz \<le> cb \<Longrightarrow>
    stream = file_stream (ram s) (disk s) \<Longrightarrow> item = file_item (ram s) desc \<Longrightarrow>
    region stream 4 \<inter> file_structures (ram s) (disk s) desc = {} \<Longrightarrow>
    region out (of_nat (n * sz)) \<inter> (file_structures (ram s) (disk s) desc \<union> region stream 4) = {} \<Longrightarrow>
    \<exists>m d'. read_loop io (disk s) item (of_nat sz) nmemb i (of_nat off) out s = Some (nmemb, s\<lparr>ram := m, dev := d'\<rparr>) \<and>
      (\<forall>k<n * sz. m (out + of_nat k) = disk_byte data (start + off + k)) \<and>
      same_outside (region out (of_nat (n * sz)) \<union> region stream 4) (ram s) m"
proof (induction n arbitrary: i off out s)
  case 0
  then have "\<not> i < nmemb" by (simp add: word_less_nat_alt)
  then have "read_loop io (disk s) item (of_nat sz) nmemb i (of_nat off) out s = Some (nmemb, s\<lparr>ram := ram s, dev := dev s\<rparr>)"
    by (simp add: read_loop.simps [of io "disk s"])
  then show ?case by (intro exI [of _ "ram s"] exI [of _ "dev s"]) simp
next
  case (Suc n)
  note begins = Suc.prems(2) and stream = Suc.prems(4) and item = Suc.prems(5) and apart = Suc.prems(6,7)
  have bounds: "off + sz \<le> cb" "Suc n * sz < 4294967296" "n * sz < 4294967296" "sz < 4294967296"
    using Suc.prems(3) room by (simp_all add: algebra_simps)
  have i: "i < nmemb" "unat (i + 1) + n = unat nmemb"
  proof -
    show "i < nmemb" using Suc.prems(1) by (simp add: word_less_nat_alt)
    then have "unat (i + 1) = unat i + 1" by unat_arith
    then show "unat (i + 1) + n = unat nmemb" using Suc.prems(1) by simp
  qed
  have all: "a \<in> region out (of_nat (Suc n * sz)) \<longleftrightarrow> unat (a - out) < Suc n * sz" for a
    using bounds(2) by (rule region_of_nat)
  have first: "region out (of_nat sz) \<subseteq> region out (of_nat (Suc n * sz))"
    using all region_of_nat [OF bounds(4)] by (auto simp del: mem_region)
  have rest: "region (out + of_nat sz) (of_nat (n * sz)) \<subseteq> region out (of_nat (Suc n * sz))"
  proof (rule field_subset)
    show "unat (of_nat sz :: u32) + unat (of_nat (n * sz) :: u32) \<le> unat (of_nat (Suc n * sz) :: u32)"
      unfolding unat_of_nat_u32 [OF bounds(2)] unat_of_nat_u32 [OF bounds(3)] unat_of_nat_u32 [OF bounds(4)] by simp
  qed
  have "region (file_stream (ram s) (disk s)) 8 \<inter> region out (of_nat sz) = {}"
    using two_words [of stream] apart first stream by (auto simp: file_structures_def simp del: mem_region)
  from fat16_read_block [OF dev begins sz bounds(1) room this]
  obtain m1 d1 where one: "fat16_read_internal io (disk s) (fat16_get_first_cluster (ram s) item) (of_nat off) (of_nat sz) out s =
      Some (0, s\<lparr>ram := m1, dev := d1\<rparr>)"
    "\<forall>k < sz. m1 (out + of_nat k) = disk_byte data (start + off + k)"
    "same_outside (region out (of_nat sz) \<union> region stream 4) (ram s) m1"
    unfolding item stream by blast
  have "m1 a = ram s a" if "a \<in> file_structures (ram s) (disk s) desc" for a
    using one(3) apart first that by (auto intro!: same_outsideD [OF one(3)] simp del: mem_region)
  note kept = file_structures_kept [OF this]
  let ?s1 = "s\<lparr>ram := m1, dev := d1\<rparr>"
  have "\<exists>m d'. read_loop io (disk ?s1) item (of_nat sz) nmemb (i + 1) (of_nat (off + sz)) (out + of_nat sz) ?s1 =
      Some (nmemb, ?s1\<lparr>ram := m, dev := d'\<rparr>) \<and>
    (\<forall>k<n * sz. m (out + of_nat sz + of_nat k) = disk_byte data (start + (off + sz) + k)) \<and>
    same_outside (region (out + of_nat sz) (of_nat (n * sz)) \<union> region stream 4) (ram ?s1) m"
  proof (rule Suc.IH)
    show "region (out + of_nat sz) (of_nat (n * sz)) \<inter> (file_structures (ram ?s1) (disk ?s1) desc \<union> region stream 4) = {}"
      using apart rest by (simp add: kept) blast
  qed (use Suc.prems i kept in \<open>simp_all add: algebra_simps\<close>)
  then obtain m2 d2 where more: "read_loop io (disk s) item (of_nat sz) nmemb (i + 1) (of_nat off + of_nat sz) (out + of_nat sz) ?s1 =
      Some (nmemb, s\<lparr>ram := m2, dev := d2\<rparr>)"
    "\<forall>k<n * sz. m2 (out + of_nat sz + of_nat k) = disk_byte data (start + (off + sz) + k)"
    "same_outside (region (out + of_nat sz) (of_nat (n * sz)) \<union> region stream 4) m1 m2" by auto
  have "m2 (out + of_nat k) = disk_byte data (start + off + k)" if k: "k < Suc n * sz" for k
  proof (cases "k < sz")
    case True
    have "out + of_nat k \<in> region out (of_nat (Suc n * sz))" unfolding all using k bounds(2) by simp
    then have "out + of_nat k \<notin> region stream 4" using apart(2) by blast
    moreover have "out + of_nat k \<notin> region (out + of_nat sz) (of_nat (n * sz))"
      using offset_region [of k sz "n * sz" out] True bounds by simp
    ultimately show ?thesis using same_outsideD [OF more(3)] one(2) True by simp
  next
    case False
    then obtain j where j: "k = sz + j" "j < n * sz" using k by (auto simp: le_iff_add not_less)
    then show ?thesis using more(2) by (simp add: add.assoc)
  qed
  moreover have "same_outside (region out (of_nat (Suc n * sz)) \<union> region stream 4) (ram s) m2"
    using first rest by (intro same_outside_trans [OF one(3) more(3)]) blast+
  moreover have "read_loop io (disk s) item (of_nat sz) nmemb i (of_nat off) out s = Some (nmemb, s\<lparr>ram := m2, dev := d2\<rparr>)"
    using i(1) one(1) more(1) item by (subst read_loop.simps) (simp add: ISERR_def)
  ultimately show ?case by blast
qed

section \<open>File names\<close>

text \<open>A field of a directory entry: characters up to the first zero or blank.\<close>

fun name_field :: "mem \<Rightarrow> addr \<Rightarrow> u8 list \<Rightarrow> bool" where
  "name_field m p [] \<longleftrightarrow> m p = 0 \<or> m p = 0x20"
| "name_field m p (x # xs) \<longleftrightarrow> x \<noteq> 0 \<and> x \<noteq> 0x20 \<and> m p = x \<and> name_field m (p + 1) xs"

lemma str_bytes_0: "p \<in> str_bytes p n"
  unfolding str_bytes_def by (intro CollectI exI [of _ 0]) simp

lemma name_field_cong:
  "(\<And>a. a \<in> str_bytes p (length xs) \<Longrightarrow> m' a = m a) \<Longrightarrow> name_field m' p xs = name_field m p xs"
proof (induction xs arbitrary: p)
  case Nil
  then show ?case using str_bytes_0 by simp
next
  case (Cons x xs)
  have "str_bytes (p + 1) (length xs) \<subseteq> str_bytes p (length (x # xs))" by (simp add: str_bytes_Suc)
  then show ?case using Cons.IH [of "p + 1"] Cons.prems str_bytes_0 [of p "length (x # xs)"] by auto
qed

lemma str_bytes_region: "n < unat k \<Longrightarrow> str_bytes p n \<subseteq> region p k"
  by (auto simp: str_bytes_def word_less_nat_alt unat_of_nat take_bit_nat_eq_self_iff order_le_less_trans [OF _ u32_bound [of k]])

lemma name_field_chars: "name_field m p xs \<Longrightarrow> 0 \<notin> set xs"
  by (induction xs arbitrary: p) auto

lemma proper_string_spec:
  assumes "name_field m p xs" "str_bytes out (length xs) \<inter> str_bytes p (length xs) = {}" "length xs < 4294967295"
  shows "\<exists>m'. fat16_to_proper_string m out p = Some (m', out + of_nat (length xs)) \<and>
    (\<forall>i<length xs. m' (out + of_nat i) = xs ! i) \<and>
    m' (out + of_nat (length xs)) \<in> {0, m (out + of_nat (length xs))} \<and>
    same_outside (str_bytes out (length xs)) m m'"
  using assms
proof (induction xs arbitrary: m p out)
  case Nil
  then show ?case
    using str_bytes_0 [of out 0] by (subst fat16_to_proper_string.simps) (auto simp: same_outside_def)
next
  case (Cons x xs)
  let ?m1 = "m(out := x)"
  have sub: "str_bytes (q + 1) (length xs) \<subseteq> str_bytes q (length (x # xs))" for q by (simp add: str_bytes_Suc)
  have out0: "out \<notin> str_bytes (out + 1) (length xs)"
  proof
    assume "out \<in> str_bytes (out + 1) (length xs)"
    then obtain i where "out = out + 1 + of_nat i" "i \<le> length xs" by (auto simp: str_bytes_def)
    then have "(of_nat (Suc i) :: u32) = 0" by (simp add: add.assoc)
    moreover have "Suc i < 4294967296" using \<open>i \<le> length xs\<close> Cons.prems(3) by simp
    ultimately show False by (metis unat_of_nat_u32 unat_0 nat.distinct(1))
  qed
  have "out \<notin> str_bytes p (length (x # xs))" using Cons.prems(2) str_bytes_0 by blast
  then have "?m1 a = m a" if "a \<in> str_bytes (p + 1) (length xs)" for a using that sub [of p] by auto
  then have "name_field ?m1 (p + 1) xs" using Cons.prems(1) name_field_cong [of "p + 1" xs ?m1 m] by simp
  moreover have "str_bytes (out + 1) (length xs) \<inter> str_bytes (p + 1) (length xs) = {}"
    using Cons.prems(2) sub by blast
  moreover have "length xs < 4294967295" using Cons.prems(3) by simp
  ultimately obtain m' where m': "fat16_to_proper_string ?m1 (out + 1) (p + 1) = Some (m', out + 1 + of_nat (length xs))"
    "\<forall>i<length xs. m' (out + 1 + of_nat i) = xs ! i"
    "m' (out + 1 + of_nat (length xs)) \<in> {0, ?m1 (out + 1 + of_nat (length xs))}"
    "same_outside (str_bytes (out + 1) (length xs)) ?m1 m'"
    using Cons.IH [of ?m1 "p + 1" "out + 1"] by blast
  have run: "fat16_to_proper_string m out p = Some (m', out + of_nat (length (x # xs)))"
    using Cons.prems(1) m'(1) by (subst fat16_to_proper_string.simps) (simp add: add.assoc)
  have here: "m' out = x" using same_outsideD [OF m'(4) out0] by simp
  have "m' (out + of_nat i) = (x # xs) ! i" if "i < length (x # xs)" for i
    using that here m'(2) by (cases i) (auto simp: add.assoc)
  moreover have "out + 1 + of_nat (length xs) \<noteq> out"
    using out0 by (auto simp: str_bytes_def)
  moreover have "same_outside (str_bytes out (length (x # xs))) m m'"
    using same_outside_trans [OF same_outside_upd [OF same_outside_refl str_bytes_0] m'(4) order_refl sub] .
  ultimately show ?case using run m'(3) by (auto simp: add.assoc)
qed

lemma extension_appended:
  assumes "\<forall>i<length nm. m1 (out + of_nat i) = nm ! i" "\<forall>k<unat max_len. length nm < k \<longrightarrow> m1 (out + of_nat k) = 0"
    and "name_field m1 (item + 8) ext" "str_bytes (item + 8) (length ext) \<inter> region out max_len = {}"
    and "length nm + length ext + 2 \<le> unat max_len" "0 \<notin> set nm"
  shows "\<exists>m2 p. fat16_to_proper_string (m1(out + of_nat (length nm) := of_char CHR ''.'')) (out + of_nat (length nm) + 1) (item + 8) =
      Some (m2, p) \<and> cstr m2 out (nm @ of_char CHR ''.'' # ext) \<and> same_outside (region out max_len) m1 m2"
proof -
  let ?n = "length nm" and ?e = "length ext"
  let ?dot = "m1(out + of_nat ?n := of_char CHR ''.'')" and ?o = "out + of_nat ?n + 1"
  have neq: "out + of_nat i \<noteq> out + of_nat j" if "i \<noteq> j" "i \<le> ?n + ?e + 1" "j \<le> ?n + ?e + 1" for i j
    using that assms(5) u32_bound [of max_len] by (simp add: of_nat_u32_eq)
  have o: "?o + of_nat j = out + of_nat (?n + 1 + j)" for j by (simp add: algebra_simps)
  have away: "out + of_nat i \<notin> str_bytes ?o ?e" if "i \<le> ?n" for i
    using neq [of i "?n + 1 + j" for j] that by (auto simp: str_bytes_def o simp del: of_nat_add of_nat_Suc)
  have dest: "str_bytes ?o ?e \<subseteq> region out max_len"
  proof
    fix a assume "a \<in> str_bytes ?o ?e"
    then obtain j where "a = out + of_nat (?n + 1 + j)" "j \<le> ?e" unfolding str_bytes_def mem_Collect_eq o by blast
    then have "a \<in> str_bytes out (?n + 1 + ?e)" unfolding str_bytes_def mem_Collect_eq by (metis add_le_cancel_left)
    then show "a \<in> region out max_len" using str_bytes_region [of "?n + 1 + ?e" max_len out] assms(5) by (auto simp del: mem_region)
  qed
  have outd: "same_outside (region out max_len) m1 ?dot"
  proof (rule same_outside_upd [OF same_outside_refl])
    have "out + of_nat ?n \<in> str_bytes out ?n" by (auto simp: str_bytes_def)
    then show "out + of_nat ?n \<in> region out max_len" using str_bytes_region [of ?n max_len out] assms(5) by (auto simp del: mem_region)
  qed
  have "?dot a = m1 a" if "a \<in> str_bytes (item + 8) ?e" for a using that assms(4) by (intro same_outsideD [OF outd]) blast
  then have "name_field ?dot (item + 8) ext" using name_field_cong [of "item + 8" ext ?dot m1] assms(3) by blast
  then obtain m2 where m2: "fat16_to_proper_string ?dot ?o (item + 8) = Some (m2, ?o + of_nat ?e)"
    "\<forall>i<?e. m2 (?o + of_nat i) = ext ! i" "m2 (?o + of_nat ?e) \<in> {0, ?dot (?o + of_nat ?e)}"
    "same_outside (str_bytes ?o ?e) ?dot m2"
    using proper_string_spec [of ?dot "item + 8" ext ?o] dest assms(4,5) u32_bound [of max_len] by fastforce
  have name: "m2 (out + of_nat i) = (nm @ [of_char CHR ''.'']) ! i" if "i \<le> ?n" for i
    using same_outsideD [OF m2(4) away [OF that]] assms(1) neq [of i ?n] that by (auto simp: nth_append)
  have "m1 (?o + of_nat ?e) = 0" unfolding o by (rule assms(2) [rule_format]) (use assms(5) in simp_all)
  then have last0: "m2 (?o + of_nat ?e) = 0" using m2(3) neq [of "?n + 1 + ?e" ?n] by (simp add: o del: of_nat_add of_nat_Suc)
  have "m2 (out + of_nat i) = (nm @ of_char CHR ''.'' # ext) ! i" if "i < length (nm @ of_char CHR ''.'' # ext)" for i
  proof (cases "i \<le> ?n")
    case True
    then show ?thesis using name by (auto simp: nth_append)
  next
    case False
    then obtain j where "i = ?n + 1 + j" using less_imp_Suc_add [of ?n i] by auto
    then show ?thesis using m2(2) that unfolding o by (simp add: nth_append del: of_nat_add of_nat_Suc)
  qed
  moreover have "0 \<notin> set (nm @ of_char CHR ''.'' # ext)" using assms(6) name_field_chars [OF assms(3)] by simp
  moreover have "?o + of_nat ?e = out + of_nat (length (nm @ of_char CHR ''.'' # ext))" unfolding o by simp
  ultimately have "cstr m2 out (nm @ of_char CHR ''.'' # ext)" using last0 unfolding cstr_iff by metis
  moreover have "same_outside (region out max_len) m1 m2" using same_outside_trans [OF outd m2(4)] dest by auto
  ultimately show ?thesis using m2(1) by blast
qed

lemma entry_fields:
  assumes "length nm \<le> 11" "length ext \<le> 3"
  shows "str_bytes item (length nm) \<subseteq> region item 32" "str_bytes (item + 8) (length ext) \<subseteq> region item (32 :: u32)"
proof -
  show "str_bytes item (length nm) \<subseteq> region item 32" using assms(1) by (intro str_bytes_region) simp
  have "str_bytes (item + 8) (length ext) \<subseteq> region (item + 8) 4" using assms(2) by (intro str_bytes_region) simp
  also have "\<dots> \<subseteq> region item 32" using field_subset [of 8 4 32 item] by simp
  finally show "str_bytes (item + 8) (length ext) \<subseteq> region item 32" .
qed

lemma full_filename_spec:
  assumes "name_field m item nm" "name_field m (item + 8) ext" "length nm \<le> 11" "length ext \<le> 3"
    and "length nm + length ext + 2 \<le> unat max_len" "region out max_len \<inter> region item 32 = {}"
  shows "\<exists>m'. fat16_get_full_filename_with_extension m item out max_len = Some m' \<and>
    cstr m' out (nm @ (if ext = [] then [] else of_char CHR ''.'' # ext)) \<and>
    same_outside (region out max_len) m m'"
proof -
  let ?m0 = "memset m out 0 max_len" and ?n = "length nm" and ?e = "length ext"
  have zero: "?m0 (out + of_nat i) = 0" if "i < unat max_len" for i
    using that u32_bound [of max_len] by (simp add: memset_apply word_less_nat_alt)
  have keep0: "same_outside (region out max_len) m ?m0" by (rule memset_frame)
  have in_buffer: "str_bytes out k \<subseteq> region out max_len" if "k < unat max_len" for k using that by (rule str_bytes_region)
  note fields = entry_fields [OF assms(3,4), of item]
  have kept: "m' a = m a" if "a \<in> region item 32" "same_outside (region out max_len) m m'" for a m'
    using that assms(6) same_outsideD by blast
  have "name_field ?m0 item nm" using assms(1) fields(1) kept keep0 by (subst name_field_cong) auto
  then obtain m1 where m1: "fat16_to_proper_string ?m0 out item = Some (m1, out + of_nat ?n)"
    "\<forall>i<?n. m1 (out + of_nat i) = nm ! i" "m1 (out + of_nat ?n) \<in> {0, ?m0 (out + of_nat ?n)}"
    "same_outside (str_bytes out ?n) ?m0 m1"
    using proper_string_spec [of ?m0 item nm out] in_buffer [of ?n] assms(3,5,6) fields(1) by fastforce
  have out1: "same_outside (region out max_len) m m1"
    using same_outside_trans [OF keep0 m1(4)] in_buffer [of ?n] assms(5) by auto
  have ext8: "m1 (item + 8) = m (item + 8)"
    using kept [OF _ out1] fields(2) str_bytes_0 [of "item + 8" ?e] by blast
  have nm0: "0 \<notin> set nm" using name_field_chars [OF assms(1)] .
  show ?thesis
  proof (cases ext)
    case Nil
    then have "fat16_get_full_filename_with_extension m item out max_len = Some m1"
      using m1(1) ext8 assms(2) by (auto simp: fat16_get_full_filename_with_extension_def)
    moreover have "cstr m1 out nm" using m1(2,3) zero [of ?n] assms(5) nm0 by (simp add: cstr_iff)
    ultimately show ?thesis using out1 Nil by auto
  next
    case (Cons y ys)
    have "name_field m1 (item + 8) ext" using assms(2) fields(2) kept out1 by (subst name_field_cong) auto
    moreover have "m1 (out + of_nat k) = 0" if "k < unat max_len" "?n < k" for k
    proof -
      have "out + of_nat k \<notin> str_bytes out ?n"
        using that u32_bound [of max_len] by (auto simp: str_bytes_def of_nat_u32_eq)
      then show ?thesis using same_outsideD [OF m1(4)] zero [OF that(1)] by simp
    qed
    moreover have "str_bytes (item + 8) ?e \<inter> region out max_len = {}" using fields(2) assms(6) by blast
    ultimately obtain m2 p where "fat16_to_proper_string (m1(out + of_nat ?n := of_char CHR ''.'')) (out + of_nat ?n + 1) (item + 8) = Some (m2, p)"
      "cstr m2 out (nm @ of_char CHR ''.'' # ext)" "same_outside (region out max_len) m1 m2"
      using extension_appended [of nm m1 out max_len item ext] m1(2) assms(5) nm0 by blast
    moreover from this have "fat16_get_full_filename_with_extension m item out max_len = Some m2"
      using m1(1) ext8 assms(2) Cons by (simp add: fat16_get_full_filename_with_extension_def)
    moreover have "same_outside (region out max_len) m m2" using same_outside_trans [OF out1 calculation(3)] by simp
    ultimately show ?thesis using Cons by auto
  qed
qed

text \<open>The characters of a field of \<open>n\<close> bytes that is padded with zeros or blanks.\<close>

fun field_chars :: "mem \<Rightarrow> addr \<Rightarrow> nat \<Rightarrow> u8 list" where
  "field_chars m p 0 = []"
| "field_chars m p (Suc n) = (if m p = 0 \<or> m p = 0x20 then [] else m p # field_chars m (p + 1) n)"

lemma field_chars_length: "length (field_chars m p n) \<le> n"
  by (induction n arbitrary: p) auto

text \<open>Reading such a field stops inside it when it is padded, and else continues with the bytes behind it.\<close>

lemma field_chars_padded: "length (field_chars m p n) < n \<Longrightarrow> name_field m p (field_chars m p n)"
  by (induction n arbitrary: p) auto

lemma field_chars_full:
  "length (field_chars m p n) = n \<Longrightarrow> name_field m p (field_chars m p n @ ys) \<longleftrightarrow> name_field m (p + of_nat n) ys"
  by (induction n arbitrary: p) (auto simp: add.assoc split: if_splits)

text \<open>C32. The file name built from a directory entry is a terminated string in the buffer.  For a name of fewer than eight
  characters it is the name and, when the extension is not empty, a dot and the extension.  A name that fills its eight
  characters is read on into the extension, so the string is the name, the extension without a dot, and then the dot
  and the extension again.  An extension that fills its three characters is read on too, which the zero or blank in the
  attribute byte behind it must stop.  Nothing outside the buffer is written.\<close>

theorem fat16_full_filename:
  fixes m :: mem and item :: addr
  defines "nm \<equiv> field_chars m item 8" and "ext \<equiv> field_chars m (item + 8) 3"
  defines "stem \<equiv> (if length nm = 8 then nm @ ext else nm)"
  assumes "length ext = 3 \<longrightarrow> m (item + 11) = 0 \<or> m (item + 11) = 0x20"
    and "length stem + length ext + 2 \<le> unat max_len" "region out max_len \<inter> region item 32 = {}"
  shows "\<exists>m'. fat16_get_full_filename_with_extension m item out max_len = Some m' \<and>
    cstr m' out (stem @ (if ext = [] then [] else of_char CHR ''.'' # ext)) \<and>
    same_outside (region out max_len) m m'"
proof -
  have len: "length nm \<le> 8" "length ext \<le> 3" unfolding nm_def ext_def by (rule field_chars_length)+
  have ext: "name_field m (item + 8) ext"
    using field_chars_padded [of m "item + 8" 3] field_chars_full [of m "item + 8" 3 "[]"] len(2) assms(4)
    unfolding ext_def by (auto simp: add.assoc le_less)
  then have "name_field m item stem" "length stem \<le> 11"
    using field_chars_padded [of m item 8] field_chars_full [of m item 8 ext] len
    unfolding stem_def nm_def by (auto simp: le_less)
  from full_filename_spec [OF this(1) ext this(2) len(2) assms(5,6)] show ?thesis .
qed

text \<open>The entry of \<^verbatim>\<open>BLANK.BIN\<close>, with the attribute of an archived file.\<close>

definition demo_entry :: mem where
  "demo_entry = (\<lambda>_. 0)(0x1000 := 66, 0x1001 := 76, 0x1002 := 65, 0x1003 := 78, 0x1004 := 75, 0x1005 := 32,
     0x1008 := 66, 0x1009 := 73, 0x100A := 78, 0x100B := 32)"

theorem fat16_full_filename_witness:
  "\<exists>m'. fat16_get_full_filename_with_extension demo_entry 0x1000 0x2000 108 = Some m' \<and>
    cstr m' 0x2000 (map of_char ''BLANK.BIN'')"
proof -
  have n: "8 = Suc (Suc (Suc (Suc (Suc (Suc (Suc (Suc 0)))))))" "3 = Suc (Suc (Suc 0))" by simp_all
  have "field_chars demo_entry 0x1000 8 = [66, 76, 65, 78, 75]" "field_chars demo_entry (0x1000 + 8) 3 = [66, 73, 78]"
    unfolding n by (simp_all add: demo_entry_def)
  moreover have "region 0x2000 108 \<inter> region 0x1000 (32 :: u32) = {}"
    by (auto simp: region_unat simp del: mem_region)
  moreover have "demo_entry (0x1000 + 11) = 32" by (simp add: demo_entry_def)
  ultimately show ?thesis
    using fat16_full_filename [where m = demo_entry and item = "0x1000" and max_len = 108 and out = "0x2000"] by auto
qed

text \<open>A name that fills its eight characters is read on into the extension and the attribute.\<close>

lemma full_name_runs_on:
  "name_field ((\<lambda>_. 65)(0x100B := 32)) 0x1000 [65, 65, 65, 65, 65, 65, 65, 65, 65, 65, 65]"
  by simp

end
