(* ===== verification/File.thy ===== *)
theory File
  imports Fat16
begin

text \<open>
  The file layer, \<^verbatim>\<open>fs/file.c\<close>, and the start of the disk, which asks it for a file system.  The
  arrays \<open>filesystems\<close> (12 pointers) and \<open>file_descriptors\<close> (512 pointers) are words in memory;
  \<open>struct file_descriptor\<close> (16 bytes) has \<open>index\<close> at 0, \<open>filesystem\<close> at 4, \<open>privateInfo\<close> at 8 and
  \<open>disk\<close> at 12.  Calls through a file system structure are calls through \<open>fss\<close>, the function tables
  of the structures by their address.
\<close>

section \<open>file.c: file systems\<close>

function fs_free_loop :: "mem \<Rightarrow> addr \<Rightarrow> u32 \<Rightarrow> addr" where
  "fs_free_loop m tbl i =
     (if i <s PEACHOS_MAX_FILESYSTEMS
      then (if ld32 m (tbl + 4 * i) = 0 then tbl + 4 * i else fs_free_loop m tbl (i + 1)) else 0)"
  by pat_completeness auto
termination
  by (relation "measure (\<lambda>(m, tbl, i). nat (12 - sint i))") (auto simp: word_sless_alt sint_Suc [of _ 12])

declare fs_free_loop.simps [simp del]

definition fs_get_free_filesystem :: "('d, 'a) fs_state_scheme \<Rightarrow> addr" where
  "fs_get_free_filesystem s = fs_free_loop (ram s) (filesystems s) 0"

text \<open>Like \<open>panic\<close>, a full table prints a message and stops for ever.\<close>

definition fs_insert_filesystem ::
  "addr \<Rightarrow> ('d, 'a) fs_state_scheme \<Rightarrow> (unit, ('d, 'a) fs_state_scheme) outcome" where
  "fs_insert_filesystem filesystem s =
     (let fs = fs_get_free_filesystem s
      in if fs = 0 then Panics (print_chars (map of_char ''problem inserting filessytem'') s)
         else Returns () (s\<lparr>ram := st32 (ram s) fs filesystem\<rparr>))"

definition fs_static_load :: "('d, 'a) fs_state_scheme \<Rightarrow> (unit, ('d, 'a) fs_state_scheme) outcome" where
  "fs_static_load s = (let (fs, s1) = fat16_init s in fs_insert_filesystem fs s1)"

definition fs_load :: "('d, 'a) fs_state_scheme \<Rightarrow> (unit, ('d, 'a) fs_state_scheme) outcome" where
  "fs_load s = fs_static_load (s\<lparr>ram := memset (ram s) (filesystems s) 0 (4 * PEACHOS_MAX_FILESYSTEMS)\<rparr>)"

definition fs_init :: "('d, 'a) fs_state_scheme \<Rightarrow> (unit, ('d, 'a) fs_state_scheme) outcome" where
  "fs_init s = fs_load (s\<lparr>ram := memset (ram s) (file_descriptors s) 0 (4 * PEACHOS_MAX_FILE_DESCRIPTORS)\<rparr>)"

section \<open>file.c: descriptors\<close>

function new_descriptor_loop :: "u32 \<Rightarrow> ('d, 'a) fs_state_scheme \<Rightarrow> u32 \<times> addr \<times> ('d, 'a) fs_state_scheme" where
  "new_descriptor_loop i s =
     (if i <s PEACHOS_MAX_FILE_DESCRIPTORS then
        if ld32 (ram s) (file_descriptors s + 4 * i) = 0 then
          let (desc, s1) = kZalloc 16 s
          in if desc \<noteq> 0
             then (0, desc, s1\<lparr>ram := st32 (st32 (ram s1) desc (i + 1)) (file_descriptors s1 + 4 * i) desc\<rparr>)
             else (- ENOMEM, 0, s1)
        else new_descriptor_loop (i + 1) s
      else (- ENOMEM, 0, s))"
  by pat_completeness auto
termination
  by (relation "measure (\<lambda>(i, s). nat (512 - sint i))") (auto simp: word_sless_alt sint_Suc [of _ 512])

declare new_descriptor_loop.simps [simp del]

text \<open>The result and the descriptor stored through \<open>desc_out\<close> (0 when nothing is stored).\<close>

definition file_new_descriptor :: "('d, 'a) fs_state_scheme \<Rightarrow> u32 \<times> addr \<times> ('d, 'a) fs_state_scheme" where
  "file_new_descriptor s = new_descriptor_loop 0 s"

definition file_get_descriptor :: "u32 \<Rightarrow> ('d, 'a) fs_state_scheme \<Rightarrow> addr" where
  "file_get_descriptor fd s =
     (if fd \<le>s 0 \<or> PEACHOS_MAX_FILE_DESCRIPTORS <s fd then 0
      else ld32 (ram s) (file_descriptors s + 4 * (fd - 1)))"

function fs_resolve_loop :: "(addr \<Rightarrow> ('d, 'a) fs_state_scheme fileSystem) \<Rightarrow> addr \<Rightarrow> u32 \<Rightarrow>
    ('d, 'a) fs_state_scheme \<Rightarrow> (addr \<times> ('d, 'a) fs_state_scheme) option" where
  "fs_resolve_loop fss idisk i s =
     (if i <s PEACHOS_MAX_FILESYSTEMS then
        let fs = ld32 (ram s) (filesystems s + 4 * i)
        in if fs \<noteq> 0 then
             (case resolve_fn (fss fs) idisk s of
                None \<Rightarrow> None
              | Some (res, s1) \<Rightarrow>
                  if res = 0 then Some (ld32 (ram s1) (filesystems s1 + 4 * i), s1)
                  else fs_resolve_loop fss idisk (i + 1) s1)
           else fs_resolve_loop fss idisk (i + 1) s
      else Some (0, s))"
  by pat_completeness auto
termination
  by (relation "measure (\<lambda>(fss, idisk, i, s). nat (12 - sint i))") (auto simp: word_sless_alt sint_Suc [of _ 12])

declare fs_resolve_loop.simps [simp del]

definition fs_resolve :: "(addr \<Rightarrow> ('d, 'a) fs_state_scheme fileSystem) \<Rightarrow> addr \<Rightarrow>
    ('d, 'a) fs_state_scheme \<Rightarrow> (addr \<times> ('d, 'a) fs_state_scheme) option" where
  "fs_resolve fss idisk s = fs_resolve_loop fss idisk 0 s"

definition file_get_mode_by_string :: "mem \<Rightarrow> addr \<Rightarrow> u32" where
  "file_get_mode_by_string m str =
     (let mode = FILE_MODE_INVALID;
          mode = (if strncmp_literal m str [of_char CHR ''r''] 1 = 0 then FILE_MODE_READ else mode);
          mode = (if strncmp_literal m str [of_char CHR ''w''] 1 = 0 then FILE_MODE_WRITE else mode)
      in if strncmp_literal m str [of_char CHR ''a''] 1 = 0 then FILE_MODE_APPEND else mode)"

text \<open>\<open>fopen\<close> up to the label \<open>out\<close>, and as a whole.\<close>

definition fopen_body :: "(addr \<Rightarrow> ('d, 'a) fs_state_scheme fileSystem) \<Rightarrow> addr \<Rightarrow> addr \<Rightarrow>
    ('d, 'a) fs_state_scheme \<Rightarrow> (u32 \<times> ('d, 'a) fs_state_scheme) option" where
  "fopen_body fss path_root mode_str s =
     (if path_root = 0 \<or> ld32 (ram s) (path_root + 4) = 0 then Some (- EINVARG, s)
      else
        let idisk = disk_get (ld32 (ram s) path_root) s
        in if idisk = 0 then Some (- EIO, s)
           else if ld32 (ram s) (idisk + 12) = 0 then Some (- EIO, s)
           else
             let mode = file_get_mode_by_string (ram s) mode_str
             in if mode = FILE_MODE_INVALID then Some (- EIO, s)
                else do {
                  (descriptor_private_data, s1) \<leftarrow>
                    open_fn (fss (ld32 (ram s) (idisk + 12))) idisk (ld32 (ram s) (path_root + 4)) mode s;
                  if ISERR descriptor_private_data then Some (descriptor_private_data, s1)
                  else
                    let (res, desc, s2) = file_new_descriptor s1
                    in if res \<noteq> 0 then Some (- EIO, s2)
                       else
                         let m1 = st32 (ram s2) (desc + 4) (ld32 (ram s2) (idisk + 12));
                             m2 = st32 m1 (desc + 8) descriptor_private_data;
                             m3 = st32 m2 (desc + 12) idisk
                         in Some (ld32 m3 desc, s2\<lparr>ram := m3\<rparr>)
                })"

definition fopen :: "(addr \<Rightarrow> ('d, 'a) fs_state_scheme fileSystem) \<Rightarrow> addr \<Rightarrow> addr \<Rightarrow>
    ('d, 'a) fs_state_scheme \<Rightarrow> (u32 \<times> ('d, 'a) fs_state_scheme) option" where
  "fopen fss filename mode_str s =
     do {
       (path_root, s1) \<leftarrow> pathparser_parse filename 0 s;
       (res, s2) \<leftarrow> fopen_body fss path_root mode_str s1;
       if res <s PEACHOS_ALL_OK
       then map_option (\<lambda>s3. (0, s3)) (pathparser_free path_root s2)
       else Some (res, s2)
     }"

definition fread :: "(addr \<Rightarrow> ('d, 'a) fs_state_scheme fileSystem) \<Rightarrow> addr \<Rightarrow> u32 \<Rightarrow> u32 \<Rightarrow> u32 \<Rightarrow>
    ('d, 'a) fs_state_scheme \<Rightarrow> (u32 \<times> ('d, 'a) fs_state_scheme) option" where
  "fread fss ptr sz nmemb fd s =
     (if sz = 0 \<or> nmemb = 0 \<or> fd <s 1 then Some (- EINVARG, s)
      else
        let desc = file_get_descriptor fd s
        in if desc = 0 then Some (- EINVARG, s)
           else read_fn (fss (ld32 (ram s) (desc + 4))) (ld32 (ram s) (desc + 12)) (ld32 (ram s) (desc + 8)) sz nmemb ptr s)"

definition fseek :: "(addr \<Rightarrow> ('d, 'a) fs_state_scheme fileSystem) \<Rightarrow> u32 \<Rightarrow> u32 \<Rightarrow> u32 \<Rightarrow>
    ('d, 'a) fs_state_scheme \<Rightarrow> (u32 \<times> ('d, 'a) fs_state_scheme) option" where
  "fseek fss fd offset whence s =
     (let desc = file_get_descriptor fd s
      in if desc = 0 then Some (- EIO, s)
         else seek_fn (fss (ld32 (ram s) (desc + 4))) (ld32 (ram s) (desc + 8)) offset whence s)"

definition fstat :: "(addr \<Rightarrow> ('d, 'a) fs_state_scheme fileSystem) \<Rightarrow> u32 \<Rightarrow> addr \<Rightarrow>
    ('d, 'a) fs_state_scheme \<Rightarrow> (u32 \<times> ('d, 'a) fs_state_scheme) option" where
  "fstat fss fd stat s =
     (let desc = file_get_descriptor fd s
      in if desc = 0 then Some (- EIO, s)
         else stat_fn (fss (ld32 (ram s) (desc + 4))) (ld32 (ram s) (desc + 12)) (ld32 (ram s) (desc + 8)) stat s)"

definition file_free_descriptor :: "addr \<Rightarrow> ('d, 'a) fs_state_scheme \<Rightarrow> ('d, 'a) fs_state_scheme" where
  "file_free_descriptor desc s =
     kFree desc (s\<lparr>ram := st32 (ram s) (file_descriptors s + 4 * (ld32 (ram s) desc - 1)) 0x00\<rparr>)"

definition fclose :: "(addr \<Rightarrow> ('d, 'a) fs_state_scheme fileSystem) \<Rightarrow> u32 \<Rightarrow>
    ('d, 'a) fs_state_scheme \<Rightarrow> (u32 \<times> ('d, 'a) fs_state_scheme) option" where
  "fclose fss fd s =
     (let desc = file_get_descriptor fd s
      in if desc = 0 then Some (- EIO, s)
         else do {
           (res, s1) \<leftarrow> close_fn (fss (ld32 (ram s) (desc + 4))) (ld32 (ram s) (desc + 8)) s;
           if res = PEACHOS_ALL_OK then Some (res, file_free_descriptor desc s1)
           else Some (res, s1)
         })"

section \<open>disk.c: finding the file system\<close>

definition disk_search_and_init :: "(addr \<Rightarrow> ('d, 'a) fs_state_scheme fileSystem) \<Rightarrow>
    ('d, 'a) fs_state_scheme \<Rightarrow> ('d, 'a) fs_state_scheme option" where
  "disk_search_and_init fss s =
     (let m0 = memset (ram s) (disk s) 0 20;
          m1 = st32 m0 (disk s) PEACHOS_DISK_TYPE_REAL;
          m2 = st32 m1 (disk s + 4) PEACHOS_SECTOR_SIZE;
          m3 = st32 m2 (disk s + 8) 0
      in do {
        (fs, s1) \<leftarrow> fs_resolve fss (disk s) (s\<lparr>ram := m3\<rparr>);
        Some (s1\<lparr>ram := st32 (ram s1) (disk s1 + 12) fs\<rparr>)
      })"

section \<open>Reading through the file layer\<close>

lemma fread_spec:
  fixes s :: "('d, 'a) fs_state_scheme" and fd :: u32
  defines "slot \<equiv> file_get_descriptor fd s"
  defines "desc \<equiv> ld32 (ram s) (slot + 8)" and "stream \<equiv> file_stream (ram s) (disk s)"
  assumes "ata_device io xfer data" "slot \<noteq> 0" "fss (ld32 (ram s) (slot + 4)) = fat16_functions io"
    and "ld32 (ram s) (slot + 12) = disk s" "file_starts (ram s) (disk s) desc start cb" "ld32 (ram s) (desc + 4) = of_nat off"
    and "0 < sz" "0 < n" "off + n * sz \<le> cb" "start + cb + 512 < 2147483648"
    and "region stream 4 \<inter> file_structures (ram s) (disk s) desc = {}"
    and "region out (of_nat (n * sz)) \<inter> (file_structures (ram s) (disk s) desc \<union> region stream 4) = {}"
  shows "\<exists>m d'. fread fss out (of_nat sz) (of_nat n) fd s = Some (of_nat n, s\<lparr>ram := m, dev := d'\<rparr>) \<and>
    (\<forall>k<n * sz. m (out + of_nat k) = disk_byte data (start + off + k)) \<and>
    ld32 m (desc + 4) = ld32 (ram s) (desc + 4) \<and>
    same_outside (region out (of_nat (n * sz)) \<union> region stream 4) (ram s) m"
proof -
  have "n * 1 \<le> n * sz" "1 * sz \<le> n * sz" using assms(10,11) by (intro mult_le_mono; simp)+
  then have bounds: "n < 4294967296" "sz < 4294967296" using assms(12,13) by linarith+
  have "\<not> fd \<le>s 0" using assms(5) by (auto simp: slot_def file_get_descriptor_def)
  then have fd: "\<not> fd <s 1" by (simp add: word_sless_alt word_sle_eq)
  have stream: "stream = file_stream (ram s) (disk s)" by (simp add: stream_def)
  have "unat (0 :: u32) + n = unat (of_nat n :: u32)" using bounds by simp
  from read_loop_spec [OF assms(4,10,13) this assms(8,12) stream refl assms(14,15)]
  obtain m d' where read: "read_loop io (disk s) (file_item (ram s) desc) (of_nat sz) (of_nat n) 0 (of_nat off) out s =
      Some (of_nat n, s\<lparr>ram := m, dev := d'\<rparr>)"
    "\<forall>k<n * sz. m (out + of_nat k) = disk_byte data (start + off + k)"
    "same_outside (region out (of_nat (n * sz)) \<union> region stream 4) (ram s) m" by blast
  have "m a = ram s a" if "a \<in> file_structures (ram s) (disk s) desc" for a
    using that assms(14,15) by (auto intro!: same_outsideD [OF read(3)] simp del: mem_region)
  note kept = file_structures_kept(7) [where m = "ram s" and idisk = "disk s" and desc = desc, OF this]
  have "fread fss out (of_nat sz) (of_nat n) fd s = fat16_read io (disk s) desc (of_nat sz) (of_nat n) out s"
    using assms(5-7,10,11) fd u32_of_nat_iffs(1) [OF bounds(1), of 0] u32_of_nat_iffs(1) [OF bounds(2), of 0]
    by (simp add: fread_def slot_def [symmetric] desc_def fat16_functions_def eq_commute [of 0])
  also have "\<dots> = Some (of_nat n, s\<lparr>ram := m, dev := d'\<rparr>)"
    using read(1) assms(9) by (simp add: fat16_read_def file_item_def)
  finally show ?thesis using read(2,3) kept by blast
qed

text \<open>Reading from an open file, through the descriptor table, FAT16 and the disk stream: \<open>n\<close> records
  of \<open>sz\<close> bytes that lie in the first cluster of the file come from the disk in order, from the position
  of the file on, and \<open>n\<close> is returned.  The position of the file stays where it was, and nothing but the
  buffer and the position of the volume's stream is written.\<close>

lemma fread_reads_file:
  fixes s :: "('d, 'a) fs_state_scheme" and fd :: u32
  defines "slot \<equiv> file_get_descriptor fd s"
  defines "desc \<equiv> ld32 (ram s) (slot + 8)" and "stream \<equiv> file_stream (ram s) (disk s)"
  assumes "ata_device io xfer data" "slot \<noteq> 0" "fss (ld32 (ram s) (slot + 4)) = fat16_functions io"
    and "ld32 (ram s) (slot + 12) = disk s" "file_starts (ram s) (disk s) desc start cb" "ld32 (ram s) (desc + 4) = of_nat off"
    and "0 < sz" "0 < n" "off + n * sz \<le> cb" "start + cb + 512 < 2147483648"
    and "region stream 4 \<inter> file_structures (ram s) (disk s) desc = {}"
    and "region out (of_nat (n * sz)) \<inter> (file_structures (ram s) (disk s) desc \<union> region stream 4) = {}"
  shows "\<exists>m d'. fread fss out (of_nat sz) (of_nat n) fd s = Some (of_nat n, s\<lparr>ram := m, dev := d'\<rparr>) \<and>
    (\<forall>k<n * sz. m (out + of_nat k) = disk_byte data (start + off + k)) \<and>
    ld32 m (desc + 4) = ld32 (ram s) (desc + 4) \<and>
    same_outside (region out (of_nat (n * sz)) \<union> region stream 4) (ram s) m"
  using assms(4-) unfolding slot_def desc_def stream_def by (rule fread_spec)

text \<open>A volume with four sectors per cluster; file 1 starts at cluster 3 and is read up to byte 100.\<close>

definition demo_volume :: "model_drive fs_state" where
  "demo_volume = \<lparr>ram =
       st32 (st32 (st32 (st32 (st32 (st32 (st32 (st32 (st32 (st32 (st32 (st32 (st32 (st32 (\<lambda>_. 0) 0x8004 512) 0x8010 0x9100)
         0x910C 0x400) 0x914C 40) 0x9150 0x9200) 0x9204 0x8000) 0xA000 0xB000) 0xB004 0x8100)
         0xB008 0xB100) 0xB00C 0x8000) 0xB100 0xB200) 0xB104 100) 0xB200 0xB300) 0xB318 0x30000,
     kernelHeap = kernel_heap, current_directory = 0, cr3 = 0, cr0 = 0, video_mem = 0xB8000, terminal_row = 0,
     terminal_col = 0, dev = \<lparr>high = 0, low = 0, mid = 0, upper = 0, words_taken = 0\<rparr>, disk = 0x8000,
     fat16_fs = 0x8100, filesystems = 0x8200, file_descriptors = 0xA000, kstack = 0x1F0000\<rparr>"

lemma fread_reads_file_witness:
  "\<exists>m d'. fread (\<lambda>_. fat16_functions (model_ports demo_content)) 0xC000 16 3 1 demo_volume =
      Some (3, demo_volume\<lparr>ram := m, dev := d'\<rparr>) \<and> m 0xC02F = disk_byte demo_content 22675"
proof -
  let ?m = "ram demo_volume"
  have disk: "disk demo_volume = 0x8000" "file_descriptors demo_volume = 0xA000" by (simp_all add: demo_volume_def)
  have words: "ld32 ?m 0x8004 = 512" "ld32 ?m 0x8010 = 0x9100" "ld32 ?m 0x914C = 40" "ld32 ?m 0x9150 = 0x9200"
    "ld32 ?m 0x9204 = 0x8000" "ld32 ?m 0xA000 = 0xB000" "ld32 ?m 0xB008 = 0xB100" "ld32 ?m 0xB00C = 0x8000"
    "ld32 ?m 0xB100 = 0xB200" "ld32 ?m 0xB104 = 100" "ld32 ?m 0xB200 = 0xB300"
    by (simp_all add: demo_volume_def ld32_st32)
  have bytes: "?m 0x910D = 4" "?m 0xB31A = 3" "?m 0xB31B = 0" "?m 0xB314 = 0" "?m 0xB315 = 0"
    by (simp_all add: demo_volume_def st32_def)
  have cl: "fat16_get_first_cluster ?m 0xB300 = 3"
    using bytes by (simp add: fat16_get_first_cluster_def ld16_def)
  have slot: "file_get_descriptor 1 demo_volume = 0xB000"
    using words disk by (simp add: file_get_descriptor_def word_sle_eq word_sless_alt)
  have path: "file_stream ?m 0x8000 = 0x9200" "file_item ?m 0xB100 = 0xB300"
    using words by (simp_all add: file_stream_def file_item_def)
  have begins: "file_starts ?m 0x8000 0xB100 22528 2048"
    using words bytes path cl by (simp add: file_starts_def fat16_cluster_to_sector_def)
  have apart: "region 0x9200 4 \<inter> file_structures ?m 0x8000 0xB100 = {}"
    "region 0xC000 (of_nat (3 * 16)) \<inter> (file_structures ?m 0x8000 0xB100 \<union> region 0x9200 4) = {}"
    using words path by (auto simp: file_structures_def region_unat simp del: mem_region)
  from fread_reads_file [where fd = 1 and s = demo_volume and off = 100 and n = 3 and sz = 16 and out = "0xC000"
      and fss = "\<lambda>_. fat16_functions (model_ports demo_content)" and start = 22528 and cb = 2048,
      OF model_ports_device [of demo_content], unfolded slot disk] words begins apart path
  obtain m d' where "fread (\<lambda>_. fat16_functions (model_ports demo_content)) 0xC000 16 3 1 demo_volume =
      Some (3, demo_volume\<lparr>ram := m, dev := d'\<rparr>)"
    "\<forall>k<48. m (0xC000 + of_nat k) = disk_byte demo_content (22628 + k)" by (auto simp del: mem_region)
  moreover from spec [OF this(2), of 47] have "m 0xC02F = disk_byte demo_content 22675" by simp
  ultimately show ?thesis by blast
qed

section \<open>The table of descriptors\<close>

definition fd_table :: "('d, 'a) fs_state_scheme \<Rightarrow> addr list" where
  "fd_table s = map (\<lambda>i. ld32 (ram s) (file_descriptors s + 4 * of_nat i)) [0..<512]"

lemma length_fd_table [simp]: "length (fd_table s) = 512"
  by (simp add: fd_table_def del: upt_rec_numeral)

lemma fd_table_nth: "k < 512 \<Longrightarrow> fd_table s ! k = ld32 (ram s) (file_descriptors s + 4 * of_nat k)"
  by (simp add: fd_table_def del: upt_rec_numeral)

lemma file_get_descriptor_nth:
  assumes "j < 512"
  shows "file_get_descriptor (of_nat (Suc j)) s = fd_table s ! j"
proof -
  have "\<not> of_nat (Suc j) \<le>s (0 :: u32)" "\<not> 512 <s (of_nat (Suc j) :: u32)"
    using sint_of_nat_u32 [of "Suc j"] assms by (simp_all add: word_sle_eq word_sless_alt)
  then show ?thesis using assms by (simp add: file_get_descriptor_def fd_table_nth)
qed

lemma slot_offset: "i < 512 \<Longrightarrow> unat (4 * of_nat i :: u32) = 4 * i"
  by (simp add: unat_mult_u32)

lemma slots_apart:
  assumes "j < 512" "k < 512" "j \<noteq> k"
  shows "region (tbl + 4 * of_nat j) 4 \<inter> region (tbl + 4 * of_nat k) (4 :: u32) = {}"
  using assms field_disjoint [of "4 * of_nat j" 4 "4 * of_nat k" 4 tbl] field_disjoint [of "4 * of_nat k" 4 "4 * of_nat j" 4 tbl]
  by (cases "j < k") (auto simp: slot_offset Int_commute simp del: mem_region)

lemma slot_in_table: "j < 512 \<Longrightarrow> region (tbl + 4 * of_nat j) 4 \<subseteq> region tbl (2048 :: u32)"
  using field_subset [of "4 * of_nat j" 4 2048 tbl] by (simp add: slot_offset)

lemma fd_table_cong:
  assumes "file_descriptors s' = file_descriptors s" "\<And>a. a \<in> region (file_descriptors s) 2048 \<Longrightarrow> ram s' a = ram s a"
  shows "fd_table s' = fd_table s"
proof (rule nth_equalityI)
  fix i assume "i < length (fd_table s')"
  then have i: "i < 512" by simp
  have "ld32 (ram s') (file_descriptors s + 4 * of_nat i) = ld32 (ram s) (file_descriptors s + 4 * of_nat i)"
    using slot_in_table [OF i] assms(2) by (intro ld32_cong) blast
  then show "fd_table s' ! i = fd_table s ! i" using assms(1) by (simp add: fd_table_nth i)
qed simp

lemma fd_table_set:
  assumes "j < 512"
  shows "fd_table (s\<lparr>ram := st32 (ram s) (file_descriptors s + 4 * of_nat j) v\<rparr>) = (fd_table s)[j := v]"
proof (rule nth_equalityI)
  fix k assume "k < length (fd_table (s\<lparr>ram := st32 (ram s) (file_descriptors s + 4 * of_nat j) v\<rparr>))"
  then have k: "k < 512" by simp
  show "fd_table (s\<lparr>ram := st32 (ram s) (file_descriptors s + 4 * of_nat j) v\<rparr>) ! k = (fd_table s)[j := v] ! k"
  proof (cases "k = j")
    case False
    have "region (file_descriptors s + 4 * of_nat k) 4 \<inter> region (file_descriptors s + 4 * of_nat j) 4 = {}"
      using k assms False by (rule slots_apart)
    then have "ld32 (st32 (ram s) (file_descriptors s + 4 * of_nat j) v) (file_descriptors s + 4 * of_nat k) =
        ld32 (ram s) (file_descriptors s + 4 * of_nat k)"
      by (rule ld32_same_outside [OF same_outside_st32])
    with False k show ?thesis by (simp add: fd_table_nth)
  qed (use k in \<open>simp add: fd_table_nth\<close>)
qed simp

lemma scan_taken:
  "i \<le> j \<Longrightarrow> j \<le> 512 \<Longrightarrow> \<forall>k<j. fd_table s ! k \<noteq> 0 \<Longrightarrow>
    new_descriptor_loop (of_nat i) s = new_descriptor_loop (of_nat j) s"
proof (induction i rule: inc_induct)
  case (step i)
  have "fd_table s ! i = ld32 (ram s) (file_descriptors s + 4 * of_nat i)" "fd_table s ! i \<noteq> 0"
    using step.prems step.hyps by (simp_all add: fd_table_nth)
  moreover have "(of_nat i :: u32) <s 512" using of_nat_u32_sless [of i 512] step.hyps step.prems by simp
  ultimately have "new_descriptor_loop (of_nat i) s = new_descriptor_loop (of_nat (Suc i)) s"
    by (subst new_descriptor_loop.simps) (simp add: add.commute)
  with step show ?case by simp
qed simp

definition first_free_fd :: "('d, 'a) fs_state_scheme \<Rightarrow> nat" where
  "first_free_fd s = length (takeWhile (\<lambda>d. d \<noteq> 0) (fd_table s))"

lemma first_free_fd:
  "first_free_fd s \<le> 512" "\<forall>k<first_free_fd s. fd_table s ! k \<noteq> 0"
  "first_free_fd s < 512 \<Longrightarrow> ld32 (ram s) (file_descriptors s + 4 * of_nat (first_free_fd s)) = 0"
  "0 \<notin> set (fd_table s) \<longleftrightarrow> first_free_fd s = 512"
proof -
  show le: "first_free_fd s \<le> 512" using length_takeWhile_le [of _ "fd_table s"] by (simp add: first_free_fd_def)
  show taken: "\<forall>k<first_free_fd s. fd_table s ! k \<noteq> 0"
    unfolding first_free_fd_def by (metis (mono_tags, lifting) nth_mem set_takeWhileD takeWhile_nth)
  show free: "ld32 (ram s) (file_descriptors s + 4 * of_nat (first_free_fd s)) = 0" if "first_free_fd s < 512"
  proof -
    have "fd_table s ! first_free_fd s = 0"
      using nth_length_takeWhile [of "\<lambda>d. d \<noteq> 0" "fd_table s"] that by (simp add: first_free_fd_def)
    with that show ?thesis by (simp add: fd_table_nth)
  qed
  show "0 \<notin> set (fd_table s) \<longleftrightarrow> first_free_fd s = 512"
  proof
    assume "0 \<notin> set (fd_table s)"
    then have "takeWhile (\<lambda>d. d \<noteq> 0) (fd_table s) = fd_table s" by (subst takeWhile_eq_all_conv) auto
    then show "first_free_fd s = 512" unfolding first_free_fd_def by (simp only: length_fd_table)
  next
    assume "first_free_fd s = 512"
    with taken show "0 \<notin> set (fd_table s)" by (auto simp: in_set_conv_nth)
  qed
qed

lemma heap_keeps_fds:
  fixes s :: "('d, 'a) fs_state_scheme"
  shows "file_descriptors (snd (kZalloc n s)) = file_descriptors s" "file_descriptors (kFree p s) = file_descriptors s"
proof -
  have ext: "file_descriptors s' = file_descriptors s" if "s' = s\<lparr>ram := m\<rparr>" for s' :: "('d, 'a) fs_state_scheme" and m
    using that by simp
  show "file_descriptors (snd (kZalloc n s)) = file_descriptors s" "file_descriptors (kFree p s) = file_descriptors s"
    using ext [OF kz.alloc_only_mem] ext [OF kp.release_only_mem] .
qed

lemma new_descriptor_taken:
  assumes "kheap_inv s" "0 < kheap_free s" "region (file_descriptors s) 2048 \<subseteq> kheap_owned s" "j < 512"
  defines "desc \<equiv> fst (kZalloc 16 s)"
  defines "m \<equiv> st32 (st32 (ram (snd (kZalloc 16 s))) desc (of_nat (Suc j))) (file_descriptors s + 4 * of_nat j) desc"
  shows "desc \<noteq> 0" "kheap_inv (s\<lparr>ram := m\<rparr>)" "kheap_owned (s\<lparr>ram := m\<rparr>) = kheap_owned s \<union> region desc 4096"
    "kheap_free (s\<lparr>ram := m\<rparr>) = kheap_free s - 1" "kheap_page (s\<lparr>ram := m\<rparr>) desc"
    "region desc 4096 \<inter> kheap_owned s = {}" "ld32 m desc = of_nat (Suc j)" "fd_table (s\<lparr>ram := m\<rparr>) = (fd_table s)[j := desc]"
    "kp.grows s (s\<lparr>ram := m\<rparr>) [desc] (region (file_descriptors s + 4 * of_nat j) 4)"
proof -
  let ?slot = "region (file_descriptors s + 4 * of_nat j) 4" and ?s1 = "snd (kZalloc 16 s)"
  note l = kz.alloc_laws [OF assms(1) _ _ assms(2), of 16, folded desc_def, simplified]
  have slot: "?slot \<subseteq> kheap_owned s" using slot_in_table [OF assms(4)] assms(3) by (rule order_trans)
  have d4: "region desc 4 \<subseteq> region desc 4096" using field_subset [of 0 4 4096 desc] by simp
  let ?m1 = "st32 (ram ?s1) desc (of_nat (Suc j))"
  have out1: "same_outside (region desc 4096) (ram ?s1) ?m1" using same_outside_st32 d4 by (rule same_outside_mono)
  have out: "same_outside (region desc 4096 \<union> ?slot) (ram ?s1) m"
    unfolding m_def by (rule same_outside_trans [OF out1 same_outside_st32]) blast+
  note w = kz.alloc_then_write [OF assms(1) _ _ assms(2), of 16 ?slot m, folded desc_def, OF _ _ out slot]
    and wp = kp.alloc_write_pages [OF assms(1) _ _ assms(2), of 16 ?slot m, folded desc_def, OF _ _ out slot]
  show "desc \<noteq> 0" "region desc 4096 \<inter> kheap_owned s = {}" using l by simp_all
  show "kp.grows s (s\<lparr>ram := m\<rparr>) [desc] ?slot"
    using kp.grows_alloc [OF assms(1) _ _ assms(2), of 16 ?slot m] out slot by (simp add: desc_def del: mem_region)
  show "kheap_inv (s\<lparr>ram := m\<rparr>)" "kheap_owned (s\<lparr>ram := m\<rparr>) = kheap_owned s \<union> region desc 4096"
    "kheap_free (s\<lparr>ram := m\<rparr>) = kheap_free s - 1" "kheap_page (s\<lparr>ram := m\<rparr>) desc"
    using w wp by simp_all
  have "region desc 4 \<inter> ?slot = {}" using d4 slot l(3) by blast
  then show "ld32 m desc = of_nat (Suc j)"
    unfolding m_def using ld32_same_outside [OF same_outside_st32] by simp
  have "?m1 a = ram s a" if "a \<in> region (file_descriptors s) 2048" for a
  proof -
    have a: "a \<in> kheap_owned s" using that assms(3) by blast
    then have "a \<notin> region desc 4096" using l(3) by blast
    then show ?thesis using same_outsideD [OF out1] kz.alloc_keeps [OF assms(1) _ _ assms(2) a, of 16] by simp
  qed
  then have "fd_table (s\<lparr>ram := ?m1\<rparr>) = fd_table s" by (intro fd_table_cong) simp_all
  then show "fd_table (s\<lparr>ram := m\<rparr>) = (fd_table s)[j := desc]"
    using fd_table_set [OF assms(4), of "s\<lparr>ram := ?m1\<rparr>" desc] by (simp add: m_def)
qed

lemma new_descriptor_released:
  assumes "kheap_inv s" "kheap_page s desc" "region (file_descriptors s) 2048 \<subseteq> kheap_owned s - region desc 4096"
    and "ld32 (ram s) desc = of_nat (Suc j)" "j < 512"
  defines "s' \<equiv> file_free_descriptor desc s"
  shows "kheap_inv s'" "kheap_free s' = Suc (kheap_free s)" "kheap_owned s' = kheap_owned s - region desc 4096"
    "fd_table s' = (fd_table s)[j := 0]"
proof -
  define m where "m = st32 (ram s) (file_descriptors s + 4 * of_nat j) 0"
  have "region (file_descriptors s + 4 * of_nat j) 4 \<subseteq> kheap_owned s" using slot_in_table [OF assms(5)] assms(3) by blast
  with same_outside_st32 have out: "same_outside (kheap_owned s) (ram s) m" unfolding m_def by (rule same_outside_mono)
  note w = kz.write_owned [OF assms(1) out] kp.write_pages [OF assms(1) out]
  have s': "s' = kFree desc (s\<lparr>ram := m\<rparr>)" using assms(4) by (simp add: s'_def file_free_descriptor_def m_def)
  have inv: "kheap_inv (s\<lparr>ram := m\<rparr>)" "kheap_page (s\<lparr>ram := m\<rparr>) desc" using w assms(2) by simp_all
  show "kheap_inv s'" "kheap_free s' = Suc (kheap_free s)" "kheap_owned s' = kheap_owned s - region desc 4096"
    using kp.release_laws [OF inv] w(1) by (simp_all add: s')
  have "fd_table s' = fd_table (s\<lparr>ram := m\<rparr>)"
    using kp.release_keeps [OF inv] w(1) assms(3) by (intro fd_table_cong) (auto simp: s' heap_keeps_fds simp del: mem_region)
  then show "fd_table s' = (fd_table s)[j := 0]" using fd_table_set [OF assms(5)] by (simp add: m_def)
qed

lemma new_descriptor_run:
  assumes "kheap_inv s" "0 < kheap_free s" "region (file_descriptors s) 2048 \<subseteq> kheap_owned s" "first_free_fd s < 512"
  defines "desc \<equiv> fst (kZalloc 16 s)" and "j \<equiv> first_free_fd s"
  shows "file_new_descriptor s = (0, desc,
    s\<lparr>ram := st32 (st32 (ram (snd (kZalloc 16 s))) desc (of_nat (Suc j))) (file_descriptors s + 4 * of_nat j) desc\<rparr>)"
proof -
  have j: "j < 512" "ld32 (ram s) (file_descriptors s + 4 * of_nat j) = 0"
    using assms(4) first_free_fd(3) by (simp_all add: j_def)
  have "file_new_descriptor s = new_descriptor_loop (of_nat j) s"
    using scan_taken [of 0 j s] first_free_fd(2) [of s] j(1) by (simp add: file_new_descriptor_def j_def)
  moreover have "(of_nat j :: u32) <s 512" using of_nat_u32_sless [of j 512] j(1) by simp
  ultimately show ?thesis
    using j(2) new_descriptor_taken(1) [OF assms(1-3) j(1)]
    by (simp add: new_descriptor_loop.simps [of "of_nat j"] split_beta heap_keeps_fds desc_def add.commute kz.set_alloc)
qed

text \<open>C31. The table of open files: a new descriptor takes the lowest free slot, so the number of the file is
  the lowest one not in use, it is found again under that number, and releasing it restores the table and
  the heap; with a full table \<open>file_new_descriptor\<close> fails and changes nothing.\<close>

theorem file_new_descriptor_lowest:
  assumes "kheap_inv s" "0 < kheap_free s" "region (file_descriptors s) 2048 \<subseteq> kheap_owned s"
    and "file_new_descriptor s = (res, desc, s')"
  shows "if 0 \<notin> set (fd_table s) then res = - ENOMEM \<and> s' = s
    else res = 0 \<and> desc \<noteq> 0 \<and> fd_table s' = (fd_table s)[first_free_fd s := desc] \<and>
      file_get_descriptor (of_nat (Suc (first_free_fd s))) s' = desc \<and> ld32 (ram s') desc = of_nat (Suc (first_free_fd s)) \<and>
      kheap_inv s' \<and> kheap_free s' = kheap_free s - 1 \<and>
      kheap_inv (file_free_descriptor desc s') \<and> kheap_free (file_free_descriptor desc s') = kheap_free s \<and>
      kheap_owned (file_free_descriptor desc s') = kheap_owned s \<and> fd_table (file_free_descriptor desc s') = fd_table s"
proof (cases "first_free_fd s < 512")
  case False
  then have "first_free_fd s = 512" using first_free_fd(1) [of s] by simp
  moreover from this have "new_descriptor_loop (of_nat 0) s = new_descriptor_loop (of_nat 512) s"
    using scan_taken [of 0 512 s] first_free_fd(2) [of s] by simp
  ultimately show ?thesis
    using assms(4) first_free_fd(4) [of s] by (simp add: file_new_descriptor_def new_descriptor_loop.simps [of 512])
next
  case True
  define j m where "j = first_free_fd s"
    and "m = st32 (st32 (ram (snd (kZalloc 16 s))) (fst (kZalloc 16 s)) (of_nat (Suc j))) (file_descriptors s + 4 * of_nat j) (fst (kZalloc 16 s))"
  have j: "j < 512" "ld32 (ram s) (file_descriptors s + 4 * of_nat j) = 0" using True first_free_fd(3) by (simp_all add: j_def)
  note new = new_descriptor_taken [OF assms(1-3) j(1), folded m_def]
  have run: "res = 0" "desc = fst (kZalloc 16 s)" "s' = s\<lparr>ram := m\<rparr>"
    using new_descriptor_run [OF assms(1-3) True] assms(4) by (simp_all add: m_def j_def)
  have tbl: "region (file_descriptors s') 2048 \<subseteq> kheap_owned s' - region desc 4096"
    using assms(3) new(3,6) by (auto simp: run simp del: mem_region)
  have "ld32 (ram s') desc = of_nat (Suc j)" using new(7) by (simp add: run)
  note rel = new_descriptor_released [OF new(2,5) [folded run] tbl this j(1)]
  have "file_get_descriptor (of_nat (Suc j)) s' = desc" using file_get_descriptor_nth [OF j(1), of s'] new(8) j(1) by (simp add: run)
  moreover have "fd_table (file_free_descriptor desc s') = fd_table s"
  proof -
    have "fd_table s ! j = 0" using j by (simp add: fd_table_nth)
    with rel(4) new(8) show ?thesis by (simp add: run) (metis list_update_id)
  qed
  moreover have "0 \<in> set (fd_table s)" using first_free_fd(4) [of s] True by auto
  moreover have "kheap_owned (file_free_descriptor desc s') = kheap_owned s" using rel(3) new(3,6) by (auto simp: run simp del: mem_region)
  ultimately show ?thesis
    using new rel(1,2) assms(2) by (simp add: run j_def)
qed

definition demo_no_files :: "model_drive fs_state" where
  "demo_no_files = KheapInit (demo_volume\<lparr>ram := \<lambda>_. 0, file_descriptors := 0x1000\<rparr>)"

theorem file_new_descriptor_lowest_witness:
  "\<exists>desc s'. file_new_descriptor demo_no_files = (0, desc, s') \<and> file_get_descriptor 1 s' = desc \<and>
    kheap_free (file_free_descriptor desc s') = 25600"
proof -
  obtain res desc s' where new: "file_new_descriptor demo_no_files = (res, desc, s')"
    by (cases "file_new_descriptor demo_no_files")
  have state: "kheap_inv demo_no_files" "kheap_free demo_no_files = 25600"
    unfolding demo_no_files_def by (rule KheapInit_ready)+
  have tbl: "file_descriptors demo_no_files = 0x1000" by (simp add: demo_no_files_def KheapInit_eq)
  have "a \<in> kheap_owned demo_no_files" if "a \<in> region 0x1000 2048" for a :: addr
    using that unfolding demo_no_files_def KheapInit_owned by (auto simp: region_unat simp del: mem_region)
  then have own: "region (file_descriptors demo_no_files) 2048 \<subseteq> kheap_owned demo_no_files" unfolding tbl by blast
  have "ram demo_no_files a = 0" for a
    by (simp add: demo_no_files_def KheapInit_eq InitializeHeapTable_memset memset_apply)
  then have empty: "fd_table demo_no_files ! 0 = 0" by (simp add: fd_table_nth ld32_def)
  then have "0 \<in> set (fd_table demo_no_files)" by (metis length_fd_table nth_mem zero_less_numeral)
  moreover have "first_free_fd demo_no_files = 0"
    using empty first_free_fd(2) [of demo_no_files] by (metis not_gr_zero)
  ultimately show ?thesis
    using file_new_descriptor_lowest [OF state(1) _ own new] state(2) new by simp
qed

end
