(* ===== verification/Task.thy ===== *)
theory Task
  imports File
begin

text \<open>
  Tasks: \<^verbatim>\<open>task/task.c\<close> with the register switches of \<^verbatim>\<open>task/task.asm\<close> and \<^verbatim>\<open>kernel.asm\<close>, and
  \<open>kernel_page\<close> of \<^verbatim>\<open>kernel.c\<close>.  \<open>struct task\<close> (64 bytes) has \<open>page_directory\<close> at 0, \<open>registers\<close> at 4
  (twelve words: \<open>edi\<close>, \<open>esi\<close>, \<open>ebp\<close>, \<open>ebx\<close>, \<open>edx\<close>, \<open>ecx\<close>, \<open>eax\<close>, \<open>ip\<close>, \<open>cs\<close>, \<open>flags\<close>, \<open>esp\<close>,
  \<open>ss\<close>), \<open>process\<close> at 52, \<open>next\<close> at 56 and \<open>prev\<close> at 60; \<open>struct interrupt_frame\<close> is thirteen words.

  Code that runs while a task's page directory is loaded reads and writes memory through the
  translation of that directory; a page that is not mapped faults, and the model has no result.
\<close>

section \<open>State and register switches\<close>

record 'd task_state = "'d fs_state" +
  current_task :: addr
  task_list_head :: addr
  task_list_tail :: addr
  kernel_page_chunk :: addr
  data_segments :: u16

definition kernel_registers :: "('d, 'a) task_state_scheme \<Rightarrow> ('d, 'a) task_state_scheme" where
  "kernel_registers s = s\<lparr>data_segments := 0x10\<rparr>"

definition user_registers :: "('d, 'a) task_state_scheme \<Rightarrow> ('d, 'a) task_state_scheme" where
  "user_registers s = s\<lparr>data_segments := 0x23\<rparr>"

definition kernel_page :: "('d, 'a) task_state_scheme \<Rightarrow> ('d, 'a) task_state_scheme" where
  "kernel_page s = (let s1 = kernel_registers s in paging_switch (kernel_page_chunk s1) s1)"

section \<open>task.c: the list of tasks\<close>

definition task_current :: "('d, 'a) task_state_scheme \<Rightarrow> addr" where
  "task_current s = current_task s"

definition task_get_next :: "('d, 'a) task_state_scheme \<Rightarrow> addr" where
  "task_get_next s =
     (if ld32 (ram s) (current_task s + 56) = 0 then task_list_head s
      else ld32 (ram s) (current_task s + 56))"

definition task_list_remove :: "addr \<Rightarrow> ('d, 'a) task_state_scheme \<Rightarrow> ('d, 'a) task_state_scheme" where
  "task_list_remove task s =
     (let s1 = (if ld32 (ram s) (task + 60) \<noteq> 0 then
                  let m = st32 (ram s) (ld32 (ram s) (task + 60) + 56) (ld32 (ram s) (task + 56))
                  in s\<lparr>ram := (if ld32 m (task + 56) \<noteq> 0
                              then st32 m (ld32 m (task + 56) + 60) (ld32 m (task + 60)) else m)\<rparr>
                else s);
          s2 = (if task = task_list_head s1 then s1\<lparr>task_list_head := ld32 (ram s1) (task + 56)\<rparr> else s1);
          s3 = (if task = task_list_tail s2 then s2\<lparr>task_list_tail := ld32 (ram s2) (task + 60)\<rparr> else s2)
      in if task = current_task s3 then s3\<lparr>current_task := task_get_next s3\<rparr> else s3)"

definition task_free :: "addr \<Rightarrow> ('d, 'a) task_state_scheme \<Rightarrow> u32 \<times> ('d, 'a) task_state_scheme" where
  "task_free task s =
     (let s1 = paging_free_4gb (ld32 (ram s) task) s;
          s2 = task_list_remove task s1
      in (0, kFree task s2))"

definition task_init :: "addr \<Rightarrow> addr \<Rightarrow> ('d, 'a) task_state_scheme \<Rightarrow> u32 \<times> ('d, 'a) task_state_scheme" where
  "task_init task process s =
     (let (chunk, s1) = paging_new_4gb (ucast (PAGING_IS_PRESENT OR PAGING_ACCESS_FROM_ALL))
                          (s\<lparr>ram := memset (ram s) task 0 64\<rparr>);
          m0 = st32 (ram s1) task chunk
      in if ld32 m0 task = 0 then (- EIO, s1\<lparr>ram := m0\<rparr>)
         else
           let m1 = st32 m0 (task + 32) PEACHOS_PROGRAM_VIRTUAL_ADDRESS;
               m2 = st32 m1 (task + 48) USER_DATA_SEGMENT;
               m3 = st32 m2 (task + 44) PEACHOS_PROGRAM_STACK_VIRTUAL_ADDRESS_START;
               m4 = st32 m3 (task + 36) USER_CODE_SEGMENT;
               m5 = st32 m4 (task + 52) process
           in (0, s1\<lparr>ram := m5\<rparr>))"

definition task_link :: "addr \<Rightarrow> ('d, 'a) task_state_scheme \<Rightarrow> ('d, 'a) task_state_scheme" where
  "task_link task s =
     (if task_list_head s = 0
      then s\<lparr>task_list_head := task, task_list_tail := task, current_task := task\<rparr>
      else s\<lparr>ram := st32 (st32 (ram s) (task_list_tail s + 56) task) (task + 60) (task_list_tail s),
             task_list_tail := task\<rparr>)"

definition task_new :: "addr \<Rightarrow> ('d, 'a) task_state_scheme \<Rightarrow> addr \<times> ('d, 'a) task_state_scheme" where
  "task_new process s =
     (let (task, s1) = kZalloc 64 s;
          (res, s2) = (if task = 0 then (- ENOMEM, s1)
                       else
                         let (r, s') = task_init task process s1
                         in if r \<noteq> PEACHOS_ALL_OK then (r, s') else (r, task_link task s'))
      in if ISERR res then (res, snd (task_free task s2)) else (task, s2))"

section \<open>task.c: switching\<close>

definition task_switch :: "addr \<Rightarrow> ('d, 'a) task_state_scheme \<Rightarrow> u32 \<times> ('d, 'a) task_state_scheme" where
  "task_switch task s = (0, paging_switch (ld32 (ram s) task) (s\<lparr>current_task := task\<rparr>))"

definition task_page :: "('d, 'a) task_state_scheme \<Rightarrow> u32 \<times> ('d, 'a) task_state_scheme" where
  "task_page s = (0, snd (task_switch (current_task s) (user_registers s)))"

definition task_page_task :: "addr \<Rightarrow> ('d, 'a) task_state_scheme \<Rightarrow> u32 \<times> ('d, 'a) task_state_scheme" where
  "task_page_task task s = (0, paging_switch (ld32 (ram s) task) (user_registers s))"

text \<open>What the processor holds when \<open>iretd\<close> has left the kernel.  \<open>task_return\<close> loads the
  registers of the task; \<open>frame\<close> is the stack pointer at its entry, \<open>flags\<close> the processor flags.\<close>

record user_context =
  uc_edi :: u32
  uc_esi :: u32
  uc_ebp :: u32
  uc_ebx :: u32
  uc_edx :: u32
  uc_ecx :: u32
  uc_eax :: u32
  uc_eip :: u32
  uc_cs :: u32
  uc_eflags :: u32
  uc_esp :: u32
  uc_ss :: u32

definition task_return :: "u32 \<Rightarrow> u32 \<Rightarrow> addr \<Rightarrow>
    ('d, 'a) task_state_scheme \<Rightarrow> user_context \<times> ('d, 'a) task_state_scheme" where
  "task_return frame flags regs s =
     (\<lparr>uc_edi = ld32 (ram s) regs, uc_esi = ld32 (ram s) (regs + 4), uc_ebp = frame,
       uc_ebx = ld32 (ram s) (regs + 12), uc_edx = ld32 (ram s) (regs + 16),
       uc_ecx = ld32 (ram s) (regs + 20), uc_eax = ld32 (ram s) (regs + 24),
       uc_eip = ld32 (ram s) (regs + 28), uc_cs = ld32 (ram s) (regs + 32),
       uc_eflags = flags OR 0x200, uc_esp = ld32 (ram s) (regs + 40), uc_ss = ld32 (ram s) (regs + 44)\<rparr>,
      s\<lparr>data_segments := ucast (ld32 (ram s) (regs + 44))\<rparr>)"

definition task_run_first_ever_task :: "u32 \<Rightarrow> u32 \<Rightarrow>
    ('d, 'a) task_state_scheme \<Rightarrow> (user_context, ('d, 'a) task_state_scheme) outcome" where
  "task_run_first_ever_task frame flags s =
     (if current_task s = 0 then panic ''task_run_first_ever_task(): No current task exits!\<newline>'' s
      else
        let (res, s1) = task_switch (task_list_head s) s;
            (uc, s2) = task_return frame flags (task_list_head s1 + 4) s1
        in Returns uc s2)"

section \<open>task.c: saved state\<close>

definition task_save_state :: "addr \<Rightarrow> addr \<Rightarrow> mem \<Rightarrow> mem" where
  "task_save_state task frame m =
     (let m = st32 m (task + 32) (ld32 m (frame + 32));
          m = st32 m (task + 36) (ld32 m (frame + 36));
          m = st32 m (task + 40) (ld32 m (frame + 40));
          m = st32 m (task + 44) (ld32 m (frame + 44));
          m = st32 m (task + 48) (ld32 m (frame + 48));
          m = st32 m (task + 12) (ld32 m (frame + 8));
          m = st32 m (task + 16) (ld32 m (frame + 16));
          m = st32 m (task + 24) (ld32 m (frame + 24));
          m = st32 m (task + 4) (ld32 m frame);
          m = st32 m (task + 20) (ld32 m (frame + 20))
      in st32 m (task + 8) (ld32 m (frame + 4)))"

definition task_current_save_state ::
  "addr \<Rightarrow> ('d, 'a) task_state_scheme \<Rightarrow> (unit, ('d, 'a) task_state_scheme) outcome" where
  "task_current_save_state frame s =
     (if task_current s = 0 then panic ''No current task to save\<newline>'' s
      else Returns () (s\<lparr>ram := task_save_state (task_current s) frame (ram s)\<rparr>))"

section \<open>task.c: access to the memory of a task\<close>

definition vaddr :: "('d, 'a) task_state_scheme \<Rightarrow> addr \<Rightarrow> addr option" where
  "vaddr s va = (if bit (cr0 s) 31 then map_option fst (translate (ram s) (cr3 s) va) else Some va)"

definition vload8 :: "('d, 'a) task_state_scheme \<Rightarrow> addr \<Rightarrow> u8 option" where
  "vload8 s va = map_option (ram s) (vaddr s va)"

definition vstore8 :: "addr \<Rightarrow> u8 \<Rightarrow> ('d, 'a) task_state_scheme \<Rightarrow> ('d, 'a) task_state_scheme option" where
  "vstore8 va v s = map_option (\<lambda>a. s\<lparr>ram := (ram s)(a := v)\<rparr>) (vaddr s va)"

definition vload32 :: "('d, 'a) task_state_scheme \<Rightarrow> addr \<Rightarrow> u32 option" where
  "vload32 s va =
     do {
       b0 \<leftarrow> vload8 s va; b1 \<leftarrow> vload8 s (va + 1); b2 \<leftarrow> vload8 s (va + 2); b3 \<leftarrow> vload8 s (va + 3);
       Some (ucast b0 OR push_bit 8 (ucast b1) OR push_bit 16 (ucast b2) OR push_bit 24 (ucast b3))
     }"

text \<open>\<open>strncpy\<close> while a task's page directory is loaded.\<close>

function vstrncpy_loop :: "addr \<Rightarrow> addr \<Rightarrow> u32 \<Rightarrow> u32 \<Rightarrow>
    ('d, 'a) task_state_scheme \<Rightarrow> (u32 \<times> ('d, 'a) task_state_scheme) option" where
  "vstrncpy_loop dest src n i s =
     (if i <s n - 1 then
        (case vload8 s (src + i) of
           None \<Rightarrow> None
         | Some c \<Rightarrow>
             if c = 0 then Some (i, s)
             else (case vstore8 (dest + i) c s of
                     None \<Rightarrow> None
                   | Some s' \<Rightarrow> vstrncpy_loop dest src n (i + 1) s'))
      else Some (i, s))"
  by pat_completeness auto
termination
  by (relation "measure (\<lambda>(dest, src, n, i, s). nat (sint (n - 1) - sint i))")
    (auto simp: sint_Suc word_sless_alt)

declare vstrncpy_loop.simps [simp del]

definition vstrncpy :: "addr \<Rightarrow> addr \<Rightarrow> u32 \<Rightarrow> ('d, 'a) task_state_scheme \<Rightarrow> ('d, 'a) task_state_scheme option" where
  "vstrncpy dest src n s = do { (i, s') \<leftarrow> vstrncpy_loop dest src n 0 s; vstore8 (dest + i) 0 s' }"

definition copy_string_from_task :: "addr \<Rightarrow> addr \<Rightarrow> addr \<Rightarrow> u32 \<Rightarrow>
    ('d, 'a) task_state_scheme \<Rightarrow> (u32 \<times> ('d, 'a) task_state_scheme) option" where
  "copy_string_from_task task virtual phy max_len s =
     (if PAGE_SIZE_IN_BYTES <s max_len then Some (- EINVARG, s)
      else
        let (tmp, s1) = kZalloc max_len s
        in if tmp = 0 then Some (- ENOMEM, s1)
           else
             let task_directory = ld32 (ram s1) (ld32 (ram s1) task);
                 old_entry = paging_get task_directory tmp (ram s1);
                 (r, m) = paging_map (ld32 (ram s1) task) tmp tmp
                            (PAGING_IS_WRITEABLE OR PAGING_IS_PRESENT OR PAGING_ACCESS_FROM_ALL) (ram s1);
                 s2 = paging_switch (ld32 m task) (s1\<lparr>ram := m\<rparr>)
             in do {
               s3 \<leftarrow> vstrncpy tmp virtual max_len s2;
               let s4 = kernel_page s3;
               let (res, m4) = paging_set task_directory tmp old_entry (ram s4);
               let s5 = s4\<lparr>ram := m4\<rparr>;
               if res <s 0 then Some (- EIO, kFree tmp s5)
               else Some (res, kFree tmp (s5\<lparr>ram := strncpy (ram s5) phy tmp max_len\<rparr>))
             })"

definition task_get_stack_item :: "addr \<Rightarrow> u32 \<Rightarrow>
    ('d, 'a) task_state_scheme \<Rightarrow> (u32 \<times> ('d, 'a) task_state_scheme) option" where
  "task_get_stack_item task index s =
     (let sp_ptr = ld32 (ram s) (task + 44);
          (r, s1) = task_page_task task s
      in do {
        result \<leftarrow> vload32 s1 (sp_ptr + 4 * index);
        Some (result, kernel_page s1)
      })"

section \<open>The list of tasks\<close>

text \<open>\<open>task_links m ts\<close>: the structures at the addresses \<open>ts\<close> form a doubly linked list in this order.\<close>

definition task_links :: "mem \<Rightarrow> addr list \<Rightarrow> bool" where
  "task_links m ts \<longleftrightarrow> distinct ts \<and> (\<forall>t\<in>set ts. t \<noteq> 0 \<and> page_aligned t) \<and>
     (\<forall>i<length ts. ld32 m (ts ! i + 56) = (if Suc i < length ts then ts ! Suc i else 0) \<and>
        ld32 m (ts ! i + 60) = (if i = 0 then 0 else ts ! (i - 1)))"

definition task_list :: "('d, 'a) task_state_scheme \<Rightarrow> addr list \<Rightarrow> bool" where
  "task_list s ts \<longleftrightarrow> task_links (ram s) ts \<and> task_list_head s = (if ts = [] then 0 else hd ts) \<and>
     (ts \<noteq> [] \<longrightarrow> task_list_tail s = last ts \<and> current_task s \<in> set ts)"

lemma task_linksD:
  assumes "task_links m ts" "i < length ts"
  shows "ld32 m (ts ! i + 56) = (if Suc i < length ts then ts ! Suc i else 0)"
    "ld32 m (ts ! i + 60) = (if i = 0 then 0 else ts ! (i - 1))"
    "ts ! i \<noteq> 0" "page_aligned (ts ! i)"
  using assms nth_mem [OF assms(2)] by (simp_all add: task_links_def)

lemma task_links_nth_eq: "task_links m ts \<Longrightarrow> i < length ts \<Longrightarrow> j < length ts \<Longrightarrow> ts ! i = ts ! j \<longleftrightarrow> i = j"
  by (simp add: task_links_def nth_eq_iff_index_eq)

text \<open>The link fields of tasks do not overlap.\<close>

lemma link_words:
  assumes "page_aligned p" "page_aligned q"
  shows "ld32 (st32 m (p + 56) v) (q + 56) = (if p = q then v else ld32 m (q + 56))"
    "ld32 (st32 m (p + 60) v) (q + 60) = (if p = q then v else ld32 m (q + 60))"
    "ld32 (st32 m (p + 56) v) (q + 60) = ld32 m (q + 60)"
    "ld32 (st32 m (p + 60) v) (q + 56) = ld32 m (q + 56)"
  using assms by (simp_all add: ld32_st32_field)

lemma task_link_appends:
  assumes list: "task_list s ts" and t: "t \<noteq> 0" "page_aligned t" "t \<notin> set ts"
    and zero: "ld32 (ram s) (t + 56) = 0" "ld32 (ram s) (t + 60) = 0"
  shows "task_list (task_link t s) (ts @ [t])"
proof (cases "ts = []")
  case True
  with assms show ?thesis by (simp add: task_list_def task_link_def task_links_def)
next
  case False
  define n m where "n = length ts" and "m = st32 (st32 (ram s) (last ts + 56) t) (t + 60) (last ts)"
  have links: "task_links (ram s) ts" and tail: "task_list_tail s = last ts" and cur: "current_task s \<in> set ts"
    and head: "task_list_head s = hd ts" using list False by (auto simp: task_list_def)
  have n: "0 < n" "last ts = ts ! (n - 1)" using False by (simp_all add: n_def last_conv_nth)
  have head0: "hd ts \<noteq> 0" using task_linksD(3) [OF links, of 0] False by (simp add: hd_conv_nth)
  have al: "page_aligned (ts ! i)" if "i < n" for i using task_linksD(4) [OF links] that by (simp add: n_def)
  have lal: "page_aligned (last ts)" using al [of "n - 1"] n by simp
  have ne: "t \<noteq> ts ! i" if "i < n" for i using t(3) nth_mem [of i ts] that by (metis n_def)
  have old: "ld32 m (ts ! i + 56) = (if Suc i < n then ts ! Suc i else t) \<and> ld32 m (ts ! i + 60) = (if i = 0 then 0 else ts ! (i - 1))"
    if i: "i < n" for i
  proof -
    have "last ts = ts ! i \<longleftrightarrow> Suc i = n" using task_links_nth_eq [OF links, of "n - 1" i] n i by (auto simp: n_def)
    moreover have "ld32 m (ts ! i + 56) = (if last ts = ts ! i then t else ld32 (ram s) (ts ! i + 56))"
      "ld32 m (ts ! i + 60) = ld32 (ram s) (ts ! i + 60)"
      using al [OF i] lal t(2) ne [OF i] by (simp_all add: m_def link_words)
    ultimately show ?thesis using task_linksD(1,2) [OF links, of i] i by (simp add: n_def)
  qed
  have new: "ld32 m (t + 56) = 0" "ld32 m (t + 60) = ts ! (n - 1)"
    using zero t last_in_set [OF False] lal n(2) by (auto simp: m_def link_words)
  have "ld32 m ((ts @ [t]) ! i + 56) = (if Suc i < Suc n then (ts @ [t]) ! Suc i else 0) \<and>
      ld32 m ((ts @ [t]) ! i + 60) = (if i = 0 then 0 else (ts @ [t]) ! (i - 1))" if "i < Suc n" for i
  proof (cases "i = n")
    case True
    with new n show ?thesis by (simp add: nth_append n_def)
  next
    case False
    with that have "i < n" by simp
    with old show ?thesis by (auto simp: nth_append n_def)
  qed
  then have "task_links m (ts @ [t])" using links t by (simp add: task_links_def n_def)
  then show ?thesis
    using False head0 cur by (simp add: task_list_def task_link_def head tail m_def)
qed

text \<open>What removing a task that is not the first does to memory.\<close>

lemma unlink_links:
  assumes links: "task_links m ts" and i: "0 < i" "i < length ts"
  defines "nxt \<equiv> (if Suc i < length ts then ts ! Suc i else 0)"
  defines "m1 \<equiv> st32 m (ts ! (i - 1) + 56) nxt"
  shows "task_links (if nxt \<noteq> 0 then st32 m1 (nxt + 60) (ts ! (i - 1)) else m1) (take i ts @ drop (Suc i) ts)"
proof -
  define n m' us where "n = length ts" and "m' = (if nxt \<noteq> 0 then st32 m1 (nxt + 60) (ts ! (i - 1)) else m1)"
    and "us = take i ts @ drop (Suc i) ts"
  have us: "length us = n - 1" "\<And>k. k < n - 1 \<Longrightarrow> us ! k = ts ! (if k < i then k else Suc k)"
    using i by (auto simp: us_def n_def nth_append)
  note D = task_linksD [OF links, folded n_def] and eq = task_links_nth_eq [OF links, folded n_def]
  have nx: "nxt \<noteq> 0 \<longleftrightarrow> Suc i < n" using D(3) [of "Suc i"] by (simp add: nxt_def n_def)
  have fwd: "ld32 m' (ts ! j + 56) = (if j = i - 1 then nxt else if Suc j < n then ts ! Suc j else 0)" if "j < n" for j
    using that D(1) [of j] D(4) [of j] D(4) [of "i - 1"] D(4) [of "Suc i"] eq [of "i - 1" j] i
    by (auto simp: m'_def m1_def link_words nx n_def) (auto simp: nxt_def link_words n_def)
  have bwd: "ld32 m' (ts ! j + 60) = (if j = Suc i then ts ! (i - 1) else if j = 0 then 0 else ts ! (j - 1))" if "j < n" for j
    using that D(2) [of j] D(4) [of j] D(4) [of "i - 1"] D(4) [of "Suc i"] eq [of "Suc i" j] i
    by (auto simp: m'_def m1_def link_words nx n_def) (auto simp: nxt_def link_words n_def)
  have "ld32 m' (us ! k + 56) = (if Suc k < n - 1 then us ! Suc k else 0) \<and>
      ld32 m' (us ! k + 60) = (if k = 0 then 0 else us ! (k - 1))" if k: "k < n - 1" for k
  proof (cases "k < i")
    case True
    then have at: "us ! k = ts ! k" using us(2) [OF k] by simp
    have "us ! Suc k = (if Suc k < i then ts ! Suc k else ts ! Suc (Suc k))" if "Suc k < n - 1" using us(2) [OF that] by simp
    moreover have "us ! (k - 1) = ts ! (k - 1)" if "0 < k" using us(2) [of "k - 1"] k True by auto
    ultimately show ?thesis
      using fwd [of k] bwd [of k] k i True unfolding at by (cases "i = Suc k") (auto simp: nxt_def n_def)
  next
    case False
    then have at: "us ! k = ts ! Suc k" using us(2) [OF k] by simp
    have "us ! Suc k = ts ! Suc (Suc k)" if "Suc k < n - 1" using us(2) [OF that] False by simp
    moreover have "us ! (k - 1) = (if k = i then ts ! (i - 1) else ts ! k)"
      using us(2) [of "k - 1"] k i False by auto
    ultimately show ?thesis
      using fwd [of "Suc k"] bwd [of "Suc k"] k i False unfolding at by auto
  qed
  moreover have "distinct us" "\<forall>t\<in>set us. t \<noteq> 0 \<and> page_aligned t"
    using links by (auto simp: us_def task_links_def set_take_disj_set_drop_if_distinct dest: in_set_takeD in_set_dropD)
  ultimately show ?thesis by (simp add: task_links_def us(1) m'_def us_def [symmetric])
qed

text \<open>A list without one of its elements, not the first.\<close>

lemma removed_nth:
  assumes "distinct xs" "0 < i" "i < length xs"
  shows "set (take i xs @ drop (Suc i) xs) = set xs - {xs ! i}" "take i xs @ drop (Suc i) xs \<noteq> []"
    "hd (take i xs @ drop (Suc i) xs) = hd xs"
    "last (take i xs @ drop (Suc i) xs) = (if Suc i = length xs then xs ! (i - 1) else last xs)"
proof -
  let ?us = "take i xs @ drop (Suc i) xs"
  have split: "xs = take i xs @ xs ! i # drop (Suc i) xs" using assms(3) by (rule id_take_nth_drop)
  have "distinct (take i xs @ xs ! i # drop (Suc i) xs)" using assms(1) by (simp only: split [symmetric])
  then have "xs ! i \<notin> set ?us" by simp
  moreover have "set xs = insert (xs ! i) (set ?us)" by (subst split) (simp only: set_append list.set Un_insert_right)
  ultimately show "set ?us = set xs - {xs ! i}" by blast
  have ne: "xs \<noteq> []" using assms(3) by auto
  show "?us \<noteq> []" "hd ?us = hd xs" using assms(2,3) ne by (auto simp: hd_append)
  show "last ?us = (if Suc i = length xs then xs ! (i - 1) else last xs)"
    using assms(2,3) ne by (cases "Suc i = length xs") (auto simp: last_append last_drop last_conv_nth [of "take i xs"])
qed

lemma task_list_remove_run:
  assumes "ld32 (ram s) (t + 60) = p" "p \<noteq> 0" "ld32 (ram s) (t + 56) = nxt" "t \<noteq> task_list_head s"
    "m1 = st32 (ram s) (p + 56) nxt" "ld32 m1 (t + 56) = nxt" "ld32 m1 (t + 60) = p"
    "m' = (if nxt \<noteq> 0 then st32 m1 (nxt + 60) p else m1)" "ld32 m' (t + 56) = nxt" "ld32 m' (t + 60) = p"
  shows "task_list_remove t s = s\<lparr>ram := m', task_list_tail := (if t = task_list_tail s then p else task_list_tail s),
    current_task := (if t = current_task s then (if nxt = 0 then task_list_head s else nxt) else current_task s)\<rparr>"
proof -
  have "(if ld32 (ram s) (t + 60) \<noteq> 0 then
          let m = st32 (ram s) (ld32 (ram s) (t + 60) + 56) (ld32 (ram s) (t + 56))
          in s\<lparr>ram := (if ld32 m (t + 56) \<noteq> 0 then st32 m (ld32 m (t + 56) + 60) (ld32 m (t + 60)) else m)\<rparr>
        else s) = s\<lparr>ram := m'\<rparr>"
    unfolding assms(1,3) Let_def assms(5) [symmetric] assms(6,7,8) using assms(2) by simp
  note unlink = this
  show ?thesis
    unfolding task_list_remove_def unlink using assms(4,9,10)
    by (cases "t = task_list_tail s"; cases "t = current_task s") (simp_all add: Let_def task_get_next_def)
qed

text \<open>C26. Removing a task other than the first takes exactly that task out of the doubly linked list,
  updates the tail, and passes the processor on: if the removed task was running, the next in the
  ring of tasks runs.\<close>

theorem task_list_remove_unlinks:
  assumes "task_list s ts" and "0 < i" "i < length ts"
  shows "task_list (task_list_remove (ts ! i) s) (take i ts @ drop (Suc i) ts) \<and>
    current_task (task_list_remove (ts ! i) s) =
      (if current_task s = ts ! i then ts ! (Suc i mod length ts) else current_task s)"
proof -
  define n where "n = length ts"
  define nxt where "nxt = (if Suc i < length ts then ts ! Suc i else 0)"
  define m1 where "m1 = st32 (ram s) (ts ! (i - 1) + 56) nxt"
  define m' where "m' = (if nxt \<noteq> 0 then st32 m1 (nxt + 60) (ts ! (i - 1)) else m1)"
  have links: "task_links (ram s) ts" and ends: "task_list_head s = hd ts" "task_list_tail s = last ts" "current_task s \<in> set ts"
    using assms by (auto simp: task_list_def)
  note new = unlink_links [OF links assms(2,3), folded nxt_def, folded m1_def, folded m'_def]
  note D = task_linksD [OF links] and eq = task_links_nth_eq [OF links]
  have own: "ld32 (ram s) (ts ! i + 56) = nxt" "ld32 (ram s) (ts ! i + 60) = ts ! (i - 1)" "ts ! (i - 1) \<noteq> 0"
    using D(1,2) [OF assms(3)] D(3) [of "i - 1"] assms(2,3) by (simp_all add: nxt_def)
  have own1: "ld32 m1 (ts ! i + 56) = nxt" "ld32 m1 (ts ! i + 60) = ts ! (i - 1)"
    using own D(4) [of i] D(4) [of "i - 1"] eq [of "i - 1" i] assms(2,3) by (auto simp: m1_def link_words)
  have nxt_ok: "nxt \<noteq> 0 \<Longrightarrow> page_aligned nxt \<and> nxt \<noteq> ts ! i"
    using D(4) [of "Suc i"] eq [of "Suc i" i] assms(3) by (auto simp: nxt_def split: if_splits)
  have own': "ld32 m' (ts ! i + 56) = nxt" "ld32 m' (ts ! i + 60) = ts ! (i - 1)"
    using own1 nxt_ok D(4) [of i] assms(3) by (cases "nxt = 0"; simp add: m'_def link_words)+
  have ne: "ts \<noteq> []" using assms(3) by auto
  have notfirst: "ts ! i \<noteq> hd ts" using eq [of i 0] assms(2,3) ne by (simp add: hd_conv_nth)
  have lst: "ts ! i = last ts \<longleftrightarrow> Suc i = n" using eq [of i "n - 1"] assms(3) ne
    by (simp add: last_conv_nth n_def) linarith
  let ?t = "if Suc i = n then ts ! (i - 1) else last ts"
  have run: "task_list_remove (ts ! i) s = s\<lparr>ram := m', task_list_tail := ?t,
      current_task := (if current_task s = ts ! i then (if nxt = 0 then hd ts else nxt) else current_task s)\<rparr>"
    using task_list_remove_run [OF own(2,3,1) _ m1_def own1 m'_def own'] notfirst lst ends(1,2) by simp
  have nx: "(if nxt = 0 then hd ts else nxt) = ts ! (Suc i mod n)"
    using D(3) [of "Suc i"] assms(3) ne by (auto simp: nxt_def n_def hd_conv_nth not_less le_Suc_eq)
  let ?us = "take i ts @ drop (Suc i) ts"
  have "distinct ts" using links by (simp add: task_links_def)
  note rest = removed_nth [OF this assms(2,3)]
  have "Suc i mod n < n" "Suc i mod n \<noteq> i" using assms(2,3) by (auto simp: n_def mod_Suc)
  then have "ts ! (Suc i mod n) \<in> set ?us" unfolding rest(1) using eq [of "Suc i mod n" i] assms(3) by (auto simp: n_def)
  then have cur: "current_task (task_list_remove (ts ! i) s) \<in> set ?us"
    unfolding rest(1) using ends(3) nx by (simp add: run)
  have "task_list (task_list_remove (ts ! i) s) ?us"
    using new cur ends(1) ne assms(2) rest(2-4) by (simp add: task_list_def run n_def)
  then show ?thesis using run nx by (simp add: n_def)
qed

text \<open>Taking out the first task leaves the back link of the next one as it was.\<close>

lemma task_list_remove_head:
  assumes "task_list s ts" and "2 \<le> length ts"
  shows "task_list_head (task_list_remove (hd ts) s) = ts ! 1 \<and> ram (task_list_remove (hd ts) s) = ram s \<and>
    ld32 (ram s) (ts ! 1 + 60) = hd ts"
proof -
  have links: "task_links (ram s) ts" and head: "task_list_head s = hd ts" and ne: "ts \<noteq> []"
    using assms by (auto simp: task_list_def)
  have "hd ts = ts ! 0" using ne by (simp add: hd_conv_nth)
  then show ?thesis
    using task_linksD(1,2) [OF links, of 0] task_linksD(2) [OF links, of 1] assms(2) head ne
    by (auto simp: task_list_remove_def Let_def)
qed

text \<open>C27. Taking the next task over and over visits the tasks in the order of the list, round and
  round: no task is left out.\<close>

theorem task_get_next_round_robin:
  assumes "task_list s ts" and "i < length ts" and "current_task s = ts ! i"
  shows "current_task (((\<lambda>s. s\<lparr>current_task := task_get_next s\<rparr>) ^^ k) s) = ts ! ((i + k) mod length ts) \<and>
    (\<forall>t\<in>set ts. \<exists>k < length ts. current_task (((\<lambda>s. s\<lparr>current_task := task_get_next s\<rparr>) ^^ k) s) = t)"
proof -
  let ?next = "\<lambda>s. s\<lparr>current_task := task_get_next s\<rparr>"
  have links: "task_links (ram s) ts" and head: "task_list_head s = hd ts" and ne: "ts \<noteq> []"
    using assms by (auto simp: task_list_def)
  have next1: "task_get_next (s\<lparr>current_task := ts ! j\<rparr>) = ts ! (Suc j mod length ts)" if "j < length ts" for j
    using task_linksD(1) [OF links that] task_linksD(3) [OF links, of "Suc j"] that head ne
    by (auto simp: task_get_next_def hd_conv_nth not_less le_Suc_eq)
  have steps: "(?next ^^ k) s = s\<lparr>current_task := ts ! ((i + k) mod length ts)\<rparr>" for k
  proof (induction k)
    case 0
    have "s\<lparr>current_task := current_task s\<rparr> = s" by simp
    then show ?case using assms(2,3) by simp
  next
    case (Suc k)
    have "(i + k) mod length ts < length ts" using ne by simp
    then show ?case by (simp add: Suc next1 mod_Suc_eq)
  qed
  have "\<exists>k < length ts. current_task ((?next ^^ k) s) = t" if t: "t \<in> set ts" for t
  proof -
    obtain j where j: "j < length ts" "t = ts ! j" using t by (auto simp: in_set_conv_nth)
    define k where "k = (j + (length ts - i)) mod length ts"
    have "(i + k) mod length ts = (i + (j + (length ts - i))) mod length ts" by (simp add: k_def mod_simps)
    also have "\<dots> = j" using assms(2) j(1) by simp
    finally show ?thesis using j ne by (intro exI [of _ k]) (simp add: steps k_def)
  qed
  then show ?thesis using steps by simp
qed

section \<open>Saved state\<close>

lemma saved_registers:
  fixes task frame :: addr and m :: mem
  assumes "region task 64 \<inter> region frame 52 = {}"
  defines "m' \<equiv> task_save_state task frame m"
  shows "ld32 m' (task + 32) = ld32 m (frame + 32)" "ld32 m' (task + 36) = ld32 m (frame + 36)"
    "ld32 m' (task + 44) = ld32 m (frame + 44)" "ld32 m' (task + 48) = ld32 m (frame + 48)"
    "ld32 m' (task + 4) = ld32 m frame" "ld32 m' (task + 8) = ld32 m (frame + 4)"
    "ld32 m' (task + 16) = ld32 m (frame + 16)" "ld32 m' (task + 20) = ld32 m (frame + 20)"
    "ld32 m' (task + 24) = ld32 m (frame + 24)" "ld32 m' (task + 28) = ld32 m (task + 28)"
    "ld32 m' task = ld32 m task" "same_outside (region task 52) m m'"
    "ld32 m' (task + 12) = ld32 m (frame + 8)" "ld32 m' (task + 40) = ld32 m (frame + 40)"
proof -
  have frame: "ld32 (st32 m' (task + i) v) (frame + j) = ld32 m' (frame + j)"
    if "unat i + 4 \<le> 64" "unat j + 4 \<le> 52" for m' i j v
    using ld32_st32_apart [OF assms(1)] that by simp
  have frame0: "ld32 (st32 m' (task + i) v) frame = ld32 m' frame" if "unat i + 4 \<le> 64" for m' i v
    using frame [of i 0] that by simp
  show "ld32 m' (task + 32) = ld32 m (frame + 32)" "ld32 m' (task + 36) = ld32 m (frame + 36)"
    "ld32 m' (task + 44) = ld32 m (frame + 44)" "ld32 m' (task + 48) = ld32 m (frame + 48)"
    "ld32 m' (task + 4) = ld32 m frame" "ld32 m' (task + 8) = ld32 m (frame + 4)"
    "ld32 m' (task + 16) = ld32 m (frame + 16)" "ld32 m' (task + 20) = ld32 m (frame + 20)"
    "ld32 m' (task + 24) = ld32 m (frame + 24)" "ld32 m' (task + 28) = ld32 m (task + 28)"
    "ld32 m' task = ld32 m task" "ld32 m' (task + 12) = ld32 m (frame + 8)" "ld32 m' (task + 40) = ld32 m (frame + 40)"
    by (simp_all add: m'_def task_save_state_def Let_def frame frame0 ld32_st32_fields ld32_st32_field0)
  show "same_outside (region task 52) m m'"
    by (simp add: m'_def task_save_state_def Let_def frame frame0 same_outside_field)
qed

text \<open>C28. A task resumes with the instruction pointer, the segments, the stack pointer and the registers \<open>edi\<close>, \<open>esi\<close>,
  \<open>ebx\<close>, \<open>edx\<close> and \<open>ecx\<close> the interrupt saved.  It does not resume with the other three: \<open>eax\<close> is not saved, so
  it is the value an earlier save left; \<open>ebp\<close> and the flags are saved in the structure of the task, but the return path
  loads the kernel's stack pointer into \<open>ebp\<close> and the kernel's own flags, with the interrupt flag set, instead of the saved
  ones.  Only the registers of the task change in memory.\<close>

theorem task_save_state_resumes:
  assumes "region task 64 \<inter> region frame 52 = {}"
    and "task_return kernel_esp flags (task + 4) (s\<lparr>ram := task_save_state task frame m\<rparr>) = (uc, s')"
  shows "uc_eip uc = ld32 m (frame + 32) \<and> uc_cs uc = ld32 m (frame + 36) \<and> uc_esp uc = ld32 m (frame + 44) \<and>
    uc_ss uc = ld32 m (frame + 48) \<and> uc_edi uc = ld32 m frame \<and> uc_esi uc = ld32 m (frame + 4) \<and>
    uc_ebx uc = ld32 m (frame + 16) \<and> uc_edx uc = ld32 m (frame + 20) \<and> uc_ecx uc = ld32 m (frame + 24) \<and>
    uc_eax uc = ld32 m (task + 28) \<and>
    ld32 (ram s') (task + 12) = ld32 m (frame + 8) \<and> uc_ebp uc = kernel_esp \<and>
    ld32 (ram s') (task + 40) = ld32 m (frame + 40) \<and> uc_eflags uc = flags OR 0x200 \<and> bit (uc_eflags uc) 9 \<and>
    same_outside (region task 64) m (ram s')"
proof -
  note saved = saved_registers [OF assms(1), of m]
  have "region task 52 \<subseteq> region task 64" using field_subset [of 0 52 64 task] by simp
  with saved(12) have "same_outside (region task 64) m (task_save_state task frame m)" by (rule same_outside_mono)
  moreover have "bit (flags OR 0x200) 9"
  proof -
    have "(0x200 :: u32) = push_bit 9 1" by simp
    then show ?thesis by (simp only: bit_or_iff bit_push_bit_iff) simp
  qed
  ultimately show ?thesis
    using assms(2) saved by (auto simp: task_return_def add.assoc)
qed

section \<open>A new task\<close>

lemma ld32_zero: "(\<And>b. b \<in> region a 4 \<Longrightarrow> m b = 0) \<Longrightarrow> ld32 m a = 0"
  using ld32_cong [of a m "\<lambda>_. 0"] by (simp add: ld32_def)

text \<open>An address space is unaffected by writes outside its pages.\<close>

lemma vspace_kept:
  assumes "chunk_ok m c" and "\<And>a. a \<in> vspace_pages m c \<Longrightarrow> m' a = m a"
  shows "ld32 m' c = ld32 m c" "chunk_ok m' c" "translate m' (ld32 m c) va = translate m (ld32 m c) va"
    "vspace_pages m' c = vspace_pages m c" "i < 1024 \<Longrightarrow> pt m' (ld32 m c) i = pt m (ld32 m c) i"
    "dir_writable m' (ld32 m c) = dir_writable m (ld32 m c)"
proof -
  have c: "page_aligned c" "page_aligned (ld32 m c)" using assms(1) by (auto simp: chunk_ok_def vspace_ok_def)
  have sub: "region c 4096 \<subseteq> vspace_pages m c" "region (ld32 m c) 4096 \<subseteq> vspace_pages m c"
    "tables m (ld32 m c) \<subseteq> vspace_pages m c" by (auto simp: vspace_pages_def)
  note v = vspace_cong [of "vspace_pages m c" m' m, OF assms(2) c(2) sub(2,3), simplified]
  show ld: "ld32 m' c = ld32 m c"
    using ld32_page_cong [of "vspace_pages m c" m' m c 0, OF assms(2) c(1) sub(1)] by simp
  show "chunk_ok m' c" "translate m' (ld32 m c) va = translate m (ld32 m c) va"
    "vspace_pages m' c = vspace_pages m c" "i < 1024 \<Longrightarrow> pt m' (ld32 m c) i = pt m (ld32 m c) i"
    "dir_writable m' (ld32 m c) = dir_writable m (ld32 m c)"
    using assms(1) by (simp_all add: chunk_ok_def vspace_pages_def dir_writable_def ld v)
qed

text \<open>Writes to the tables of an address space leave its shape alone.\<close>

lemma tables_write:
  assumes "chunk_ok m c" "same_outside (tables m (ld32 m c)) m m'"
  shows "ld32 m' c = ld32 m c" "vspace_pages m' c = vspace_pages m c"
proof -
  let ?dir = "ld32 m c"
  have c: "page_aligned c" "page_aligned ?dir" "\<And>i. i < 1024 \<Longrightarrow> pt m ?dir i \<noteq> ?dir" "\<And>i. i < 1024 \<Longrightarrow> pt m ?dir i \<noteq> c"
    using assms(1) by (auto simp: chunk_ok_def vspace_ok_def)
  have apart: "region p 4096 \<inter> tables m ?dir = {}" if "page_aligned p" "\<And>i. i < 1024 \<Longrightarrow> pt m ?dir i \<noteq> p" for p
    using pages_disjoint [OF that(1) pt_aligned] that(2) unfolding tables_def by fastforce
  have same: "m' a = m a" if "a \<in> region c 4096 \<union> region ?dir 4096" for a
    using that apart [OF c(1,4)] apart [OF c(2,3)] by (intro same_outsideD [OF assms(2)]) blast
  show d: "ld32 m' c = ld32 m c"
    using ld32_page_cong [of "region c 4096 \<union> region ?dir 4096" m' m c 0, OF same c(1)] by simp
  have "pde m' ?dir i = pde m ?dir i" if "i < 1024" for i
    using ld32_page_cong [of "region c 4096 \<union> region ?dir 4096" m' m ?dir i, OF same c(2) _ that] by (simp add: pde_def)
  then have "tables m' ?dir = tables m ?dir" by (simp add: tables_def pt_def)
  then show "vspace_pages m' c = vspace_pages m c" by (simp add: vspace_pages_def d)
qed

lemma translate_user: "translate m dir va = Some (pa, w, True) \<Longrightarrow> bit (pde m dir (pdi va)) 2"
  by (auto simp: translate_def perms_def Let_def split: if_splits)

text \<open>The fields \<open>task_init\<close> sets, and what it leaves zero.\<close>

definition task_fields :: "mem \<Rightarrow> addr \<Rightarrow> addr \<Rightarrow> addr \<Rightarrow> bool" where
  "task_fields m t c process \<longleftrightarrow> ld32 m t = c \<and> ld32 m (t + 32) = PEACHOS_PROGRAM_VIRTUAL_ADDRESS \<and>
     ld32 m (t + 36) = USER_CODE_SEGMENT \<and> ld32 m (t + 44) = PEACHOS_PROGRAM_STACK_VIRTUAL_ADDRESS_START \<and>
     ld32 m (t + 48) = USER_DATA_SEGMENT \<and> ld32 m (t + 52) = process"

lemma task_init_spec:
  assumes "kheap_inv s" "1026 \<le> kheap_free s" "kheap_page s t" "task_init t process s = (r, s')"
  shows "r = 0" "s' = s\<lparr>ram := ram s'\<rparr>" "kheap_inv s'" "kheap_free s' = kheap_free s - 1026"
    "kheap_owned s \<subseteq> kheap_owned s'" "\<And>q. kheap_page s q \<Longrightarrow> kheap_page s' q"
    "\<And>a. a \<in> kheap_owned s \<Longrightarrow> a \<notin> region t 64 \<Longrightarrow> ram s' a = ram s a"
    "\<exists>c. task_fields (ram s') t c process \<and> chunk_ok (ram s') c \<and> vspace_live s' c \<and>
       vspace_pages (ram s') c \<inter> kheap_owned s = {} \<and> vspace_pages (ram s') c \<subseteq> kheap_owned s' \<and>
       (\<forall>va. translate (ram s') (ld32 (ram s') c) va = Some (va, False, True)) \<and> dir_writable (ram s') (ld32 (ram s') c)"
    "ld32 (ram s') (t + 56) = 0" "ld32 (ram s') (t + 60) = 0"
proof -
  have t: "t \<noteq> 0" "page_aligned t" "region t 4096 \<subseteq> kheap_owned s" using kp.page_owned [OF assms(1,3)] by auto
  have sub: "region t 64 \<subseteq> kheap_owned s" using t(3) field_subset [of 0 64 4096 t] by auto
  define sA where "sA = s\<lparr>ram := memset (ram s) t 0 64\<rparr>"
  have "same_outside (region t 64) (ram s) (memset (ram s) t 0 64)" by (rule memset_frame)
  then have gA: "same_outside (kheap_owned s) (ram s) (memset (ram s) t 0 64)" using sub by (rule same_outside_mono)
  have A: "kheap_inv sA" "kheap_owned sA = kheap_owned s" "kheap_free sA = kheap_free s" "\<And>q. kheap_page sA q = kheap_page s q"
    using kz.write_owned [OF assms(1) gA] kp.write_pages [OF assms(1) gA] by (simp_all add: sA_def)
  obtain c s1 where new: "paging_new_4gb 5 sA = (c, s1)" by (cases "paging_new_4gb 5 sA")
  note n = paging_new_4gb_spec [OF A(1) _ _ new, unfolded A, OF assms(2)]
  have bits: "bit (5 :: u8) 0" "\<not> bit (5 :: u8) 1" "bit (5 :: u8) 2" by simp_all
  note n = n [OF bits(1), unfolded bits]
  define m' where "m' = st32 (st32 (st32 (st32 (st32 (st32 (ram s1) t c) (t + 32) 0x400000) (t + 48) 0x23) (t + 44) 0x3FF000)
    (t + 36) 0x1b) (t + 52) process"
  have c0: "c \<noteq> 0" using kp.page_owned [OF n(1)] n(10) by (simp add: vspace_live_def)
  then have run: "r = 0" "s' = s1\<lparr>ram := m'\<rparr>"
    using assms(4) new by (simp_all add: task_init_def sA_def [symmetric] Let_def m'_def)
  show "r = 0" by (rule run)
  have out: "same_outside (region t 64) (ram s1) m'"
    unfolding m'_def using same_outside_field [of t 64 "ram s1" "ram s1" 0] by (intro same_outside_field) simp_all
  have s1: "same_outside (kheap_owned s1) (ram s1) m'" using out sub n(4) by (intro same_outside_mono [OF out]) blast
  note w = kz.write_owned [OF n(1) s1] kp.write_pages [OF n(1) s1]
  show "s' = s\<lparr>ram := ram s'\<rparr>" using n(3) by (simp add: run sA_def) (metis kz.set_set)
  show "kheap_inv s'" "kheap_free s' = kheap_free s - 1026" "kheap_owned s \<subseteq> kheap_owned s'"
    "\<And>q. kheap_page s q \<Longrightarrow> kheap_page s' q"
    using w n(2,4,11) by (simp_all add: run)
  have keep: "m' a = ram s1 a" if "a \<notin> region t 64" for a using same_outsideD [OF out that] .
  show "ram s' a = ram s a" if "a \<in> kheap_owned s" "a \<notin> region t 64" for a
    using keep [OF that(2)] n(5) [OF that(1)] same_outsideD [OF memset_frame that(2)] by (simp add: run sA_def)
  have "m' a = ram s1 a" if "a \<in> vspace_pages (ram s1) c" for a using that keep n(9) sub by blast
  note v = vspace_kept [of "ram s1" c m', OF n(6) this, simplified]
  have "task_fields m' t c process"
    by (simp add: task_fields_def m'_def ld32_st32_fields ld32_st32_field0)
  moreover have "vspace_live s' c" using n(10) w(2) by (simp add: run vspace_live_def v)
  ultimately show "\<exists>c. task_fields (ram s') t c process \<and> chunk_ok (ram s') c \<and> vspace_live s' c \<and>
       vspace_pages (ram s') c \<inter> kheap_owned s = {} \<and> vspace_pages (ram s') c \<subseteq> kheap_owned s' \<and>
       (\<forall>va. translate (ram s') (ld32 (ram s') c) va = Some (va, False, True)) \<and> dir_writable (ram s') (ld32 (ram s') c)"
    using n(7,8,9,12) w by (intro exI [of _ c]) (simp add: run v)
  have "ram s1 a = 0" if "a \<in> region t 64" for a
    using n(5) [of a] that sub by (auto simp: sA_def memset_apply)
  then have "ld32 (ram s1) (t + 56) = 0" "ld32 (ram s1) (t + 60) = 0"
    using field_subset [of 56 4 64 t] field_subset [of 60 4 64 t] by (auto intro!: ld32_zero simp del: mem_region)
  then show "ld32 (ram s') (t + 56) = 0" "ld32 (ram s') (t + 60) = 0"
    by (simp_all add: run m'_def ld32_st32_fields ld32_st32_field0)
qed

lemma task_list_cong:
  assumes "task_list s ts" "\<And>u a. u \<in> set ts \<Longrightarrow> a \<in> region u 4096 \<Longrightarrow> ram s' a = ram s a"
    "task_list_head s' = task_list_head s" "task_list_tail s' = task_list_tail s" "current_task s' = current_task s"
  shows "task_list s' ts"
proof -
  have links: "task_links (ram s) ts" using assms(1) by (simp add: task_list_def)
  have "ld32 (ram s') (ts ! i + 56) = ld32 (ram s) (ts ! i + 56)" "ld32 (ram s') (ts ! i + 60) = ld32 (ram s) (ts ! i + 60)"
    if "i < length ts" for i
    using ld32_page_cong [of "region (ts ! i) 4096" "ram s'" "ram s" "ts ! i" 14, OF assms(2) [OF nth_mem [OF that]]]
      ld32_page_cong [of "region (ts ! i) 4096" "ram s'" "ram s" "ts ! i" 15, OF assms(2) [OF nth_mem [OF that]]]
      task_linksD(4) [OF links that] by simp_all
  then have "task_links (ram s') ts" using links by (simp add: task_links_def)
  then show ?thesis using assms by (simp add: task_list_def)
qed

lemma task_link_writes:
  "\<exists>m. task_link t s = (task_link t s)\<lparr>ram := m\<rparr> \<and> ram (task_link t s) = m \<and>
     same_outside ((if task_list_head s = 0 then {} else region (task_list_tail s + 56) 4) \<union> region (t + 60) 4) (ram s) m"
  using same_outside_trans [OF same_outside_st32 [of "task_list_tail s + 56" "ram s" t] same_outside_st32]
  by (auto simp: task_link_def simp del: mem_region)

lemma task_fields_cong:
  assumes "task_fields m t c p" and "\<And>a. a \<in> region t 56 \<Longrightarrow> m' a = m a"
  shows "task_fields m' t c p"
proof -
  have "ld32 m' (t + i) = ld32 m (t + i)" if "unat i + 4 \<le> 56" for i
    using that field_subset [of i 4 56 t] assms(2) by (intro ld32_cong) (auto simp del: mem_region)
  from this [of 0] this [of 32] this [of 36] this [of 44] this [of 48] this [of 52] show ?thesis
    using assms(1) by (simp add: task_fields_def)
qed

lemma ram_update_heads:
  "s' = s\<lparr>ram := m\<rparr> \<Longrightarrow> task_list_head s' = task_list_head s \<and> task_list_tail s' = task_list_tail s \<and> current_task s' = current_task s"
  for s :: "('d, 'a) task_state_scheme"
  by simp

lemma task_link_kheap:
  "kheap_inv (task_link t s) = kheap_inv (s\<lparr>ram := ram (task_link t s)\<rparr>)"
  "kheap_free (task_link t s) = kheap_free (s\<lparr>ram := ram (task_link t s)\<rparr>)"
  "kheap_page (task_link t s) q = kheap_page (s\<lparr>ram := ram (task_link t s)\<rparr>) q"
  "kheap_owned (task_link t s) = kheap_owned (s\<lparr>ram := ram (task_link t s)\<rparr>)"
  by (simp_all add: task_link_def kheap_inv_def kheap_free_def kheap_page_def kheap_owned_def)

lemma task_link_state:
  "\<exists>m h l cur. task_link t s = s\<lparr>ram := m, task_list_head := h, task_list_tail := l, current_task := cur\<rparr>"
proof (cases "task_list_head s = 0")
  case True
  have "task_link t s = s\<lparr>ram := ram s, task_list_head := t, task_list_tail := t, current_task := t\<rparr>"
    using True by (simp add: task_link_def)
  then show ?thesis by blast
next
  case False
  have "task_link t s = s\<lparr>ram := ram (task_link t s), task_list_head := task_list_head s, task_list_tail := t,
      current_task := current_task s\<rparr>"
    using False by (simp add: task_link_def)
  then show ?thesis by blast
qed

text \<open>The structure before it is linked: fresh, initialised, with its own address space.\<close>

lemma task_new_prepared:
  assumes "kheap_inv s" "1027 \<le> kheap_free s" "task_list s ts" "\<forall>u\<in>set ts. kheap_page s u"
    and "task_new process s = (t, s')"
  obtains s1 c where "s' = task_link t s1" "t \<noteq> 0" "page_aligned t" "region t 4096 \<inter> kheap_owned s = {}" "t \<notin> set ts"
    "kheap_inv s1" "kheap_free s1 = kheap_free s - 1027" "kheap_owned s \<union> region t 4096 \<subseteq> kheap_owned s1"
    "\<And>q. q \<in> set (ts @ [t]) \<Longrightarrow> kheap_page s1 q" "\<And>a. a \<in> kheap_owned s \<Longrightarrow> ram s1 a = ram s a"
    "task_list s1 ts" "current_task s1 = current_task s" "ld32 (ram s1) (t + 56) = 0" "ld32 (ram s1) (t + 60) = 0"
    "task_fields (ram s1) t c process" "chunk_ok (ram s1) c"
    "vspace_pages (ram s1) c \<inter> (kheap_owned s \<union> region t 4096) = {}"
    "\<And>va. translate (ram s1) (ld32 (ram s1) c) va = Some (va, False, True)" "dir_writable (ram s1) (ld32 (ram s1) c)"
    "vspace_pages (ram s1) c \<subseteq> kheap_owned s1" "s1 = s\<lparr>ram := ram s1\<rparr>"
proof -
  define s0 where "s0 = snd (kZalloc 64 s)"
  have free: "0 < kheap_free s" using assms(2) by simp
  define u where "u = fst (kZalloc 64 s)"
  note l = kz.alloc_laws [OF assms(1) _ _ free, of 64, folded s0_def u_def, simplified]
  have live: "kheap_page s0 u" "\<And>q. kheap_page s q \<Longrightarrow> kheap_page s0 q"
    using kp.alloc_live [OF assms(1) _ _ free, of 64] kp.alloc_keeps_pages [OF assms(1) _ _ free, of 64]
    by (simp_all add: s0_def u_def)
  have s0: "s0 = s\<lparr>ram := ram s0\<rparr>" unfolding s0_def by (rule kz.alloc_only_mem)
  have keep0: "ram s0 a = ram s a" if "a \<in> kheap_owned s" for a
    using kz.alloc_keeps [OF assms(1) _ _ free that, of 64] by (simp add: s0_def)
  obtain r s1 where init: "task_init u process s0 = (r, s1)" by (cases "task_init u process s0")
  have "1026 \<le> kheap_free s0" using l assms(2) by simp
  note n = task_init_spec [OF l(1) this live(1) init]
  have run: "t = u" "s' = task_link u s1"
    using assms(5) init n(1) l by (auto simp: task_new_def s0_def u_def case_prod_beta ISERR_def)
  have fresh: "region u 4096 \<inter> kheap_owned s = {}" using l by simp
  have u64: "region u 64 \<subseteq> region u 4096" using field_subset [of 0 64 4096 u] by simp
  have old: "ram s1 a = ram s a" if "a \<in> kheap_owned s" for a
  proof -
    have "a \<in> kheap_owned s0" "a \<notin> region u 64" using that l(4) fresh u64 by blast+
    then show ?thesis using n(7) keep0 [OF that] by metis
  qed
  have pages: "region q 4096 \<subseteq> kheap_owned s" "page_aligned q" if "q \<in> set ts" for q
    using that assms(4) kp.page_owned [OF assms(1)] by auto
  have same: "task_list_head s1 = task_list_head s" "task_list_tail s1 = task_list_tail s" "current_task s1 = current_task s"
    using n(2) s0 ram_update_heads by metis+
  have list1: "task_list s1 ts"
    using pages old by (intro task_list_cong [OF assms(3) _ same]) blast
  have notin: "u \<notin> set ts" using pages(1) fresh mem_region [of u u 4096] by fastforce
  obtain c where c: "task_fields (ram s1) u c process" "chunk_ok (ram s1) c" "vspace_pages (ram s1) c \<inter> kheap_owned s0 = {}"
    "\<And>va. translate (ram s1) (ld32 (ram s1) c) va = Some (va, False, True)" "dir_writable (ram s1) (ld32 (ram s1) c)"
    "vspace_pages (ram s1) c \<subseteq> kheap_owned s1" using n(8) by blast
  have "kheap_page s1 q" if "q \<in> set (ts @ [u])" for q using that assms(4) live n(6) by auto
  moreover have "s1 = s\<lparr>ram := ram s1\<rparr>" using n(2) s0 by (metis kz.set_set)
  ultimately show thesis
    using that [of s1 c] run l n(3,4,5,9,10) c fresh old list1 notin same(3) by auto
qed

lemma task_new_spec:
  assumes "kheap_inv s" "1027 \<le> kheap_free s" "task_list s ts" "\<forall>u\<in>set ts. kheap_page s u"
    and "task_new process s = (t, s')"
  shows "task_list s' (ts @ [t]) \<and> kheap_inv s' \<and> kheap_free s' = kheap_free s - 1027 \<and>
    (\<forall>u\<in>set (ts @ [t]). kheap_page s' u) \<and> current_task s' = (if ts = [] then t else current_task s) \<and>
    (\<exists>c. task_fields (ram s') t c process \<and> (\<forall>va. translate (ram s') (ld32 (ram s') c) va = Some (va, False, True)) \<and>
       chunk_ok (ram s') c \<and> dir_writable (ram s') (ld32 (ram s') c) \<and> vspace_pages (ram s') c \<subseteq> kheap_owned s' \<and>
       vspace_pages (ram s') c \<inter> (kheap_owned s \<union> region t 4096) = {}) \<and>
    t \<noteq> 0 \<and> region t 4096 \<inter> kheap_owned s = {} \<and> kheap_owned s \<union> region t 4096 \<subseteq> kheap_owned s' \<and>
    (\<forall>a\<in>kheap_owned s. ts = [] \<or> a \<notin> region (last ts + 56) 4 \<longrightarrow> ram s' a = ram s a) \<and>
    (\<exists>m h l cur. s' = s\<lparr>ram := m, task_list_head := h, task_list_tail := l, current_task := cur\<rparr>)"
proof -
  obtain s1 c where run: "s' = task_link t s1"
    and t: "t \<noteq> 0" "page_aligned t" "region t 4096 \<inter> kheap_owned s = {}" "t \<notin> set ts"
    and heap: "kheap_inv s1" "kheap_free s1 = kheap_free s - 1027" "kheap_owned s \<union> region t 4096 \<subseteq> kheap_owned s1"
      "\<And>q. q \<in> set (ts @ [t]) \<Longrightarrow> kheap_page s1 q"
    and old: "\<And>a. a \<in> kheap_owned s \<Longrightarrow> ram s1 a = ram s a"
    and tasks: "task_list s1 ts" "current_task s1 = current_task s" "ld32 (ram s1) (t + 56) = 0" "ld32 (ram s1) (t + 60) = 0"
    and c: "task_fields (ram s1) t c process" "chunk_ok (ram s1) c"
      "vspace_pages (ram s1) c \<inter> (kheap_owned s \<union> region t 4096) = {}"
      "\<And>va. translate (ram s1) (ld32 (ram s1) c) va = Some (va, False, True)" "dir_writable (ram s1) (ld32 (ram s1) c)"
      "vspace_pages (ram s1) c \<subseteq> kheap_owned s1"
    and st: "s1 = s\<lparr>ram := ram s1\<rparr>"
    by (rule task_new_prepared [OF assms]) blast
  have list: "task_list s' (ts @ [t])"
    unfolding run using task_link_appends [OF tasks(1) t(1,2,4) tasks(3,4)] .
  let ?D = "(if ts = [] then {} else region (last ts + 56) 4) \<union> region (t + 60) 4"
  have hd0: "task_list_head s1 = 0 \<longleftrightarrow> ts = []" "ts \<noteq> [] \<Longrightarrow> task_list_tail s1 = last ts"
    using tasks(1) task_linksD(3) [of "ram s1" ts 0] by (auto simp: task_list_def hd_conv_nth)
  have out: "same_outside ?D (ram s1) (ram s')"
    using task_link_writes [of t s1] hd0 unfolding run by (cases "ts = []") auto
  have t60: "region (t + 60) 4 \<subseteq> region t 4096" using field_subset [of 60 4 4096 t] by simp
  have "region (last ts + 56) 4 \<subseteq> kheap_owned s" if "ts \<noteq> []"
    using kp.page_owned [OF assms(1), of "last ts"] assms(4) last_in_set [OF that] field_subset [of 56 4 4096 "last ts"] by fastforce
  then have D: "?D \<subseteq> kheap_owned s \<union> region t 4096" using t60 by (auto simp del: mem_region)
  then have "?D \<subseteq> kheap_owned s1" using heap(3) by (rule order_trans)
  then have out1: "same_outside (kheap_owned s1) (ram s1) (ram s')" using same_outside_mono [OF out] by blast
  note w = kz.write_owned [OF heap(1) out1] kp.write_pages [OF heap(1) out1]
  have "ram s' a = ram s1 a" if "a \<in> vspace_pages (ram s1) c" for a
    using same_outsideD [OF out] D c(3) that by blast
  note v = vspace_kept [OF c(2) this, simplified]
  have "ram s' a = ram s1 a" if "a \<in> region t 56" for a
  proof (rule same_outsideD [OF out])
    have "region t 56 \<subseteq> region t 4096" using field_subset [of 0 56 4096 t] by simp
    moreover have "region (t + 0) 56 \<inter> region (t + 60) 4 = {}" by (rule field_disjoint) simp_all
    ultimately show "a \<notin> ?D" using that t(3) \<open>ts \<noteq> [] \<Longrightarrow> region (last ts + 56) 4 \<subseteq> kheap_owned s\<close> by (auto simp del: mem_region)
  qed
  then have fields: "task_fields (ram s') t c process" using c(1) by (rule task_fields_cong [rotated])
  have keep: "ram s' a = ram s a" if "a \<in> kheap_owned s" "ts = [] \<or> a \<notin> region (last ts + 56) 4" for a
  proof -
    have "a \<notin> ?D" using that t60 t(3) by auto
    then show ?thesis using same_outsideD [OF out] old [OF that(1)] by metis
  qed
  have heap': "kheap_inv s'" "kheap_free s' = kheap_free s - 1027" "\<And>q. kheap_page s' q \<longleftrightarrow> kheap_page s1 q" "kheap_owned s' = kheap_owned s1"
    using w heap(2) by (simp_all add: run task_link_kheap)
  have "\<exists>m h l cur. s' = s1\<lparr>ram := m, task_list_head := h, task_list_tail := l, current_task := cur\<rparr>"
    unfolding run by (rule task_link_state)
  then have state: "\<exists>m h l cur. s' = s\<lparr>ram := m, task_list_head := h, task_list_tail := l, current_task := cur\<rparr>"
    by (subst (asm) st) simp
  have space: "\<exists>c. task_fields (ram s') t c process \<and> (\<forall>va. translate (ram s') (ld32 (ram s') c) va = Some (va, False, True)) \<and>
       chunk_ok (ram s') c \<and> dir_writable (ram s') (ld32 (ram s') c) \<and> vspace_pages (ram s') c \<subseteq> kheap_owned s' \<and>
       vspace_pages (ram s') c \<inter> (kheap_owned s \<union> region t 4096) = {}"
    using fields v c heap'(4) by (intro exI [of _ c]) simp
  have cur: "current_task s' = (if ts = [] then t else current_task s)"
    using hd0 tasks(2) by (simp add: run task_link_def)
  have "\<forall>u\<in>set (ts @ [t]). kheap_page s' u" using heap'(3) heap(4) by blast
  with list heap'(1,2) cur space t(1,3) heap(3) keep state show ?thesis unfolding heap'(4) by blast
qed

text \<open>C23. A new task: with enough free memory \<open>task_new\<close> returns a structure in fresh memory, appended to
  the list of tasks, with the registers set for the start of a program and an address space of its
  own in which the program can read, but not write, every address at itself.  Older memory keeps its
  contents but for the link of the task that was last.\<close>

theorem task_new_creates:
  assumes "kheap_inv s" "1027 \<le> kheap_free s" "task_list s ts" "\<forall>u\<in>set ts. kheap_page s u"
    and "task_new process s = (t, s')"
  shows "task_list s' (ts @ [t]) \<and> kheap_inv s' \<and> kheap_free s' = kheap_free s - 1027 \<and>
    (\<forall>u\<in>set (ts @ [t]). kheap_page s' u) \<and> current_task s' = (if ts = [] then t else current_task s) \<and>
    (\<exists>c. task_fields (ram s') t c process \<and> (\<forall>va. translate (ram s') (ld32 (ram s') c) va = Some (va, False, True))) \<and>
    (\<forall>a\<in>kheap_owned s. ts = [] \<or> a \<notin> region (last ts + 56) 4 \<longrightarrow> ram s' a = ram s a)"
  using task_new_spec [OF assms] by blast

section \<open>Low memory around an address space\<close>

text \<open>Memory below the heap table is not part of an address space made of heap pages.\<close>

definition low_memory :: "addr set" where
  "low_memory = {a. unat a < 32256}"

lemma low_store:
  assumes "same_outside low_memory m m1" "unat a \<le> 32252"
  shows "same_outside low_memory m (st32 m1 a v)"
proof (rule same_outside_trans [OF assms(1) same_outside_st32 order_refl])
  show "region a 4 \<subseteq> low_memory"
    using assms(2) region_unat [of a 4] by (auto simp: low_memory_def simp del: mem_region)
qed

lemma low_region: "unat a + unat n \<le> 32256 \<Longrightarrow> region a n \<subseteq> low_memory"
  using region_unat [of a n] by (auto simp: low_memory_def simp del: mem_region)

lemma boot_space_kept:
  assumes "paging_new_4gb 5 boot_ram = (c, s)" and "same_outside low_memory (ram s) m"
  shows "chunk_ok m c" "vspace_pages m c \<inter> low_memory = {}" "translate m (ld32 m c) va = Some (va, False, True)"
proof -
  have bits: "bit (5 :: u8) 0" "\<not> bit (5 :: u8) 1" "bit (5 :: u8) 2" by simp_all
  note n = paging_new_4gb_spec [OF boot_ram_inv(1) _ bits(1) assms(1), unfolded boot_ram_inv(2) bits, simplified]
  have low: "vspace_pages (ram s) c \<inter> low_memory = {}" using n(9) boot_ram_low by (auto simp: low_memory_def)
  then have "m a = ram s a" if "a \<in> vspace_pages (ram s) c" for a
    using that assms(2) by (auto intro: same_outsideD simp del: mem_region)
  note v = vspace_kept [OF n(6) this, simplified]
  show "chunk_ok m c" "vspace_pages m c \<inter> low_memory = {}" "translate m (ld32 m c) va = Some (va, False, True)"
    using v n(7) low by simp_all
qed

section \<open>Witnesses\<close>

definition demo_tasks :: "unit task_state" where
  "demo_tasks = \<lparr>ram = st32 (st32 (\<lambda>_. 0) (0x1000000 + 56) 0x1001000) (0x1001000 + 60) 0x1000000, kernelHeap = kernel_heap,
     current_directory = 0, cr3 = 0, cr0 = 0, video_mem = 0xB8000, terminal_row = 0, terminal_col = 0,
     dev = (), disk = 0x8000, fat16_fs = 0x8100, filesystems = 0x8200, file_descriptors = 0x9000, kstack = 0x1F0000,
     current_task = 0x1001000, task_list_head = 0x1000000, task_list_tail = 0x1001000,
     kernel_page_chunk = 0, data_segments = 0x10\<rparr>"

lemma demo_task_list: "task_list demo_tasks [0x1000000, 0x1001000]"
proof -
  have z: "ld32 (\<lambda>_. 0) a = 0" for a by (simp add: ld32_def)
  have al: "page_aligned 0x1000000" "page_aligned 0x1001000" by (simp_all add: page_aligned_def)
  show ?thesis
    by (simp add: task_list_def task_links_def demo_tasks_def al All_less_Suc ld32_st32 z)
qed

theorem task_list_remove_unlinks_witness:
  "task_list (task_list_remove 0x1001000 demo_tasks) [0x1000000] \<and>
   current_task (task_list_remove 0x1001000 demo_tasks) = 0x1000000"
  using task_list_remove_unlinks [OF demo_task_list, of 1] by (simp add: demo_tasks_def)

theorem task_get_next_round_robin_witness:
  "current_task (((\<lambda>s. s\<lparr>current_task := task_get_next s\<rparr>) ^^ 3) demo_tasks) = 0x1000000"
proof -
  have "current_task demo_tasks = [0x1000000, 0x1001000] ! 1" by (simp add: demo_tasks_def)
  from conjunct1 [OF task_get_next_round_robin [OF demo_task_list _ this, of 3]] show ?thesis by (simp flip: numeral_2_eq_2)
qed

theorem task_save_state_resumes_witness:
  "uc_eip (fst (task_return 0x5FFF00 0x2 (0x1000000 + 4)
     (demo_tasks\<lparr>ram := task_save_state 0x1000000 0x5FFF80 (st32 (\<lambda>_. 0) (0x5FFF80 + 32) 0x400010)\<rparr>))) = 0x400010"
proof -
  have "a \<notin> region 0x5FFF80 52" if "a \<in> region 0x1000000 64" for a :: addr
    using that by (simp add: region_unat del: mem_region)
  then have "region 0x1000000 64 \<inter> region 0x5FFF80 (52 :: u32) = {}" by blast
  from conjunct1 [OF task_save_state_resumes [OF this surjective_pairing, where m = "st32 (\<lambda>_. 0) (0x5FFF80 + 32) 0x400010"]]
  show ?thesis by simp
qed

definition demo_no_tasks :: "unit task_state" where
  "demo_no_tasks = KheapInit (demo_tasks\<lparr>current_task := 0, task_list_head := 0, task_list_tail := 0\<rparr>)"

theorem task_new_creates_witness:
  "\<exists>t s'. task_new 0x2000000 demo_no_tasks = (t, s') \<and> task_list s' [t] \<and> current_task s' = t \<and> kheap_free s' = 24573"
proof -
  have "task_list demo_no_tasks []" by (simp add: task_list_def task_links_def demo_no_tasks_def KheapInit_eq)
  moreover have "kheap_inv demo_no_tasks" "kheap_free demo_no_tasks = 25600"
    unfolding demo_no_tasks_def by (rule KheapInit_ready)+
  moreover obtain t s' where "task_new 0x2000000 demo_no_tasks = (t, s')" by (cases "task_new 0x2000000 demo_no_tasks")
  ultimately show ?thesis using task_new_creates [of demo_no_tasks "[]" "0x2000000" t s'] by simp
qed

end
