(* ===== verification/Process.thy ===== *)
theory Process
  imports Task
begin

text \<open>
  Processes: \<^verbatim>\<open>task/process.c\<close>.  \<open>struct process\<close> (5256 bytes) has \<open>id\<close> at 0, \<open>filename\<close> at 2 (108
  bytes), \<open>task\<close> at 112, \<open>allocations\<close> at 116, \<open>ptr\<close> at 4212, \<open>stack\<close> at 4216, \<open>size\<close> at 4220 and the
  keyboard ring at 4224 (\<open>buffer\<close>, 1024 bytes), 5248 (\<open>tail\<close>) and 5252 (\<open>head\<close>).  The array
  \<open>processes\<close> is twelve words at an address fixed by the linker; \<open>rodata\<close> is the address of the string
  literals whose address the code passes on: \<^verbatim>\<open>"r"\<close> at 0, \<^verbatim>\<open>"0:/blank.bin"\<close> at 2.
\<close>

section \<open>process.c\<close>

record 'd process_state = "'d task_state" +
  current_process :: addr
  processes :: addr
  rodata :: addr

definition process_init :: "addr \<Rightarrow> ('d, 'a) process_state_scheme \<Rightarrow> ('d, 'a) process_state_scheme" where
  "process_init process s = s\<lparr>ram := memset (ram s) process 0 5256\<rparr>"

definition process_current :: "('d, 'a) process_state_scheme \<Rightarrow> addr" where
  "process_current s = current_process s"

definition process_get :: "u32 \<Rightarrow> ('d, 'a) process_state_scheme \<Rightarrow> addr" where
  "process_get process_id s =
     (if process_id <s 0 \<or> PEACHOS_MAX_PROCESSES <s process_id then 0
      else ld32 (ram s) (processes s + 4 * process_id))"

text \<open>\<open>process_load_binary\<close> up to the label \<open>out\<close>, where the file is closed.\<close>

definition load_binary_body :: "(addr \<Rightarrow> ('d, 'a) process_state_scheme fileSystem) \<Rightarrow> u32 \<Rightarrow> addr \<Rightarrow>
    ('d, 'a) process_state_scheme \<Rightarrow> (u32 \<times> ('d, 'a) process_state_scheme) option" where
  "load_binary_body fss fd process s =
     (if fd = 0 then Some (- EIO, s)
      else
        let stat = kstack s + 148
        in do {
          (res, s1) \<leftarrow> fstat fss fd stat s;
          if res \<noteq> PEACHOS_ALL_OK then Some (res, s1)
          else
            let (program_data_ptr, s2) = kZalloc (ld32 (ram s1) (stat + 4)) s1
            in if program_data_ptr = 0 then Some (- ENOMEM, s2)
               else do {
                 (n, s3) \<leftarrow> fread fss program_data_ptr (ld32 (ram s2) (stat + 4)) 1 fd s2;
                 if n \<noteq> 1 then Some (- EIO, s3)
                 else
                   let m = st32 (ram s3) (process + 4212) program_data_ptr
                   in Some (res, s3\<lparr>ram := st32 m (process + 4220) (ld32 m (stat + 4))\<rparr>)
               }
        })"

definition process_load_binary :: "(addr \<Rightarrow> ('d, 'a) process_state_scheme fileSystem) \<Rightarrow> addr \<Rightarrow> addr \<Rightarrow>
    ('d, 'a) process_state_scheme \<Rightarrow> (u32 \<times> ('d, 'a) process_state_scheme) option" where
  "process_load_binary fss filename process s =
     do {
       (fd, s1) \<leftarrow> fopen fss filename (rodata s) s;
       (res, s2) \<leftarrow> load_binary_body fss fd process s1;
       (r, s3) \<leftarrow> fclose fss fd s2;
       Some (res, s3)
     }"

definition process_load_data :: "(addr \<Rightarrow> ('d, 'a) process_state_scheme fileSystem) \<Rightarrow> addr \<Rightarrow> addr \<Rightarrow>
    ('d, 'a) process_state_scheme \<Rightarrow> (u32 \<times> ('d, 'a) process_state_scheme) option" where
  "process_load_data fss filename process s = process_load_binary fss filename process s"

definition process_map_binary :: "addr \<Rightarrow> mem \<Rightarrow> u32 \<times> mem" where
  "process_map_binary process m =
     paging_map_to (ld32 m (ld32 m (process + 112))) PEACHOS_PROGRAM_VIRTUAL_ADDRESS (ld32 m (process + 4212))
       (paging_align_addres (ld32 m (process + 4212) + ld32 m (process + 4220)))
       (PAGING_IS_PRESENT OR PAGING_IS_WRITEABLE OR PAGING_ACCESS_FROM_ALL) m"

definition process_map_memory :: "addr \<Rightarrow> mem \<Rightarrow> u32 \<times> mem" where
  "process_map_memory process m =
     (let (res, m1) = process_map_binary process m
      in if res <s 0 then (res, m1)
         else paging_map_to (ld32 m1 (ld32 m1 (process + 112))) PEACHOS_PROGRAM_STACK_VIRTUAL_ADDRESS_END
                (ld32 m1 (process + 4216))
                (paging_align_addres (ld32 m1 (process + 4216) + PEACHOS_USER_PROGRAM_STACK_SIZE))
                (PAGING_IS_PRESENT OR PAGING_IS_WRITEABLE OR PAGING_ACCESS_FROM_ALL) m1)"

function free_slot_loop :: "mem \<Rightarrow> addr \<Rightarrow> u32 \<Rightarrow> u32" where
  "free_slot_loop m tbl i =
     (if i <s PEACHOS_MAX_PROCESSES
      then (if ld32 m (tbl + 4 * i) = 0 then i else free_slot_loop m tbl (i + 1)) else - EISTKN)"
  by pat_completeness auto
termination
  by (relation "measure (\<lambda>(m, tbl, i). nat (12 - sint i))") (auto simp: word_sless_alt sint_Suc [of _ 12])

declare free_slot_loop.simps [simp del]

definition process_get_free_slot :: "('d, 'a) process_state_scheme \<Rightarrow> u32" where
  "process_get_free_slot s = free_slot_loop (ram s) (processes s) 0"

text \<open>\<open>process_load_for_slot\<close> up to the label \<open>out\<close>: the result and the local \<open>_process\<close>.\<close>

definition load_slot_body :: "(addr \<Rightarrow> ('d, 'a) process_state_scheme fileSystem) \<Rightarrow> addr \<Rightarrow> addr \<Rightarrow> u32 \<Rightarrow>
    ('d, 'a) process_state_scheme \<Rightarrow> (u32 \<times> addr \<times> ('d, 'a) process_state_scheme) option" where
  "load_slot_body fss filename process process_slot s =
     (if process_get process_slot s \<noteq> 0 then Some (- EISTKN, 0, s)
      else
        let (p, s1) = kZalloc 5256 s
        in if p = 0 then Some (- ENOMEM, p, s1)
           else do {
             (res, s2) \<leftarrow> process_load_data fss filename p (process_init p s1);
             if res <s 0 then Some (res, p, s2)
             else
               let (program_stack_ptr, s3) = kZalloc PEACHOS_USER_PROGRAM_STACK_SIZE s2
               in if program_stack_ptr = 0 then Some (- ENOMEM, p, s3)
                  else
                    let m1 = strncpy (ram s3) (p + 2) filename PEACHOS_MAX_PATH_LENGTH;
                        m2 = st32 m1 (p + 4216) program_stack_ptr;
                        m3 = st16 m2 p (ucast process_slot);
                        (task, s4) = task_new p (s3\<lparr>ram := m3\<rparr>)
                    in if task = 0 then Some (task, p, s4)
                       else
                         let (res, m5) = process_map_memory p (st32 (ram s4) (p + 112) task);
                             s5 = s4\<lparr>ram := m5\<rparr>
                         in if res <s 0 then Some (res, p, s5)
                            else
                              let m6 = st32 (ram s5) process p;
                                  m7 = st32 m6 (processes s5 + 4 * process_slot) p
                              in Some (res, p, s5\<lparr>ram := m7\<rparr>)
           })"

definition process_load_for_slot :: "(addr \<Rightarrow> ('d, 'a) process_state_scheme fileSystem) \<Rightarrow> addr \<Rightarrow> addr \<Rightarrow> u32 \<Rightarrow>
    ('d, 'a) process_state_scheme \<Rightarrow> (u32 \<times> ('d, 'a) process_state_scheme) option" where
  "process_load_for_slot fss filename process process_slot s =
     do {
       (res, p, s1) \<leftarrow> load_slot_body fss filename process process_slot s;
       Some (res, if ISERR res \<and> p \<noteq> 0 \<and> ld32 (ram s1) (p + 112) \<noteq> 0
                  then snd (task_free (ld32 (ram s1) (p + 112)) s1) else s1)
     }"

definition process_load :: "(addr \<Rightarrow> ('d, 'a) process_state_scheme fileSystem) \<Rightarrow> addr \<Rightarrow> addr \<Rightarrow>
    ('d, 'a) process_state_scheme \<Rightarrow> (u32 \<times> ('d, 'a) process_state_scheme) option" where
  "process_load fss filename process s =
     (let process_slot = process_get_free_slot s
      in if process_slot <s 0 then Some (- EISTKN, s)
         else process_load_for_slot fss filename process process_slot s)"

definition process_switch :: "addr \<Rightarrow> ('d, 'a) process_state_scheme \<Rightarrow> u32 \<times> ('d, 'a) process_state_scheme" where
  "process_switch process s = (0, s\<lparr>current_process := process\<rparr>)"

definition process_load_switch :: "(addr \<Rightarrow> ('d, 'a) process_state_scheme fileSystem) \<Rightarrow> addr \<Rightarrow> addr \<Rightarrow>
    ('d, 'a) process_state_scheme \<Rightarrow> (u32 \<times> ('d, 'a) process_state_scheme) option" where
  "process_load_switch fss filename process s =
     do {
       (res, s1) \<leftarrow> process_load fss filename process s;
       if res = 0 then Some (res, snd (process_switch (ld32 (ram s1) process) s1))
       else Some (res, s1)
     }"

section \<open>The memory a program sees\<close>

definition process_binary_bytes :: "mem \<Rightarrow> addr \<Rightarrow> u32" where
  "process_binary_bytes m process =
     paging_align_addres (ld32 m (process + 4212) + ld32 m (process + 4220)) - ld32 m (process + 4212)"

lemma process_fields_kept:
  assumes "same_outside A m m'" "A \<inter> region process 5256 = {}" "A \<inter> region (ld32 m (process + 112)) 64 = {}"
  shows "ld32 m' (process + 112) = ld32 m (process + 112)" "ld32 m' (process + 4216) = ld32 m (process + 4216)"
    "ld32 m' (ld32 m (process + 112)) = ld32 m (ld32 m (process + 112))"
proof -
  have "region (process + 112) 4 \<subseteq> region process 5256" "region (process + 4216) 4 \<subseteq> region process 5256"
    using field_subset [of 112 4 5256 process] field_subset [of 4216 4 5256 process] by simp_all
  moreover have "region (ld32 m (process + 112)) 4 \<subseteq> region (ld32 m (process + 112)) 64"
    using field_subset [of 0 4 64 "ld32 m (process + 112)"] by simp
  ultimately show "ld32 m' (process + 112) = ld32 m (process + 112)" "ld32 m' (process + 4216) = ld32 m (process + 4216)"
    "ld32 m' (ld32 m (process + 112)) = ld32 m (ld32 m (process + 112))"
    using assms(2,3) by (auto intro!: ld32_same_outside [OF assms(1)] simp del: mem_region)
qed

lemma align_page_aligned: "page_aligned p \<Longrightarrow> paging_align_addres p = p"
  by (simp add: paging_align_addres_def page_aligned_def)

lemma program_covered:
  assumes "unat p + unat n \<le> 4294963200"
  shows "n \<le> paging_align_addres (p + n) - p"
proof -
  have "unat (p + n) = unat p + unat n" using assms by (simp add: unat_add_u32)
  then have "unat p + unat n \<le> unat (paging_align_addres (p + n))"
    using paging_align_addres_spec [of "p + n"] assms by simp
  then show ?thesis by (simp add: word_le_nat_alt unat_sub_if_size)
qed

lemma process_map_memory_spec:
  fixes process :: addr and m :: mem
  defines "task \<equiv> ld32 m (process + 112)" and "ptr \<equiv> ld32 m (process + 4212)"
    and "stack \<equiv> ld32 m (process + 4216)" and "dir \<equiv> ld32 m (ld32 m (ld32 m (process + 112)))"
  assumes "chunk_ok m (ld32 m task)" "page_aligned ptr" "page_aligned stack"
    and "tables m dir \<inter> region process 5256 = {}" "tables m dir \<inter> region task 64 = {}"
    and "unat ptr + unat (ld32 m (process + 4220)) \<le> 4294963200"
    and "process_map_memory process m = (r, m')"
  shows "r = 0 \<and> chunk_ok m' (ld32 m task) \<and> same_outside (tables m dir) m m' \<and>
    ld32 m (process + 4220) \<le> process_binary_bytes m process \<and>
    (\<forall>va. translate m' dir va =
       (if va - 0x3FB000 < 0x4000 then Some (stack + (va - 0x3FB000), perms (pde m dir (pdi va)) 7)
        else if va - 0x400000 < process_binary_bytes m process
        then Some (ptr + (va - 0x400000), perms (pde m dir (pdi va)) 7)
        else translate m dir va))"
proof -
  let ?c = "ld32 m task" and ?e = "paging_align_addres (ptr + ld32 m (process + 4220))"
  have flags: "bit (7 :: u32) 0" "(7 :: u32) < 4096" by simp_all
  have al: "page_aligned (0x400000 :: u32)" "page_aligned (0x3FB000 :: u32)" "page_aligned (0x4000 :: u32)"
    by (simp_all add: page_aligned_iff)
  have dir: "ld32 m ?c = dir" by (simp add: dir_def task_def)
  have "page_aligned ?e" using paging_align_addres_spec by blast
  from paging_map_to_mapped [OF assms(5) al(1) assms(6) this flags]
  obtain m1 n1 where m1: "paging_map_to ?c 0x400000 ptr ?e 7 m = (0, m1)" "mapped ?c 0x400000 ptr n1 7 m m1"
    "4096 * n1 = unat (?e - ptr)" by blast
  have out1: "same_outside (tables m dir) m m1" using m1(2) by (simp add: mapped_def dir)
  note keep = process_fields_kept [OF out1 assms(8) assms(9) [unfolded task_def]]
  have m1c: "chunk_ok m1 ?c" "ld32 m1 ?c = dir" "tables m1 dir = tables m dir"
    "\<And>va. pde m1 dir (pdi va) = pde m dir (pdi va)" using m1(2) by (simp_all add: mapped_def dir)
  have "page_aligned (stack + 0x4000)" using assms(7) al(3) by (rule page_aligned_add)
  from paging_map_to_mapped [OF m1c(1) al(2) assms(7) this flags]
  obtain m2 n2 where m2: "paging_map_to ?c 0x3FB000 stack (stack + 0x4000) 7 m1 = (0, m2)"
    "mapped ?c 0x3FB000 stack n2 7 m1 m2" "4096 * n2 = unat (0x4000 :: u32)" by (metis add_diff_cancel_left')
  have run: "process_map_memory process m = (0, m2)"
    using m1(1) m2(1) keep align_page_aligned [OF \<open>page_aligned (stack + 0x4000)\<close>]
    by (simp add: process_map_memory_def process_map_binary_def ptr_def stack_def task_def)
  have "same_outside (tables m dir) m m2"
    using m2(2) m1c by (auto intro: same_outside_trans [OF out1] simp: mapped_def)
  moreover have "translate m2 dir va =
       (if va - 0x3FB000 < 0x4000 then Some (stack + (va - 0x3FB000), perms (pde m dir (pdi va)) 7)
        else if va - 0x400000 < process_binary_bytes m process
        then Some (ptr + (va - 0x400000), perms (pde m dir (pdi va)) 7) else translate m dir va)" for va
    using m1(2,3) m2(2,3) m1c
    by (simp add: mapped_def dir process_binary_bytes_def ptr_def word_less_nat_alt)
  moreover have "ld32 m (process + 4220) \<le> process_binary_bytes m process"
    using program_covered [OF assms(10)] by (simp add: process_binary_bytes_def ptr_def)
  ultimately show ?thesis using run assms(11) m2(2) by (simp add: mapped_def)
qed

text \<open>C16. A program in memory: \<open>process_map_memory\<close> maps the pages of the loaded file at 0x400000, up to its
  last byte, and the 16 KiB of the stack below 0x3FF000, with the permissions present, writeable and
  user as far as the directory entries grant them; every other address of the task stays as it was.\<close>

theorem process_map_memory_maps:
  fixes process :: addr and m :: mem
  defines "task \<equiv> ld32 m (process + 112)" and "ptr \<equiv> ld32 m (process + 4212)"
    and "stack \<equiv> ld32 m (process + 4216)" and "dir \<equiv> ld32 m (ld32 m (ld32 m (process + 112)))"
  assumes "chunk_ok m (ld32 m task)" "page_aligned ptr" "page_aligned stack"
    and "tables m dir \<inter> region process 5256 = {}" "tables m dir \<inter> region task 64 = {}"
    and "unat ptr + unat (ld32 m (process + 4220)) \<le> 4294963200"
    and "process_map_memory process m = (r, m')"
  shows "r = 0 \<and> chunk_ok m' (ld32 m task) \<and> same_outside (tables m dir) m m' \<and>
    ld32 m (process + 4220) \<le> process_binary_bytes m process \<and>
    (\<forall>va. translate m' dir va =
       (if va - 0x3FB000 < 0x4000 then Some (stack + (va - 0x3FB000), perms (pde m dir (pdi va)) 7)
        else if va - 0x400000 < process_binary_bytes m process
        then Some (ptr + (va - 0x400000), perms (pde m dir (pdi va)) 7)
        else translate m dir va))"
  using assms(5-) unfolding task_def ptr_def stack_def dir_def by (rule process_map_memory_spec)

definition demo_process :: mem where
  "demo_process =
     (let (c, s) = paging_new_4gb 5 boot_ram
      in st32 (st32 (st32 (st32 (st32 (ram s) 0x5000 c) (0x1000 + 112) 0x5000) (0x1000 + 4212) 0x1800000)
           (0x1000 + 4216) 0x1900000) (0x1000 + 4220) 5000)"

theorem process_map_memory_maps_witness:
  "\<exists>m' b1 b2. process_map_memory 0x1000 demo_process = (0, m') \<and>
    translate m' (ld32 demo_process (ld32 demo_process 0x5000)) 0x401000 = Some (0x1801000, b1) \<and>
    translate m' (ld32 demo_process (ld32 demo_process 0x5000)) 0x3FEFFC = Some (0x1903FFC, b2)"
proof -
  obtain c s where new: "paging_new_4gb 5 boot_ram = (c, s)" by (cases "paging_new_4gb 5 boot_ram")
  have "same_outside low_memory (ram s) demo_process" by (simp add: demo_process_def new low_store)
  note keep = boot_space_kept [OF new this]
  have f: "ld32 demo_process 0x5000 = c" "ld32 demo_process (0x1000 + 112) = 0x5000" "ld32 demo_process (0x1000 + 4212) = 0x1800000"
    "ld32 demo_process (0x1000 + 4216) = 0x1900000" "ld32 demo_process (0x1000 + 4220) = 5000"
    by (simp_all add: demo_process_def new ld32_st32)
  have apart: "tables demo_process (ld32 demo_process c) \<inter> region 0x1000 5256 = {}"
    "tables demo_process (ld32 demo_process c) \<inter> region 0x5000 64 = {}"
    using keep(2) low_region [of "0x1000" 5256] low_region [of "0x5000" 64] by (auto simp: vspace_pages_def simp del: mem_region)
  obtain r m' where run: "process_map_memory 0x1000 demo_process = (r, m')" by fastforce
  have n: "process_binary_bytes demo_process 0x1000 = 0x2000"
    using f by (simp add: process_binary_bytes_def paging_align_addres_def)
  have al: "page_aligned (0x1800000 :: u32)" "page_aligned (0x1900000 :: u32)" by (simp_all add: page_aligned_iff)
  note maps = process_map_memory_maps [OF _ _ _ _ _ _ run, unfolded f n, OF keep(1) al apart]
  from maps run f show ?thesis by simp
qed

end
