(* ===== verification/Idt.thy ===== *)
theory Idt
  imports Process
begin

text \<open>
  The interrupt descriptor table and the registration of handlers, \<^verbatim>\<open>idt/idt.c\<close>.  The table is 512
  gates of eight bytes in memory; \<open>interrupt_func_addresses\<close> and \<open>isr80h_wrapper\<close> are the addresses of the
  assembly entry points and parameters of the state.  The two arrays of function pointers hold names
  of the functions the kernel stores in them.
\<close>

section \<open>State\<close>

datatype isr80h_command = Command0_sum | Command1_print | Command2_getkey | Command3_putchar

datatype interrupt_callback = Classic_keyboard_handle_interrupt

record 'd idt_state = "'d process_state" +
  idt_descriptor_table :: addr
  idtr :: addr
  interrupt_func_addresses :: "u32 \<Rightarrow> addr"
  isr80h_wrapper :: addr
  isr80h_commands :: "u32 \<Rightarrow> isr80h_command option"
  callback_functions :: "u32 \<Rightarrow> interrupt_callback option"
  idtr_base :: addr
  idtr_limit :: u16

section \<open>idt.c\<close>

definition setupInterruptHandler :: "u32 \<Rightarrow> addr \<Rightarrow> ('d, 'a) idt_state_scheme \<Rightarrow> ('d, 'a) idt_state_scheme" where
  "setupInterruptHandler intID ptr s =
     (let e = idt_descriptor_table s + 8 * intID;
          m = ram s;
          m = st16 m e (ucast (ptr AND 0x0000FFFF));
          m = st16 m (e + 2) KERNEL_CODE_SELECTOR;
          m = m(e + 4 := 0);
          m = m(e + 5 := 0xEE);
          m = st16 m (e + 6) (ucast (drop_bit 16 ptr))
      in s\<lparr>ram := m\<rparr>)"

text \<open>\<open>lidt\<close> reads the limit and the base from the packed structure.\<close>

definition load_idt :: "addr \<Rightarrow> ('d, 'a) idt_state_scheme \<Rightarrow> ('d, 'a) idt_state_scheme" where
  "load_idt p s = s\<lparr>idtr_limit := ld16 (ram s) p, idtr_base := ld32 (ram s) (p + 2)\<rparr>"

definition idtInit :: "('d, 'a) idt_state_scheme \<Rightarrow> ('d, 'a) idt_state_scheme" where
  "idtInit s =
     (let m0 = memset (ram s) (idt_descriptor_table s) 0 4096;
          m1 = st16 m0 (idtr s) (4096 - 1);
          m2 = st32 m1 (idtr s + 2) (idt_descriptor_table s);
          s1 = for_s32 0 PEACHOS_TOTAL_INTERRUPTS
                 (\<lambda>i s. setupInterruptHandler i (interrupt_func_addresses s i) s) (s\<lparr>ram := m2\<rparr>);
          s2 = setupInterruptHandler 0x80 (isr80h_wrapper s1) s1
      in load_idt (idtr s2) s2)"

text \<open>A command number out of bounds panics, so the code behind the first test is not reached.\<close>

definition isr80h_register_command ::
  "u32 \<Rightarrow> isr80h_command \<Rightarrow> ('d, 'a) idt_state_scheme \<Rightarrow> (unit, ('d, 'a) idt_state_scheme) outcome" where
  "isr80h_register_command command_id func s =
     (if command_id <s 0 \<or> PEACHOS_MAX_ISR80H_COMMANDS \<le>s command_id
      then panic ''the command is out ouf bounds\<newline>'' s
      else if isr80h_commands s command_id \<noteq> None
      then panic ''you are attempting to overwrite an existing command\<newline>'' s
      else Returns () (s\<lparr>isr80h_commands := (isr80h_commands s)(command_id \<mapsto> func)\<rparr>))"

definition register_interrupt_callback_function ::
  "u32 \<Rightarrow> interrupt_callback \<Rightarrow> ('d, 'a) idt_state_scheme \<Rightarrow> u32 \<times> ('d, 'a) idt_state_scheme" where
  "register_interrupt_callback_function interrupt func s =
     (if interrupt <s 0 \<or> PEACHOS_TOTAL_INTERRUPTS \<le>s interrupt then (- EINVARG, s)
      else (0, s\<lparr>callback_functions := (callback_functions s)(interrupt \<mapsto> func)\<rparr>))"

section \<open>How the processor reads a gate\<close>

definition gate_is :: "mem \<Rightarrow> addr \<Rightarrow> addr \<Rightarrow> bool" where
  "gate_is m g handler \<longleftrightarrow>
     ucast (ld16 m g) OR push_bit 16 (ucast (ld16 m (g + 6))) = handler \<and>
     ld16 m (g + 2) = KERNEL_CODE_SELECTOR \<and> m (g + 5) = 0xEE \<and> m (g + 4) = 0"

lemma gate_is_cong: "gate_is m g h \<Longrightarrow> (\<And>a. a \<in> region g 8 \<Longrightarrow> m' a = m a) \<Longrightarrow> gate_is m' g h"
  by (simp add: gate_is_def ld16_def add.assoc)

lemma halves: "ucast (ucast (x AND 0xFFFF) :: u16) OR push_bit 16 (ucast (ucast (drop_bit 16 x) :: u16)) = (x :: u32)"
proof (rule bit_word_eqI)
  fix n assume "n < LENGTH(32)"
  moreover have mask: "(0xFFFF :: u32) = mask 16" by (simp add: mask_eq_exp_minus_1)
  ultimately show "bit (ucast (ucast (x AND 0xFFFF) :: u16) OR push_bit 16 (ucast (ucast (drop_bit 16 x) :: u16)) :: u32) n = bit x n"
    unfolding mask by (cases "n < 16") (auto simp: bit_simps)
qed

lemma ld16_bytes: "m a = ucast v \<Longrightarrow> m (a + 1) = ucast (drop_bit 8 v) \<Longrightarrow> ld16 m a = v"
  by (rule trans [OF ld16_cong ld16_st16_same [of m a v]]) (simp_all add: st16_def)

lemma setup_gate:
  fixes s :: "('d, 'a) idt_state_scheme" and intID :: u32
  defines "e \<equiv> idt_descriptor_table s + 8 * intID"
  shows "\<exists>m. setupInterruptHandler intID ptr s = s\<lparr>ram := m\<rparr> \<and> gate_is m e ptr \<and> same_outside (region e 8) (ram s) m"
proof -
  define m where "m = ram (setupInterruptHandler intID ptr s)"
  have bytes: "m e = ucast (ucast (ptr AND 0xFFFF) :: u16)" "m (e + 1) = ucast (drop_bit 8 (ucast (ptr AND 0xFFFF) :: u16))"
    "m (e + 2) = 8" "m (e + 3) = 0" "m (e + 4) = 0" "m (e + 5) = 0xEE"
    "m (e + 6) = ucast (ucast (drop_bit 16 ptr) :: u16)" "m (e + 7) = ucast (drop_bit 8 (ucast (drop_bit 16 ptr) :: u16))"
    by (simp_all add: m_def setupInterruptHandler_def e_def Let_def st16_def add.assoc)
  have "ld16 m e = ucast (ptr AND 0xFFFF)" "ld16 m (e + 2) = 8" "ld16 m (e + 6) = ucast (drop_bit 16 ptr)"
    using bytes by (auto intro!: ld16_bytes simp: add.assoc)
  then have "gate_is m e ptr" using bytes halves [of ptr] by (simp add: gate_is_def)
  moreover have "same_outside (region e 8) (ram s) m"
    unfolding m_def setupInterruptHandler_def e_def [symmetric]
    by (simp add: Let_def same_outside_def st16_def add.assoc)
  moreover have "setupInterruptHandler intID ptr s = s\<lparr>ram := m\<rparr>"
    by (simp add: m_def setupInterruptHandler_def Let_def)
  ultimately show ?thesis by blast
qed

lemma gates_apart:
  assumes "unat i < 512" "unat j < 512" "i \<noteq> j"
  shows "region (tbl + 8 * i) 8 \<inter> region (tbl + 8 * j) (8 :: u32) = {}"
proof -
  have u: "unat (8 * i) = 8 * unat i" "unat (8 * j) = 8 * unat j" using assms(1,2) by (simp_all add: unat_mult_u32)
  have "unat i < unat j \<or> unat j < unat i" using assms(3) by (auto simp: word_unat_eq_iff)
  then show ?thesis
    using field_disjoint [of "8 * i" 8 "8 * j" 8 tbl] field_disjoint [of "8 * j" 8 "8 * i" 8 tbl] u assms(1,2)
    by (auto simp: Int_commute simp del: mem_region)
qed

lemma gate_in_table: "unat i < 512 \<Longrightarrow> region (tbl + 8 * i) 8 \<subseteq> region tbl (4096 :: u32)"
  using field_subset [of "8 * i" 8 4096 tbl] unat_mult_u32 [of 8 i] by simp

text \<open>The loop over the vectors.\<close>

lemma setup_all_gates:
  fixes s :: "('d, 'a) idt_state_scheme"
  defines "tbl \<equiv> idt_descriptor_table s"
  shows "\<exists>m. for_s32 0 512 (\<lambda>i s. setupInterruptHandler i (interrupt_func_addresses s i) s) s = s\<lparr>ram := m\<rparr> \<and>
    (\<forall>v<512. gate_is m (tbl + 8 * v) (interrupt_func_addresses s v)) \<and> same_outside (region tbl 4096) (ram s) m"
proof -
  let ?f = "\<lambda>i s. setupInterruptHandler i (interrupt_func_addresses s i) s"
  define P where "P i s' \<longleftrightarrow> (\<exists>m. s' = s\<lparr>ram := m\<rparr> \<and>
    (\<forall>v<i. gate_is m (tbl + 8 * v) (interrupt_func_addresses s v)) \<and> same_outside (region tbl 4096) (ram s) m)" for i s'
  have "P 512 (for_u32 0 512 ?f s)"
  proof (rule for_u32_invariant [where P = P])
    show "P 0 s" by (auto simp: P_def intro!: exI [of _ "ram s"])
  next
    fix i :: u32 and t assume i: "i < 512" and "P i t"
    then obtain m where t: "t = s\<lparr>ram := m\<rparr>" and old: "\<And>v. v < i \<Longrightarrow> gate_is m (tbl + 8 * v) (interrupt_func_addresses s v)"
      and out: "same_outside (region tbl 4096) (ram s) m" by (auto simp: P_def)
    have i': "unat i < 512" using i by (simp add: word_less_nat_alt)
    obtain m' where m': "setupInterruptHandler i (interrupt_func_addresses s i) t = t\<lparr>ram := m'\<rparr>"
      "gate_is m' (tbl + 8 * i) (interrupt_func_addresses s i)" "same_outside (region (tbl + 8 * i) 8) m m'"
      using setup_gate [of i "interrupt_func_addresses s i" t] by (auto simp: t tbl_def)
    have "gate_is m' (tbl + 8 * v) (interrupt_func_addresses s v)" if "v < i" for v
    proof (rule gate_is_cong [OF old [OF that]])
      have "unat v < unat i" using that by (simp add: word_less_nat_alt)
      then have "region (tbl + 8 * v) 8 \<inter> region (tbl + 8 * i) 8 = {}" using gates_apart [of v i] i' by auto
      then show "m' a = m a" if "a \<in> region (tbl + 8 * v) 8" for a using that same_outsideD [OF m'(3)] by blast
    qed
    moreover have "v < i + 1 \<longleftrightarrow> v < i \<or> v = i" for v using region_step [OF i, of v 0] by simp
    ultimately have "\<forall>v<i + 1. gate_is m' (tbl + 8 * v) (interrupt_func_addresses s v)" using m'(2) by auto
    moreover have "same_outside (region tbl 4096) (ram s) m'"
      using same_outside_trans [OF out m'(3)] gate_in_table [OF i'] by blast
    ultimately show "P (i + 1) (?f i t)" using m'(1) by (auto simp: P_def t)
  qed simp
  then show ?thesis by (simp add: P_def for_s32_eq)
qed

lemma idtr_subset: "region p 2 \<subseteq> region p (6 :: u32)" "region (p + 2) 4 \<subseteq> region p (6 :: u32)"
  using field_subset [of 0 2 6 p] field_subset [of 2 4 6 p] by simp_all

lemma ld16_before [simp]: "ld16 (st32 m (p + 2) v) p = ld16 m p"
  by (rule ld16_cong) (simp_all add: st32_outside)

lemma idtInit_spec:
  assumes "region (idtr s) 6 \<inter> region (idt_descriptor_table s) 4096 = {}"
  obtains m where "idtInit s = s\<lparr>ram := m, idtr_limit := 4095, idtr_base := idt_descriptor_table s\<rparr>"
    "\<forall>v<512. gate_is m (idt_descriptor_table s + 8 * v) (if v = 0x80 then isr80h_wrapper s else interrupt_func_addresses s v)"
    "same_outside (region (idt_descriptor_table s) 4096 \<union> region (idtr s) 6) (ram s) m"
proof -
  let ?T = "region (idt_descriptor_table s) 4096" and ?R = "region (idtr s) 6"
  define m2 where "m2 = st32 (st16 (memset (ram s) (idt_descriptor_table s) 0 4096) (idtr s) 4095) (idtr s + 2) (idt_descriptor_table s)"
  have out2: "same_outside (?T \<union> ?R) (ram s) m2"
  proof -
    let ?m0 = "memset (ram s) (idt_descriptor_table s) 0 4096"
    have "same_outside (?T \<union> ?R) (ram s) (st16 ?m0 (idtr s) 4095)"
      using idtr_subset(1) by (intro same_outside_trans [OF memset_frame same_outside_st16]) blast+
    then show ?thesis
      unfolding m2_def using idtr_subset(2) by (intro same_outside_trans [OF _ same_outside_st32]) blast+
  qed
  have reg2: "ld16 m2 (idtr s) = 4095" "ld32 m2 (idtr s + 2) = idt_descriptor_table s"
    by (simp_all add: m2_def ld16_before)
  obtain m3 where m3: "for_s32 0 512 (\<lambda>i s. setupInterruptHandler i (interrupt_func_addresses s i) s) (s\<lparr>ram := m2\<rparr>) = s\<lparr>ram := m3\<rparr>"
    "\<forall>v<512. gate_is m3 (idt_descriptor_table s + 8 * v) (interrupt_func_addresses s v)" "same_outside ?T m2 m3"
    using setup_all_gates [of "s\<lparr>ram := m2\<rparr>"] by auto
  obtain m4 where m4: "setupInterruptHandler 0x80 (isr80h_wrapper s) (s\<lparr>ram := m3\<rparr>) = s\<lparr>ram := m4\<rparr>"
    "gate_is m4 (idt_descriptor_table s + 8 * 0x80) (isr80h_wrapper s)"
    "same_outside (region (idt_descriptor_table s + 8 * 0x80) 8) m3 m4"
    using setup_gate [of "0x80" "isr80h_wrapper s" "s\<lparr>ram := m3\<rparr>"] by auto
  have T4: "same_outside ?T m2 m4" using same_outside_trans [OF m3(3) m4(3)] gate_in_table [of "0x80"] by simp
  have "m4 a = m2 a" if "a \<in> ?R" for a using that T4 assms same_outsideD by blast
  then have reg4: "ld16 m4 (idtr s) = 4095" "ld32 m4 (idtr s + 2) = idt_descriptor_table s"
    using reg2 idtr_subset [of "idtr s"] ld32_cong [of "idtr s + 2" m4 m2] ld16_cong [of m4 "idtr s" m2] by (auto simp: subset_iff)
  have init: "idtInit s = s\<lparr>ram := m4, idtr_limit := 4095, idtr_base := idt_descriptor_table s\<rparr>"
    using m3(1) m4(1) reg4 by (simp add: idtInit_def Let_def m2_def [symmetric] load_idt_def)
  have "gate_is m4 (idt_descriptor_table s + 8 * v) (if v = 0x80 then isr80h_wrapper s else interrupt_func_addresses s v)"
    if "v < 512" for v
  proof (cases "v = 0x80")
    case False
    have "unat v < 512" using that by (simp add: word_less_nat_alt)
    then have "region (idt_descriptor_table s + 8 * v) 8 \<inter> region (idt_descriptor_table s + 8 * 0x80) 8 = {}"
      using gates_apart [of v "0x80"] False by simp
    then have "m4 a = m3 a" if "a \<in> region (idt_descriptor_table s + 8 * v) 8" for a
      using that same_outsideD [OF m4(3)] by blast
    then have "gate_is m4 (idt_descriptor_table s + 8 * v) (interrupt_func_addresses s v)"
      by (rule gate_is_cong [OF m3(2) [rule_format, OF that]])
    with False show ?thesis by simp
  qed (use m4(2) in simp)
  moreover have "same_outside (?T \<union> ?R) (ram s) m4" using same_outside_trans [OF out2 T4] by blast
  ultimately show thesis using that [OF init] by blast
qed

text \<open>C25. After \<open>idtInit\<close> the processor's table register points to the table with its 512 gates, and
  the processor finds in every gate the kernel code segment, the type of an interrupt gate open to
  user programs, and the entry point of its vector: the stub of the vector, but the system call
  wrapper at 0x80.\<close>

theorem idtInit_gates:
  assumes "region (idtr s) 6 \<inter> region (idt_descriptor_table s) 4096 = {}"
  shows "idtr_base (idtInit s) = idt_descriptor_table s \<and> idtr_limit (idtInit s) = 4095 \<and>
    (\<forall>v<512. gate_is (ram (idtInit s)) (idt_descriptor_table s + 8 * v)
       (if v = 0x80 then isr80h_wrapper s else interrupt_func_addresses s v)) \<and>
    same_outside (region (idt_descriptor_table s) 4096 \<union> region (idtr s) 6) (ram s) (ram (idtInit s))"
proof -
  obtain m where "idtInit s = s\<lparr>ram := m, idtr_limit := 4095, idtr_base := idt_descriptor_table s\<rparr>"
    "\<forall>v<512. gate_is m (idt_descriptor_table s + 8 * v) (if v = 0x80 then isr80h_wrapper s else interrupt_func_addresses s v)"
    "same_outside (region (idt_descriptor_table s) 4096 \<union> region (idtr s) 6) (ram s) m" by (rule idtInit_spec [OF assms])
  then show ?thesis by simp
qed

definition demo_idt :: "unit idt_state" where
  "demo_idt = \<lparr>ram = (\<lambda>_. 0), kernelHeap = kernel_heap,
     current_directory = 0, cr3 = 0, cr0 = 0, video_mem = 0xB8000, terminal_row = 0, terminal_col = 0,
     dev = (), disk = 0x8000, fat16_fs = 0x8100, filesystems = 0x8200, file_descriptors = 0x9000, kstack = 0x1F0000,
     current_task = 0, task_list_head = 0, task_list_tail = 0, kernel_page_chunk = 0, data_segments = 0x10,
     current_process = 0, processes = 0x8300, rodata = 0x8400, idt_descriptor_table = 0xA000, idtr = 0xB000,
     interrupt_func_addresses = (\<lambda>i. 0x100000 + 16 * i), isr80h_wrapper = 0x110000,
     isr80h_commands = (\<lambda>_. None), callback_functions = (\<lambda>_. None), idtr_base = 0, idtr_limit = 0\<rparr>"

theorem idtInit_gates_witness:
  "idtr_base (idtInit demo_idt) = 0xA000 \<and> gate_is (ram (idtInit demo_idt)) 0xA400 0x110000 \<and>
   gate_is (ram (idtInit demo_idt)) 0xA108 0x100210"
proof -
  have "a \<notin> region 0xA000 4096" if "a \<in> region 0xB000 6" for a :: addr
    using that by (simp add: region_unat del: mem_region)
  then have apart: "region (idtr demo_idt) 6 \<inter> region (idt_descriptor_table demo_idt) 4096 = {}"
    unfolding demo_idt_def by (auto simp del: mem_region)
  have f: "idt_descriptor_table demo_idt = 0xA000" "isr80h_wrapper demo_idt = 0x110000"
    "interrupt_func_addresses demo_idt = (\<lambda>i. 0x100000 + 16 * i)" by (simp_all add: demo_idt_def)
  note g = idtInit_gates [OF apart, unfolded f]
  from g have "\<forall>v<512. gate_is (ram (idtInit demo_idt)) (0xA000 + 8 * v) (if v = 0x80 then 0x110000 else 0x100000 + 16 * v)"
    by blast
  from this [rule_format, of "0x80"] this [rule_format, of "0x21"] g show ?thesis by simp
qed

end
