(* ===== verification/Key_Queue.thy ===== *)
theory Key_Queue
  imports Prelude
begin

text \<open>
  What a program relies on when it reads the keyboard: the interface \<open>key_queue\<close>.  Keys that are
  pushed come out in the order they went in, no key is lost or repeated as long as fewer than
  \<open>capacity\<close> are waiting, and a read of an empty queue yields 0.  The lemma proved here once
  extends this to any interleaving of key presses and reads, of any length, that presses no key
  while \<open>capacity\<close> keys are waiting.
\<close>

datatype key_event = Pressed u8 | Polled

primrec pressed_keys :: "key_event list \<Rightarrow> u8 list" where
  "pressed_keys [] = []"
| "pressed_keys (e # es) = (case e of Pressed c \<Rightarrow> c # pressed_keys es | Polled \<Rightarrow> pressed_keys es)"

text \<open>No key is pressed while \<open>cap\<close> keys are waiting, in a history that starts with \<open>n\<close> of them; a read
  takes one key away, if there is one.\<close>

primrec never_full :: "nat \<Rightarrow> nat \<Rightarrow> key_event list \<Rightarrow> bool" where
  "never_full cap n [] \<longleftrightarrow> True"
| "never_full cap n (e # es) \<longleftrightarrow>
     (case e of Pressed c \<Rightarrow> n < cap \<and> never_full cap (Suc n) es | Polled \<Rightarrow> never_full cap (n - 1) es)"

lemma few_keys_never_full: "n + length (pressed_keys es) \<le> cap \<Longrightarrow> never_full cap n es"
  by (induction es arbitrary: n) (auto split: key_event.splits)

lemma alternating_never_full: "0 < cap \<Longrightarrow> never_full cap 0 (concat (replicate k [Pressed c, Polled]))"
  by (induction k) auto

lemma alternating_keys: "pressed_keys (concat (replicate k [Pressed c, Polled])) = replicate k c"
  by (induction k) auto

locale key_queue =
  fixes push :: "u8 \<Rightarrow> 's \<Rightarrow> 's"
    and pop :: "'s \<Rightarrow> u8 \<times> 's"
    and inv :: "'s \<Rightarrow> bool"
    and waiting :: "'s \<Rightarrow> u8 list"
    and capacity :: nat
  assumes push_inv: "inv s \<Longrightarrow> c \<noteq> 0 \<Longrightarrow> length (waiting s) < capacity \<Longrightarrow> inv (push c s)"
    and push_waiting: "inv s \<Longrightarrow> c \<noteq> 0 \<Longrightarrow> length (waiting s) < capacity \<Longrightarrow>
      waiting (push c s) = waiting s @ [c]"
    and pop_empty: "inv s \<Longrightarrow> waiting s = [] \<Longrightarrow> pop s = (0, s)"
    and pop_inv: "inv s \<Longrightarrow> waiting s \<noteq> [] \<Longrightarrow> inv (snd (pop s))"
    and pop_key: "inv s \<Longrightarrow> waiting s \<noteq> [] \<Longrightarrow> fst (pop s) = hd (waiting s) \<and> fst (pop s) \<noteq> 0"
    and pop_waiting: "inv s \<Longrightarrow> waiting s \<noteq> [] \<Longrightarrow> waiting (snd (pop s)) = tl (waiting s)"
begin

text \<open>The keys read during a history, and the state after it.\<close>

primrec history :: "key_event list \<Rightarrow> 's \<Rightarrow> u8 list \<times> 's" where
  "history [] s = ([], s)"
| "history (e # es) s =
     (case e of
        Pressed c \<Rightarrow> history es (push c s)
      | Polled \<Rightarrow>
          let (c, s1) = pop s; (cs, s2) = history es s1
          in (if c = 0 then cs else c # cs, s2))"

lemma history_fifo:
  assumes "inv s" and "0 \<notin> set (pressed_keys es)"
    and "never_full capacity (length (waiting s)) es"
    and "history es s = (cs, s')"
  shows "inv s' \<and> cs @ waiting s' = waiting s @ pressed_keys es"
  using assms
proof (induction es arbitrary: s cs)
  case Nil
  then show ?case by simp
next
  case (Cons e es)
  show ?case
  proof (cases e)
    case (Pressed c)
    with Cons.prems have "inv (push c s)" "waiting (push c s) = waiting s @ [c]" by (auto intro: push_inv push_waiting)
    with Cons.prems Pressed Cons.IH [of "push c s" cs] show ?thesis by simp
  next
    case Polled
    obtain c s1 where pop: "pop s = (c, s1)" by (cases "pop s")
    obtain cs1 where rest: "history es s1 = (cs1, s')" and cs: "cs = (if c = 0 then cs1 else c # cs1)"
      using Cons.prems(4) Polled pop by (auto split: prod.splits)
    show ?thesis
    proof (cases "waiting s = []")
      case True
      with pop pop_empty [OF Cons.prems(1)] have "c = 0" "s1 = s" by simp_all
      with Cons.IH [of s cs1] Cons.prems Polled rest cs True show ?thesis by simp
    next
      case False
      have "inv s1" "c = hd (waiting s)" "c \<noteq> 0" "waiting s1 = tl (waiting s)"
        using pop_inv [OF Cons.prems(1) False] pop_key [OF Cons.prems(1) False]
          pop_waiting [OF Cons.prems(1) False] pop by auto
      with Cons.IH [of s1 cs1] Cons.prems Polled rest cs False show ?thesis by (cases "waiting s") auto
    qed
  qed
qed

end

end
