(* ===== verification/Keyboard.thy ===== *)
theory Keyboard
  imports Idt Key_Queue
begin

text \<open>
  Keyboards: \<^verbatim>\<open>keyboard/keyboard.c\<close> and the PS/2 driver \<^verbatim>\<open>keyboard/classicPs2.c\<close>.  \<open>struct keyboard\<close> (28
  bytes) has \<open>init_func\<close> at 0, \<open>name\<close> at 4 and \<open>next\<close> at 24; the initialisation functions are reached
  through \<open>kbds\<close>, by the address of the structure, with no function for a null pointer.  Keys go into the
  ring of the current process (1024 characters at offset 4224 of the process, \<open>tail\<close> and \<open>head\<close> behind it)
  and are taken out by the process of the current task.
\<close>

section \<open>State and constants\<close>

record 'd keyboard_state = "'d idt_state" +
  keyboard_list_head :: addr
  keyboard_list_last :: addr
  classic_keyboard :: addr

definition PS2_PORT_NUMBER :: u16 where [simp]: "PS2_PORT_NUMBER = 0x64"
definition FIRST_PS2_PORT_ENABLE :: u8 where [simp]: "FIRST_PS2_PORT_ENABLE = 0xAE"
definition CLASSIC_KEYBOARD_KEY_RELEASED :: u8 where [simp]: "CLASSIC_KEYBOARD_KEY_RELEASED = 0x80"
definition ISR_KEYBOARD_INTERRUPT :: u32 where [simp]: "ISR_KEYBOARD_INTERRUPT = 0x21"
definition KEYBOARD_INPUT_PORT :: u16 where [simp]: "KEYBOARD_INPUT_PORT = 0x60"

section \<open>keyboard.c\<close>

definition keyboard_insert :: "(addr \<Rightarrow> (('d, 'a) keyboard_state_scheme \<Rightarrow> u32 \<times> ('d, 'a) keyboard_state_scheme) option) \<Rightarrow>
    addr \<Rightarrow> ('d, 'a) keyboard_state_scheme \<Rightarrow> u32 \<times> ('d, 'a) keyboard_state_scheme" where
  "keyboard_insert kbds keyboard s =
     (case kbds keyboard of
        None \<Rightarrow> (- EINVARG, s)
      | Some init_func \<Rightarrow>
          init_func
            (if keyboard_list_last s \<noteq> 0
             then s\<lparr>ram := st32 (ram s) (keyboard_list_last s + 24) keyboard, keyboard_list_last := keyboard\<rparr>
             else s\<lparr>keyboard_list_head := keyboard, keyboard_list_last := keyboard\<rparr>))"

definition keyboard_get_tail_index :: "mem \<Rightarrow> addr \<Rightarrow> u32" where
  "keyboard_get_tail_index m process = ld32 m (process + 5248) mod PEACHOS_KEYBOARD_BUFFER_SIZE"

definition keyboard_backspace :: "addr \<Rightarrow> mem \<Rightarrow> mem" where
  "keyboard_backspace process m =
     (let m1 = st32 m (process + 5248) (ld32 m (process + 5248) - 1);
          real_index = keyboard_get_tail_index m1 process
      in m1(process + 4224 + real_index := 0))"

definition keyboard_push :: "u8 \<Rightarrow> ('d, 'a) keyboard_state_scheme \<Rightarrow> ('d, 'a) keyboard_state_scheme" where
  "keyboard_push c s =
     (let process = process_current s
      in if process = 0 then s
         else
           let real_index = keyboard_get_tail_index (ram s) process;
               m1 = (ram s)(process + 4224 + real_index := c)
           in s\<lparr>ram := st32 m1 (process + 5248) (ld32 m1 (process + 5248) + 1)\<rparr>)"

definition keyboard_pop :: "('d, 'a) keyboard_state_scheme \<Rightarrow> u8 \<times> ('d, 'a) keyboard_state_scheme" where
  "keyboard_pop s =
     (if task_current s = 0 then (0, s)
      else
        let process = ld32 (ram s) (task_current s + 52);
            real_index = ld32 (ram s) (process + 5252) mod PEACHOS_KEYBOARD_BUFFER_SIZE;
            c = ram s (process + 4224 + real_index)
        in if c = 0 then (0, s)
           else
             let m1 = (ram s)(process + 4224 + real_index := 0)
             in (c, s\<lparr>ram := st32 m1 (process + 5252) (ld32 m1 (process + 5252) + 1)\<rparr>))"

section \<open>classicPs2.c\<close>

definition keyboard_scan_set_one :: "u8 list" where
  "keyboard_scan_set_one =
     [0x00, 0x1B] @ map of_char ''1234567890-='' @
     [0x08, 0x09] @ map of_char ''QWERTYUIOP[]'' @
     [0x0d, 0x00] @ map of_char ''ASDFGHJKL;'' @ [39, 96] @
     [0x00, 92] @ map of_char ''ZXCVBNM,./'' @ [0x00, of_char CHR ''*''] @
     [0x00, 0x20, 0x00, 0x00, 0x00, 0x00,
      0x00, 0x00, 0x00, 0x00, 0x00, 0x00,
      0x00] @ map of_char ''789-456+1230.''"

definition classic_keyboard_init :: "'d ports \<Rightarrow> ('d, 'a) keyboard_state_scheme \<Rightarrow> u32 \<times> ('d, 'a) keyboard_state_scheme" where
  "classic_keyboard_init io s =
     (let (r, s1) = register_interrupt_callback_function ISR_KEYBOARD_INTERRUPT Classic_keyboard_handle_interrupt s
      in (0, s1\<lparr>dev := outb io PS2_PORT_NUMBER FIRST_PS2_PORT_ENABLE (dev s1)\<rparr>))"

definition classic_init :: "('d, 'a) keyboard_state_scheme \<Rightarrow> addr" where
  "classic_init s = classic_keyboard s"

definition keyboard_init :: "'d ports \<Rightarrow> ('d, 'a) keyboard_state_scheme \<Rightarrow> ('d, 'a) keyboard_state_scheme" where
  "keyboard_init io s =
     snd (keyboard_insert [classic_init s \<mapsto> classic_keyboard_init io] (classic_init s) s)"

text \<open>The test lets the scan code equal to the size of the table through; what is read then is the
  byte that follows the array, \<open>beyond\<close>.\<close>

definition classic_keyboard_scancode_to_char :: "u8 \<Rightarrow> u8 \<Rightarrow> u8" where
  "classic_keyboard_scancode_to_char beyond scancode =
     (if length keyboard_scan_set_one < unat scancode then 0
      else if unat scancode < length keyboard_scan_set_one then keyboard_scan_set_one ! unat scancode
      else beyond)"

definition classic_keyboard_handle_interrupt :: "'d ports \<Rightarrow> u8 \<Rightarrow> addr \<Rightarrow>
    ('d, 'a) keyboard_state_scheme \<Rightarrow> ('d, 'a) keyboard_state_scheme" where
  "classic_keyboard_handle_interrupt io beyond frame s =
     (let (scancode, d1) = insb io KEYBOARD_INPUT_PORT (dev s);
          (ignored, d2) = insb io KEYBOARD_INPUT_PORT d1;
          s1 = s\<lparr>dev := d2\<rparr>
      in if scancode AND CLASSIC_KEYBOARD_KEY_RELEASED \<noteq> 0 then s1
         else
           let c = classic_keyboard_scancode_to_char beyond scancode
           in if c \<noteq> 0 then keyboard_push c s1 else s1)"

section \<open>The ring\<close>

definition ring_cell :: "mem \<Rightarrow> addr \<Rightarrow> u32 \<Rightarrow> nat \<Rightarrow> u8" where
  "ring_cell m p h i = m (p + 4224 + (h + of_nat i) mod 1024)"

definition ring_count :: "mem \<Rightarrow> addr \<Rightarrow> nat" where
  "ring_count m p = unat (ld32 m (p + 5248) - ld32 m (p + 5252))"

definition ring :: "mem \<Rightarrow> addr \<Rightarrow> u8 list" where
  "ring m p = map (ring_cell m p (ld32 m (p + 5252))) [0..<ring_count m p]"

definition ring_ok :: "mem \<Rightarrow> addr \<Rightarrow> bool" where
  "ring_ok m p \<longleftrightarrow> ring_count m p \<le> 1024 \<and>
     (\<forall>i<1024. ring_cell m p (ld32 m (p + 5252)) i \<noteq> 0 \<longleftrightarrow> i < ring_count m p)"

lemma unat_ring_index: "unat ((h + of_nat i) mod 1024 :: u32) = (unat h + i) mod 1024"
  by (simp add: unat_mod unat_word_ariths unsigned_of_nat take_bit_nat_def mod_mod_cancel mod_simps)

lemma ring_index_bound: "(x :: u32) mod 1024 < 1024"
  by (simp add: word_less_nat_alt unat_mod)

lemma ring_index_eq:
  assumes "i < 1024" "j < 1024"
  shows "(h + of_nat i) mod 1024 = (h + of_nat j :: u32) mod 1024 \<longleftrightarrow> i = j"
proof
  assume "(h + of_nat i) mod 1024 = (h + of_nat j :: u32) mod 1024"
  then have "(unat h + i) mod 1024 = (unat h + j) mod 1024" using unat_ring_index by metis
  then have "i + 1024 * ((unat h + j) div 1024) = j + 1024 * ((unat h + i) div 1024)"
    using mult_div_mod_eq [of 1024 "unat h + i"] mult_div_mod_eq [of 1024 "unat h + j"] by linarith
  then have "(i + 1024 * ((unat h + j) div 1024)) mod 1024 = (j + 1024 * ((unat h + i) div 1024)) mod 1024" by simp
  then show "i = j" using assms by simp
qed simp

text \<open>The words behind the buffer are not part of it.\<close>

lemma ring_words [simp]:
  "ld32 (m(p + 4224 + x mod 1024 := c)) (p + 5248) = ld32 m (p + 5248)"
  "ld32 (m(p + 4224 + x mod 1024 := c)) (p + 5252) = ld32 m (p + 5252)"
  "st32 m (p + 5248) v (p + 4224 + x mod 1024) = m (p + 4224 + x mod 1024)"
  "st32 m (p + 5252) v (p + 4224 + x mod 1024) = m (p + 4224 + x mod 1024)"
proof -
  have b: "unat (x mod 1024) < 1024" by (simp add: unat_mod)
  have off: "unat (x mod 1024 - k) = unat (x mod 1024) + 4294967296 - unat k" if "1024 \<le> unat k" for k :: u32
    using that b by (simp add: unat_sub_if_size word_size)
  have far: "4 \<le> (p + 4224 + x mod 1024) - (p + 5248)" "4 \<le> (p + 4224 + x mod 1024) - (p + 5252)"
    using off [of 1024] off [of 1028] b by (simp_all add: word_le_nat_alt)
  show "ld32 (m(p + 4224 + x mod 1024 := c)) (p + 5248) = ld32 m (p + 5248)"
    "ld32 (m(p + 4224 + x mod 1024 := c)) (p + 5252) = ld32 m (p + 5252)"
    "st32 m (p + 5248) v (p + 4224 + x mod 1024) = m (p + 4224 + x mod 1024)"
    "st32 m (p + 5252) v (p + 4224 + x mod 1024) = m (p + 4224 + x mod 1024)"
    by (rule ld32_upd [OF far(1)], rule ld32_upd [OF far(2)], rule st32_outside [OF far(1)], rule st32_outside [OF far(2)])
qed

lemma ring_cell_upd [simp]: "ring_cell (st32 m (p + 5248) v) p h i = ring_cell m p h i"
  "ring_cell (st32 m (p + 5252) v) p h i = ring_cell m p h i"
  by (simp_all add: ring_cell_def)

lemma ring_cell_write:
  "i < 1024 \<Longrightarrow> j < 1024 \<Longrightarrow>
    ring_cell (m(p + 4224 + (h + of_nat j) mod 1024 := c)) p h i = (if i = j then c else ring_cell m p h i)"
  by (simp add: ring_cell_def ring_index_eq)

definition ring_push :: "u8 \<Rightarrow> addr \<Rightarrow> mem \<Rightarrow> mem" where
  "ring_push c p m =
     st32 (m(p + 4224 + ld32 m (p + 5248) mod 1024 := c)) (p + 5248) (ld32 m (p + 5248) + 1)"

definition ring_pop :: "addr \<Rightarrow> mem \<Rightarrow> mem" where
  "ring_pop p m =
     st32 (m(p + 4224 + ld32 m (p + 5252) mod 1024 := 0)) (p + 5252) (ld32 m (p + 5252) + 1)"

lemma ring_push_ok:
  assumes ok: "ring_ok m p" and c: "c \<noteq> 0" and room: "length (ring m p) < 1024"
  shows "ring_ok (ring_push c p m) p \<and> ring (ring_push c p m) p = ring m p @ [c]"
proof -
  define h n where "h = ld32 m (p + 5252)" and "n = ring_count m p"
  have n: "n < 1024" using room by (simp add: n_def ring_def)
  have "of_nat n = ld32 m (p + 5248) - h" by (simp add: n_def ring_count_def h_def)
  then have tail: "ld32 m (p + 5248) = h + of_nat n" by simp
  have head: "ld32 (ring_push c p m) (p + 5252) = h" by (simp add: ring_push_def h_def ld32_st32_fields)
  have "unat (of_nat n + 1 :: u32) = Suc n" using n by (simp add: unat_add_u32)
  then have count: "ring_count (ring_push c p m) p = Suc n"
    by (simp add: ring_count_def head) (simp add: ring_push_def tail add.commute)
  have cell: "ring_cell (ring_push c p m) p h i = (if i = n then c else ring_cell m p h i)" if "i < 1024" for i
    using that n by (simp add: ring_push_def tail ring_cell_write)
  have "ring_ok (ring_push c p m) p"
    using ok n c by (auto simp: ring_ok_def head count cell n_def [symmetric] h_def [symmetric])
  moreover have "ring (ring_push c p m) p = ring m p @ [c]"
    using n by (simp add: ring_def head count n_def [symmetric] h_def [symmetric] cell)
  ultimately show ?thesis by simp
qed

lemma ring_pop_ok:
  assumes ok: "ring_ok m p" and some: "ring m p \<noteq> []"
  shows "ring_ok (ring_pop p m) p \<and> ring (ring_pop p m) p = tl (ring m p) \<and>
    m (p + 4224 + ld32 m (p + 5252) mod 1024) = hd (ring m p) \<and> hd (ring m p) \<noteq> 0"
proof -
  define h n where "h = ld32 m (p + 5252)" and "n = ring_count m p"
  have n: "0 < n" "n \<le> 1024" using some ok by (auto simp: n_def ring_def ring_ok_def)
  have first: "ring_cell m p h 0 = m (p + 4224 + h mod 1024)" by (simp add: ring_cell_def)
  have hd: "hd (ring m p) = ring_cell m p h 0" "ring_cell m p h 0 \<noteq> 0"
    using n ok by (simp_all add: ring_def h_def n_def hd_map upt_conv_Cons ring_ok_def)
  have head: "ld32 (ring_pop p m) (p + 5252) = h + 1" by (simp add: ring_pop_def h_def)
  have tail: "ld32 (ring_pop p m) (p + 5248) = ld32 m (p + 5248)" by (simp add: ring_pop_def ld32_st32_fields)
  have "unat (ld32 m (p + 5248) - h - 1) = n - 1"
  proof (subst unat_minus_one)
    show "ld32 m (p + 5248) - h \<noteq> 0" using n(1) by (auto simp: n_def ring_count_def h_def)
  qed (simp add: n_def ring_count_def h_def)
  then have count: "ring_count (ring_pop p m) p = n - 1"
    by (simp add: ring_count_def head tail diff_diff_eq)
  have next1: "ring_cell m' p (h + 1) i = ring_cell m' p h (Suc i)" for m' i
    by (simp add: ring_cell_def add.assoc)
  have wrap: "ring_cell m' p h 1024 = ring_cell m' p h 0" for m'
  proof -
    have "(h + of_nat 1024) mod 1024 = (h + of_nat 0 :: u32) mod 1024"
      unfolding word_unat_eq_iff unat_ring_index by simp
    then show ?thesis by (simp add: ring_cell_def)
  qed
  have cell: "ring_cell (ring_pop p m) p (h + 1) i = (if i = 1023 then 0 else ring_cell m p h (Suc i))"
    if "i < 1024" for i
  proof (cases "i = 1023")
    case True
    then show ?thesis
      using ring_cell_write [of 0 0 m p h 0] by (simp add: next1 wrap ring_pop_def h_def [symmetric])
  next
    case False
    then show ?thesis
      using that ring_cell_write [of "Suc i" 0 m p h 0] by (simp add: next1 ring_pop_def h_def [symmetric])
  qed
  have "ring_ok (ring_pop p m) p"
    using ok n by (auto simp: ring_ok_def head count cell n_def [symmetric] h_def [symmetric])
  moreover have "ring (ring_pop p m) p = tl (ring m p)"
    using n by (intro nth_equalityI)
      (auto simp: ring_def head count n_def [symmetric] h_def [symmetric] cell nth_tl)
  ultimately show ?thesis using hd first by (simp add: h_def)
qed

section \<open>The ring is a queue\<close>

definition keyboard_inv :: "('d, 'a) keyboard_state_scheme \<Rightarrow> bool" where
  "keyboard_inv s \<longleftrightarrow> current_process s \<noteq> 0 \<and> current_task s \<noteq> 0 \<and>
     ld32 (ram s) (current_task s + 52) = current_process s \<and>
     region (current_task s + 52) 4 \<inter> region (current_process s + 4224) 1032 = {} \<and>
     ring_ok (ram s) (current_process s)"

definition keys_waiting :: "('d, 'a) keyboard_state_scheme \<Rightarrow> u8 list" where
  "keys_waiting s = ring (ram s) (current_process s)"

lemma keyboard_push_ring:
  "current_process s \<noteq> 0 \<Longrightarrow> keyboard_push c s = s\<lparr>ram := ring_push c (current_process s) (ram s)\<rparr>"
  by (simp add: keyboard_push_def process_current_def keyboard_get_tail_index_def ring_push_def Let_def)

lemma keyboard_pop_ring:
  "keyboard_inv s \<Longrightarrow> keyboard_pop s =
     (let c = ram s (current_process s + 4224 + ld32 (ram s) (current_process s + 5252) mod 1024)
      in if c = 0 then (0, s) else (c, s\<lparr>ram := ring_pop (current_process s) (ram s)\<rparr>))"
  by (simp add: keyboard_pop_def task_current_def keyboard_inv_def ring_pop_def Let_def)

lemma ring_write_inv:
  assumes "keyboard_inv s" "same_outside (region (current_process s + 4224) 1032) (ram s) m" "ring_ok m (current_process s)"
  shows "keyboard_inv (s\<lparr>ram := m\<rparr>)"
  using assms ld32_same_outside [OF assms(2), of "current_task s + 52"] by (simp add: keyboard_inv_def)

lemma ring_frame:
  "same_outside (region (p + 4224) 1032) m (ring_push c p m)" "same_outside (region (p + 4224) 1032) m (ring_pop p m)"
proof -
  have byte: "p + 4224 + x mod 1024 \<in> region (p + 4224) 1032" for x
    using ring_index_bound [of x] by (auto intro: less_trans)
  have word: "region (p + 5248) 4 \<subseteq> region (p + 4224) 1032" "region (p + 5252) 4 \<subseteq> region (p + 4224) 1032"
    using field_subset [of 1024 4 1032 "p + 4224"] field_subset [of 1028 4 1032 "p + 4224"] by (simp_all add: add.assoc)
  show "same_outside (region (p + 4224) 1032) m (ring_push c p m)" "same_outside (region (p + 4224) 1032) m (ring_pop p m)"
    unfolding ring_push_def ring_pop_def using byte word
    by (auto intro!: same_outside_trans [OF same_outside_upd [OF same_outside_refl] same_outside_st32] simp del: mem_region)
qed

lemma keyboard_push_queue:
  assumes inv: "keyboard_inv s" and "c \<noteq> 0" "length (keys_waiting s) < 1024"
  shows "keyboard_inv (keyboard_push c s)" "keys_waiting (keyboard_push c s) = keys_waiting s @ [c]"
proof -
  have p: "current_process s \<noteq> 0" "ring_ok (ram s) (current_process s)" using inv by (simp_all add: keyboard_inv_def)
  note push = ring_push_ok [OF p(2) assms(2,3) [unfolded keys_waiting_def]]
  show "keyboard_inv (keyboard_push c s)"
    using ring_write_inv [OF inv ring_frame(1)] push p(1) by (simp add: keyboard_push_ring)
  show "keys_waiting (keyboard_push c s) = keys_waiting s @ [c]"
    using push p(1) by (simp add: keyboard_push_ring keys_waiting_def)
qed

lemma keyboard_pop_queue:
  assumes inv: "keyboard_inv s"
  shows "keys_waiting s = [] \<Longrightarrow> keyboard_pop s = (0, s)"
    "keys_waiting s \<noteq> [] \<Longrightarrow>
      keyboard_inv (snd (keyboard_pop s)) \<and> fst (keyboard_pop s) = hd (keys_waiting s) \<and> fst (keyboard_pop s) \<noteq> 0 \<and>
      keys_waiting (snd (keyboard_pop s)) = tl (keys_waiting s)"
proof -
  have ok: "ring_ok (ram s) (current_process s)" using inv by (simp add: keyboard_inv_def)
  show "keyboard_pop s = (0, s)" if "keys_waiting s = []"
  proof -
    have "ring_count (ram s) (current_process s) = 0" using that by (simp add: keys_waiting_def ring_def)
    then have "ring_cell (ram s) (current_process s) (ld32 (ram s) (current_process s + 5252)) 0 = 0"
      using ok by (auto simp: ring_ok_def)
    then show ?thesis using keyboard_pop_ring [OF inv] by (simp add: ring_cell_def)
  qed
  show "keyboard_inv (snd (keyboard_pop s)) \<and> fst (keyboard_pop s) = hd (keys_waiting s) \<and> fst (keyboard_pop s) \<noteq> 0 \<and>
      keys_waiting (snd (keyboard_pop s)) = tl (keys_waiting s)" if some: "keys_waiting s \<noteq> []"
  proof -
    note pop = ring_pop_ok [OF ok some [unfolded keys_waiting_def]]
    then have "keyboard_pop s = (hd (keys_waiting s), s\<lparr>ram := ring_pop (current_process s) (ram s)\<rparr>)"
      using keyboard_pop_ring [OF inv] by (simp add: keys_waiting_def)
    then show ?thesis using ring_write_inv [OF inv ring_frame(2)] pop by (simp add: keys_waiting_def)
  qed
qed

interpretation kq: key_queue keyboard_push keyboard_pop keyboard_inv keys_waiting 1024
  by unfold_locales (use keyboard_push_queue keyboard_pop_queue in blast)+

text \<open>A state for the witnesses: a task at 0x30000 and its process at 0x20000, nothing typed yet.\<close>

definition demo_keyboard :: "unit keyboard_state" where
  "demo_keyboard = \<lparr>ram = st32 (\<lambda>_. 0) 0x30034 0x20000, kernelHeap = kernel_heap,
     current_directory = 0, cr3 = 0, cr0 = 0, video_mem = 0xB8000, terminal_row = 0, terminal_col = 0,
     dev = (), disk = 0x8000, fat16_fs = 0x8100, filesystems = 0x8200, file_descriptors = 0x9000, kstack = 0x1F0000,
     current_task = 0x30000, task_list_head = 0x30000, task_list_tail = 0x30000, kernel_page_chunk = 0x40000,
     data_segments = 0x10, current_process = 0x20000, processes = 0x8300, rodata = 0x8400,
     idt_descriptor_table = 0xA000, idtr = 0xB000, interrupt_func_addresses = (\<lambda>i. 0x100000 + 16 * i),
     isr80h_wrapper = 0x110000, isr80h_commands = (\<lambda>_. None),
     callback_functions = [0x21 \<mapsto> Classic_keyboard_handle_interrupt], idtr_base = 0, idtr_limit = 0,
     keyboard_list_head = 0, keyboard_list_last = 0, classic_keyboard = 0xC000\<rparr>"

lemma demo_ring_apart: "region 0x30034 4 \<inter> region (0x20000 + 4224) (1032 :: u32) = {}"
proof -
  have "b \<notin> region (0x20000 + 4224) 1032" if "b \<in> region 0x30034 4" for b :: addr
    using that by (simp add: region_unat del: mem_region)
  then show ?thesis by blast
qed

lemma demo_keyboard_inv: "keyboard_inv demo_keyboard" and demo_keyboard_empty: "keys_waiting demo_keyboard = []"
proof -
  let ?m = "st32 (\<lambda>_. 0) 0x30034 0x20000 :: mem"
  have zero: "ld32 ?m (0x20000 + 5248) = 0" "ld32 ?m (0x20000 + 5252) = 0"
    by (simp_all add: ld32_st32) (simp_all add: ld32_def)
  then have count: "ring_count ?m 0x20000 = 0" by (simp add: ring_count_def)
  have "0x20000 + 4224 + x mod 1024 \<in> region (0x20000 + 4224) 1032" for x :: u32
    using ring_index_bound [of x] by (auto intro: less_trans)
  then have "0x20000 + 4224 + x mod 1024 \<notin> region 0x30034 4" for x :: u32 using demo_ring_apart by blast
  then have "?m (0x20000 + 4224 + x mod 1024) = 0" for x :: u32
    using same_outsideD [OF same_outside_st32] by metis
  then have "ring_ok ?m 0x20000" using count by (simp add: ring_ok_def ring_cell_def)
  then show "keyboard_inv demo_keyboard"
    using demo_ring_apart by (simp add: keyboard_inv_def demo_keyboard_def)
  show "keys_waiting demo_keyboard = []" using count by (simp add: keys_waiting_def demo_keyboard_def ring_def)
qed

text \<open>C21. Keys reach the program in the order they were typed: for every interleaving of key presses
  and reads, of any length, in which no key is pressed while 1024 keys wait, the keys read so far followed by
  those still waiting are the keys that waited at the start followed by the keys pressed.  The key pressed
  must not be the character 0, which marks a free place of the ring.\<close>

theorem keyboard_fifo:
  assumes "keyboard_inv s" "0 \<notin> set (pressed_keys es)" "never_full 1024 (length (keys_waiting s)) es"
  shows "\<exists>cs s'. kq.history es s = (cs, s') \<and> keyboard_inv s' \<and> cs @ keys_waiting s' = keys_waiting s @ pressed_keys es"
  using kq.history_fifo [OF assms] by (cases "kq.history es s") auto

theorem keyboard_fifo_witness:
  "\<exists>cs s'. kq.history (concat (replicate 5000 [Pressed 104, Polled])) demo_keyboard = (cs, s') \<and> keyboard_inv s' \<and>
    cs @ keys_waiting s' = replicate 5000 104"
proof -
  have "0 \<notin> set (pressed_keys (concat (replicate 5000 [Pressed 104, Polled])))"
    by (simp only: alternating_keys) simp
  moreover have "never_full 1024 (length (keys_waiting demo_keyboard)) (concat (replicate 5000 [Pressed 104, Polled]))"
    unfolding demo_keyboard_empty list.size by (rule alternating_never_full) simp
  ultimately show ?thesis
    using keyboard_fifo [OF demo_keyboard_inv, of "concat (replicate 5000 [Pressed 104, Polled])"]
    unfolding demo_keyboard_empty alternating_keys append_Nil by blast
qed

text \<open>The table has no entries for two keys in front of the keypad, so its keypad entries are two
  scan codes early.\<close>

lemma numlock_types_7: "classic_keyboard_scancode_to_char b 0x45 = of_char CHR ''7''"
  by (simp add: classic_keyboard_scancode_to_char_def keyboard_scan_set_one_def)

end
