(* ===== verification/Isr80h.thy ===== *)
theory Isr80h
  imports Keyboard
begin

text \<open>
  System calls: the commands of \<^verbatim>\<open>isr80h/io.c\<close> and \<^verbatim>\<open>isr80h/misc.c\<close>, their registration in
  \<^verbatim>\<open>isr80h/isr80h.c\<close>, and the two entry points of \<^verbatim>\<open>idt/idt.c\<close> that the assembly stubs call.  A handler
  may panic, and it may not return at all when it touches memory the task has not mapped.
\<close>

section \<open>misc.c and io.c\<close>

definition SYSTEM_COMMAND0_SUM :: u32 where [simp]: "SYSTEM_COMMAND0_SUM = 0"
definition SYSTEM_COMMAND1_PRINT :: u32 where [simp]: "SYSTEM_COMMAND1_PRINT = 1"
definition SYSTEM_COMMAND2_GETKEY :: u32 where [simp]: "SYSTEM_COMMAND2_GETKEY = 2"
definition SYSTEM_COMMAND3_PUTCHAR :: u32 where [simp]: "SYSTEM_COMMAND3_PUTCHAR = 3"

definition isr80h_command0_sum :: "addr \<Rightarrow> ('d, 'a) keyboard_state_scheme \<Rightarrow> (u32 \<times> ('d, 'a) keyboard_state_scheme) option" where
  "isr80h_command0_sum frame s =
     do {
       (v2, s1) \<leftarrow> task_get_stack_item (task_current s) 1 s;
       (v1, s2) \<leftarrow> task_get_stack_item (task_current s1) 0 s1;
       Some (v1 + v2, s2)
     }"

definition isr80h_commad1_print :: "addr \<Rightarrow> ('d, 'a) keyboard_state_scheme \<Rightarrow> (u32 \<times> ('d, 'a) keyboard_state_scheme) option" where
  "isr80h_commad1_print frame s =
     do {
       (user_space_msg_buffer, s1) \<leftarrow> task_get_stack_item (task_current s) 0 s;
       let buff = kstack s1 + 160;
       (res, s2) \<leftarrow> copy_string_from_task (task_current s1) user_space_msg_buffer buff PAGE_SIZE_IN_BYTES s1;
       s3 \<leftarrow> print buff s2;
       Some (res, s3)
     }"

definition isr80h_command2_getkey :: "addr \<Rightarrow> ('d, 'a) keyboard_state_scheme \<Rightarrow> (u32 \<times> ('d, 'a) keyboard_state_scheme) option" where
  "isr80h_command2_getkey frame s = (let (c, s1) = keyboard_pop s in Some (scast c, s1))"

definition isr80h_command3_putchar :: "addr \<Rightarrow> ('d, 'a) keyboard_state_scheme \<Rightarrow> (u32 \<times> ('d, 'a) keyboard_state_scheme) option" where
  "isr80h_command3_putchar frame s =
     do {
       (v, s1) \<leftarrow> task_get_stack_item (task_current s) 0 s;
       Some (0, terminal_writechar (ucast v) 15 s1)
     }"

section \<open>isr80h.c\<close>

fun register_all :: "(u32 \<times> isr80h_command) list \<Rightarrow> ('d, 'a) idt_state_scheme \<Rightarrow> (unit, ('d, 'a) idt_state_scheme) outcome" where
  "register_all [] s = Returns () s"
| "register_all ((n, f) # rest) s =
     (case isr80h_register_command n f s of Returns _ s1 \<Rightarrow> register_all rest s1 | Panics s1 \<Rightarrow> Panics s1)"

definition isr80h_register_commands :: "('d, 'a) idt_state_scheme \<Rightarrow> (unit, ('d, 'a) idt_state_scheme) outcome" where
  "isr80h_register_commands s =
     register_all
       [(SYSTEM_COMMAND0_SUM, Command0_sum), (SYSTEM_COMMAND1_PRINT, Command1_print),
        (SYSTEM_COMMAND2_GETKEY, Command2_getkey), (SYSTEM_COMMAND3_PUTCHAR, Command3_putchar)] s"

section \<open>idt.c: dispatch\<close>

fun call_command :: "isr80h_command \<Rightarrow> addr \<Rightarrow> ('d, 'a) keyboard_state_scheme \<Rightarrow> (u32 \<times> ('d, 'a) keyboard_state_scheme) option" where
  "call_command Command0_sum = isr80h_command0_sum"
| "call_command Command1_print = isr80h_commad1_print"
| "call_command Command2_getkey = isr80h_command2_getkey"
| "call_command Command3_putchar = isr80h_command3_putchar"

definition isr80h_handle_command :: "u32 \<Rightarrow> addr \<Rightarrow> ('d, 'a) keyboard_state_scheme \<Rightarrow> (u32 \<times> ('d, 'a) keyboard_state_scheme) option" where
  "isr80h_handle_command command frame s =
     (if command <s 0 \<or> PEACHOS_MAX_ISR80H_COMMANDS \<le>s command then Some (0, s)
      else case isr80h_commands s command of
             None \<Rightarrow> Some (0, s)
           | Some command_func \<Rightarrow> call_command command_func frame s)"

definition isr80h_handler :: "u32 \<Rightarrow> addr \<Rightarrow> ('d, 'a) keyboard_state_scheme \<Rightarrow> (u32, ('d, 'a) keyboard_state_scheme) outcome option" where
  "isr80h_handler command frame s =
     (case task_current_save_state frame (kernel_page s) of
        Panics s1 \<Rightarrow> Some (Panics s1)
      | Returns _ s1 \<Rightarrow> do {
          (res, s2) \<leftarrow> isr80h_handle_command command frame s1;
          Some (Returns res (snd (task_page s2)))
        })"

definition interrupt_handler :: "'d ports \<Rightarrow> u8 \<Rightarrow> u32 \<Rightarrow> addr \<Rightarrow>
    ('d, 'a) keyboard_state_scheme \<Rightarrow> (unit, ('d, 'a) keyboard_state_scheme) outcome" where
  "interrupt_handler io beyond interrupt frame s =
     (let s1 = kernel_page s;
          called = (case callback_functions s1 interrupt of
                      None \<Rightarrow> Returns () s1
                    | Some Classic_keyboard_handle_interrupt \<Rightarrow>
                        (case task_current_save_state frame s1 of
                           Panics s2 \<Rightarrow> Panics s2
                         | Returns _ s2 \<Rightarrow> Returns () (classic_keyboard_handle_interrupt io beyond frame s2)))
      in case called of
           Panics s2 \<Rightarrow> Panics s2
         | Returns _ s2 \<Rightarrow>
             let s3 = snd (task_page s2)
             in Returns () (s3\<lparr>dev := outb io 0x20 0x20 (dev s3)\<rparr>))"

section \<open>Reading the stack of a task\<close>

lemma same_page_add:
  assumes "unat va mod 4096 + unat (k :: u32) < 4096"
  shows "unat (va + k) div 4096 = unat va div 4096" "unat (va + k) mod 4096 = unat va mod 4096 + unat k"
proof -
  have "unat va div 4096 \<le> 1048575" using u32_bound [of va] by (simp add: less_mult_imp_div_less less_Suc_eq_le [symmetric])
  then have bound: "unat va + unat k < 4294967296" using assms div_mult_mod_eq [of "unat va" 4096] by linarith
  have "unat (va + k) = unat va mod 4096 + unat k + 4096 * (unat va div 4096)"
    using unat_add_u32 [OF bound] mod_mult_div_eq [of "unat va" 4096] by linarith
  then show "unat (va + k) div 4096 = unat va div 4096" "unat (va + k) mod 4096 = unat va mod 4096 + unat k"
    using assms by (simp_all only: div_mult_self2 mod_mult_self2 div_less mod_less zero_neq_numeral not_False_eq_True add_0_right)
qed

lemma translate_same_page:
  assumes "unat va mod 4096 + unat k < 4096" and "translate m dir va = Some (pa, q)"
  shows "translate m dir (va + k) = Some (pa + k, q)"
proof -
  note same = same_page_add [OF assms(1)]
  then have "(va + k) mod 4096 = va mod 4096 + k"
    using unat_add_u32 [of "va mod 4096" k] assms(1) by (simp add: word_unat_eq_iff unat_mod)
  then show ?thesis
    using assms(2) page_index_eq [of "va + k" va] same by (auto simp: translate_def pte_def Let_def add.assoc split: if_splits)
qed

lemma vload32_mapped:
  assumes "bit (cr0 s) 31" "translate (ram s) (cr3 s) va = Some (pa, q)" "unat va mod 4096 \<le> 4092"
  shows "vload32 s va = Some (ld32 (ram s) pa)"
proof -
  have "vload8 s (va + k) = Some (ram s (pa + k))" if "unat k < 4" for k
    using translate_same_page [OF _ assms(2), of k] that assms(1,3) by (simp add: vload8_def vaddr_def)
  from this [of 0] this [of 1] this [of 2] this [of 3] show ?thesis
    by (simp add: vload32_def ld32_def)
qed

text \<open>The state of the processor after the task's page directory was loaded and the kernel's again.\<close>

lemma task_get_stack_item_mapped:
  assumes "bit (cr0 s) 31" "translate (ram s) (ld32 (ram s) (ld32 (ram s) task)) (ld32 (ram s) (task + 44) + 4 * index) = Some (pa, q)"
    "unat (ld32 (ram s) (task + 44) + 4 * index) mod 4096 \<le> 4092"
  shows "task_get_stack_item task index s = Some (ld32 (ram s) pa, kernel_page s)"
proof -
  define s1 where "s1 = paging_switch (ld32 (ram s) task) (user_registers s)"
  have s1: "ram s1 = ram s" "cr3 s1 = ld32 (ram s) (ld32 (ram s) task)" "cr0 s1 = cr0 s"
    by (simp_all add: s1_def user_registers_def paging_switch_def paging_load_directory_def)
  have "vload32 s1 (ld32 (ram s) (task + 44) + 4 * index) = Some (ld32 (ram s1) pa)"
    using vload32_mapped [of s1] assms s1 by simp
  then have "vload32 s1 (ld32 (ram s) (task + 44) + 4 * index) = Some (ld32 (ram s) pa)" by (simp only: s1(1))
  moreover have "kernel_page s1 = kernel_page s"
    by (simp add: s1_def kernel_page_def kernel_registers_def user_registers_def paging_switch_def paging_load_directory_def)
  ultimately show ?thesis by (simp add: task_get_stack_item_def task_page_task_def s1_def [symmetric] Let_def s1(1))
qed

lemma command_in_range:
  assumes "unat (c :: u32) < 1024"
  shows "\<not> c <s 0" "\<not> 1024 \<le>s c"
  using assms sint_small [of c] by (simp_all add: word_sless_alt word_sle_eq unat_uint_less)

lemma handle_command:
  "unat c < 1024 \<Longrightarrow> isr80h_handle_command c frame s =
    (case isr80h_commands s c of None \<Rightarrow> Some (0, s) | Some f \<Rightarrow> call_command f frame s)"
  by (simp add: isr80h_handle_command_def command_in_range)

lemma register_command:
  "unat c < 1024 \<Longrightarrow> isr80h_register_command c f s =
    (if isr80h_commands s c \<noteq> None then panic ''you are attempting to overwrite an existing command\<newline>'' s
     else Returns () (s\<lparr>isr80h_commands := (isr80h_commands s)(c \<mapsto> f)\<rparr>))"
  by (simp add: isr80h_register_command_def command_in_range)

text \<open>The state the interrupted task finds: its registers saved, its directory and segments loaded.\<close>

definition back_in_task :: "addr \<Rightarrow> ('d, 'a) task_state_scheme \<Rightarrow> ('d, 'a) task_state_scheme" where
  "back_in_task frame s = snd (task_page (s\<lparr>ram := task_save_state (current_task s) frame (ram s)\<rparr>))"

lemma kernel_page_fields [simp]:
  "ram (kernel_page s) = ram s" "cr0 (kernel_page s) = cr0 s" "current_task (kernel_page s) = current_task s"
  "kernel_page_chunk (kernel_page s) = kernel_page_chunk s" "dev (kernel_page s) = dev s"
  "kernel_page (kernel_page s) = kernel_page s"
  by (simp_all add: kernel_page_def kernel_registers_def paging_switch_def paging_load_directory_def)

lemma kernel_page_upper_fields [simp]:
  "isr80h_commands (kernel_page s) = isr80h_commands s" "callback_functions (kernel_page s) = callback_functions s"
  "current_process (kernel_page s) = current_process s"
  by (simp_all add: kernel_page_def kernel_registers_def paging_switch_def paging_load_directory_def)

lemma task_page_kernel_page [simp]: "task_page (kernel_page s) = task_page s"
  by (simp add: task_page_def task_switch_def kernel_page_def kernel_registers_def user_registers_def paging_switch_def
      paging_load_directory_def)

text \<open>C24. The system call 0 adds the two words on top of the stack of the task that made it, read through
  the task's own page directory, and returns with the task's registers saved from the interrupt frame
  and its directory and segments loaded again.\<close>

theorem isr80h_sum:
  fixes s :: "('d, 'a) keyboard_state_scheme"
  assumes "bit (cr0 s) 31" "current_task s \<noteq> 0" "isr80h_commands s 0 = Some Command0_sum"
    and "chunk_ok (ram s) (ld32 (ram s) (current_task s))"
    and "vspace_pages (ram s) (ld32 (ram s) (current_task s)) \<inter> region (current_task s) 64 = {}"
    and "region (current_task s) 64 \<inter> region frame 52 = {}"
    and "translate (ram s) (ld32 (ram s) (ld32 (ram s) (current_task s))) (ld32 (ram s) (frame + 44)) = Some (pa, q)"
    and "unat (ld32 (ram s) (frame + 44)) mod 4096 \<le> 4088" and "region pa 8 \<inter> region (current_task s) 64 = {}"
  shows "isr80h_handler 0 frame s =
    Some (Returns (ld32 (ram s) pa + ld32 (ram s) (pa + 4)) (back_in_task frame (kernel_page s)))"
proof -
  define t c esp where "t = current_task s" and "c = ld32 (ram s) t" and "esp = ld32 (ram s) (frame + 44)"
  define m' where "m' = task_save_state t frame (ram s)"
  note saved = saved_registers [OF assms(6), of "ram s", folded t_def, folded m'_def]
  have "region t 52 \<subseteq> region t 64" using field_subset [of 0 52 64 t] by simp
  then have out: "same_outside (region t 64) (ram s) m'" using saved(12) by (rule same_outside_mono [rotated])
  have "m' a = ram s a" if "a \<in> vspace_pages (ram s) c" for a
    using that assms(5) out by (auto simp: t_def c_def intro: same_outsideD simp del: mem_region)
  note v = vspace_kept [of "ram s" c m', OF assms(4) [folded t_def, folded c_def] this, simplified]
  have data: "ld32 m' pa = ld32 (ram s) pa" "ld32 m' (pa + 4) = ld32 (ram s) (pa + 4)"
    using assms(9) field_subset [of 0 4 8 pa] field_subset [of 4 4 8 pa] by (auto intro!: ld32_same_outside [OF out] simp: t_def simp del: mem_region)
  define s1 where "s1 = kernel_page s\<lparr>ram := m'\<rparr>"
  have item: "task_get_stack_item t i s1' = Some (ld32 m' (pa + 4 * i), kernel_page s1')"
    if "i = 0 \<or> i = 1" "ram s1' = m'" "cr0 s1' = cr0 s" for i and s1' :: "('d, 'a) keyboard_state_scheme"
  proof -
    have tr: "translate m' (ld32 m' c) esp = Some (pa, q)" using v assms(7) by (simp add: esp_def c_def t_def)
    have page: "unat esp mod 4096 + unat (4 * i) < 4096" "unat esp mod 4096 + unat (4 * i) \<le> 4092"
      using that(1) assms(8) by (auto simp: esp_def)
    have "translate (ram s1') (ld32 (ram s1') (ld32 (ram s1') t)) (ld32 (ram s1') (t + 44) + 4 * i) = Some (pa + 4 * i, q)"
      using translate_same_page [OF page(1) tr] saved(3,11) v(1) by (simp add: that(2) esp_def c_def)
    moreover have "unat (ld32 (ram s1') (t + 44) + 4 * i) mod 4096 \<le> 4092"
      using same_page_add(2) [OF page(1)] page(2) saved(3) by (simp add: that(2) esp_def)
    ultimately show ?thesis using task_get_stack_item_mapped [of s1' t i] that assms(1) by simp
  qed
  have fields: "ram s1 = m'" "cr0 s1 = cr0 s" "current_task s1 = t" by (simp_all add: s1_def t_def)
  have items: "task_get_stack_item t 1 s1 = Some (ld32 m' (pa + 4), kernel_page s1)"
    "task_get_stack_item t 0 (kernel_page s1) = Some (ld32 m' pa, kernel_page s1)"
    using item [of 1 s1] item [of 0 "kernel_page s1"] fields by simp_all
  have "task_current_save_state frame (kernel_page s) = Returns () s1"
    using assms(2) by (simp add: task_current_save_state_def task_current_def s1_def m'_def t_def)
  moreover have "isr80h_handle_command 0 frame s1 = Some (ld32 m' pa + ld32 m' (pa + 4), kernel_page s1)"
  proof -
    have "isr80h_commands s1 0 = Some Command0_sum" using assms(3) by (simp add: s1_def)
    then show ?thesis
      using items fields kernel_page_fields(6) [of s1] by (simp add: handle_command isr80h_command0_sum_def task_current_def)
  qed
  ultimately show ?thesis
    by (simp add: isr80h_handler_def data back_in_task_def) (simp add: s1_def m'_def t_def)
qed

text \<open>A panic prints and changes nothing but the screen and the cursor.\<close>

lemma panic_keeps_commands:
  fixes s :: "('d, 'a) idt_state_scheme"
  shows "\<exists>s'. (panic msg s :: (unit, _) outcome) = Panics s' \<and> isr80h_commands s' = isr80h_commands s"
  unfolding panic_def by (subst print_chars_only) simp

text \<open>C29. When none of the numbers 0 to 3 is taken, registration returns, without a panic, and has installed exactly the
  four system calls under them; repeating it panics and changes no command; a system call that nobody registered, and one whose
  number is out of range, negative or from 1024 on, returns 0 and changes nothing.\<close>

theorem isr80h_register_commands_installs:
  fixes s :: "('d, 'a) keyboard_state_scheme"
  assumes "\<forall>k\<in>{0, 1, 2, 3}. isr80h_commands s k = None"
  defines "s' \<equiv> s\<lparr>isr80h_commands := (isr80h_commands s)
    (0 \<mapsto> Command0_sum, 1 \<mapsto> Command1_print, 2 \<mapsto> Command2_getkey, 3 \<mapsto> Command3_putchar)\<rparr>"
  shows "isr80h_register_commands s = Returns () s' \<and>
    (\<exists>s''. isr80h_register_commands s' = Panics s'' \<and> isr80h_commands s'' = isr80h_commands s') \<and>
    (\<forall>k frame. isr80h_commands s' k = None \<or> sint k < 0 \<or> 1024 \<le> sint k \<longrightarrow>
      isr80h_handle_command k frame s' = Some (0, s'))"
proof (intro conjI allI impI)
  show "isr80h_register_commands s = Returns () s'"
    using assms(1) by (simp add: s'_def isr80h_register_commands_def register_command)
  show "\<exists>s''. isr80h_register_commands s' = Panics s'' \<and> isr80h_commands s'' = isr80h_commands s'"
    using panic_keeps_commands [of "''you are attempting to overwrite an existing command\<newline>''" s']
    by (auto simp: s'_def isr80h_register_commands_def register_command)
  show "isr80h_handle_command k frame s' = Some (0, s')"
    if "isr80h_commands s' k = None \<or> sint k < 0 \<or> 1024 \<le> sint k" for k frame
    using that by (auto simp: isr80h_handle_command_def word_sless_alt word_sle_eq)
qed

section \<open>The keyboard interrupt\<close>

lemma ring_cong:
  assumes "\<And>a. a \<in> region (p + 4224) 1032 \<Longrightarrow> m' a = m a"
  shows "ring m' p = ring m p" "ring_ok m' p = ring_ok m p"
proof -
  have "region (p + 5248) 4 \<subseteq> region (p + 4224) 1032" "region (p + 5252) 4 \<subseteq> region (p + 4224) 1032"
    using field_subset [of 1024 4 1032 "p + 4224"] field_subset [of 1028 4 1032 "p + 4224"] by (simp_all add: add.assoc)
  then have ld: "ld32 m' (p + 5248) = ld32 m (p + 5248)" "ld32 m' (p + 5252) = ld32 m (p + 5252)"
    using assms by (auto intro!: ld32_cong simp del: mem_region)
  have "p + 4224 + x mod 1024 \<in> region (p + 4224) 1032" for x
    using ring_index_bound [of x] by (auto intro: less_trans)
  then have cell: "ring_cell m' p h i = ring_cell m p h i" for h i by (simp add: ring_cell_def assms)
  then have "ring_cell m' p h = ring_cell m p h" for h by blast
  then show "ring m' p = ring m p" "ring_ok m' p = ring_ok m p"
    by (simp_all add: ring_def ring_ok_def ring_count_def ld)
qed

definition typed :: "u8 \<Rightarrow> u8 \<Rightarrow> u8 list" where
  "typed beyond scancode =
     (let c = classic_keyboard_scancode_to_char beyond scancode
      in if bit scancode 7 \<or> c = 0 then [] else [c])"

lemma typed_handled:
  fixes s :: "('d, 'a) keyboard_state_scheme" and beyond :: u8 and frame :: addr
  assumes "keyboard_inv s" "length (keys_waiting s) < 1024" "insb io 0x60 (dev s) = (scancode, d1)"
  defines "s' \<equiv> classic_keyboard_handle_interrupt io beyond frame s"
  shows "keyboard_inv s'" "keys_waiting s' = keys_waiting s @ typed beyond scancode" "dev s' = snd (insb io 0x60 d1)"
    "current_task s' = current_task s" "current_process s' = current_process s"
    "callback_functions s' = callback_functions s" "isr80h_commands s' = isr80h_commands s"
proof -
  define c where "c = classic_keyboard_scancode_to_char beyond scancode"
  define s1 where "s1 = s\<lparr>dev := snd (insb io 0x60 d1)\<rparr>"
  have s1: "keyboard_inv s1" "keys_waiting s1 = keys_waiting s" using assms(1) by (simp_all add: s1_def keyboard_inv_def keys_waiting_def)
  have "scancode AND 0x80 \<noteq> 0 \<longleftrightarrow> bit scancode 7"
  proof -
    have seven: "n = 7" if "n < 8" "7 \<le> n" for n :: nat using that by simp
    have "scancode AND push_bit 7 1 \<noteq> 0 \<longleftrightarrow> bit scancode 7" by (simp only: bit_eq_iff bit_and_iff bit_push_bit_iff bit_1_iff) (auto dest: seven intro: exI [of _ 7])
    moreover have "push_bit 7 1 = (0x80 :: u8)" by simp
    ultimately show ?thesis by (simp only:)
  qed
  then have s': "s' = (if typed beyond scancode = [] then s1 else keyboard_push c s1)"
    by (simp add: s'_def classic_keyboard_handle_interrupt_def assms(3) typed_def c_def s1_def Let_def split_beta)
  have p: "current_process s1 \<noteq> 0" using s1(1) by (simp add: keyboard_inv_def)
  have ty: "typed beyond scancode = [] \<or> (typed beyond scancode = [c] \<and> c \<noteq> 0)" by (simp add: typed_def c_def Let_def)
  note push = keyboard_push_queue [OF s1(1), of c, unfolded s1(2), OF _ assms(2)]
  show "keyboard_inv s'" "keys_waiting s' = keys_waiting s @ typed beyond scancode"
    using ty s1 push by (auto simp: s')
  show "dev s' = snd (insb io 0x60 d1)" "current_task s' = current_task s" "current_process s' = current_process s"
    "callback_functions s' = callback_functions s" "isr80h_commands s' = isr80h_commands s"
    using p by (auto simp: s' keyboard_push_ring) (auto simp: s1_def)
qed

lemma keyboard_interrupt_spec:
  fixes s :: "('d, 'a) keyboard_state_scheme"
  assumes "keyboard_inv s" "length (keys_waiting s) < 1024" "callback_functions s 0x21 = Some Classic_keyboard_handle_interrupt"
    and "insb io 0x60 (dev s) = (scancode, d1)"
    and "region (current_task s) 64 \<inter> region frame 52 = {}"
    and "region (current_task s) 52 \<inter> region (current_process s + 4224) 1032 = {}"
  shows "\<exists>s'. interrupt_handler io beyond 0x21 frame s = Returns () s' \<and> keyboard_inv s' \<and>
    keys_waiting s' = keys_waiting s @ typed beyond scancode \<and>
    dev s' = outb io 0x20 0x20 (snd (insb io 0x60 d1)) \<and>
    current_task s' = current_task s \<and> data_segments s' = 0x23 \<and>
    cr3 s' = ld32 (ram s') (ld32 (ram s') (current_task s)) \<and> current_process s' = current_process s \<and>
    callback_functions s' = callback_functions s \<and> isr80h_commands s' = isr80h_commands s"
proof -
  define m' where "m' = task_save_state (current_task s) frame (ram s)"
  define s2 where "s2 = kernel_page s\<lparr>ram := m'\<rparr>"
  define s3 where "s3 = classic_keyboard_handle_interrupt io beyond frame s2"
  define s4 where "s4 = snd (task_page s3)"
  note saved = saved_registers [OF assms(5), of "ram s", folded m'_def]
  have t: "current_task s \<noteq> 0" using assms(1) by (simp add: keyboard_inv_def)
  have "m' a = ram s a" if "a \<in> region (current_process s + 4224) 1032" for a
    using that assms(6) saved(12) by (auto intro: same_outsideD simp del: mem_region)
  note r = ring_cong [OF this]
  have "region (current_task s + 52) 4 \<inter> region (current_task s + 0) 52 = {}"
    using field_disjoint [of 0 52 52 4 "current_task s"] by auto
  then have "ld32 m' (current_task s + 52) = ld32 (ram s) (current_task s + 52)"
    using ld32_same_outside [OF saved(12)] by simp
  then have s2: "keyboard_inv s2" "keys_waiting s2 = keys_waiting s" "current_task s2 = current_task s" "dev s2 = dev s"
    using assms(1) r by (simp_all add: s2_def keyboard_inv_def keys_waiting_def)
  have s3: "keyboard_inv s3" "keys_waiting s3 = keys_waiting s @ typed beyond scancode" "dev s3 = snd (insb io 0x60 d1)"
    "current_task s3 = current_task s" "current_process s3 = current_process s"
    "callback_functions s3 = callback_functions s" "isr80h_commands s3 = isr80h_commands s"
    using typed_handled [OF s2(1), of io scancode d1 beyond frame, folded s3_def] s2 assms(2,4) by (simp_all add: s2_def)
  have "interrupt_handler io beyond 0x21 frame s = Returns () (s4\<lparr>dev := outb io 0x20 0x20 (dev s4)\<rparr>)"
    using t assms(3) by (simp add: interrupt_handler_def task_current_save_state_def task_current_def s4_def s3_def s2_def m'_def Let_def)
  moreover have "s4 = s3\<lparr>data_segments := 0x23, current_task := current_task s3, cr3 := ld32 (ram s3) (ld32 (ram s3) (current_task s3)),
      current_directory := ld32 (ram s3) (ld32 (ram s3) (current_task s3))\<rparr>"
    by (simp add: s4_def task_page_def task_switch_def user_registers_def paging_switch_def paging_load_directory_def)
  ultimately show ?thesis using s3 by (simp add: keyboard_inv_def keys_waiting_def)
qed

text \<open>A keyboard interrupt while a task runs: the key is appended to the keys that wait for the
  process (nothing for a key release or a key without a character), the controller gets its
  acknowledgement last, and the kernel leaves for the interrupted task, whose registers it saved.\<close>

lemma keyboard_interrupt_types:
  fixes s :: "('d, 'a) keyboard_state_scheme"
  assumes "keyboard_inv s" "length (keys_waiting s) < 1024" "callback_functions s 0x21 = Some Classic_keyboard_handle_interrupt"
    and "insb io 0x60 (dev s) = (scancode, d1)"
    and "region (current_task s) 64 \<inter> region frame 52 = {}"
    and "region (current_task s) 52 \<inter> region (current_process s + 4224) 1032 = {}"
  shows "\<exists>s'. interrupt_handler io beyond 0x21 frame s = Returns () s' \<and> keyboard_inv s' \<and>
    keys_waiting s' = keys_waiting s @ typed beyond scancode \<and>
    dev s' = outb io 0x20 0x20 (snd (insb io 0x60 d1)) \<and>
    current_task s' = current_task s \<and> data_segments s' = 0x23 \<and>
    cr3 s' = ld32 (ram s') (ld32 (ram s') (current_task s))"
  using keyboard_interrupt_spec [OF assms] by blast

section \<open>Witnesses\<close>

definition demo_syscall :: "unit keyboard_state" where
  "demo_syscall =
     (let (c, s) = paging_new_4gb 5 boot_ram
      in demo_keyboard\<lparr>ram := st32 (st32 (st32 (st32 (ram s) 0x5000 c) (0x6000 + 44) 0x100) 0x100 20) 0x104 22,
           cr0 := 0x80000000, current_task := 0x5000, isr80h_commands := [0 \<mapsto> Command0_sum]\<rparr>)"

lemma demo_syscall_space:
  obtains c where "ld32 (ram demo_syscall) 0x5000 = c" "chunk_ok (ram demo_syscall) c"
    "vspace_pages (ram demo_syscall) c \<inter> low_memory = {}"
    "\<And>va. translate (ram demo_syscall) (ld32 (ram demo_syscall) c) va = Some (va, False, True)"
proof -
  obtain c s where new: "paging_new_4gb 5 boot_ram = (c, s)" by (cases "paging_new_4gb 5 boot_ram")
  have "same_outside low_memory (ram s) (ram demo_syscall)" by (simp add: demo_syscall_def new low_store)
  note keep = boot_space_kept [OF new this]
  have "ld32 (ram demo_syscall) 0x5000 = c" by (simp add: demo_syscall_def new ld32_st32)
  then show thesis using that [of c] keep by simp
qed

theorem isr80h_sum_witness:
  "\<exists>s'. isr80h_handler 0 0x6000 demo_syscall = Some (Returns 42 s')"
proof -
  obtain c where c: "ld32 (ram demo_syscall) 0x5000 = c" "chunk_ok (ram demo_syscall) c"
    "vspace_pages (ram demo_syscall) c \<inter> low_memory = {}"
    "\<And>va. translate (ram demo_syscall) (ld32 (ram demo_syscall) c) va = Some (va, False, True)"
    by (rule demo_syscall_space) blast
  have t: "current_task demo_syscall = 0x5000" "isr80h_commands demo_syscall 0 = Some Command0_sum" "cr0 demo_syscall = 0x80000000"
    by (simp_all add: demo_syscall_def split_beta)
  have data: "ld32 (ram demo_syscall) (0x6000 + 44) = 0x100" "ld32 (ram demo_syscall) 0x100 = 20" "ld32 (ram demo_syscall) 0x104 = 22"
    by (simp_all add: demo_syscall_def split_beta ld32_st32)
  have apart: "region 0x5000 64 \<inter> region 0x6000 (52 :: u32) = {}"
    "region 0x100 8 \<inter> region 0x5000 (64 :: u32) = {}"
    by (auto simp: region_unat simp del: mem_region)
  have "region 0x5000 64 \<subseteq> low_memory" by (rule low_region) simp
  then have space: "vspace_pages (ram demo_syscall) c \<inter> region 0x5000 64 = {}" using c(3) by blast
  have "bit (0x80000000 :: u32) 31" by simp
  then show ?thesis
    using isr80h_sum [of demo_syscall "0x6000" "0x100" "(False, True)", unfolded t c data] c(1,2,4) apart space data by (auto simp del: mem_region)
qed

theorem isr80h_register_commands_installs_witness:
  "\<exists>s'. isr80h_register_commands demo_keyboard = Returns () s' \<and> isr80h_commands s' 2 = Some Command2_getkey \<and>
    isr80h_handle_command 9 0 s' = Some (0, s') \<and> isr80h_handle_command (- 1) 0 s' = Some (0, s')"
proof -
  have free: "isr80h_commands demo_keyboard k = None" for k by (simp add: demo_keyboard_def)
  define s where "s = demo_keyboard\<lparr>isr80h_commands := (isr80h_commands demo_keyboard)
    (0 \<mapsto> Command0_sum, 1 \<mapsto> Command1_print, 2 \<mapsto> Command2_getkey, 3 \<mapsto> Command3_putchar)\<rparr>"
  have "\<forall>k\<in>{0, 1, 2, 3}. isr80h_commands demo_keyboard k = None" using free by simp
  note installed = isr80h_register_commands_installs [OF this, folded s_def]
  have "isr80h_commands s 2 = Some Command2_getkey" "isr80h_commands s 9 = None" "sint (- 1 :: u32) < 0"
    using free by (simp_all add: s_def)
  with installed show ?thesis by metis
qed

text \<open>A keyboard on which the key Q is pressed.\<close>

definition demo_keyboard_ports :: "unit ports" where
  "demo_keyboard_ports = \<lparr>insb = (\<lambda>p d. (0x10, d)), insw = (\<lambda>p d. (0, d)), outb = (\<lambda>p v d. d)\<rparr>"

lemma keyboard_interrupt_types_witness:
  "\<exists>s'. interrupt_handler demo_keyboard_ports 0 0x21 0x6000 demo_keyboard = Returns () s' \<and>
    keys_waiting s' = [of_char CHR ''Q'']"
proof -
  have f: "callback_functions demo_keyboard 0x21 = Some Classic_keyboard_handle_interrupt"
    "current_task demo_keyboard = 0x30000" "current_process demo_keyboard = 0x20000"
    "insb demo_keyboard_ports 0x60 (dev demo_keyboard) = (0x10, ())"
    by (simp_all add: demo_keyboard_def demo_keyboard_ports_def)
  have apart: "region 0x30000 64 \<inter> region 0x6000 (52 :: u32) = {}" "region 0x30000 52 \<inter> region (0x20000 + 4224) (1032 :: u32) = {}"
    by (auto simp: region_unat simp del: mem_region)
  have "typed 0 0x10 = [of_char CHR ''Q'']"
    by (simp add: typed_def classic_keyboard_scancode_to_char_def keyboard_scan_set_one_def)
  then show ?thesis
    using keyboard_interrupt_types [OF demo_keyboard_inv _ f(1,4), of "0x6000" 0] apart by (auto simp: f demo_keyboard_empty)
qed

end
