(* ===== verification/Gdt.thy ===== *)
theory Gdt
  imports Terminal
begin

text \<open>
  Segment descriptors: \<^verbatim>\<open>gdt/gdt.c\<close>, the table of \<^verbatim>\<open>kernel.c\<close> and the task state segment of
  \<^verbatim>\<open>task/tss.h\<close>.  \<open>generate_gdt\<close> packs a base, a limit and an access byte into the eight bytes
  the processor reads; \<open>desc_base\<close>, \<open>desc_limit\<close> and \<open>desc_access\<close> are the processor's reading.
  The lemmas show that packing loses nothing.
\<close>

section \<open>gdt.h, gdt.c\<close>

record gdt_structured =
  base :: u32
  limit :: u32
  type :: u8

definition generate_gdt :: "addr \<Rightarrow> gdt_structured \<Rightarrow> 'a terminal_state_scheme \<Rightarrow>
    (unit, 'a terminal_state_scheme) outcome" where
  "generate_gdt g source s =
     (if 65536 < limit source \<and> (limit source AND 0xFFF) \<noteq> 0xFFF
      then panic ''generate_gdt: Invalid argument\<newline>'' s
      else
        let m1 = (ram s)(g + 6 := 0x40);
            (lim, m2) = (if 65536 < limit source
                         then (drop_bit 12 (limit source), m1(g + 6 := 0xc0)) else (limit source, m1));
            m3 = m2(g := ucast (lim AND 0xFF));
            m4 = m3(g + 1 := ucast (drop_bit 8 lim AND 0xFF));
            m5 = m4(g + 6 := m4 (g + 6) OR ucast (drop_bit 16 lim AND 0x0F));
            m6 = m5(g + 2 := ucast (base source AND 0xFF));
            m7 = m6(g + 3 := ucast (drop_bit 8 (base source) AND 0xFF));
            m8 = m7(g + 4 := ucast (drop_bit 16 (base source) AND 0xFF));
            m9 = m8(g + 7 := ucast (drop_bit 24 (base source) AND 0xFF))
        in Returns () (s\<lparr>ram := m9(g + 5 := type source)\<rparr>))"

function gdt_loop :: "addr \<Rightarrow> gdt_structured list \<Rightarrow> u32 \<Rightarrow> u32 \<Rightarrow> 'a terminal_state_scheme \<Rightarrow>
    (unit, 'a terminal_state_scheme) outcome" where
  "gdt_loop g gs n i s =
     (if i <s n then
        (case generate_gdt (g + 8 * i) (gs ! unat i) s of
           Panics s' \<Rightarrow> Panics s'
         | Returns _ s' \<Rightarrow> gdt_loop g gs n (i + 1) s')
      else Returns () s)"
  by pat_completeness auto
termination
  by (relation "measure (\<lambda>(g, gs, n, i, s). nat (sint n - sint i))")
    (auto simp: sint_Suc word_sless_alt)

declare gdt_loop.simps [simp del]

definition gdt_structured_to_gdt :: "addr \<Rightarrow> gdt_structured list \<Rightarrow> u32 \<Rightarrow> 'a terminal_state_scheme \<Rightarrow>
    (unit, 'a terminal_state_scheme) outcome" where
  "gdt_structured_to_gdt g gs n s = gdt_loop g gs n 1 s"

text \<open>The table of \<^verbatim>\<open>kernel.c\<close>; the address of the TSS is fixed by the linker.\<close>

definition sizeof_tss :: u32 where
  [simp]: "sizeof_tss = 100"

definition kernel_gdt_structured :: "addr \<Rightarrow> gdt_structured list" where
  "kernel_gdt_structured tss =
     [\<lparr>base = 0, limit = 0, type = 0\<rparr>,
      \<lparr>base = 0, limit = 0xffffffff, type = 0x9a\<rparr>,
      \<lparr>base = 0, limit = 0xffffffff, type = 0x92\<rparr>,
      \<lparr>base = 0, limit = 0xffffffff, type = 0xf8\<rparr>,
      \<lparr>base = 0, limit = 0xffffffff, type = 0xf2\<rparr>,
      \<lparr>base = tss, limit = sizeof_tss, type = 0xE9\<rparr>]"

section \<open>How the processor reads a descriptor\<close>

definition desc_base :: "mem \<Rightarrow> addr \<Rightarrow> u32" where
  "desc_base m d = ucast (m (d + 2)) OR push_bit 8 (ucast (m (d + 3)))
     OR push_bit 16 (ucast (m (d + 4))) OR push_bit 24 (ucast (m (d + 7)))"

definition desc_limit :: "mem \<Rightarrow> addr \<Rightarrow> u32" where
  "desc_limit m d =
     (let raw = ucast (m d) OR push_bit 8 (ucast (m (d + 1))) OR push_bit 16 (ucast (m (d + 6) AND 0x0F))
      in if bit (m (d + 6)) 7 then push_bit 12 raw OR 0xFFF else raw)"

definition desc_access :: "mem \<Rightarrow> addr \<Rightarrow> u8" where
  "desc_access m d = m (d + 5)"

definition desc_is :: "mem \<Rightarrow> addr \<Rightarrow> gdt_structured \<Rightarrow> bool" where
  "desc_is m d src \<longleftrightarrow> desc_base m d = base src \<and> desc_limit m d = limit src \<and> desc_access m d = type src"

definition encodable :: "gdt_structured \<Rightarrow> bool" where
  "encodable src \<longleftrightarrow> 65536 < limit src \<longrightarrow> limit src AND 0xFFF = 0xFFF"

lemma masks: "(0xFF :: u32) = mask 8" "(0x0F :: u32) = mask 4" "(0x0F :: u8) = mask 4" "(0xFFF :: u32) = mask 12"
  by (simp_all add: mask_eq_exp_minus_1)

lemma low_byte: "ucast (y AND 0xFF) = (ucast y :: u8)" for y :: u32
  unfolding masks by (rule bit_word_eqI) (simp add: bit_simps)

lemma bytes_of_u32:
  "ucast (ucast x :: u8) OR push_bit 8 (ucast (ucast (drop_bit 8 x) :: u8))
     OR push_bit 16 (ucast (ucast (drop_bit 16 x) :: u8))
     OR push_bit 24 (ucast (ucast (drop_bit 24 x) :: u8)) = x" for x :: u32
  using ld32_st32_same [of "\<lambda>_. 0" 0 x] by (simp add: ld32_def st32_def)

lemma limit_nibble:
  assumes "take_bit 20 lim = lim" and "c AND mask 4 = 0"
  shows "ucast (ucast lim :: u8) OR push_bit 8 (ucast (ucast (drop_bit 8 lim) :: u8))
     OR push_bit 16 (ucast ((c OR ucast (drop_bit 16 lim AND mask 4)) AND mask 4 :: u8)) = (lim :: u32)"
proof (rule bit_word_eqI)
  fix n assume n: "n < LENGTH(32)"
  have hi: "\<not> bit lim n" if "20 \<le> n" using assms(1) that by (metis bit_take_bit_iff not_less)
  have lo: "\<not> bit c k" if "k < 4" for k using assms(2) that by (auto simp: bit_eq_iff bit_simps dest!: spec [of _ k])
  consider "n < 8" | "8 \<le> n" "n < 16" | "16 \<le> n" "n < 20" | "20 \<le> n" by linarith
  then show "bit (ucast (ucast lim :: u8) OR push_bit 8 (ucast (ucast (drop_bit 8 lim) :: u8))
     OR push_bit 16 (ucast ((c OR ucast (drop_bit 16 lim AND mask 4)) AND mask 4 :: u8)) :: u32) n = bit lim n"
    using n hi lo by cases (auto simp: bit_simps)
qed

lemma small_take_bit_20: "x \<le> 65536 \<Longrightarrow> take_bit 20 x = x" for x :: u32
  by (simp add: take_bit_eq_mod word_unat_eq_iff unat_mod word_le_nat_alt)

lemma drop_take_20: "take_bit 20 (drop_bit 12 x) = drop_bit 12 x" for x :: u32
  by (rule bit_word_eqI) (auto simp: bit_simps dest: bit_imp_le_length)

lemma granular_limit: "x AND mask 12 = mask 12 \<Longrightarrow> push_bit 12 (drop_bit 12 x) OR mask 12 = x" for x :: u32
proof (rule bit_word_eqI)
  fix n assume eq: "x AND mask 12 = mask 12" and n: "n < LENGTH(32)"
  have "bit x k" if "k < 12" for k
    using arg_cong [OF eq, of "\<lambda>y. bit y k"] that by (simp add: bit_simps)
  then show "bit (push_bit 12 (drop_bit 12 x) OR mask 12) n = bit x n"
    using n by (cases "n < 12") (auto simp: bit_simps)
qed

text \<open>The descriptor that is written, the frame, and the two ways the function ends.\<close>

lemma generate_gdt_panics:
  "\<not> encodable src \<Longrightarrow> generate_gdt g src s = panic ''generate_gdt: Invalid argument\<newline>'' s"
  by (simp add: generate_gdt_def encodable_def)

lemma generate_gdt_encodes:
  assumes "encodable src"
  shows "\<exists>m'. generate_gdt g src s = Returns () (s\<lparr>ram := m'\<rparr>) \<and> desc_is m' g src \<and>
    same_outside (region g 8) (ram s) m'"
proof -
  define big where "big \<longleftrightarrow> 65536 < limit src"
  define lim where "lim = (if big then drop_bit 12 (limit src) else limit src)"
  define c where "c = (if big then 0xc0 else 0x40 :: u8)"
  define m' where "m' = (ram s)(g + 6 := c OR ucast (drop_bit 16 lim AND 0x0F), g := ucast lim,
    g + 1 := ucast (drop_bit 8 lim), g + 2 := ucast (base src), g + 3 := ucast (drop_bit 8 (base src)),
    g + 4 := ucast (drop_bit 16 (base src)), g + 7 := ucast (drop_bit 24 (base src)), g + 5 := type src)"
  have ok: "\<not> (big \<and> (limit src AND 0xFFF) \<noteq> 0xFFF)" using assms by (simp add: encodable_def big_def)
  have run: "generate_gdt g src s = Returns () (s\<lparr>ram := m'\<rparr>)"
    using ok unfolding generate_gdt_def big_def [symmetric]
    by (cases big) (simp_all add: Let_def low_byte m'_def lim_def c_def fun_upd_twist)
  have t: "take_bit 20 lim = lim"
    by (simp add: lim_def drop_take_20 small_take_bit_20 big_def not_less)
  have c4: "c AND mask 4 = 0" unfolding masks(3) [symmetric] by (simp add: c_def)
  have c7: "bit (c OR ucast (drop_bit 16 lim AND mask 4)) 7 \<longleftrightarrow> big"
    by (simp add: c_def bit_simps)
  have "desc_limit m' g = limit src"
    using limit_nibble [OF t c4] c7 ok
    by (simp add: desc_limit_def m'_def masks Let_def lim_def granular_limit)
  moreover have "desc_base m' g = base src"
    using bytes_of_u32 [of "base src"] by (simp add: desc_base_def m'_def)
  moreover have "desc_access m' g = type src" by (simp add: desc_access_def m'_def)
  moreover have "same_outside (region g 8) (ram s) m'"
    by (simp add: m'_def same_outside_upd)
  ultimately show ?thesis using run by (auto simp: desc_is_def)
qed

lemma desc_is_frame:
  assumes "desc_is m d src" and "same_outside R m m'" and "region d 8 \<inter> R = {}"
  shows "desc_is m' d src"
proof -
  have "m' (d + k) = m (d + k)" if "k < 8" for k
  proof (rule same_outsideD [OF assms(2)])
    have "d + k \<in> region d 8" using that by simp
    with assms(3) show "d + k \<notin> R" by blast
  qed
  from this [of 0] this [of 1] this [of 2] this [of 3] this [of 4] this [of 5] this [of 6] this [of 7]
  show ?thesis using assms(1) by (simp add: desc_is_def desc_base_def desc_limit_def desc_access_def)
qed

section \<open>The whole table\<close>

lemma desc_slots_apart:
  assumes "i < 268435456" "j < 268435456" "i \<noteq> j"
  shows "region (g + 8 * of_nat i) 8 \<inter> region (g + 8 * of_nat j) 8 = {}"
proof (rule equals0I)
  fix a assume a: "a \<in> region (g + 8 * of_nat i) 8 \<inter> region (g + 8 * of_nat j) 8"
  have "a = g + of_nat (unat (a - g))" by simp
  then have "8 * i \<le> unat (a - g) \<and> unat (a - g) < 8 * i + 8" "8 * j \<le> unat (a - g) \<and> unat (a - g) < 8 * j + 8"
    using a offset_region [of "unat (a - g)" "8 * i" 8 g] offset_region [of "unat (a - g)" "8 * j" 8 g]
      u32_bound [of "a - g"] assms by auto
  with assms(3) show False by linarith
qed

lemma gdt_loop_encodes:
  assumes "length gs < 268435456" and "\<forall>i<length gs. encodable (gs ! i)" and "i \<le> length gs"
  shows "\<exists>m'. gdt_loop g gs (of_nat (length gs)) (of_nat i) s = Returns () (s\<lparr>ram := m'\<rparr>) \<and>
    (\<forall>j. i \<le> j \<and> j < length gs \<longrightarrow> desc_is m' (g + 8 * of_nat j) (gs ! j)) \<and>
    same_outside (\<Union>j\<in>{i..<length gs}. region (g + 8 * of_nat j) 8) (ram s) m'"
  using assms(3)
proof (induction "length gs - i" arbitrary: i s)
  case 0
  then show ?case by (subst gdt_loop.simps) (auto simp: word_sless_alt intro: exI [of _ "ram s"])
next
  case (Suc k)
  then have i: "i < length gs" by simp
  obtain m1 where m1: "generate_gdt (g + 8 * of_nat i) (gs ! i) s = Returns () (s\<lparr>ram := m1\<rparr>)"
    "desc_is m1 (g + 8 * of_nat i) (gs ! i)" "same_outside (region (g + 8 * of_nat i) 8) (ram s) m1"
    using generate_gdt_encodes [of "gs ! i" "g + 8 * of_nat i" s] assms(2) i by blast
  have "\<exists>m'. gdt_loop g gs (of_nat (length gs)) (of_nat (Suc i)) (s\<lparr>ram := m1\<rparr>) = Returns () (s\<lparr>ram := m'\<rparr>) \<and>
    (\<forall>j. Suc i \<le> j \<and> j < length gs \<longrightarrow> desc_is m' (g + 8 * of_nat j) (gs ! j)) \<and>
    same_outside (\<Union>j\<in>{Suc i..<length gs}. region (g + 8 * of_nat j) 8) m1 m'"
    using Suc.hyps(1) [of "Suc i" "s\<lparr>ram := m1\<rparr>"] Suc.hyps(2) i by simp
  then obtain m' where m': "gdt_loop g gs (of_nat (length gs)) (of_nat (Suc i)) (s\<lparr>ram := m1\<rparr>) = Returns () (s\<lparr>ram := m'\<rparr>)"
    "\<forall>j. Suc i \<le> j \<and> j < length gs \<longrightarrow> desc_is m' (g + 8 * of_nat j) (gs ! j)"
    "same_outside (\<Union>j\<in>{Suc i..<length gs}. region (g + 8 * of_nat j) 8) m1 m'" by blast
  have "region (g + 8 * of_nat i) 8 \<inter> region (g + 8 * of_nat j) 8 = {}" if "j \<in> {Suc i..<length gs}" for j
    using desc_slots_apart [of i j g] assms(1) i that by simp
  then have "region (g + 8 * of_nat i) 8 \<inter> (\<Union>j\<in>{Suc i..<length gs}. region (g + 8 * of_nat j) 8) = {}"
    by blast
  then have "desc_is m' (g + 8 * of_nat i) (gs ! i)" by (rule desc_is_frame [OF m1(2) m'(3)])
  with m'(2) have "\<forall>j. i \<le> j \<and> j < length gs \<longrightarrow> desc_is m' (g + 8 * of_nat j) (gs ! j)"
    by (metis Suc_leI le_neq_implies_less)
  moreover have "same_outside (\<Union>j\<in>{i..<length gs}. region (g + 8 * of_nat j) 8) (ram s) m'"
    by (rule same_outside_trans [OF m1(3) m'(3)]) (use i in \<open>force simp del: mem_region\<close>)+
  moreover have "gdt_loop g gs (of_nat (length gs)) (of_nat i) s = Returns () (s\<lparr>ram := m'\<rparr>)"
    using m1(1) m'(1) i assms(1)
    by (subst gdt_loop.simps) (simp add: of_nat_u32_sless add.commute)
  ultimately show ?case by blast
qed

section \<open>Properties\<close>

text \<open>C36. \<open>gdt_structured_to_gdt\<close> fills the descriptor table: for a table of encodable segments it
  returns without panic and the processor reads from every entry but the first exactly the
  base, the limit and the access byte that were asked for; entry 0 and all memory outside the
  table stay as they were.  A segment limit above 64 KiB that is not one less than a multiple
  of a page is refused with a panic.\<close>
theorem gdt_structured_to_gdt_encodes:
  assumes "1 \<le> length gs" and "length gs < 268435456"
  shows "((\<forall>i<length gs. encodable (gs ! i)) \<longrightarrow>
      (\<exists>m'. gdt_structured_to_gdt g gs (of_nat (length gs)) s = Returns () (s\<lparr>ram := m'\<rparr>) \<and>
        (\<forall>j. 1 \<le> j \<and> j < length gs \<longrightarrow> desc_is m' (g + 8 * of_nat j) (gs ! j)) \<and>
        same_outside (\<Union>j\<in>{1..<length gs}. region (g + 8 * of_nat j) 8) (ram s) m')) \<and>
    (\<not> encodable src \<longrightarrow> (\<exists>s'. generate_gdt d src s = Panics s'))"
  using gdt_loop_encodes [of gs 1 g s] assms generate_gdt_panics [of src d s]
  by (auto simp: gdt_structured_to_gdt_def panic_def)

lemma kernel_segments_encodable:
  assumes "i < length (kernel_gdt_structured tss)"
  shows "encodable (kernel_gdt_structured tss ! i)"
proof -
  have "\<forall>x\<in>set (kernel_gdt_structured tss). encodable x"
    by (simp add: encodable_def kernel_gdt_structured_def)
  with assms show ?thesis by simp
qed

theorem gdt_structured_to_gdt_encodes_witness:
  "\<exists>m'. gdt_structured_to_gdt 0x500 (kernel_gdt_structured 0x9000) 6 demo_terminal =
      Returns () (demo_terminal\<lparr>ram := m'\<rparr>) \<and> desc_base m' 0x528 = 0x9000"
proof -
  have len: "length (kernel_gdt_structured 0x9000) = 6" by (simp add: kernel_gdt_structured_def)
  have n5: "kernel_gdt_structured 0x9000 ! 5 = \<lparr>base = 0x9000, limit = sizeof_tss, type = 0xE9\<rparr>"
    by (simp add: kernel_gdt_structured_def)
  have "\<forall>i<length (kernel_gdt_structured 0x9000). encodable (kernel_gdt_structured 0x9000 ! i)"
    using kernel_segments_encodable by blast
  then obtain m' where "gdt_structured_to_gdt 0x500 (kernel_gdt_structured 0x9000) 6 demo_terminal =
      Returns () (demo_terminal\<lparr>ram := m'\<rparr>)"
    "\<forall>j. 1 \<le> j \<and> j < 6 \<longrightarrow> desc_is m' (0x500 + 8 * of_nat j) (kernel_gdt_structured 0x9000 ! j)"
    using gdt_structured_to_gdt_encodes [of "kernel_gdt_structured 0x9000" "0x500" demo_terminal
        "kernel_gdt_structured 0x9000 ! 0" 0, unfolded len] unfolding len by auto
  moreover from this(2) have "desc_is m' (0x500 + 8 * of_nat 5) (kernel_gdt_structured 0x9000 ! 5)"
    by (rule allE [of _ 5]) simp
  ultimately show ?thesis using n5 by (auto simp: desc_is_def)
qed

end
