(* ===== verification/Kernel.thy ===== *)
theory Kernel
  imports Isr80h Gdt
begin

text \<open>
  \<open>kernel_main\<close> of \<^verbatim>\<open>kernel.c\<close>: the order in which the parts are started.  Each step panics, fails to
  return, or hands its state to the next; the last one leaves the kernel for the first task.
\<close>

record 'd kernel_state = "'d keyboard_state" +
  gdt :: addr
  tss :: addr
  gdtr_base :: addr
  gdtr_limit :: u16
  task_register :: u16

definition gdt_load :: "addr \<Rightarrow> u32 \<Rightarrow> ('d, 'a) kernel_state_scheme \<Rightarrow> ('d, 'a) kernel_state_scheme" where
  "gdt_load g sz s = s\<lparr>gdtr_base := g, gdtr_limit := ucast sz\<rparr>"

definition tss_load :: "u32 \<Rightarrow> ('d, 'a) kernel_state_scheme \<Rightarrow> ('d, 'a) kernel_state_scheme" where
  "tss_load segment s = s\<lparr>task_register := ucast segment\<rparr>"

text \<open>Sequencing: what follows runs only when the step returned.\<close>

fun and_then :: "('v, 's) outcome option \<Rightarrow> ('s \<Rightarrow> ('w, 's) outcome option) \<Rightarrow> ('w, 's) outcome option" where
  "and_then None f = None"
| "and_then (Some (Panics s)) f = Some (Panics s)"
| "and_then (Some (Returns _ s)) f = f s"

text \<open>The only file system structure is \<open>fat16_fs\<close>, so every call through a structure is one to FAT16.\<close>

definition kernel_file_systems :: "'d ports \<Rightarrow> addr \<Rightarrow> ('d, 'a) fs_state_scheme fileSystem" where
  "kernel_file_systems io fs = fat16_functions io"

text \<open>Up to \<open>enable_paging\<close>: segments, heap, file system, disk, interrupts, task state segment, paging.\<close>

definition boot_segments :: "('d, 'a) kernel_state_scheme \<Rightarrow> (unit, ('d, 'a) kernel_state_scheme) outcome" where
  "boot_segments s =
     (let s1 = terminal_initialize s;
          s2 = s1\<lparr>ram := memset (ram s1) (gdt s1) 0 48\<rparr>
      in case gdt_structured_to_gdt (gdt s2) (kernel_gdt_structured (tss s2)) PEACHOS_DESCRIPTOR_SEGMENTS s2 of
           Panics s3 \<Rightarrow> Panics s3
         | Returns _ s3 \<Rightarrow> Returns () (gdt_load (gdt s3) 47 s3))"

definition boot_tss :: "('d, 'a) kernel_state_scheme \<Rightarrow> ('d, 'a) kernel_state_scheme" where
  "boot_tss s =
     (let m1 = memset (ram s) (tss s) 0 sizeof_tss;
          m2 = st32 m1 (tss s + 4) 0x600000;
          m3 = st32 m2 (tss s + 8) KERNEL_DATA_SELECTOR
      in tss_load 0x28 (s\<lparr>ram := m3\<rparr>))"

definition boot_paging :: "('d, 'a) task_state_scheme \<Rightarrow> ('d, 'a) task_state_scheme" where
  "boot_paging s =
     (let (chunk, s1) = paging_new_4gb (ucast (PAGING_IS_WRITEABLE OR PAGING_IS_PRESENT OR PAGING_ACCESS_FROM_ALL)) s;
          s2 = s1\<lparr>kernel_page_chunk := chunk\<rparr>
      in enable_paging (paging_switch (kernel_page_chunk s2) s2))"

definition boot_process :: "'d ports \<Rightarrow> u32 \<Rightarrow> u32 \<Rightarrow>
    ('d, 'a) kernel_state_scheme \<Rightarrow> (user_context, ('d, 'a) kernel_state_scheme) outcome option" where
  "boot_process io frame flags s =
     (let process = kstack s + 156
      in do {
        (res, s1) \<leftarrow> process_load_switch (kernel_file_systems io) (rodata s + 2) process (s\<lparr>ram := st32 (ram s) process 0\<rparr>);
        if res \<noteq> PEACHOS_ALL_OK then Some (panic ''failed to load blank.bin \<newline>'' s1)
        else Some (task_run_first_ever_task frame flags s1)
      })"

definition kernel_main :: "'d ports \<Rightarrow> u32 \<Rightarrow> u32 \<Rightarrow>
    ('d, 'a) kernel_state_scheme \<Rightarrow> (user_context, ('d, 'a) kernel_state_scheme) outcome option" where
  "kernel_main io frame flags s =
     and_then (Some (boot_segments s)) (\<lambda>s1.
     and_then (Some (fs_init (KheapInit s1))) (\<lambda>s2.
     and_then (map_option (Returns ()) (disk_search_and_init (kernel_file_systems io) s2)) (\<lambda>s3.
     and_then (Some (isr80h_register_commands (boot_paging (boot_tss (idtInit s3))))) (\<lambda>s4.
     boot_process io frame flags (keyboard_init io s4)))))"

section \<open>Paging is transparent to the kernel\<close>

text \<open>C30. Turning paging on does not move the kernel: with a heap that has the memory for the page tables,
  \<open>boot_paging\<close> ends with paging enabled, the kernel's own directory loaded, and every address
  translated to itself with all permissions, while the memory in use keeps its contents.\<close>

theorem boot_paging_transparent:
  assumes "kheap_inv s" "1026 \<le> kheap_free s"
  shows "bit (cr0 (boot_paging s)) 31 \<and>
    cr3 (boot_paging s) = ld32 (ram (boot_paging s)) (kernel_page_chunk (boot_paging s)) \<and>
    (\<forall>va. translate (ram (boot_paging s)) (cr3 (boot_paging s)) va = Some (va, True, True) \<and>
      vload8 (boot_paging s) va = Some (ram (boot_paging s) va)) \<and>
    chunk_ok (ram (boot_paging s)) (kernel_page_chunk (boot_paging s)) \<and>
    kheap_inv (boot_paging s) \<and> kheap_free (boot_paging s) = kheap_free s - 1026 \<and>
    (\<forall>a\<in>kheap_owned s. ram (boot_paging s) a = ram s a)"
proof -
  obtain c s1 where new: "paging_new_4gb 7 s = (c, s1)" by (cases "paging_new_4gb 7 s")
  have bits: "bit (7 :: u8) 0" "bit (7 :: u8) 1" "bit (7 :: u8) 2" by simp_all
  note n = paging_new_4gb_spec [OF assms bits(1) new, unfolded bits]
  have boot: "boot_paging s = s1\<lparr>kernel_page_chunk := c, cr3 := ld32 (ram s1) c, current_directory := ld32 (ram s1) c,
      cr0 := cr0 s1 OR 0x80000000\<rparr>"
    using new by (simp add: boot_paging_def paging_switch_def paging_load_directory_def enable_paging_def)
  have top: "bit (x OR 0x80000000 :: u32) 31" for x
  proof -
    have "(0x80000000 :: u32) = push_bit 31 1" by simp
    then show ?thesis by (simp only: bit_or_iff bit_push_bit_iff) simp
  qed
  have "kheap_inv (boot_paging s) = kheap_inv s1" "kheap_free (boot_paging s) = kheap_free s1"
    by (simp_all add: boot kheap_inv_def kheap_free_def)
  with n top show ?thesis by (simp add: boot vload8_def vaddr_def)
qed

theorem boot_paging_transparent_witness:
  "kheap_free (boot_paging demo_no_tasks) = 24574 \<and>
   translate (ram (boot_paging demo_no_tasks)) (cr3 (boot_paging demo_no_tasks)) 0xB8000 = Some (0xB8000, True, True)"
proof -
  have "kheap_inv demo_no_tasks" "kheap_free demo_no_tasks = 25600"
    unfolding demo_no_tasks_def by (rule KheapInit_ready)+
  with boot_paging_transparent [of demo_no_tasks] show ?thesis by auto
qed

end
