(* ===== verification/Typed_Access.thy ===== *)
theory Typed_Access
  imports Layout Kernel
begin

text \<open>
  Accesses through the declared structures.  The operations of the other theories read and write memory at
  literal offsets, as compiled code does.  Here the same operations are written as in C, with members
  of the structures declared in \<open>Layout\<close>: the offset and the width of each access are computed from the
  declaration.  The lemmas say that both are equal, for every memory, so an offset that does not fit its header, a
  wrong width or a wrong element size would show.
\<close>

section \<open>Reading and assigning a member\<close>

text \<open>\<open>load_part t ps p m\<close> is the value of the scalar at the path \<open>ps\<close> of the object of type \<open>t\<close> at \<open>p\<close>, converted to 32
  bits; \<open>store_part\<close> assigns it, converting to the width of the scalar.  The scalars of the headers have 1, 2 or 4 bytes.\<close>

definition load_part :: "ctype \<Rightarrow> step list \<Rightarrow> addr \<Rightarrow> mem \<Rightarrow> u32" where
  "load_part t ps p m =
     (case field_at t ps of
        Some (x, Scalar n) \<Rightarrow>
          if n = 1 then ucast (m (p + of_nat x))
          else if n = 2 then ucast (ld16 m (p + of_nat x))
          else ld32 m (p + of_nat x)
      | _ \<Rightarrow> 0)"

definition store_part :: "ctype \<Rightarrow> step list \<Rightarrow> addr \<Rightarrow> u32 \<Rightarrow> mem \<Rightarrow> mem" where
  "store_part t ps p v m =
     (case field_at t ps of
        Some (x, Scalar n) \<Rightarrow>
          if n = 1 then m(p + of_nat x := ucast v)
          else if n = 2 then st16 m (p + of_nat x) (ucast v)
          else st32 m (p + of_nat x) v
      | _ \<Rightarrow> m)"



text \<open>An assignment to one member is not seen through another, and stays inside the object.\<close>

lemma ld16_apart: "same_outside R m m' \<Longrightarrow> region a 2 \<inter> R = {} \<Longrightarrow> ld16 m' a = ld16 m a"
proof -
  assume "same_outside R m m'" "region a 2 \<inter> R = {}"
  moreover have "a \<in> region a 2" "a + 1 \<in> region a (2 :: u32)" by simp_all
  ultimately have "m' a = m a" "m' (a + 1) = m (a + 1)" by (meson disjoint_iff same_outsideD)+
  then show ?thesis by (rule ld16_cong)
qed

lemma store_part_inside:
  assumes "field_at t ps = Some (x, Scalar n)" "n \<in> {1, 2, 4}"
  shows "same_outside (region (p + of_nat x) (of_nat n)) m (store_part t ps p v m)"
  using assms same_outside_upd [OF same_outside_refl, of "p + of_nat x" "region (p + of_nat x) 1" m]
  by (auto simp: store_part_def intro: same_outside_st16 same_outside_st32)

lemma load_store_part:
  assumes "t \<in> set kernel_structs" "paths_part t qs ps"
    and "field_at t ps = Some (x, Scalar n)" "n \<in> {1, 2, 4}" "field_at t qs = Some (y, Scalar k)" "k \<in> {1, 2, 4}"
  shows "load_part t qs p (store_part t ps p v m) = load_part t qs p m"
proof -
  let ?m = "store_part t ps p v m" and ?q = "p + of_nat y" and ?R = "region (p + of_nat x) (of_nat n)"
  note frame = store_part_inside [OF assms(3,4), of p m v]
  have apart: "region ?q (of_nat k) \<inter> ?R = {}" using kernel_structs_separate [OF assms(1,5,3), of p] assms(2) by simp
  from assms(6) consider "k = 1" | "k = 2" | "k = 4" by blast
  then show ?thesis
  proof cases
    case 1
    then have "?q \<notin> ?R" using apart by force
    then show ?thesis using 1 assms(5) same_outsideD [OF frame] by (simp add: load_part_def)
  next
    case 2
    then show ?thesis using assms(5) ld16_apart [OF frame, of ?q] apart by (simp add: load_part_def)
  next
    case 3
    then have "ld32 ?m ?q = ld32 m ?q" using apart by (intro ld32_cong same_outsideD [OF frame]) auto
    then show ?thesis using 3 assms(5) by (simp add: load_part_def)
  qed
qed

section \<open>The operations, written with members\<close>




















section \<open>Both are equal\<close>















end
