(* ===== verification/User_String.thy ===== *)
theory User_String
  imports Isr80h
begin

text \<open>
  Strings of a task in the hands of the kernel: what \<open>copy_string_from_task\<close> of \<^verbatim>\<open>task/task.c\<close> copies
  through the page directory of the task, what it leaves behind in that directory, and the system
  call 1 that prints such a string.
\<close>

section \<open>Copying while a task's page directory is loaded\<close>

text \<open>\<open>stored m d ys\<close>: the bytes \<open>ys\<close> have been written at \<open>d\<close>.\<close>

definition stored :: "mem \<Rightarrow> addr \<Rightarrow> u8 list \<Rightarrow> mem" where
  "stored m d ys = (\<lambda>a. if unat (a - d) < length ys then ys ! unat (a - d) else m a)"

lemma stored_Nil [simp]: "stored m d [] = m"
  by (simp add: stored_def)

lemma stored_snoc:
  assumes "length ys < 4294967296"
  shows "(stored m d ys)(d + of_nat (length ys) := y) = stored m d (ys @ [y])"
proof
  fix a
  have "a = d + of_nat (length ys) \<longleftrightarrow> a - d = of_nat (length ys)" by (auto simp: algebra_simps)
  also have "\<dots> \<longleftrightarrow> unat (a - d) = length ys" using assms by (auto simp: word_unat_eq_iff)
  finally show "((stored m d ys)(d + of_nat (length ys) := y)) a = stored m d (ys @ [y]) a"
    by (auto simp: stored_def nth_append)
qed

lemma stored_frame:
  assumes "length ys \<le> n" "n < 4294967296"
  shows "same_outside (region d (of_nat n)) m (stored m d ys)"
  using assms by (auto simp: same_outside_def stored_def word_less_nat_alt)

lemma stored_cstr:
  assumes "0 \<notin> set xs" "length xs < 4294967295"
  shows "cstr (stored m d (xs @ [0])) d xs"
  using assms by (auto simp: cstr_iff stored_def nth_append)

text \<open>The string at a virtual address as the task sees it: its bytes and its terminator, each on a
  mapped page and in the memory \<open>A\<close>.\<close>

definition user_string :: "mem \<Rightarrow> addr \<Rightarrow> addr set \<Rightarrow> addr \<Rightarrow> u8 list \<Rightarrow> bool" where
  "user_string m dir A va xs \<longleftrightarrow> 0 \<notin> set xs \<and>
     (\<forall>i\<le>length xs. \<exists>pa q. translate m dir (va + of_nat i) = Some (pa, q) \<and> pa \<in> A \<and> m pa = (xs @ [0]) ! i)"

lemma user_stringD:
  assumes "user_string m dir A va xs" "i \<le> length xs"
  obtains pa q where "translate m dir (va + of_nat i) = Some (pa, q)" "pa \<in> A" "m pa = (xs @ [0]) ! i"
  using assms unfolding user_string_def by blast

lemma user_string_cong:
  assumes "user_string m dir A va xs"
    and "\<And>i. i \<le> length xs \<Longrightarrow> translate m' dir (va + of_nat i) = translate m dir (va + of_nat i)"
    and "\<And>a. a \<in> A \<Longrightarrow> m' a = m a"
  shows "user_string m' dir A va xs"
  using assms unfolding user_string_def by metis

lemma vstrncpy_loop_spec:
  fixes s :: "('d, 'a) task_state_scheme"
  assumes paging: "bit (cr0 s) 31" and n: "0 < n" "n < 2147483648"
    and tr: "\<And>m va. same_outside (region d (of_nat n)) (ram s) m \<Longrightarrow> translate m (cr3 s) va = translate (ram s) (cr3 s) va"
    and dst: "\<And>i. i < n \<Longrightarrow> \<exists>q. translate (ram s) (cr3 s) (d + of_nat i) = Some (d + of_nat i, q)"
    and src: "user_string (ram s) (cr3 s) A v xs" "A \<inter> region d (of_nat n) = {}"
    and i: "i \<le> min (length xs) (n - 1)"
  shows "vstrncpy_loop d v (of_nat n) (of_nat i) (s\<lparr>ram := stored (ram s) d (take i xs)\<rparr>) =
    Some (of_nat (min (length xs) (n - 1)), s\<lparr>ram := stored (ram s) d (take (min (length xs) (n - 1)) xs)\<rparr>)"
  using i
proof (induction "min (length xs) (n - 1) - i" arbitrary: i)
  case 0
  then have i: "i = min (length xs) (n - 1)" by linarith
  let ?m = "stored (ram s) d (take i xs)"
  show ?case
  proof (cases "i < n - 1")
    case True
    then have len: "i = length xs" using i by linarith
    obtain pa q where pa: "translate (ram s) (cr3 s) (v + of_nat i) = Some (pa, q)" "pa \<in> A" "ram s pa = 0"
      by (rule user_stringD [OF src(1), of i]) (simp_all add: len)
    have fr: "same_outside (region d (of_nat n)) (ram s) ?m" using n i by (intro stored_frame) auto
    then have "?m pa = 0" using pa src(2) same_outsideD [OF fr, of pa] by (auto simp del: mem_region)
    then have "vload8 (s\<lparr>ram := ?m\<rparr>) (v + of_nat i) = Some 0"
      using paging tr [OF fr] pa(1) by (simp add: vload8_def vaddr_def)
    then show ?thesis using i by (subst vstrncpy_loop.simps) simp
  next
    case False
    with i have "i = n - 1" by linarith
    with n have "(of_nat i :: u32) = of_nat n - 1" by (simp add: of_nat_diff)
    then have "\<not> (of_nat i <s (of_nat n - 1 :: u32))" by (simp add: word_sless_alt)
    with i show ?thesis by (subst vstrncpy_loop.simps) simp
  qed
next
  case (Suc k)
  then have i: "i < length xs" "i < n - 1" by simp_all
  let ?m = "stored (ram s) d (take i xs)"
  have less: "of_nat i <s (of_nat (n - 1) :: u32)" by (rule of_nat_u32_sless) (use i n in auto)
  have n1: "(of_nat n :: u32) - 1 = of_nat (n - 1)" using n by (simp add: of_nat_diff)
  have fr: "same_outside (region d (of_nat n)) (ram s) ?m" using n i by (intro stored_frame) auto
  obtain pa q where pa: "translate (ram s) (cr3 s) (v + of_nat i) = Some (pa, q)" "pa \<in> A" "ram s pa = xs ! i"
    by (rule user_stringD [OF src(1), of i]) (use i in \<open>simp_all add: nth_append\<close>)
  have "?m pa = xs ! i" using pa src(2) same_outsideD [OF fr, of pa] by (auto simp del: mem_region)
  then have ld: "vload8 (s\<lparr>ram := ?m\<rparr>) (v + of_nat i) = Some (xs ! i)"
    using paging tr [OF fr] pa(1) by (simp add: vload8_def vaddr_def)
  have "i < n" using i by linarith
  then obtain r where "translate ?m (cr3 s) (d + of_nat i) = Some (d + of_nat i, r)"
    using tr [OF fr] dst [of i] by (metis)
  moreover have "?m(d + of_nat i := xs ! i) = stored (ram s) d (take (Suc i) xs)"
    using stored_snoc [of "take i xs" "ram s" d "xs ! i"] i n by (simp add: take_Suc_conv_app_nth)
  ultimately have st: "vstore8 (d + of_nat i) (xs ! i) (s\<lparr>ram := ?m\<rparr>) = Some (s\<lparr>ram := stored (ram s) d (take (Suc i) xs)\<rparr>)"
    using paging by (simp add: vstore8_def vaddr_def)
  have "xs ! i \<noteq> 0" using src(1) nth_mem [OF i(1)] by (metis user_string_def)
  moreover have "vstrncpy_loop d v (of_nat n) (of_nat (Suc i)) (s\<lparr>ram := stored (ram s) d (take (Suc i) xs)\<rparr>) =
    Some (of_nat (min (length xs) (n - 1)), s\<lparr>ram := stored (ram s) d (take (min (length xs) (n - 1)) xs)\<rparr>)"
    by (rule Suc.hyps(1)) (use Suc.hyps(2) i in auto)
  ultimately show ?case using less [folded n1]
    by (subst vstrncpy_loop.simps) (simp add: ld st add.commute)
qed

lemma vstrncpy_spec:
  fixes s :: "('d, 'a) task_state_scheme"
  assumes paging: "bit (cr0 s) 31" and n: "0 < n" "n < 2147483648"
    and tr: "\<And>m va. same_outside (region d (of_nat n)) (ram s) m \<Longrightarrow> translate m (cr3 s) va = translate (ram s) (cr3 s) va"
    and dst: "\<And>i. i < n \<Longrightarrow> \<exists>q. translate (ram s) (cr3 s) (d + of_nat i) = Some (d + of_nat i, q)"
    and src: "user_string (ram s) (cr3 s) A v xs" "A \<inter> region d (of_nat n) = {}"
  shows "vstrncpy d v (of_nat n) s = Some (s\<lparr>ram := stored (ram s) d (take (n - 1) xs @ [0])\<rparr>)"
proof -
  define k where "k = min (length xs) (n - 1)"
  have k: "k < n" "take k xs = take (n - 1) xs" "length (take k xs) = k" using n(1) by (auto simp: k_def min_def)
  let ?m = "stored (ram s) d (take k xs)"
  have "vstrncpy_loop d v (of_nat n) 0 s = Some (of_nat k, s\<lparr>ram := ?m\<rparr>)"
    using vstrncpy_loop_spec [OF assms, of 0] by (simp add: k_def)
  moreover have fr: "same_outside (region d (of_nat n)) (ram s) ?m" using n k by (intro stored_frame) auto
  obtain r where "translate ?m (cr3 s) (d + of_nat k) = Some (d + of_nat k, r)"
    using tr [OF fr] dst [OF k(1)] by auto
  then have "vstore8 (d + of_nat k) 0 (s\<lparr>ram := ?m\<rparr>) = Some (s\<lparr>ram := ?m(d + of_nat k := 0)\<rparr>)"
    using paging by (simp add: vstore8_def vaddr_def)
  moreover have "?m(d + of_nat k := 0) = stored (ram s) d (take (n - 1) xs @ [0])"
    using stored_snoc [of "take k xs" "ram s" d 0] k n by simp
  ultimately show ?thesis by (simp add: vstrncpy_def)
qed

section \<open>copy_string_from_task\<close>

text \<open>What the kernel needs of a task to work on its memory: a well-formed address space, in memory the
  allocator does not use, apart from the structure of the task.\<close>

definition task_space :: "('d, 'a) task_state_scheme \<Rightarrow> addr \<Rightarrow> addr \<Rightarrow> bool" where
  "task_space s task c \<longleftrightarrow> ld32 (ram s) task = c \<and> chunk_ok (ram s) c \<and> vspace_pages (ram s) c \<subseteq> kheap_owned s \<and>
     region task 64 \<subseteq> kheap_owned s - vspace_pages (ram s) c"

lemma kFree_ram:
  fixes s :: "('d, 'a) task_state_scheme"
  shows "kFree p (kernel_page s\<lparr>ram := m\<rparr>) = kernel_page s\<lparr>ram := ram (kFree p (s\<lparr>ram := m\<rparr>))\<rparr>"
  by (simp add: kFree_def kernel_page_def kernel_registers_def paging_switch_def paging_load_directory_def)

lemma entry_in_tables: "region (pt m dir (pdi va) + 4 * pti va) 4 \<subseteq> tables m dir"
  unfolding tables_def using page_word_subset [OF pt_aligned pti_bound] pdi_bound by (fastforce simp del: mem_region)

lemma table_in_space: "region (pt m (ld32 m c) (pdi va)) 4096 \<subseteq> vspace_pages m c"
  unfolding vspace_pages_def tables_def using pdi_bound [of va] by (intro le_supI2) blast

text \<open>The temporary page is mapped to itself while the string is copied.\<close>

lemma tmp_mapped:
  assumes "chunk_ok m c" "page_aligned tmp" "region tmp 4096 \<inter> vspace_pages m c = {}"
  defines "e \<equiv> pt m (ld32 m c) (pdi tmp) + 4 * pti tmp"
  defines "m2 \<equiv> st32 m e (tmp OR 7)"
  shows "paging_map c tmp tmp 7 m = (0, m2)" "ld32 m2 c = ld32 m c" "chunk_ok m2 c" "vspace_pages m2 c = vspace_pages m c"
    "i < 1024 \<Longrightarrow> pt m2 (ld32 m c) i = pt m (ld32 m c) i"
    "translate m2 (ld32 m c) va = (if va - tmp < 4096 then Some (va, perms (pde m (ld32 m c) (pdi va)) 7) else translate m (ld32 m c) va)"
    "region e 4 \<subseteq> tables m (ld32 m c)"
proof -
  show run: "paging_map c tmp tmp 7 m = (0, m2)"
    using assms(2) by (simp add: paging_map_eq m2_def e_def)
  have mp: "mapped c tmp tmp 1 7 m m2"
    using mapped_1 [OF assms(1,2,2), of 7] run by simp
  have "unat x < 4096 \<longleftrightarrow> x < 4096" for x :: u32 by (simp add: word_less_nat_alt)
  then show "ld32 m2 c = ld32 m c" "chunk_ok m2 c" "vspace_pages m2 c = vspace_pages m c"
    "i < 1024 \<Longrightarrow> pt m2 (ld32 m c) i = pt m (ld32 m c) i"
    "translate m2 (ld32 m c) va = (if va - tmp < 4096 then Some (va, perms (pde m (ld32 m c) (pdi va)) 7) else translate m (ld32 m c) va)"
    using mp by (simp_all add: mapped_def vspace_pages_def pt_def)
  show "region e 4 \<subseteq> tables m (ld32 m c)"
    unfolding e_def by (rule entry_in_tables)
qed

lemma copied_to_tmp:
  fixes s :: "('d, 'a) task_state_scheme"
  assumes c: "chunk_ok m c" "page_aligned tmp" "region tmp 4096 \<inter> vspace_pages m c = {}"
    and s: "bit (cr0 s) 31" "cr3 s = ld32 m c" "ram s = st32 m (pt m (ld32 m c) (pdi tmp) + 4 * pti tmp) (tmp OR 7)"
    and str: "user_string m (ld32 m c) A v xs" "A \<inter> (vspace_pages m c \<union> region tmp 4096) = {}"
      "\<And>i. i \<le> length xs \<Longrightarrow> v + of_nat i \<notin> region tmp 4096"
    and n: "0 < n" "n \<le> 4096"
  shows "vstrncpy tmp v (of_nat n) s = Some (s\<lparr>ram := stored (ram s) tmp (take (n - 1) xs @ [0])\<rparr>)"
proof (rule vstrncpy_spec [OF s(1) n(1)])
  note t = tmp_mapped [OF c, folded s(3)]
  have sub: "region tmp (of_nat n) \<subseteq> region tmp 4096"
    using field_subset [of 0 "of_nat n" 4096 tmp] n by simp
  show "n < 2147483648" using n by simp
  show "translate m' (cr3 s) va = translate (ram s) (cr3 s) va" if "same_outside (region tmp (of_nat n)) (ram s) m'" for m' va
  proof -
    have "m' a = ram s a" if "a \<in> vspace_pages (ram s) c" for a
      using that sub c(3) same_outsideD [OF \<open>same_outside _ (ram s) m'\<close>, of a] unfolding t(4) by blast
    from vspace_kept(3) [OF t(3) this] show ?thesis by (simp add: s(2) t(2))
  qed
  show "\<exists>q. translate (ram s) (cr3 s) (tmp + of_nat i) = Some (tmp + of_nat i, q)" if "i < n" for i
    using that n unfolding s(2) t(6) by (simp add: word_less_nat_alt)
  have "translate (ram s) (ld32 m c) (v + of_nat i) = translate m (ld32 m c) (v + of_nat i)" if "i \<le> length xs" for i
    using str(3) [OF that] unfolding t(6) by simp
  moreover have "ram s a = m a" if "a \<in> A" for a
  proof -
    have "a \<notin> tables m (ld32 m c)" using that str(2) by (auto simp: vspace_pages_def simp del: mem_region)
    then have "a \<notin> region (pt m (ld32 m c) (pdi tmp) + 4 * pti tmp) 4" using t(7) by blast
    then show ?thesis unfolding s(3) by (rule same_outsideD [OF same_outside_st32])
  qed
  ultimately show "user_string (ram s) (cr3 s) A v xs" unfolding s(2) by (rule user_string_cong [OF str(1)])
  show "A \<inter> region tmp (of_nat n) = {}" using str(2) sub by blast
qed

text \<open>A temporary page, and the address space seen with it.\<close>

lemma copy_alloc:
  fixes s :: "('d, 'a) task_state_scheme"
  assumes "kheap_inv s" "0 < kheap_free s" and n: "0 < n" "n \<le> 4096"
  obtains tmp m1 where "kZalloc (of_nat n) s = (tmp, s\<lparr>ram := m1\<rparr>)" "tmp \<noteq> 0" "page_aligned tmp"
    "region tmp 4096 \<inter> kheap_owned s = {}" "\<forall>a\<in>kheap_owned s. m1 a = ram s a"
    "\<forall>m D. same_outside (region tmp 4096 \<union> D) m1 m \<longrightarrow> D \<subseteq> kheap_owned s \<longrightarrow> kp.grows s (s\<lparr>ram := m\<rparr>) [tmp] D"
proof -
  have sz: "0 < (of_nat n :: u32)" "(of_nat n :: u32) \<le> 4096" using n by (simp_all add: word_le_nat_alt word_less_nat_alt)
  note a = assms(1) sz assms(2)
  show thesis
  proof (rule that)
    show "kZalloc (of_nat n) s = (fst (kZalloc (of_nat n) s), s\<lparr>ram := ram (snd (kZalloc (of_nat n) s))\<rparr>)"
      using kz.alloc_only_mem [of "of_nat n" s] by (simp add: prod_eq_iff)
  qed (use kz.alloc_laws [OF a] kz.alloc_keeps [OF a] kp.grows_alloc [OF a] in blast)+
qed

lemma space_kept:
  fixes s :: "('d, 'a) task_state_scheme"
  assumes "task_space s task c" "\<forall>a\<in>kheap_owned s. m a = ram s a"
  shows "ld32 m task = c" "ld32 m c = ld32 (ram s) c" "chunk_ok m c" "vspace_pages m c = vspace_pages (ram s) c"
    "i < 1024 \<Longrightarrow> pt m (ld32 (ram s) c) i = pt (ram s) (ld32 (ram s) c) i"
    "translate m (ld32 (ram s) c) va = translate (ram s) (ld32 (ram s) c) va"
    "page_aligned va \<Longrightarrow> paging_get (ld32 (ram s) c) va m = ld32 (ram s) (pt (ram s) (ld32 (ram s) c) (pdi va))"
proof -
  have t: "ld32 (ram s) task = c" "chunk_ok (ram s) c" "vspace_pages (ram s) c \<subseteq> kheap_owned s"
    "region task 64 \<subseteq> kheap_owned s - vspace_pages (ram s) c" using assms(1) by (simp_all add: task_space_def)
  have "m a = ram s a" if "a \<in> vspace_pages (ram s) c" for a using that t(3) assms(2) by blast
  note v = vspace_kept [OF t(2) this, simplified]
  show "ld32 m c = ld32 (ram s) c" "chunk_ok m c" "vspace_pages m c = vspace_pages (ram s) c"
    "i < 1024 \<Longrightarrow> pt m (ld32 (ram s) c) i = pt (ram s) (ld32 (ram s) c) i"
    "translate m (ld32 (ram s) c) va = translate (ram s) (ld32 (ram s) c) va" using v by simp_all
  have word: "ld32 m a = ld32 (ram s) a" if "region a 4 \<subseteq> kheap_owned s" for a
    using that assms(2) by (intro ld32_cong) blast
  have "region task 4 \<subseteq> region task 64" using field_subset [of 0 4 64 task] by simp
  then show "ld32 m task = c" using t(1,4) word by blast
  have "region (pt (ram s) (ld32 (ram s) c) (pdi va) + 4 * 0) 4 \<subseteq> region (pt (ram s) (ld32 (ram s) c) (pdi va)) 4096"
    by (rule page_word_subset) simp_all
  also have "\<dots> \<subseteq> kheap_owned s" using order_trans [OF table_in_space t(3)] .
  finally show "paging_get (ld32 (ram s) c) va m = ld32 (ram s) (pt (ram s) (ld32 (ram s) c) (pdi va))" if "page_aligned va"
    using that v(5) word by (simp add: paging_get_reads_entry_0)
qed

text \<open>From the temporary page, just allocated, to the page with the string and the kernel's directory loaded.\<close>

lemma copy_mapped:
  fixes s :: "('d, 'a) task_state_scheme" and old :: addr
  assumes paging: "bit (cr0 s) 31" and task: "task_space s task c" and keep: "\<forall>a\<in>kheap_owned s. m1 a = ram s a"
    and tmp: "page_aligned tmp" "region tmp 4096 \<inter> kheap_owned s = {}"
    and str: "user_string (ram s) (ld32 (ram s) c) (kheap_owned s - vspace_pages (ram s) c) v xs"
      "\<And>i. i \<le> length xs \<Longrightarrow> v + of_nat i \<in> kheap_owned s"
    and n: "0 < n" "n \<le> 4096"
    and kp: "region (kernel_page_chunk s) 4 \<subseteq> kheap_owned s - vspace_pages (ram s) c"
  defines "e \<equiv> pt (ram s) (ld32 (ram s) c) (pdi tmp) + 4 * pti tmp"
  defines "m2 \<equiv> st32 m1 e (tmp OR 7)"
  defines "m3 \<equiv> stored m2 tmp (take (n - 1) xs @ [0])"
  shows "paging_map c tmp tmp 7 m1 = (0, m2)" "ld32 m2 task = c" "region e 4 \<subseteq> vspace_pages (ram s) c"
    "vstrncpy tmp v (of_nat n) (paging_switch c (s\<lparr>ram := m2\<rparr>)) = Some (paging_switch c (s\<lparr>ram := m2\<rparr>)\<lparr>ram := m3\<rparr>)"
    "kernel_page (paging_switch c (s\<lparr>ram := m2\<rparr>)\<lparr>ram := m3\<rparr>) = kernel_page s\<lparr>ram := m3\<rparr>"
    "paging_set (ld32 (ram s) c) tmp old m3 = (0, st32 m3 e old)"
    "cstr m3 tmp (take (n - 1) xs)" "same_outside (region tmp 4096 \<union> region e 4) m1 m3"
proof -
  have own: "vspace_pages (ram s) c \<subseteq> kheap_owned s" "region task 64 \<subseteq> kheap_owned s - vspace_pages (ram s) c"
    using task by (simp_all add: task_space_def)
  note v1 = space_kept [OF task keep]
  have fresh: "region tmp 4096 \<inter> vspace_pages m1 c = {}" using tmp(2) own(1) v1(4) by blast
  have e: "pt m1 (ld32 m1 c) (pdi tmp) + 4 * pti tmp = e" using v1(2,5) by (simp add: e_def)
  note tm = tmp_mapped [OF v1(3) tmp(1) fresh, unfolded e, folded m2_def]
  show "paging_map c tmp tmp 7 m1 = (0, m2)" by (rule tm(1))
  show e4: "region e 4 \<subseteq> vspace_pages (ram s) c" using tm(7) v1(4) by (auto simp: vspace_pages_def simp del: mem_region)
  define s2 where "s2 = paging_switch c (s\<lparr>ram := m2\<rparr>)"
  have s2: "ram s2 = m2" "cr3 s2 = ld32 m1 c" "cr0 s2 = cr0 s"
    using tm(2) by (simp_all add: s2_def paging_switch_def paging_load_directory_def)
  have tmpn: "region tmp (of_nat n) \<subseteq> region tmp 4096" using field_subset [of 0 "of_nat n" 4096 tmp] n by simp
  have fr2: "same_outside (region e 4) m1 m2" unfolding m2_def by (rule same_outside_st32)
  have fr3: "same_outside (region tmp (of_nat n)) m2 m3" unfolding m3_def using n by (intro stored_frame) auto
  show out: "same_outside (region tmp 4096 \<union> region e 4) m1 m3"
    using fr2 same_outside_mono [OF fr3 tmpn] by (auto simp: same_outside_def simp del: mem_region)
  have word: "ld32 m a = ld32 (ram s) a"
    if "same_outside (region tmp 4096 \<union> region e 4) m1 m" "region a 4 \<subseteq> kheap_owned s - vspace_pages (ram s) c" for m a
  proof -
    have "region a 4 \<inter> region tmp 4096 = {}" "region a 4 \<inter> region e 4 = {}" "region a 4 \<subseteq> kheap_owned s"
      using that(2) tmp(2) e4 by blast+
    then have "b \<notin> region tmp 4096 \<union> region e 4" "b \<in> kheap_owned s" if "b \<in> region a 4" for b
      using that by blast+
    then show ?thesis using keep same_outsideD [OF that(1)] by (intro ld32_cong) metis
  qed
  have "region task 4 \<subseteq> region task 64" using field_subset [of 0 4 64 task] by simp
  then have "ld32 m2 task = ld32 (ram s) task" using own(2) fr2 by (intro word) (auto simp: same_outside_def simp del: mem_region)
  then show "ld32 m2 task = c" using task by (simp add: task_space_def)
  show "kernel_page (paging_switch c (s\<lparr>ram := m2\<rparr>)\<lparr>ram := m3\<rparr>) = kernel_page s\<lparr>ram := m3\<rparr>"
    using word [OF out kp] by (simp add: kernel_page_def kernel_registers_def paging_switch_def paging_load_directory_def)
  have "vstrncpy tmp v (of_nat n) s2 = Some (s2\<lparr>ram := stored (ram s2) tmp (take (n - 1) xs @ [0])\<rparr>)"
  proof (rule copied_to_tmp [OF v1(3) tmp(1) fresh _ s2(2) _ _ _ _ n])
    show "bit (cr0 s2) 31" using paging s2(3) by simp
    show "ram s2 = st32 m1 (pt m1 (ld32 m1 c) (pdi tmp) + 4 * pti tmp) (tmp OR 7)" unfolding e by (simp add: s2 m2_def)
    show "user_string m1 (ld32 m1 c) (kheap_owned s - vspace_pages (ram s) c) v xs"
      using v1(6) keep by (simp only: v1(2)) (intro user_string_cong [OF str(1)]; blast)
    show "(kheap_owned s - vspace_pages (ram s) c) \<inter> (vspace_pages m1 c \<union> region tmp 4096) = {}" using v1(4) tmp(2) by blast
    show "v + of_nat i \<notin> region tmp 4096" if "i \<le> length xs" for i using str(2) [OF that] tmp(2) by blast
  qed
  then show "vstrncpy tmp v (of_nat n) (paging_switch c (s\<lparr>ram := m2\<rparr>)) = Some (paging_switch c (s\<lparr>ram := m2\<rparr>)\<lparr>ram := m3\<rparr>)"
    unfolding s2(1) unfolding s2_def m3_def .
  have "m3 a = m2 a" if "a \<in> vspace_pages m2 c" for a
    using that tm(4) fresh tmpn by (intro same_outsideD [OF fr3]) blast
  note v3 = vspace_kept [OF tm(3) this, simplified]
  have "pt m3 (ld32 (ram s) c) (pdi tmp) = pt (ram s) (ld32 (ram s) c) (pdi tmp)" using v3(5) tm(2,5) v1(2,5) by simp
  then show "paging_set (ld32 (ram s) c) tmp old m3 = (0, st32 m3 e old)"
    using tmp(1) by (simp add: paging_set_eq e_def)
  show "cstr m3 tmp (take (n - 1) xs)"
    unfolding m3_def using str(1) n by (intro stored_cstr) (auto simp: user_string_def dest: in_set_takeD)
qed

text \<open>From the page with the string to the buffer of the kernel, and the release of the page.\<close>

lemma copy_finish:
  fixes s :: "('d, 'a) task_state_scheme"
  assumes g: "kp.grows s (s\<lparr>ram := m\<rparr>) [tmp] D" and str: "cstr m tmp (take (n - 1) xs)" and n: "0 < n" "n \<le> 4096"
    and phy: "region phy (of_nat n) \<subseteq> kheap_owned s"
  defines "m' \<equiv> ram (kFree tmp (s\<lparr>ram := strncpy m phy tmp (of_nat n)\<rparr>))"
  shows "kp.grows s (s\<lparr>ram := m'\<rparr>) [] (D \<union> region phy (of_nat n))" "cstr m' phy (take (n - 1) xs)"
    "\<And>a. a \<in> kheap_owned s - region phy (of_nat n) \<Longrightarrow> m' a = m a"
proof -
  define m5 where "m5 = strncpy m phy tmp (of_nat n)"
  have tmpn: "region tmp (of_nat n) \<subseteq> region tmp 4096" using field_subset [of 0 "of_nat n" 4096 tmp] n by simp
  have h: "kheap_inv (s\<lparr>ram := m\<rparr>)" "kheap_owned (s\<lparr>ram := m\<rparr>) = kheap_owned s \<union> region tmp 4096"
    "region tmp 4096 \<inter> kheap_owned s = {}"
    using g by (auto simp: kp.grows_def simp del: mem_region)
  have n31: "n < 2147483648" using n by simp
  have apart: "region phy (of_nat n) \<inter> region tmp (of_nat n) = {}" using phy tmpn h(3) by blast
  note st = strncpy_terminated [OF str n(1) n31 apart, folded m5_def, unfolded take_take min.idem]
  have "kp.grows (s\<lparr>ram := m\<rparr>) (s\<lparr>ram := m5\<rparr>) [] (region phy (of_nat n))"
    using kp.grows_write [OF h(1), of "region phy (of_nat n)" m5] st(2) h(2) phy by auto
  from kp.grows_trans [OF g this]
  have g5: "kp.grows s (s\<lparr>ram := m5\<rparr>) [tmp] (D \<union> region phy (of_nat n))" by simp
  show "kp.grows s (s\<lparr>ram := m'\<rparr>) [] (D \<union> region phy (of_nat n))"
    using kp.grows_release [OF g5] kp.release_only_mem [of tmp "s\<lparr>ram := m5\<rparr>"] by (simp add: m'_def m5_def)
  have same: "m' a = m5 a" if "a \<in> kheap_owned s" for a
  proof -
    have "kheap_inv (s\<lparr>ram := m5\<rparr>)" "kheap_page (s\<lparr>ram := m5\<rparr>) tmp" "a \<in> kheap_owned (s\<lparr>ram := m5\<rparr>)"
      using g5 that by (auto simp: kp.grows_def simp del: mem_region)
    from kp.release_keeps [OF this] show ?thesis by (simp add: m'_def m5_def)
  qed
  show "m' a = m a" if "a \<in> kheap_owned s - region phy (of_nat n)" for a
    using that same [of a] same_outsideD [OF st(2), of a] by auto
  show "cstr m' phy (take (n - 1) xs)"
  proof (rule cstr_frame [OF st(1)])
    show "same_outside (- kheap_owned s) m5 m'" using same by (simp add: same_outside_def)
    fix i assume "i \<le> length (take (n - 1) xs)"
    then have "i < n" using n by auto
    then have "phy + of_nat i \<in> region phy (of_nat n)" using n by (simp add: word_less_nat_alt)
    then show "phy + of_nat i \<notin> - kheap_owned s" using phy by blast
  qed
qed

text \<open>The entry of the temporary page is not restored: what is written back is entry 0 of its table.\<close>

lemma copy_string_spec:
  fixes s :: "('d, 'a) task_state_scheme"
  assumes heap: "kheap_inv s" "0 < kheap_free s" and paging: "bit (cr0 s) 31" and task: "task_space s task c"
    and str: "user_string (ram s) (ld32 (ram s) c) (kheap_owned s - vspace_pages (ram s) c) v xs"
      "\<And>i. i \<le> length xs \<Longrightarrow> v + of_nat i \<in> kheap_owned s"
    and n: "0 < n" "n \<le> 4096"
    and phy: "region phy (of_nat n) \<subseteq> kheap_owned s - vspace_pages (ram s) c"
    and kp: "region (kernel_page_chunk s) 4 \<subseteq> kheap_owned s - vspace_pages (ram s) c"
  obtains tmp m' where "copy_string_from_task task v phy (of_nat n) s = Some (0, kernel_page s\<lparr>ram := m'\<rparr>)"
    "cstr m' phy (take (n - 1) xs)" "page_aligned tmp" "region tmp 4096 \<inter> kheap_owned s = {}"
    "kp.grows s (s\<lparr>ram := m'\<rparr>) [] (region (pt (ram s) (ld32 (ram s) c) (pdi tmp) + 4 * pti tmp) 4 \<union> region phy (of_nat n))"
    "ld32 m' (pt (ram s) (ld32 (ram s) c) (pdi tmp) + 4 * pti tmp) = ld32 (ram s) (pt (ram s) (ld32 (ram s) c) (pdi tmp))"
proof -
  obtain tmp m1 where alloc: "kZalloc (of_nat n) s = (tmp, s\<lparr>ram := m1\<rparr>)" "tmp \<noteq> 0" "page_aligned tmp"
    "region tmp 4096 \<inter> kheap_owned s = {}" "\<forall>a\<in>kheap_owned s. m1 a = ram s a"
    and grows: "\<forall>m D. same_outside (region tmp 4096 \<union> D) m1 m \<longrightarrow> D \<subseteq> kheap_owned s \<longrightarrow> kp.grows s (s\<lparr>ram := m\<rparr>) [tmp] D"
    by (rule copy_alloc [OF heap n])
  define dir where "dir = ld32 (ram s) c"
  define e where "e = pt (ram s) dir (pdi tmp) + 4 * pti tmp"
  define old where "old = ld32 (ram s) (pt (ram s) dir (pdi tmp))"
  define m2 where "m2 = st32 m1 e (tmp OR 7)"
  define m3 where "m3 = stored m2 tmp (take (n - 1) xs @ [0])"
  define m4 where "m4 = st32 m3 e old"
  define m' where "m' = ram (kFree tmp (s\<lparr>ram := strncpy m4 phy tmp (of_nat n)\<rparr>))"
  have own: "vspace_pages (ram s) c \<subseteq> kheap_owned s" using task by (simp add: task_space_def)
  note v1 = space_kept [OF task alloc(5)]
  note cm = copy_mapped [OF paging task alloc(5,3,4) str n kp, folded dir_def, folded e_def, folded m2_def, folded m3_def]
  have e4: "region e 4 \<inter> region tmp 4096 = {}" "region e 4 \<inter> region phy (of_nat n) = {}" "region e 4 \<subseteq> kheap_owned s"
    using cm(3) own alloc(4) phy by blast+
  have "same_outside (region tmp 4096 \<union> region e 4) m1 m4"
    unfolding m4_def by (rule same_outside_trans [OF cm(8) same_outside_st32]) blast+
  then have g: "kp.grows s (s\<lparr>ram := m4\<rparr>) [tmp] (region e 4)" using grows e4(3) by blast
  have str4: "cstr m4 tmp (take (n - 1) xs)"
  proof (rule cstr_frame [OF cm(7) same_outside_st32 [of e m3 old], folded m4_def])
    fix i assume "i \<le> length (take (n - 1) xs)"
    then have "i < 4096" using n by auto
    then have "tmp + of_nat i \<in> region tmp 4096" by (simp add: word_less_nat_alt)
    then show "tmp + of_nat i \<notin> region e 4" using e4(1) by blast
  qed
  have phy': "region phy (of_nat n) \<subseteq> kheap_owned s" using phy by blast
  note f = copy_finish [OF g str4 n phy', folded m'_def]
  have "\<not> 4096 <s (of_nat n :: u32)" using n by (simp add: sint_of_nat_u32 word_sless_alt)
  moreover have "paging_get dir tmp m1 = old" using v1(7) alloc(3) by (simp add: dir_def old_def)
  moreover have "ld32 m1 task = c" "ld32 m1 c = dir" using v1(1,2) by (simp_all add: dir_def)
  ultimately have run: "copy_string_from_task task v phy (of_nat n) s = Some (0, kernel_page s\<lparr>ram := m'\<rparr>)"
    using alloc(1,2) cm(1,2,4,5) cm(6) [of old, folded m4_def] kFree_ram [where p = tmp and s = s and m = "strncpy m4 phy tmp (of_nat n)"]
    by (simp add: copy_string_from_task_def m'_def)
  have "ld32 m' e = ld32 m4 e" by (intro ld32_cong f(3)) (use e4 in blast)
  then show thesis
    by (intro that [OF run f(2) alloc(3,4)] f(1) [unfolded e_def dir_def]) (simp add: m4_def e_def old_def dir_def)
qed

section \<open>Printing a string of the task\<close>

lemma heap_kernel_page [simp]:
  fixes s :: "('d, 'a) task_state_scheme"
  shows "kheap_inv (kernel_page s) = kheap_inv s" "kheap_owned (kernel_page s) = kheap_owned s"
    "kheap_free (kernel_page s) = kheap_free s" "kheap_inv (kernel_page s\<lparr>ram := m\<rparr>) = kheap_inv (s\<lparr>ram := m\<rparr>)"
    "kheap_owned (kernel_page s\<lparr>ram := m\<rparr>) = kheap_owned (s\<lparr>ram := m\<rparr>)"
    "kheap_free (kernel_page s\<lparr>ram := m\<rparr>) = kheap_free (s\<lparr>ram := m\<rparr>)"
  by (simp_all add: kernel_page_def kernel_registers_def paging_switch_def paging_load_directory_def
      kheap_inv_def kheap_owned_def kheap_free_def)

text \<open>What is typed depends on the cells up to the cursor only.\<close>

lemma fold_write_cong:
  assumes "\<forall>k<n. f k = g k" "pos + 80 * length xs \<le> n"
  shows "fst (fold (\<lambda>c. screen_write c 15) xs (pos, f)) = fst (fold (\<lambda>c. screen_write c 15) xs (pos, g)) \<and>
    (\<forall>k<n. snd (fold (\<lambda>c. screen_write c 15) xs (pos, f)) k = snd (fold (\<lambda>c. screen_write c 15) xs (pos, g)) k)"
  using assms
proof (induction xs arbitrary: pos f g)
  case (Cons x xs)
  obtain p f' where f': "screen_write x 15 (pos, f) = (p, f')" by fastforce
  moreover obtain g' where "screen_write x 15 (pos, g) = (p, g')" "\<forall>k<n. f' k = g' k"
    using f' Cons.prems(1) by (auto simp: screen_write_def split: if_splits)
  moreover have "p + 80 * length xs \<le> n" using screen_write_pos [of x 15 pos f] f' Cons.prems(2) by simp
  ultimately show ?case using Cons.IH by simp
qed simp

lemma cells_kept:
  assumes "\<forall>a\<in>screen_bytes s n. ram s' a = ram s a" "video_mem s' = video_mem s" "k < n"
  shows "cells s' k = cells s k"
proof -
  have "2 * k < 2 * n" "2 * k + 1 < 2 * n" using assms(3) by simp_all
  then have "video_mem s + of_nat (2 * k) \<in> screen_bytes s n" "video_mem s + of_nat (2 * k + 1) \<in> screen_bytes s n"
    unfolding screen_bytes_def by blast+
  then have "ld16 (ram s') (video_mem s + 2 * of_nat k) = ld16 (ram s) (video_mem s + 2 * of_nat k)"
    using assms(1) by (intro ld16_cong) (simp_all add: add.assoc add.commute [of 1])
  then show ?thesis using assms(2) by (simp add: cells_def)
qed

text \<open>The memory a running kernel may use beside the structure and the address space of a task.\<close>

definition print_frame :: "('d, 'a) keyboard_state_scheme \<Rightarrow> ('d, 'a) keyboard_state_scheme \<Rightarrow> addr \<Rightarrow> u8 list \<Rightarrow> bool" where
  "print_frame s s' c ys \<longleftrightarrow>
     (let K = cursor s + 80 * length ys + 1
      in fst (screen_of s') = fst (fold (\<lambda>c. screen_write c 15) ys (screen_of s)) \<and>
         (\<forall>k<K. cells s' k = snd (fold (\<lambda>c. screen_write c 15) ys (screen_of s)) k) \<and>
         (\<forall>a\<in>kheap_owned s - tables (ram s) (ld32 (ram s) c) - region (kstack s + 160) 4096 - screen_bytes s K. ram s' a = ram s a))"

lemma print_copied:
  fixes s s2 :: "('d, 'a) keyboard_state_scheme"
  assumes str: "cstr (ram s2) (kstack s + 160) ys" "length ys < 4096"
    and col: "unat (terminal_col s) < 80" "cursor s + 80 * length ys < 5242800"
    and screen: "screen_bytes s (cursor s + 80 * length ys + 1) \<subseteq>
      kheap_owned s - tables (ram s) (ld32 (ram s) c) - region (kstack s + 160) 4096"
    and s2: "s2 = kernel_page s\<lparr>ram := ram s2\<rparr>" "kheap_inv s2" "kheap_owned s2 = kheap_owned s" "kheap_free s2 = kheap_free s"
      "\<forall>a\<in>kheap_owned s - tables (ram s) (ld32 (ram s) c) - region (kstack s + 160) 4096. ram s2 a = ram s a"
  obtains s3 where "print (kstack s + 160) s2 = Some s3" "kheap_inv s3" "kheap_free s3 = kheap_free s"
    "current_task s3 = current_task s" "print_frame s s3 c ys"
proof -
  define K where "K = cursor s + 80 * length ys + 1"
  define s3 where "s3 = print_chars ys s2"
  have f: "terminal_col s2 = terminal_col s" "cursor s2 = cursor s" "video_mem s2 = video_mem s" "current_task s2 = current_task s"
    "screen_bytes s2 K = screen_bytes s K"
    by (subst s2(1), simp add: kernel_page_def kernel_registers_def paging_switch_def paging_load_directory_def cursor_def screen_bytes_def)+
  have low: "kstack s + 160 + of_nat i \<in> region (kstack s + 160) 4096" if "i < length ys" for i
    using that str(2) by (simp add: word_less_nat_alt)
  have run: "print (kstack s + 160) s2 = Some s3"
    unfolding s3_def using str(1) col f screen low by (intro print_cstr) (auto simp: K_def simp del: mem_region)
  have pc: "screen_of s3 = fold (\<lambda>c. screen_write c 15) ys (screen_of s2)" "same_outside (screen_bytes s K) (ram s2) (ram s3)"
    using print_chars_screen [of s2 ys] col f by (simp_all add: s3_def K_def)
  have only: "kernelHeap s3 = kernelHeap s2" "current_task s3 = current_task s2"
    unfolding s3_def by (subst print_chars_only, simp)+
  have "same_outside (kheap_owned s2) (ram s2) (ram s3)"
    using pc(2) screen s2(3) by (intro same_outside_mono [OF pc(2)]) (auto simp: K_def simp del: mem_region)
  from kz.write_owned [OF s2(2) this]
  have heap: "kheap_inv s3" "kheap_free s3 = kheap_free s"
    using only(1) s2(4) by (simp_all add: kheap_inv_def kheap_free_def)
  have "\<forall>k<K. cells s2 k = cells s k"
    using s2(5) screen f(3) by (intro allI impI cells_kept [where n = K]) (auto simp: K_def simp del: mem_region)
  note w = fold_write_cong [OF this, of "cursor s" ys]
  have "fold (\<lambda>c. screen_write c 15) ys (cursor s, cells s2) = (cursor s3, cells s3)"
    using pc(1) f(2) by (simp add: screen_of_def)
  moreover have "ram s3 a = ram s a"
    if "a \<in> kheap_owned s - tables (ram s) (ld32 (ram s) c) - region (kstack s + 160) 4096 - screen_bytes s K" for a
    using that s2(5) same_outsideD [OF pc(2), of a] by (auto simp del: mem_region)
  ultimately have "print_frame s s3 c ys"
    using w by (simp add: print_frame_def Let_def screen_of_def K_def)
  then show thesis using that run heap only(2) f(4) by simp
qed

text \<open>System call 1, from the top word of the task's stack to the screen.\<close>

lemma print_command_spec:
  fixes s :: "('d, 'a) keyboard_state_scheme"
  assumes heap: "kheap_inv s" "0 < kheap_free s" and paging: "bit (cr0 s) 31" and task: "task_space s (current_task s) c"
    and stack: "translate (ram s) (ld32 (ram s) c) (ld32 (ram s) (current_task s + 44)) = Some (pa, q)"
      "unat (ld32 (ram s) (current_task s + 44)) mod 4096 \<le> 4092" "ld32 (ram s) pa = v"
    and str: "user_string (ram s) (ld32 (ram s) c) (kheap_owned s - vspace_pages (ram s) c) v xs"
      "\<And>i. i \<le> length xs \<Longrightarrow> v + of_nat i \<in> kheap_owned s"
    and mem: "region (kstack s + 160) 4096 \<subseteq> kheap_owned s - vspace_pages (ram s) c"
      "region (kernel_page_chunk s) 4 \<subseteq> kheap_owned s - vspace_pages (ram s) c"
    and col: "unat (terminal_col s) < 80" "cursor s + 80 * length (take 4095 xs) < 5242800"
    and screen: "screen_bytes s (cursor s + 80 * length (take 4095 xs) + 1) \<subseteq>
      kheap_owned s - vspace_pages (ram s) c - region (kstack s + 160) 4096"
  obtains s' where "isr80h_commad1_print frame s = Some (0, s')" "kheap_inv s'" "kheap_free s' = kheap_free s"
    "current_task s' = current_task s" "print_frame s s' c (take 4095 xs)"
proof -
  define s1 where "s1 = kernel_page s"
  have s1: "ram s1 = ram s" "cr0 s1 = cr0 s" "current_task s1 = current_task s" "kernel_page_chunk s1 = kernel_page_chunk s"
    "kernel_page s1 = s1" "kheap_inv s1 = kheap_inv s" "kheap_owned s1 = kheap_owned s" "kheap_free s1 = kheap_free s"
    "task_space s1 (current_task s) c = task_space s (current_task s) c"
    by (simp_all add: s1_def task_space_def)
  have k1: "kstack s1 = kstack s" by (simp add: s1_def kernel_page_def kernel_registers_def paging_switch_def paging_load_directory_def)
  have n: "0 < (4096 :: nat)" "(4096 :: nat) \<le> 4096" by simp_all
  have t: "ld32 (ram s) (current_task s) = c" using task by (simp add: task_space_def)
  have item: "task_get_stack_item (current_task s) 0 s = Some (v, s1)"
    using task_get_stack_item_mapped [of s "current_task s" 0 pa q] paging stack t by (simp add: s1_def)
  obtain tmp m' where copy: "copy_string_from_task (current_task s) v (kstack s + 160) 4096 s1 = Some (0, s1\<lparr>ram := m'\<rparr>)"
    "cstr m' (kstack s + 160) (take 4095 xs)"
    "kp.grows s1 (s1\<lparr>ram := m'\<rparr>) [] (region (pt (ram s) (ld32 (ram s) c) (pdi tmp) + 4 * pti tmp) 4 \<union> region (kstack s + 160) 4096)"
    by (rule copy_string_spec [of s1 "current_task s" c v xs 4096 "kstack s + 160", unfolded s1])
      (use assms n in simp_all)
  define s2 where "s2 = s1\<lparr>ram := m'\<rparr>"
  have e: "region (pt (ram s) (ld32 (ram s) c) (pdi tmp) + 4 * pti tmp) 4 \<subseteq> tables (ram s) (ld32 (ram s) c)"
    by (rule entry_in_tables)
  have "tables (ram s) (ld32 (ram s) c) \<subseteq> vspace_pages (ram s) c" by (simp add: vspace_pages_def)
  then have scr: "screen_bytes s (cursor s + 80 * length (take 4095 xs) + 1) \<subseteq>
      kheap_owned s - tables (ram s) (ld32 (ram s) c) - region (kstack s + 160) 4096" using screen by blast
  obtain s3 where "print (kstack s + 160) s2 = Some s3" "kheap_inv s3" "kheap_free s3 = kheap_free s"
    "current_task s3 = current_task s" "print_frame s s3 c (take 4095 xs)"
  proof (rule print_copied [of s2 s "take 4095 xs" c, OF _ _ col scr])
    show "cstr (ram s2) (kstack s + 160) (take 4095 xs)" "s2 = kernel_page s\<lparr>ram := ram s2\<rparr>"
      using copy(2) by (simp_all add: s2_def s1_def)
    show "kheap_inv s2" "kheap_owned s2 = kheap_owned s" "kheap_free s2 = kheap_free s"
      using copy(3) s1 by (simp_all add: kp.grows_def s2_def)
    show "\<forall>a\<in>kheap_owned s - tables (ram s) (ld32 (ram s) c) - region (kstack s + 160) 4096. ram s2 a = ram s a"
      using kp.grows_keeps [OF copy(3)] e s1 by (auto simp: s2_def simp del: mem_region)
  qed auto
  moreover have "isr80h_commad1_print frame s = Some (0, s3)"
    using item copy(1) \<open>print (kstack s + 160) s2 = Some s3\<close> s1(3) k1
    by (simp add: isr80h_commad1_print_def task_current_def s2_def)
  ultimately show thesis by (intro that)
qed

lemma typed_cong:
  assumes "\<forall>k<cursor s + 80 * length ys + 1. cells s1 k = cells s k" "cursor s1 = cursor s"
  shows "fst (fold (\<lambda>c. screen_write c 15) ys (screen_of s1)) = fst (fold (\<lambda>c. screen_write c 15) ys (screen_of s))"
    "k < cursor s + 80 * length ys + 1 \<Longrightarrow>
     snd (fold (\<lambda>c. screen_write c 15) ys (screen_of s1)) k = snd (fold (\<lambda>c. screen_write c 15) ys (screen_of s)) k"
  using fold_write_cong [OF assms(1), of "cursor s" ys] assms(2) by (simp_all add: screen_of_def)

text \<open>The memory beside the allocator's, the address space of a task and the structure of the task.\<close>

definition other_memory :: "('d, 'a) task_state_scheme \<Rightarrow> addr \<Rightarrow> addr \<Rightarrow> addr set" where
  "other_memory s task c = kheap_owned s - vspace_pages (ram s) c - region task 64"

text \<open>The state in which a handler starts: the registers of the task saved, the kernel's directory loaded.\<close>

lemma saved_state:
  fixes s :: "('d, 'a) keyboard_state_scheme"
  assumes heap: "kheap_inv s" and task: "task_space s (current_task s) c"
    and apart: "region (current_task s) 64 \<inter> region frame 52 = {}"
  defines "s1 \<equiv> kernel_page s\<lparr>ram := task_save_state (current_task s) frame (ram s)\<rparr>"
  shows "kheap_inv s1" "kheap_owned s1 = kheap_owned s" "kheap_free s1 = kheap_free s" "task_space s1 (current_task s) c"
    "vspace_pages (ram s1) c = vspace_pages (ram s) c" "ld32 (ram s1) c = ld32 (ram s) c"
    "translate (ram s1) (ld32 (ram s) c) va = translate (ram s) (ld32 (ram s) c) va"
    "same_outside (region (current_task s) 64) (ram s) (ram s1)" "ld32 (ram s1) (current_task s + 44) = ld32 (ram s) (frame + 44)"
proof -
  define m' where "m' = task_save_state (current_task s) frame (ram s)"
  note saved = saved_registers [OF apart, of "ram s", folded m'_def]
  have s1: "ram s1 = m'" "s1 = kernel_page s\<lparr>ram := m'\<rparr>" by (simp_all add: s1_def m'_def)
  have "region (current_task s) 52 \<subseteq> region (current_task s) 64" using field_subset [of 0 52 64 "current_task s"] by simp
  then have out: "same_outside (region (current_task s) 64) (ram s) m'" using saved(12) by (rule same_outside_mono [rotated])
  then show "same_outside (region (current_task s) 64) (ram s) (ram s1)" by (simp add: s1)
  have t: "ld32 (ram s) (current_task s) = c" "chunk_ok (ram s) c" "vspace_pages (ram s) c \<subseteq> kheap_owned s"
    "region (current_task s) 64 \<subseteq> kheap_owned s - vspace_pages (ram s) c" using task by (simp_all add: task_space_def)
  have "region (current_task s) 64 \<subseteq> kheap_owned s" using t(4) by blast
  from kz.write_owned [OF heap same_outside_mono [OF out this]]
  show "kheap_inv s1" "kheap_free s1 = kheap_free s" and owned: "kheap_owned s1 = kheap_owned s" by (simp_all add: s1)
  have "m' a = ram s a" if "a \<in> vspace_pages (ram s) c" for a
    using that t(4) by (intro same_outsideD [OF out]) blast
  note v = vspace_kept [OF t(2) this, simplified]
  show "vspace_pages (ram s1) c = vspace_pages (ram s) c" "ld32 (ram s1) c = ld32 (ram s) c"
    "translate (ram s1) (ld32 (ram s) c) va = translate (ram s) (ld32 (ram s) c) va" using v by (simp_all add: s1)
  show "task_space s1 (current_task s) c" using v t saved(11) owned by (simp add: task_space_def s1(1))
  show "ld32 (ram s1) (current_task s + 44) = ld32 (ram s) (frame + 44)" using saved(3) by (simp add: s1)
qed

text \<open>What a handler did to other memory does not change where the task continues.\<close>

lemma task_page_back:
  fixes s s' :: "('d, 'a) keyboard_state_scheme"
  assumes task: "task_space s t c" and cur: "current_task s' = t"
    and same: "\<forall>a\<in>kheap_owned s - tables (ram s) (ld32 (ram s) c) - D. ram s' a = ram s a"
    and D: "D \<subseteq> other_memory s t c"
  shows "cr3 (snd (task_page s')) = ld32 (ram s) c" "data_segments (snd (task_page s')) = 0x23"
    "ram (snd (task_page s')) = ram s'" "current_task (snd (task_page s')) = t"
    "kheap_inv (snd (task_page s')) = kheap_inv s'" "kheap_free (snd (task_page s')) = kheap_free s'"
    "screen_of (snd (task_page s')) = screen_of s'"
proof -
  have t: "ld32 (ram s) t = c" "chunk_ok (ram s) c" "vspace_pages (ram s) c \<subseteq> kheap_owned s"
    "region t 64 \<subseteq> kheap_owned s - vspace_pages (ram s) c" using task by (simp_all add: task_space_def)
  have tab: "tables (ram s) (ld32 (ram s) c) \<subseteq> vspace_pages (ram s) c" "region c 4096 \<subseteq> vspace_pages (ram s) c"
    by (auto simp: vspace_pages_def)
  have "region t 4 \<subseteq> region t 64" using field_subset [of 0 4 64 t] by simp
  moreover have "region t 64 \<subseteq> kheap_owned s - tables (ram s) (ld32 (ram s) c) - D" using t(4) tab(1) D by (auto simp: other_memory_def simp del: mem_region)
  ultimately have "ld32 (ram s') t = ld32 (ram s) t" using same by (intro ld32_cong) blast
  then have "ld32 (ram s') t = c" using t(1) by simp
  moreover have "region c 4096 \<inter> region (pt (ram s) (ld32 (ram s) c) i) 4096 = {}" if "i < 1024" for i
    using t(2) that by (intro pages_disjoint) (auto simp: chunk_ok_def)
  then have "region c 4096 \<inter> tables (ram s) (ld32 (ram s) c) = {}" unfolding tables_def by blast
  then have "region c 4096 \<subseteq> kheap_owned s - tables (ram s) (ld32 (ram s) c) - D"
    using t(3) tab(2) D by (auto simp: other_memory_def simp del: mem_region)
  then have "ld32 (ram s') (c + 4 * 0) = ld32 (ram s) (c + 4 * 0)"
    using same t(2) by (intro ld32_page_cong [where A = "region c 4096"]) (auto simp: chunk_ok_def simp del: mem_region)
  then have "ld32 (ram s') c = ld32 (ram s) c" by simp
  ultimately show "cr3 (snd (task_page s')) = ld32 (ram s) c"
    using cur by (simp add: task_page_def task_switch_def user_registers_def paging_switch_def paging_load_directory_def)
  show "data_segments (snd (task_page s')) = 0x23" "ram (snd (task_page s')) = ram s'" "current_task (snd (task_page s')) = t"
    "kheap_inv (snd (task_page s')) = kheap_inv s'" "kheap_free (snd (task_page s')) = kheap_free s'"
    "screen_of (snd (task_page s')) = screen_of s'"
    using cur by (simp_all add: task_page_def task_switch_def user_registers_def paging_switch_def paging_load_directory_def
        kheap_inv_def kheap_free_def screen_of_def cursor_def cells_def fun_eq_iff)
qed

section \<open>Properties\<close>

text \<open>What one word of a table does to all entries.\<close>

lemma entry_replaced:
  assumes space: "chunk_ok m c" "page_aligned tmp"
  defines "e \<equiv> pt m (ld32 m c) (pdi tmp) + 4 * pti tmp"
  assumes same: "\<And>a. a \<in> vspace_pages m c \<Longrightarrow> a \<notin> region e 4 \<Longrightarrow> m' a = m a"
  shows "pte m' (ld32 m c) va = (if va - tmp < 4096 then ld32 m' e else pte m (ld32 m c) va)"
proof -
  have vs: "vspace_ok m (ld32 m c)" using space(1) by (simp add: chunk_ok_def)
  define M where "M = (\<lambda>a. if a \<in> region e 4 then m' a else m a)"
  have "same_outside (region e 4) m M" by (simp add: M_def same_outside_def)
  then have "st32 m e (ld32 M e) = M" using st32_cong [of e m M "ld32 M e"] st32_same [of M e] by simp
  moreover have "ld32 M e = ld32 m' e" by (rule ld32_cong) (simp add: M_def)
  ultimately have M: "M = st32 m e (ld32 m' e)" by simp
  note up = chunk_upd [OF space(1) pdi_bound pti_bound, of tmp tmp "ld32 m' e", folded e_def, folded M]
  have tab: "tables M (ld32 m c) = tables m (ld32 m c)"
    using tables_upd [OF vs pdi_bound pti_bound, of tmp tmp "ld32 m' e", folded e_def] M by simp
  have "m' a = M a" if "a \<in> vspace_pages m c" for a using same that by (auto simp: M_def)
  moreover have "region (ld32 m c) 4096 \<subseteq> vspace_pages m c" "tables M (ld32 m c) \<subseteq> vspace_pages m c" "page_aligned (ld32 m c)"
    using tab vs by (auto simp: vspace_pages_def vspace_ok_def)
  ultimately have "pte m' (ld32 m c) va = pte M (ld32 m c) va"
    by (intro vspace_cong(3) [of "vspace_pages m c"])
  then show ?thesis using pte_upd [OF vs space(2), of "ld32 m' e" va, folded e_def] M by simp
qed

text \<open>C20. A string of a task for the kernel: \<open>copy_string_from_task\<close> returns 0 and leaves in the buffer the
  string the task sees at the virtual address, cut to the size of the buffer and terminated; the
  heap is as before and no other memory in use is written but one entry of a page table.  This entry,
  of the temporary page, is not what it was: \<open>paging_get\<close> read entry 0 of the table instead.\<close>

theorem copy_string_from_task_copies:
  fixes s :: "('d, 'a) task_state_scheme"
  assumes "kheap_inv s" "0 < kheap_free s" "bit (cr0 s) 31" "task_space s task c"
    and "user_string (ram s) (ld32 (ram s) c) (kheap_owned s - vspace_pages (ram s) c) v xs"
    and "\<forall>i\<le>length xs. v + of_nat i \<in> kheap_owned s" and "0 < n" "n \<le> 4096"
    and "region phy (of_nat n) \<subseteq> kheap_owned s - vspace_pages (ram s) c"
    and "region (kernel_page_chunk s) 4 \<subseteq> kheap_owned s - vspace_pages (ram s) c"
  shows "\<exists>s' tmp. copy_string_from_task task v phy (of_nat n) s = Some (0, s') \<and> cstr (ram s') phy (take (n - 1) xs) \<and>
    kheap_inv s' \<and> kheap_owned s' = kheap_owned s \<and> kheap_free s' = kheap_free s \<and>
    (\<forall>a\<in>kheap_owned s - tables (ram s) (ld32 (ram s) c) - region phy (of_nat n). ram s' a = ram s a) \<and>
    page_aligned tmp \<and> region tmp 4096 \<inter> kheap_owned s = {} \<and>
    (\<forall>va. pte (ram s') (ld32 (ram s) c) va =
       (if va - tmp < 4096 then ld32 (ram s) (pt (ram s) (ld32 (ram s) c) (pdi tmp)) else pte (ram s) (ld32 (ram s) c) va))"
proof -
  let ?dir = "ld32 (ram s) c"
  have str: "\<And>i. i \<le> length xs \<Longrightarrow> v + of_nat i \<in> kheap_owned s" using assms(6) by blast
  obtain tmp m' where run: "copy_string_from_task task v phy (of_nat n) s = Some (0, kernel_page s\<lparr>ram := m'\<rparr>)"
    "cstr m' phy (take (n - 1) xs)" "page_aligned tmp" "region tmp 4096 \<inter> kheap_owned s = {}"
    and g: "kp.grows s (s\<lparr>ram := m'\<rparr>) [] (region (pt (ram s) ?dir (pdi tmp) + 4 * pti tmp) 4 \<union> region phy (of_nat n))"
    and old: "ld32 m' (pt (ram s) ?dir (pdi tmp) + 4 * pti tmp) = ld32 (ram s) (pt (ram s) ?dir (pdi tmp))"
    by (rule copy_string_spec [OF assms(1-5) str assms(7-10)])
  have keep: "m' a = ram s a"
    if "a \<in> kheap_owned s" "a \<notin> region (pt (ram s) ?dir (pdi tmp) + 4 * pti tmp) 4" "a \<notin> region phy (of_nat n)" for a
    using kp.grows_keeps [OF g that(1)] that(2,3) by (simp del: mem_region)
  have space: "chunk_ok (ram s) c" "vspace_pages (ram s) c \<subseteq> kheap_owned s" using assms(4) by (simp_all add: task_space_def)
  have "m' a = ram s a" if "a \<in> kheap_owned s - tables (ram s) ?dir - region phy (of_nat n)" for a
    using that entry_in_tables [of "ram s" ?dir tmp] by (intro keep) blast+
  moreover have "pte m' ?dir va = (if va - tmp < 4096 then ld32 (ram s) (pt (ram s) ?dir (pdi tmp)) else pte (ram s) ?dir va)" for va
    unfolding old [symmetric]
  proof (rule entry_replaced [OF space(1) run(3)])
    fix a assume "a \<in> vspace_pages (ram s) c" "a \<notin> region (pt (ram s) ?dir (pdi tmp) + 4 * pti tmp) 4"
    moreover from this have "a \<notin> region phy (of_nat n)" "a \<in> kheap_owned s" using assms(9) space(2) by blast+
    ultimately show "m' a = ram s a" by (intro keep)
  qed
  ultimately show ?thesis using run g
    by (intro exI [of _ "kernel_page s\<lparr>ram := m'\<rparr>"] exI [of _ tmp]) (simp add: kp.grows_def)
qed

text \<open>C19. The system call 1 of a task types the string it points to: the word on top of the task's stack
  is the address of a string in its address space, whose first 4095 characters appear on the
  screen; the call returns 0 to the task, with its directory and segments loaded, and the heap
  is as before.\<close>

theorem isr80h_print:
  fixes s :: "('d, 'a) keyboard_state_scheme"
  assumes heap: "kheap_inv s" "0 < kheap_free s" and paging: "bit (cr0 s) 31"
    and call: "current_task s \<noteq> 0" "isr80h_commands s 1 = Some Command1_print"
    and task: "task_space s (current_task s) c" "region (current_task s) 64 \<inter> region frame 52 = {}"
    and stack: "translate (ram s) (ld32 (ram s) c) (ld32 (ram s) (frame + 44)) = Some (pa, q)"
      "unat (ld32 (ram s) (frame + 44)) mod 4096 \<le> 4092" "region pa 4 \<inter> region (current_task s) 64 = {}"
    and str: "user_string (ram s) (ld32 (ram s) c) (other_memory s (current_task s) c) (ld32 (ram s) pa) xs"
      "\<forall>i\<le>length xs. ld32 (ram s) pa + of_nat i \<in> kheap_owned s"
    and mem: "region (kstack s + 160) 4096 \<subseteq> other_memory s (current_task s) c"
      "region (kernel_page_chunk s) 4 \<subseteq> kheap_owned s - vspace_pages (ram s) c"
    and col: "unat (terminal_col s) < 80" "cursor s + 80 * length (take 4095 xs) < 5242800"
    and screen: "screen_bytes s (cursor s + 80 * length (take 4095 xs) + 1) \<subseteq>
      other_memory s (current_task s) c - region (kstack s + 160) 4096"
  shows "\<exists>s'. isr80h_handler 1 frame s = Some (Returns 0 s') \<and>
    fst (screen_of s') = fst (fold (\<lambda>c. screen_write c 15) (take 4095 xs) (screen_of s)) \<and>
    (\<forall>k<cursor s + 80 * length (take 4095 xs) + 1.
       snd (screen_of s') k = snd (fold (\<lambda>c. screen_write c 15) (take 4095 xs) (screen_of s)) k) \<and>
    kheap_inv s' \<and> kheap_free s' = kheap_free s \<and>
    current_task s' = current_task s \<and> cr3 s' = ld32 (ram s) c \<and> data_segments s' = 0x23"
proof -
  define ys where "ys = take 4095 xs"
  define s1 where "s1 = kernel_page s\<lparr>ram := task_save_state (current_task s) frame (ram s)\<rparr>"
  note sv = saved_state [OF heap(1) task, folded s1_def]
  have f: "cr0 s1 = cr0 s" "current_task s1 = current_task s" "kernel_page_chunk s1 = kernel_page_chunk s" "kstack s1 = kstack s"
    "terminal_col s1 = terminal_col s" "cursor s1 = cursor s" "video_mem s1 = video_mem s" "screen_bytes s1 = screen_bytes s"
    "isr80h_commands s1 = isr80h_commands s"
    by (simp_all add: s1_def kernel_page_def kernel_registers_def paging_switch_def paging_load_directory_def cursor_def
        screen_bytes_def fun_eq_iff)
  have same: "ram s1 a = ram s a" if "a \<notin> region (current_task s) 64" for a using sv(8) that by (rule same_outsideD)
  have word: "ld32 (ram s1) pa = ld32 (ram s) pa" using sv(8) stack(3) by (rule ld32_same_outside)
  have other: "other_memory s (current_task s) c \<subseteq> kheap_owned s - vspace_pages (ram s) c"
    "other_memory s (current_task s) c \<inter> region (current_task s) 64 = {}" by (auto simp: other_memory_def simp del: mem_region)
  have str1: "user_string (ram s1) (ld32 (ram s) c) (kheap_owned s - vspace_pages (ram s) c) (ld32 (ram s) pa) xs"
  proof -
    have "user_string (ram s1) (ld32 (ram s) c) (other_memory s (current_task s) c) (ld32 (ram s) pa) xs"
      using sv(7) same other(2) by (intro user_string_cong [OF str(1)]) blast+
    then show ?thesis using other(1) unfolding user_string_def by blast
  qed
  have buff: "region (kstack s + 160) 4096 \<subseteq> kheap_owned s - vspace_pages (ram s) c" using mem(1) other(1) by blast
  have scr: "screen_bytes s (cursor s + 80 * length ys + 1) \<subseteq> kheap_owned s - vspace_pages (ram s) c - region (kstack s + 160) 4096"
    using screen other(1) unfolding ys_def by blast
  have str2: "\<And>i. i \<le> length xs \<Longrightarrow> ld32 (ram s) pa + of_nat i \<in> kheap_owned s" using str(2) by blast
  obtain s2 where cmd: "isr80h_commad1_print frame s1 = Some (0, s2)" "kheap_inv s2" "kheap_free s2 = kheap_free s"
    "current_task s2 = current_task s" "print_frame s1 s2 c ys"
    by (rule print_command_spec [of s1 c pa q "ld32 (ram s) pa" xs frame, unfolded sv f, folded ys_def])
      (use sv(1,4) heap(2) paging stack word str1 str2 buff mem(2) col scr in \<open>simp_all add: ys_def sv f del: mem_region\<close>)
  let ?D = "region (kstack s + 160) 4096 \<union> screen_bytes s (cursor s + 80 * length ys + 1)"
  have fr: "fst (screen_of s2) = fst (fold (\<lambda>c. screen_write c 15) ys (screen_of s1))"
    "\<forall>k<cursor s + 80 * length ys + 1. cells s2 k = snd (fold (\<lambda>c. screen_write c 15) ys (screen_of s1)) k"
    "\<forall>a\<in>kheap_owned s1 - tables (ram s1) (ld32 (ram s1) c) - ?D. ram s2 a = ram s1 a"
    using cmd(5) unfolding print_frame_def Let_def f by (blast, blast, simp add: Diff_eq Int_assoc del: mem_region)
  have D: "?D \<subseteq> other_memory s1 (current_task s) c"
    using mem(1) screen unfolding other_memory_def sv ys_def by blast
  note ret = task_page_back [OF sv(4) cmd(4) fr(3) D, unfolded sv(6)]
  have "cells s1 k = cells s k" if "k < cursor s + 80 * length ys + 1" for k
  proof (rule cells_kept [OF _ f(7) that])
    show "\<forall>a\<in>screen_bytes s (cursor s + 80 * length ys + 1). ram s1 a = ram s a"
      using same screen other(2) unfolding ys_def by blast
  qed
  then have ty: "fst (screen_of s2) = fst (fold (\<lambda>c. screen_write c 15) ys (screen_of s))"
    "\<forall>k<cursor s + 80 * length ys + 1. cells s2 k = snd (fold (\<lambda>c. screen_write c 15) ys (screen_of s)) k"
    using typed_cong [of s ys s1] f(6) fr(1,2) by simp_all
  have "task_current_save_state frame (kernel_page s) = Returns () s1"
    using call(1) by (simp add: task_current_save_state_def task_current_def s1_def)
  moreover have "isr80h_handle_command 1 frame s1 = Some (0, s2)"
    using call(2) cmd(1) by (simp add: handle_command f)
  ultimately have "isr80h_handler 1 frame s = Some (Returns 0 (snd (task_page s2)))" by (simp add: isr80h_handler_def)
  then show ?thesis using ret ty cmd(2,3) unfolding ys_def [symmetric]
    by (intro exI [of _ "snd (task_page s2)"]) (simp add: screen_of_def)
qed

section \<open>Witnesses\<close>

text \<open>A task at 0x5000 with the string \<open>Hi\<close> at 0x700 in its address space, made by \<open>paging_new_4gb\<close>.\<close>

definition demo_print :: "unit keyboard_state" where
  "demo_print =
     (let (c, s) = paging_new_4gb 5 boot_ram
      in demo_keyboard\<lparr>ram := st32 (st32 (st32 (st32 (st32 (ram s) 0x5000 c) (0x5000 + 44) 0x100) (0x6000 + 44) 0x100) 0x100 0x700)
             0x700 0x6948,
           cr0 := 0x80000000, current_task := 0x5000, isr80h_commands := [1 \<mapsto> Command1_print]\<rparr>)"

lemma boot_owned:
  assumes "unat a < 32256 \<or> 57856 \<le> unat a \<and> unat a < 16777216"
  shows "a \<in> kheap_owned boot_ram"
  using assms region_unat [of "0x7E00" 25600 a] region_unat [of "0x1000000" 104857600 a]
  by (auto simp: boot_ram_def KheapInit_owned simp del: mem_region)

lemma demo_print_space:
  obtains c where "ld32 (ram demo_print) 0x5000 = c" "task_space demo_print 0x5000 c" "kheap_inv demo_print" "kheap_free demo_print = 24574"
    "kheap_owned boot_ram \<subseteq> kheap_owned demo_print - vspace_pages (ram demo_print) c"
    "\<forall>va. translate (ram demo_print) (ld32 (ram demo_print) c) va = Some (va, False, True)"
proof -
  obtain c s where new: "paging_new_4gb 5 boot_ram = (c, s)" by (cases "paging_new_4gb 5 boot_ram")
  have out: "same_outside low_memory (ram s) (ram demo_print)" by (simp add: demo_print_def new low_store)
  note keep = boot_space_kept [OF new out]
  have bits: "bit (5 :: u8) 0" by simp
  note n = paging_new_4gb_spec [OF boot_ram_inv(1) _ bits new, unfolded boot_ram_inv(2), simplified]
  have low: "low_memory \<subseteq> kheap_owned boot_ram" using boot_owned by (auto simp: low_memory_def)
  have "same_outside (kheap_owned s) (ram s) (ram demo_print)" using low n(4) by (intro same_outside_mono [OF out]) blast
  note w = kz.write_owned [OF n(1) this]
  have "kernelHeap s = kernelHeap boot_ram" by (subst n(3)) simp
  also have "\<dots> = kernel_heap" by (simp add: boot_ram_def KheapInit_eq)
  also have "\<dots> = kernelHeap demo_print" by (simp add: demo_print_def new demo_keyboard_def)
  finally have "kernelHeap demo_print = kernelHeap s" by simp
  then have heap: "kheap_inv demo_print" "kheap_owned demo_print = kheap_owned s" "kheap_free demo_print = 24574"
    using w n(2) by (simp_all add: kheap_inv_def kheap_owned_def kheap_free_def)
  have "m a = ram s a" if "same_outside low_memory (ram s) m" "a \<in> vspace_pages (ram s) c" for m a
    using that low n(9) by (intro same_outsideD [OF that(1)]) blast
  from vspace_kept(4) [OF n(6) this [OF out]]
  have pages: "vspace_pages (ram demo_print) c = vspace_pages (ram s) c" by simp
  have c: "ld32 (ram demo_print) 0x5000 = c" by (simp add: demo_print_def new ld32_st32)
  have boot: "kheap_owned boot_ram \<subseteq> kheap_owned demo_print - vspace_pages (ram demo_print) c"
    using n(4,9) heap(2) pages by blast
  have "region 0x5000 64 \<subseteq> kheap_owned boot_ram" using low_region [of "0x5000" 64] low by simp
  then have "task_space demo_print 0x5000 c"
    using boot c keep(1) n(8) heap(2) pages unfolding task_space_def by blast
  then show thesis using that c heap keep(3) boot by blast
qed

lemma demo_print_memory:
  "cstr (ram demo_print) 0x700 [72, 105]" "ld32 (ram demo_print) (0x6000 + 44) = 0x100" "ld32 (ram demo_print) 0x100 = 0x700"
  "cursor demo_print = 0" "terminal_col demo_print = 0" "kstack demo_print = 0x1F0000" "kernel_page_chunk demo_print = 0x40000"
  "current_task demo_print = 0x5000" "cr0 demo_print = 0x80000000" "video_mem demo_print = 0xB8000"
  "isr80h_commands demo_print 1 = Some Command1_print"
  by (simp_all add: demo_print_def split_beta demo_keyboard_def ld32_st32 cursor_def) (simp_all add: st32_def)

lemma demo_user_string:
  assumes "\<forall>va. translate (ram demo_print) dir va = Some (va, False, True)" "{0x700, 0x701, 0x702} \<subseteq> A"
  shows "user_string (ram demo_print) dir A 0x700 [72, 105]"
proof -
  have "ram demo_print 0x700 = 72" "ram demo_print 0x701 = 105" "ram demo_print 0x702 = 0"
    using demo_print_memory(1) by simp_all
  then show ?thesis using assms by (auto simp: user_string_def All_less_Suc less_Suc_eq_le [symmetric] nth_Cons split: nat.splits)
qed

lemma boot_region: "57856 \<le> unat p \<Longrightarrow> unat p + unat n \<le> 16777216 \<Longrightarrow> region p n \<subseteq> kheap_owned boot_ram"
  using region_unat [of p n] by (auto intro!: boot_owned simp del: mem_region)

lemma demo_print_regions:
  "region 0x1F00A0 4096 \<subseteq> kheap_owned boot_ram" "region 0x40000 4 \<subseteq> kheap_owned boot_ram"
  "{0x700, 0x701, 0x702} \<subseteq> kheap_owned boot_ram" "region 0x1F00A0 4096 \<inter> region 0x5000 (64 :: u32) = {}"
  "{0x700, 0x701, 0x702} \<inter> region 0x5000 (64 :: u32) = {}" "region 0x5000 64 \<inter> region 0x6000 (52 :: u32) = {}"
  "region 0x100 4 \<inter> region 0x5000 (64 :: u32) = {}" "(0x700 :: u32) + of_nat i \<in> kheap_owned boot_ram \<or> 3 \<le> i"
proof -
  show "region 0x1F00A0 4096 \<subseteq> kheap_owned boot_ram" "region 0x40000 4 \<subseteq> kheap_owned boot_ram"
    by (intro boot_region; simp)+
  show low: "{0x700, 0x701, 0x702} \<subseteq> kheap_owned boot_ram" by (auto intro!: boot_owned)
  show "region 0x1F00A0 4096 \<inter> region 0x5000 (64 :: u32) = {}" "region 0x5000 64 \<inter> region 0x6000 (52 :: u32) = {}"
    "region 0x100 4 \<inter> region 0x5000 (64 :: u32) = {}" "{0x700, 0x701, 0x702} \<inter> region 0x5000 (64 :: u32) = {}"
    by (auto simp: region_unat simp del: mem_region)
  have "i = 0 \<or> i = 1 \<or> i = 2" if "i < 3" using that by auto
  then show "(0x700 :: u32) + of_nat i \<in> kheap_owned boot_ram \<or> 3 \<le> i" using low by (cases "i < 3") auto
qed

lemma demo_screen:
  "screen_bytes demo_print 161 \<subseteq> kheap_owned boot_ram"
  "screen_bytes demo_print 161 \<inter> (region 0x5000 64 \<union> region 0x1F00A0 4096) = {}"
proof -
  have "screen_bytes demo_print 161 \<subseteq> region 0xB8000 322"
    by (auto simp: screen_bytes_def demo_print_memory word_less_nat_alt)
  moreover have "region 0xB8000 322 \<subseteq> kheap_owned boot_ram" by (intro boot_region; simp)
  moreover have "region 0xB8000 322 \<inter> region 0x5000 (64 :: u32) = {}" "region 0xB8000 322 \<inter> region 0x1F00A0 (4096 :: u32) = {}"
    by (auto simp: region_unat simp del: mem_region)
  ultimately show "screen_bytes demo_print 161 \<subseteq> kheap_owned boot_ram"
    "screen_bytes demo_print 161 \<inter> (region 0x5000 64 \<union> region 0x1F00A0 4096) = {}" by blast+
qed

theorem copy_string_from_task_copies_witness:
  "\<exists>s'. copy_string_from_task 0x5000 0x700 0x1F00A0 4096 demo_print = Some (0, s') \<and> cstr (ram s') 0x1F00A0 [72, 105]"
proof -
  obtain c where c: "task_space demo_print 0x5000 c" "kheap_inv demo_print" "kheap_free demo_print = 24574"
    "kheap_owned boot_ram \<subseteq> kheap_owned demo_print - vspace_pages (ram demo_print) c"
    "\<forall>va. translate (ram demo_print) (ld32 (ram demo_print) c) va = Some (va, False, True)"
    by (rule demo_print_space) blast
  have "user_string (ram demo_print) (ld32 (ram demo_print) c) (kheap_owned demo_print - vspace_pages (ram demo_print) c) 0x700 [72, 105]"
    using c(4) demo_print_regions(3) by (intro demo_user_string [OF c(5)]) blast
  moreover have "\<forall>i\<le>length [72 :: u8, 105]. 0x700 + of_nat i \<in> kheap_owned demo_print"
    using demo_print_regions(8) c(4) by fastforce
  moreover have "region 0x1F00A0 (of_nat 4096) \<subseteq> kheap_owned demo_print - vspace_pages (ram demo_print) c"
    "region (kernel_page_chunk demo_print) 4 \<subseteq> kheap_owned demo_print - vspace_pages (ram demo_print) c"
    using demo_print_regions(1,2) c(4) by (simp_all add: demo_print_memory del: mem_region)
  moreover have "bit (cr0 demo_print) 31" by (simp add: demo_print_memory)
  ultimately show ?thesis
    using copy_string_from_task_copies [OF c(2) _ _ c(1), of "0x700" "[72, 105]" 4096 "0x1F00A0"] c(3) by auto
qed

theorem isr80h_print_witness:
  "\<exists>s'. isr80h_handler 1 0x6000 demo_print = Some (Returns 0 s') \<and> fst (screen_of s') = 2 \<and>
    snd (screen_of s') 1 = terminal_make_char 105 15"
proof -
  obtain c where c: "task_space demo_print 0x5000 c" "kheap_inv demo_print" "kheap_free demo_print = 24574"
    "kheap_owned boot_ram \<subseteq> kheap_owned demo_print - vspace_pages (ram demo_print) c"
    "\<forall>va. translate (ram demo_print) (ld32 (ram demo_print) c) va = Some (va, False, True)"
    by (rule demo_print_space) blast
  note d = demo_print_memory and r = demo_print_regions
  have other: "A \<subseteq> other_memory demo_print (current_task demo_print) c"
    if "A \<subseteq> kheap_owned boot_ram" "A \<inter> region 0x5000 64 = {}" for A
    using that c(4) unfolding other_memory_def d by blast
  have 1: "user_string (ram demo_print) (ld32 (ram demo_print) c) (other_memory demo_print (current_task demo_print) c)
      (ld32 (ram demo_print) 0x100) [72, 105]"
    unfolding d by (rule demo_user_string [OF c(5)]) (rule other [OF r(3,5), unfolded d])
  have 2: "\<forall>i\<le>length [72 :: u8, 105]. ld32 (ram demo_print) 0x100 + of_nat i \<in> kheap_owned demo_print"
    unfolding d using r(8) c(4) by fastforce
  have 3: "region (kstack demo_print + 160) 4096 \<subseteq> other_memory demo_print (current_task demo_print) c"
    using other [OF r(1,4)] by (simp add: d del: mem_region)
  have 4: "region (kernel_page_chunk demo_print) 4 \<subseteq> kheap_owned demo_print - vspace_pages (ram demo_print) c"
    unfolding d using r(2) c(4) by blast
  have 5: "screen_bytes demo_print (cursor demo_print + 80 * length (take 4095 [72 :: u8, 105]) + 1) \<subseteq>
      other_memory demo_print (current_task demo_print) c - region (kstack demo_print + 160) 4096"
  proof -
    have "screen_bytes demo_print 161 \<subseteq> other_memory demo_print (current_task demo_print) c"
      using demo_screen by (intro other) blast+
    then show ?thesis using demo_screen(2) by (simp add: d del: mem_region) blast
  qed
  have "task_space demo_print (current_task demo_print) c" "region (current_task demo_print) 64 \<inter> region 0x6000 52 = {}"
    "region 0x100 4 \<inter> region (current_task demo_print) 64 = {}" "bit (cr0 demo_print) 31"
    "ld32 (ram demo_print) 0x602C = 0x100"
    using c(1) r(6,7) d(2) by (simp_all add: d del: mem_region)
  then show ?thesis
    using isr80h_print [OF c(2) _ _ _ d(11) _ _ _ _ _ 1 2 3 4 _ _ 5, of "0x6000" "(False, True)"] c(3,5)
    by (auto simp: d screen_of_def screen_write_def)
qed

end
