(* ===== verification/Directory.thy ===== *)
theory Directory
  imports Fat16
begin

text \<open>
  Looking up a name in a FAT16 directory, what \<open>fat16_find_item_in_directory\<close> and \<open>fat16_open\<close> of
  \<^verbatim>\<open>fs/fat/fat16.c\<close> do on a directory in memory: every entry whose name is the one asked for, up to case, is
  cloned, and the last clone is the result.  \<open>directory m dir es\<close> says that the \<open>struct fat_directory\<close> at
  \<open>dir\<close> has the entries \<open>es\<close>, each with its name and its extension.
\<close>

section \<open>A directory in memory\<close>

definition entry_name :: "u8 list \<times> u8 list \<Rightarrow> u8 list" where
  "entry_name e = fst e @ (if snd e = [] then [] else of_char CHR ''.'' # snd e)"

definition same_name :: "u8 list \<Rightarrow> u8 list \<times> u8 list \<Rightarrow> bool" where
  "same_name name e \<longleftrightarrow> map toLower (entry_name e) = map toLower name"

definition entry_at :: "mem \<Rightarrow> addr \<Rightarrow> nat \<Rightarrow> addr" where
  "entry_at m dir i = ld32 m dir + 32 * of_nat i"

definition directory :: "mem \<Rightarrow> addr \<Rightarrow> (u8 list \<times> u8 list) list \<Rightarrow> bool" where
  "directory m dir es \<longleftrightarrow> ld32 m (dir + 4) = of_nat (length es) \<and> length es < 2 ^ 27 \<and>
     (\<forall>i<length es. name_field m (entry_at m dir i) (fst (es ! i)) \<and> length (fst (es ! i)) \<le> 11 \<and>
        name_field m (entry_at m dir i + 8) (snd (es ! i)) \<and> length (snd (es ! i)) \<le> 3)"

text \<open>The memory a directory takes, and the buffer for names.\<close>

definition directory_bytes :: "mem \<Rightarrow> addr \<Rightarrow> (u8 list \<times> u8 list) list \<Rightarrow> addr set" where
  "directory_bytes m dir es = region dir 8 \<union> (\<Union>i<length es. region (entry_at m dir i) 32)"

abbreviation name_buffer :: "('d, 'a) fs_state_scheme \<Rightarrow> addr set" where
  "name_buffer s \<equiv> region (kstack s) 108"

lemma directory_cong:
  assumes "\<And>a. a \<in> directory_bytes m dir es \<Longrightarrow> m' a = m a"
  shows "ld32 m' dir = ld32 m dir" "entry_at m' dir i = entry_at m dir i"
    "directory m' dir es = directory m dir es" "directory_bytes m' dir es = directory_bytes m dir es"
proof -
  have word: "ld32 m' (dir + i) = ld32 m (dir + i)" if "unat i + 4 \<le> 8" for i
    using field_subset [of i 4 8 dir] that assms by (intro ld32_cong) (auto simp: directory_bytes_def simp del: mem_region)
  from word [of 0] show items: "ld32 m' dir = ld32 m dir" by simp
  then show at: "entry_at m' dir i = entry_at m dir i" for i by (simp add: entry_at_def)
  then show "directory_bytes m' dir es = directory_bytes m dir es" by (simp add: directory_bytes_def)
  have "name_field m' (entry_at m dir i) nm = name_field m (entry_at m dir i) nm"
    "name_field m' (entry_at m dir i + 8) ext = name_field m (entry_at m dir i + 8) ext"
    if "i < length es" "length nm \<le> 11" "length ext \<le> 3" for i nm ext
    using entry_fields [OF that(2,3), of "entry_at m dir i"] that(1) assms
    by (intro name_field_cong; force simp: directory_bytes_def simp del: mem_region)+
  then show "directory m' dir es = directory m dir es"
    using word [of 4] by (fastforce simp: directory_def at)
qed

section \<open>Cloning an entry\<close>

text \<open>The item at \<open>f\<close> is a file with a copy of the entry that was at \<open>item\<close> in the memory \<open>m\<close>.\<close>

definition item_copy :: "mem \<Rightarrow> addr \<Rightarrow> mem \<Rightarrow> addr \<Rightarrow> bool" where
  "item_copy m' f m item \<longleftrightarrow> f \<noteq> 0 \<and> ld32 m' f \<noteq> f \<and> ld32 m' (f + 4) = FAT_ITEM_TYPE_FILE \<and>
     (\<forall>a\<in>region (ld32 m' f) 32. m' a = m (item + (a - ld32 m' f)))"

lemma new_item_spec:
  fixes s :: "('d, 'a) fs_state_scheme"
  assumes "kheap_inv s" "2 \<le> kheap_free s" "region item 32 \<subseteq> kheap_owned s" "ram s (item + 11) AND 0x10 = 0"
  shows "\<exists>f c s'. fat16_new_fat_item_for_directory_item io idisk item s = Some (f, s') \<and>
    kp.grows s s' [f, c] {} \<and> ld32 (ram s') f = c \<and> item_copy (ram s') f (ram s) item"
proof -
  define f where "f = fst (kZalloc 8 s)"
  define s1 where "s1 = s\<lparr>ram := st32 (ram (snd (kZalloc 8 s))) (f + 4) 1\<rparr>"
  have free: "0 < kheap_free s" using assms(2) by simp
  note l1 = kz.alloc_laws [OF assms(1) _ _ free, of 8, folded f_def, simplified]
  have g1: "kp.grows s s1 [f] {}"
    unfolding s1_def f_def using kp.grows_alloc [OF assms(1) _ _ free, of 8 "{}"]
      same_outside_mono [OF same_outside_st32] pair_subset(2) l1 by (simp add: f_def del: mem_region)
  have s1: "kheap_inv s1" "0 < kheap_free s1" "kheap_owned s1 = kheap_owned s \<union> region f 4096" "kheap_page s1 f"
    using g1 assms(2) by (auto simp: kp.grows_def simp del: mem_region)
  define c where "c = fst (kZalloc 32 s1)"
  let ?r = "ram (snd (kZalloc 32 s1))"
  note l2 = kz.alloc_laws [OF s1(1) _ _ s1(2), of 32, folded c_def, simplified]
  define m where "m = st32 (memcpy ?r c item 32) f c"
  have c32: "region c 32 \<subseteq> region c 4096" using field_subset [of 0 32 4096 c] by simp
  have apart: "region c 4096 \<inter> region item 32 = {}" "region c 4096 \<inter> region f 4096 = {}"
    using l2(3) assms(3) s1(3) by (auto simp del: mem_region)
  have gap: "c = item \<or> 32 \<le> c - item"
  proof (rule disjI2, rule ccontr)
    assume "\<not> 32 \<le> c - item"
    then have "c \<in> region item 32" by (simp add: not_le)
    moreover have "c \<in> region c 4096" by simp
    ultimately show False using apart(1) by blast
  qed
  have f4: "region f 4 \<subseteq> region f 4096" "region (f + 4) 4 \<subseteq> region f 4096" using pair_subset l1(2) by blast+
  have out: "same_outside (region c 4096 \<union> region f 4) ?r m"
    unfolding m_def using c32
    by (intro same_outside_trans [OF same_outside_mono [OF memcpy_frame [OF gap]] same_outside_st32]) auto
  have "kp.grows s1 (s1\<lparr>ram := m\<rparr>) [c] (region f 4)"
    using kp.grows_alloc [OF s1(1) _ _ s1(2) out [unfolded c_def]] f4 s1(3) by (auto simp: c_def simp del: mem_region)
  from kp.grows_trans [OF g1 this] have "kp.grows s (s1\<lparr>ram := m\<rparr>) [f, c] (region f 4)" by simp
  moreover have "region f 4 \<inter> kheap_owned s \<subseteq> {}" using f4(1) l1(3) by blast
  ultimately have g: "kp.grows s (s1\<lparr>ram := m\<rparr>) [f, c] {}" by (rule kp.grows_mono)
  have item: "ram (snd (kZalloc 8 s)) a = ram s a" "ram s1 a = ram s a" "?r a = ram s a" if "a \<in> region item 32" for a
  proof -
    have a: "a \<in> kheap_owned s" using assms(3) that by blast
    show "ram (snd (kZalloc 8 s)) a = ram s a" using kz.alloc_keeps [OF assms(1) _ _ free a] by simp
    show s1a: "ram s1 a = ram s a" using kp.grows_keeps [OF g1 a] by simp
    have "a \<in> kheap_owned s1" using a s1(3) by blast
    then show "?r a = ram s a" using kz.alloc_keeps [OF s1(1) _ _ s1(2)] s1a by simp
  qed
  have "fat16_new_fat_item_for_directory_item io idisk item s = Some (f, s1\<lparr>ram := m\<rparr>)"
    using l1(2) l2(2) assms(4) item(1) [of "item + 11"]
    by (simp add: fat16_new_fat_item_for_directory_item_def fat16_clone_directory_item_def case_prod_beta Let_def
        f_def [symmetric] kz.set_alloc s1_def [symmetric] c_def [symmetric] m_def)
  moreover have "ld32 m (f + 4) = 1"
  proof -
    have "?r a = ram s1 a" if "a \<in> region (f + 4) 4" for a
      using kz.alloc_keeps [OF s1(1) _ _ s1(2)] f4(2) s1(3) that by auto
    then have "ld32 ?r (f + 4) = ld32 (ram s1) (f + 4)" by (rule ld32_cong)
    moreover have "region (f + 4) 4 \<inter> region c 32 = {}" using apart(2) c32 f4(2) by blast
    then have "ld32 (memcpy ?r c item 32) (f + 4) = ld32 ?r (f + 4)"
      using memcpy_frame [OF gap] by (intro ld32_same_outside)
    ultimately show ?thesis using l1(2) by (simp add: m_def s1_def pair_words)
  qed
  moreover have "m a = ram s (item + (a - c))" if "a \<in> region c 32" for a
  proof -
    have "a \<notin> region f 4" using that c32 f4(1) apart(2) by blast
    then have "m a = memcpy ?r c item 32 a" unfolding m_def by (rule same_outsideD [OF same_outside_st32])
    also have "\<dots> = ?r (item + (a - c))" using that memcpy_apply [OF gap] by simp
    also have "\<dots> = ram s (item + (a - c))" using that by (intro item) simp
    finally show ?thesis .
  qed
  moreover have "c \<noteq> f" using g by (auto simp: kp.grows_def)
  ultimately show ?thesis using g l1(2) by (intro exI [of _ f] exI [of _ c] exI [of _ "s1\<lparr>ram := m\<rparr>"])
      (simp add: item_copy_def, simp add: m_def)
qed

lemma item_copy_grows:
  assumes "kp.grows s s' ps D" "kheap_page s f" "kheap_page s (ld32 (ram s) f)"
    and "(region f 4096 \<union> region (ld32 (ram s) f) 4096) \<inter> D = {}"
  shows "ld32 (ram s') f = ld32 (ram s) f" "item_copy (ram s) f m item \<Longrightarrow> item_copy (ram s') f m item"
proof -
  have "kheap_inv s" using assms(1) by (simp add: kp.grows_def)
  note own = kp.page_owned [OF this assms(2)] kp.page_owned [OF this assms(3)]
  have w: "ld32 (ram s') f = ld32 (ram s) f" "ld32 (ram s') (f + 4) = ld32 (ram s) (f + 4)"
    using grows_ld32 [OF assms(1), of f] own(1) assms(4) by auto
  have "ram s' a = ram s a" if "a \<in> region (ld32 (ram s) f) 32" for a
  proof -
    have "a \<in> region (ld32 (ram s) f) 4096" using that field_subset [of 0 32 4096 "ld32 (ram s) f"] by (auto simp del: mem_region)
    then show ?thesis using kp.grows_keeps [OF assms(1)] own(2) assms(4) by blast
  qed
  with w show "ld32 (ram s') f = ld32 (ram s) f" "item_copy (ram s) f m item \<Longrightarrow> item_copy (ram s') f m item"
    by (simp_all add: item_copy_def)
qed

section \<open>The search\<close>

definition dir_ok :: "('d, 'a) fs_state_scheme \<Rightarrow> addr \<Rightarrow> (u8 list \<times> u8 list) list \<Rightarrow> bool" where
  "dir_ok s dir es \<longleftrightarrow> kheap_inv s \<and> directory (ram s) dir es \<and> name_buffer s \<subseteq> kheap_owned s \<and>
     directory_bytes (ram s) dir es \<subseteq> kheap_owned s - name_buffer s"

definition lookup_ok :: "('d, 'a) fs_state_scheme \<Rightarrow> addr \<Rightarrow> (u8 list \<times> u8 list) list \<Rightarrow> addr \<Rightarrow> u8 list \<Rightarrow> bool" where
  "lookup_ok s dir es name ys \<longleftrightarrow> dir_ok s dir es \<and>
     cstr (ram s) name ys \<and> length ys \<le> 108 \<and> str_bytes name (length ys) \<subseteq> kheap_owned s - name_buffer s"

lemmas lookup_ok_defs = lookup_ok_def dir_ok_def

lemma grows_state: "kp.grows s s' ps D \<Longrightarrow> s' = s\<lparr>ram := ram s'\<rparr>"
  by (simp add: kp.grows_def)

lemma grows_kstack: "kp.grows s s' ps D \<Longrightarrow> kstack s' = kstack s" for s :: "('d, 'a) fs_state_scheme"
  by (drule grows_state) (metis fs_state.surjective fs_state.select_convs(4) kheap_state.update_convs(1))

lemma dir_ok_grows:
  fixes s :: "('d, 'a) fs_state_scheme"
  assumes "dir_ok s dir es" "kp.grows s s' ps (name_buffer s)"
  shows "dir_ok s' dir es" "entry_at (ram s') dir i = entry_at (ram s) dir i"
    "i < length es \<Longrightarrow> a \<in> region (entry_at (ram s) dir i) 32 \<Longrightarrow> ram s' a = ram s a"
proof -
  have same: "ram s' a = ram s a" if "a \<in> directory_bytes (ram s) dir es" for a
    using assms(1) that kp.grows_keeps [OF assms(2), of a] by (auto simp: dir_ok_def simp del: mem_region)
  note d = directory_cong [of "ram s" dir es "ram s'"]
  show "entry_at (ram s') dir i = entry_at (ram s) dir i" using d(2) same by blast
  show "ram s' a = ram s a" if "i < length es" "a \<in> region (entry_at (ram s) dir i) 32"
    using that same [of a] by (auto simp: directory_bytes_def simp del: mem_region)
  have g: "kheap_inv s'" "kheap_owned s \<subseteq> kheap_owned s'" using assms(2) unfolding kp.grows_def by blast+
  have "directory (ram s') dir es = directory (ram s) dir es" "directory_bytes (ram s') dir es = directory_bytes (ram s) dir es"
    using d(3,4) same by blast+
  then show "dir_ok s' dir es"
    using assms(1) g unfolding dir_ok_def grows_kstack [OF assms(2)] by blast
qed

lemma lookup_ok_grows:
  fixes s :: "('d, 'a) fs_state_scheme"
  assumes "lookup_ok s dir es name ys" "kp.grows s s' ps (name_buffer s)"
  shows "lookup_ok s' dir es name ys" "entry_at (ram s') dir i = entry_at (ram s) dir i"
    "i < length es \<Longrightarrow> a \<in> region (entry_at (ram s) dir i) 32 \<Longrightarrow> ram s' a = ram s a"
proof -
  have d: "dir_ok s dir es" and l: "cstr (ram s) name ys" "str_bytes name (length ys) \<subseteq> kheap_owned s - name_buffer s"
    using assms(1) unfolding lookup_ok_def by blast+
  show "entry_at (ram s') dir i = entry_at (ram s) dir i"
    "i < length es \<Longrightarrow> a \<in> region (entry_at (ram s) dir i) 32 \<Longrightarrow> ram s' a = ram s a"
    using dir_ok_grows [OF d assms(2)] by blast+
  have "cstr (ram s') name ys" using l(1) by (rule cstr_cong) (use l(2) kp.grows_keeps [OF assms(2)] in blast)
  moreover have "kheap_owned s \<subseteq> kheap_owned s'" using assms(2) unfolding kp.grows_def by blast
  ultimately show "lookup_ok s' dir es name ys"
    using assms(1) dir_ok_grows(1) [OF d assms(2)] unfolding lookup_ok_def grows_kstack [OF assms(2)] by blast
qed

lemma lookup_dir_ok: "lookup_ok s dir es name ys \<Longrightarrow> dir_ok s dir es"
  by (simp add: lookup_ok_def)

lemma name_step:
  fixes s :: "('d, 'a) fs_state_scheme"
  assumes "lookup_ok s dir es name ys" "i < length es"
  shows "\<exists>m. fat16_get_full_filename_with_extension (ram s) (entry_at (ram s) dir i) (kstack s) 108 = Some m \<and>
    (istrncmp m (kstack s) name 108 = 0 \<longleftrightarrow> same_name ys (es ! i)) \<and> kp.grows s (s\<lparr>ram := m\<rparr>) [] (name_buffer s)"
proof -
  have e: "name_field (ram s) (entry_at (ram s) dir i) (fst (es ! i))" "length (fst (es ! i)) \<le> 11"
    "name_field (ram s) (entry_at (ram s) dir i + 8) (snd (es ! i))" "length (snd (es ! i)) \<le> 3"
    using assms by (auto simp: lookup_ok_defs directory_def)
  have own: "name_buffer s \<subseteq> kheap_owned s" "name_buffer s \<inter> region (entry_at (ram s) dir i) 32 = {}"
    using assms by (auto simp: lookup_ok_defs directory_bytes_def simp del: mem_region)
  have fit: "length (fst (es ! i)) + length (snd (es ! i)) + 2 \<le> unat (108 :: u32)" using e by simp
  obtain m where m: "fat16_get_full_filename_with_extension (ram s) (entry_at (ram s) dir i) (kstack s) 108 = Some m"
    "cstr m (kstack s) (entry_name (es ! i))" "same_outside (name_buffer s) (ram s) m"
    using full_filename_spec [OF e(1,3,2,4) fit own(2)] by (auto simp: entry_name_def)
  have g: "kp.grows s (s\<lparr>ram := m\<rparr>) [] (name_buffer s)"
    using assms(1) m(3) own(1) by (intro kp.grows_write) (auto simp: lookup_ok_defs simp del: mem_region)
  have "cstr m name ys" "length ys \<le> 108" using lookup_ok_grows(1) [OF assms(1) g] by (simp_all add: lookup_ok_def)
  moreover have "length (entry_name (es ! i)) \<le> 108" using e by (simp add: entry_name_def)
  ultimately have "istrncmp m (kstack s) name 108 = 0 \<longleftrightarrow> same_name ys (es ! i)"
    using istrncmp_cstr [OF m(2)] by (simp add: same_name_def)
  with m(1) g show ?thesis by blast
qed

lemma item_copy_source:
  "(\<And>a. a \<in> region item 32 \<Longrightarrow> m1 a = m a) \<Longrightarrow> item_copy m' f m1 item = item_copy m' f m item"
  by (auto simp: item_copy_def)

lemma item_copy_kept:
  fixes s :: "('d, 'a) fs_state_scheme"
  assumes "dir_ok s dir es" "kp.grows s s' ps (name_buffer s)" "k < length es"
  shows "item_copy m' f (ram s') (entry_at (ram s) dir k) = item_copy m' f (ram s) (entry_at (ram s) dir k)"
  using dir_ok_grows(3) [OF assms] by (rule item_copy_source)

definition no_directories :: "mem \<Rightarrow> addr \<Rightarrow> nat list \<Rightarrow> bool" where
  "no_directories m dir ks \<longleftrightarrow> (\<forall>k\<in>set ks. m (entry_at m dir k + 11) AND FAT_FILE_SUBDIRECTORY = 0)"

lemma no_directories_grows:
  fixes s :: "('d, 'a) fs_state_scheme"
  assumes "dir_ok s dir es" "kp.grows s s' ps (name_buffer s)" "\<forall>k\<in>set ks. k < length es"
  shows "no_directories (ram s') dir ks = no_directories (ram s) dir ks"
proof -
  have "ram s' (entry_at (ram s') dir k + 11) = ram s (entry_at (ram s) dir k + 11)" if "k \<in> set ks" for k
    using dir_ok_grows(2) [OF assms(1,2), of k] assms(3) that
    by (simp, intro dir_ok_grows(3) [OF assms(1,2), of k]) simp_all
  then show ?thesis by (simp add: no_directories_def)
qed

text \<open>The entries from the \<open>i\<close>-th on that have the name.\<close>

definition hits :: "u8 list \<Rightarrow> (u8 list \<times> u8 list) list \<Rightarrow> nat \<Rightarrow> nat list" where
  "hits ys es i = filter (\<lambda>k. same_name ys (es ! k)) [i..<length es]"

lemma hits_simps:
  "hits ys es (length es) = []"
  "i < length es \<Longrightarrow> hits ys es i = (if same_name ys (es ! i) then i # hits ys es (Suc i) else hits ys es (Suc i))"
  by (simp_all add: hits_def upt_conv_Cons)

lemma hits_bounds: "k \<in> set (hits ys es i) \<Longrightarrow> i \<le> k \<and> k < length es"
  by (auto simp: hits_def)

text \<open>One round of the search: an entry with another name only fills the buffer, an entry with the name is cloned.\<close>

lemma search_goes_on:
  fixes s :: "('d, 'a) fs_state_scheme"
  assumes "lookup_ok s dir es name ys" "i < length es"
  shows "of_nat i < ld32 (ram s) (dir + 4)" "ld32 (ram s) dir + 32 * of_nat i = entry_at (ram s) dir i"
  using assms of_nat_u32_less [of i "length es"] by (simp_all add: lookup_ok_defs directory_def entry_at_def)

lemma find_miss:
  fixes s :: "('d, 'a) fs_state_scheme"
  assumes "lookup_ok s dir es name ys" "i < length es" "\<not> same_name ys (es ! i)"
  shows "\<exists>s1. find_item_loop io idisk dir name (of_nat i) f s = find_item_loop io idisk dir name (of_nat (Suc i)) f s1 \<and>
    kp.grows s s1 [] (name_buffer s)"
proof -
  obtain m where "fat16_get_full_filename_with_extension (ram s) (entry_at (ram s) dir i) (kstack s) 108 = Some m"
    "istrncmp m (kstack s) name 108 \<noteq> 0" "kp.grows s (s\<lparr>ram := m\<rparr>) [] (name_buffer s)"
    using name_step [OF assms(1,2)] assms(3) by blast
  then show ?thesis
    using search_goes_on [OF assms(1,2)]
    by (intro exI [of _ "s\<lparr>ram := m\<rparr>"]) (simp add: find_item_loop.simps [of io idisk dir name "of_nat i"] add.commute)
qed

lemma find_hit:
  fixes s :: "('d, 'a) fs_state_scheme"
  assumes "lookup_ok s dir es name ys" "i < length es" "same_name ys (es ! i)"
    and "ram s (entry_at (ram s) dir i + 11) AND 0x10 = 0" "2 \<le> kheap_free s"
  shows "\<exists>f1 s1. find_item_loop io idisk dir name (of_nat i) f s = find_item_loop io idisk dir name (of_nat (Suc i)) f1 s1 \<and>
    kp.grows s s1 [f1, ld32 (ram s1) f1] (name_buffer s) \<and> item_copy (ram s1) f1 (ram s) (entry_at (ram s) dir i) \<and>
    (region f1 4096 \<union> region (ld32 (ram s1) f1) 4096) \<inter> name_buffer s = {}"
proof -
  let ?item = "entry_at (ram s) dir i"
  obtain m where m: "fat16_get_full_filename_with_extension (ram s) ?item (kstack s) 108 = Some m"
    "istrncmp m (kstack s) name 108 = 0" "kp.grows s (s\<lparr>ram := m\<rparr>) [] (name_buffer s)"
    using name_step [OF assms(1,2)] assms(3) by blast
  let ?s = "s\<lparr>ram := m\<rparr>"
  have bytes: "m a = ram s a" if "a \<in> region ?item 32" for a
    using lookup_ok_grows(3) [OF assms(1) m(3) assms(2) that] by simp
  have "kheap_inv ?s" "2 \<le> kheap_free ?s" "region ?item 32 \<subseteq> kheap_owned ?s" "name_buffer s \<subseteq> kheap_owned ?s"
    using assms(1,2,5) m(3) by (auto simp: lookup_ok_defs directory_bytes_def kp.grows_def simp del: mem_region)
  moreover have "m (?item + 11) AND 0x10 = 0" using assms(4) bytes [of "?item + 11"] by simp
  ultimately obtain f1 s1 where new: "fat16_new_fat_item_for_directory_item io idisk ?item ?s = Some (f1, s1)"
    "kp.grows ?s s1 [f1, ld32 (ram s1) f1] {}" "item_copy (ram s1) f1 m ?item"
    using new_item_spec [of ?s ?item io idisk] by auto
  have "kp.grows ?s s1 [f1, ld32 (ram s1) f1] (name_buffer s)" using new(2) by (rule kp.grows_mono) simp
  with m(3) have "kp.grows s s1 ([] @ [f1, ld32 (ram s1) f1]) (name_buffer s \<union> name_buffer s)" by (rule kp.grows_trans)
  moreover have "item_copy (ram s1) f1 (ram s) ?item" using new(3) item_copy_source [OF bytes] by simp
  moreover have "(region f1 4096 \<union> region (ld32 (ram s1) f1) 4096) \<inter> name_buffer s = {}"
    using new(2) \<open>name_buffer s \<subseteq> kheap_owned ?s\<close> by (auto simp: kp.grows_def simp del: mem_region)
  ultimately show ?thesis
    using search_goes_on [OF assms(1,2)] m(1,2) new(1)
    by (intro exI [of _ f1] exI [of _ s1]) (simp add: find_item_loop.simps [of io idisk dir name "of_nat i"] add.commute)
qed

lemma find_loop_spec:
  fixes s :: "('d, 'a) fs_state_scheme"
  assumes "i \<le> length es" "lookup_ok s dir es name ys" "no_directories (ram s) dir (hits ys es i)"
    and "2 * length (hits ys es i) \<le> kheap_free s"
  shows "\<exists>f' s' ps. find_item_loop io idisk dir name (of_nat i) f s = Some (f', s') \<and>
    kp.grows s s' ps (name_buffer s) \<and> length ps = 2 * length (hits ys es i) \<and>
    (if hits ys es i = [] then f' = f
     else item_copy (ram s') f' (ram s) (entry_at (ram s) dir (last (hits ys es i))) \<and> {f', ld32 (ram s') f'} \<subseteq> set ps)"
  using assms
proof (induction i arbitrary: f s rule: inc_induct)
  case base
  have "ld32 (ram s) (dir + 4) = of_nat (length es)" using base by (simp add: lookup_ok_defs directory_def)
  then have "find_item_loop io idisk dir name (of_nat (length es)) f s = Some (f, s)"
    by (subst find_item_loop.simps) simp
  moreover have "kp.grows s s [] (name_buffer s)"
    using base kp.grows_write [of s "name_buffer s" "ram s"] by (simp add: lookup_ok_defs)
  ultimately show ?case by (simp add: hits_simps)
next
  case (step i)
  note ok = step.prems(1) and i = step.hyps(2)
  let ?rest = "hits ys es (Suc i)" and ?item = "entry_at (ram s) dir"
  have rest: "\<forall>k\<in>set ?rest. k < length es" using hits_bounds by blast
  have next_round: "\<exists>f' s' ps. find_item_loop io idisk dir name (of_nat (Suc i)) f1 s1 = Some (f', s') \<and>
      kp.grows s1 s' ps (name_buffer s) \<and> length ps = 2 * length ?rest \<and>
      (if ?rest = [] then f' = f1
       else item_copy (ram s') f' (ram s) (?item (last ?rest)) \<and> {f', ld32 (ram s') f'} \<subseteq> set ps)"
    if g: "kp.grows s s1 qs (name_buffer s)" and free: "2 * length ?rest \<le> kheap_free s1" for f1 s1 qs
  proof -
    have "no_directories (ram s1) dir ?rest"
      using no_directories_grows [OF lookup_dir_ok [OF ok] g rest] step.prems(2) i by (auto simp: hits_simps no_directories_def split: if_splits)
    moreover have "item_copy m' f' (ram s1) (?item (last ?rest)) = item_copy m' f' (ram s) (?item (last ?rest))"
      if "?rest \<noteq> []" for m' f'
      using rest that by (intro item_copy_kept [OF lookup_dir_ok [OF ok] g]) simp
    ultimately show ?thesis
      using step.IH [of s1 f1, OF lookup_ok_grows(1) [OF ok g] _ free]
      unfolding lookup_ok_grows(2) [OF ok g] grows_kstack [OF g] by presburger
  qed
  show ?case
  proof (cases "same_name ys (es ! i)")
    case False
    then obtain s1 where s1: "find_item_loop io idisk dir name (of_nat i) f s = find_item_loop io idisk dir name (of_nat (Suc i)) f s1"
      "kp.grows s s1 [] (name_buffer s)" using find_miss [OF ok i] by blast
    moreover have "2 * length ?rest \<le> kheap_free s1" using step.prems(3) i False s1(2) by (simp add: hits_simps kp.grows_def)
    ultimately show ?thesis
      using next_round [OF s1(2), of f] kp.grows_trans [OF s1(2)] i False by (fastforce simp: hits_simps)
  next
    case True
    then have hit: "ram s (?item i + 11) AND 0x10 = 0" "2 \<le> kheap_free s"
      using step.prems(2,3) i by (simp_all add: hits_simps no_directories_def)
    obtain f1 s1 where s1: "find_item_loop io idisk dir name (of_nat i) f s = find_item_loop io idisk dir name (of_nat (Suc i)) f1 s1"
      "kp.grows s s1 [f1, ld32 (ram s1) f1] (name_buffer s)" "item_copy (ram s1) f1 (ram s) (?item i)"
      "(region f1 4096 \<union> region (ld32 (ram s1) f1) 4096) \<inter> name_buffer s = {}"
      using find_hit [OF ok i True hit] by blast
    have "2 * length ?rest \<le> kheap_free s1" using step.prems(3) i True s1(2) by (simp add: hits_simps kp.grows_def)
    from next_round [OF s1(2) this, of f1] obtain f' s' ps where
      r: "find_item_loop io idisk dir name (of_nat (Suc i)) f1 s1 = Some (f', s')"
      "kp.grows s1 s' ps (name_buffer s)" "length ps = 2 * length ?rest"
      "if ?rest = [] then f' = f1 else item_copy (ram s') f' (ram s) (?item (last ?rest)) \<and> {f', ld32 (ram s') f'} \<subseteq> set ps"
      by blast
    have "kheap_page s1 f1" "kheap_page s1 (ld32 (ram s1) f1)" using s1(2) by (simp_all add: kp.grows_def)
    note kept = item_copy_grows [OF r(2) this s1(4)]
    have "item_copy (ram s') f' (ram s) (?item (last (i # ?rest))) \<and> {f', ld32 (ram s') f'} \<subseteq> set ([f1, ld32 (ram s1) f1] @ ps)"
      using r(4) kept s1(3) by (cases "?rest = []") auto
    then show ?thesis
      using s1(1) r(1,3) kp.grows_trans [OF s1(2) r(2)] i True
      by (intro exI [of _ f'] exI [of _ s'] exI [of _ "[f1, ld32 (ram s1) f1] @ ps"]) (simp add: hits_simps)
  qed
qed

section \<open>Opening a file of the root directory\<close>

text \<open>What \<open>fat16_open\<close> relies on: the disk has a volume whose root directory has the entries \<open>es\<close>, and the path has
  one part, the name \<open>ys\<close>.\<close>

definition open_ok :: "('d, 'a) fs_state_scheme \<Rightarrow> addr \<Rightarrow> addr \<Rightarrow> (u8 list \<times> u8 list) list \<Rightarrow> u8 list \<Rightarrow> bool" where
  "open_ok s idisk path es ys \<longleftrightarrow>
     lookup_ok s (ld32 (ram s) (idisk + 16) + 64) es (ld32 (ram s) path) ys \<and> ld32 (ram s) (path + 4) = 0 \<and>
     region idisk 20 \<union> region path 8 \<subseteq> kheap_owned s - name_buffer s"

lemma grows_word:
  assumes "kp.grows s s' ps D" "region p n \<subseteq> kheap_owned s - D" "unat i + 4 \<le> unat n"
  shows "ld32 (ram s') (p + i) = ld32 (ram s) (p + i)"
proof (rule ld32_cong)
  fix a assume "a \<in> region (p + i) 4"
  then have "a \<in> region p n" using field_subset [of i 4 n p] assms(3) by auto
  then show "ram s' a = ram s a" using assms(2) kp.grows_keeps [OF assms(1)] by blast
qed

lemma open_ok_grows:
  fixes s :: "('d, 'a) fs_state_scheme"
  assumes "open_ok s idisk path es ys" "kp.grows s s' ps (name_buffer s)"
  shows "open_ok s' idisk path es ys" "ld32 (ram s') (idisk + 16) = ld32 (ram s) (idisk + 16)"
    "ld32 (ram s') path = ld32 (ram s) path" "ld32 (ram s') (path + 4) = ld32 (ram s) (path + 4)"
proof -
  have r: "region idisk 20 \<subseteq> kheap_owned s - name_buffer s" "region path 8 \<subseteq> kheap_owned s - name_buffer s"
    using assms(1) unfolding open_ok_def by blast+
  show w: "ld32 (ram s') (idisk + 16) = ld32 (ram s) (idisk + 16)" "ld32 (ram s') path = ld32 (ram s) path"
    "ld32 (ram s') (path + 4) = ld32 (ram s) (path + 4)"
    using grows_word [OF assms(2) r(1), of 16] grows_word [OF assms(2) r(2), of 0] grows_word [OF assms(2) r(2), of 4] by simp_all
  have "kheap_owned s \<subseteq> kheap_owned s'" using assms(2) unfolding kp.grows_def by blast
  then show "open_ok s' idisk path es ys"
    using assms(1) lookup_ok_grows(1) [OF _ assms(2)] unfolding open_ok_def w grows_kstack [OF assms(2)] by blast
qed

lemma directory_entry_spec:
  fixes s :: "('d, 'a) fs_state_scheme"
  defines "dir \<equiv> \<lambda>s idisk. ld32 (ram s) (idisk + 16) + 64"
  assumes "open_ok s idisk path es ys" "no_directories (ram s) (dir s idisk) (hits ys es 0)"
    and "2 * length (hits ys es 0) \<le> kheap_free s"
  shows "\<exists>f s' ps. fat16_get_directory_entry io idisk path s = Some (f, s') \<and>
    kp.grows s s' ps (name_buffer s) \<and> length ps = 2 * length (hits ys es 0) \<and>
    (if hits ys es 0 = [] then f = 0
     else item_copy (ram s') f (ram s) (entry_at (ram s) (dir s idisk) (last (hits ys es 0))) \<and> {f, ld32 (ram s') f} \<subseteq> set ps)"
proof -
  have ok: "lookup_ok s (dir s idisk) es (ld32 (ram s) path) ys" using assms(2) by (simp add: open_ok_def dir_def)
  from find_loop_spec [OF _ this assms(3,4), of io idisk 0] obtain f s' ps where
    r: "find_item_loop io idisk (dir s idisk) (ld32 (ram s) path) 0 0 s = Some (f, s')" "kp.grows s s' ps (name_buffer s)"
    "length ps = 2 * length (hits ys es 0)"
    "if hits ys es 0 = [] then f = 0
     else item_copy (ram s') f (ram s) (entry_at (ram s) (dir s idisk) (last (hits ys es 0))) \<and> {f, ld32 (ram s') f} \<subseteq> set ps"
    by auto
  have "ld32 (ram s') (path + 4) = 0" using open_ok_grows(4) [OF assms(2) r(2)] assms(2) by (simp add: open_ok_def)
  then have "fat16_get_directory_entry io idisk path s = Some (f, s')"
    using r(1) by (auto simp: fat16_get_directory_entry_def fat16_find_item_in_directory_def dir_def entry_loop.simps)
  with r(2-4) show ?thesis by blast
qed

text \<open>An open file: the descriptor at \<open>d\<close> stands at position 0 of a copy of the entry \<open>item\<close>.\<close>

definition opened :: "mem \<Rightarrow> addr \<Rightarrow> mem \<Rightarrow> addr \<Rightarrow> bool" where
  "opened m' d m item \<longleftrightarrow> d \<noteq> 0 \<and> item_copy m' (ld32 m' d) m item \<and> ld32 m' (d + 4) = 0"

text \<open>The descriptor's two words are filled in when the entry has been found.\<close>

lemma fill_descriptor:
  fixes s :: "('d, 'a) fs_state_scheme"
  assumes "kheap_inv s" "kheap_page s d" "kheap_page s f" "kheap_page s (ld32 (ram s) f)" "d \<noteq> f" "d \<noteq> ld32 (ram s) f"
    and "item_copy (ram s) f m item"
  defines "s' \<equiv> s\<lparr>ram := st32 (st32 (ram s) d f) (d + 4) 0\<rparr>"
  shows "kp.grows s s' [] (region d 4096)" "opened (ram s') d m item" "ld32 (ram s') d = f" "ld32 (ram s') f = ld32 (ram s) f"
proof -
  note d = kp.page_owned [OF assms(1,2)] and f = kp.page_owned [OF assms(1,3)] and c = kp.page_owned [OF assms(1,4)]
  have "region d 4 \<subseteq> region d 4096" "region (d + 4) 4 \<subseteq> region d 4096" using pair_subset d by blast+
  then have "same_outside (region d 4096) (ram s) (st32 (st32 (ram s) d f) (d + 4) 0)"
    by (intro same_outside_trans [OF same_outside_st32 same_outside_st32])
  then show g: "kp.grows s s' [] (region d 4096)"
    unfolding s'_def using d by (intro kp.grows_write assms(1)) auto
  have "(region f 4096 \<union> region (ld32 (ram s) f) 4096) \<inter> region d 4096 = {}"
    using pages_disjoint [of f d] pages_disjoint [of "ld32 (ram s) f" d] d f c assms(5,6) by blast
  note kept = item_copy_grows [OF g assms(3,4) this]
  show w: "ld32 (ram s') d = f" "ld32 (ram s') f = ld32 (ram s) f"
    using d kept(1) by (simp_all add: s'_def pair_words)
  show "opened (ram s') d m item" using kept(2) [OF assms(7)] d w by (simp add: opened_def) (simp add: s'_def)
qed

lemma fat16_open_spec:
  fixes s :: "('d, 'a) fs_state_scheme"
  defines "item \<equiv> \<lambda>s idisk i. entry_at (ram s) (ld32 (ram s) (idisk + 16) + 64) i"
  assumes "open_ok s idisk path es ys" "no_directories (ram s) (ld32 (ram s) (idisk + 16) + 64) (hits ys es 0)"
    and "1 + 2 * length (hits ys es 0) \<le> kheap_free s"
  shows "\<exists>d s' ps. fat16_open io idisk path FILE_MODE_READ s = Some (if hits ys es 0 = [] then - EIO else d, s') \<and>
    kp.grows s s' ps (name_buffer s) \<and> length ps = 1 + 2 * length (hits ys es 0) \<and> d \<in> set ps \<and>
    (hits ys es 0 \<noteq> [] \<longrightarrow> opened (ram s') d (ram s) (item s idisk (last (hits ys es 0))) \<and>
       {ld32 (ram s') d, ld32 (ram s') (ld32 (ram s') d)} \<subseteq> set ps \<and>
       d \<notin> {ld32 (ram s') d, ld32 (ram s') (ld32 (ram s') d)})"
proof -
  define d s1 where "d = fst (kZalloc 8 s)" and "s1 = snd (kZalloc 8 s)"
  have inv: "kheap_inv s" "0 < kheap_free s" using assms(2,4) by (simp_all add: open_ok_def lookup_ok_defs)
  have "s1 = s\<lparr>ram := ram s1\<rparr>" unfolding s1_def by (rule kz.alloc_only_mem)
  moreover have "kp.grows s (s\<lparr>ram := ram s1\<rparr>) [fst (kZalloc 8 s)] {}"
    unfolding s1_def using inv by (intro kp.grows_alloc) simp_all
  ultimately have g1: "kp.grows s s1 [d] {}" by (simp add: d_def)
  then have g1': "kp.grows s s1 [d] (name_buffer s)" by (rule kp.grows_mono) simp
  note ok1 = open_ok_grows [OF assms(2) g1']
  have look: "lookup_ok s (ld32 (ram s) (idisk + 16) + 64) es (ld32 (ram s) path) ys" using assms(2) by (simp add: open_ok_def)
  have bounds: "\<forall>k\<in>set (hits ys es 0). k < length es" using hits_bounds by blast
  have s1: "kheap_inv s1" "kheap_page s1 d" "kheap_free s = Suc (kheap_free s1)" "region d 4096 \<inter> kheap_owned s = {}" "d \<noteq> 0"
    using g1 kz.alloc_page [OF inv(1) _ _ inv(2), of 8] by (auto simp: kp.grows_def d_def simp del: mem_region)
  have "2 * length (hits ys es 0) \<le> kheap_free s1" using assms(4) s1(3) by simp
  with directory_entry_spec [OF ok1(1), of io] obtain f s2 ps where
    e: "fat16_get_directory_entry io idisk path s1 = Some (f, s2)" "kp.grows s1 s2 ps (name_buffer s)"
    "length ps = 2 * length (hits ys es 0)"
    "if hits ys es 0 = [] then f = 0
     else item_copy (ram s2) f (ram s1) (entry_at (ram s1) (ld32 (ram s1) (idisk + 16) + 64) (last (hits ys es 0))) \<and>
       {f, ld32 (ram s2) f} \<subseteq> set ps"
    using no_directories_grows [OF lookup_dir_ok [OF look] g1' bounds] assms(3) unfolding ok1(2) grows_kstack [OF g1'] by blast
  have g12: "kp.grows s s2 (d # ps) (name_buffer s)" using kp.grows_trans [OF g1 e(2)] by simp
  have s2: "kheap_inv s2" "kheap_page s2 d" "region d 4096 \<subseteq> kheap_owned s2" "\<forall>p\<in>set ps. kheap_page s2 p" "d \<notin> set ps"
    using g12 kp.page_owned [of s2 d] by (auto simp: kp.grows_def simp del: mem_region)
  show ?thesis
  proof (cases "hits ys es 0 = []")
    case True
    let ?s3 = "s2\<lparr>ram := st32 (ram s2) d 0\<rparr>"
    have "region d 4 \<subseteq> region d 4096" using pair_subset kp.page_owned [OF s2(1,2)] by blast
    then have "kp.grows s2 ?s3 [] (region d 4096)"
      using same_outside_mono [OF same_outside_st32] by (intro kp.grows_write s2(1,3)) blast
    from kp.grows_trans [OF g12 this] have "kp.grows s ?s3 (d # ps) (name_buffer s \<union> region d 4096)" by simp
    then have "kp.grows s ?s3 (d # ps) (name_buffer s)" using s1(4) by (rule_tac kp.grows_mono) blast+
    moreover have "fat16_open io idisk path FILE_MODE_READ s = Some (- EIO, ?s3)"
      using e(1,4) True s1(5) by (simp add: fat16_open_def d_def [symmetric] s1_def [symmetric] case_prod_beta Let_def)
    ultimately show ?thesis using e(3) True by (intro exI [of _ d] exI [of _ ?s3] exI [of _ "d # ps"]) simp
  next
    case False
    then have f: "item_copy (ram s2) f (ram s1) (entry_at (ram s1) (ld32 (ram s1) (idisk + 16) + 64) (last (hits ys es 0)))"
      "kheap_page s2 f" "kheap_page s2 (ld32 (ram s2) f)" "d \<noteq> f" "d \<noteq> ld32 (ram s2) f" "f \<noteq> 0"
      using e(4) s2(4,5) by (auto simp: item_copy_def)
    define s4 where "s4 = s2\<lparr>ram := st32 (st32 (ram s2) d f) (d + 4) 0\<rparr>"
    note fill = fill_descriptor [OF s2(1,2) f(2-5,1), folded s4_def]
    from kp.grows_trans [OF g12 fill(1)] have "kp.grows s s4 (d # ps) (name_buffer s \<union> region d 4096)" by simp
    then have "kp.grows s s4 (d # ps) (name_buffer s)" using s1(4) by (rule_tac kp.grows_mono) blast+
    moreover have "fat16_open io idisk path FILE_MODE_READ s = Some (d, s4)"
      using e(1) f(6) s1(5) by (simp add: fat16_open_def d_def [symmetric] s1_def [symmetric] case_prod_beta Let_def s4_def)
    moreover have "opened (ram s4) d (ram s) (item s idisk (last (hits ys es 0)))"
    proof -
      have "last (hits ys es 0) < length es" using bounds False by simp
      note src = item_copy_kept [OF lookup_dir_ok [OF look] g1' this]
      show ?thesis using fill(2) src unfolding opened_def item_def ok1(2) lookup_ok_grows(2) [OF look g1'] by blast
    qed
    ultimately show ?thesis
      using e(3,4) False fill f(4,5) by (intro exI [of _ d] exI [of _ s4] exI [of _ "d # ps"]) simp
  qed
qed

end
