(* ===== verification/Open.thy ===== *)
theory Open
  imports File Directory
begin

text \<open>
  A file from its name to its bytes: \<open>fopen\<close> through the path parser, the disk, the root directory of the FAT16
  volume and the table of descriptors, and \<open>fread\<close> on the file it opens.
\<close>

section \<open>A mounted volume\<close>

definition root_dir :: "('d, 'a) fs_state_scheme \<Rightarrow> addr" where
  "root_dir s = ld32 (ram s) (disk s + 16) + 64"

text \<open>The disk has a volume with its streams; its root directory has the entries \<open>es\<close>.  The structures of
  disk and volume, the directory, the table of descriptors and the buffer for names do not overlap.\<close>

definition disk_bytes :: "('d, 'a) fs_state_scheme \<Rightarrow> addr set" where
  "disk_bytes s = region (disk s) 20 \<union> region (ld32 (ram s) (disk s + 16)) 92 \<union> region (file_stream (ram s) (disk s)) 8"

definition mounted :: "('d, 'a) fs_state_scheme \<Rightarrow> (u8 list \<times> u8 list) list \<Rightarrow> bool" where
  "mounted s es \<longleftrightarrow> dir_ok s (root_dir s) es \<and> disk s \<noteq> 0 \<and> kernelHeap s = kernel_heap \<and>
     ld32 (ram s) (disk s + 4) = 512 \<and> ld32 (ram s) (disk s + 12) \<noteq> 0 \<and> ld32 (ram s) (file_stream (ram s) (disk s) + 4) = disk s \<and>
     region (file_stream (ram s) (disk s)) 4 \<inter> (region (disk s) 20 \<union> region (ld32 (ram s) (disk s + 16)) 92) = {} \<and>
     region (file_descriptors s) 2048 \<subseteq> kheap_owned s - name_buffer s \<and>
     disk_bytes s \<subseteq> kheap_owned s - name_buffer s - region (file_descriptors s) 2048"

section \<open>Opening\<close>

lemma page_no_error: "kheap_page s p \<Longrightarrow> kernelHeap s = kernel_heap \<Longrightarrow> \<not> ISERR p"
  using unat_block [OF heap_ok_kernel_heap] by (auto simp: kheap_page_def ISERR_def word_sless_alt sint_small)

lemma path_parts_single:
  assumes "slash \<notin> set xs" "xs \<noteq> []"
  shows "path_parts xs = [xs]"
proof -
  have all: "takeWhile (\<lambda>c. c \<noteq> slash) xs = xs" using assms(1) by (subst takeWhile_eq_all_conv) auto
  show ?thesis using assms(2) path_parts.simps [of "[]"] path_parts.simps [of xs] unfolding all Let_def by simp
qed

lemma parse_single:
  assumes "kheap_inv s" "cstr (ram s) path (48 # of_char CHR '':'' # slash # xs)" "slash \<notin> set xs" "xs \<noteq> []"
    "length xs \<le> 105" "str_bytes path (3 + length xs) \<subseteq> kheap_owned s" "5 \<le> kheap_free s"
  shows "\<exists>root s' q t. pathparser_parse path cur s = Some (root, s') \<and> kp.grows s s' [root, t, q] {} \<and> root \<noteq> 0 \<and>
    ld32 (ram s') root = 0 \<and> ld32 (ram s') (root + 4) = q \<and> q \<noteq> 0 \<and> ld32 (ram s') q = t \<and>
    ld32 (ram s') (q + 4) = 0 \<and> cstr (ram s') t xs"
proof -
  note parts = path_parts_single [OF assms(3,4)]
  have "isDigit 48" by (simp add: isDigit_def word_sle_eq)
  moreover have "3 + 2 * length (path_parts xs) \<le> kheap_free s" using parts assms(7) by simp
  ultimately obtain root s' ns where r: "pathparser_parse path cur s = Some (root, s')"
    "kp.grows s s' (root # node_pages ns) {}" "ld32 (ram s') root = toNumericDigit 48"
    "plist (ram s') (ld32 (ram s') (root + 4)) ns [xs]"
    using pathparser_parse_spec [OF assms(1,2) _ assms(5,6)] parts by metis
  obtain q t where ns: "ns = [(q, t)]" using r(4) by (cases ns rule: remdups_adj.cases) auto
  have "root \<noteq> 0" using r(2) kp.page_owned [of s' root] by (auto simp: kp.grows_def)
  then show ?thesis
    using r ns by (intro exI [of _ root] exI [of _ s'] exI [of _ q] exI [of _ t]) (auto simp: node_pages_def toNumericDigit_def)
qed

lemma mode_read: "m str = of_char CHR ''r'' \<Longrightarrow> file_get_mode_by_string m str = FILE_MODE_READ"
  by (simp add: file_get_mode_by_string_def)

text \<open>What opening a file leaves alone: everything owned but the buffer and the table of descriptors.\<close>

abbreviation scratch :: "('d, 'a) fs_state_scheme \<Rightarrow> addr set" where
  "scratch s \<equiv> name_buffer s \<union> region (file_descriptors s) 2048"

lemma grows_globals:
  fixes s :: "('d, 'a) fs_state_scheme"
  assumes "kp.grows s s' ps D"
  shows "disk s' = disk s" "file_descriptors s' = file_descriptors s" "kstack s' = kstack s" "kernelHeap s' = kernelHeap s"
proof -
  have "disk (s\<lparr>ram := m\<rparr>) = disk s \<and> file_descriptors (s\<lparr>ram := m\<rparr>) = file_descriptors s \<and>
      kstack (s\<lparr>ram := m\<rparr>) = kstack s \<and> kernelHeap (s\<lparr>ram := m\<rparr>) = kernelHeap s" for m by simp
  then show "disk s' = disk s" "file_descriptors s' = file_descriptors s" "kstack s' = kstack s" "kernelHeap s' = kernelHeap s"
    using grows_state [OF assms] by metis+
qed

lemma mounted_kept:
  fixes s :: "('d, 'a) fs_state_scheme"
  assumes "mounted s es" "kp.grows s s' ps (scratch s)"
  shows "ld32 (ram s') (disk s + 4) = 512" "ld32 (ram s') (disk s + 12) = ld32 (ram s) (disk s + 12)"
    "ld32 (ram s') (disk s + 16) = ld32 (ram s) (disk s + 16)" "root_dir s' = root_dir s"
    "file_stream (ram s') (disk s) = file_stream (ram s) (disk s)" "ld32 (ram s') (file_stream (ram s) (disk s) + 4) = disk s"
    "\<And>i. i < 92 \<Longrightarrow> ram s' (ld32 (ram s) (disk s + 16) + i) = ram s (ld32 (ram s) (disk s + 16) + i)"
    "ld32 (ram s') (ld32 (ram s) (disk s + 16) + 76) = ld32 (ram s) (ld32 (ram s) (disk s + 16) + 76)"
proof -
  have r: "region (disk s) 20 \<subseteq> kheap_owned s - scratch s" "region (ld32 (ram s) (disk s + 16)) 92 \<subseteq> kheap_owned s - scratch s"
    "region (file_stream (ram s) (disk s)) 8 \<subseteq> kheap_owned s - scratch s"
    using assms(1) unfolding mounted_def disk_bytes_def by blast+
  note w = r [THEN grows_word [OF assms(2)]]
  show p: "ld32 (ram s') (disk s + 4) = 512" "ld32 (ram s') (disk s + 12) = ld32 (ram s) (disk s + 12)"
    "ld32 (ram s') (disk s + 16) = ld32 (ram s) (disk s + 16)"
    using w(1) [of 4] w(1) [of 12] w(1) [of 16] assms(1) by (simp_all add: mounted_def)
  then show "root_dir s' = root_dir s" using grows_globals [OF assms(2)] by (simp add: root_dir_def)
  show "file_stream (ram s') (disk s) = file_stream (ram s) (disk s)" using w(2) [of 80] p by (simp add: file_stream_def)
  show "ld32 (ram s') (file_stream (ram s) (disk s) + 4) = disk s" using w(3) [of 4] assms(1) by (simp add: mounted_def)
  show "ram s' (ld32 (ram s) (disk s + 16) + i) = ram s (ld32 (ram s) (disk s + 16) + i)" if "i < 92" for i
  proof -
    have "ld32 (ram s) (disk s + 16) + i \<in> region (ld32 (ram s) (disk s + 16)) 92" using that by simp
    then show ?thesis using r(2) kp.grows_keeps [OF assms(2)] by blast
  qed
  show "ld32 (ram s') (ld32 (ram s) (disk s + 16) + 76) = ld32 (ram s) (ld32 (ram s) (disk s + 16) + 76)" using w(2) [of 76] by simp
qed

lemma opened_grows:
  assumes "kp.grows s s' ps D" "opened (ram s) d m item"
    and "\<forall>p\<in>{d, ld32 (ram s) d, ld32 (ram s) (ld32 (ram s) d)}. kheap_page s p \<and> region p 4096 \<inter> D = {}"
  shows "opened (ram s') d m item" "ld32 (ram s') d = ld32 (ram s) d"
    "ld32 (ram s') (ld32 (ram s) d) = ld32 (ram s) (ld32 (ram s) d)"
proof -
  have "kheap_inv s" using assms(1) by (simp add: kp.grows_def)
  from kp.page_owned [OF this, of d] assms(3)
  have w: "ld32 (ram s') d = ld32 (ram s) d" "ld32 (ram s') (d + 4) = ld32 (ram s) (d + 4)"
    using grows_ld32 [OF assms(1), of d] by auto
  have "(region (ld32 (ram s) d) 4096 \<union> region (ld32 (ram s) (ld32 (ram s) d)) 4096) \<inter> D = {}" using assms(3) by blast
  then have i: "ld32 (ram s') (ld32 (ram s) d) = ld32 (ram s) (ld32 (ram s) d)"
    "item_copy (ram s) (ld32 (ram s) d) m item \<Longrightarrow> item_copy (ram s') (ld32 (ram s) d) m item"
    using item_copy_grows [OF assms(1), of "ld32 (ram s) d"] assms(3) by simp_all
  show "opened (ram s') d m item" "ld32 (ram s') d = ld32 (ram s) d"
    "ld32 (ram s') (ld32 (ram s) d) = ld32 (ram s) (ld32 (ram s) d)"
    using assms(2) w i by (auto simp: opened_def)
qed

lemma link_file:
  fixes s :: "('d, 'a) fs_state_scheme" and fs d idisk :: addr
  assumes "kheap_inv s" "kheap_page s desc"
  defines "m \<equiv> st32 (st32 (st32 (ram s) (desc + 4) fs) (desc + 8) d) (desc + 12) idisk"
  shows "kp.grows s (s\<lparr>ram := m\<rparr>) [] (region desc 4096)" "ld32 m desc = ld32 (ram s) desc"
    "ld32 m (desc + 4) = fs" "ld32 m (desc + 8) = d" "ld32 m (desc + 12) = idisk"
proof -
  note own = kp.page_owned [OF assms(1,2)]
  have "same_outside (region desc 4096) (ram s) m"
    unfolding m_def by (intro same_outside_field same_outside_refl) simp_all
  then show "kp.grows s (s\<lparr>ram := m\<rparr>) [] (region desc 4096)" using own by (intro kp.grows_write assms(1)) auto
  show "ld32 m desc = ld32 (ram s) desc" "ld32 m (desc + 4) = fs" "ld32 m (desc + 8) = d" "ld32 m (desc + 12) = idisk"
    by (simp_all add: m_def struct_fields)
qed

lemma register_file:
  fixes s :: "('d, 'a) fs_state_scheme"
  assumes "kheap_inv s" "0 < kheap_free s" "region (file_descriptors s) 2048 \<subseteq> kheap_owned s" "0 \<in> set (fd_table s)"
  shows "\<exists>desc s1. file_new_descriptor s = (0, desc, s1) \<and>
    (let m = st32 (st32 (st32 (ram s1) (desc + 4) fs) (desc + 8) d) (desc + 12) idisk; s2 = s1\<lparr>ram := m\<rparr>
     in kp.grows s s1 [desc] (region (file_descriptors s) 2048) \<and>
       kp.grows s s2 [desc] (region (file_descriptors s) 2048) \<and> desc \<noteq> 0 \<and> ld32 m desc = of_nat (Suc (first_free_fd s)) \<and>
       file_get_descriptor (of_nat (Suc (first_free_fd s))) s2 = desc \<and>
       fd_table s2 = (fd_table s)[first_free_fd s := desc] \<and>
       ld32 m (desc + 4) = fs \<and> ld32 m (desc + 8) = d \<and> ld32 m (desc + 12) = idisk)"
proof -
  define j desc m1 where "j = first_free_fd s" and "desc = fst (kZalloc 16 s)"
    and "m1 = st32 (st32 (ram (snd (kZalloc 16 s))) desc (of_nat (Suc j))) (file_descriptors s + 4 * of_nat j) desc"
  let ?s1 = "s\<lparr>ram := m1\<rparr>" and ?tbl = "region (file_descriptors s) 2048"
  have j: "j < 512" using first_free_fd(1,4) [of s] assms(4) by (auto simp: j_def)
  note new = new_descriptor_taken [OF assms(1-3) j, folded desc_def, folded m1_def]
  note run = new_descriptor_run [OF assms(1-3) j [unfolded j_def], folded desc_def j_def, folded m1_def]
  define m where "m = st32 (st32 (st32 m1 (desc + 4) fs) (desc + 8) d) (desc + 12) idisk"
  note link = link_file [OF new(2,5), of fs d idisk, simplified, folded m_def]
  have in_tbl: "region (file_descriptors s + 4 * of_nat j) 4 \<inter> kheap_owned s \<subseteq> ?tbl"
    "(region (file_descriptors s + 4 * of_nat j) 4 \<union> region desc 4096) \<inter> kheap_owned s \<subseteq> ?tbl"
    using slot_in_table [OF j, of "file_descriptors s"] new(6) by blast+
  have g: "kp.grows s ?s1 [desc] ?tbl" "kp.grows s (s\<lparr>ram := m\<rparr>) [desc] ?tbl"
    using kp.grows_mono [OF new(9) in_tbl(1)] kp.grows_trans [OF new(9) link(1)] kp.grows_mono [OF _ in_tbl(2)] by auto
  have "m a = m1 a" if "a \<in> ?tbl" for a
  proof -
    have "a \<in> kheap_owned ?s1" "a \<notin> region desc 4096" using that assms(3) new(3,6) by blast+
    then show ?thesis using kp.grows_keeps [OF link(1)] by simp
  qed
  then have "fd_table (s\<lparr>ram := m\<rparr>) = fd_table ?s1" by (intro fd_table_cong) simp_all
  moreover from this have "file_get_descriptor (of_nat (Suc j)) (s\<lparr>ram := m\<rparr>) = desc"
    using file_get_descriptor_nth [OF j, of "s\<lparr>ram := m\<rparr>"] new(8) j by simp
  ultimately show ?thesis
    using run g new(1,7,8) link(2-5) by (intro exI [of _ desc] exI [of _ ?s1]) (simp add: Let_def m_def j_def)
qed

text \<open>Preparing an open: the path has been parsed, the first part is the name.\<close>

lemma mounted_open_ok:
  fixes s :: "('d, 'a) fs_state_scheme"
  assumes "mounted s es" "kp.grows s s1 ps {}" "kheap_page s1 q" "kheap_page s1 t" "q \<in> set ps" "t \<in> set ps"
    and "ld32 (ram s1) q = t" "ld32 (ram s1) (q + 4) = 0" "cstr (ram s1) t ys" "length ys \<le> 108"
  shows "open_ok s1 (disk s) q es ys"
proof -
  have g: "kp.grows s s1 ps (name_buffer s)" "kp.grows s s1 ps (scratch s)" using assms(2) by (rule kp.grows_mono; simp)+
  have inv: "kheap_inv s1" and fresh: "region q 4096 \<inter> kheap_owned s = {}" "region t 4096 \<inter> kheap_owned s = {}"
    and own: "kheap_owned s \<subseteq> kheap_owned s1"
    using assms(2,5,6) unfolding kp.grows_def by blast+
  have d: "dir_ok s1 (ld32 (ram s1) (disk s + 16) + 64) es"
    using assms(1) dir_ok_grows(1) [OF _ g(1)] mounted_kept(3,4) [OF assms(1) g(2)] grows_globals(1) [OF assms(2)]
    by (simp add: mounted_def root_dir_def)
  have buf: "name_buffer s \<subseteq> kheap_owned s" using assms(1) unfolding mounted_def dir_ok_def by blast
  have pages: "region q 4096 \<subseteq> kheap_owned s1" "region t 4096 \<subseteq> kheap_owned s1"
    using kp.page_owned [OF inv assms(3)] kp.page_owned [OF inv assms(4)] by blast+
  have q8: "region q 8 \<subseteq> region q 4096" using field_subset [of 0 8 4096 q] by simp
  have t8: "str_bytes t (length ys) \<subseteq> region t 4096" using assms(10) by (intro str_bytes_page) simp
  have d8: "region (disk s) 20 \<subseteq> kheap_owned s - name_buffer s"
    using assms(1) unfolding mounted_def disk_bytes_def by blast
  have "region q 8 \<subseteq> kheap_owned s1 - name_buffer s" using q8 pages(1) fresh(1) buf by blast
  moreover have "str_bytes t (length ys) \<subseteq> kheap_owned s1 - name_buffer s" using t8 pages(2) fresh(2) buf by blast
  moreover have "region (disk s) 20 \<subseteq> kheap_owned s1 - name_buffer s" using d8 own by blast
  ultimately show ?thesis
    using d assms(7-10) unfolding open_ok_def lookup_ok_def grows_globals(3) [OF assms(2)] by simp
qed

text \<open>The file number \<open>fd\<close> is the open file with the descriptor \<open>d\<close> on the disk.\<close>

definition open_file :: "('d, 'a) fs_state_scheme \<Rightarrow> u32 \<Rightarrow> addr \<Rightarrow> bool" where
  "open_file s fd d \<longleftrightarrow> (let slot = file_get_descriptor fd s in slot \<noteq> 0 \<and> ld32 (ram s) slot = fd \<and>
     ld32 (ram s) (slot + 4) = ld32 (ram s) (disk s + 12) \<and> ld32 (ram s) (slot + 8) = d \<and> ld32 (ram s) (slot + 12) = disk s)"

text \<open>The first half of \<open>fopen\<close>: the path is parsed and FAT16 looks for the file.  The parsed path could be released
  afterwards.\<close>

lemma path_released:
  assumes "kp.grows s s1 [root, t, q] {}" "kp.grows s1 s2 ps D" "D \<subseteq> kheap_owned s"
    and "ld32 (ram s1) (root + 4) = q" "q \<noteq> 0" "ld32 (ram s1) q = t" "ld32 (ram s1) (q + 4) = 0"
    and "cstr (ram s1) t ys" "length ys < 4096"
  shows "pathparser_free root s2 = Some (fold kFree [t, q, root] s2)"
proof -
  have s1: "kheap_inv s1" "\<forall>p\<in>{root, t, q}. kheap_page s1 p \<and> region p 4096 \<inter> D = {}" "distinct [root, t, q]"
    using assms(1,3) by (auto simp: kp.grows_def simp del: mem_region)
  have s2: "kheap_inv s2" "\<forall>p\<in>{root, t, q}. kheap_page s2 p" using assms(2) s1(2) by (auto simp: kp.grows_def)
  have w: "ld32 (ram s2) p = ld32 (ram s1) p" "ld32 (ram s2) (p + 4) = ld32 (ram s1) (p + 4)" if "p \<in> {root, q}" for p
    using grows_ld32 [OF assms(2), of p] s1(2) kp.page_owned [OF s1(1), of p] that by auto
  have "cstr (ram s2) t ys"
  proof (rule cstr_owned [OF assms(8) str_bytes_page [OF assms(9)]])
    show "ram s2 a = ram s1 a" if "a \<in> region t 4096" for a
      using that s1(2) kp.page_owned [OF s1(1), of t] kp.grows_keeps [OF assms(2), of a] by blast
  qed
  then have "plist (ram s2) q [(q, t)] [ys]" using w assms(5-7) by simp
  then have "pathparser_free_loop q s2 = Some (fold kFree (node_pages [(q, t)]) s2)"
    using s1(3) s2 assms(9) by (intro free_loop_fold [where ws = "[ys]"]) (auto simp: node_pages_def)
  then show ?thesis using w assms(4) by (simp add: pathparser_free_def node_pages_def)
qed

lemma fopen_opens:
  fixes s :: "('d, 'a) fs_state_scheme"
  assumes "mounted s es" "cstr (ram s) filename (48 # of_char CHR '':'' # slash # ys)" "slash \<notin> set ys" "ys \<noteq> []"
    and "length ys \<le> 105" "str_bytes filename (3 + length ys) \<subseteq> kheap_owned s"
    and "no_directories (ram s) (root_dir s) (hits ys es 0)" "6 + 2 * length (hits ys es 0) \<le> kheap_free s"
  obtains root s1 t q d s2 ps where
    "pathparser_parse filename 0 s = Some (root, s1)" "kp.grows s s1 [root, t, q] {}" "root \<noteq> 0" "ld32 (ram s1) root = 0"
    "ld32 (ram s1) (root + 4) = q" "q \<noteq> 0"
    "fat16_open io (disk s) q FILE_MODE_READ s1 = Some (if hits ys es 0 = [] then - EIO else d, s2)"
    "kp.grows s s2 ([root, t, q] @ ps) (name_buffer s)" "length ps = 1 + 2 * length (hits ys es 0)"
    "hits ys es 0 \<noteq> [] \<longrightarrow> opened (ram s2) d (ram s) (entry_at (ram s) (root_dir s) (last (hits ys es 0))) \<and>
       {d, ld32 (ram s2) d, ld32 (ram s2) (ld32 (ram s2) d)} \<subseteq> set ps \<and> d \<notin> {ld32 (ram s2) d, ld32 (ram s2) (ld32 (ram s2) d)}"
    "pathparser_free root s2 = Some (fold kFree [t, q, root] s2)"
proof -
  have inv: "kheap_inv s" "5 \<le> kheap_free s" using assms(1,8) by (simp_all add: mounted_def dir_ok_def)
  obtain root s1 q t where parse: "pathparser_parse filename 0 s = Some (root, s1)" "kp.grows s s1 [root, t, q] {}" "root \<noteq> 0"
    "ld32 (ram s1) root = 0" "ld32 (ram s1) (root + 4) = q" "q \<noteq> 0" "ld32 (ram s1) q = t" "ld32 (ram s1) (q + 4) = 0" "cstr (ram s1) t ys"
    using parse_single [OF inv(1) assms(2-6) inv(2)] by blast
  have g1: "kp.grows s s1 [root, t, q] (name_buffer s)" "kp.grows s s1 [root, t, q] (scratch s)"
    using parse(2) by (rule kp.grows_mono; simp)+
  note same1 = grows_globals [OF parse(2)] and kept1 = mounted_kept [OF assms(1) g1(2)]
  have dir: "dir_ok s (root_dir s) es" using assms(1) by (simp add: mounted_def)
  have ok: "open_ok s1 (disk s) q es ys"
    using parse(2) by (rule mounted_open_ok [OF assms(1)]) (use parse assms(5) in \<open>auto simp: kp.grows_def\<close>)
  have no_dir: "no_directories (ram s1) (ld32 (ram s1) (disk s + 16) + 64) (hits ys es 0)"
    using no_directories_grows [OF dir g1(1), of "hits ys es 0"] hits_bounds assms(7) kept1(3) by (auto simp: root_dir_def)
  have "1 + 2 * length (hits ys es 0) \<le> kheap_free s1" using parse(2) assms(8) by (simp add: kp.grows_def)
  from fat16_open_spec [OF ok no_dir this, of io] obtain d s2 ps where
    op: "fat16_open io (disk s) q FILE_MODE_READ s1 = Some (if hits ys es 0 = [] then - EIO else d, s2)"
    "kp.grows s1 s2 ps (name_buffer s1)" "length ps = 1 + 2 * length (hits ys es 0)" "d \<in> set ps"
    "hits ys es 0 \<noteq> [] \<longrightarrow> opened (ram s2) d (ram s1) (entry_at (ram s1) (root_dir s) (last (hits ys es 0))) \<and>
       {ld32 (ram s2) d, ld32 (ram s2) (ld32 (ram s2) d)} \<subseteq> set ps \<and> d \<notin> {ld32 (ram s2) d, ld32 (ram s2) (ld32 (ram s2) d)}"
    using kept1(3) by (auto simp: root_dir_def)
  have "opened (ram s2) d (ram s1) (entry_at (ram s1) (root_dir s) (last (hits ys es 0))) =
      opened (ram s2) d (ram s) (entry_at (ram s) (root_dir s) (last (hits ys es 0)))" if "hits ys es 0 \<noteq> []"
    using item_copy_kept [OF dir g1(1), of "last (hits ys es 0)"] hits_bounds [of _ ys es 0] that
    unfolding opened_def dir_ok_grows(2) [OF dir g1(1)] by simp
  moreover have "kp.grows s s2 ([root, t, q] @ ps) (name_buffer s)"
    using kp.grows_trans [OF parse(2) op(2)] same1 by simp
  moreover have "name_buffer s1 \<subseteq> kheap_owned s" using assms(1) same1(3) unfolding mounted_def dir_ok_def by simp
  then have "pathparser_free root s2 = Some (fold kFree [t, q, root] s2)"
    using path_released [OF parse(2) op(2) _ parse(5-9)] assms(5) by simp
  ultimately show thesis using parse(1,3-6) op(1,3-5)
    by (intro that [of root s1 t q d s2 ps]) (auto simp: parse(2))
qed

lemma fopen_spec:
  fixes s :: "('d, 'a) fs_state_scheme"
  assumes "mounted s es" "fss (ld32 (ram s) (disk s + 12)) = fat16_functions io"
    and "cstr (ram s) filename (48 # of_char CHR '':'' # slash # ys)" "slash \<notin> set ys" "ys \<noteq> []" "length ys \<le> 105"
    and "str_bytes filename (3 + length ys) \<subseteq> kheap_owned s" "ram s mode = of_char CHR ''r''" "mode \<in> kheap_owned s"
    and "hits ys es 0 \<noteq> []" "no_directories (ram s) (root_dir s) (hits ys es 0)" "0 \<in> set (fd_table s)"
    and "7 + 2 * length (hits ys es 0) \<le> kheap_free s"
  defines "fd \<equiv> of_nat (Suc (first_free_fd s)) :: u32" and "item \<equiv> entry_at (ram s) (root_dir s) (last (hits ys es 0))"
  shows "\<exists>d s' ps. fopen fss filename mode s = Some (fd, s') \<and> kp.grows s s' ps (scratch s) \<and>
    open_file s' fd d \<and> opened (ram s') d (ram s) item \<and>
    fd_table s' = (fd_table s)[first_free_fd s := file_get_descriptor fd s'] \<and> length ps = 5 + 2 * length (hits ys es 0) \<and>
    distinct [ld32 (ram s') (ld32 (ram s') d), ld32 (ram s') d, d, file_get_descriptor fd s'] \<and>
    {ld32 (ram s') (ld32 (ram s') d), ld32 (ram s') d, d, file_get_descriptor fd s'} \<subseteq> set ps"
proof -
  have "6 + 2 * length (hits ys es 0) \<le> kheap_free s" using assms(13) by simp
  from fopen_opens [OF assms(1,3-7,11) this, of io] obtain root s1 t q d s2 ps where
    run: "pathparser_parse filename 0 s = Some (root, s1)" "kp.grows s s1 [root, t, q] {}" "root \<noteq> 0" "ld32 (ram s1) root = 0"
    "ld32 (ram s1) (root + 4) = q" "q \<noteq> 0" "fat16_open io (disk s) q FILE_MODE_READ s1 = Some (if hits ys es 0 = [] then - EIO else d, s2)"
    and g: "kp.grows s s2 ([root, t, q] @ ps) (name_buffer s)" "length ps = 1 + 2 * length (hits ys es 0)"
    and found: "hits ys es 0 \<noteq> [] \<longrightarrow> opened (ram s2) d (ram s) item \<and>
       {d, ld32 (ram s2) d, ld32 (ram s2) (ld32 (ram s2) d)} \<subseteq> set ps \<and> d \<notin> {ld32 (ram s2) d, ld32 (ram s2) (ld32 (ram s2) d)}"
    unfolding item_def by metis
  then have op: "opened (ram s2) d (ram s) item" "{d, ld32 (ram s2) d, ld32 (ram s2) (ld32 (ram s2) d)} \<subseteq> set ps"
    "d \<notin> {ld32 (ram s2) d, ld32 (ram s2) (ld32 (ram s2) d)}" "fat16_open io (disk s) q FILE_MODE_READ s1 = Some (d, s2)"
    using assms(10) by simp_all
  have tbl: "region (file_descriptors s) 2048 \<subseteq> kheap_owned s - name_buffer s" using assms(1) by (simp add: mounted_def)
  have g1: "kp.grows s s1 [root, t, q] (scratch s)" using run(2) by (rule kp.grows_mono) simp
  note kept1 = mounted_kept [OF assms(1) g1] and same1 = grows_globals [OF run(2)] and same2 = grows_globals [OF g(1)]
  have s2: "kheap_inv s2" "0 < kheap_free s2" "region (file_descriptors s) 2048 \<subseteq> kheap_owned s2"
    "\<forall>p\<in>set ps. kheap_page s2 p \<and> region p 4096 \<inter> kheap_owned s = {}"
    using g assms(13) tbl by (auto simp: kp.grows_def simp del: mem_region)
  have "ram s2 a = ram s a" if "a \<in> region (file_descriptors s) 2048" for a
    using kp.grows_keeps [OF g(1)] tbl that by blast
  then have "fd_table s2 = fd_table s" by (rule fd_table_cong [OF same2(2)])
  then have table: "fd_table s2 = fd_table s" "first_free_fd s2 = first_free_fd s" by (simp_all add: first_free_fd_def)
  have slots: "0 \<in> set (fd_table s2)" using assms(12) table(1) by simp
  obtain desc s3 where desc: "file_new_descriptor s2 = (0, desc, s3)" and new:
    "let m = st32 (st32 (st32 (ram s3) (desc + 4) (ld32 (ram s) (disk s + 12))) (desc + 8) d) (desc + 12) (disk s); s4 = s3\<lparr>ram := m\<rparr>
     in kp.grows s2 s3 [desc] (region (file_descriptors s) 2048) \<and>
       kp.grows s2 s4 [desc] (region (file_descriptors s) 2048) \<and> desc \<noteq> 0 \<and> ld32 m desc = fd \<and>
       file_get_descriptor fd s4 = desc \<and> fd_table s4 = (fd_table s)[first_free_fd s := desc] \<and>
       ld32 m (desc + 4) = ld32 (ram s) (disk s + 12) \<and> ld32 m (desc + 8) = d \<and> ld32 m (desc + 12) = disk s"
    using register_file [OF s2(1,2) _ slots, of "ld32 (ram s) (disk s + 12)" d "disk s"] s2(3)
    unfolding table same2(2) fd_def by blast
  define m s4 where "m = st32 (st32 (st32 (ram s3) (desc + 4) (ld32 (ram s) (disk s + 12))) (desc + 8) d) (desc + 12) (disk s)"
    and "s4 = s3\<lparr>ram := m\<rparr>"
  have reg: "kp.grows s2 s3 [desc] (region (file_descriptors s) 2048)" "kp.grows s2 s4 [desc] (region (file_descriptors s) 2048)"
    "desc \<noteq> 0" "ld32 m desc = fd" "file_get_descriptor fd s4 = desc" "fd_table s4 = (fd_table s)[first_free_fd s := desc]"
    "ld32 m (desc + 4) = ld32 (ram s) (disk s + 12)" "ld32 m (desc + 8) = d" "ld32 m (desc + 12) = disk s"
    using new unfolding Let_def m_def [symmetric] s4_def [symmetric] by blast+
  note g3 = kp.grows_trans [OF g(1) reg(1)] and g4 = kp.grows_trans [OF g(1) reg(2)]
  note kept3 = mounted_kept [OF assms(1) g3] and kept4 = mounted_kept [OF assms(1) g4]
  have "\<forall>p\<in>{d, ld32 (ram s2) d, ld32 (ram s2) (ld32 (ram s2) d)}. kheap_page s2 p \<and> region p 4096 \<inter> region (file_descriptors s) 2048 = {}"
    using s2(4) op(2) tbl by blast
  note held = opened_grows [OF reg(2) op(1) this]
  have "open_file s4 fd d" using reg kept4(2) grows_globals(1) [OF g4] by (simp add: open_file_def s4_def Let_def)
  moreover have "{ld32 (ram s4) (ld32 (ram s4) d), ld32 (ram s4) d, d, file_get_descriptor fd s4} \<subseteq> set (([root, t, q] @ ps) @ [desc])"
    using op(2) held(2,3) reg(5) by auto
  moreover have "distinct [ld32 (ram s4) (ld32 (ram s4) d), ld32 (ram s4) d, d, file_get_descriptor fd s4]"
  proof -
    have "distinct (([root, t, q] @ ps) @ [desc])" using g4 by (simp add: kp.grows_def)
    then have "desc \<notin> {d, ld32 (ram s2) d, ld32 (ram s2) (ld32 (ram s2) d)}" using op(2) by auto
    moreover have "ld32 (ram s2) (ld32 (ram s2) d) \<noteq> ld32 (ram s2) d" using op(1) by (simp add: opened_def item_copy_def)
    ultimately show ?thesis using op(3) held(2,3) reg(5) by auto
  qed
  moreover have "fopen fss filename mode s = Some (fd, s4)"
  proof -
    have "\<not> ISERR d" using s2(4) op(2) same2(4) assms(1) by (intro page_no_error [of s2]) (simp_all add: mounted_def)
    moreover have "\<not> fd <s 0"
      using first_free_fd(1) [of s] sint_of_nat_u32 [of "Suc (first_free_fd s)"] by (simp add: fd_def word_sless_alt)
    moreover have "file_get_mode_by_string (ram s1) mode = FILE_MODE_READ"
      using assms(8,9) kp.grows_keeps [OF run(2)] by (intro mode_read) simp
    moreover have "disk s \<noteq> 0" "ld32 (ram s) (disk s + 12) \<noteq> 0" using assms(1) by (simp_all add: mounted_def)
    ultimately show ?thesis
      using run(1,3-6) op(4) same1(1) kept1(2) kept3(2) assms(2) desc reg(4)
      by (simp add: fopen_def fopen_body_def disk_get_def fat16_functions_def m_def [symmetric] s4_def [symmetric] Let_def)
  qed
  ultimately show ?thesis using g4 held(1) g(2) reg(5,6) by (intro exI [of _ d] exI [of _ s4] exI [of _ "([root, t, q] @ ps) @ [desc]"]) simp
qed

section \<open>Reading what was opened\<close>

lemma first_cluster_copy:
  assumes "item_copy m' f m item"
  shows "fat16_get_first_cluster m' (ld32 m' f) = fat16_get_first_cluster m item"
proof -
  have byte: "m' (ld32 m' f + i) = m (item + i)" if "i < 32" for i
    using assms that by (auto simp: item_copy_def)
  have "ld16 m' (ld32 m' f + i) = ld16 m (item + i)" if "i < 31" for i
  proof -
    have "i < 32" "i + 1 < 32" using that by unat_arith+
    then show ?thesis using byte [of i] byte [of "i + 1"] by (simp add: ld16_def add.assoc)
  qed
  then show ?thesis by (simp add: fat16_get_first_cluster_def)
qed

lemma opened_starts:
  fixes s :: "('d, 'a) fs_state_scheme"
  assumes "mounted s es" "kp.grows s s' ps (scratch s)" "opened (ram s') d (ram s) item"
    and "{d, ld32 (ram s') d, ld32 (ram s') (ld32 (ram s') d)} \<subseteq> set ps"
    and "unat (fat16_get_first_cluster (ram s) item) < 2147483648"
  defines "volume \<equiv> ld32 (ram s) (disk s + 16)" and "stream \<equiv> file_stream (ram s) (disk s)"
  shows "file_starts (ram s') (disk s) d
      (512 * unat (fat16_cluster_to_sector (ram s) volume (fat16_get_first_cluster (ram s) item))) (512 * unat (ram s (volume + 13)))"
    "file_structures (ram s') (disk s) d \<subseteq> disk_bytes s \<union> - kheap_owned s"
    "region stream 4 \<inter> file_structures (ram s') (disk s) d = {}"
proof -
  note kept = mounted_kept [OF assms(1,2), folded volume_def stream_def]
  have cl: "fat16_get_first_cluster (ram s') (file_item (ram s') d) = fat16_get_first_cluster (ram s) item"
    using first_cluster_copy assms(3) by (simp add: opened_def file_item_def)
  show "file_starts (ram s') (disk s) d
      (512 * unat (fat16_cluster_to_sector (ram s) volume (fat16_get_first_cluster (ram s) item))) (512 * unat (ram s (volume + 13)))"
    using kept(1,3,5,6,8) kept(7) [of 13] assms(5) by (simp add: file_starts_def cl fat16_cluster_to_sector_def)
  have fresh: "region p k \<subseteq> - kheap_owned s" if "p \<in> set ps" "unat k \<le> 4096" for p k
  proof -
    have "region p 4096 \<inter> kheap_owned s = {}" using assms(2) that(1) by (simp add: kp.grows_def)
    moreover have "region p k \<subseteq> region p 4096" using field_subset [of 0 k 4096 p] that(2) by simp
    ultimately show ?thesis by blast
  qed
  have pages: "region d 8 \<subseteq> - kheap_owned s" "region (ld32 (ram s') d) 8 \<subseteq> - kheap_owned s"
    "region (file_item (ram s') d) 32 \<subseteq> - kheap_owned s"
    using assms(4) fresh [of d 8] fresh [of "ld32 (ram s') d" 8] fresh [of "ld32 (ram s') (ld32 (ram s') d)" 32]
    by (simp_all add: file_item_def del: mem_region)
  have stream: "region (stream + 4) 4 \<subseteq> region stream 8" "region stream 4 \<subseteq> region stream 8"
    "region stream 4 \<inter> region (stream + 4) 4 = {}"
    using field_subset [of 4 4 8 stream] field_subset [of 0 4 8 stream] field_disjoint [of 0 4 4 4 stream] by simp_all
  have own: "disk_bytes s \<subseteq> kheap_owned s" "region stream 4 \<inter> (region (disk s) 20 \<union> region volume 92) = {}"
    using assms(1) unfolding mounted_def volume_def stream_def by blast+
  have bytes: "disk_bytes s = region (disk s) 20 \<union> region volume 92 \<union> region stream 8"
    by (simp add: disk_bytes_def volume_def stream_def)
  have structs: "file_structures (ram s') (disk s) d = region (disk s) 20 \<union> region volume 92 \<union> region (stream + 4) 4 \<union>
      region d 8 \<union> region (ld32 (ram s') d) 8 \<union> region (file_item (ram s') d) 32"
    using kept(3,5) by (simp add: file_structures_def)
  show "file_structures (ram s') (disk s) d \<subseteq> disk_bytes s \<union> - kheap_owned s"
    unfolding structs bytes using pages stream(1) by blast
  show "region stream 4 \<inter> file_structures (ram s') (disk s) d = {}"
    unfolding structs using pages stream(2,3) own unfolding bytes by blast
qed

text \<open>Opening a file and reading from it.\<close>

lemma fopen_fread_spec:
  fixes s :: "('d, 'a) fs_state_scheme" and es :: "(u8 list \<times> u8 list) list" and ys :: "u8 list"
  defines "fd \<equiv> of_nat (Suc (first_free_fd s)) :: u32" and "volume \<equiv> ld32 (ram s) (disk s + 16)"
    and "item \<equiv> entry_at (ram s) (root_dir s) (last (hits ys es 0))"
  defines "start \<equiv> 512 * unat (fat16_cluster_to_sector (ram s) volume (fat16_get_first_cluster (ram s) item))"
    and "cb \<equiv> 512 * unat (ram s (volume + 13))"
  assumes "mounted s es" "ata_device io xfer data" "fss (ld32 (ram s) (disk s + 12)) = fat16_functions io"
    and "cstr (ram s) filename (48 # of_char CHR '':'' # slash # ys)" "slash \<notin> set ys" "ys \<noteq> []" "length ys \<le> 105"
    and "str_bytes filename (3 + length ys) \<subseteq> kheap_owned s" "ram s mode = of_char CHR ''r''" "mode \<in> kheap_owned s"
    and "hits ys es 0 \<noteq> []" "no_directories (ram s) (root_dir s) (hits ys es 0)" "0 \<in> set (fd_table s)"
    and "7 + 2 * length (hits ys es 0) \<le> kheap_free s"
    and "unat (fat16_get_first_cluster (ram s) item) < 2147483648" "start + cb + 512 < 2147483648"
    and "0 < sz" "0 < n" "n * sz \<le> cb" "region out (of_nat (n * sz)) \<subseteq> kheap_owned s - disk_bytes s"
  shows "\<exists>s' m d. fopen fss filename mode s = Some (fd, s') \<and>
    fread fss out (of_nat sz) (of_nat n) fd s' = Some (of_nat n, s'\<lparr>ram := m, dev := d\<rparr>) \<and>
    (\<forall>k<n * sz. m (out + of_nat k) = disk_byte data (start + k))"
proof -
  obtain d s' ps where op: "fopen fss filename mode s = Some (fd, s')" "kp.grows s s' ps (scratch s)" "open_file s' fd d"
    "opened (ram s') d (ram s) item" "{d, ld32 (ram s') d, ld32 (ram s') (ld32 (ram s') d)} \<subseteq> set ps"
    using fopen_spec [where fss = fss, OF assms(6,8-19)] unfolding fd_def item_def by blast
  note same = grows_globals [OF op(2)] and kept = mounted_kept [OF assms(6) op(2)]
  note at = opened_starts [OF assms(6) op(2,4,5) assms(20), folded volume_def, folded start_def cb_def]
  have slot: "file_get_descriptor fd s' \<noteq> 0" "ld32 (ram s') (file_get_descriptor fd s' + 4) = ld32 (ram s) (disk s + 12)"
    "ld32 (ram s') (file_get_descriptor fd s' + 8) = d" "ld32 (ram s') (file_get_descriptor fd s' + 12) = disk s"
    using op(3) same(1) kept(2) by (simp_all add: open_file_def Let_def)
  have "region (file_stream (ram s) (disk s)) 4 \<subseteq> disk_bytes s"
    using field_subset [of 0 4 8 "file_stream (ram s) (disk s)"] by (auto simp: disk_bytes_def simp del: mem_region)
  then have "region out (of_nat (n * sz)) \<inter> (file_structures (ram s') (disk s) d \<union> region (file_stream (ram s) (disk s)) 4) = {}"
    using at(2) assms(25) by blast
  then show ?thesis
    using fread_spec [of io xfer data fd s' fss start cb 0 sz n out] assms(7,8,21-24) at slot op kept(5) same(1)
    by (simp add: opened_def del: mem_region) blast
qed

section \<open>Files that do not exist\<close>

lemma grows_outside: "kp.grows s s' ps D \<Longrightarrow> a \<in> kheap_owned s - D \<Longrightarrow> ram s' a = ram s a"
  using kp.grows_keeps by blast

lemma grows_fd_table:
  fixes s :: "('d, 'a) fs_state_scheme"
  assumes "kp.grows s s' ps (name_buffer s)" "region (file_descriptors s) 2048 \<subseteq> kheap_owned s - name_buffer s"
  shows "fd_table s' = fd_table s"
  using assms(2) grows_outside [OF assms(1)] by (intro fd_table_cong grows_globals(2) [OF assms(1)]) blast

lemma fopen_missing_spec:
  fixes s :: "('d, 'a) fs_state_scheme"
  assumes "mounted s es" "fss (ld32 (ram s) (disk s + 12)) = fat16_functions io"
    and "cstr (ram s) filename (48 # of_char CHR '':'' # slash # ys)" "slash \<notin> set ys" "ys \<noteq> []" "length ys \<le> 105"
    and "str_bytes filename (3 + length ys) \<subseteq> kheap_owned s" "ram s mode = of_char CHR ''r''" "mode \<in> kheap_owned s"
    and "\<forall>e\<in>set es. \<not> same_name ys e" "6 \<le> kheap_free s"
  obtains s' q where "fopen fss filename mode s = Some (0, s')" "kp.grows s s' [q] (name_buffer s)" "fd_table s' = fd_table s"
proof -
  have none: "hits ys es 0 = []" using assms(10) by (auto simp: hits_def filter_empty_conv)
  have "no_directories (ram s) (root_dir s) (hits ys es 0)" "6 + 2 * length (hits ys es 0) \<le> kheap_free s"
    using none assms(11) by (simp_all add: no_directories_def)
  from fopen_opens [OF assms(1,3-7) this, of io] obtain root s1 t q d s2 ps where
    run: "pathparser_parse filename 0 s = Some (root, s1)" "kp.grows s s1 [root, t, q] {}" "root \<noteq> 0" "ld32 (ram s1) root = 0"
    "ld32 (ram s1) (root + 4) = q" "q \<noteq> 0" "fat16_open io (disk s) q FILE_MODE_READ s1 = Some (if hits ys es 0 = [] then - EIO else d, s2)"
    and g: "kp.grows s s2 ([root, t, q] @ ps) (name_buffer s)" "length ps = 1 + 2 * length (hits ys es 0)"
    and free: "pathparser_free root s2 = Some (fold kFree [t, q, root] s2)"
    by metis
  have "kp.grows s s1 [root, t, q] (scratch s)" using run(2) by (rule kp.grows_mono) simp
  note kept1 = mounted_kept [OF assms(1) this] and same1 = grows_globals [OF run(2)]
  let ?s3 = "fold kFree [t, q, root] s2"
  have "kp.grows s s2 ([t, q, root] @ ps) (name_buffer s)"
    using g(1) by (rule kp.grows_perm) (use g(1) in \<open>auto simp: kp.grows_def\<close>)
  then have g3: "kp.grows s ?s3 ps (name_buffer s)" by (rule kp.grows_release_front)
  have "file_get_mode_by_string (ram s1) mode = FILE_MODE_READ"
    using assms(8,9) kp.grows_keeps [OF run(2)] by (intro mode_read) simp
  moreover have "disk s \<noteq> 0" "ld32 (ram s) (disk s + 12) \<noteq> 0" using assms(1) by (simp_all add: mounted_def)
  moreover have "ISERR (- EIO)" "- EIO <s PEACHOS_ALL_OK" by (simp_all add: ISERR_def word_sless_alt)
  ultimately have "fopen fss filename mode s = Some (0, ?s3)"
    using run(1,3-7) none same1(1) kept1(2) assms(2) free
    by (simp add: fopen_def fopen_body_def disk_get_def fat16_functions_def)
  moreover have "fd_table ?s3 = fd_table s" using assms(1) by (intro grows_fd_table [OF g3]) (simp add: mounted_def)
  moreover obtain p where "ps = [p]" using g(2) none by (auto simp: length_Suc_conv)
  ultimately show thesis using that g3 by metis
qed

text \<open>C13. Opening a name that no entry of the root directory has fails with 0: the table of descriptors and all
  memory in use, but the buffer for names, are as before.  The path is released again, but the page of the
  FAT16 descriptor is not: the heap has one free page less.\<close>

theorem fopen_not_found:
  fixes s :: "('d, 'a) fs_state_scheme"
  assumes "mounted s es" "fss (ld32 (ram s) (disk s + 12)) = fat16_functions io"
    and "cstr (ram s) filename (48 # of_char CHR '':'' # slash # ys)" "slash \<notin> set ys" "ys \<noteq> []" "length ys \<le> 105"
    and "str_bytes filename (3 + length ys) \<subseteq> kheap_owned s" "ram s mode = of_char CHR ''r''" "mode \<in> kheap_owned s"
    and "\<forall>e\<in>set es. \<not> same_name ys e" "6 \<le> kheap_free s"
  shows "\<exists>s'. fopen fss filename mode s = Some (0, s') \<and> kheap_inv s' \<and> kheap_free s' = kheap_free s - 1 \<and>
    fd_table s' = fd_table s \<and> (\<forall>a\<in>kheap_owned s - name_buffer s. ram s' a = ram s a)"
proof -
  obtain s' q where r: "fopen fss filename mode s = Some (0, s')" "kp.grows s s' [q] (name_buffer s)" "fd_table s' = fd_table s"
    using assms by (rule fopen_missing_spec [where fss = fss])
  have "kheap_inv s' \<and> kheap_free s' = kheap_free s - 1" using r(2) by (simp add: kp.grows_def)
  then show ?thesis using r(1,3) grows_outside [OF r(2)] by blast
qed

section \<open>Closing\<close>

lemma fat16_close_opened:
  assumes "opened (ram s) d m item" "kheap_inv s" "{ld32 (ram s) (ld32 (ram s) d), ld32 (ram s) d, d} \<subseteq> {p. kheap_page s p}"
    and "distinct [ld32 (ram s) (ld32 (ram s) d), ld32 (ram s) d, d]"
  shows "fat16_close d s = (0, fold kFree [ld32 (ram s) (ld32 (ram s) d), ld32 (ram s) d, d] s)"
  using assms(1) by (simp add: fat16_close_def fat16_free_file_descriptor_def fat16_fat_item_free_def opened_def item_copy_def)

lemma fclose_opened:
  fixes s :: "('d, 'a) fs_state_scheme"
  defines "f \<equiv> \<lambda>s d. ld32 (ram s) d" and "c \<equiv> \<lambda>s d. ld32 (ram s) (ld32 (ram s) d)"
  assumes "kp.grows s s' ([c s' d, f s' d, d, slot] @ qs) (scratch s)" "region (file_descriptors s) 2048 \<subseteq> kheap_owned s"
    and "open_file s' (of_nat (Suc j)) d" "file_get_descriptor (of_nat (Suc j)) s' = slot" "opened (ram s') d m item" "j < 512"
    and "fss (ld32 (ram s') (disk s' + 12)) = fat16_functions io"
  shows "\<exists>s''. fclose fss (of_nat (Suc j)) s' = Some (0, s'') \<and> kp.grows s s'' qs (scratch s) \<and> fd_table s'' = (fd_table s')[j := 0]"
proof -
  let ?ps = "[c s' d, f s' d, d]" and ?tbl = "region (file_descriptors s) 2048"
  define x where "x = fold kFree ?ps s'"
  have s': "kheap_inv s'" "distinct ?ps" "\<forall>p\<in>set ?ps. kheap_page s' p" "kheap_page s' slot" "slot \<notin> set ?ps"
    using assms(3) by (auto simp: kp.grows_def)
  have "kp.grows s s' (?ps @ [slot] @ qs) (scratch s)" using assms(3) by simp
  then have gx: "kp.grows s x ([slot] @ qs) (scratch s)" unfolding x_def by (rule kp.grows_release_front)
  note globals = grows_globals [OF assms(3)] and globals_x = grows_globals [OF gx]
  have x: "kheap_inv x" "kheap_page x slot" "?tbl \<subseteq> kheap_owned x - region slot 4096"
    using gx assms(4) by (auto simp: kp.grows_def simp del: mem_region)
  have keep: "ram x a = ram s' a" if "a \<in> kheap_owned x" for a
    using kp.release_list [OF s'(1-3)] that unfolding x_def by blast
  have "ld32 (ram s') slot = of_nat (Suc j)" using assms(5,6) by (simp add: open_file_def Let_def)
  moreover have "region slot 4 \<subseteq> kheap_owned x"
    using kp.page_owned [OF x(1,2)] pair_subset(1) [of slot] by blast
  then have "ld32 (ram x) slot = ld32 (ram s') slot" using keep by (intro ld32_cong) blast
  ultimately have index: "ld32 (ram x) slot = of_nat (Suc j)" by simp
  define y where "y = x\<lparr>ram := st32 (ram x) (file_descriptors x + 4 * of_nat j) 0\<rparr>"
  have "region (file_descriptors x + 4 * of_nat j) 4 \<subseteq> ?tbl" using slot_in_table [OF assms(8)] globals_x(2) by simp
  then have "kp.grows x y [] ?tbl"
    unfolding y_def using x same_outside_mono [OF same_outside_st32] by (intro kp.grows_write) blast+
  from kp.grows_trans [OF gx this] have "kp.grows s y ([slot] @ qs) (scratch s)" by (simp add: sup_assoc)
  then have g: "kp.grows s (fold kFree [slot] y) qs (scratch s)" by (rule kp.grows_release_front)
  have "file_free_descriptor slot x = fold kFree [slot] y" using index by (simp add: file_free_descriptor_def y_def)
  moreover have "close_fn (fss (ld32 (ram s') (slot + 4))) (ld32 (ram s') (slot + 8)) s' = Some (0, x)"
    using assms(5,6,9) fat16_close_opened [OF assms(7) s'(1)] s'(2,3)
    by (simp add: open_file_def Let_def fat16_functions_def x_def f_def c_def)
  moreover have "slot \<noteq> 0" using assms(5,6) by (simp add: open_file_def Let_def)
  ultimately have "fclose fss (of_nat (Suc j)) s' = Some (0, fold kFree [slot] y)"
    using assms(6) by (simp add: fclose_def Let_def)
  moreover have "fd_table (fold kFree [slot] y) = (fd_table s')[j := 0]"
  proof -
    have "fd_table (file_free_descriptor slot x) = (fd_table x)[j := 0]"
      using x index assms(8) globals_x(2) by (intro new_descriptor_released) simp_all
    moreover have "fd_table x = fd_table s'" using x(3) keep globals(2) globals_x(2) by (intro fd_table_cong) auto
    ultimately show ?thesis using \<open>file_free_descriptor slot x = fold kFree [slot] y\<close> by simp
  qed
  ultimately show ?thesis using g by blast
qed

lemma rest_of_pages:
  assumes "distinct ps" "distinct rs" "set rs \<subseteq> set ps"
  obtains qs where "distinct (rs @ qs)" "set (rs @ qs) = set ps" "length qs = length ps - length rs"
proof
  let ?qs = "filter (\<lambda>p. p \<notin> set rs) ps"
  show d: "distinct (rs @ ?qs)" and e: "set (rs @ ?qs) = set ps" using assms by auto
  have "length (rs @ ?qs) = length ps" using distinct_card [OF d] distinct_card [OF assms(1)] unfolding e by simp
  then show "length ?qs = length ps - length rs" by simp
qed

text \<open>C10. Opening a file and closing it again: the number is free again, the table of descriptors is as it was and so is all
  memory in use, and the pages of the file's descriptors, its item and its entry are released.  What is not
  released are the three pages of the parsed path (and the clones of other entries with the name).\<close>

theorem fopen_fclose:
  fixes s :: "('d, 'a) fs_state_scheme"
  defines "fd \<equiv> of_nat (Suc (first_free_fd s)) :: u32"
  assumes "mounted s es" "fss (ld32 (ram s) (disk s + 12)) = fat16_functions io"
    and "cstr (ram s) filename (48 # of_char CHR '':'' # slash # ys)" "slash \<notin> set ys" "ys \<noteq> []" "length ys \<le> 105"
    and "str_bytes filename (3 + length ys) \<subseteq> kheap_owned s" "ram s mode = of_char CHR ''r''" "mode \<in> kheap_owned s"
    and "hits ys es 0 \<noteq> []" "no_directories (ram s) (root_dir s) (hits ys es 0)" "0 \<in> set (fd_table s)"
    and "7 + 2 * length (hits ys es 0) \<le> kheap_free s"
  shows "\<exists>s' s''. fopen fss filename mode s = Some (fd, s') \<and> fclose fss fd s' = Some (0, s'') \<and> fd_table s'' = fd_table s \<and>
    kheap_inv s'' \<and> kheap_free s'' + 3 + 2 * (length (hits ys es 0) - 1) = kheap_free s \<and>
    (\<forall>a\<in>kheap_owned s - scratch s. ram s'' a = ram s a)"
proof -
  obtain d s' ps where op: "fopen fss filename mode s = Some (fd, s')" "kp.grows s s' ps (scratch s)" "open_file s' fd d"
    "opened (ram s') d (ram s) (entry_at (ram s) (root_dir s) (last (hits ys es 0)))"
    "fd_table s' = (fd_table s)[first_free_fd s := file_get_descriptor fd s']" "length ps = 5 + 2 * length (hits ys es 0)"
    and pages: "distinct [ld32 (ram s') (ld32 (ram s') d), ld32 (ram s') d, d, file_get_descriptor fd s']"
    "{ld32 (ram s') (ld32 (ram s') d), ld32 (ram s') d, d, file_get_descriptor fd s'} \<subseteq> set ps"
    using fopen_spec [where fss = fss, OF assms(2-)] unfolding fd_def by blast
  let ?rs = "[ld32 (ram s') (ld32 (ram s') d), ld32 (ram s') d, d, file_get_descriptor fd s']"
  have "distinct ps" using op(2) by (simp add: kp.grows_def)
  then obtain qs where qs: "distinct (?rs @ qs)" "set (?rs @ qs) = set ps" "length qs = length ps - length ?rs"
    by (rule rest_of_pages [OF _ pages(1)]) (use pages(2) in simp)
  have g: "kp.grows s s' (?rs @ qs) (scratch s)" using op(2) qs(1,2) by (rule kp.grows_perm)
  have j: "first_free_fd s < 512" using first_free_fd(1,4) [of s] assms(13) by auto
  have tbl: "region (file_descriptors s) 2048 \<subseteq> kheap_owned s" using assms(2) unfolding mounted_def by blast
  have "fss (ld32 (ram s') (disk s' + 12)) = fat16_functions io"
    using mounted_kept(2) [OF assms(2) op(2)] grows_globals(1) [OF op(2)] assms(3) by simp
  with fclose_opened [OF g tbl op(3) [unfolded fd_def] _ op(4) j] obtain s'' where
    cl: "fclose fss fd s' = Some (0, s'')" "kp.grows s s'' qs (scratch s)" "fd_table s'' = (fd_table s')[first_free_fd s := 0]"
    unfolding fd_def by blast
  have "fd_table s ! first_free_fd s = 0" using first_free_fd(3) [OF j] fd_table_nth [OF j, of s] by simp
  then have "fd_table s'' = fd_table s"
    using cl(3) op(5) list_update_id [of "fd_table s" "first_free_fd s"] by simp
  moreover have "kheap_inv s''" "kheap_free s'' + 3 + 2 * (length (hits ys es 0) - 1) = kheap_free s"
    using cl(2) qs(3) op(6) assms(11) by (cases "hits ys es 0"; simp add: kp.grows_def)+
  ultimately show ?thesis using op(1) cl(1) grows_outside [OF cl(2)] by blast
qed

text \<open>A volume with one file, \<^verbatim>\<open>B\<close>, of 600 bytes that starts at cluster 3, and the strings \<^verbatim>\<open>0:/b\<close>, \<^verbatim>\<open>0:/c\<close> and \<^verbatim>\<open>r\<close>.\<close>

definition demo_ready :: "model_drive fs_state" where
  "demo_ready = KheapInit (demo_volume\<lparr>ram := \<lambda>_. 0, disk := 0x20000, file_descriptors := 0x24000\<rparr>)"

definition demo_root :: mem where
  "demo_root = st32 (st32 (st32 (st32 (st32 (st32 (st32 (st32 (st32 (st32 (st32 (st32 (st32 (st32 (st32 (st32 (\<lambda>_. 0)
     0x20004 512) 0x2000C 0x27000) 0x20010 0x21000) 0x2100C 0x400) 0x21040 0x23000) 0x21044 1) 0x2104C 40) 0x21050 0x22000)
     0x22004 0x20000) 0x23000 0x2042) 0x23008 0x20) 0x23018 0x30000) 0x25000 0x622F3A30) 0x26000 0x72) 0x25100 0x632F3A30) 0x2301C 600"

definition demo_mounted :: "model_drive fs_state" where
  "demo_mounted = demo_ready\<lparr>ram := demo_root\<rparr>"

lemma demo_root_words:
  "ld32 demo_root 0x20004 = 512" "ld32 demo_root 0x2000C = 0x27000" "ld32 demo_root 0x20010 = 0x21000"
  "ld32 demo_root 0x21040 = 0x23000" "ld32 demo_root 0x21044 = 1" "ld32 demo_root 0x2104C = 40" "ld32 demo_root 0x21050 = 0x22000"
  "ld32 demo_root 0x22004 = 0x20000"
  "ld32 demo_root 0x2301C = 600"
  by (simp_all add: demo_root_def ld32_st32)

lemma demo_root_bytes:
  "demo_root 0x2100D = 4" "demo_root 0x23000 = 0x42" "demo_root 0x23001 = 0x20" "demo_root 0x23008 = 0x20" "demo_root 0x2300B = 0"
  "demo_root 0x23014 = 0" "demo_root 0x23015 = 0" "demo_root 0x2301A = 3" "demo_root 0x2301B = 0"
  "demo_root 0x25000 = 0x30" "demo_root 0x25001 = 0x3A" "demo_root 0x25002 = 0x2F" "demo_root 0x25003 = 0x62" "demo_root 0x25004 = 0"
  "demo_root 0x26000 = 0x72" "demo_root 0x25100 = 0x30" "demo_root 0x25101 = 0x3A" "demo_root 0x25102 = 0x2F"
  "demo_root 0x25103 = 0x63" "demo_root 0x25104 = 0"
  by (simp_all add: demo_root_def st32_def)

lemma demo_low_owned: "{a. 0x1F000 < unat a \<and> unat a < 0x1000000} \<subseteq> kheap_owned demo_ready"
  unfolding demo_ready_def KheapInit_owned by (auto simp: region_unat simp del: mem_region)

lemma same_outside_st32_in: "same_outside R m m' \<Longrightarrow> region a 4 \<subseteq> R \<Longrightarrow> same_outside R m (st32 m' a v)"
  using same_outside_trans [OF _ same_outside_st32 order_refl] by blast

lemma demo_root_low: "same_outside {a. 0x1F000 < unat a \<and> unat a < 0x1000000} (\<lambda>_. 0) demo_root"
  unfolding demo_root_def
  by (intro same_outside_st32_in same_outside_refl) (auto simp: region_unat simp del: mem_region)

lemma demo_mounted_heap: "kp.grows demo_ready demo_mounted [] {a. 0x1F000 < unat a \<and> unat a < 0x1000000}"
proof -
  have "ram demo_ready = (\<lambda>_. 0)"
    by (auto simp: demo_ready_def KheapInit_eq InitializeHeapTable_memset memset_apply)
  moreover have "kheap_inv demo_ready" unfolding demo_ready_def by (rule KheapInit_ready)
  ultimately show ?thesis
    unfolding demo_mounted_def using demo_root_low demo_low_owned by (intro kp.grows_write) simp_all
qed

lemma demo_mounted_state:
  "disk demo_mounted = 0x20000" "file_descriptors demo_mounted = 0x24000" "kstack demo_mounted = 0x1F0000"
  "kernelHeap demo_mounted = kernel_heap" "ram demo_mounted = demo_root"
  by (simp_all add: demo_mounted_def demo_ready_def KheapInit_eq demo_volume_def)

lemma demo_mounted_ready:
  "kheap_inv demo_mounted" "kheap_free demo_mounted = 25600" "{a. 0x1F000 < unat a \<and> unat a < 0x1000000} \<subseteq> kheap_owned demo_mounted"
  using demo_mounted_heap demo_low_owned KheapInit_ready(2) [of "demo_volume\<lparr>ram := \<lambda>_. 0, disk := 0x20000, file_descriptors := 0x24000\<rparr>"]
  by (auto simp: kp.grows_def demo_ready_def)

lemma demo_region:
  assumes "0x1F000 < unat p" "unat p + unat n < 0x1000000"
  shows "region p n \<subseteq> kheap_owned demo_mounted"
  using assms demo_mounted_ready(3) by (intro order_trans [OF _ demo_mounted_ready(3)]) (auto simp: region_unat simp del: mem_region)

lemma demo_mounted_volume: "mounted demo_mounted [([66], [])]"
proof -
  note st = demo_mounted_state and w = demo_root_words and b = demo_root_bytes
  have at: "file_stream demo_root 0x20000 = 0x22000" "root_dir demo_mounted = 0x21040" "entry_at demo_root 0x21040 0 = 0x23000"
    using w by (simp_all add: file_stream_def root_dir_def entry_at_def st)
  have bytes: "directory_bytes demo_root 0x21040 [([66], [])] = region 0x21040 8 \<union> region 0x23000 32"
    using at(3) by (simp add: directory_bytes_def lessThan_Suc)
  have "directory demo_root 0x21040 [([66], [])]" using at(3) w b by (simp add: directory_def)
  moreover have "region 0x21040 8 \<union> region 0x23000 32 \<subseteq> kheap_owned demo_mounted - region 0x1F0000 108"
    using demo_region [of "0x21040" 8] demo_region [of "0x23000" 32] by (auto simp: region_unat simp del: mem_region)
  ultimately have "dir_ok demo_mounted 0x21040 [([66], [])]"
    using demo_mounted_ready(1) demo_region [of "0x1F0000" 108] by (simp add: dir_ok_def st bytes del: mem_region)
  moreover have "region 0x24000 2048 \<subseteq> kheap_owned demo_mounted - region 0x1F0000 108"
    using demo_region [of "0x24000" 2048] by (auto simp: region_unat simp del: mem_region)
  moreover have "region 0x20000 20 \<union> region 0x21000 92 \<union> region 0x22000 8 \<subseteq> kheap_owned demo_mounted - region 0x1F0000 108 - region 0x24000 2048"
    using demo_region [of "0x20000" 20] demo_region [of "0x21000" 92] demo_region [of "0x22000" 8] by (auto simp: region_unat simp del: mem_region)
  moreover have "region 0x22000 4 \<inter> (region 0x20000 20 \<union> region 0x21000 92) = ({} :: addr set)"
    by (auto simp: region_unat simp del: mem_region)
  ultimately show ?thesis using w by (simp add: mounted_def disk_bytes_def st at del: mem_region)
qed

lemma demo_hits: "hits [98] [([66], [])] 0 = [0]"
  by (simp add: hits_def same_name_def entry_name_def toLower_def word_sle_eq)

lemma demo_files:
  "root_dir demo_mounted = 0x21040" "entry_at demo_root 0x21040 0 = 0x23000"
  "cstr demo_root 0x25000 (48 # of_char CHR '':'' # slash # [98])" "str_bytes 0x25000 4 \<subseteq> kheap_owned demo_mounted"
  "cstr demo_root 0x25100 (48 # of_char CHR '':'' # slash # [99])" "str_bytes 0x25100 4 \<subseteq> kheap_owned demo_mounted"
  "0x26000 \<in> kheap_owned demo_mounted" "no_directories demo_root 0x21040 [0]"
  "0 \<in> set (fd_table demo_mounted)" "first_free_fd demo_mounted = 0"
proof -
  note st = demo_mounted_state and w = demo_root_words and b = demo_root_bytes
  show at: "root_dir demo_mounted = 0x21040" "entry_at demo_root 0x21040 0 = 0x23000"
    using w by (simp_all add: root_dir_def entry_at_def st)
  show "cstr demo_root 0x25000 (48 # of_char CHR '':'' # slash # [98])" using b by (simp add: slash_def)
  show "cstr demo_root 0x25100 (48 # of_char CHR '':'' # slash # [99])" using b by (simp add: slash_def)
  show "str_bytes 0x25000 4 \<subseteq> kheap_owned demo_mounted" "str_bytes 0x25100 4 \<subseteq> kheap_owned demo_mounted"
    using str_bytes_region [of 4 5 "0x25000"] demo_region [of "0x25000" 5] str_bytes_region [of 4 5 "0x25100"] demo_region [of "0x25100" 5]
    by (simp_all del: mem_region)
  show "0x26000 \<in> kheap_owned demo_mounted" using demo_mounted_ready(3) by auto
  show "no_directories demo_root 0x21040 [0]" using at(2) b by (simp add: no_directories_def)
  have "ld32 demo_root 0x24000 = 0" by (simp add: demo_root_def ld32_st32) (simp add: ld32_def)
  then have empty: "fd_table demo_mounted ! 0 = 0" by (simp add: fd_table_nth st)
  show "0 \<in> set (fd_table demo_mounted)" using empty nth_mem [of 0 "fd_table demo_mounted"] by simp
  show "first_free_fd demo_mounted = 0" using empty first_free_fd(2) [of demo_mounted] by (metis not_gr_zero)
qed

theorem fopen_fclose_witness:
  "\<exists>s' s''. fopen (\<lambda>_. fat16_functions (model_ports demo_content)) 0x25000 0x26000 demo_mounted = Some (1, s') \<and>
    fclose (\<lambda>_. fat16_functions (model_ports demo_content)) 1 s' = Some (0, s'') \<and> kheap_free s'' = 25597"
  using fopen_fclose [where s = demo_mounted and fss = "\<lambda>_. fat16_functions (model_ports demo_content)" and ys = "[98]"
      and filename = "0x25000" and mode = "0x26000", OF demo_mounted_volume refl]
    demo_files demo_mounted_ready(2) demo_root_bytes
  by (auto simp: demo_mounted_state demo_hits slash_def simp del: mem_region)

theorem fopen_not_found_witness:
  "\<exists>s'. fopen (\<lambda>_. fat16_functions (model_ports demo_content)) 0x25100 0x26000 demo_mounted = Some (0, s') \<and>
    kheap_free s' = 25599"
proof -
  have "\<not> same_name [99] ([66], [])" by (simp add: same_name_def entry_name_def toLower_def word_sle_eq)
  then show ?thesis
    using fopen_not_found [where s = demo_mounted and fss = "\<lambda>_. fat16_functions (model_ports demo_content)" and ys = "[99]"
        and filename = "0x25100" and mode = "0x26000", OF demo_mounted_volume refl]
      demo_files demo_mounted_ready(2) demo_root_bytes
    by (auto simp: demo_mounted_state slash_def simp del: mem_region)
qed

section \<open>Looking up a name\<close>

text \<open>C15. Looking up a name in a directory in which no entry with that name, up to case, is a subdirectory, by a heap with two free
  pages for each of these entries: with no entry of that name the result is a null pointer; otherwise it is a new item
  with a byte-for-byte copy of the last entry with the name.  Every entry with the name takes two pages of the
  heap, and nothing in use but the buffer for names is written.  For an entry that is a subdirectory the code loads
  the directory as well, which takes more pages and writes through the disk's streams; that case is outside.\<close>

theorem fat16_find_item_last:
  fixes s :: "('d, 'a) fs_state_scheme"
  assumes "lookup_ok s dir es name ys" "no_directories (ram s) dir (hits ys es 0)" "2 * length (hits ys es 0) \<le> kheap_free s"
  shows "\<exists>f s'. fat16_find_item_in_directory io idisk dir name s = Some (f, s') \<and>
    (if hits ys es 0 = [] then f = 0 else item_copy (ram s') f (ram s) (entry_at (ram s) dir (last (hits ys es 0)))) \<and>
    kheap_inv s' \<and> kheap_free s' + 2 * length (hits ys es 0) = kheap_free s \<and>
    (\<forall>a\<in>kheap_owned s - name_buffer s. ram s' a = ram s a)"
proof -
  obtain f s' ps where r: "find_item_loop io idisk dir name 0 0 s = Some (f, s')" "kp.grows s s' ps (name_buffer s)"
    "length ps = 2 * length (hits ys es 0)"
    "if hits ys es 0 = [] then f = 0
     else item_copy (ram s') f (ram s) (entry_at (ram s) dir (last (hits ys es 0))) \<and> {f, ld32 (ram s') f} \<subseteq> set ps"
    using find_loop_spec [OF _ assms, of io idisk 0] by auto
  have "kheap_inv s' \<and> kheap_free s' + 2 * length (hits ys es 0) = kheap_free s" using r(2,3) by (simp add: kp.grows_def)
  then show ?thesis
    using r(1,4) grows_outside [OF r(2)] by (auto simp: fat16_find_item_in_directory_def split: if_splits simp del: mem_region)
qed

theorem fat16_find_item_last_witness:
  "\<exists>f s'. fat16_find_item_in_directory (model_ports demo_content) 0x20000 0x21040 0x25003 demo_mounted = Some (f, s') \<and>
    item_copy (ram s') f demo_root 0x23000"
proof -
  have "str_bytes 0x25003 1 \<subseteq> region 0x25003 2" by (rule str_bytes_region) simp
  moreover have "region 0x25003 2 \<subseteq> kheap_owned demo_mounted - region 0x1F0000 108"
    using demo_region [of "0x25003" 2] by (auto simp: region_unat simp del: mem_region)
  ultimately have "lookup_ok demo_mounted 0x21040 [([66], [])] 0x25003 [98]"
    using demo_mounted_volume demo_files(1) demo_root_bytes
    by (simp add: lookup_ok_def mounted_def demo_mounted_state del: mem_region)
  from fat16_find_item_last [OF this, of "model_ports demo_content" "0x20000"] show ?thesis
    using demo_files demo_mounted_ready(2) by (auto simp: demo_hits demo_mounted_state simp del: mem_region)
qed

end
