(* ===== verification/Mount.thy ===== *)
theory Mount
  imports Open
begin

text \<open>
  Mounting the disk: \<open>fat16_resolve\<close> reads the header and the root directory of the volume, and leaves the disk
  as the lemmas on opening a file require it (\<open>mounted\<close>).  The content of the disk is seen as a memory of
  its own, \<open>disk_image\<close>, so that header and directory entries on the disk are read like those in memory.
\<close>

section \<open>Steps that use the disk\<close>

text \<open>\<open>io_grows s s' ps D\<close>: like \<open>grows\<close>, for steps that also change the state of the devices.\<close>

definition io_grows :: "('d, 'a) fs_state_scheme \<Rightarrow> ('d, 'a) fs_state_scheme \<Rightarrow> addr list \<Rightarrow> addr set \<Rightarrow> bool" where
  "io_grows s s' ps D \<longleftrightarrow> kp.grows (s\<lparr>dev := dev s'\<rparr>) s' ps D"

lemma heap_dev [simp]:
  fixes s :: "('d, 'a) disk_state_scheme"
  shows "kheap_inv (s\<lparr>dev := d\<rparr>) = kheap_inv s" "kheap_owned (s\<lparr>dev := d\<rparr>) = kheap_owned s"
    "kheap_free (s\<lparr>dev := d\<rparr>) = kheap_free s" "kheap_page (s\<lparr>dev := d\<rparr>) = kheap_page s"
  by (simp_all add: kheap_inv_def kheap_owned_def kheap_free_def kheap_page_def fun_eq_iff)

lemma grows_dev:
  fixes s :: "('d, 'a) fs_state_scheme"
  assumes "kp.grows s s' ps D"
  shows "kp.grows (s\<lparr>dev := d\<rparr>) (s'\<lparr>dev := d\<rparr>) ps D"
proof -
  have "s\<lparr>ram := ram s'\<rparr>\<lparr>dev := d\<rparr> = s\<lparr>dev := d\<rparr>\<lparr>ram := ram s'\<rparr>" by simp
  then have "s'\<lparr>dev := d\<rparr> = s\<lparr>dev := d\<rparr>\<lparr>ram := ram (s'\<lparr>dev := d\<rparr>)\<rparr>" using grows_state [OF assms] by simp
  moreover have "ram (s\<lparr>dev := d\<rparr>) = ram s" "ram (s'\<lparr>dev := d\<rparr>) = ram s'" by simp_all
  ultimately show ?thesis using assms unfolding kp.grows_def heap_dev by (elim conjE) (intro conjI; simp only:)
qed

lemma grows_io:
  fixes s :: "('d, 'a) fs_state_scheme"
  assumes "kp.grows s s' ps D"
  shows "io_grows s s' ps D"
proof -
  have "dev (s\<lparr>ram := ram s'\<rparr>) = dev s" by simp
  then have "dev s' = dev s" using grows_state [OF assms] by metis
  then show ?thesis using assms by (simp add: io_grows_def)
qed

lemma io_grows_trans:
  assumes "io_grows s s1 ps D" "io_grows s1 s2 qs E"
  shows "io_grows s s2 (ps @ qs) (D \<union> E)"
  using kp.grows_trans [OF grows_dev [OF assms(1) [unfolded io_grows_def], of "dev s2"] assms(2) [unfolded io_grows_def]]
  by (simp add: io_grows_def)

lemma io_grows_mono: "io_grows s s' ps D \<Longrightarrow> D \<inter> kheap_owned s \<subseteq> E \<Longrightarrow> io_grows s s' ps E"
  unfolding io_grows_def by (rule kp.grows_mono) simp_all

lemma io_grows_write:
  fixes s :: "('d, 'a) fs_state_scheme"
  assumes "kheap_inv s" "same_outside D (ram s) m" "D \<subseteq> kheap_owned s"
  shows "io_grows s (s\<lparr>ram := m, dev := d\<rparr>) [] D"
  using grows_dev [OF kp.grows_write [of s D m], of d] assms by (simp add: io_grows_def)

lemma io_grows_heap:
  assumes "io_grows s s' ps D"
  shows "kheap_inv s" "kheap_inv s'" "kheap_owned s' = kheap_owned s \<union> (\<Union>p\<in>set ps. region p 4096)"
    "kheap_free s = kheap_free s' + length ps" "distinct ps" "\<And>q. kheap_page s q \<Longrightarrow> kheap_page s' q"
    "\<And>p. p \<in> set ps \<Longrightarrow> kheap_page s' p \<and> region p 4096 \<inter> kheap_owned s = {}"
  using assms by (auto simp: io_grows_def kp.grows_def simp del: mem_region)

lemma io_grows_keeps: "io_grows s s' ps D \<Longrightarrow> a \<in> kheap_owned s \<Longrightarrow> a \<notin> D \<Longrightarrow> ram s' a = ram s a"
  using kp.grows_keeps [of "s\<lparr>dev := dev s'\<rparr>" s' ps D a] by (simp add: io_grows_def)

lemma io_grows_word:
  assumes "io_grows s s' ps D" "region p 4 \<subseteq> kheap_owned s - D"
  shows "ld32 (ram s') p = ld32 (ram s) p"
  using assms(2) io_grows_keeps [OF assms(1)] by (intro ld32_cong) blast

lemma io_grows_globals:
  assumes "io_grows s s' ps D"
  shows "disk s' = disk s" "file_descriptors s' = file_descriptors s" "kstack s' = kstack s" "kernelHeap s' = kernelHeap s"
    "fat16_fs s' = fat16_fs s" "filesystems s' = filesystems s"
proof -
  have *: "s' = s\<lparr>dev := dev s'\<rparr>\<lparr>ram := ram s'\<rparr>" by (rule grows_state) (use assms in \<open>simp add: io_grows_def\<close>)
  show "disk s' = disk s" "file_descriptors s' = file_descriptors s" "kstack s' = kstack s" "kernelHeap s' = kernelHeap s"
    "fat16_fs s' = fat16_fs s" "filesystems s' = filesystems s"
    by (subst *, simp)+
qed

lemma io_grows_release_front:
  assumes "io_grows s s' (ps @ qs) D"
  shows "io_grows s (fold kFree ps s') qs D"
proof -
  have "kp.grows (s\<lparr>dev := dev s'\<rparr>) (fold kFree ps s') qs D"
    using assms unfolding io_grows_def by (rule kp.grows_release_front)
  moreover have "dev (fold kFree ps s') = dev s'" by (subst kp.fold_release_only_mem) simp
  ultimately show ?thesis by (simp add: io_grows_def)
qed

section \<open>A stream\<close>

definition stream_at :: "('d, 'a) fs_state_scheme \<Rightarrow> addr \<Rightarrow> nat \<Rightarrow> bool" where
  "stream_at s p pos \<longleftrightarrow> kheap_page s p \<and> ld32 (ram s) p = of_nat pos \<and> ld32 (ram s) (p + 4) = disk s"

lemma stream_at_grows:
  assumes "io_grows s s' ps D" "stream_at s p pos" "region p 4096 \<inter> D = {}"
  shows "stream_at s' p pos"
proof -
  note p = kp.page_owned [OF io_grows_heap(1) [OF assms(1)], of p]
  have "ld32 (ram s') p = ld32 (ram s) p" "ld32 (ram s') (p + 4) = ld32 (ram s) (p + 4)"
    using p assms(2,3) pair_subset [of p] unfolding stream_at_def by (intro io_grows_word [OF assms(1)]; blast)+
  then show ?thesis using assms(2) io_grows_heap(6) [OF assms(1)] io_grows_globals(1) [OF assms(1)] by (simp add: stream_at_def)
qed

lemma diskSteamerNew_spec:
  fixes s :: "('d, 'a) fs_state_scheme"
  assumes "kheap_inv s" "0 < kheap_free s" "disk s \<noteq> 0"
  obtains p s' where "diskSteamerNew 0 s = (p, s')" "kp.grows s s' [p] {}" "stream_at s' p 0" "p \<noteq> 0"
proof -
  define p where "p = fst (kZalloc 8 s)"
  define s' where "s' = s\<lparr>ram := st32 (st32 (ram (snd (kZalloc 8 s))) p 0) (p + 4) (disk s)\<rparr>"
  note l = kz.alloc_laws [OF assms(1) _ _ assms(2), of 8, folded p_def, simplified]
  have out: "same_outside (region p 4096) (ram (snd (kZalloc 8 s))) (st32 (st32 (ram (snd (kZalloc 8 s))) p 0) (p + 4) (disk s))"
    using pair_subset [of p] l(2) by (intro same_outside_st32_in same_outside_refl) blast+
  have g: "kp.grows s s' [p] {}"
    using kp.grows_alloc [OF assms(1) _ _ assms(2), of 8 "{}"] out by (simp add: s'_def p_def)
  show thesis
  proof
    show "diskSteamerNew 0 s = (p, s')"
      using assms(3) by (simp add: diskSteamerNew_def disk_get_def case_prod_beta p_def [symmetric] kz.set_alloc s'_def)
    show "kp.grows s s' [p] {}" by (rule g)
    show "stream_at s' p 0" using g l(2) by (simp add: stream_at_def kp.grows_def s'_def pair_words)
    show "p \<noteq> 0" using l(2) by simp
  qed
qed

text \<open>A new stream whose address is stored in a field.\<close>

lemma store_stream:
  fixes s :: "('d, 'a) fs_state_scheme"
  assumes "kheap_inv s" "0 < kheap_free s" "disk s \<noteq> 0" "ld32 (ram s) (disk s + 8) = 0" "region q 4 \<subseteq> kheap_owned s"
  obtains p s1 where "diskSteamerNew (ld32 (ram s) (disk s + 8)) s = (p, s1)"
    "kp.grows s (s1\<lparr>ram := st32 (ram s1) q p\<rparr>) [p] (region q 4)" "stream_at (s1\<lparr>ram := st32 (ram s1) q p\<rparr>) p 0"
proof -
  obtain p s1 where n: "diskSteamerNew 0 s = (p, s1)" "kp.grows s s1 [p] {}" "stream_at s1 p 0"
    using diskSteamerNew_spec [OF assms(1-3)] by metis
  have own: "kheap_inv s1" "kheap_owned s1 = kheap_owned s \<union> region p 4096" "region p 4096 \<inter> kheap_owned s = {}"
    using n(2) by (simp_all add: kp.grows_def)
  have w: "kp.grows s1 (s1\<lparr>ram := st32 (ram s1) q p\<rparr>) [] (region q 4)"
    using own assms(5) by (intro kp.grows_write same_outside_st32) auto
  have "region p 4096 \<inter> region q 4 = {}" using own(3) assms(5) by blast
  then have "stream_at (s1\<lparr>ram := st32 (ram s1) q p\<rparr>) p 0" using stream_at_grows [OF grows_io [OF w] n(3)] by simp
  moreover have "kp.grows s (s1\<lparr>ram := st32 (ram s1) q p\<rparr>) [p] (region q 4)" using kp.grows_trans [OF n(2) w] by simp
  ultimately show thesis using that n(1) assms(4) by simp
qed

section \<open>The structure of a volume\<close>

lemma add_stream:
  fixes s t :: "('d, 'a) fs_state_scheme"
  assumes "kp.grows s t ps (region v 92)" "disk s \<noteq> 0" "ld32 (ram s) (disk s + 8) = 0" "region (disk s) 20 \<subseteq> kheap_owned s"
    and "region v 92 \<subseteq> kheap_owned s" "region v 92 \<inter> region (disk s) 20 = {}" "unat k + 4 \<le> 92" "length ps < kheap_free s"
  obtains p t1 t' where "diskSteamerNew (ld32 (ram t) (disk s + 8)) t = (p, t1)" "t' = t1\<lparr>ram := st32 (ram t1) (v + k) p\<rparr>"
    "kp.grows s t' (ps @ [p]) (region v 92)" "kp.grows t t' [p] (region (v + k) 4)" "stream_at t' p 0" "ld32 (ram t') (v + k) = p"
proof -
  have field: "region (v + k) 4 \<subseteq> region v 92" using field_subset [of k 4 92 v] assms(7) by simp
  have "region (disk s + 8) 4 \<subseteq> region (disk s) 20" using field_subset [of 8 4 20 "disk s"] by simp
  then have id8: "ld32 (ram t) (disk s + 8) = 0"
    using grows_word [OF assms(1), of "disk s + 8" 4 0] assms(3,4,6) by auto
  have t: "kheap_inv t" "0 < kheap_free t" "kheap_owned s \<subseteq> kheap_owned t"
    using assms(1,8) by (auto simp: kp.grows_def simp del: mem_region)
  then have "region (v + k) 4 \<subseteq> kheap_owned t" using field assms(5) by blast
  then obtain p t1 where n: "diskSteamerNew (ld32 (ram t) (disk t + 8)) t = (p, t1)"
      "kp.grows t (t1\<lparr>ram := st32 (ram t1) (v + k) p\<rparr>) [p] (region (v + k) 4)"
      "stream_at (t1\<lparr>ram := st32 (ram t1) (v + k) p\<rparr>) p 0"
    using store_stream [of t "v + k"] id8 assms(2) t(1,2) grows_globals(1) [OF assms(1)] by metis
  moreover have "kp.grows s (t1\<lparr>ram := st32 (ram t1) (v + k) p\<rparr>) (ps @ [p]) (region v 92)"
    using kp.grows_trans [OF assms(1) n(2)] field by (simp add: Un_absorb2)
  ultimately show thesis using that grows_globals(1) [OF assms(1)] by simp
qed

lemma init_private_spec:
  fixes s :: "('d, 'a) fs_state_scheme"
  assumes "kheap_inv s" "3 \<le> kheap_free s" "disk s \<noteq> 0" "ld32 (ram s) (disk s + 8) = 0" "region (disk s) 20 \<subseteq> kheap_owned s"
    and "region v 92 \<subseteq> kheap_owned s" "region v 92 \<inter> region (disk s) 20 = {}"
  obtains a b c s' where "fat16_init_private (disk s) v s = s'" "kp.grows s s' [a, b, c] (region v 92 \<union> region (disk s + 16) 4)"
    "ld32 (ram s') (v + 80) = a" "ld32 (ram s') (v + 88) = c" "stream_at s' a 0" "stream_at s' c 0" "ld32 (ram s') (disk s + 16) = v"
proof -
  define s1 where "s1 = s\<lparr>ram := memset (ram s) v 0 92\<rparr>"
  have g1: "kp.grows s s1 [] (region v 92)" unfolding s1_def using assms(1,6) by (intro kp.grows_write memset_frame)
  obtain a t1 s3 where a: "diskSteamerNew (ld32 (ram s1) (disk s + 8)) s1 = (a, t1)" "s3 = t1\<lparr>ram := st32 (ram t1) (v + 80) a\<rparr>"
    "kp.grows s s3 [a] (region v 92)" "stream_at s3 a 0" "ld32 (ram s3) (v + 80) = a"
    by (rule add_stream [OF g1 assms(3-7), of 80]) (use assms(2) in auto)
  obtain b t2 s5 where b: "diskSteamerNew (ld32 (ram s3) (disk s + 8)) s3 = (b, t2)" "s5 = t2\<lparr>ram := st32 (ram t2) (v + 84) b\<rparr>"
    "kp.grows s s5 [a, b] (region v 92)" "kp.grows s3 s5 [b] (region (v + 84) 4)"
    by (rule add_stream [OF a(3) assms(3-7), of 84]) (use assms(2) in auto)
  obtain c t3 s7 where c: "diskSteamerNew (ld32 (ram s5) (disk s + 8)) s5 = (c, t3)" "s7 = t3\<lparr>ram := st32 (ram t3) (v + 88) c\<rparr>"
    "kp.grows s s7 [a, b, c] (region v 92)" "kp.grows s5 s7 [c] (region (v + 88) 4)" "stream_at s7 c 0" "ld32 (ram s7) (v + 88) = c"
    by (rule add_stream [OF b(3) assms(3-7), of 88]) (use assms(2) in auto)
  define s8 where "s8 = s7\<lparr>ram := st32 (ram s7) (disk s + 16) v\<rparr>"
  have d16: "region (disk s + 16) 4 \<subseteq> region (disk s) 20" using field_subset [of 16 4 20 "disk s"] by simp
  have own: "kheap_inv s7" "kheap_owned s \<subseteq> kheap_owned s3" "kheap_owned s \<subseteq> kheap_owned s5" "kheap_owned s \<subseteq> kheap_owned s7"
    "region a 4096 \<inter> kheap_owned s = {}" "region c 4096 \<inter> kheap_owned s = {}"
    using a(3) b(3) c(3) by (auto simp: kp.grows_def simp del: mem_region)
  have g8: "kp.grows s7 s8 [] (region (disk s + 16) 4)"
    unfolding s8_def using own(1,4) d16 assms(5) by (intro kp.grows_write same_outside_st32) auto
  have field: "region (v + 80) 4 \<subseteq> region v 92" "region (v + 84) 4 \<subseteq> region v 92" "region (v + 88) 4 \<subseteq> region v 92"
    using field_subset [of 80 4 92 v] field_subset [of 84 4 92 v] field_subset [of 88 4 92 v] by simp_all
  have apart: "region (v + 80) 4 \<inter> region (v + 84) 4 = {}" "region (v + 80) 4 \<inter> region (v + 88) 4 = {}"
    using field_disjoint [of 80 4 84 4 v] field_disjoint [of 80 4 88 4 v] by simp_all
  show thesis
  proof
    have "memset (ram s) v 0 92 = ram s1" "st32 (ram t1) (v + 80) a = ram s3" "st32 (ram t2) (v + 84) b = ram s5"
      "st32 (ram t3) (v + 88) c = ram s7" "s\<lparr>ram := ram s1\<rparr> = s1" "t1\<lparr>ram := ram s3\<rparr> = s3" "t2\<lparr>ram := ram s5\<rparr> = s5"
      "t3\<lparr>ram := st32 (ram s7) (disk s + 16) v\<rparr> = s8"
      by (simp_all add: s1_def a(2) b(2) c(2) s8_def)
    then show "fat16_init_private (disk s) v s = s8"
      using a(1) b(1) c(1)
      by (simp add: fat16_init_private_def Let_def)
    show "kp.grows s s8 [a, b, c] (region v 92 \<union> region (disk s + 16) 4)" using kp.grows_trans [OF c(3) g8] by simp
    have keep: "region (v + 80) 4 \<subseteq> kheap_owned s3 - region (v + 84) 4" "region (v + 80) 4 \<subseteq> kheap_owned s5 - region (v + 88) 4"
      "region (v + 80) 4 \<subseteq> kheap_owned s7 - region (disk s + 16) 4" "region (v + 88) 4 \<subseteq> kheap_owned s7 - region (disk s + 16) 4"
      using field apart d16 assms(6,7) own(2-4) by blast+
    then show "ld32 (ram s8) (v + 80) = a" "ld32 (ram s8) (v + 88) = c"
      using io_grows_word [OF grows_io [OF b(4)] keep(1)] io_grows_word [OF grows_io [OF c(4)] keep(2)]
        io_grows_word [OF grows_io [OF g8] keep(3)] io_grows_word [OF grows_io [OF g8] keep(4)] a(5) c(6) by simp_all
    show "stream_at s8 c 0" using stream_at_grows [OF grows_io [OF g8] c(5)] own(6) d16 assms(5) by blast
    have "stream_at s5 a 0" using stream_at_grows [OF grows_io [OF b(4)] a(4)] own(5) field(2) assms(6) by blast
    then have "stream_at s7 a 0" using stream_at_grows [OF grows_io [OF c(4)]] own(5) field(3) assms(6) by blast
    then show "stream_at s8 a 0" using stream_at_grows [OF grows_io [OF g8]] own(5) d16 assms(5) by blast
    show "ld32 (ram s8) (disk s + 16) = v" by (simp add: s8_def)
  qed
qed

section \<open>Reading the volume\<close>

text \<open>The disk as a memory, and the entries of a directory on it that starts at byte \<open>q\<close>: of the first \<open>n\<close>, those
  that are not marked as deleted.\<close>

definition disk_image :: "(u32 \<Rightarrow> mem) \<Rightarrow> mem" where
  "disk_image data a = disk_byte data (unat a)"

primrec used_entries :: "(u32 \<Rightarrow> mem) \<Rightarrow> nat \<Rightarrow> nat \<Rightarrow> nat" where
  "used_entries data q 0 = 0"
| "used_entries data q (Suc n) = (if disk_byte data q = 0xE5 then 0 else 1) + used_entries data (q + 32) n"

lemma stream_read_io:
  fixes s :: "('d, 'a) fs_state_scheme"
  assumes "ata_device io xfer data" "kheap_inv s" "stream_at s p q" "q + k + 512 < 2147483648"
    and "region out (of_nat k) \<subseteq> kheap_owned s" "region out (of_nat k) \<inter> region p 4096 = {}"
  obtains s' where "diskSteamerRead io p out (of_nat k) s = Some (0, s')"
    "io_grows s s' [] (region out (of_nat k) \<union> region p 4)" "stream_at s' p (q + k)"
    "\<forall>j<k. ram s' (out + of_nat j) = disk_byte data (q + j)"
proof -
  have st: "kheap_page s p" "ld32 (ram s) p = of_nat q" "ld32 (ram s) (p + 4) = disk s" using assms(3) by (simp_all add: stream_at_def)
  have page: "page_aligned p" "region p 4096 \<subseteq> kheap_owned s" using kp.page_owned [OF assms(2) st(1)] by simp_all
  have p8: "region p 8 \<subseteq> region p 4096" "region p 4 \<subseteq> region p 4096" "region (p + 4) 4 \<subseteq> region p 4096"
    using field_subset [of 0 8 4096 p] field_subset [of 0 4 4096 p] field_subset [of 4 4 4096 p] by simp_all
  then have "region p 8 \<inter> region out (of_nat k) = {}" using assms(6) by blast
  then obtain m d where r: "diskSteamerRead io p out (of_nat k) s = Some (0, s\<lparr>ram := m, dev := d\<rparr>)"
    "\<And>j. j < k \<Longrightarrow> m (out + of_nat j) = disk_byte data (q + j)" "ld32 m p = of_nat (q + k)"
    "same_outside (region out (of_nat k) \<union> region p 4) (ram s) m"
    using stream_read [OF assms(1) st(2,3) assms(4)] by blast
  have g: "io_grows s (s\<lparr>ram := m, dev := d\<rparr>) [] (region out (of_nat k) \<union> region p 4)"
    using assms(2,5) r(4) p8(2) page(2) by (intro io_grows_write) auto
  have "region (p + 4) 4 \<inter> region p 4 = {}" using field_disjoint [of 0 4 4 4 p] by auto
  then have "region (p + 4) 4 \<subseteq> kheap_owned s - (region out (of_nat k) \<union> region p 4)" using p8(3) page(2) assms(6) by blast
  from io_grows_word [OF g this] have "stream_at (s\<lparr>ram := m, dev := d\<rparr>) p (q + k)"
    using st r(3) io_grows_heap(6) [OF g] by (simp add: stream_at_def)
  moreover have "ram (s\<lparr>ram := m, dev := d\<rparr>) (out + of_nat j) = disk_byte data (q + j)" if "j < k" for j
    using r(2) [OF that] by simp
  ultimately show thesis using that r(1) g by blast
qed

lemma stream_seek_io:
  fixes s :: "('d, 'a) fs_state_scheme"
  assumes "kheap_inv s" "stream_at s p q'"
  obtains s' where "diskSteamerSeek p (of_nat q) s = (0, s')" "io_grows s s' [] (region p 4)" "stream_at s' p q"
proof -
  let ?s = "s\<lparr>ram := st32 (ram s) p (of_nat q)\<rparr>"
  have st: "kheap_page s p" "ld32 (ram s) (p + 4) = disk s" using assms(2) by (simp_all add: stream_at_def)
  then have "region p 4 \<subseteq> kheap_owned s" using kp.page_owned [OF assms(1) st(1)] pair_subset(1) by blast
  then have g: "kp.grows s ?s [] (region p 4)" using assms(1) by (intro kp.grows_write same_outside_st32) simp_all
  have "kheap_page ?s p" using g st(1) by (simp add: kp.grows_def)
  then have "stream_at ?s p q" using st kp.page_owned [OF assms(1) st(1)] by (simp add: stream_at_def pair_words)
  with g show thesis by (intro that [of ?s]) (simp_all add: diskSteamerSeek_def grows_io)
qed

lemma total_items_spec:
  assumes dev: "ata_device io xfer data"
  shows "kheap_inv s \<Longrightarrow> stream_at s p q \<Longrightarrow> region item 32 \<subseteq> kheap_owned s \<Longrightarrow> region item 32 \<inter> region p 4096 = {} \<Longrightarrow>
    \<forall>i<n. disk_byte data (q + 32 * i) \<noteq> 0 \<Longrightarrow> disk_byte data (q + 32 * n) = 0 \<Longrightarrow> q + 32 * Suc n + 512 < 2147483648 \<Longrightarrow>
    \<exists>s'. total_items_loop io p item t s = Some (t + of_nat (used_entries data q n), s') \<and>
      io_grows s s' [] (region item 32 \<union> region p 4) \<and> stream_at s' p (q + 32 * Suc n)"
proof (induction n arbitrary: q t s)
  case 0
  have "region item (of_nat 32) \<subseteq> kheap_owned s" "region item (of_nat 32) \<inter> region p 4096 = {}" using "0.prems"(3,4) by simp_all
  with stream_read_io [OF dev "0.prems"(1,2), of 32 item] "0.prems"(7) obtain s' where
    r: "diskSteamerRead io p item 32 s = Some (0, s')" "io_grows s s' [] (region item 32 \<union> region p 4)" "stream_at s' p (q + 32)"
      "\<forall>j<32. ram s' (item + of_nat j) = disk_byte data (q + j)" by auto
  with r(4) [rule_format, of 0] "0.prems"(6) show ?case by (subst total_items_loop.simps) simp
next
  case (Suc n)
  have "region item (of_nat 32) \<subseteq> kheap_owned s" "region item (of_nat 32) \<inter> region p 4096 = {}" using Suc.prems(3,4) by simp_all
  with stream_read_io [OF dev Suc.prems(1,2), of 32 item] Suc.prems(7) obtain s1 where
    r: "diskSteamerRead io p item 32 s = Some (0, s1)" "io_grows s s1 [] (region item 32 \<union> region p 4)" "stream_at s1 p (q + 32)"
      "\<forall>j<32. ram s1 (item + of_nat j) = disk_byte data (q + j)" by auto
  have b: "ram s1 item = disk_byte data q" "disk_byte data q \<noteq> 0" using r(4) [rule_format, of 0] Suc.prems(5) by auto
  define t' where "t' = (if disk_byte data q = 0xE5 then t else t + 1)"
  have "\<forall>i<n. disk_byte data (q + 32 + 32 * i) \<noteq> 0"
  proof (intro allI impI)
    fix i assume "i < n"
    then show "disk_byte data (q + 32 + 32 * i) \<noteq> 0" using Suc.prems(5) [rule_format, of "Suc i"] by (simp add: algebra_simps)
  qed
  then obtain s' where s': "total_items_loop io p item t' s1 = Some (t' + of_nat (used_entries data (q + 32) n), s')"
    "io_grows s1 s' [] (region item 32 \<union> region p 4)" "stream_at s' p (q + 32 + 32 * Suc n)"
    using Suc.IH [OF _ r(3), of t'] io_grows_heap(2,3) [OF r(2)] Suc.prems(3,4,6,7) by (auto simp: algebra_simps)
  have "total_items_loop io p item t s = Some (t + of_nat (used_entries data q (Suc n)), s')"
    using s'(1) b by (subst total_items_loop.simps) (simp add: r(1) t'_def split: if_splits)
  moreover have "io_grows s s' [] (region item 32 \<union> region p 4)" using io_grows_trans [OF r(2) s'(2)] by simp
  moreover have "q + 32 + 32 * Suc n = q + 32 * Suc (Suc n)" by simp
  ultimately show ?case using s'(3) by metis
qed

lemma kZalloc_grows:
  fixes s :: "('d, 'a) fs_state_scheme"
  assumes "kheap_inv s" "0 < kheap_free s" "0 < n" "n \<le> 4096"
  obtains p s' where "kZalloc n s = (p, s')" "kp.grows s s' [p] {}" "p \<noteq> 0"
proof
  show "kZalloc n s = (fst (kZalloc n s), snd (kZalloc n s))" by simp
  show "kp.grows s (snd (kZalloc n s)) [fst (kZalloc n s)] {}"
    using kp.grows_alloc [OF assms(1,3,4,2), of "{}" "ram (snd (kZalloc n s))"] kz.alloc_only_mem [of n s] by simp
  show "fst (kZalloc n s) \<noteq> 0" using kz.alloc_page [OF assms(1,3,4,2)] by simp
qed

text \<open>The four fields of the root directory.\<close>

lemma store_root:
  fixes s :: "('d, 'a) fs_state_scheme" and dir n r e d :: u32
  assumes "kheap_inv s" "region d 16 \<subseteq> kheap_owned s"
  defines "m \<equiv> st32 (st32 (st32 (st32 (ram s) d dir) (d + 4) n) (d + 8) r) (d + 12) e"
  shows "io_grows s (s\<lparr>ram := m\<rparr>) [] (region d 16)" "ld32 m d = dir" "ld32 m (d + 4) = n" "ld32 m (d + 12) = e"
proof -
  have "same_outside (region d 16) (ram s) m"
    unfolding m_def using field_subset [of 0 4 16 d] field_subset [of 4 4 16 d] field_subset [of 8 4 16 d] field_subset [of 12 4 16 d]
    by (intro same_outside_st32_in same_outside_refl) (simp_all del: mem_region)
  then show "io_grows s (s\<lparr>ram := m\<rparr>) [] (region d 16)" using assms(1,2) by (intro grows_io kp.grows_write) auto
  show "ld32 m d = dir" "ld32 m (d + 4) = n" "ld32 m (d + 12) = e" by (simp_all add: m_def struct_fields)
qed

text \<open>The header of the volume in memory at \<open>v\<close> says that the root directory starts at sector \<open>R\<close> and has room for \<open>E\<close> entries.\<close>

definition volume_header :: "mem \<Rightarrow> addr \<Rightarrow> nat \<Rightarrow> nat \<Rightarrow> bool" where
  "volume_header m v R E \<longleftrightarrow>
     ucast (m (v + 16)) * ucast (ld16 m (v + 22)) + ucast (ld16 m (v + 14)) = (of_nat R :: u32) \<and> unat (ld16 m (v + 17)) = E"

definition root_sectors :: "nat \<Rightarrow> nat" where
  "root_sectors E = (32 * E + 511) div 512"

lemma root_sectors_code:
  assumes "E \<le> 128"
  shows "(if cmod (of_nat E * 32) 512 \<noteq> 0 then cdiv (of_nat E * 32) 512 + 1 else cdiv (of_nat E * 32) 512) = of_nat (root_sectors E)"
proof -
  have "cdiv (of_nat (32 * E)) (of_nat 512) = of_nat (32 * E div 512)" "cmod (of_nat (32 * E)) (of_nat 512) = of_nat (32 * E mod 512)"
    using cdivmod_of_nat [of "32 * E" 512] assms by simp_all
  then have *: "cdiv (of_nat E * 32) 512 = of_nat (32 * E div 512)" "cmod (of_nat E * 32) 512 = of_nat (32 * E mod 512)"
    by (simp_all add: mult.commute)
  define r where "r = 32 * E mod 512"
  have "r < 512" by (simp add: r_def)
  then have "(of_nat r :: u32) = 0 \<longleftrightarrow> r = 0" using of_nat_u32_eq [of r 0] by simp
  moreover have "root_sectors E = 32 * E div 512 + (if r = 0 then 0 else 1)"
  proof -
    have "(r + 511) div 512 = (if r = 0 then 0 else 1)"
      using \<open>r < 512\<close> by (cases "r = 0") (auto intro: div_nat_eqI)
    moreover have "root_sectors E = 32 * E div 512 + 511 div 512 + (r + 511 mod 512) div 512"
      unfolding root_sectors_def r_def by (rule div_add1_eq)
    ultimately show ?thesis by simp
  qed
  ultimately show ?thesis unfolding * r_def [symmetric] by (cases "r = 0") (simp_all del: of_nat_eq_0_iff)
qed

lemma root_directory_spec:
  fixes s :: "('d, 'a) fs_state_scheme"
  assumes dev: "ata_device io xfer data" and st: "kheap_inv s" "0 < kheap_free s" "stream_at s c pos" "ld32 (ram s) (v + 88) = c"
    and dk: "ld32 (ram s) (disk s + 4) = 512" "ld32 (ram s) (disk s + 16) = v" "region (disk s) 20 \<subseteq> kheap_owned s"
    and v: "region v 92 \<subseteq> kheap_owned s" "region v 92 \<inter> region c 4096 = {}" "volume_header (ram s) v R E" "0 < E" "E \<le> 128"
    and item: "region (kstack s + 112) 32 \<subseteq> kheap_owned s" "region (kstack s + 112) 32 \<inter> (region c 4096 \<union> region v 92 \<union> region (disk s) 20) = {}"
    and c_apart: "region c 4096 \<inter> region (disk s) 20 = {}"
    and es: "\<forall>i<n. disk_byte data (512 * R + 32 * i) \<noteq> 0" "disk_byte data (512 * R + 32 * n) = 0"
    and small: "512 * R + 32 * Suc n + 512 < 2147483648" "512 * R + 32 * E + 512 < 2147483648"
  obtains dir s' where "fat16_get_root_directory io (disk s) v (v + 64) s = Some (0, s')"
    "io_grows s s' [dir] (region (kstack s + 112) 32 \<union> region c 4 \<union> region (v + 64) 16)"
    "ld32 (ram s') (v + 64) = dir" "ld32 (ram s') (v + 68) = of_nat (used_entries data (512 * R) n)"
    "ld32 (ram s') (v + 76) = of_nat (R + root_sectors E)"
    "\<forall>j<32 * E. ram s' (dir + of_nat j) = disk_byte data (512 * R + j)"
proof -
  have f: "region (disk s + 4) 4 \<subseteq> region (disk s) 20" "region (v + 88) 4 \<subseteq> region v 92" "region c 4 \<subseteq> region c 4096"
    "region (v + 64) 16 \<subseteq> region v 92"
    using field_subset [of 4 4 20 "disk s"] field_subset [of 88 4 92 v] field_subset [of 0 4 4096 c] field_subset [of 64 16 92 v] by simp_all
  obtain s0 where s0: "diskSteamerSeek c (of_nat (512 * R)) s = (0, s0)" "io_grows s s0 [] (region c 4)" "stream_at s0 c (512 * R)"
    by (rule stream_seek_io [OF st(1,3)])
  note h0 = io_grows_heap [OF s0(2), simplified] io_grows_globals [OF s0(2)]
  obtain s1 where s1: "total_items_loop io c (kstack s + 112) 0 s0 = Some (of_nat (used_entries data (512 * R) n), s1)"
    "io_grows s0 s1 [] (region (kstack s + 112) 32 \<union> region c 4)" "stream_at s1 c (512 * R + 32 * Suc n)"
    using total_items_spec [OF dev h0(2) s0(3), of "kstack s + 112" n 0] item h0(3) es small(1) by auto
  have g1: "io_grows s s1 [] (region (kstack s + 112) 32 \<union> region c 4)" using io_grows_trans [OF s0(2) s1(2)] by (simp add: Un_commute)
  note h1 = io_grows_heap [OF g1, simplified] io_grows_globals [OF g1]
  have total: "fat16_get_total_items_for_directory io (disk s) (of_nat R) s = Some (of_nat (used_entries data (512 * R) n), s1)"
    using s0(1) s1(1) st(4) dk(1,2) by (simp add: fat16_get_total_items_for_directory_def fat16_sector_to_absolute_def mult.commute)
  define sz where "sz = (of_nat (32 * E) :: u32)"
  have usz: "unat sz = 32 * E" unfolding sz_def using v(5) by (intro unat_of_nat_u32) simp
  then have len: "0 < sz" "sz \<le> 4096" using v(4,5) by (simp_all add: word_less_nat_alt word_le_nat_alt)
  obtain dir s2 where al: "kZalloc sz s1 = (dir, s2)" "kp.grows s1 s2 [dir] {}" "dir \<noteq> 0"
    using kZalloc_grows [OF h1(2) _ len] st(2) h1(4) by auto
  have g2: "io_grows s s2 [dir] (region (kstack s + 112) 32 \<union> region c 4)" using io_grows_trans [OF g1 grows_io [OF al(2)]] by simp
  note h2 = io_grows_heap [OF g2, simplified] io_grows_globals [OF g2]
  have w2: "ld32 (ram s2) (disk s + 4) = 512" "ld32 (ram s2) (v + 88) = c" "region v 92 \<subseteq> kheap_owned s2"
  proof -
    show "region v 92 \<subseteq> kheap_owned s2" using v(1) h2(3) by blast
    have "region (disk s + 4) 4 \<subseteq> kheap_owned s - (region (kstack s + 112) 32 \<union> region c 4)"
      "region (v + 88) 4 \<subseteq> kheap_owned s - (region (kstack s + 112) 32 \<union> region c 4)"
      using f dk(3) v(1,2) item(2) c_apart by blast+
    then show "ld32 (ram s2) (disk s + 4) = 512" "ld32 (ram s2) (v + 88) = c" using io_grows_word [OF g2] dk(1) st(4) by simp_all
  qed
  have "stream_at s2 c (512 * R + 32 * Suc n)" by (rule stream_at_grows [OF grows_io [OF al(2)] s1(3)]) simp
  then obtain s3 where s3: "diskSteamerSeek c (of_nat (512 * R)) s2 = (0, s3)" "io_grows s2 s3 [] (region c 4)" "stream_at s3 c (512 * R)"
    by (rule stream_seek_io [OF h2(2)])
  have dir: "region dir 4096 \<inter> kheap_owned s1 = {}" "region dir 4096 \<subseteq> kheap_owned s2" using h2(3) io_grows_heap(7) [OF grows_io [OF al(2)]] by simp_all
  have dE: "region dir sz \<subseteq> region dir 4096"
    using field_subset [of 0 sz 4096 dir] len(2) by (simp add: word_le_nat_alt)
  have cp: "region c 4096 \<subseteq> kheap_owned s1" using s1(3) kp.page_owned [OF h1(2)] by (simp add: stream_at_def)
  obtain s4 where s4: "diskSteamerRead io c dir sz s3 = Some (0, s4)"
    "io_grows s3 s4 [] (region dir sz \<union> region c 4)" "stream_at s4 c (512 * R + 32 * E)"
    "\<forall>j<32 * E. ram s4 (dir + of_nat j) = disk_byte data (512 * R + j)"
    by (rule stream_read_io [OF dev _ s3(3) small(2), of dir, folded sz_def]) (use io_grows_heap [OF s3(2)] dir dE cp in auto)
  define m where "m = st32 (st32 (st32 (st32 (ram s4) (v + 64) dir) (v + 64 + 4) (of_nat (used_entries data (512 * R) n)))
     (v + 64 + 8) (of_nat R)) (v + 64 + 12) (of_nat R + of_nat (root_sectors E))"
  have g4: "io_grows s s4 [dir] (region (kstack s + 112) 32 \<union> region c 4)"
  proof (rule io_grows_mono)
    show "io_grows s s4 [dir] (region (kstack s + 112) 32 \<union> region c 4 \<union> region dir sz)"
      using io_grows_trans [OF g2 io_grows_trans [OF s3(2) s4(2)]] by (simp add: Un_ac)
    show "(region (kstack s + 112) 32 \<union> region c 4 \<union> region dir sz) \<inter> kheap_owned s \<subseteq> region (kstack s + 112) 32 \<union> region c 4"
      using dE h2(7) by blast
  qed
  note h4 = io_grows_heap [OF g4, simplified]
  have d: "region (v + 64) 16 \<subseteq> kheap_owned s4" using f(4) v(1) h4(3) by blast
  note st = store_root [OF h4(2) d, of dir "of_nat (used_entries data (512 * R) n)" "of_nat R" "of_nat R + of_nat (root_sectors E)", folded m_def]
  show thesis
  proof
    have "fat16_sector_to_absolute (ram s2) (disk s) (of_nat R) = of_nat (512 * R)"
      using w2(1) by (simp add: fat16_sector_to_absolute_def mult.commute)
    moreover have "of_nat E * 32 = sz" by (simp add: sz_def mult.commute)
    moreover have "ucast (ld16 (ram s) (v + 17)) = (of_nat E :: u32)" using v(3) by (auto simp: volume_header_def)
    ultimately show "fat16_get_root_directory io (disk s) v (v + 64) s = Some (0, s4\<lparr>ram := m\<rparr>)"
      using total al(1,3) w2(2) s3(1) s4(1) dk(1) v(3) root_sectors_code [OF v(5)]
      by (simp add: fat16_get_root_directory_def Let_def volume_header_def m_def)
    show "io_grows s (s4\<lparr>ram := m\<rparr>) [dir] (region (kstack s + 112) 32 \<union> region c 4 \<union> region (v + 64) 16)"
      using io_grows_trans [OF g4 st(1)] by simp
    show "ld32 (ram (s4\<lparr>ram := m\<rparr>)) (v + 64) = dir" "ld32 (ram (s4\<lparr>ram := m\<rparr>)) (v + 68) = of_nat (used_entries data (512 * R) n)"
      "ld32 (ram (s4\<lparr>ram := m\<rparr>)) (v + 76) = of_nat (R + root_sectors E)"
      using st(2-4) by (simp_all add: add.assoc)
    show "\<forall>j<32 * E. ram (s4\<lparr>ram := m\<rparr>) (dir + of_nat j) = disk_byte data (512 * R + j)"
    proof (intro allI impI)
    fix j assume j: "j < 32 * E"
    have "dir + of_nat j \<in> region dir sz" using j v(5) usz by (simp add: word_less_nat_alt)
    then have "dir + of_nat j \<in> kheap_owned s4" "dir + of_nat j \<notin> region (v + 64) 16" using dE f(4) v(1) h4(3,7) by blast+
    from io_grows_keeps [OF st(1) this] have "m (dir + of_nat j) = ram s4 (dir + of_nat j)" by simp
    then show "ram (s4\<lparr>ram := m\<rparr>) (dir + of_nat j) = disk_byte data (512 * R + j)" using s4(4) j by simp
    qed
  qed
qed

section \<open>Mounting\<close>

lemma io_grows_perm: "io_grows s s' ps D \<Longrightarrow> distinct qs \<Longrightarrow> set qs = set ps \<Longrightarrow> io_grows s s' qs D"
  unfolding io_grows_def by (rule kp.grows_perm)

lemma io_pages_apart:
  assumes "io_grows s s' ps D" "p \<in> set ps" "q \<in> set ps" "p \<noteq> q"
  shows "region p 4096 \<inter> region q 4096 = {}"
  using io_grows_heap(2,7) [OF assms(1)] assms(2-4) kp.page_owned by (intro pages_disjoint) blast+

text \<open>The disk with its volume at \<open>v\<close>, the stream \<open>a\<close> for clusters and the stream \<open>c\<close> for directories.\<close>

definition volume_ready :: "('d, 'a) fs_state_scheme \<Rightarrow> addr \<Rightarrow> addr \<Rightarrow> addr \<Rightarrow> bool" where
  "volume_ready s v a c \<longleftrightarrow> region (disk s) 20 \<subseteq> kheap_owned s \<and> region v 92 \<subseteq> kheap_owned s \<and>
     ld32 (ram s) (disk s + 4) = 512 \<and> ld32 (ram s) (disk s + 16) = v \<and>
     ld32 (ram s) (v + 80) = a \<and> ld32 (ram s) (v + 88) = c \<and> stream_at s a 0"

lemma volume_ready_grows:
  fixes s :: "('d, 'a) fs_state_scheme"
  assumes "io_grows s s' ps D" "volume_ready s v a c"
    and "D \<inter> (region (disk s + 4) 4 \<union> region (disk s + 16) 4 \<union> region (v + 80) 12 \<union> region a 4096) = {}"
  shows "volume_ready s' v a c"
proof -
  have f: "region (disk s + 4) 4 \<subseteq> region (disk s) 20" "region (disk s + 16) 4 \<subseteq> region (disk s) 20"
    "region (v + 80) 4 \<subseteq> region v 92" "region (v + 88) 4 \<subseteq> region v 92"
    using field_subset [of 4 4 20 "disk s"] field_subset [of 16 4 20 "disk s"] field_subset [of 80 4 92 v] field_subset [of 88 4 92 v]
    by simp_all
  have v88: "v + 88 = v + 80 + 8" by simp
  have g: "region (v + 80) 4 \<subseteq> region (v + 80) 12" using field_subset [of 0 4 12 "v + 80"] by simp
  have g': "region (v + 88) 4 \<subseteq> region (v + 80) 12" unfolding v88 by (rule field_subset) simp
  have "region (disk s + 4) 4 \<subseteq> kheap_owned s - D" "region (disk s + 16) 4 \<subseteq> kheap_owned s - D"
    "region (v + 80) 4 \<subseteq> kheap_owned s - D" "region (v + 88) 4 \<subseteq> kheap_owned s - D"
    using f g g' assms(2,3) unfolding volume_ready_def by blast+
  note w = this [THEN io_grows_word [OF assms(1)]]
  have "stream_at s' a 0" using assms(2,3) unfolding volume_ready_def by (intro stream_at_grows [OF assms(1)]) blast+
  then show ?thesis using assms(2) w io_grows_heap(3) [OF assms(1)] io_grows_globals(1) [OF assms(1)]
    unfolding volume_ready_def by auto
qed

text \<open>The memory \<open>fat16_resolve\<close> takes before it reads: the volume and its streams, and a stream for the header.\<close>

lemma resolve_start:
  fixes s :: "('d, 'a) fs_state_scheme"
  assumes "kheap_inv s" "5 \<le> kheap_free s" "disk s \<noteq> 0" "ld32 (ram s) (disk s + 8) = 0" "ld32 (ram s) (disk s + 4) = 512"
    and "region (disk s) 20 \<subseteq> kheap_owned s"
  obtains v s1 s2 a b c stream s3 where "kZalloc 4 s = (v, s1)" "fat16_init_private (disk s) v s1 = s2"
    "diskSteamerNew (ld32 (ram s2) (disk s + 8)) s2 = (stream, s3)" "stream \<noteq> 0"
    "io_grows s s3 [v, a, b, c, stream] (region (disk s + 16) 4)" "volume_ready s3 v a c" "stream_at s3 c 0" "stream_at s3 stream 0"
proof -
  have f: "region (disk s + 8) 4 \<subseteq> region (disk s) 20" "region (disk s + 4) 4 \<subseteq> region (disk s) 20"
    "region (disk s + 16) 4 \<subseteq> region (disk s) 20" "region (disk s + 8) 4 \<inter> region (disk s + 16) 4 = {}"
    "region (disk s + 4) 4 \<inter> region (disk s + 16) 4 = {}"
    using field_subset [of 8 4 20 "disk s"] field_subset [of 4 4 20 "disk s"] field_subset [of 16 4 20 "disk s"]
      field_disjoint [of 8 4 16 4 "disk s"] field_disjoint [of 4 4 16 4 "disk s"] by simp_all
  obtain v s1 where s1: "kZalloc 4 s = (v, s1)" "kp.grows s s1 [v] {}" "v \<noteq> 0"
    by (rule kZalloc_grows [of s 4]) (use assms(1,2) in auto)
  have v: "region v 92 \<subseteq> region v 4096" using field_subset [of 0 92 4096 v] by simp
  note h1 = io_grows_heap [OF grows_io [OF s1(2)], simplified] io_grows_globals [OF grows_io [OF s1(2)]]
  have w1: "ld32 (ram s1) (disk s + 8) = 0" "ld32 (ram s1) (disk s + 4) = 512"
    using io_grows_word [OF grows_io [OF s1(2)], of "disk s + 8"] io_grows_word [OF grows_io [OF s1(2)], of "disk s + 4"] f(1,2) assms(4-6)
    by auto
  obtain a b c s2 where s2: "fat16_init_private (disk s1) v s1 = s2" "kp.grows s1 s2 [a, b, c] (region v 92 \<union> region (disk s1 + 16) 4)"
    "ld32 (ram s2) (v + 80) = a" "ld32 (ram s2) (v + 88) = c" "stream_at s2 a 0" "stream_at s2 c 0" "ld32 (ram s2) (disk s1 + 16) = v"
    by (rule init_private_spec [of s1 v]) (use h1 w1 v assms(2,3,6) in auto)
  have g2: "io_grows s s2 [v, a, b, c] (region (disk s + 16) 4)"
    by (rule io_grows_mono [OF grows_io [OF kp.grows_trans [OF s1(2) s2(2)], simplified]]) (use v h1 in auto)
  note h2 = io_grows_heap [OF g2, simplified] io_grows_globals [OF g2]
  have "region (disk s + 8) 4 \<subseteq> kheap_owned s - region (disk s + 16) 4" "region (disk s + 4) 4 \<subseteq> kheap_owned s - region (disk s + 16) 4"
    using f assms(6) by blast+
  then have w2: "ld32 (ram s2) (disk s + 8) = 0" "ld32 (ram s2) (disk s + 4) = 512"
    using io_grows_word [OF g2] assms(4,5) by simp_all
  have ready: "volume_ready s2 v a c"
    using s2 w2 h1 h2 v assms(6) by (auto simp: volume_ready_def simp del: mem_region)
  obtain stream s3 where s3: "diskSteamerNew 0 s2 = (stream, s3)" "kp.grows s2 s3 [stream] {}" "stream_at s3 stream 0" "stream \<noteq> 0"
    by (rule diskSteamerNew_spec [of s2]) (use h2 assms(2,3) in auto)
  show thesis
  proof
    show "kZalloc 4 s = (v, s1)" "fat16_init_private (disk s) v s1 = s2" "stream \<noteq> 0"
      using s1(1) s2(1) s3 h1 by simp_all
    show "diskSteamerNew (ld32 (ram s2) (disk s + 8)) s2 = (stream, s3)" using s3(1) w2(1) by simp
    show "io_grows s s3 [v, a, b, c, stream] (region (disk s + 16) 4)" using io_grows_trans [OF g2 grows_io [OF s3(2)]] by simp
    show "volume_ready s3 v a c" "stream_at s3 c 0"
      using volume_ready_grows [OF grows_io [OF s3(2)] ready] stream_at_grows [OF grows_io [OF s3(2)] s2(6)] by simp_all
    show "stream_at s3 stream 0" by (rule s3(3))
  qed
qed

lemma header_read:
  fixes s :: "('d, 'a) fs_state_scheme"
  assumes "ata_device io xfer data" "io_grows s s3 [v, a, b, c, stream] (region (disk s + 16) 4)" "volume_ready s3 v a c"
    and "stream_at s3 c 0" "stream_at s3 stream 0" "region (disk s) 20 \<subseteq> kheap_owned s"
  obtains s4 where "diskSteamerRead io stream v 62 s3 = Some (0, s4)" "io_grows s s4 [v, a, b, c, stream] (region (disk s + 16) 4)"
    "volume_ready s4 v a c" "stream_at s4 c 0" "\<forall>j<62. ram s4 (v + of_nat j) = disk_byte data j"
proof -
  note h = io_grows_heap [OF assms(2), simplified] io_grows_globals [OF assms(2)]
  have apart: "region v 4096 \<inter> region stream 4096 = {}" "region a 4096 \<inter> region v 4096 = {}" "region a 4096 \<inter> region stream 4096 = {}"
    "region c 4096 \<inter> region v 4096 = {}" "region c 4096 \<inter> region stream 4096 = {}"
    by (rule io_pages_apart [OF assms(2)]; use h(5) in auto)+
  have fresh: "region v 4096 \<inter> kheap_owned s = {}" "region stream 4096 \<inter> kheap_owned s = {}" using h(7) by auto
  have v: "region v 62 \<subseteq> region v 4096" "region v 62 \<inter> region (v + 80) 12 = {}" "region (v + 80) 12 \<subseteq> region v 4096"
    "region stream 4 \<subseteq> region stream 4096"
    using field_subset [of 0 62 4096 v] field_disjoint [of 0 62 80 12 v] field_subset [of 80 12 4096 v] field_subset [of 0 4 4096 stream] by simp_all
  have d: "region (disk s + 4) 4 \<subseteq> region (disk s) 20" "region (disk s + 16) 4 \<subseteq> region (disk s) 20"
    using field_subset [of 4 4 20 "disk s"] field_subset [of 16 4 20 "disk s"] by simp_all
  have "region v 62 \<subseteq> kheap_owned s3" "region v 62 \<inter> region stream 4096 = {}" using v(1) h(3) apart(1) by auto
  then obtain s4 where r: "diskSteamerRead io stream v 62 s3 = Some (0, s4)" "io_grows s3 s4 [] (region v 62 \<union> region stream 4)"
    "\<forall>j<62. ram s4 (v + of_nat j) = disk_byte data j"
    using stream_read_io [OF assms(1) h(2) assms(5), of 62 v, simplified] by blast
  show thesis
  proof (rule that [OF r(1) _ _ _ r(3)])
    show "io_grows s s4 [v, a, b, c, stream] (region (disk s + 16) 4)"
      using io_grows_trans [OF assms(2) r(2)] fresh v by (auto elim!: io_grows_mono simp del: mem_region)
    have "(region v 62 \<union> region stream 4) \<inter> (region (disk s + 4) 4 \<union> region (disk s + 16) 4 \<union> region (v + 80) 12 \<union> region a 4096) = {}"
      using v d apart fresh assms(6) by blast
    then show "volume_ready s4 v a c" using volume_ready_grows [OF r(2) assms(3)] h(8) by simp
    show "stream_at s4 c 0" using stream_at_grows [OF r(2) assms(4)] v apart by blast
  qed
qed

text \<open>A disk with a FAT16 volume whose root directory has the entries \<open>es\<close>: the first \<open>length es\<close> entries of the directory,
  where entries marked as deleted count but are not searched for behind.\<close>

definition root_sector :: "(u32 \<Rightarrow> mem) \<Rightarrow> nat" where
  "root_sector data = unat (disk_byte data 16) * unat (ld16 (disk_image data) 22) + unat (ld16 (disk_image data) 14)"

definition root_entries :: "(u32 \<Rightarrow> mem) \<Rightarrow> nat" where
  "root_entries data = unat (ld16 (disk_image data) 17)"

definition fat16_disk :: "(u32 \<Rightarrow> mem) \<Rightarrow> (u8 list \<times> u8 list) list \<Rightarrow> bool" where
  "fat16_disk data es \<longleftrightarrow> disk_byte data 38 = 0x29 \<and> root_sector data < 2 ^ 20 \<and> length es \<le> root_entries data \<and>
     0 < root_entries data \<and> root_entries data \<le> 128 \<and>
     (\<exists>n<2 ^ 20. (\<forall>i<n. disk_byte data (512 * root_sector data + 32 * i) \<noteq> 0) \<and>
        disk_byte data (512 * root_sector data + 32 * n) = 0 \<and> used_entries data (512 * root_sector data) n = length es) \<and>
     (\<forall>i<length es. name_field (disk_image data) (of_nat (512 * root_sector data + 32 * i)) (fst (es ! i)) \<and> length (fst (es ! i)) \<le> 11 \<and>
        name_field (disk_image data) (of_nat (512 * root_sector data + 32 * i) + 8) (snd (es ! i)) \<and> length (snd (es ! i)) \<le> 3)"

lemma header_fields:
  assumes "\<forall>j<62. m (v + of_nat j) = disk_byte data j"
  shows "m (v + 16) = disk_byte data 16" "ld16 m (v + 22) = ld16 (disk_image data) 22" "ld16 m (v + 14) = ld16 (disk_image data) 14"
    "ld16 m (v + 17) = ld16 (disk_image data) 17" "m (v + 38) = disk_byte data 38" "m (v + 13) = disk_byte data 13"
    "volume_header m v (root_sector data) (root_entries data)"
proof -
  show f: "m (v + 16) = disk_byte data 16" "ld16 m (v + 22) = ld16 (disk_image data) 22" "ld16 m (v + 14) = ld16 (disk_image data) 14"
    "ld16 m (v + 17) = ld16 (disk_image data) 17" "m (v + 38) = disk_byte data 38" "m (v + 13) = disk_byte data 13"
    using assms [rule_format, of 16] assms [rule_format, of 22] assms [rule_format, of 23] assms [rule_format, of 14]
      assms [rule_format, of 15] assms [rule_format, of 17] assms [rule_format, of 18] assms [rule_format, of 38] assms [rule_format, of 13]
    by (simp_all add: ld16_def disk_image_def add.assoc)
  show "volume_header m v (root_sector data) (root_entries data)"
    unfolding volume_header_def root_sector_def root_entries_def f by simp
qed

lemma volume_ready_release:
  fixes s :: "('d, 'a) fs_state_scheme"
  assumes "kheap_inv s" "kheap_page s p" "volume_ready s v a c" "p \<noteq> a" "region p 4096 \<inter> (region (disk s) 20 \<union> region v 92) = {}"
  shows "volume_ready (kFree p s) v a c" "x \<in> kheap_owned s \<Longrightarrow> ram (kFree p s) x = ram s x"
proof -
  show keep: "ram (kFree p s) x = ram s x" if "x \<in> kheap_owned s" for x using kp.release_keeps [OF assms(1,2) that] .
  have word: "ld32 (ram (kFree p s)) q = ld32 (ram s) q" if "region q 4 \<subseteq> kheap_owned s" for q
    using that keep by (intro ld32_cong) blast
  have r: "region (disk s) 20 \<subseteq> kheap_owned s" "region v 92 \<subseteq> kheap_owned s" "kheap_page s a"
    using assms(3) by (simp_all add: volume_ready_def stream_at_def)
  have f: "region (disk s + 4) 4 \<subseteq> region (disk s) 20" "region (disk s + 16) 4 \<subseteq> region (disk s) 20"
    "region (v + 80) 4 \<subseteq> region v 92" "region (v + 88) 4 \<subseteq> region v 92"
    using field_subset [of 4 4 20 "disk s"] field_subset [of 16 4 20 "disk s"] field_subset [of 80 4 92 v] field_subset [of 88 4 92 v] by simp_all
  have a: "region a 4 \<subseteq> kheap_owned s" "region (a + 4) 4 \<subseteq> kheap_owned s" "kheap_page (kFree p s) a"
    using kp.page_owned [OF assms(1) r(3)] pair_subset [of a] kp.release_keeps_pages [OF assms(1,2) r(3)] assms(4) by auto
  have "disk (kFree p s) = disk s" by (subst kp.release_only_mem) simp
  then show "volume_ready (kFree p s) v a c"
    using assms(3,5) kp.release_owned [OF assms(1,2)] a(3)
      f(1,2) [THEN order_trans [OF _ r(1)], THEN word] f(3,4) [THEN order_trans [OF _ r(2)], THEN word] a(1,2) [THEN word]
    unfolding volume_ready_def stream_at_def by auto
qed

lemma resolve_body_spec:
  fixes s :: "('d, 'a) fs_state_scheme"
  defines "item \<equiv> region (kstack s + 112) 32"
  assumes dev: "ata_device io xfer data" and vol: "fat16_disk data es"
    and h: "io_grows s s4 [v, a, b, c, stream] (region (disk s + 16) 4)" "volume_ready s4 v a c" "stream_at s4 c 0" "6 \<le> kheap_free s"
      "\<forall>j<62. ram s4 (v + of_nat j) = disk_byte data j"
    and d: "region (disk s) 20 \<subseteq> kheap_owned s" "item \<subseteq> kheap_owned s" "item \<inter> region (disk s) 20 = {}"
  obtains dir s5 where "fat16_get_root_directory io (disk s) v (v + 64) s4 = Some (0, s5)"
    "io_grows s s5 [v, a, b, c, stream, dir] (item \<union> region (disk s + 16) 4)" "volume_ready s5 v a c"
    "ld32 (ram s5) (v + 64) = dir" "ld32 (ram s5) (v + 68) = of_nat (length es)"
    "ld32 (ram s5) (v + 76) = of_nat (root_sector data + root_sectors (root_entries data))"
    "ram s5 (v + 13) = disk_byte data 13"
    "\<forall>j<32 * root_entries data. ram s5 (dir + of_nat j) = disk_byte data (512 * root_sector data + j)"
proof -
  note g = io_grows_heap [OF h(1), simplified] io_grows_globals [OF h(1)]
  have fresh: "\<And>p. p \<in> {v, a, b, c, stream} \<Longrightarrow> region p 4096 \<inter> kheap_owned s = {} \<and> kheap_page s4 p" using g(7) by auto
  have apart: "region v 4096 \<inter> region c 4096 = {}" "region a 4096 \<inter> region v 4096 = {}" "region a 4096 \<inter> region c 4096 = {}"
    by (rule io_pages_apart [OF h(1)]; use g(5) in auto)+
  have v: "region v 92 \<subseteq> region v 4096" "region (v + 80) 12 \<subseteq> region v 4096" "region (v + 64) 16 \<subseteq> region v 4096"
    "region (v + 64) 16 \<inter> region (v + 80) 12 = {}" "v + 13 \<in> region v 4096" "v + 13 \<notin> region (v + 64) 16"
    "region c 4 \<subseteq> region c 4096"
    using field_subset [of 0 92 4096 v] field_subset [of 80 12 4096 v] field_subset [of 64 16 4096 v] field_disjoint [of 64 16 80 12 v]
      field_subset [of 0 4 4096 c] by simp_all
  obtain n where n: "n < 2 ^ 20" "\<forall>i<n. disk_byte data (512 * root_sector data + 32 * i) \<noteq> 0"
    "disk_byte data (512 * root_sector data + 32 * n) = 0" "used_entries data (512 * root_sector data) n = length es"
    using vol unfolding fat16_disk_def by blast
  have pre: "0 < kheap_free s4" "ld32 (ram s4) (v + 88) = c" "ld32 (ram s4) (disk s4 + 4) = 512" "ld32 (ram s4) (disk s4 + 16) = v"
    "region (disk s4) 20 \<subseteq> kheap_owned s4" "region v 92 \<subseteq> kheap_owned s4"
    "volume_header (ram s4) v (root_sector data) (root_entries data)" "0 < root_entries data" "root_entries data \<le> 128"
    "512 * root_sector data + 32 * Suc n + 512 < 2147483648" "512 * root_sector data + 32 * root_entries data + 512 < 2147483648"
    using h(2,4) g vol n(1) header_fields(7) [OF h(5)] by (auto simp: volume_ready_def fat16_disk_def)
  have it: "region (kstack s4 + 112) 32 \<subseteq> kheap_owned s4" "region (kstack s4 + 112) 32 \<inter> (region c 4096 \<union> region v 92 \<union> region (disk s4) 20) = {}"
    "region v 92 \<inter> region c 4096 = {}" "region c 4096 \<inter> region (disk s4) 20 = {}"
    using d g(3,8,10) fresh [of c] fresh [of v] v(1) apart(1) unfolding item_def by auto
  obtain dir s5 where r: "fat16_get_root_directory io (disk s4) v (v + 64) s4 = Some (0, s5)"
    "io_grows s4 s5 [dir] (region (kstack s4 + 112) 32 \<union> region c 4 \<union> region (v + 64) 16)"
    "ld32 (ram s5) (v + 64) = dir" "ld32 (ram s5) (v + 68) = of_nat (used_entries data (512 * root_sector data) n)"
    "ld32 (ram s5) (v + 76) = of_nat (root_sector data + root_sectors (root_entries data))"
    "\<forall>j<32 * root_entries data. ram s5 (dir + of_nat j) = disk_byte data (512 * root_sector data + j)"
    by (rule root_directory_spec [OF dev g(2) pre(1) h(3) pre(2-6) it(3) pre(7-9) it(1,2,4) n(2,3) pre(10,11)])
  show thesis
  proof
    show "fat16_get_root_directory io (disk s) v (v + 64) s4 = Some (0, s5)" using r(1) g(8) by simp
    show "io_grows s s5 [v, a, b, c, stream, dir] (item \<union> region (disk s + 16) 4)"
    proof (rule io_grows_mono)
      show "io_grows s s5 [v, a, b, c, stream, dir] (region (disk s + 16) 4 \<union> (item \<union> region c 4 \<union> region (v + 64) 16))"
        using io_grows_trans [OF h(1) r(2)] g(10) by (simp add: item_def)
      show "(region (disk s + 16) 4 \<union> (item \<union> region c 4 \<union> region (v + 64) 16)) \<inter> kheap_owned s \<subseteq> item \<union> region (disk s + 16) 4"
        using v(3,7) fresh [of c] fresh [of v] by blast
    qed
    have d16: "region (disk s + 4) 4 \<subseteq> region (disk s) 20" "region (disk s + 16) 4 \<subseteq> region (disk s) 20"
      using field_subset [of 4 4 20 "disk s"] field_subset [of 16 4 20 "disk s"] by simp_all
    let ?R = "region (disk s + 4) 4 \<union> region (disk s + 16) 4 \<union> region (v + 80) 12 \<union> region a 4096"
    have "item \<inter> ?R = {}" using d d16 v(2) fresh [of v] fresh [of a] by blast
    moreover have "region c 4 \<inter> ?R = {}" using d(1) d16 v(2,7) apart(1,3) fresh [of c] by blast
    moreover have "region (v + 64) 16 \<inter> ?R = {}" using d(1) d16 v(3,4) apart(2) fresh [of v] by blast
    ultimately have "(item \<union> region c 4 \<union> region (v + 64) 16) \<inter> ?R = {}" by (simp only: Int_Un_distrib2 Un_empty)
    from volume_ready_grows [OF r(2) h(2) this [unfolded item_def, folded g(8,10)]] show "volume_ready s5 v a c" .
    have "v + 13 \<in> kheap_owned s4" "v + 13 \<notin> item \<union> region c 4 \<union> region (v + 64) 16"
      using v(5-7) g(3) apart(1) fresh [of v] d(2) by blast+
    then show "ram s5 (v + 13) = disk_byte data 13"
      using io_grows_keeps [OF r(2)] header_fields(6) [OF h(5)] g(10) by (simp add: item_def del: mem_region)
    show "ld32 (ram s5) (v + 64) = dir" "ld32 (ram s5) (v + 68) = of_nat (length es)"
      "ld32 (ram s5) (v + 76) = of_nat (root_sector data + root_sectors (root_entries data))"
      "\<forall>j<32 * root_entries data. ram s5 (dir + of_nat j) = disk_byte data (512 * root_sector data + j)"
      using r(3-6) unfolding n(4) by blast+
  qed
qed

text \<open>Mounting a FAT16 disk.\<close>

lemma resolve_spec:
  fixes s :: "('d, 'a) fs_state_scheme"
  defines "item \<equiv> region (kstack s + 112) 32"
  assumes dev: "ata_device io xfer data" and vol: "fat16_disk data es"
    and st: "kheap_inv s" "6 \<le> kheap_free s" "disk s \<noteq> 0" "ld32 (ram s) (disk s + 8) = 0" "ld32 (ram s) (disk s + 4) = 512"
    and d: "region (disk s) 20 \<subseteq> kheap_owned s" "item \<subseteq> kheap_owned s" "item \<inter> region (disk s) 20 = {}"
  obtains v a b c dir s' where "fat16_resolve io (disk s) s = Some (0, s')"
    "io_grows s s' [v, a, b, c, dir] (item \<union> region (disk s + 12) 8)" "volume_ready s' v a c"
    "ld32 (ram s') (disk s + 12) = fat16_fs s" "ld32 (ram s') (v + 64) = dir" "ld32 (ram s') (v + 68) = of_nat (length es)"
    "ld32 (ram s') (v + 76) = of_nat (root_sector data + root_sectors (root_entries data))"
    "ram s' (v + 13) = disk_byte data 13"
    "\<forall>j<32 * root_entries data. ram s' (dir + of_nat j) = disk_byte data (512 * root_sector data + j)"
proof -
  obtain v s1 s2 a b c stream s3 where start: "kZalloc 4 s = (v, s1)" "fat16_init_private (disk s) v s1 = s2"
    "diskSteamerNew (ld32 (ram s2) (disk s + 8)) s2 = (stream, s3)" "stream \<noteq> 0"
    "io_grows s s3 [v, a, b, c, stream] (region (disk s + 16) 4)" "volume_ready s3 v a c" "stream_at s3 c 0" "stream_at s3 stream 0"
    by (rule resolve_start [OF st(1) _ st(3-5) d(1)]) (use st(2) in auto)
  obtain s4 where s4: "diskSteamerRead io stream v 62 s3 = Some (0, s4)" "io_grows s s4 [v, a, b, c, stream] (region (disk s + 16) 4)"
    "volume_ready s4 v a c" "stream_at s4 c 0" "\<forall>j<62. ram s4 (v + of_nat j) = disk_byte data j"
    by (rule header_read [OF dev start(5-8) d(1)])
  obtain dir s5 where s5: "fat16_get_root_directory io (disk s) v (v + 64) s4 = Some (0, s5)"
    "io_grows s s5 [v, a, b, c, stream, dir] (item \<union> region (disk s + 16) 4)" "volume_ready s5 v a c"
    "ld32 (ram s5) (v + 64) = dir" "ld32 (ram s5) (v + 68) = of_nat (length es)"
    "ld32 (ram s5) (v + 76) = of_nat (root_sector data + root_sectors (root_entries data))" "ram s5 (v + 13) = disk_byte data 13"
    "\<forall>j<32 * root_entries data. ram s5 (dir + of_nat j) = disk_byte data (512 * root_sector data + j)"
    by (rule resolve_body_spec [OF dev vol s4(2-4) st(2) s4(5) d(1) d(2,3) [unfolded item_def], folded item_def])
  define s6 where "s6 = s5\<lparr>ram := st32 (ram s5) (disk s + 12) (fat16_fs s)\<rparr>"
  note g5 = io_grows_heap [OF s5(2), simplified] io_grows_globals [OF s5(2)]
  have f: "region (disk s + 4) 4 \<inter> region (disk s + 12) 4 = {}" "region (disk s + 16) 4 \<inter> region (disk s + 12) 4 = {}"
    "region (disk s + 12) 4 \<subseteq> region (disk s) 20" "region (disk s + 12) 4 \<subseteq> region (disk s + 12) 8"
    using field_disjoint [of 4 4 12 4 "disk s"] field_disjoint [of 12 4 16 4 "disk s"] field_subset [of 12 4 20 "disk s"]
      field_subset [of 0 4 8 "disk s + 12"] by (simp_all add: Int_commute)
  have d16: "disk s + 16 = disk s + 12 + 4" by simp
  have f16: "region (disk s + 16) 4 \<subseteq> region (disk s + 12) 8" unfolding d16 by (rule field_subset) simp
  have w6: "io_grows s5 s6 [] (region (disk s + 12) 4)"
    unfolding s6_def using g5(2,3) f(3) d(1) by (intro grows_io kp.grows_write same_outside_st32) auto
  have g6: "io_grows s s6 [v, a, b, c, stream, dir] (item \<union> region (disk s + 12) 8)"
    using io_grows_trans [OF s5(2) w6] f(4) f16 by (auto elim!: io_grows_mono simp del: mem_region)
  define s' where "s' = kFree stream s6"
  have g': "io_grows s s' [v, a, b, c, dir] (item \<union> region (disk s + 12) 8)"
    using io_grows_release_front [of s s6 "[stream]" "[v, a, b, c, dir]"] io_grows_perm [OF g6, of "[stream, v, a, b, c, dir]"] g5(5)
    by (auto simp: s'_def)
  have fresh: "\<And>p. p \<in> {v, a, b, c, stream, dir} \<Longrightarrow> region p 4096 \<inter> kheap_owned s = {} \<and> region p 4096 \<subseteq> kheap_owned s5" using g5(3,7) by auto
  have v: "region v 92 \<subseteq> region v 4096" "region (v + 80) 12 \<subseteq> region v 4096" "region (v + 64) 4 \<subseteq> region v 4096"
    "region (v + 68) 4 \<subseteq> region v 4096" "region (v + 76) 4 \<subseteq> region v 4096" "v + 13 \<in> region v 4096"
    using field_subset [of 0 92 4096 v] field_subset [of 80 12 4096 v] field_subset [of 64 4 4096 v] field_subset [of 68 4 4096 v]
      field_subset [of 76 4 4096 v] by simp_all
  have s6: "kheap_inv s6" "kheap_page s6 stream" "kheap_owned s6 = kheap_owned s5" "disk s6 = disk s"
    using io_grows_heap [OF g6] io_grows_heap(3) [OF w6] io_grows_globals [OF g6] by simp_all
  have "region (disk s + 12) 4 \<inter> region (v + 80) 12 = {}" using f(3) d(1) v(2) fresh [of v] by blast
  moreover have "region (disk s + 12) 4 \<inter> region a 4096 = {}" using f(3) d(1) fresh [of a] by blast
  ultimately have "volume_ready s6 v a c"
    using volume_ready_grows [OF w6 s5(3)] f(1,2) g5(8) by (simp add: Int_Un_distrib Int_commute)
  moreover have "stream \<noteq> a" using g5(5) by auto
  moreover have "region stream 4096 \<inter> (region (disk s6) 20 \<union> region v 92) = {}"
    using io_pages_apart [OF s5(2), of stream v] g5(5) fresh [of stream] d(1) v(1) s6(4) by auto
  ultimately have rel: "volume_ready s' v a c" "\<And>x. x \<in> kheap_owned s5 \<Longrightarrow> ram s' x = ram s6 x"
    unfolding s'_def using volume_ready_release [OF s6(1,2)] s6(3) by simp_all
  have byte: "ram s' x = ram s5 x" if "p \<in> {v, dir}" "x \<in> region p 4096" for p x
  proof -
    have "x \<in> kheap_owned s5" "x \<notin> region (disk s + 12) 4" using fresh [of p] that f(3) d(1) by blast+
    then show ?thesis using rel(2) io_grows_keeps [OF w6] by simp
  qed
  have word: "ld32 (ram s') q = ld32 (ram s5) q" if "region q 4 \<subseteq> region v 4096" for q
    by (rule ld32_cong) (use that byte in blast)
  show thesis
  proof
    show "fat16_resolve io (disk s) s = Some (0, s')"
    proof -
      have "ram s4 (v + 38) = 0x29" using header_fields(5) [OF s4(5)] vol by (simp add: fat16_disk_def)
      moreover have "fat16_fs s5 = fat16_fs s" using io_grows_globals(5) [OF s5(2)] .
      ultimately show ?thesis
        using start(1-4) s4(1) s5(1) by (simp add: fat16_resolve_def fat16_resolve_body_def diskStreamerClose_def s'_def s6_def)
    qed
    show "io_grows s s' [v, a, b, c, dir] (item \<union> region (disk s + 12) 8)" by (rule g')
    show "volume_ready s' v a c" by (rule rel(1))
    show "ld32 (ram s') (disk s + 12) = fat16_fs s"
    proof -
      have "ld32 (ram s') (disk s + 12) = ld32 (ram s6) (disk s + 12)"
        by (rule ld32_cong) (use rel(2) f(3) d(1) g5(3) in blast)
      then show ?thesis by (simp add: s6_def)
    qed
    show "ld32 (ram s') (v + 64) = dir" "ld32 (ram s') (v + 68) = of_nat (length es)"
      "ld32 (ram s') (v + 76) = of_nat (root_sector data + root_sectors (root_entries data))"
      using v(3-5) [THEN word] s5(4-6) by simp_all
    show "ram s' (v + 13) = disk_byte data 13" using byte [of v] v(6) s5(7) by simp
    show "\<forall>j<32 * root_entries data. ram s' (dir + of_nat j) = disk_byte data (512 * root_sector data + j)"
    proof (intro allI impI)
      fix j assume "j < 32 * root_entries data"
      moreover have "root_entries data \<le> 128" using vol by (simp add: fat16_disk_def)
      ultimately have "dir + of_nat j \<in> region dir 4096" by (simp add: word_less_nat_alt)
      then show "ram s' (dir + of_nat j) = disk_byte data (512 * root_sector data + j)"
        using byte [of dir] s5(8) \<open>j < _\<close> by simp
    qed
  qed
qed

text \<open>The objects the linker places, and the buffers on the stack, are in memory of their own.\<close>

definition file_globals :: "('d, 'a) fs_state_scheme \<Rightarrow> bool" where
  "file_globals s \<longleftrightarrow> kheap_inv s \<and> kernelHeap s = kernel_heap \<and> disk s \<noteq> 0 \<and> fat16_fs s \<noteq> 0 \<and>
     region (disk s) 20 \<union> region (file_descriptors s) 2048 \<union> region (kstack s) 160 \<subseteq> kheap_owned s \<and>
     region (disk s) 20 \<inter> region (file_descriptors s) 2048 = {} \<and> region (disk s) 20 \<inter> region (kstack s) 160 = {} \<and>
     region (file_descriptors s) 2048 \<inter> region (kstack s) 160 = {}"

lemma name_field_shift:
  "(\<And>k. k \<le> length xs \<Longrightarrow> m' (p' + of_nat k) = m (p + of_nat k)) \<Longrightarrow> name_field m' p' xs = name_field m p xs"
proof (induction xs arbitrary: p p')
  case Nil
  then show ?case using Nil [of 0] by simp
next
  case (Cons x xs)
  have "m' (p' + 1 + of_nat k) = m (p + 1 + of_nat k)" if "k \<le> length xs" for k
    using Cons.prems [of "Suc k"] that by (simp add: add.assoc)
  then show ?case using Cons.IH [of "p' + 1" "p + 1"] Cons.prems [of 0] by simp
qed

lemma directory_from_disk:
  assumes "fat16_disk data es" "ld32 m d = dir" "ld32 m (d + 4) = of_nat (length es)"
    and "\<forall>j<32 * root_entries data. m (dir + of_nat j) = disk_byte data (512 * root_sector data + j)"
  shows "directory m d es"
proof -
  let ?q = "512 * root_sector data"
  have vol: "length es \<le> root_entries data" "root_entries data \<le> 128" "?q < 2 ^ 29" using assms(1) by (simp_all add: fat16_disk_def)
  have shift: "name_field m (dir + 32 * of_nat i + of_nat o') xs = name_field (disk_image data) (of_nat (?q + 32 * i) + of_nat o') xs"
    if "i < length es" "o' + length xs < 32" for i o' and xs :: "u8 list"
  proof (rule name_field_shift)
    fix k assume k: "k \<le> length xs"
    have small: "32 * i + o' + k < 32 * root_entries data" using that vol(1) k by linarith
    have "dir + 32 * of_nat i + of_nat o' + of_nat k = dir + of_nat (32 * i + o' + k)" by simp
    then have "m (dir + 32 * of_nat i + of_nat o' + of_nat k) = disk_byte data (?q + (32 * i + o' + k))"
      using assms(4) small by metis
    moreover have "unat (of_nat (?q + (32 * i + o' + k)) :: u32) = ?q + (32 * i + o' + k)"
      using small vol(2,3) by (intro unat_of_nat_u32) simp
    then have "disk_image data (of_nat (?q + (32 * i + o' + k))) = disk_byte data (?q + (32 * i + o' + k))"
      by (simp only: disk_image_def)
    ultimately show "m (dir + 32 * of_nat i + of_nat o' + of_nat k) = disk_image data (of_nat (?q + 32 * i) + of_nat o' + of_nat k)"
      by (simp add: add.assoc)
  qed
  have "name_field m (entry_at m d i) (fst (es ! i)) \<and> length (fst (es ! i)) \<le> 11 \<and>
      name_field m (entry_at m d i + 8) (snd (es ! i)) \<and> length (snd (es ! i)) \<le> 3" if i: "i < length es" for i
  proof -
    have e: "name_field (disk_image data) (of_nat (?q + 32 * i)) (fst (es ! i))" "length (fst (es ! i)) \<le> 11"
      "name_field (disk_image data) (of_nat (?q + 32 * i) + 8) (snd (es ! i))" "length (snd (es ! i)) \<le> 3"
      using assms(1) i unfolding fat16_disk_def by blast+
    then show ?thesis
      using shift [OF i, of 0 "fst (es ! i)"] shift [OF i, of 8 "snd (es ! i)"] by (simp add: entry_at_def assms(2))
  qed
  then show ?thesis using assms(3) vol(1,2) by (simp add: directory_def)
qed

text \<open>Where the entry and the first cluster of the file \<open>i\<close> are on the disk.\<close>

definition disk_entry :: "(u32 \<Rightarrow> mem) \<Rightarrow> nat \<Rightarrow> addr" where
  "disk_entry data i = of_nat (512 * root_sector data + 32 * i)"

definition file_sector :: "(u32 \<Rightarrow> mem) \<Rightarrow> nat \<Rightarrow> u32" where
  "file_sector data i = of_nat (root_sector data + root_sectors (root_entries data)) +
     (fat16_get_first_cluster (disk_image data) (disk_entry data i) - 2) * ucast (disk_byte data 13)"

lemma mounted_volume:
  fixes s s' :: "('d, 'a) fs_state_scheme"
  assumes vol: "fat16_disk data es" and st: "file_globals s"
    and g: "io_grows s s' [v, a, b, c, dir] (region (kstack s + 112) 32 \<union> region (disk s + 12) 8)" "volume_ready s' v a c"
      "ld32 (ram s') (disk s + 12) = fat16_fs s" "ld32 (ram s') (v + 64) = dir" "ld32 (ram s') (v + 68) = of_nat (length es)"
    and bytes: "\<forall>j<32 * root_entries data. ram s' (dir + of_nat j) = disk_byte data (512 * root_sector data + j)"
  shows "mounted s' es" "(disk_bytes s' \<union> directory_bytes (ram s') (root_dir s') es) \<inter> kheap_owned s \<subseteq> region (disk s) 20"
proof -
  note h = io_grows_heap [OF g(1), simplified] io_grows_globals [OF g(1)]
  have gl: "kernelHeap s = kernel_heap" "disk s \<noteq> 0" "fat16_fs s \<noteq> 0" "region (disk s) 20 \<subseteq> kheap_owned s"
    "region (file_descriptors s) 2048 \<subseteq> kheap_owned s" "region (kstack s) 160 \<subseteq> kheap_owned s"
    "region (disk s) 20 \<inter> region (file_descriptors s) 2048 = {}" "region (disk s) 20 \<inter> region (kstack s) 160 = {}"
    "region (file_descriptors s) 2048 \<inter> region (kstack s) 160 = {}"
    using st by (simp_all add: file_globals_def)
  have buf: "region (kstack s) 108 \<subseteq> region (kstack s) 160" using field_subset [of 0 108 160 "kstack s"] by simp
  have fresh: "region p 4096 \<inter> kheap_owned s = {}" "region p 4096 \<subseteq> kheap_owned s'" if "p \<in> {v, a, dir}" for p
    using h(3,7) that by auto
  have v: "region v 92 \<subseteq> region v 4096" "region (v + 64) 8 \<subseteq> region v 4096" "region a 4 \<subseteq> region a 4096" "region a 8 \<subseteq> region a 4096"
    using field_subset [of 0 92 4096 v] field_subset [of 64 8 4096 v] field_subset [of 0 4 4096 a] field_subset [of 0 8 4096 a] by simp_all
  have r: "ld32 (ram s') (disk s + 4) = 512" "ld32 (ram s') (disk s + 16) = v" "ld32 (ram s') (v + 80) = a" "ld32 (ram s') (a + 4) = disk s"
    using g(2) h(8) by (simp_all add: volume_ready_def stream_at_def)
  have root: "root_dir s' = v + 64" "file_stream (ram s') (disk s) = a" using r h(8) by (simp_all add: root_dir_def file_stream_def)
  have "directory (ram s') (v + 64) es" by (rule directory_from_disk [OF vol g(4) _ bytes]) (use g(5) in \<open>simp add: add.assoc\<close>)
  moreover have entries: "directory_bytes (ram s') (v + 64) es \<subseteq> region v 4096 \<union> region dir 4096"
  proof -
    have "region (dir + 32 * of_nat i) 32 \<subseteq> region dir 4096" if "i < length es" for i
    proof -
      have "32 * i + 32 \<le> 4096" using that vol by (simp add: fat16_disk_def)
      then have "unat (32 * of_nat i :: u32) + unat (32 :: u32) \<le> unat (4096 :: u32)"
        using unat_of_nat_u32 [of "32 * i"] by simp
      then show ?thesis using field_subset by blast
    qed
    then show ?thesis using v(2) g(4) unfolding directory_bytes_def entry_at_def by auto
  qed
  moreover have "region v 4096 \<union> region dir 4096 \<subseteq> kheap_owned s' - region (kstack s) 108" "region (kstack s) 108 \<subseteq> kheap_owned s'"
    using fresh [of v] fresh [of dir] gl(6) buf h(3) by blast+
  ultimately have "dir_ok s' (root_dir s') es" unfolding dir_ok_def root h(10) using h(2) by blast
  moreover have "region a 4 \<inter> (region (disk s) 20 \<union> region v 92) = {}"
  proof -
    have "region a 4096 \<inter> region v 4096 = {}" by (rule io_pages_apart [OF g(1)]) (use h(5) in auto)
    moreover have "region a 4 \<inter> region (disk s) 20 = {}" using v(3) fresh(1) [of a] gl(4) by blast
    ultimately show ?thesis using v(1,3) by blast
  qed
  moreover have "region (file_descriptors s) 2048 \<subseteq> kheap_owned s' - region (kstack s) 108" using gl(5,9) buf h(3) by blast
  moreover have "region (disk s) 20 \<subseteq> kheap_owned s' - region (kstack s) 108 - region (file_descriptors s) 2048"
    using gl(4,7,8) buf h(3) by blast
  moreover have "region v 92 \<union> region a 8 \<subseteq> kheap_owned s' - region (kstack s) 108 - region (file_descriptors s) 2048"
    using v(1,4) fresh [of v] fresh [of a] gl(5,6) buf by blast
  ultimately show "mounted s' es"
    unfolding mounted_def disk_bytes_def h(8-11) using gl(1-3) r g(3) root(2) by simp
  show "(disk_bytes s' \<union> directory_bytes (ram s') (root_dir s') es) \<inter> kheap_owned s \<subseteq> region (disk s) 20"
    using v(1,4) entries fresh(1) [of v] fresh(1) [of a] fresh(1) [of dir] unfolding disk_bytes_def h(8) r(2) root by blast
qed

text \<open>The volume in memory is the one on the disk.\<close>

definition reads_volume :: "('d, 'a) fs_state_scheme \<Rightarrow> (u32 \<Rightarrow> mem) \<Rightarrow> bool" where
  "reads_volume s data \<longleftrightarrow>
     ram s (ld32 (ram s) (disk s + 16) + 13) = disk_byte data 13 \<and>
     ld32 (ram s) (ld32 (ram s) (disk s + 16) + 76) = of_nat (root_sector data + root_sectors (root_entries data)) \<and>
     (\<forall>j<32 * root_entries data. ram s (ld32 (ram s) (root_dir s) + of_nat j) = disk_byte data (512 * root_sector data + j))"

lemma reads_volume_entry:
  assumes "reads_volume s data" "fat16_disk data es" "i < length es"
  shows "k < 32 \<Longrightarrow> ram s (entry_at (ram s) (root_dir s) i + of_nat k) = disk_image data (disk_entry data i + of_nat k)"
    "fat16_get_first_cluster (ram s) (entry_at (ram s) (root_dir s) i) = fat16_get_first_cluster (disk_image data) (disk_entry data i)"
    "fat16_cluster_to_sector (ram s) (ld32 (ram s) (disk s + 16))
       (fat16_get_first_cluster (ram s) (entry_at (ram s) (root_dir s) i)) = file_sector data i"
proof -
  let ?q = "512 * root_sector data"
  have vol: "length es \<le> root_entries data" "root_entries data \<le> 128" "?q < 2 ^ 29" using assms(2) by (simp_all add: fat16_disk_def)
  show byte: "ram s (entry_at (ram s) (root_dir s) i + of_nat k) = disk_image data (disk_entry data i + of_nat k)" if "k < 32" for k
  proof -
    have j: "32 * i + k < 32 * root_entries data" using that assms(3) vol(1) by linarith
    have "entry_at (ram s) (root_dir s) i + of_nat k = ld32 (ram s) (root_dir s) + of_nat (32 * i + k)" by (simp add: entry_at_def)
    then have "ram s (entry_at (ram s) (root_dir s) i + of_nat k) = disk_byte data (?q + (32 * i + k))"
      using assms(1) j unfolding reads_volume_def by metis
    moreover have "unat (of_nat (?q + (32 * i + k)) :: u32) = ?q + (32 * i + k)" using j vol(2,3) by (intro unat_of_nat_u32) simp
    then have "disk_image data (of_nat (?q + (32 * i + k))) = disk_byte data (?q + (32 * i + k))" by (simp only: disk_image_def)
    ultimately show ?thesis by (simp add: disk_entry_def add.assoc)
  qed
  have "ld16 (ram s) (entry_at (ram s) (root_dir s) i + of_nat k) = ld16 (disk_image data) (disk_entry data i + of_nat k)" if "k < 31" for k
    using byte [of k] byte [of "Suc k"] that by (simp add: ld16_def ac_simps)
  from this [of 20] this [of 26]
  show c: "fat16_get_first_cluster (ram s) (entry_at (ram s) (root_dir s) i) = fat16_get_first_cluster (disk_image data) (disk_entry data i)"
    by (simp add: fat16_get_first_cluster_def)
  show "fat16_cluster_to_sector (ram s) (ld32 (ram s) (disk s + 16))
       (fat16_get_first_cluster (ram s) (entry_at (ram s) (root_dir s) i)) = file_sector data i"
    unfolding c using assms(1) by (simp add: fat16_cluster_to_sector_def file_sector_def reads_volume_def)
qed

lemma mount_spec:
  fixes s :: "('d, 'a) fs_state_scheme"
  assumes "ata_device io xfer data" "fat16_disk data es" "file_globals s" "6 \<le> kheap_free s"
    "ld32 (ram s) (disk s + 8) = 0" "ld32 (ram s) (disk s + 4) = 512"
  obtains s' ps where "fat16_resolve io (disk s) s = Some (0, s')" "length ps = 5"
    "io_grows s s' ps (region (kstack s + 112) 32 \<union> region (disk s + 12) 8)" "mounted s' es" "reads_volume s' data"
    "ld32 (ram s') (disk s + 12) = fat16_fs s" "(disk_bytes s' \<union> directory_bytes (ram s') (root_dir s') es) \<inter> kheap_owned s \<subseteq> region (disk s) 20"
proof -
  have gl: "kheap_inv s" "disk s \<noteq> 0" "region (disk s) 20 \<subseteq> kheap_owned s" "region (kstack s) 160 \<subseteq> kheap_owned s"
    "region (disk s) 20 \<inter> region (kstack s) 160 = {}"
    using assms(3) by (simp_all add: file_globals_def)
  have "region (kstack s + 112) 32 \<subseteq> region (kstack s) 160" using field_subset [of 112 32 160 "kstack s"] by simp
  then have item: "region (kstack s + 112) 32 \<subseteq> kheap_owned s" "region (kstack s + 112) 32 \<inter> region (disk s) 20 = {}"
    using gl(4,5) by blast+
  obtain v a b c dir s' where r: "fat16_resolve io (disk s) s = Some (0, s')"
    "io_grows s s' [v, a, b, c, dir] (region (kstack s + 112) 32 \<union> region (disk s + 12) 8)" "volume_ready s' v a c"
    "ld32 (ram s') (disk s + 12) = fat16_fs s" "ld32 (ram s') (v + 64) = dir" "ld32 (ram s') (v + 68) = of_nat (length es)"
    "ld32 (ram s') (v + 76) = of_nat (root_sector data + root_sectors (root_entries data))"
    "ram s' (v + 13) = disk_byte data 13"
    "\<forall>j<32 * root_entries data. ram s' (dir + of_nat j) = disk_byte data (512 * root_sector data + j)"
    by (rule resolve_spec [OF assms(1,2) gl(1) assms(4) gl(2) assms(5,6) gl(3) item])
  have "ld32 (ram s') (disk s' + 16) = v" using r(3) by (simp add: volume_ready_def)
  then have "reads_volume s' data" using r(5,7-9) unfolding reads_volume_def root_dir_def by simp
  then show thesis
    using that [OF r(1) _ r(2) _ _ r(4)] mounted_volume [OF assms(2,3) r(2-6,9)] by simp
qed

section \<open>Properties\<close>

text \<open>C11. Mounting a FAT16 disk: \<open>fat16_resolve\<close> returns 0 and leaves the disk with its volume, ready for opening files: the root
  directory in memory has the entries of the root directory on the disk, byte for byte, clusters are found at the sectors
  the format defines, five pages are taken, and of the memory in use only the structure of the disk and a buffer on the stack
  are written.\<close>

theorem fat16_resolve_mounts:
  fixes s :: "('d, 'a) fs_state_scheme"
  assumes "ata_device io xfer data" "fat16_disk data es" "file_globals s" "6 \<le> kheap_free s"
    "ld32 (ram s) (disk s + 8) = 0" "ld32 (ram s) (disk s + 4) = 512"
  shows "\<exists>s'. fat16_resolve io (disk s) s = Some (0, s') \<and> mounted s' es \<and> ld32 (ram s') (disk s + 12) = fat16_fs s \<and>
    kheap_free s' + 5 = kheap_free s \<and> (\<forall>a\<in>kheap_owned s - region (disk s) 20 - region (kstack s) 160. ram s' a = ram s a) \<and>
    (\<forall>i<length es. (\<forall>k<32. ram s' (entry_at (ram s') (root_dir s') i + of_nat k) = disk_image data (disk_entry data i + of_nat k)) \<and>
       fat16_cluster_to_sector (ram s') (ld32 (ram s') (disk s' + 16))
         (fat16_get_first_cluster (ram s') (entry_at (ram s') (root_dir s') i)) = file_sector data i)"
proof -
  obtain s' ps where r: "fat16_resolve io (disk s) s = Some (0, s')" "length ps = 5"
    "io_grows s s' ps (region (kstack s + 112) 32 \<union> region (disk s + 12) 8)" "mounted s' es" "reads_volume s' data"
    "ld32 (ram s') (disk s + 12) = fat16_fs s"
    by (rule mount_spec [OF assms])
  have "region (kstack s + 112) 32 \<subseteq> region (kstack s) 160" "region (disk s + 12) 8 \<subseteq> region (disk s) 20"
    using field_subset [of 112 32 160 "kstack s"] field_subset [of 12 8 20 "disk s"] by simp_all
  then have "ram s' a = ram s a" if "a \<in> kheap_owned s - region (disk s) 20 - region (kstack s) 160" for a
    using io_grows_keeps [OF r(3)] that by blast
  moreover have "kheap_free s' + 5 = kheap_free s" using io_grows_heap(4) [OF r(3)] r(2) by simp
  ultimately show ?thesis using r(1,4,6) reads_volume_entry(1,3) [OF r(5) assms(2)] by blast
qed

lemma reject_spec:
  fixes s :: "('d, 'a) fs_state_scheme"
  assumes "ata_device io xfer data" "disk_byte data 38 \<noteq> 0x29" "kheap_inv s" "5 \<le> kheap_free s" "disk s \<noteq> 0"
    "ld32 (ram s) (disk s + 8) = 0" "ld32 (ram s) (disk s + 4) = 512" "region (disk s) 20 \<subseteq> kheap_owned s"
  obtains a b c s' where "fat16_resolve io (disk s) s = Some (- EFSNOTUS, s')" "io_grows s s' [a, b, c] (region (disk s + 16) 4)"
    "ld32 (ram s') (disk s + 16) = 0"
proof -
  obtain v s1 s2 a b c stream s3 where start: "kZalloc 4 s = (v, s1)" "fat16_init_private (disk s) v s1 = s2"
    "diskSteamerNew (ld32 (ram s2) (disk s + 8)) s2 = (stream, s3)" "stream \<noteq> 0"
    "io_grows s s3 [v, a, b, c, stream] (region (disk s + 16) 4)" "volume_ready s3 v a c" "stream_at s3 c 0" "stream_at s3 stream 0"
    by (rule resolve_start [OF assms(3-8)])
  obtain s4 where s4: "diskSteamerRead io stream v 62 s3 = Some (0, s4)" "io_grows s s4 [v, a, b, c, stream] (region (disk s + 16) 4)"
    "\<forall>j<62. ram s4 (v + of_nat j) = disk_byte data j"
    by (rule header_read [OF assms(1) start(5-8) assms(8)])
  have d16: "region (disk s + 16) 4 \<subseteq> kheap_owned s" using field_subset [of 16 4 20 "disk s"] assms(8) by auto
  have g5: "io_grows s (kFree v s4) [a, b, c, stream] (region (disk s + 16) 4)"
    using io_grows_release_front [of s s4 "[v]"] s4(2) by simp
  define s6 where "s6 = (kFree v s4)\<lparr>ram := st32 (ram (kFree v s4)) (disk s + 16) 0\<rparr>"
  have "io_grows (kFree v s4) s6 [] (region (disk s + 16) 4)"
    unfolding s6_def using io_grows_heap(2,3) [OF g5] d16 by (intro grows_io kp.grows_write same_outside_st32) auto
  then have g6: "io_grows s s6 [a, b, c, stream] (region (disk s + 16) 4)" using io_grows_trans [OF g5] by fastforce
  have p6: "kheap_page s6 stream" using io_grows_heap(7) [OF g6] by simp
  have "io_grows s s6 [stream, a, b, c] (region (disk s + 16) 4)" using io_grows_heap(5) [OF g6] by (intro io_grows_perm [OF g6]) auto
  then have g7: "io_grows s (kFree stream s6) [a, b, c] (region (disk s + 16) 4)" using io_grows_release_front [of s s6 "[stream]"] by simp
  have "ld32 (ram (kFree stream s6)) (disk s + 16) = ld32 (ram s6) (disk s + 16)"
    using kp.release_keeps [OF io_grows_heap(2) [OF g6] p6] io_grows_heap(3) [OF g6] d16 by (intro ld32_cong) blast
  then have "ld32 (ram (kFree stream s6)) (disk s + 16) = 0" by (simp add: s6_def)
  moreover have "ram s4 (v + 38) \<noteq> 0x29" using header_fields(5) [OF s4(3)] assms(2) by simp
  then have "fat16_resolve io (disk s) s = Some (- EFSNOTUS, kFree stream s6)"
    using start(1-4) s4(1) by (simp add: fat16_resolve_def fat16_resolve_body_def diskStreamerClose_def Let_def s6_def)
  ultimately show thesis using that g7 by blast
qed

text \<open>C12. A disk without the signature of FAT16 is refused with \<open>-EFSNOTUS\<close>: the disk has no volume afterwards and no other memory
  in use is written.  The page of the volume and the stream for the header are released; the three streams of the volume are not.\<close>

theorem fat16_resolve_rejects:
  fixes s :: "('d, 'a) fs_state_scheme"
  assumes "ata_device io xfer data" "disk_byte data 38 \<noteq> 0x29" "kheap_inv s" "5 \<le> kheap_free s" "disk s \<noteq> 0"
    "ld32 (ram s) (disk s + 8) = 0" "ld32 (ram s) (disk s + 4) = 512" "region (disk s) 20 \<subseteq> kheap_owned s"
  shows "\<exists>s'. fat16_resolve io (disk s) s = Some (- EFSNOTUS, s') \<and> ld32 (ram s') (disk s + 16) = 0 \<and>
    kheap_inv s' \<and> kheap_free s' + 3 = kheap_free s \<and> (\<forall>a\<in>kheap_owned s - region (disk s + 16) 4. ram s' a = ram s a)"
proof -
  obtain a b c s' where "fat16_resolve io (disk s) s = Some (- EFSNOTUS, s')" "io_grows s s' [a, b, c] (region (disk s + 16) 4)"
    "ld32 (ram s') (disk s + 16) = 0"
    by (rule reject_spec [OF assms])
  then show ?thesis using io_grows_heap(2,4) [of s s'] io_grows_keeps [of s s'] by fastforce
qed

text \<open>A disk with one file, \<^verbatim>\<open>B\<close>, that starts at cluster 2.\<close>

definition demo_disk :: "u32 \<Rightarrow> mem" where
  "demo_disk lba i =
     (if lba = 0 then (if i = 13 then 4 else if i = 14 then 1 else if i = 17 then 16 else if i = 38 then 0x29 else 0)
      else if lba = 1 then (if i = 0 then 0x42 else if i = 1 \<or> i = 8 then 0x20 else if i = 26 then 2 else 0)
      else ucast (lba * 7 + i))"

lemma demo_disk_header:
  "disk_byte demo_disk 13 = 4" "disk_byte demo_disk 38 = 0x29" "root_sector demo_disk = 1" "root_entries demo_disk = 16"
  by (simp_all add: disk_byte_def demo_disk_def root_sector_def root_entries_def disk_image_def ld16_def)

lemma demo_disk_entry:
  "disk_entry demo_disk 0 = 512" "fat16_get_first_cluster (disk_image demo_disk) 512 = 2" "disk_image demo_disk 523 = 0"
  "file_sector demo_disk 0 = 2"
proof -
  show e: "disk_entry demo_disk 0 = 512" by (simp add: disk_entry_def demo_disk_header)
  show c: "fat16_get_first_cluster (disk_image demo_disk) 512 = 2"
    by (simp add: fat16_get_first_cluster_def ld16_def disk_image_def disk_byte_def demo_disk_def)
  show "disk_image demo_disk 523 = 0" by (simp add: disk_image_def disk_byte_def demo_disk_def)
  show "file_sector demo_disk 0 = 2" by (simp add: file_sector_def e c demo_disk_header root_sectors_def)
qed

lemma demo_disk_fat16: "fat16_disk demo_disk [([66], [])]"
proof -
  have "\<exists>n<2 ^ 20. (\<forall>i<n. disk_byte demo_disk (512 + 32 * i) \<noteq> 0) \<and> disk_byte demo_disk (512 + 32 * n) = 0 \<and>
      used_entries demo_disk 512 n = length [([66 :: u8], [] :: u8 list)]"
    by (rule exI [of _ 1]) (simp add: disk_byte_def demo_disk_def)
  then show ?thesis
    by (simp add: fat16_disk_def demo_disk_header) (simp add: disk_image_def disk_byte_def demo_disk_def)
qed

lemma demo_mounted_globals: "file_globals demo_mounted" "ld32 demo_root 0x20008 = 0"
proof -
  have r: "region 0x20000 20 \<subseteq> kheap_owned demo_mounted" "region 0x24000 2048 \<subseteq> kheap_owned demo_mounted"
    "region 0x1F0000 160 \<subseteq> kheap_owned demo_mounted"
    by (rule demo_region; simp)+
  have "region 0x20000 20 \<inter> region 0x24000 2048 = ({} :: addr set)" "region 0x20000 20 \<inter> region 0x1F0000 160 = ({} :: addr set)"
    "region 0x24000 2048 \<inter> region 0x1F0000 160 = ({} :: addr set)"
    by (auto simp: region_unat simp del: mem_region)
  then show "file_globals demo_mounted"
    using r demo_mounted_ready(1) by (simp add: file_globals_def demo_mounted_state)
      (simp add: demo_mounted_def demo_ready_def KheapInit_eq demo_volume_def)
  show "ld32 demo_root 0x20008 = 0" by (simp add: demo_root_def ld32_st32) (simp add: ld32_def)
qed

theorem fat16_resolve_mounts_witness:
  "\<exists>s'. fat16_resolve (model_ports demo_disk) 0x20000 demo_mounted = Some (0, s') \<and> mounted s' [([66], [])] \<and> kheap_free s' = 25595"
  using fat16_resolve_mounts [OF model_ports_device demo_disk_fat16 demo_mounted_globals(1)] demo_mounted_globals(2) demo_mounted_ready(2)
    demo_root_words(1) by (auto simp: demo_mounted_state)

theorem fat16_resolve_rejects_witness:
  "\<exists>s'. fat16_resolve (model_ports demo_content) 0x20000 demo_mounted = Some (- EFSNOTUS, s') \<and> kheap_free s' = 25597"
proof -
  have "disk_byte demo_content 38 \<noteq> 0x29" by (simp add: disk_byte_def demo_content_def)
  then show ?thesis
    using fat16_resolve_rejects [OF model_ports_device, of demo_content demo_mounted] demo_mounted_globals demo_mounted_ready(1,2)
      demo_root_words(1) demo_region [of "0x20000" 20] by (auto simp: demo_mounted_state simp del: mem_region)
qed

end
