(* ===== verification/Heap_Runs.thy ===== *)
theory Heap_Runs
  imports Heap
begin

text \<open>
  Requests of more than a page: the interface \<open>run_heap\<close> extends \<open>page_heap\<close> with runs of blocks.  \<open>room s k\<close> says
  that there are \<open>k\<close> free blocks in a row, \<open>run_blocks n\<close> is the number of blocks a request for \<open>n\<close> bytes takes.
  Small allocations break up long runs, but \<open>j\<close> of them leave a run of \<open>k\<close> in one of \<open>(j + 1) k\<close>.
  The kernel heap provides the interface.
\<close>

definition run_blocks :: "u32 \<Rightarrow> nat" where
  "run_blocks n = (unat n + 4095) div 4096"

definition run_bytes :: "addr \<Rightarrow> nat \<Rightarrow> addr set" where
  "run_bytes p k = (\<Union>i<k. region (p + of_nat i * 4096) 4096)"

lemma run_blocks_pos: "0 < n \<Longrightarrow> 0 < run_blocks n"
  by (simp add: run_blocks_def word_less_nat_alt div_greater_zero_iff)

lemma run_bytes_region:
  assumes "unat n \<le> 4294963200"
  shows "region p n \<subseteq> run_bytes p (run_blocks n)"
proof
  fix a assume "a \<in> region p n"
  then have a: "unat (a - p) < unat n" by (simp add: word_less_nat_alt)
  define i where "i = unat (a - p) div 4096"
  have i: "4096 * i \<le> unat (a - p)" "unat (a - p) < 4096 * i + 4096"
    by (simp add: i_def, simp add: i_def)
  have "4096 * i < 4294967296" using i a assms by linarith
  then have off: "unat (of_nat i * 4096 :: u32) = 4096 * i" by (subst unat_mult_u32) simp_all
  have "unat (a - (p + of_nat i * 4096)) = unat (a - p - of_nat i * 4096)" by (simp add: algebra_simps)
  also have "\<dots> = unat (a - p) - 4096 * i" using i(1) off by (simp add: unat_sub word_le_nat_alt)
  finally have "a \<in> region (p + of_nat i * 4096) 4096" using i by (simp add: word_less_nat_alt)
  moreover have "i < run_blocks n" using i(1) a by (simp add: run_blocks_def i_def div_less_iff_less_mult)
  ultimately show "a \<in> run_bytes p (run_blocks n)" unfolding run_bytes_def by blast
qed

lemma of_nat_in_region: "i < unat n \<Longrightarrow> p + of_nat i \<in> region p n"
  using u32_bound [of n] by (simp add: word_less_nat_alt unat_of_nat)

lemma of_nat_in_run: "i < unat n \<Longrightarrow> unat n \<le> 4294963200 \<Longrightarrow> p + of_nat i \<in> run_bytes p (run_blocks n)"
  by (rule subsetD [OF run_bytes_region of_nat_in_region])

locale run_heap = page_heap +
  fixes room :: "'a \<Rightarrow> nat \<Rightarrow> bool"
  assumes run_inv: "inv s \<Longrightarrow> 0 < n \<Longrightarrow> unat n \<le> 4294963200 \<Longrightarrow> room s (run_blocks n) \<Longrightarrow> inv (snd (alloc n s))"
    and run_start: "inv s \<Longrightarrow> 0 < n \<Longrightarrow> unat n \<le> 4294963200 \<Longrightarrow> room s (run_blocks n) \<Longrightarrow>
      fst (alloc n s) \<noteq> NULL \<and> page_aligned (fst (alloc n s)) \<and> unat (fst (alloc n s)) + 4096 * run_blocks n \<le> 4294967296"
    and run_fresh: "inv s \<Longrightarrow> 0 < n \<Longrightarrow> unat n \<le> 4294963200 \<Longrightarrow> room s (run_blocks n) \<Longrightarrow>
      run_bytes (fst (alloc n s)) (run_blocks n) \<inter> owned s = {}"
    and run_owned: "inv s \<Longrightarrow> 0 < n \<Longrightarrow> unat n \<le> 4294963200 \<Longrightarrow> room s (run_blocks n) \<Longrightarrow>
      owned (snd (alloc n s)) = owned s \<union> run_bytes (fst (alloc n s)) (run_blocks n)"
    and run_free: "inv s \<Longrightarrow> 0 < n \<Longrightarrow> unat n \<le> 4294963200 \<Longrightarrow> room s (run_blocks n) \<Longrightarrow>
      free_pages s = free_pages (snd (alloc n s)) + run_blocks n"
    and run_zeroed: "inv s \<Longrightarrow> 0 < n \<Longrightarrow> unat n \<le> 4294963200 \<Longrightarrow> room s (run_blocks n) \<Longrightarrow>
      a \<in> region (fst (alloc n s)) n \<Longrightarrow> mem_of (snd (alloc n s)) a = 0"
    and run_keeps: "inv s \<Longrightarrow> 0 < n \<Longrightarrow> unat n \<le> 4294963200 \<Longrightarrow> room s (run_blocks n) \<Longrightarrow>
      a \<in> owned s \<Longrightarrow> mem_of (snd (alloc n s)) a = mem_of s a"
    and run_keeps_pages: "inv s \<Longrightarrow> 0 < n \<Longrightarrow> unat n \<le> 4294963200 \<Longrightarrow> room s (run_blocks n) \<Longrightarrow>
      page s q \<Longrightarrow> page (snd (alloc n s)) q"
    and room_left: "inv s \<Longrightarrow> inv (set_mem m s) \<Longrightarrow> owned s \<subseteq> owned (set_mem m s) \<Longrightarrow>
      free_pages s \<le> free_pages (set_mem m s) + j \<Longrightarrow> room s l \<Longrightarrow> (j + 1) * k \<le> l \<Longrightarrow> room (set_mem m s) k"
begin

lemmas run_laws = run_inv run_start run_fresh run_owned run_free

text \<open>
  \<open>extends s s' R j D\<close>: like \<open>grows\<close>, but with any new memory \<open>R\<close>, of \<open>j\<close> blocks.
\<close>

definition extends :: "'a \<Rightarrow> 'a \<Rightarrow> addr set \<Rightarrow> nat \<Rightarrow> addr set \<Rightarrow> bool" where
  "extends s s' R j D \<longleftrightarrow> inv s \<and> inv s' \<and> s' = set_mem (mem_of s') s \<and> owned s' = owned s \<union> R \<and>
     R \<inter> owned s = {} \<and> free_pages s = free_pages s' + j \<and>
     same_outside (- owned s \<union> D) (mem_of s) (mem_of s') \<and> (\<forall>q. page s q \<longrightarrow> page s' q)"

lemma extends_keeps: "extends s s' R j D \<Longrightarrow> a \<in> owned s \<Longrightarrow> a \<notin> D \<Longrightarrow> mem_of s' a = mem_of s a"
  by (auto simp: extends_def same_outside_def)

lemma extends_mono: "extends s s' R j D \<Longrightarrow> D \<inter> owned s \<subseteq> E \<Longrightarrow> extends s s' R j E"
  by (auto simp: extends_def elim!: same_outside_mono)

lemma grows_extends: "grows s s' ps D \<Longrightarrow> extends s s' (\<Union>p\<in>set ps. region p 4096) (length ps) D"
  unfolding grows_def extends_def by blast

lemma extends_write:
  assumes "inv s" and "same_outside D (mem_of s) m" and "D \<subseteq> owned s"
  shows "extends s (set_mem m s) {} 0 D"
  using grows_extends [OF grows_write [OF assms]] by simp

lemma extends_trans:
  assumes "extends s s1 R j D" and "extends s1 s2 Q k E"
  shows "extends s s2 (R \<union> Q) (j + k) (D \<union> E)"
proof -
  have own: "owned s1 = owned s \<union> R" "owned s2 = owned s1 \<union> Q" "R \<inter> owned s = {}" "Q \<inter> owned s1 = {}"
    using assms by (simp_all add: extends_def)
  have "same_outside (- owned s \<union> (D \<union> E)) (mem_of s) (mem_of s2)"
    using assms own(1) unfolding extends_def by (auto intro: same_outside_trans)
  moreover have "s2 = set_mem (mem_of s2) s" using assms unfolding extends_def by (metis set_set)
  moreover have "owned s2 = owned s \<union> (R \<union> Q)" "(R \<union> Q) \<inter> owned s = {}" using own by blast+
  moreover have "free_pages s = free_pages s2 + (j + k)" "\<forall>q. page s q \<longrightarrow> page s2 q" "inv s" "inv s2"
    using assms by (simp_all add: extends_def)
  ultimately show ?thesis unfolding extends_def by blast
qed

lemma extends_run:
  assumes "inv s" "0 < n" "unat n \<le> 4294963200" "room s (run_blocks n)"
  shows "extends s (snd (alloc n s)) (run_bytes (fst (alloc n s)) (run_blocks n)) (run_blocks n) {}"
  using run_laws [OF assms] run_keeps [OF assms] run_keeps_pages [OF assms] assms(1) alloc_only_mem [of n s]
  unfolding extends_def same_outside_def by blast

lemma extends_room:
  assumes "extends s s' R j D" "room s l" "(j + 1) * k \<le> l"
  shows "room s' k"
  using room_left [of s "mem_of s'" j l k] assms unfolding extends_def by (metis sup_ge1 order_refl)

text \<open>Pages allocated on the way are released again.\<close>

lemma extends_release:
  assumes "extends s s' R (j + length ps) D" "distinct ps" "\<forall>p\<in>set ps. page s' p \<and> region p 4096 \<subseteq> R"
  shows "extends s (fold release ps s') (R - (\<Union>p\<in>set ps. region p 4096)) j D"
proof -
  let ?t = "fold release ps s'" and ?old = "\<Union>p\<in>set ps. region p 4096"
  have e: "inv s" "inv s'" "s' = set_mem (mem_of s') s" "owned s' = owned s \<union> R" "R \<inter> owned s = {}"
    "free_pages s = free_pages s' + (j + length ps)" "same_outside (- owned s \<union> D) (mem_of s) (mem_of s')"
    "\<And>q. page s q \<Longrightarrow> page s' q" using assms(1) by (simp_all add: extends_def)
  note r = release_list [OF e(2) assms(2)]
  have pages: "\<forall>p\<in>set ps. page s' p" and sub: "?old \<subseteq> R" using assms(3) by blast+
  note r = r [OF pages]
  have own: "owned ?t = owned s \<union> (R - ?old)" using r e(4,5) sub by blast
  have "q \<notin> set ps" if "page s q" for q
  proof
    assume "q \<in> set ps"
    then have "region q 4096 \<subseteq> R" "region q 4096 \<subseteq> owned s" using assms(3) page_owned [OF e(1) that] by blast+
    moreover have "q \<in> region q 4096" by simp
    ultimately show False using e(5) by blast
  qed
  then have "\<forall>q. page s q \<longrightarrow> page ?t q" using r e(8) by blast
  moreover have "?t = set_mem (mem_of ?t) s" using fold_release_only_mem [of ps s'] e(3) by (metis set_set)
  moreover have "same_outside (- owned s \<union> D) (mem_of s) (mem_of ?t)"
    unfolding same_outside_def
  proof (intro allI impI)
    fix a assume a: "a \<notin> - owned s \<union> D"
    then have "a \<in> owned ?t" using own by blast
    then have "mem_of ?t a = mem_of s' a" using r by blast
    then show "mem_of ?t a = mem_of s a" using same_outsideD [OF e(7) a] by simp
  qed
  moreover have "(R - ?old) \<inter> owned s = {}" using e(5) by blast
  moreover have "free_pages s = free_pages ?t + j" "inv ?t" using r e(6) by simp_all
  ultimately show ?thesis using e(1) own unfolding extends_def by blast
qed

end

definition kheap_room :: "'a kheap_state_scheme \<Rightarrow> nat \<Rightarrow> bool" where
  "kheap_room s k \<longleftrightarrow> (\<exists>i. free_run (heap_tbl (kernelHeap s) (ram s)) i k)"


text \<open>Facts on a run of free blocks.\<close>

lemma run_bytes_blocks:
  assumes "heap_ok hp" "i + k \<le> unat (total (table hp))"
  shows "a \<in> run_bytes (block hp i) k \<longleftrightarrow> (\<exists>j. i \<le> j \<and> j < i + k \<and> a \<in> region (block hp j) 4096)"
proof -
  have b: "block hp i + of_nat j * 4096 = block hp (i + j)" for j by (simp add: block_def algebra_simps)
  have "(\<exists>j<k. a \<in> region (block hp (i + j)) 4096) \<longleftrightarrow> (\<exists>j. i \<le> j \<and> j < i + k \<and> a \<in> region (block hp j) 4096)"
  proof
    assume "\<exists>j. i \<le> j \<and> j < i + k \<and> a \<in> region (block hp j) 4096"
    then obtain j where "i \<le> j" "j < i + k" "a \<in> region (block hp j) 4096" by blast
    then show "\<exists>j<k. a \<in> region (block hp (i + j)) 4096" by (intro exI [of _ "j - i"]) auto
  qed (use le_add1 add_less_cancel_left in blast)
  then show ?thesis unfolding run_bytes_def b UN_iff Bex_def lessThan_iff .
qed

lemma kheap_owned_blocks:
  "heap_ok (kernelHeap s) \<Longrightarrow> j < unat (total (table (kernelHeap s))) \<Longrightarrow> a \<in> region (block (kernelHeap s) j) 4096 \<Longrightarrow>
    a \<in> kheap_owned s \<longleftrightarrow> heap_tbl (kernelHeap s) (ram s) ! j \<noteq> 0"
  using blocks_disjoint [of "kernelHeap s" j] block_not_table [of "kernelHeap s" j a]
  unfolding kheap_owned_def by blast

lemma free_blocks_marked:
  assumes "free_run (heap_tbl hp m) i k" "0 < k"
  shows "free_blocks hp m = free_blocks hp (marked hp m i k) + k"
proof -
  let ?A = "\<lambda>m. {j. j < unat (total (table hp)) \<and> heap_tbl hp m ! j = 0}"
  have free: "heap_tbl hp m ! j = 0" if "i \<le> j" "j < i + k" for j
    using assms(1) that unfolding free_run_def by (auto dest!: spec [of _ "j - i"])
  have len: "i + k \<le> unat (total (table hp))" using assms(1) by (simp add: free_run_def)
  have "heap_tbl hp (marked hp m i k) ! j = 0 \<longleftrightarrow> heap_tbl hp m ! j = 0 \<and> \<not> (i \<le> j \<and> j < i + k)"
    if "j < unat (total (table hp))" for j
    using that assms(2) by (auto simp: heap_tbl_marked)
  then have "?A m = ?A (marked hp m i k) \<union> {i..<i + k}" "?A (marked hp m i k) \<inter> {i..<i + k} = {}"
    using free len by auto
  then show ?thesis using card_Un_disjoint [of "?A (marked hp m i k)" "{i..<i + k}"] by (simp add: free_blocks_card)
qed

text \<open>The state after a request for a run, in terms of the first block.\<close>

lemma kZalloc_run_first:
  fixes s :: "'a kheap_state_scheme"
  assumes "kheap_inv s" "0 < n" "unat n \<le> 4294963200" "kheap_room s (run_blocks n)"
  obtains i where "free_run (heap_tbl (kernelHeap s) (ram s)) i (run_blocks n)"
    "kZalloc n s = (block (kernelHeap s) i,
      s\<lparr>ram := memset (marked (kernelHeap s) (ram s) i (run_blocks n)) (block (kernelHeap s) i) 0 n\<rparr>)"
    "heap_tbl (kernelHeap s) (memset (marked (kernelHeap s) (ram s) i (run_blocks n)) (block (kernelHeap s) i) 0 n) =
      heap_tbl (kernelHeap s) (marked (kernelHeap s) (ram s) i (run_blocks n))"
    "\<forall>c. free_run (heap_tbl (kernelHeap s) (ram s)) c (run_blocks n) \<longrightarrow> i \<le> c"
proof -
  let ?hp = "kernelHeap s" and ?k = "run_blocks n"
  have ok: "heap_ok ?hp" using assms(1) by (simp add: kheap_inv_def)
  have k: "0 < ?k" "unat (BlocksToAllocate n) = ?k"
    using run_blocks_pos [OF assms(2)] BlocksToAllocate_ceil [OF assms(3)] by (simp_all add: run_blocks_def)
  obtain c where c: "free_run (heap_tbl ?hp (ram s)) c ?k" using assms(4) by (auto simp: kheap_room_def)
  then have "c < length (heap_tbl ?hp (ram s))" using k(1) by (simp add: free_run_def)
  then have "first_fit (heap_tbl ?hp (ram s)) ?k \<noteq> None" using c by (auto simp: first_fit_def find_None_iff)
  then obtain i where fit: "first_fit (heap_tbl ?hp (ram s)) ?k = Some i" by blast
  have i: "i + ?k \<le> unat (total (table ?hp))" using first_fitD [OF fit] by (simp add: free_run_def)
  have sub: "unat (saddr ?hp) \<le> unat a" if "a \<in> region (block ?hp i) n" for a
  proof -
    have "a \<in> run_bytes (block ?hp i) ?k" using that run_bytes_region [OF assms(3)] by blast
    then obtain j where "j < i + ?k" "a \<in> region (block ?hp j) 4096" using run_bytes_blocks [OF ok i] by blast
    then show ?thesis using block_region [OF ok, of j] i by auto
  qed
  show thesis
  proof (rule that)
    show "free_run (heap_tbl ?hp (ram s)) i ?k" using first_fitD [OF fit] by blast
    show "kZalloc n s = (block ?hp i, s\<lparr>ram := memset (marked ?hp (ram s) i ?k) (block ?hp i) 0 n\<rparr>)"
      using kZalloc_fit [OF ok, of n i] fit k by (simp add: word_less_nat_alt)
    show "heap_tbl ?hp (memset (marked ?hp (ram s) i ?k) (block ?hp i) 0 n) = heap_tbl ?hp (marked ?hp (ram s) i ?k)"
      using sub by (intro heap_tbl_same_outside [OF ok memset_frame])
    show "\<forall>c. free_run (heap_tbl ?hp (ram s)) c ?k \<longrightarrow> i \<le> c" using first_fitD [OF fit] not_le by blast
  qed
qed

lemma kZalloc_run:
  fixes s :: "'a kheap_state_scheme"
  assumes "kheap_inv s" "0 < n" "unat n \<le> 4294963200" "kheap_room s (run_blocks n)"
  obtains i where "free_run (heap_tbl (kernelHeap s) (ram s)) i (run_blocks n)"
    "kZalloc n s = (block (kernelHeap s) i,
      s\<lparr>ram := memset (marked (kernelHeap s) (ram s) i (run_blocks n)) (block (kernelHeap s) i) 0 n\<rparr>)"
    "heap_tbl (kernelHeap s) (memset (marked (kernelHeap s) (ram s) i (run_blocks n)) (block (kernelHeap s) i) 0 n) =
      heap_tbl (kernelHeap s) (marked (kernelHeap s) (ram s) i (run_blocks n))"
  using kZalloc_run_first [OF assms] by metis

text \<open>Taking \<open>j\<close> blocks from a run of \<open>(j + 1) k\<close> leaves a run of \<open>k\<close>.\<close>

lemma free_run_pigeonhole:
  assumes "free_run tbl i l" "(j + 1) * k \<le> l" "length tbl' = length tbl"
    and "\<And>x. x < length tbl \<Longrightarrow> tbl' ! x = 0 \<Longrightarrow> tbl ! x = 0"
    and "card {x. x < length tbl \<and> tbl ! x = 0} \<le> card {x. x < length tbl \<and> tbl' ! x = 0} + j"
  shows "\<exists>c. free_run tbl' c k"
proof (rule ccontr)
  assume none: "\<nexists>c. free_run tbl' c k"
  let ?F = "{x. x < length tbl \<and> tbl ! x = 0}" and ?F' = "{x. x < length tbl \<and> tbl' ! x = 0}"
  have k: "0 < k" using none by (cases k) (auto simp: free_run_def)
  have "\<exists>x<k. tbl' ! (i + c * k + x) \<noteq> 0 \<and> i + c * k + x < length tbl \<and> tbl ! (i + c * k + x) = 0" if "c \<le> j" for c
  proof -
    have "c * k + k \<le> (j + 1) * k" using mult_le_mono1 [of "c + 1" "j + 1" k] that by simp
    then have "c * k + k \<le> l" using assms(2) by (rule order_trans)
    then have fit: "i + c * k + k \<le> i + l" "i + l \<le> length tbl" using assms(1) by (simp_all add: free_run_def)
    then obtain x where "x < k" "tbl' ! (i + c * k + x) \<noteq> 0" using spec [OF none [unfolded not_ex], of "i + c * k"] assms(3) by (auto simp: free_run_def)
    moreover from this fit have "c * k + x < l" by simp
    then have "tbl ! (i + (c * k + x)) = 0" using assms(1) by (auto simp: free_run_def)
    ultimately show ?thesis using fit by (intro exI [of _ x]) (simp add: add.assoc)
  qed
  then obtain x where x: "\<forall>c\<le>j. x c < k \<and> i + c * k + x c \<in> ?F - ?F'" by (simp, metis)
  have "(i + c * k + x c - i) div k = c" if "c \<le> j" for c using x that k by (simp add: add.assoc)
  then have "inj_on (\<lambda>c. i + c * k + x c) {..j}" by (intro inj_onI) (metis atMost_iff)
  then have "card {..j} \<le> card (?F - ?F')" by (rule card_inj_on_le) (use x in auto)
  moreover have "card (?F - ?F') = card ?F - card ?F'" using assms(4) by (intro card_Diff_subset) auto
  ultimately show False using assms(5) by simp
qed

interpretation kr: run_heap kZalloc ram "\<lambda>m s. s\<lparr>ram := m\<rparr>" kheap_inv kheap_owned kheap_free kFree kheap_page kheap_room
proof unfold_locales
  fix s :: "'a kheap_state_scheme" and n :: u32
  assume inv: "kheap_inv s" and n: "0 < n" "unat n \<le> 4294963200" and rm: "kheap_room s (run_blocks n)"
  let ?hp = "kernelHeap s" and ?k = "run_blocks n"
  obtain i where run: "free_run (heap_tbl ?hp (ram s)) i ?k"
    and z: "kZalloc n s = (block ?hp i, s\<lparr>ram := memset (marked ?hp (ram s) i ?k) (block ?hp i) 0 n\<rparr>)"
    and tbl: "heap_tbl ?hp (memset (marked ?hp (ram s) i ?k) (block ?hp i) 0 n) = heap_tbl ?hp (marked ?hp (ram s) i ?k)"
    by (rule kZalloc_run [OF inv n rm])
  have ok: "heap_ok ?hp" and wf: "wf_table (heap_tbl ?hp (ram s))" using inv by (simp_all add: kheap_inv_def)
  have k: "0 < ?k" using n(1) by (rule run_blocks_pos)
  have i: "i + ?k \<le> unat (total (table ?hp))" "i < unat (total (table ?hp))" using run k by (simp_all add: free_run_def)
  have free: "heap_tbl ?hp (ram s) ! j = 0" if "i \<le> j" "j < i + ?k" for j
    using run that unfolding free_run_def by (auto dest!: spec [of _ "j - i"])
  note bytes = run_bytes_blocks [OF ok i(1)]
  have new: "heap_tbl ?hp (marked ?hp (ram s) i ?k) ! j = 0 \<longleftrightarrow> heap_tbl ?hp (ram s) ! j = 0 \<and> \<not> (i \<le> j \<and> j < i + ?k)"
    if "j < unat (total (table ?hp))" for j using that k by (auto simp: heap_tbl_marked)
  show "kheap_inv (snd (kZalloc n s))" using ok wf run tbl k by (simp add: z kheap_inv_def wf_table_marked)
  show "fst (kZalloc n s) \<noteq> NULL \<and> page_aligned (fst (kZalloc n s)) \<and> unat (fst (kZalloc n s)) + 4096 * ?k \<le> 4294967296"
    using i ok unat_block [OF ok i(2)] by (auto simp: z block_nonnull block_aligned heap_ok_def)
  show fresh: "run_bytes (fst (kZalloc n s)) ?k \<inter> kheap_owned s = {}"
  proof -
    have "a \<notin> kheap_owned s" if a: "a \<in> run_bytes (block ?hp i) ?k" for a
    proof -
      obtain j where j: "i \<le> j" "j < i + ?k" "a \<in> region (block ?hp j) 4096" using a bytes [of a] by blast
      then have "j < unat (total (table ?hp))" using i(1) by linarith
      from kheap_owned_blocks [OF ok this j(3)] free [OF j(1,2)] show ?thesis by blast
    qed
    then show ?thesis unfolding z fst_conv by blast
  qed
  show "kheap_owned (snd (kZalloc n s)) = kheap_owned s \<union> run_bytes (fst (kZalloc n s)) ?k"
  proof (rule set_eqI)
    fix a
    show "a \<in> kheap_owned (snd (kZalloc n s)) \<longleftrightarrow> a \<in> kheap_owned s \<union> run_bytes (fst (kZalloc n s)) ?k"
    proof (cases "\<exists>j<unat (total (table ?hp)). a \<in> region (block ?hp j) 4096")
      case True
      then obtain j where j: "j < unat (total (table ?hp))" "a \<in> region (block ?hp j) 4096" by blast
      have "a \<in> run_bytes (block ?hp i) ?k \<longleftrightarrow> i \<le> j \<and> j < i + ?k"
      proof
        assume "a \<in> run_bytes (block ?hp i) ?k"
        then obtain x where x: "i \<le> x" "x < i + ?k" "a \<in> region (block ?hp x) 4096" using bytes [of a] by blast
        then have "x = j" using blocks_disjoint [OF ok j(1), of x] j(2) i(1) by fastforce
        with x show "i \<le> j \<and> j < i + ?k" by simp
      qed (use bytes j(2) in blast)
      then show ?thesis
        using kheap_owned_blocks [OF ok j] kheap_owned_blocks [of "snd (kZalloc n s)" j a] j ok new [OF j(1)] tbl
        by (auto simp: z simp del: mem_region)
    next
      case False
      then show ?thesis using bytes i(1) by (auto simp: z kheap_owned_def simp del: mem_region)
    qed
  qed
  show "kheap_free s = kheap_free (snd (kZalloc n s)) + ?k"
    using free_blocks_marked [OF run k] tbl by (simp add: z kheap_free_def free_blocks_def)
  show "ram (snd (kZalloc n s)) a = 0" if "a \<in> region (fst (kZalloc n s)) n" for a
    using that by (simp add: z memset_apply)
  show "ram (snd (kZalloc n s)) a = ram s a" if a: "a \<in> kheap_owned s" for a
  proof -
    have "a \<notin> region (block ?hp i) n" using a fresh run_bytes_region [OF n(2)] by (auto simp: z simp del: mem_region)
    moreover have "a \<notin> heap_table ?hp" using a by (simp add: kheap_owned_def)
    ultimately show ?thesis using marked_outside [OF _ i(1) k] by (simp add: z memset_apply)
  qed
  show "kheap_page (snd (kZalloc n s)) q" if "kheap_page s q" for q
    using that tbl alloc_at_kept_marked(1) [OF run k] by (auto simp: z kheap_page_def)
next
  fix s :: "'a kheap_state_scheme" and m j l k
  assume inv: "kheap_inv s" "kheap_inv (s\<lparr>ram := m\<rparr>)" and own: "kheap_owned s \<subseteq> kheap_owned (s\<lparr>ram := m\<rparr>)"
    and free: "kheap_free s \<le> kheap_free (s\<lparr>ram := m\<rparr>) + j" and rm: "kheap_room s l" and l: "(j + 1) * k \<le> l"
  let ?hp = "kernelHeap s"
  have ok: "heap_ok ?hp" using inv(1) by (simp add: kheap_inv_def)
  obtain i where run: "free_run (heap_tbl ?hp (ram s)) i l" using rm by (auto simp: kheap_room_def)
  have "heap_tbl ?hp (ram s) ! x = 0" if x: "x < unat (total (table ?hp))" "heap_tbl ?hp m ! x = 0" for x
  proof -
    have a: "block ?hp x \<in> region (block ?hp x) 4096" by simp
    have "block ?hp x \<notin> kheap_owned (s\<lparr>ram := m\<rparr>)" using kheap_owned_blocks [of "s\<lparr>ram := m\<rparr>" x] ok x a by simp
    then have "block ?hp x \<notin> kheap_owned s" using own by blast
    then show ?thesis using kheap_owned_blocks [OF ok x(1) a] by simp
  qed
  then have "\<exists>c. free_run (heap_tbl ?hp m) c k"
    using free by (intro free_run_pigeonhole [OF run l]) (simp_all add: kheap_free_def free_blocks_card)
  then show "kheap_room (s\<lparr>ram := m\<rparr>) k" by (simp add: kheap_room_def)
qed

lemma kheap_room_le: "k \<le> l \<Longrightarrow> kheap_room s l \<Longrightarrow> kheap_room s k"
  by (fastforce simp: kheap_room_def free_run_def)

text \<open>Runs of the kernel heap end below the end of its pool.\<close>

lemma kZalloc_run_low:
  assumes "kheap_inv s" "0 < n" "unat n \<le> 4294963200" "kheap_room s (run_blocks n)" "kernelHeap s = kernel_heap"
  shows "unat (fst (kZalloc n s)) + 4096 * run_blocks n \<le> 121634816"
proof -
  obtain i where i: "free_run (heap_tbl (kernelHeap s) (ram s)) i (run_blocks n)"
    "kZalloc n s = (block (kernelHeap s) i,
      s\<lparr>ram := memset (marked (kernelHeap s) (ram s) i (run_blocks n)) (block (kernelHeap s) i) 0 n\<rparr>)"
    by (rule kZalloc_run [OF assms(1-4)])
  then have "i + run_blocks n \<le> 25600" using assms(5) by (simp add: free_run_def)
  moreover from this have "i < 25600" using run_blocks_pos [OF assms(2)] by simp
  then have "unat (block kernel_heap i) = 0x1000000 + 4096 * i" using unat_block [OF heap_ok_kernel_heap, of i] by simp
  ultimately show ?thesis using i(2) assms(5) by simp
qed

lemma KheapInit_room: "kheap_room (KheapInit s) 25600"
  by (auto simp: kheap_room_def KheapInit_eq free_run_def heap_tbl_Initialize intro!: exI [of _ 0])

text \<open>First fit takes a run of blocks from the left end of a longer run, or leaves the longer run alone.\<close>

lemma kheap_room_alloc:
  fixes s :: "'a kheap_state_scheme"
  assumes "kheap_inv s" "0 < n" "unat n \<le> 4294963200" "kheap_room s (l + run_blocks n)"
  shows "kheap_room (snd (kZalloc n s)) l"
proof -
  let ?tbl = "heap_tbl (kernelHeap s) (ram s)" and ?k = "run_blocks n"
  have k: "0 < ?k" by (rule run_blocks_pos [OF assms(2)])
  obtain c where c: "free_run ?tbl c (l + ?k)" using assms(4) by (auto simp: kheap_room_def)
  have "kheap_room s ?k" by (rule kheap_room_le [OF _ assms(4)]) simp
  then obtain i where i: "free_run ?tbl i ?k" "\<forall>c. free_run ?tbl c ?k \<longrightarrow> i \<le> c"
    "heap_tbl (kernelHeap s) (ram (snd (kZalloc n s))) = heap_tbl (kernelHeap s) (marked (kernelHeap s) (ram s) i ?k)"
    "kernelHeap (snd (kZalloc n s)) = kernelHeap s"
    by (rule kZalloc_run_first [OF assms(1-3)]) simp
  have "i \<le> c" using c by (intro i(2) [rule_format]) (auto simp: free_run_def)
  then have "free_run (heap_tbl (kernelHeap s) (ram (snd (kZalloc n s)))) (max c (i + ?k)) l"
    unfolding free_run_def
  proof (intro conjI allI impI)
    have fit: "c + (l + ?k) \<le> unat (total (table (kernelHeap s)))" using c by (simp add: free_run_def)
    then show "max c (i + ?k) + l \<le> length (heap_tbl (kernelHeap s) (ram (snd (kZalloc n s))))" using \<open>i \<le> c\<close> by simp
    fix j assume j: "j < l"
    define y where "y = max c (i + ?k) + j"
    have y: "c \<le> y" "y - c < l + ?k" "i + ?k \<le> y" using \<open>i \<le> c\<close> j by (simp_all add: y_def)
    then have "heap_tbl (kernelHeap s) (ram s) ! (c + (y - c)) = 0" using c unfolding free_run_def by blast
    then have "heap_tbl (kernelHeap s) (ram s) ! y = 0" "y < unat (total (table (kernelHeap s)))" using y fit by simp_all
    then show "heap_tbl (kernelHeap s) (ram (snd (kZalloc n s))) ! (max c (i + ?k) + j) = 0"
      using k y(3) unfolding i(3) y_def [symmetric] by (auto simp: heap_tbl_marked)
  qed
  then show ?thesis using i(4) by (auto simp: kheap_room_def)
qed

lemma kheap_room_write:
  fixes s :: "'a kheap_state_scheme"
  assumes "kheap_inv s" "same_outside D (ram s) m" "D \<subseteq> kheap_owned s" "kheap_room s l"
  shows "kheap_room (s\<lparr>ram := m\<rparr>) l"
  using kr.extends_room [OF kr.extends_write [OF assms(1-3)] assms(4), of l] by simp

lemma run_blocks_page: "0 < n \<Longrightarrow> n \<le> 4096 \<Longrightarrow> run_blocks n = 1"
  by (simp add: run_blocks_def word_less_nat_alt word_le_nat_alt)

end
