(* ===== verification/Program_File.thy ===== *)
theory Program_File
  imports Open Mount Heap_Runs Process
begin

text \<open>
  Loading a program file, \<open>process_load_binary\<close> of \<^verbatim>\<open>task/process.c\<close>: the file is opened, its size is taken
  with \<open>fstat\<close>, the heap gives a run of blocks for it, \<open>fread\<close> fills the run, and the file is closed.  The steps are
  composed with \<open>io_extends\<close>, which is \<open>io_grows\<close> for allocations of any length.
\<close>

section \<open>Steps that take memory of any size\<close>

definition io_extends :: "('d, 'a) fs_state_scheme \<Rightarrow> ('d, 'a) fs_state_scheme \<Rightarrow> addr set \<Rightarrow> nat \<Rightarrow> addr set \<Rightarrow> bool" where
  "io_extends s s' R j D \<longleftrightarrow> kr.extends (s\<lparr>dev := dev s'\<rparr>) s' R j D"

lemma room_dev [simp]: "kheap_room (s\<lparr>dev := d\<rparr>) k = kheap_room s k"
  for s :: "('d, 'a) disk_state_scheme"
  by (simp add: kheap_room_def)

lemma extends_state: "kr.extends s s' R j D \<Longrightarrow> s' = s\<lparr>ram := ram s'\<rparr>"
  by (simp add: kr.extends_def)

lemma extends_dev:
  fixes s :: "('d, 'a) fs_state_scheme"
  assumes "kr.extends s s' R j D"
  shows "kr.extends (s\<lparr>dev := d\<rparr>) (s'\<lparr>dev := d\<rparr>) R j D"
proof -
  have "s\<lparr>ram := ram s'\<rparr>\<lparr>dev := d\<rparr> = s\<lparr>dev := d\<rparr>\<lparr>ram := ram s'\<rparr>" by simp
  then have "s'\<lparr>dev := d\<rparr> = s\<lparr>dev := d\<rparr>\<lparr>ram := ram (s'\<lparr>dev := d\<rparr>)\<rparr>" using extends_state [OF assms] by simp
  moreover have "ram (s\<lparr>dev := d\<rparr>) = ram s" "ram (s'\<lparr>dev := d\<rparr>) = ram s'" by simp_all
  ultimately show ?thesis using assms unfolding kr.extends_def heap_dev by (elim conjE) (intro conjI; simp only:)
qed

lemma extends_io:
  fixes s :: "('d, 'a) fs_state_scheme"
  assumes "kr.extends s s' R j D"
  shows "io_extends s s' R j D"
proof -
  have "dev (s\<lparr>ram := ram s'\<rparr>) = dev s" by simp
  then have "dev s' = dev s" using extends_state [OF assms] by metis
  then show ?thesis using assms by (simp add: io_extends_def)
qed

lemma grows_io_extends:
  "io_grows s s' ps D \<Longrightarrow> io_extends s s' (\<Union>p\<in>set ps. region p 4096) (length ps) D"
  unfolding io_grows_def io_extends_def by (rule kr.grows_extends)

lemma io_extends_trans:
  assumes "io_extends s s1 R j D" "io_extends s1 s2 Q k E"
  shows "io_extends s s2 (R \<union> Q) (j + k) (D \<union> E)"
  using kr.extends_trans [OF extends_dev [OF assms(1) [unfolded io_extends_def], of "dev s2"] assms(2) [unfolded io_extends_def]]
  by (simp add: io_extends_def)

lemma io_extends_mono: "io_extends s s' R j D \<Longrightarrow> D \<inter> kheap_owned s \<subseteq> E \<Longrightarrow> io_extends s s' R j E"
  unfolding io_extends_def by (rule kr.extends_mono) simp_all

lemma io_extends_heap:
  assumes "io_extends s s' R j D"
  shows "kheap_inv s" "kheap_inv s'" "kheap_owned s' = kheap_owned s \<union> R" "R \<inter> kheap_owned s = {}"
    "kheap_free s = kheap_free s' + j" "\<And>q. kheap_page s q \<Longrightarrow> kheap_page s' q"
  using assms by (simp_all add: io_extends_def kr.extends_def)

lemma io_extends_keeps: "io_extends s s' R j D \<Longrightarrow> a \<in> kheap_owned s \<Longrightarrow> a \<notin> D \<Longrightarrow> ram s' a = ram s a"
  using kr.extends_keeps [of "s\<lparr>dev := dev s'\<rparr>" s' R j D a] by (simp add: io_extends_def)

lemma io_extends_word:
  assumes "io_extends s s' R j D" "region p 4 \<subseteq> kheap_owned s - D"
  shows "ld32 (ram s') p = ld32 (ram s) p"
  using assms(2) io_extends_keeps [OF assms(1)] by (intro ld32_cong) blast

lemma io_extends_state:
  fixes s :: "('d, 'a) fs_state_scheme"
  shows "io_extends s s' R j D \<Longrightarrow> s' = s\<lparr>ram := ram s', dev := dev s'\<rparr>"
proof -
  assume "io_extends s s' R j D"
  then have "s' = s\<lparr>dev := dev s'\<rparr>\<lparr>ram := ram s'\<rparr>" by (intro extends_state) (simp add: io_extends_def)
  also have "\<dots> = s\<lparr>ram := ram s', dev := dev s'\<rparr>" by simp
  finally show ?thesis .
qed

lemma io_extends_room:
  assumes "io_extends s s' R j D" "kheap_room s l" "(j + 1) * k \<le> l"
  shows "kheap_room s' k"
  using kr.extends_room [OF assms(1) [unfolded io_extends_def] _ assms(3)] assms(2) by simp

lemma io_extends_release:
  assumes "io_extends s s' R (j + length ps) D" "distinct ps" "\<forall>p\<in>set ps. kheap_page s' p \<and> region p 4096 \<subseteq> R"
  shows "io_extends s (fold kFree ps s') (R - (\<Union>p\<in>set ps. region p 4096)) j D"
proof -
  have "dev (fold kFree ps s') = dev s'" by (subst kp.fold_release_only_mem) simp
  then show ?thesis using kr.extends_release [OF assms(1) [unfolded io_extends_def] assms(2,3)] by (simp add: io_extends_def)
qed

lemma io_extends_then:
  assumes "io_extends s s1 R j D" "io_extends s1 s2 {} 0 E" "E \<inter> kheap_owned s \<subseteq> F"
  shows "io_extends s s2 R j (D \<union> F)"
  using io_extends_mono [OF io_extends_trans [OF assms(1,2)], of "D \<union> F"] assms(3) by auto

text \<open>What does not change, and writing.\<close>

lemma io_extends_write:
  fixes s :: "('d, 'a) fs_state_scheme"
  assumes "kheap_inv s" "same_outside D (ram s) m" "D \<subseteq> kheap_owned s"
  shows "io_extends s (s\<lparr>ram := m, dev := d\<rparr>) {} 0 D" "io_extends s (s\<lparr>ram := m\<rparr>) {} 0 D"
  using extends_dev [OF kr.extends_write [of s D m], of d] kr.extends_write [of s D m] assms
  by (simp_all add: io_extends_def)

lemma io_extends_globals:
  fixes s :: "('d, 'a) fs_state_scheme"
  assumes "io_extends s s' R j D"
  shows "disk s' = disk s" "file_descriptors s' = file_descriptors s" "kstack s' = kstack s" "kernelHeap s' = kernelHeap s"
    "fat16_fs s' = fat16_fs s" "filesystems s' = filesystems s"
  by (subst io_extends_state [OF assms], simp)+

lemma io_extends_process_globals:
  fixes s :: "('d, 'a) process_state_scheme"
  assumes "io_extends s s' R j D"
  shows "processes s' = processes s" "rodata s' = rodata s" "current_process s' = current_process s"
    "task_list_head s' = task_list_head s" "task_list_tail s' = task_list_tail s" "current_task s' = current_task s"
  by (subst io_extends_state [OF assms], simp)+

text \<open>The structures of disk and volume, while nothing writes them.\<close>

definition volume_linked :: "('d, 'a) fs_state_scheme \<Rightarrow> bool" where
  "volume_linked s \<longleftrightarrow> disk_bytes s \<subseteq> kheap_owned s \<and> ld32 (ram s) (disk s + 4) = 512 \<and>
     ld32 (ram s) (file_stream (ram s) (disk s) + 4) = disk s \<and>
     region (file_stream (ram s) (disk s)) 4 \<inter> (region (disk s) 20 \<union> region (ld32 (ram s) (disk s + 16)) 92) = {}"

lemma mounted_ready: "mounted s es \<Longrightarrow> volume_linked s"
  unfolding mounted_def volume_linked_def by blast

lemma volume_extends:
  fixes s :: "('d, 'a) fs_state_scheme"
  assumes "volume_linked s" "io_extends s s' R j D" "D \<inter> disk_bytes s = {}"
  shows "volume_linked s'" "disk_bytes s' = disk_bytes s" "ld32 (ram s') (disk s + 12) = ld32 (ram s) (disk s + 12)"
    "ld32 (ram s') (disk s + 16) = ld32 (ram s) (disk s + 16)" "file_stream (ram s') (disk s) = file_stream (ram s) (disk s)"
    "\<And>i. i < 92 \<Longrightarrow> ram s' (ld32 (ram s) (disk s + 16) + i) = ram s (ld32 (ram s) (disk s + 16) + i)"
    "fat16_cluster_to_sector (ram s') (ld32 (ram s) (disk s + 16)) c = fat16_cluster_to_sector (ram s) (ld32 (ram s) (disk s + 16)) c"
proof -
  have own: "disk_bytes s \<subseteq> kheap_owned s" using assms(1) by (simp add: volume_linked_def)
  have same: "ram s' a = ram s a" if "a \<in> disk_bytes s" for a
    using that own assms(3) by (intro io_extends_keeps [OF assms(2)]) blast+
  have word: "ld32 (ram s') (p + i) = ld32 (ram s) (p + i)" if "region p n \<subseteq> disk_bytes s" "unat i + 4 \<le> unat n" for p i n
    using field_subset [of i 4 n p] that same by (intro ld32_cong) (auto simp del: mem_region)
  have parts: "region (disk s) 20 \<subseteq> disk_bytes s" "region (ld32 (ram s) (disk s + 16)) 92 \<subseteq> disk_bytes s"
    "region (file_stream (ram s) (disk s)) 8 \<subseteq> disk_bytes s" unfolding disk_bytes_def by blast+
  note h = io_extends_heap [OF assms(2)] and g = io_extends_globals [OF assms(2)]
  show w: "ld32 (ram s') (disk s + 12) = ld32 (ram s) (disk s + 12)" "ld32 (ram s') (disk s + 16) = ld32 (ram s) (disk s + 16)"
    using word [OF parts(1), of 12] word [OF parts(1), of 16] by simp_all
  show stream: "file_stream (ram s') (disk s) = file_stream (ram s) (disk s)"
    using word [OF parts(2), of 80] w by (simp add: file_stream_def)
  show b: "disk_bytes s' = disk_bytes s" using w g(1) stream by (simp add: disk_bytes_def)
  show v: "ram s' (ld32 (ram s) (disk s + 16) + i) = ram s (ld32 (ram s) (disk s + 16) + i)" if "i < 92" for i
  proof -
    have "ld32 (ram s) (disk s + 16) + i \<in> region (ld32 (ram s) (disk s + 16)) 92" using that by simp
    then show ?thesis using parts(2) by (intro same) blast
  qed
  show "fat16_cluster_to_sector (ram s') (ld32 (ram s) (disk s + 16)) c = fat16_cluster_to_sector (ram s) (ld32 (ram s) (disk s + 16)) c"
    using v [of 13] word [OF parts(2), of 76] by (simp add: fat16_cluster_to_sector_def)
  have "ld32 (ram s') (disk s + 4) = 512" "ld32 (ram s') (file_stream (ram s) (disk s) + 4) = disk s"
    using word [OF parts(1), of 4] word [OF parts(3), of 4] assms(1) by (simp_all add: volume_linked_def)
  then show "volume_linked s'"
    using assms(1) h(3) w g(1) stream b unfolding volume_linked_def by auto
qed

text \<open>A mounted volume stays mounted.\<close>

lemma mounted_extends:
  fixes s :: "('d, 'a) fs_state_scheme"
  assumes "mounted s es" "io_extends s s' R j D" "D \<inter> (directory_bytes (ram s) (root_dir s) es \<union> disk_bytes s) = {}"
  shows "mounted s' es" "root_dir s' = root_dir s" "entry_at (ram s') (root_dir s) i = entry_at (ram s) (root_dir s) i"
    "k < length es \<Longrightarrow> a \<in> region (entry_at (ram s) (root_dir s) k) 32 \<Longrightarrow> ram s' a = ram s a"
proof -
  note dir = mounted_def [of s es, THEN iffD1, OF assms(1)]
  have own: "directory_bytes (ram s) (root_dir s) es \<subseteq> kheap_owned s" using dir unfolding dir_ok_def by blast
  have same: "ram s' a = ram s a" if "a \<in> directory_bytes (ram s) (root_dir s) es" for a
    using that own assms(3) by (intro io_extends_keeps [OF assms(2)]) blast+
  have "D \<inter> disk_bytes s = {}" using assms(3) by blast
  note v = volume_extends [OF mounted_ready [OF assms(1)] assms(2) this]
  note h = io_extends_heap [OF assms(2)] and g = io_extends_globals [OF assms(2)]
  show r: "root_dir s' = root_dir s" using v(4) g(1) by (simp add: root_dir_def)
  note d = directory_cong [of "ram s" "root_dir s" es "ram s'"]
  show e: "entry_at (ram s') (root_dir s) i = entry_at (ram s) (root_dir s) i" using d(2) same by blast
  show "ram s' a = ram s a" if "k < length es" "a \<in> region (entry_at (ram s) (root_dir s) k) 32"
    using that by (intro same) (auto simp: directory_bytes_def simp del: mem_region)
  have "directory (ram s') (root_dir s) es = directory (ram s) (root_dir s) es"
    "directory_bytes (ram s') (root_dir s) es = directory_bytes (ram s) (root_dir s) es" using d(3,4) same by blast+
  then have "dir_ok s' (root_dir s) es" using dir h(2,3) unfolding dir_ok_def g(3) by blast
  moreover have "disk_bytes s \<subseteq> kheap_owned s' - name_buffer s - region (file_descriptors s) 2048"
    "region (file_descriptors s) 2048 \<subseteq> kheap_owned s' - name_buffer s" using dir h(3) by blast+
  ultimately show "mounted s' es"
    using dir v(1-5) g r unfolding mounted_def volume_linked_def by simp
qed

section \<open>An open file\<close>

text \<open>The memory an open file consists of: the disk, the table of descriptors, the descriptor, what FAT16 keeps for it, the
  item and its entry.\<close>

definition file_bytes :: "('d, 'a) fs_state_scheme \<Rightarrow> u32 \<Rightarrow> addr \<Rightarrow> addr set" where
  "file_bytes s fd d = region (disk s) 20 \<union> region (file_descriptors s) 2048 \<union> region (file_get_descriptor fd s) 16 \<union>
     region d 8 \<union> region (ld32 (ram s) d) 8 \<union> region (ld32 (ram s) (ld32 (ram s) d)) 32"

lemma file_kept:
  fixes s s' :: "('d, 'a) fs_state_scheme"
  assumes "open_file s fd d" "opened (ram s) d m item" "\<And>a. a \<in> file_bytes s fd d \<Longrightarrow> ram s' a = ram s a"
    and "disk s' = disk s" "file_descriptors s' = file_descriptors s" "fd = of_nat (Suc j)" "j < 512"
  shows "open_file s' fd d" "opened (ram s') d m item" "ld32 (ram s') d = ld32 (ram s) d"
    "ld32 (ram s') (ld32 (ram s) d) = ld32 (ram s) (ld32 (ram s) d)" "file_get_descriptor fd s' = file_get_descriptor fd s"
    "fd_table s' = fd_table s" "file_bytes s' fd d = file_bytes s fd d"
proof -
  have word: "ld32 (ram s') (p + i) = ld32 (ram s) (p + i)" if "region p n \<subseteq> file_bytes s fd d" "unat i + 4 \<le> unat n" for p i n
    using field_subset [of i 4 n p] that assms(3) by (intro ld32_cong) (auto simp del: mem_region)
  have parts: "region (disk s) 20 \<subseteq> file_bytes s fd d" "region (file_get_descriptor fd s) 16 \<subseteq> file_bytes s fd d"
    "region d 8 \<subseteq> file_bytes s fd d" "region (ld32 (ram s) d) 8 \<subseteq> file_bytes s fd d" "region (file_descriptors s) 2048 \<subseteq> file_bytes s fd d"
    "region (ld32 (ram s) (ld32 (ram s) d)) 32 \<subseteq> file_bytes s fd d"
    unfolding file_bytes_def by blast+
  show t: "fd_table s' = fd_table s" using parts(5) assms(3) by (intro fd_table_cong assms(5)) blast
  then show g: "file_get_descriptor fd s' = file_get_descriptor fd s"
    using file_get_descriptor_nth [OF assms(7), of s] file_get_descriptor_nth [OF assms(7), of s'] assms(6) by simp
  show w: "ld32 (ram s') d = ld32 (ram s) d" "ld32 (ram s') (ld32 (ram s) d) = ld32 (ram s) (ld32 (ram s) d)"
    using word [OF parts(3), of 0] word [OF parts(4), of 0] by simp_all
  show "file_bytes s' fd d = file_bytes s fd d" using assms(4,5) g w by (simp add: file_bytes_def)
  have copy: "item_copy (ram s) (ld32 (ram s) d) m item" "d \<noteq> 0" "ld32 (ram s) (d + 4) = 0" using assms(2) by (simp_all add: opened_def)
  have "ram s' a = m (item + (a - ld32 (ram s) (ld32 (ram s) d)))" if a: "a \<in> region (ld32 (ram s) (ld32 (ram s) d)) 32" for a
  proof -
    have "ram s' a = ram s a" using a parts(6) by (intro assms(3)) blast
    then show ?thesis using copy(1) a unfolding item_copy_def by simp
  qed
  then have "item_copy (ram s') (ld32 (ram s) d) m item"
    using copy(1) w word [OF parts(4), of 4] unfolding item_copy_def by simp
  then show "opened (ram s') d m item" using copy w word [OF parts(3), of 4] unfolding opened_def by simp
  show "open_file s' fd d"
    using assms(1,4) g word [OF parts(2), of 0] word [OF parts(2), of 4] word [OF parts(2), of 8] word [OF parts(2), of 12]
      word [OF parts(1), of 12] by (simp add: open_file_def Let_def)
qed

text \<open>\<open>fstat\<close> on an open file: the size is the one of the directory entry.\<close>

lemma opened_size:
  assumes "opened m' d m item"
  shows "ld32 m' (ld32 m' (ld32 m' d) + 28) = ld32 m (item + 28)"
proof -
  have "m' (ld32 m' (ld32 m' d) + 28 + i) = m (item + 28 + i)" if "i < 4" for i
  proof -
    have "28 + i < 32" using that by unat_arith
    then have "m' (ld32 m' (ld32 m' d) + (28 + i)) = m (item + (28 + i))" using assms by (simp add: opened_def item_copy_def)
    then show ?thesis by (simp add: add.assoc)
  qed
  from this [of 0] this [of 1] this [of 2] this [of 3] show ?thesis by (simp add: ld32_def add.assoc)
qed

lemma fstat_opened:
  fixes s :: "('d, 'a) fs_state_scheme"
  assumes "open_file s fd d" "opened (ram s) d m item" "fss (ld32 (ram s) (disk s + 12)) = fat16_functions io"
    and "region stat 8 \<inter> file_bytes s fd d = {}"
  obtains m' where "fstat fss fd stat s = Some (0, s\<lparr>ram := m'\<rparr>)" "same_outside (region stat 8) (ram s) m'"
    "ld32 m' (stat + 4) = ld32 m (item + 28)"
proof -
  let ?r = "ld32 (ram s) (ld32 (ram s) d)" and ?size = "ld32 m (item + 28)"
  define m2 where "m2 = st32 (st32 (ram s) (stat + 4) ?size) stat 0"
  define m3 where "m3 = (if m2 (?r + 11) AND FAT_FILE_READ_ONLY \<noteq> 0 then st32 m2 stat (ld32 m2 stat OR FILE_STAT_READ_ONLY) else m2)"
  have f: "region stat 4 \<subseteq> region stat 8" "region (stat + 4) 4 \<subseteq> region stat 8"
    using field_subset [of 0 4 8 stat] field_subset [of 4 4 8 stat] by simp_all
  have "same_outside (region stat 8) (ram s) m3"
    unfolding m3_def m2_def using f by (auto intro!: same_outside_st32_in same_outside_refl simp del: mem_region)
  moreover have "ld32 m3 (stat + 4) = ?size" by (simp add: m3_def m2_def struct_fields)
  moreover have "fstat fss fd stat s = Some (0, s\<lparr>ram := m3\<rparr>)"
    using assms(1-3) opened_size [OF assms(2)]
    by (simp add: fstat_def open_file_def Let_def fat16_functions_def fat16_stat_def opened_def item_copy_def m2_def m3_def)
  ultimately show thesis by (rule that [rotated])
qed

text \<open>\<open>fread\<close> of whole records from the start of an open file.\<close>

lemma fread_opened:
  fixes s :: "('d, 'a) fs_state_scheme" and m :: mem and item :: addr
  defines "volume \<equiv> ld32 (ram s) (disk s + 16)" and "stream \<equiv> file_stream (ram s) (disk s)"
  defines "start \<equiv> 512 * unat (fat16_cluster_to_sector (ram s) volume (fat16_get_first_cluster m item))"
    and "cb \<equiv> 512 * unat (ram s (volume + 13))"
  assumes "ata_device io xfer data" "volume_linked s" "open_file s fd d" "opened (ram s) d m item"
    and "fss (ld32 (ram s) (disk s + 12)) = fat16_functions io" "unat (fat16_get_first_cluster m item) < 2147483648"
    and "start + cb + 512 < 2147483648" "0 < sz" "0 < n" "n * sz \<le> cb"
    and "(region d 8 \<union> region (ld32 (ram s) d) 8 \<union> region (ld32 (ram s) (ld32 (ram s) d)) 32) \<inter> disk_bytes s = {}"
    and "region out (of_nat (n * sz)) \<inter> (file_bytes s fd d \<union> disk_bytes s) = {}"
  obtains m' d' where "fread fss out (of_nat sz) (of_nat n) fd s = Some (of_nat n, s\<lparr>ram := m', dev := d'\<rparr>)"
    "\<forall>k<n * sz. m' (out + of_nat k) = disk_byte data (start + k)"
    "same_outside (region out (of_nat (n * sz)) \<union> region stream 4) (ram s) m'"
proof -
  have cl: "fat16_get_first_cluster (ram s) (file_item (ram s) d) = fat16_get_first_cluster m item"
    using first_cluster_copy assms(8) by (simp add: opened_def file_item_def)
  have starts: "file_starts (ram s) (disk s) d start cb"
    using assms(6,10) by (simp add: file_starts_def volume_linked_def cl start_def cb_def volume_def)
  have bytes: "disk_bytes s = region (disk s) 20 \<union> region volume 92 \<union> region stream 8"
    by (simp add: disk_bytes_def volume_def stream_def)
  have structs: "file_structures (ram s) (disk s) d = region (disk s) 20 \<union> region volume 92 \<union> region (stream + 4) 4 \<union>
      region d 8 \<union> region (ld32 (ram s) d) 8 \<union> region (ld32 (ram s) (ld32 (ram s) d)) 32"
    by (simp add: file_structures_def volume_def stream_def file_item_def)
  have str: "region (stream + 4) 4 \<subseteq> region stream 8" "region stream 4 \<subseteq> region stream 8"
    "region stream 4 \<inter> region (stream + 4) 4 = {}"
    using field_subset [of 4 4 8 stream] field_subset [of 0 4 8 stream] field_disjoint [of 0 4 4 4 stream] by simp_all
  have "region stream 4 \<inter> (region (disk s) 20 \<union> region volume 92) = {}"
    using assms(6) by (simp add: volume_linked_def volume_def stream_def del: mem_region)
  then have s1: "region stream 4 \<inter> file_structures (ram s) (disk s) d = {}"
    using str assms(15) unfolding structs bytes by blast
  have "file_structures (ram s) (disk s) d \<union> region stream 4 \<subseteq> file_bytes s fd d \<union> disk_bytes s"
    using str unfolding structs bytes file_bytes_def by blast
  then have s2: "region out (of_nat (n * sz)) \<inter> (file_structures (ram s) (disk s) d \<union> region stream 4) = {}" using assms(16) by blast
  have slot: "file_get_descriptor fd s \<noteq> 0" "ld32 (ram s) (file_get_descriptor fd s + 8) = d"
    "fss (ld32 (ram s) (file_get_descriptor fd s + 4)) = fat16_functions io" "ld32 (ram s) (file_get_descriptor fd s + 12) = disk s"
    "ld32 (ram s) (d + 4) = of_nat 0"
    using assms(7-9) by (simp_all add: open_file_def Let_def opened_def)
  have "0 + n * sz \<le> cb" using assms(14) by simp
  from fread_spec [where fss = fss and fd = fd and s = s and off = 0, OF assms(5) slot(1,3,4) starts [folded slot(2)] slot(5) [folded slot(2)] assms(12,13) this assms(11)]
  show thesis using that s1 s2 slot(2) unfolding stream_def by auto
qed

section \<open>Loading a program file\<close>

text \<open>\<open>process_load_binary\<close> between the opening and the closing of the file.\<close>

lemma load_body_spec:
  fixes s :: "('d, 'a) process_state_scheme" and m :: mem and item :: addr
  defines "volume \<equiv> ld32 (ram s) (disk s + 16)" and "len \<equiv> ld32 m (item + 28)" and "stat \<equiv> kstack s + 148"
  defines "start \<equiv> 512 * unat (fat16_cluster_to_sector (ram s) volume (fat16_get_first_cluster m item))"
    and "cb \<equiv> 512 * unat (ram s (volume + 13))" and "k \<equiv> run_blocks len" and "stream \<equiv> file_stream (ram s) (disk s)"
  assumes dev: "ata_device io xfer data" and vol: "volume_linked s" and opn: "open_file s fd d" "opened (ram s) d m item"
    and fs: "fss (ld32 (ram s) (disk s + 12)) = fat16_functions io" and cl: "unat (fat16_get_first_cluster m item) < 2147483648"
    and fits: "start + cb + 512 < 2147483648" "0 < len" "unat len \<le> cb" and heap: "kheap_inv s" "kheap_room s k"
      "kernelHeap s = kernel_heap"
    and fd: "fd = of_nat (Suc j)" "j < 512" and own: "file_bytes s fd d \<subseteq> kheap_owned s"
    and apart: "(file_bytes s fd d - region (disk s) 20) \<inter> disk_bytes s = {}"
      "(region d 8 \<union> region (ld32 (ram s) d) 8 \<union> region (ld32 (ram s) (ld32 (ram s) d)) 32) \<inter> disk_bytes s = {}"
    and locals: "region stat 8 \<subseteq> kheap_owned s - (file_bytes s fd d \<union> disk_bytes s)"
      "region process 5256 \<subseteq> kheap_owned s - (file_bytes s fd d \<union> disk_bytes s \<union> region stat 8)"
  obtains ptr s' where "load_binary_body fss fd process s = Some (0, s')"
    "io_extends s s' (run_bytes ptr k) k (region stat 8 \<union> region stream 4 \<union> region process 5256)"
    "ptr \<noteq> 0" "page_aligned ptr" "unat ptr + 4096 * k \<le> 121634816"
    "ld32 (ram s') (process + 4212) = ptr" "ld32 (ram s') (process + 4220) = len"
    "\<forall>i<unat len. ram s' (ptr + of_nat i) = disk_byte data (start + i)" "\<forall>a\<in>file_bytes s fd d. ram s' a = ram s a"
proof -
  let ?F = "file_bytes s fd d" and ?B = "disk_bytes s"
  have diskB: "region (disk s) 20 \<subseteq> ?F" "region (disk s) 20 \<subseteq> ?B" unfolding file_bytes_def disk_bytes_def by blast+
  have strB: "region stream 4 \<subseteq> ?B"
    using field_subset [of 0 4 8 stream] unfolding disk_bytes_def stream_def by auto
  have strF: "region stream 4 \<inter> ?F = {}" using vol apart(1) strB unfolding volume_linked_def stream_def by blast
  have ownB: "?B \<subseteq> kheap_owned s" using vol by (simp add: volume_linked_def)
  have "region stat 8 \<inter> ?F = {}" using locals(1) by blast
  then obtain m2 where m2: "fstat fss fd stat s = Some (0, s\<lparr>ram := m2\<rparr>)" "same_outside (region stat 8) (ram s) m2"
    "ld32 m2 (stat + 4) = len" by (rule fstat_opened [where fss = fss, OF opn fs]) (use len_def in simp)
  define s2 where "s2 = s\<lparr>ram := m2\<rparr>"
  have "region stat 8 \<subseteq> kheap_owned s" using locals(1) by blast
  then have g2: "io_extends s s2 {} 0 (region stat 8)" unfolding s2_def using io_extends_write(2) [OF heap(1) m2(2)] by simp
  have room2: "kheap_room s2 k" using io_extends_room [OF g2 heap(2)] by simp
  have "unat len \<le> 4294963200" using fits by simp
  note al = io_extends_heap(2) [OF g2] fits(2) this room2 [unfolded k_def]
  define ptr s3 where "ptr = fst (kZalloc len s2)" and "s3 = snd (kZalloc len s2)"
  have g3: "io_extends s2 s3 (run_bytes ptr k) k {}"
    using extends_io [OF kr.extends_run [OF al]] by (simp add: ptr_def s3_def k_def)
  have "kernelHeap s2 = kernel_heap" using heap(3) io_extends_globals(4) [OF g2] by simp
  note start3 = kr.run_start [OF al, folded ptr_def, folded k_def] kZalloc_run_low [OF al this, folded ptr_def, folded k_def]
  have out: "region ptr len \<subseteq> run_bytes ptr k" using run_bytes_region [OF al(3)] by (simp add: k_def)
  have g23: "io_extends s s3 (run_bytes ptr k) k (region stat 8)" using io_extends_trans [OF g2 g3] by simp
  note h23 = io_extends_heap [OF g23] and gl = io_extends_globals [OF g23]
  have "region stat 8 \<inter> ?B = {}" using locals(1) by blast
  note v = volume_extends [OF vol g23 this]
  have "ram s3 a = ram s a" if "a \<in> ?F" for a using that own locals(1) by (intro io_extends_keeps [OF g23]) blast+
  note f = file_kept [OF opn this gl(1,2) fd]
  have fss3: "fss (ld32 (ram s3) (disk s3 + 12)) = fat16_functions io" using v(3) gl(1) fs by simp
  have fresh: "region ptr len \<inter> kheap_owned s = {}" using out h23(4) by blast
  have sz: "of_nat (unat len) = len" by simp
  obtain m4 dv where m4: "fread fss ptr len 1 fd s3 = Some (1, s3\<lparr>ram := m4, dev := dv\<rparr>)"
    "\<forall>i<unat len. m4 (ptr + of_nat i) = disk_byte data (start + i)" "same_outside (region ptr len \<union> region stream 4) (ram s3) m4"
  proof (rule fread_opened [where sz = "unat len" and n = 1 and fd = fd and out = ptr and fss = fss, OF dev v(1) f(1,2) fss3 cl])
    show "512 * unat (fat16_cluster_to_sector (ram s3) (ld32 (ram s3) (disk s3 + 16)) (fat16_get_first_cluster m item)) +
        512 * unat (ram s3 (ld32 (ram s3) (disk s3 + 16) + 13)) + 512 < 2147483648"
      using fits(1) v(4,7) v(6) [of 13] gl(1) by (simp add: start_def cb_def volume_def)
    show "1 * unat len \<le> 512 * unat (ram s3 (ld32 (ram s3) (disk s3 + 16) + 13))"
      using fits(3) v(4) v(6) [of 13] gl(1) by (simp add: cb_def volume_def)
    show "0 < unat len" using fits(2) by (simp add: word_less_nat_alt)
    show "(region d 8 \<union> region (ld32 (ram s3) d) 8 \<union> region (ld32 (ram s3) (ld32 (ram s3) d)) 32) \<inter> disk_bytes s3 = {}"
      using apart(2) f(3,4) v(2) by simp
    show "region ptr (of_nat (1 * unat len)) \<inter> (file_bytes s3 fd d \<union> disk_bytes s3) = {}"
      using fresh own ownB f(7) v(2) by (simp del: mem_region) blast
  qed (use v(4,5,7) gl(1) in \<open>simp_all add: start_def volume_def stream_def\<close>)
  define s4 where "s4 = s3\<lparr>ram := m4, dev := dv\<rparr>"
  have "region ptr len \<union> region stream 4 \<subseteq> kheap_owned s3" using out strB ownB h23(3) by blast
  then have g4: "io_extends s3 s4 {} 0 (region ptr len \<union> region stream 4)"
    unfolding s4_def using io_extends_write(1) [OF h23(2) m4(3)] by simp
  have g24: "io_extends s s4 (run_bytes ptr k) k (region stat 8 \<union> region stream 4)"
    by (rule io_extends_then [OF g23 g4]) (use fresh in blast)
  define m5 where "m5 = st32 (st32 m4 (process + 4212) ptr) (process + 4220) len"
  define s5 where "s5 = s4\<lparr>ram := m5\<rparr>"
  have p: "region (process + 4212) 4 \<subseteq> region process 5256" "region (process + 4220) 4 \<subseteq> region process 5256"
    using field_subset [of 4212 4 5256 process] field_subset [of 4220 4 5256 process] by simp_all
  have w5: "same_outside (region process 5256) m4 m5"
    unfolding m5_def using p by (intro same_outside_st32_in same_outside_refl)
  have "region process 5256 \<subseteq> kheap_owned s4" using locals(2) io_extends_heap(3) [OF g24] by blast
  then have g5: "io_extends s4 s5 {} 0 (region process 5256)"
    unfolding s5_def using io_extends_write(2) [OF io_extends_heap(2) [OF g24], of _ m5] w5 by (simp add: s4_def)
  show thesis
  proof (rule that)
    have st: "region (stat + 4) 4 \<subseteq> region stat 8" using field_subset [of 4 4 8 stat] by simp
    have "ld32 (ram s3) (stat + 4) = ld32 m2 (stat + 4)"
      using io_extends_word [OF g3, of "stat + 4"] st locals(1) io_extends_heap(3) [OF g2] by (simp add: s2_def del: mem_region) blast
    moreover have "ld32 m4 (stat + 4) = ld32 (ram s3) (stat + 4)"
      using st locals(1) fresh strB by (intro ld32_same_outside [OF m4(3)]) blast
    moreover have "ld32 (st32 m4 (process + 4212) ptr) (stat + 4) = ld32 m4 (stat + 4)"
      using st locals(2) p by (intro ld32_same_outside [OF same_outside_st32]) blast
    ultimately have "ld32 m2 (stat + 4) = len" "ld32 (st32 m4 (process + 4212) ptr) (stat + 4) = len" "ld32 (ram s3) (stat + 4) = len"
      using m2(3) by simp_all
    moreover have "fd \<noteq> 0" using opn(1) by (auto simp: open_file_def Let_def file_get_descriptor_def)
    moreover have "kZalloc len (s\<lparr>ram := m2\<rparr>) = (ptr, s3)" by (simp add: ptr_def s3_def s2_def)
    ultimately show "load_binary_body fss fd process s = Some (0, s5)"
      using m2(1) m4(1) start3 by (simp add: load_binary_body_def stat_def [symmetric] Let_def s5_def s4_def m5_def)
    show all: "io_extends s s5 (run_bytes ptr k) k (region stat 8 \<union> region stream 4 \<union> region process 5256)"
      by (rule io_extends_then [OF g24 g5]) blast
    show "\<forall>a\<in>?F. ram s5 a = ram s a"
    proof
      fix a assume "a \<in> ?F"
      then have "a \<in> kheap_owned s" "a \<notin> region stat 8 \<union> region stream 4 \<union> region process 5256"
        using own locals strF by blast+
      then show "ram s5 a = ram s a" by (rule io_extends_keeps [OF all])
    qed
    show "ptr \<noteq> 0" "page_aligned ptr" "unat ptr + 4096 * k \<le> 121634816" using start3 by simp_all
    show "ld32 (ram s5) (process + 4212) = ptr" "ld32 (ram s5) (process + 4220) = len"
      by (simp_all add: s5_def m5_def struct_fields)
    show "\<forall>i<unat len. ram s5 (ptr + of_nat i) = disk_byte data (start + i)"
    proof (intro allI impI)
      fix i assume i: "i < unat len"
      then have "ptr + of_nat i \<in> region ptr len" by (rule of_nat_in_region)
      then have "ptr + of_nat i \<notin> region process 5256" using fresh locals(2) by blast
      then show "ram s5 (ptr + of_nat i) = disk_byte data (start + i)"
        using same_outsideD [OF w5] m4(2) i by (simp add: s5_def)
    qed
  qed
qed

text \<open>What a program file has to be for \<open>process_load_binary\<close> to load it: a file in the root directory of a mounted
  volume, not longer than a cluster, and not empty.\<close>

definition program_item :: "('d, 'a) fs_state_scheme \<Rightarrow> (u8 list \<times> u8 list) list \<Rightarrow> u8 list \<Rightarrow> addr" where
  "program_item s es ys = entry_at (ram s) (root_dir s) (last (hits ys es 0))"

definition program_length :: "('d, 'a) fs_state_scheme \<Rightarrow> (u8 list \<times> u8 list) list \<Rightarrow> u8 list \<Rightarrow> u32" where
  "program_length s es ys = ld32 (ram s) (program_item s es ys + 28)"

definition program_start :: "('d, 'a) fs_state_scheme \<Rightarrow> (u8 list \<times> u8 list) list \<Rightarrow> u8 list \<Rightarrow> nat" where
  "program_start s es ys = 512 * unat (fat16_cluster_to_sector (ram s) (ld32 (ram s) (disk s + 16))
     (fat16_get_first_cluster (ram s) (program_item s es ys)))"

definition cluster_bytes :: "('d, 'a) fs_state_scheme \<Rightarrow> nat" where
  "cluster_bytes s = 512 * unat (ram s (ld32 (ram s) (disk s + 16) + 13))"

definition loadable :: "(addr \<Rightarrow> ('d, 'a) process_state_scheme fileSystem) \<Rightarrow> 'd ports \<Rightarrow> addr \<Rightarrow> u8 list \<Rightarrow>
    (u8 list \<times> u8 list) list \<Rightarrow> ('d, 'a) process_state_scheme \<Rightarrow> bool" where
  "loadable fss io filename ys es s \<longleftrightarrow>
     mounted s es \<and> fss (ld32 (ram s) (disk s + 12)) = fat16_functions io \<and>
     cstr (ram s) filename (48 # of_char CHR '':'' # slash # ys) \<and> slash \<notin> set ys \<and> ys \<noteq> [] \<and> length ys \<le> 105 \<and>
     str_bytes filename (3 + length ys) \<subseteq> kheap_owned s \<and> ram s (rodata s) = of_char CHR ''r'' \<and> rodata s \<in> kheap_owned s \<and>
     hits ys es 0 \<noteq> [] \<and> no_directories (ram s) (root_dir s) (hits ys es 0) \<and> 0 \<in> set (fd_table s) \<and>
     unat (fat16_get_first_cluster (ram s) (program_item s es ys)) < 2147483648 \<and>
     program_start s es ys + cluster_bytes s + 512 < 2147483648 \<and>
     0 < program_length s es ys \<and> unat (program_length s es ys) \<le> cluster_bytes s \<and>
     region (kstack s + 148) 8 \<subseteq> kheap_owned s - (scratch s \<union> disk_bytes s)"

text \<open>The memory of the kernel that loading a file writes.\<close>

abbreviation load_writes :: "('d, 'a) fs_state_scheme \<Rightarrow> addr set" where
  "load_writes s \<equiv> scratch s \<union> region (kstack s + 148) 8 \<union> region (file_stream (ram s) (disk s)) 4"

lemma load_binary_spec:
  fixes s :: "('d, 'a) process_state_scheme" and es :: "(u8 list \<times> u8 list) list" and ys :: "u8 list"
  defines "h \<equiv> length (hits ys es 0)" and "len \<equiv> program_length s es ys" and "start \<equiv> program_start s es ys"
  defines "k \<equiv> run_blocks len"
  assumes ok: "loadable fss io filename ys es s" and dev: "ata_device io xfer data"
    and heap: "7 + 2 * h \<le> kheap_free s" "kheap_room s l" "(6 + 2 * h) * k \<le> l"
    and mine: "region process 5256 \<subseteq> kheap_owned s - (load_writes s \<union> disk_bytes s)"
  obtains ptr s' R where "process_load_binary fss filename process s = Some (0, s')"
    "io_extends s s' R (1 + 2 * h + k) (load_writes s \<union> region process 5256)"
    "run_bytes ptr k \<subseteq> R" "ptr \<noteq> 0" "page_aligned ptr" "unat ptr + 4096 * k \<le> 121634816"
    "ld32 (ram s') (process + 4212) = ptr" "ld32 (ram s') (process + 4220) = len"
    "\<forall>i<unat len. ram s' (ptr + of_nat i) = disk_byte data (start + i)" "fd_table s' = fd_table s"
proof -
  define volume item stat stream cb where "volume = ld32 (ram s) (disk s + 16)" and
    "item = entry_at (ram s) (root_dir s) (last (hits ys es 0))" and "stat = kstack s + 148" and
    "stream = file_stream (ram s) (disk s)" and "cb = 512 * unat (ram s (volume + 13))"
  have len_eq: "len = ld32 (ram s) (item + 28)"
    and start_eq: "start = 512 * unat (fat16_cluster_to_sector (ram s) volume (fat16_get_first_cluster (ram s) item))"
    by (simp_all add: len_def start_def program_length_def program_start_def program_item_def item_def volume_def)
  have mnt: "mounted s es" and fs: "fss (ld32 (ram s) (disk s + 12)) = fat16_functions io"
    and name: "cstr (ram s) filename (48 # of_char CHR '':'' # slash # ys)" "slash \<notin> set ys" "ys \<noteq> []" "length ys \<le> 105"
      "str_bytes filename (3 + length ys) \<subseteq> kheap_owned s" "ram s (rodata s) = of_char CHR ''r''" "rodata s \<in> kheap_owned s"
    and found: "hits ys es 0 \<noteq> []" "no_directories (ram s) (root_dir s) (hits ys es 0)" "0 \<in> set (fd_table s)"
    and cl: "unat (fat16_get_first_cluster (ram s) item) < 2147483648"
    and fits: "start + cb + 512 < 2147483648" "0 < len" "unat len \<le> cb"
    and stat: "region stat 8 \<subseteq> kheap_owned s - (scratch s \<union> disk_bytes s)"
    using ok by (simp_all add: loadable_def program_item_def cluster_bytes_def item_def volume_def cb_def stat_def
        len_def [symmetric] start_def [symmetric])
  have locals: "region stat 8 \<subseteq> kheap_owned s - (scratch s \<union> disk_bytes s)"
    "region process 5256 \<subseteq> kheap_owned s - (scratch s \<union> disk_bytes s \<union> region stat 8)"
    using stat mine unfolding stat_def by blast+
  let ?B = "disk_bytes s" and ?T = "region (file_descriptors s) 2048"
  define j fd where "j = first_free_fd s" and "fd = (of_nat (Suc j) :: u32)"
  have j: "j < 512" using first_free_fd(1,4) [of s] found(3) by (auto simp: j_def)
  obtain d s1 ps where op: "fopen fss filename (rodata s) s = Some (fd, s1)" "kp.grows s s1 ps (scratch s)"
    "open_file s1 fd d" "opened (ram s1) d (ram s) item"
    "fd_table s1 = (fd_table s)[j := file_get_descriptor fd s1]" "length ps = 5 + 2 * h"
    and pages: "distinct [ld32 (ram s1) (ld32 (ram s1) d), ld32 (ram s1) d, d, file_get_descriptor fd s1]"
    "{ld32 (ram s1) (ld32 (ram s1) d), ld32 (ram s1) d, d, file_get_descriptor fd s1} \<subseteq> set ps"
    using fopen_spec [where fss = fss, OF mnt fs name found heap(1) [unfolded h_def]]
    unfolding fd_def j_def item_def h_def by blast
  define P rs where "P = (\<Union>p\<in>set ps. region p 4096)" and
    "rs = [ld32 (ram s1) (ld32 (ram s1) d), ld32 (ram s1) d, d, file_get_descriptor fd s1]"
  have rs: "\<forall>p\<in>set rs. region p 4096 \<subseteq> P" using pages(2) by (auto simp: P_def rs_def simp del: mem_region)
  have g1: "io_extends s s1 P (5 + 2 * h) (scratch s)"
    using grows_io_extends [OF grows_io [OF op(2)]] op(6) by (simp add: P_def)
  note h1 = io_extends_heap [OF g1] and gl1 = io_extends_globals [OF g1]
  have own: "?B \<subseteq> kheap_owned s" "?T \<subseteq> kheap_owned s" "scratch s \<inter> ?B = {}" "region (disk s) 20 \<subseteq> ?B"
    using mnt unfolding mounted_def disk_bytes_def by blast+
  note v1 = volume_extends [OF mounted_ready [OF mnt] g1 own(3)]
  have sub: "region p n \<subseteq> P" if "p \<in> set rs" "unat n \<le> 4096" for p n
    using rs that field_subset [of 0 n 4096 p] by simp blast
  have F0: "region d 8 \<subseteq> P" "region (ld32 (ram s1) d) 8 \<subseteq> P" "region (ld32 (ram s1) (ld32 (ram s1) d)) 32 \<subseteq> P"
    "region (file_get_descriptor fd s1) 16 \<subseteq> P"
    by (rule sub; simp add: rs_def)+
  then have F: "file_bytes s1 fd d \<subseteq> region (disk s) 20 \<union> ?T \<union> P"
    unfolding file_bytes_def gl1(1,2) by blast
  obtain ptr s2 where body: "load_binary_body fss fd process s1 = Some (0, s2)"
    "io_extends s1 s2 (run_bytes ptr k) k (region stat 8 \<union> region stream 4 \<union> region process 5256)"
    "ptr \<noteq> 0" "page_aligned ptr" "unat ptr + 4096 * k \<le> 121634816"
    "ld32 (ram s2) (process + 4212) = ptr" "ld32 (ram s2) (process + 4220) = len"
    "\<forall>i<unat len. ram s2 (ptr + of_nat i) = disk_byte data (start + i)" "\<forall>a\<in>file_bytes s1 fd d. ram s2 a = ram s1 a"
  proof (rule load_body_spec [where fss = fss and s = s1 and process = process and j = j, OF dev v1(1) op(3,4) _ _ _ _ _ h1(2) _ _ fd_def j])
    show "fss (ld32 (ram s1) (disk s1 + 12)) = fat16_functions io" using fs v1(3) gl1(1) by simp
    show "unat (fat16_get_first_cluster (ram s) item) < 2147483648" by (rule cl)
    show "512 * unat (fat16_cluster_to_sector (ram s1) (ld32 (ram s1) (disk s1 + 16)) (fat16_get_first_cluster (ram s) item)) +
        512 * unat (ram s1 (ld32 (ram s1) (disk s1 + 16) + 13)) + 512 < 2147483648"
      using fits(1) v1(4,7) v1(6) [of 13] gl1(1) by (simp add: start_eq cb_def volume_def)
    show "0 < ld32 (ram s) (item + 28)" using fits(2) by (simp add: len_eq)
    show "unat (ld32 (ram s) (item + 28)) \<le> 512 * unat (ram s1 (ld32 (ram s1) (disk s1 + 16) + 13))"
      using fits(3) v1(4) v1(6) [of 13] gl1(1) by (simp add: cb_def volume_def len_eq)
    show "kernelHeap s1 = kernel_heap" using mnt gl1(4) by (simp add: mounted_def)
    show "kheap_room s1 (run_blocks (ld32 (ram s) (item + 28)))"
      using io_extends_room [OF g1 heap(2)] heap(3) by (simp add: k_def len_eq)
    show "file_bytes s1 fd d \<subseteq> kheap_owned s1" using F own h1(3) by blast
    show "(file_bytes s1 fd d - region (disk s1) 20) \<inter> disk_bytes s1 = {}"
      unfolding v1(2) gl1(1) using F own(1,3) h1(4) by blast
    show "(region d 8 \<union> region (ld32 (ram s1) d) 8 \<union> region (ld32 (ram s1) (ld32 (ram s1) d)) 32) \<inter> disk_bytes s1 = {}"
      unfolding v1(2) using F0(1-3) own(1) h1(4) by blast
    show "region (kstack s1 + 148) 8 \<subseteq> kheap_owned s1 - (file_bytes s1 fd d \<union> disk_bytes s1)"
      unfolding v1(2) gl1(3) stat_def [symmetric] using F own(4) h1(3,4) locals(1) by blast
    show "region process 5256 \<subseteq> kheap_owned s1 - (file_bytes s1 fd d \<union> disk_bytes s1 \<union> region (kstack s1 + 148) 8)"
      unfolding v1(2) gl1(3) stat_def [symmetric] using F own(4) h1(3,4) locals(2) by blast
  qed (use v1(4,5,7) gl1(1,3) in \<open>simp_all add: start_eq volume_def stream_def stat_def k_def len_eq\<close>)
  have D: "scratch s \<subseteq> kheap_owned s" "region process 5256 \<subseteq> kheap_owned s - scratch s"
    using mnt locals(2) unfolding mounted_def dir_ok_def by blast+
  have g2: "io_extends s s2 (P \<union> run_bytes ptr k) ((1 + 2 * h + k) + length rs)
      (scratch s \<union> region stat 8 \<union> region stream 4 \<union> region process 5256)"
  proof -
    have "5 + 2 * h + k = (1 + 2 * h + k) + length rs" by (simp add: rs_def)
    then show ?thesis using io_extends_trans [OF g1 body(2)] by (simp only: Un_assoc)
  qed
  have "ram s2 a = ram s1 a" if "a \<in> file_bytes s1 fd d" for a using body(9) that by blast
  note kept = file_kept [OF op(3,4) this io_extends_globals(1,2) [OF body(2)] fd_def j]
  have live: "kheap_page s2 p" if "p \<in> set rs" for p
    using op(2) pages(2) that io_extends_heap(6) [OF body(2)] unfolding kp.grows_def rs_def by auto
  have new: "\<forall>p\<in>set rs. kheap_page s2 p \<and> region p 4096 \<subseteq> P \<union> run_bytes ptr k" using rs live by blast
  have dist: "distinct rs" using pages(1) by (simp add: rs_def)
  define t where "t = fold kFree rs s2"
  define R where "R = P \<union> run_bytes ptr k - (\<Union>p\<in>set rs. region p 4096)"
  have g3: "io_extends s t R (1 + 2 * h + k) (scratch s \<union> region stat 8 \<union> region stream 4 \<union> region process 5256)"
    using io_extends_release [OF g2 dist new] by (simp add: t_def R_def)
  note gl = io_extends_globals [OF g3] and ht = io_extends_heap [OF g3]
  have "\<forall>p\<in>set rs. kheap_page s2 p" using live by blast
  from kp.grows_backwards [OF io_extends_heap(2) [OF g2] dist this] have b0: "kp.grows t s2 rs {}" by (simp add: t_def)
  have "[ld32 (ram s2) (ld32 (ram s2) d), ld32 (ram s2) d, d, file_get_descriptor fd s2] @ [] = rs"
    by (simp only: kept(3-5) rs_def append_Nil2)
  moreover have "kp.grows t s2 rs (scratch t)" using b0 by (rule kp.grows_mono) blast
  ultimately have b: "kp.grows t s2 ([ld32 (ram s2) (ld32 (ram s2) d), ld32 (ram s2) d, d, file_get_descriptor fd s2] @ []) (scratch t)"
    by (simp only:)
  have T: "region (file_descriptors t) 2048 \<subseteq> kheap_owned t" unfolding gl(2) ht(3) using own(2) by blast
  have "region (disk s + 12) 4 \<subseteq> file_bytes s1 fd d"
    using field_subset [of 12 4 20 "disk s"] gl1(1) unfolding file_bytes_def by auto
  then have "ld32 (ram s2) (disk s + 12) = ld32 (ram s1) (disk s + 12)" using body(9) by (intro ld32_cong) blast
  then have "fss (ld32 (ram s2) (disk s2 + 12)) = fat16_functions io" using fs v1(3) io_extends_globals(1) [OF g2] by simp
  from fclose_opened [where fss = fss, OF b T kept(1) [unfolded fd_def] _ kept(2) j this] obtain s3 where
    cl3: "fclose fss fd s2 = Some (0, s3)" "kp.grows t s3 [] (scratch t)" "fd_table s3 = (fd_table s2)[j := 0]"
    unfolding fd_def by blast
  have g4: "io_extends t s3 {} 0 (scratch t)" using grows_io_extends [OF grows_io [OF cl3(2)]] by simp
  have scr: "scratch t = scratch s" using gl by simp
  have same: "ram s3 a = ram s2 a" if "a \<in> kheap_owned t" "a \<notin> scratch s" for a
    using kp.grows_keeps [OF b0 that(1)] kp.grows_keeps [OF cl3(2) that(1)] that(2) scr by simp
  have R: "run_bytes ptr k \<subseteq> R" using rs h1(3) io_extends_heap(4) [OF body(2)] unfolding R_def by blast
  show thesis
  proof (rule that [OF _ _ R body(3-5)])
    show "process_load_binary fss filename process s = Some (0, s3)"
      using op(1) body(1) cl3(1) by (simp add: process_load_binary_def)
    show "io_extends s s3 R (1 + 2 * h + k) (load_writes s \<union> region process 5256)"
      using io_extends_then [OF g3 g4, of "scratch s"] scr by (simp add: Un_ac stat_def stream_def)
    have "ram s3 a = ram s2 a" if "a \<in> region process 5256" for a using that D(2) ht(3) by (intro same) blast+
    then have "ld32 (ram s3) (process + i) = ld32 (ram s2) (process + i)" if "unat i + 4 \<le> 5256" for i
      using field_subset [of i 4 5256 process] that by (intro ld32_cong) auto
    from this [of 4212] this [of 4220] show "ld32 (ram s3) (process + 4212) = ptr" "ld32 (ram s3) (process + 4220) = len"
      using body(6,7) by simp_all
    show "\<forall>i<unat len. ram s3 (ptr + of_nat i) = disk_byte data (start + i)"
    proof (intro allI impI)
      fix i assume i: "i < unat len"
      have "unat len \<le> 4294963200" using fits by simp
      with i have "ptr + of_nat i \<in> run_bytes ptr k" unfolding k_def by (rule of_nat_in_run)
      then have "ptr + of_nat i \<in> R" using R by blast
      then have "ptr + of_nat i \<in> kheap_owned t" "ptr + of_nat i \<notin> scratch s" using ht(3,4) D(1) by blast+
      then show "ram s3 (ptr + of_nat i) = disk_byte data (start + i)" using same body(8) i by simp
    qed
    have "fd_table s ! j = 0" using first_free_fd(3) [of s] j fd_table_nth [OF j, of s] by (simp add: j_def)
    then show "fd_table s3 = fd_table s"
      using cl3(3) kept(6) op(5) list_update_id [of "fd_table s" j] by simp
  qed
qed

text \<open>A program file can still be loaded after steps that leave the volume and the strings alone.\<close>

lemma loadable_kept:
  fixes s :: "('d, 'a) process_state_scheme"
  assumes "loadable fss io filename ys es s" "io_extends s s' R j D"
    and apart: "D \<inter> (directory_bytes (ram s) (root_dir s) es \<union> disk_bytes s \<union> str_bytes filename (3 + length ys) \<union>
      {rodata s} \<union> region (file_descriptors s) 2048) = {}"
  shows "loadable fss io filename ys es s'" "program_length s' es ys = program_length s es ys"
    "program_start s' es ys = program_start s es ys" "load_writes s' = load_writes s" "disk_bytes s' = disk_bytes s" "fd_table s' = fd_table s"
proof -
  have ok: "mounted s es" "cstr (ram s) filename (48 # of_char CHR '':'' # slash # ys)" "str_bytes filename (3 + length ys) \<subseteq> kheap_owned s"
    "rodata s \<in> kheap_owned s" "hits ys es 0 \<noteq> []" "region (file_descriptors s) 2048 \<subseteq> kheap_owned s"
    using assms(1) by (auto simp: loadable_def mounted_def simp del: mem_region)
  have disj: "D \<inter> disk_bytes s = {}" "D \<inter> (directory_bytes (ram s) (root_dir s) es \<union> disk_bytes s) = {}"
    "str_bytes filename (3 + length ys) \<subseteq> kheap_owned s - D" "rodata s \<notin> D" "region (file_descriptors s) 2048 \<inter> D = {}"
    using apart ok(3) by blast+
  note v = volume_extends [OF mounted_ready [OF ok(1)] assms(2) disj(1)]
  note m = mounted_extends [OF ok(1) assms(2) disj(2)]
  note gl = io_extends_globals [OF assms(2)] io_extends_process_globals(2) [OF assms(2)] and h = io_extends_heap [OF assms(2)]
  have keep: "ram s' a = ram s a" if "a \<in> kheap_owned s - D" for a using io_extends_keeps [OF assms(2)] that by blast
  have hit: "last (hits ys es 0) < length es" "\<And>i. i \<in> set (hits ys es 0) \<Longrightarrow> i < length es"
    using hits_bounds [of _ ys es 0] last_in_set [OF ok(5)] by auto
  have item: "program_item s' es ys = program_item s es ys" using m(2,3) by (simp add: program_item_def)
  have byte: "ram s' (program_item s es ys + i) = ram s (program_item s es ys + i)" if "i < 32" for i
    using m(4) [OF hit(1), of "program_item s es ys + i"] that by (simp add: program_item_def)
  have "ld16 (ram s') (program_item s es ys + i) = ld16 (ram s) (program_item s es ys + i)" if "i < 31" for i
  proof -
    have "i < 32" "i + 1 < 32" using that by unat_arith+
    then show ?thesis using byte [of i] byte [of "i + 1"] by (simp add: ld16_def add.assoc)
  qed
  then have cl: "fat16_get_first_cluster (ram s') (program_item s es ys) = fat16_get_first_cluster (ram s) (program_item s es ys)"
    by (simp add: fat16_get_first_cluster_def)
  show len: "program_length s' es ys = program_length s es ys"
    using byte [of 28] byte [of 29] byte [of 30] byte [of 31] by (simp add: program_length_def item ld32_def add.assoc)
  show start: "program_start s' es ys = program_start s es ys"
    using v(4,7) gl(1) by (simp add: program_start_def item cl)
  show w: "load_writes s' = load_writes s" using gl v(5) by simp
  show b: "disk_bytes s' = disk_bytes s" by (rule v(2))
  show t: "fd_table s' = fd_table s" using ok(6) disj(5) keep by (intro fd_table_cong gl(2)) blast
  have "cluster_bytes s' = cluster_bytes s" using v(4) v(6) [of 13] gl(1) by (simp add: cluster_bytes_def)
  moreover have "cstr (ram s') filename (48 # of_char CHR '':'' # slash # ys)"
  proof -
    have n: "length (48 # of_char CHR '':'' # slash # ys) = 3 + length ys" by simp
    from disj(3) show ?thesis unfolding n [symmetric] by (rule cstr_owned [OF ok(2) _ keep])
  qed
  moreover have "no_directories (ram s') (root_dir s') (hits ys es 0) = no_directories (ram s) (root_dir s) (hits ys es 0)"
  proof -
    have "ram s' (entry_at (ram s) (root_dir s) i + 11) = ram s (entry_at (ram s) (root_dir s) i + 11)" if "i \<in> set (hits ys es 0)" for i
      using m(4) [OF hit(2) [OF that]] by simp
    moreover have "entry_at (ram s') (root_dir s) i = entry_at (ram s) (root_dir s) i" for i by (rule mounted_extends(3) [OF ok(1) assms(2) disj(2)])
    ultimately show ?thesis using m(2) by (simp add: no_directories_def)
  qed
  moreover have "ram s' (rodata s') = ram s (rodata s)" using keep ok(4) disj(4) gl by simp
  ultimately show "loadable fss io filename ys es s'"
    using assms(1) m(1) v(3) gl h(3) start len item cl b t unfolding loadable_def by auto
qed

lemma loadable_extends:
  fixes s :: "('d, 'a) process_state_scheme"
  assumes "loadable fss io filename ys es s" "io_extends s s' R j {}"
  shows "loadable fss io filename ys es s'" "program_length s' es ys = program_length s es ys"
    "program_start s' es ys = program_start s es ys" "load_writes s' = load_writes s" "disk_bytes s' = disk_bytes s" "fd_table s' = fd_table s"
  by (rule loadable_kept [OF assms Int_empty_left])+

end
