(* ===== verification/Program_Start.thy ===== *)
theory Program_Start
  imports Program_File
begin

text \<open>
  Starting a program, \<open>process_load\<close> and \<open>process_load_switch\<close> of \<^verbatim>\<open>task/process.c\<close>: from a path to a process whose
  task sees the bytes of the file at the address it starts at.
\<close>

section \<open>A process for a slot\<close>

text \<open>Memory for the structure, the file and the stack.\<close>

lemma kZalloc_extends:
  fixes s :: "('d, 'a) fs_state_scheme"
  assumes "kheap_inv s" "0 < n" "unat n \<le> 4294963200" "kheap_room s (run_blocks n)"
  shows "io_extends s (snd (kZalloc n s)) (run_bytes (fst (kZalloc n s)) (run_blocks n)) (run_blocks n) {}"
  using extends_io [OF kr.extends_run [OF assms]] .

lemma ld32_field_kept:
  assumes "\<And>a. a \<in> region p n \<Longrightarrow> m' a = m a" "unat i + 4 \<le> unat n"
  shows "ld32 m' (p + i) = ld32 m (p + i)"
  using field_subset [of i 4 n p] assms by (intro ld32_cong) auto

lemma slot_memory:
  fixes s :: "('d, 'a) process_state_scheme" and es :: "(u8 list \<times> u8 list) list" and ys :: "u8 list"
  defines "h \<equiv> length (hits ys es 0)" and "len \<equiv> program_length s es ys" and "start \<equiv> program_start s es ys"
  defines "k \<equiv> run_blocks len"
  assumes ok: "loadable fss io filename ys es s" and dev: "ata_device io xfer data"
    and heap: "9 + 2 * h \<le> kheap_free s" "kheap_room s l" "(18 + 6 * h) * k \<le> l" "(4 + 2 * h + k) * 4 \<le> l"
  obtains p ptr stk s1 s3 s4 R where "kZalloc 5256 s = (p, s1)" "p \<noteq> 0"
    "process_load_data fss filename p (process_init p s1) = Some (0, s3)" "kZalloc 16384 s3 = (stk, s4)" "stk \<noteq> 0"
    "io_extends s s4 R (7 + 2 * h + k) (load_writes s)" "region p 5256 \<union> run_bytes ptr k \<union> run_bytes stk 4 \<subseteq> R"
    "region p 5256 \<inter> run_bytes ptr k = {}" "page_aligned ptr" "unat ptr + 4096 * k \<le> 121634816" "page_aligned stk"
    "ld32 (ram s4) (p + 4212) = ptr" "ld32 (ram s4) (p + 4220) = len"
    "\<forall>i<unat len. ram s4 (ptr + of_nat i) = disk_byte data (start + i)" "fd_table s4 = fd_table s"
proof -
  have inv: "kheap_inv s" and fds: "region (file_descriptors s) 2048 \<subseteq> kheap_owned s" and B: "disk_bytes s \<subseteq> kheap_owned s"
    "scratch s \<subseteq> kheap_owned s" "region (kstack s + 148) 8 \<subseteq> kheap_owned s"
    using ok unfolding loadable_def mounted_def dir_ok_def by blast+
  have "region (file_stream (ram s) (disk s)) 4 \<subseteq> disk_bytes s"
    using field_subset [of 0 4 8 "file_stream (ram s) (disk s)"] unfolding disk_bytes_def by auto
  then have W: "load_writes s \<subseteq> kheap_owned s" using B by blast
  have blocks: "run_blocks 5256 = 2" "run_blocks 16384 = 4" by (simp_all add: run_blocks_def)
  have k: "0 < k" "unat len \<le> 4294963200" using ok run_blocks_pos unfolding k_def len_def loadable_def by auto
  have "2 \<le> l" using heap(4) by simp
  then have room: "kheap_room s (run_blocks 5256)" unfolding blocks using heap(2) by (rule kheap_room_le)
  define p s1 where "p = fst (kZalloc 5256 s)" and "s1 = snd (kZalloc 5256 s)"
  note a1 = inv _ _ room
  have g1: "io_extends s s1 (run_bytes p 2) 2 {}"
    using kZalloc_extends [OF a1] by (simp add: p_def s1_def blocks)
  have p: "p \<noteq> 0" "region p 5256 \<subseteq> run_bytes p 2"
    using kr.run_start [OF a1] run_bytes_region [of 5256 p] by (simp_all add: p_def blocks)
  define s2 where "s2 = process_init p s1"
  have "region p 5256 \<subseteq> kheap_owned s1" using p(2) io_extends_heap(3) [OF g1] by blast
  then have "io_extends s1 s2 {} 0 (region p 5256)"
    unfolding s2_def process_init_def using io_extends_write(2) [OF io_extends_heap(2) [OF g1] memset_frame] by simp
  from io_extends_then [OF g1 this, of "{}"] have g2: "io_extends s s2 (run_bytes p 2) 2 {}"
    using p(2) io_extends_heap(4) [OF g1] by auto
  note h2 = io_extends_heap [OF g2] and ok2 = loadable_extends [OF ok g2]
  have room2: "kheap_room s2 ((6 + 2 * h) * k)" using io_extends_room [OF g2 heap(2)] heap(3) by (simp add: algebra_simps)
  have mine: "region p 5256 \<subseteq> kheap_owned s2 - (load_writes s2 \<union> disk_bytes s2)"
    unfolding ok2(4,5) using p(2) h2(3,4) W B(1) by blast
  have "7 + 2 * length (hits ys es 0) \<le> kheap_free s2" using heap(1) h2(5) by (simp add: h_def)
  note load = load_binary_spec [OF ok2(1) dev this room2 _ mine, unfolded ok2(2-4,6) len_def [symmetric] start_def [symmetric]
    k_def [symmetric] h_def [symmetric], OF order_refl]
  obtain ptr s3 R3 where s3: "process_load_binary fss filename p s2 = Some (0, s3)"
    "io_extends s2 s3 R3 (1 + 2 * h + k) (load_writes s \<union> region p 5256)" "run_bytes ptr k \<subseteq> R3" "ptr \<noteq> 0" "page_aligned ptr"
    "unat ptr + 4096 * k \<le> 121634816" "ld32 (ram s3) (p + 4212) = ptr" "ld32 (ram s3) (p + 4220) = len"
    "\<forall>i<unat len. ram s3 (ptr + of_nat i) = disk_byte data (start + i)" "fd_table s3 = fd_table s" by (rule load)
  have g3: "io_extends s s3 (run_bytes p 2 \<union> R3) (3 + 2 * h + k) (load_writes s)"
  proof (rule io_extends_mono)
    have "2 + (1 + 2 * h + k) = 3 + 2 * h + k" by simp
    then show "io_extends s s3 (run_bytes p 2 \<union> R3) (3 + 2 * h + k) ({} \<union> (load_writes s \<union> region p 5256))"
      using io_extends_trans [OF g2 s3(2)] by (simp only:)
    show "({} \<union> (load_writes s \<union> region p 5256)) \<inter> kheap_owned s \<subseteq> load_writes s" using p(2) h2(4) by blast
  qed
  note h3 = io_extends_heap [OF g3]
  have "kheap_room s3 4" using io_extends_room [OF g3 heap(2)] heap(4) by simp
  then have a4: "kheap_room s3 (run_blocks 16384)" by (simp add: blocks)
  define stk s4 where "stk = fst (kZalloc 16384 s3)" and "s4 = snd (kZalloc 16384 s3)"
  note start4 = kr.run_start [OF h3(2) _ _ a4, folded stk_def, unfolded blocks, simplified]
  have g4: "io_extends s3 s4 (run_bytes stk 4) 4 {}"
    using kZalloc_extends [OF h3(2) _ _ a4] by (simp add: stk_def s4_def blocks)
  have g: "io_extends s s4 (run_bytes p 2 \<union> R3 \<union> run_bytes stk 4) (7 + 2 * h + k) (load_writes s)"
  proof -
    have "3 + 2 * h + k + 4 = 7 + 2 * h + k" by simp
    then show ?thesis using io_extends_trans [OF g3 g4] by (simp only: Un_empty_right)
  qed
  have own: "run_bytes p 2 \<union> run_bytes ptr k \<subseteq> kheap_owned s3" using h3(3) s3(3) by blast
  have keep: "ram s4 a = ram s3 a" if "a \<in> kheap_owned s3" for a using io_extends_keeps [OF g4 that] by simp
  have p3: "ram s4 a = ram s3 a" if "a \<in> region p 5256" for a using that own p(2) by (intro keep) blast
  have ptr3: "ram s4 (ptr + of_nat i) = ram s3 (ptr + of_nat i)" if "i < unat len" for i
    using of_nat_in_run [OF that k(2), folded k_def] own by (intro keep) blast
  show thesis
  proof (rule that [of p s1 s3 stk s4 "run_bytes p 2 \<union> R3 \<union> run_bytes stk 4" ptr])
    show "kZalloc 5256 s = (p, s1)" "kZalloc 16384 s3 = (stk, s4)" by (simp_all add: p_def s1_def stk_def s4_def)
    show "p \<noteq> 0" by (rule p(1))
    show "process_load_data fss filename p (process_init p s1) = Some (0, s3)" using s3(1) by (simp add: process_load_data_def s2_def)
    show "stk \<noteq> 0" "page_aligned stk" using start4 by simp_all
    show "io_extends s s4 (run_bytes p 2 \<union> R3 \<union> run_bytes stk 4) (7 + 2 * h + k) (load_writes s)" by (rule g)
    show "region p 5256 \<union> run_bytes ptr k \<union> run_bytes stk 4 \<subseteq> run_bytes p 2 \<union> R3 \<union> run_bytes stk 4" using p(2) s3(3) by blast
    show "region p 5256 \<inter> run_bytes ptr k = {}" using p(2) s3(3) io_extends_heap(4) [OF s3(2)] h2(3) by blast
    show "page_aligned ptr" "unat ptr + 4096 * k \<le> 121634816" by (rule s3)+
    show "ld32 (ram s4) (p + 4212) = ptr" "ld32 (ram s4) (p + 4220) = len"
      using s3(7,8) ld32_field_kept [where m' = "ram s4" and m = "ram s3" and i = 4212, OF p3]
        ld32_field_kept [where m' = "ram s4" and m = "ram s3" and i = 4220, OF p3] by simp_all
    show "\<forall>i<unat len. ram s4 (ptr + of_nat i) = disk_byte data (start + i)" using s3(9) ptr3 by simp
    show "fd_table s4 = fd_table s"
      using fds h3(3) io_extends_globals(2) [OF g3] by (subst s3(10) [symmetric], intro fd_table_cong io_extends_globals(2) [OF g4] keep) auto
  qed
qed

section \<open>The task of a process\<close>

text \<open>The structure is filled in within its bounds.\<close>

lemma process_filled:
  fixes p stk filename :: addr and m :: mem and id :: u16
  defines "m' \<equiv> st16 (st32 (strncpy m (p + 2) filename 108) (p + 4216) stk) p id"
  shows "same_outside (region p 5256) m m'" "ld32 m' (p + 4216) = stk" "ld32 m' (p + 4212) = ld32 m (p + 4212)"
    "ld32 m' (p + 4220) = ld32 m (p + 4220)"
proof -
  have n: "same_outside (region (p + 2) 108) m (strncpy m (p + 2) filename 108)" using strncpy_frame [of 108] by simp
  have sub: "region (p + 2) 108 \<subseteq> region p 5256" "region (p + 4216) 4 \<subseteq> region p 5256" "region p 2 \<subseteq> region p 5256"
    using field_subset [of 2 108 5256 p] field_subset [of 4216 4 5256 p] field_subset [of 0 2 5256 p] by simp_all
  show "same_outside (region p 5256) m m'"
    unfolding m'_def using same_outside_mono [OF n sub(1)] sub(2,3)
    by (meson same_outside_mono same_outside_st16 same_outside_st32_in same_outside_trans order_refl)
  have low: "ld32 m' (p + i) = ld32 (st32 (strncpy m (p + 2) filename 108) (p + 4216) stk) (p + i)"
    if "2 \<le> unat i" "unat i + 4 \<le> 4294967296" for i
    unfolding m'_def using field_disjoint [of 0 2 i 4 p] that by (intro ld32_same_outside [OF same_outside_st16]) auto
  show "ld32 m' (p + 4216) = stk" using low [of 4216] by simp
  have "ld32 (strncpy m (p + 2) filename 108) (p + i) = ld32 m (p + i)" if "110 \<le> unat i" "unat i + 4 \<le> 4294967296" for i
    using field_disjoint [of 2 108 i 4 p] that by (intro ld32_same_outside [OF n]) auto
  then show "ld32 m' (p + 4212) = ld32 m (p + 4212)" "ld32 m' (p + 4220) = ld32 m (p + 4220)"
    using low [of 4212] low [of 4220] by (simp_all add: ld32_st32_fields)
qed

text \<open>
  A process in memory: the structure at \<open>p\<close>, its task at \<open>t\<close> with the address space \<open>c\<close>, in which the program sees and may write
  \<open>len\<close> bytes from \<open>ptr\<close> at 0x400000 and 16 KiB from \<open>stk\<close> below 0x3FF000.
\<close>

definition program_at :: "mem \<Rightarrow> addr \<Rightarrow> addr \<Rightarrow> addr \<Rightarrow> addr \<Rightarrow> addr \<Rightarrow> u32 \<Rightarrow> bool" where
  "program_at m p t c ptr stk len \<longleftrightarrow> ld32 m (p + 112) = t \<and> task_fields m t c p \<and> chunk_ok m c \<and>
     (\<forall>va. va - 0x400000 < len \<longrightarrow> translate m (ld32 m c) va = Some (ptr + (va - 0x400000), True, True)) \<and>
     (\<forall>va. va - 0x3FB000 < 0x4000 \<longrightarrow> translate m (ld32 m c) va = Some (stk + (va - 0x3FB000), True, True))"

definition program_bytes :: "mem \<Rightarrow> addr \<Rightarrow> addr \<Rightarrow> addr \<Rightarrow> addr set" where
  "program_bytes m p t c = region p 5256 \<union> region t 4096 \<union> vspace_pages m c"

lemma program_at_kept:
  assumes "program_at m p t c ptr stk len" "\<And>a. a \<in> program_bytes m p t c \<Longrightarrow> m' a = m a"
  shows "program_at m' p t c ptr stk len"
proof -
  have same: "m' a = m a" if "a \<in> region p 5256 \<or> a \<in> region t 4096 \<or> a \<in> vspace_pages m c" for a
    using that by (intro assms(2)) (auto simp: program_bytes_def simp del: mem_region)
  have "region t 56 \<subseteq> region t 4096" using field_subset [of 0 56 4096 t] by simp
  then have "m' a = m a" if "a \<in> region t 56" for a using that by (intro same) blast
  then have "task_fields m' t c p" using assms(1) by (intro task_fields_cong [of m t c p m']) (simp_all add: program_at_def del: mem_region)
  moreover have "m' a = m a" if "a \<in> region p 5256" for a using that same by blast
  from ld32_field_kept [where m = m and m' = m' and i = 112, OF this] have "ld32 m' (p + 112) = ld32 m (p + 112)" by simp
  moreover have "chunk_ok m c" using assms(1) by (simp add: program_at_def)
  note v = vspace_kept [OF this, of m']
  have "ld32 m' c = ld32 m c" "chunk_ok m' c" "\<And>va. translate m' (ld32 m c) va = translate m (ld32 m c) va"
    using same by (blast intro: v)+
  ultimately show ?thesis using assms(1) by (simp add: program_at_def)
qed

text \<open>The two ranges of a program do not meet.\<close>

lemma program_above_stack:
  assumes "va - 0x400000 < len" "unat len < 2147483648"
  shows "\<not> va - 0x3FB000 < (0x4000 :: u32)"
proof -
  have x: "unat (va - 0x400000) < 2147483648" using assms by (simp add: word_less_nat_alt)
  have "va - 0x3FB000 = (va - 0x400000) + 0x5000" by simp
  then have "unat (va - 0x3FB000) = unat (va - 0x400000) + 0x5000" using x by (simp only:) (subst unat_add_u32; simp)
  then show ?thesis by (simp add: word_less_nat_alt)
qed

text \<open>Mapping the program into a new address space.\<close>

lemma process_mapped:
  assumes task: "task_fields m t c p" "\<forall>va. translate m (ld32 m c) va = Some (va, False, True)" "chunk_ok m c" "dir_writable m (ld32 m c)"
    and apart: "vspace_pages m c \<inter> (region p 5256 \<union> region t 4096) = {}" "region p 5256 \<inter> region t 4096 = {}"
    and f: "ld32 m (p + 4212) = ptr" "ld32 m (p + 4216) = stk" "ld32 m (p + 4220) = len"
    and al: "page_aligned ptr" "page_aligned stk" "unat ptr + unat len \<le> 4294963200" "unat len < 2147483648"
  obtains m' where "process_map_memory p (st32 m (p + 112) t) = (0, m')" "program_at m' p t c ptr stk len"
    "vspace_pages m' c = vspace_pages m c" "same_outside (region p 5256 \<union> vspace_pages m c) m m'"
proof -
  define m5 where "m5 = st32 m (p + 112) t"
  have sub: "region (p + 112) 4 \<subseteq> region p 5256" using field_subset [of 112 4 5256 p] by simp
  have out5: "same_outside (region p 5256) m m5"
    unfolding m5_def using sub by (intro same_outside_st32_in same_outside_refl)
  have keep5: "m5 a = m a" if "a \<notin> region p 5256" for a using same_outsideD [OF out5 that] .
  have "m5 a = m a" if "a \<in> vspace_pages m c" for a using that apart(1) by (intro keep5) blast
  note v = vspace_kept [OF task(3) this]
  have ok5: "chunk_ok m5 c" using v(2) by simp
  have t: "region t 56 \<subseteq> region t 4096" "region t 64 \<subseteq> region t 4096"
    using field_subset [of 0 56 4096 t] field_subset [of 0 64 4096 t] by simp_all
  have "m5 a = m a" if "a \<in> region t 56" for a using that apart(2) t(1) by (intro keep5) blast
  then have fields5: "task_fields m5 t c p" by (rule task_fields_cong [OF task(1)])
  have w5: "ld32 m5 (p + 112) = t" "ld32 m5 (p + 4212) = ptr" "ld32 m5 (p + 4216) = stk" "ld32 m5 (p + 4220) = len"
    using f by (simp_all add: m5_def ld32_st32_fields)
  define dir where "dir = ld32 m5 c"
  have tc: "ld32 m5 t = c" using fields5 by (simp add: task_fields_def)
  have tab: "tables m5 dir \<subseteq> vspace_pages m c" using v(4) by (auto simp: vspace_pages_def dir_def)
  have apart5: "tables m5 dir \<inter> region p 5256 = {}" "tables m5 dir \<inter> region t 64 = {}" using tab apart(1) t(2) by blast+
  obtain r m' where run: "process_map_memory p m5 = (r, m')" by fastforce
  note map = process_map_memory_spec [where process = p and m = m5, unfolded w5 tc, folded dir_def, OF ok5 al(1,2) apart5 al(3) run]
  define n where "n = process_binary_bytes m5 p"
  have M: "r = 0" "chunk_ok m' c" "same_outside (tables m5 dir) m5 m'" "len \<le> n"
    "\<forall>va. translate m' dir va =
       (if va - 0x3FB000 < 0x4000 then Some (stk + (va - 0x3FB000), perms (pde m5 dir (pdi va)) 7)
        else if va - 0x400000 < n then Some (ptr + (va - 0x400000), perms (pde m5 dir (pdi va)) 7) else translate m5 dir va)"
    unfolding n_def by (insert map, elim conjE, assumption)+
  have d: "ld32 m' c = dir" "vspace_pages m' c = vspace_pages m5 c"
    using tables_write [OF ok5 M(3) [unfolded dir_def]] by (simp_all add: dir_def)
  have perm: "perms (pde m5 dir (pdi va)) 7 = (True, True)" for va
  proof -
    have "translate m5 dir va = Some (va, False, True)" using v(1,3) task(2) by (simp add: dir_def)
    then have "bit (pde m5 dir (pdi va)) 2" by (rule translate_user)
    moreover have "bit (pde m5 dir (pdi va)) 1" using v(1,6) task(4) by (simp add: dir_writable_def dir_def)
    ultimately show ?thesis by (simp add: perms_def)
  qed
  have keep: "m' a = m5 a" if "a \<notin> vspace_pages m c" for a using that tab by (intro same_outsideD [OF M(3)]) blast
  show thesis
  proof (rule that [of m'])
    show "process_map_memory p (st32 m (p + 112) t) = (0, m')" using run M(1) by (simp add: m5_def)
    show "vspace_pages m' c = vspace_pages m c" using d(2) v(4) by simp
    show "same_outside (region p 5256 \<union> vspace_pages m c) m m'" using out5 M(3) tab by (blast intro: same_outside_trans)
    have "m' a = m5 a" if "a \<in> region t 56" for a using that t(1) apart(1) by (intro keep) blast
    then have "task_fields m' t c p" by (rule task_fields_cong [OF fields5])
    moreover have "m' a = m5 a" if "a \<in> region p 5256" for a using that apart(1) by (intro keep) blast
    from ld32_field_kept [where m = m5 and m' = m' and i = 112, OF this] have "ld32 m' (p + 112) = t" using w5(1) by simp
    moreover have "translate m' dir va = Some (ptr + (va - 0x400000), True, True)" if "va - 0x400000 < len" for va
      using M(5) perm program_above_stack [OF that al(4)] order.strict_trans2 [OF that M(4)] by simp
    moreover have "translate m' dir va = Some (stk + (va - 0x3FB000), True, True)" if "va - 0x3FB000 < 0x4000" for va
      using M(5) perm that by simp
    ultimately show "program_at m' p t c ptr stk len" using M(2) d(1) by (simp add: program_at_def)
  qed
qed

text \<open>A task for the filled structure.\<close>

lemma slot_task:
  fixes s :: "('d, 'a) process_state_scheme" and p ptr stk filename :: addr and id :: u16
  defines "m3 \<equiv> st16 (st32 (strncpy (ram s) (p + 2) filename 108) (p + 4216) stk) p id"
  assumes inv: "kheap_inv s" "1027 \<le> kheap_free s" and tasks: "task_list s ts" "\<forall>u\<in>set ts. kheap_page s u \<and> region u 4096 \<inter> region p 5256 = {}"
    and own: "region p 5256 \<subseteq> kheap_owned s" and f: "ld32 (ram s) (p + 4212) = ptr" "ld32 (ram s) (p + 4220) = len"
    and al: "page_aligned ptr" "page_aligned stk" "unat ptr + unat len \<le> 4294963200" "unat len < 2147483648"
  obtains t s5 m6 c where "task_new p (s\<lparr>ram := m3\<rparr>) = (t, s5)" "t \<noteq> 0" "process_map_memory p (st32 (ram s5) (p + 112) t) = (0, m6)"
    "task_list (s5\<lparr>ram := m6\<rparr>) (ts @ [t])" "kheap_inv (s5\<lparr>ram := m6\<rparr>)" "kheap_free (s5\<lparr>ram := m6\<rparr>) = kheap_free s - 1027"
    "kheap_owned s \<subseteq> kheap_owned (s5\<lparr>ram := m6\<rparr>)" "program_at m6 p t c ptr stk len" "(vspace_pages m6 c \<union> region t 4096) \<inter> kheap_owned s = {}"
    "\<forall>a\<in>kheap_owned s. a \<notin> region p 5256 \<longrightarrow> (\<forall>u\<in>set ts. a \<notin> region u 4096) \<longrightarrow> m6 a = ram s a"
    "\<exists>m h l cur. s5 = s\<lparr>ram := m, task_list_head := h, task_list_tail := l, current_task := cur\<rparr>"
proof -
  note fill = process_filled [where p = p and m = "ram s" and filename = filename and stk = stk and id = id, folded m3_def]
  define s3 where "s3 = s\<lparr>ram := m3\<rparr>"
  have "same_outside (kheap_owned s) (ram s) m3" using fill(1) own by (rule same_outside_mono)
  note h3 = kz.write_owned [OF inv(1) this, folded s3_def] kp.write_pages [OF inv(1) this, folded s3_def]
  have keep3: "m3 a = ram s a" if "a \<notin> region p 5256" for a using same_outsideD [OF fill(1) that] .
  have tl3: "task_list s3 ts" using tasks keep3 by (intro task_list_cong [OF tasks(1)]) (auto simp: s3_def simp del: mem_region)
  obtain t s5 where new: "task_new p s3 = (t, s5)" by (cases "task_new p s3")
  have pg3: "\<forall>u\<in>set ts. kheap_page s3 u" using tasks(2) h3(2) by simp
  have inv3: "kheap_inv s3" "kheap_owned s3 = kheap_owned s" "kheap_free s3 = kheap_free s" "ram s3 = m3"
    using h3(1) by (simp_all add: s3_def)
  have "1027 \<le> kheap_free s3" using inv(2) inv3(3) by simp
  note T = task_new_spec [OF inv3(1) this tl3 pg3 new, unfolded inv3(2-4)]
  obtain c where c: "task_fields (ram s5) t c p" "\<forall>va. translate (ram s5) (ld32 (ram s5) c) va = Some (va, False, True)"
    "chunk_ok (ram s5) c" "dir_writable (ram s5) (ld32 (ram s5) c)" "vspace_pages (ram s5) c \<subseteq> kheap_owned s5"
    "vspace_pages (ram s5) c \<inter> (kheap_owned s \<union> region t 4096) = {}"
    using T by (elim conjE exE) blast
  have t: "task_list s5 (ts @ [t])" "kheap_inv s5" "kheap_free s5 = kheap_free s - 1027"
    "t \<noteq> 0" "region t 4096 \<inter> kheap_owned s = {}" "kheap_owned s \<union> region t 4096 \<subseteq> kheap_owned s5"
    "\<forall>a\<in>kheap_owned s. ts = [] \<or> a \<notin> region (last ts + 56) 4 \<longrightarrow> ram s5 a = m3 a"
    "\<exists>m h l cur. s5 = s3\<lparr>ram := m, task_list_head := h, task_list_tail := l, current_task := cur\<rparr>"
    by (insert T, elim conjE, assumption)+
  have apart: "vspace_pages (ram s5) c \<inter> (region p 5256 \<union> region t 4096) = {}" "region p 5256 \<inter> region t 4096 = {}"
    using c(6) own t(5) by blast+
  have old: "ram s5 a = m3 a" if "a \<in> kheap_owned s" "\<forall>u\<in>set ts. a \<notin> region u 4096" for a
  proof -
    have "region (last ts + 56) 4 \<subseteq> region (last ts) 4096" using field_subset [of 56 4 4096 "last ts"] by simp
    then have "ts = [] \<or> a \<notin> region (last ts + 56) 4" using that(2) last_in_set [of ts] by blast
    then show ?thesis using t(7) that(1) by blast
  qed
  have "ram s5 a = m3 a" if "a \<in> region p 5256" for a using that tasks(2) own by (intro old) blast+
  note w = ld32_field_kept [where m' = "ram s5" and m = m3 and p = p and n = 5256, OF this]
  have w5: "ld32 (ram s5) (p + 4212) = ptr" "ld32 (ram s5) (p + 4216) = stk" "ld32 (ram s5) (p + 4220) = len"
    using w [of 4212] w [of 4216] w [of 4220] fill(2-4) f by simp_all
  obtain m6 where M: "process_map_memory p (st32 (ram s5) (p + 112) t) = (0, m6)" "program_at m6 p t c ptr stk len"
    "vspace_pages m6 c = vspace_pages (ram s5) c" "same_outside (region p 5256 \<union> vspace_pages (ram s5) c) (ram s5) m6"
    by (rule process_mapped [OF c(1-4) apart w5 al])
  define s6 where "s6 = s5\<lparr>ram := m6\<rparr>"
  have "region p 5256 \<union> vspace_pages (ram s5) c \<subseteq> kheap_owned s5" using own t(6) c(5) by blast
  note h6 = kz.write_owned [OF t(2) same_outside_mono [OF M(4) this], folded s6_def]
  have keep6: "m6 a = ram s5 a" if "a \<notin> region p 5256" "a \<notin> vspace_pages (ram s5) c" for a
    using that by (intro same_outsideD [OF M(4)]) blast
  have list: "task_list s6 (ts @ [t])"
  proof (rule task_list_cong [OF t(1)])
    fix u a assume u: "u \<in> set (ts @ [t])" "a \<in> region u 4096"
    have "\<forall>u\<in>set ts. region u 4096 \<inter> region p 5256 = {} \<and> region u 4096 \<subseteq> kheap_owned s" using tasks(2) kp.page_owned [OF inv(1)] by blast
    moreover have "u \<in> insert t (set ts)" using u(1) by simp
    ultimately have "a \<notin> region p 5256" "a \<notin> vspace_pages (ram s5) c" using u(2) c(6) apart(2) by blast+
    then show "ram s6 a = ram s5 a" using keep6 by (simp add: s6_def)
  qed (simp_all add: s6_def)
  show thesis
  proof (rule that [of t s5 m6 c])
    show "task_new p (s\<lparr>ram := m3\<rparr>) = (t, s5)" using new by (simp add: s3_def)
    have "m6 a = ram s a" if "a \<in> kheap_owned s" "a \<notin> region p 5256" "\<forall>u\<in>set ts. a \<notin> region u 4096" for a
    proof -
      have "a \<notin> vspace_pages (ram s5) c" using that(1) c(6) by blast
      then show ?thesis using keep6 [OF that(2)] old [OF that(1,3)] keep3 [OF that(2)] by simp
    qed
    then show "\<forall>a\<in>kheap_owned s. a \<notin> region p 5256 \<longrightarrow> (\<forall>u\<in>set ts. a \<notin> region u 4096) \<longrightarrow> m6 a = ram s a" by blast
    show "(vspace_pages m6 c \<union> region t 4096) \<inter> kheap_owned s = {}" using M(3) c(6) t(5) by blast
  qed (use h6 t M list in \<open>simp_all add: s3_def s6_def\<close>)
qed

section \<open>The free slot\<close>

lemma free_slot_loop_spec:
  assumes "i < 12" "ld32 m (tbl + 4 * of_nat i) = 0" "\<forall>j<i. ld32 m (tbl + 4 * of_nat j) \<noteq> 0" "j \<le> i"
  shows "free_slot_loop m tbl (of_nat j) = of_nat i"
  using assms(4)
proof (induction "i - j" arbitrary: j)
  case 0
  then have "j = i" by simp
  moreover have "of_nat i <s (12 :: u32)" using of_nat_u32_sless [of i 12] assms(1) by simp
  ultimately show ?case using assms(2) by (subst free_slot_loop.simps) simp
next
  case (Suc x)
  then have j: "j < i" by simp
  then have "of_nat j <s (12 :: u32)" using of_nat_u32_sless [of j 12] assms(1) by simp
  moreover have "free_slot_loop m tbl (of_nat (Suc j)) = of_nat i" using Suc.hyps j by (intro Suc.hyps(1)) auto
  ultimately show ?case using assms(3) j by (subst free_slot_loop.simps) (simp add: add.commute)
qed

lemma free_slot:
  assumes "i < 12" "ld32 (ram s) (processes s + 4 * of_nat i) = 0" "\<forall>j<i. ld32 (ram s) (processes s + 4 * of_nat j) \<noteq> 0"
  shows "process_get_free_slot s = of_nat i" "process_get (of_nat i) s = 0" "\<not> of_nat i <s (0 :: u32)"
  using free_slot_loop_spec [OF assms, of 0] assms(2) sint_of_nat_u32 [of i] assms(1)
  by (simp_all add: process_get_free_slot_def process_get_def word_sless_alt)

lemma process_load_run:
  assumes "process_get_free_slot s = of_nat i" "process_get (of_nat i) s = 0" "\<not> of_nat i <s (0 :: u32)"
    and "kZalloc 5256 s = (p, s1)" "p \<noteq> 0" "process_load_data fss filename p (process_init p s1) = Some (0, s3)"
    and "kZalloc 16384 s3 = (stk, s4)" "stk \<noteq> 0"
    and "task_new p (s4\<lparr>ram := st16 (st32 (strncpy (ram s4) (p + 2) filename 108) (p + 4216) stk) p (ucast (of_nat i :: u32))\<rparr>) = (t, s5)" "t \<noteq> 0"
    and "process_map_memory p (st32 (ram s5) (p + 112) t) = (0, m6)"
  shows "process_load fss filename process s = Some (0, s5\<lparr>ram := st32 (st32 m6 process p) (processes s5 + 4 * of_nat i) p\<rparr>)"
  using assms by (simp add: process_load_def process_load_for_slot_def load_slot_body_def ISERR_def Let_def)

text \<open>From the path to the mapped program, before the process is entered in the table.\<close>

lemma slot_program:
  fixes s :: "('d, 'a) process_state_scheme" and es :: "(u8 list \<times> u8 list) list" and ys :: "u8 list" and i :: nat
  defines "h \<equiv> length (hits ys es 0)" and "len \<equiv> program_length s es ys" and "start \<equiv> program_start s es ys"
  defines "k \<equiv> run_blocks len"
  assumes ok: "loadable fss io filename ys es s" and dev: "ata_device io xfer data"
    and heap: "1034 + 2 * h + k \<le> kheap_free s" "kheap_room s l" "(18 + 6 * h) * k \<le> l" "(4 + 2 * h + k) * 4 \<le> l"
    and slot: "i < 12" "ld32 (ram s) (processes s + 4 * of_nat i) = 0" "\<forall>j<i. ld32 (ram s) (processes s + 4 * of_nat j) \<noteq> 0"
    and tasks: "task_list s ts" "\<forall>u\<in>set ts. kheap_page s u \<and> region u 4096 \<inter> load_writes s = {}"
  obtains s6 p t c ptr stk where
    "process_load fss filename process s = Some (0, s6\<lparr>ram := st32 (st32 (ram s6) process p) (processes s + 4 * of_nat i) p\<rparr>)"
    "p \<noteq> 0" "program_at (ram s6) p t c ptr stk len" "\<forall>j<unat len. ram s6 (ptr + of_nat j) = disk_byte data (start + j)"
    "(program_bytes (ram s6) p t c \<union> region ptr len) \<inter> kheap_owned s = {}" "task_list s6 (ts @ [t])"
    "kheap_inv s6" "kheap_free s6 + 1034 + 2 * h + k = kheap_free s" "kheap_owned s \<subseteq> kheap_owned s6"
    "fd_table s6 = fd_table s" "file_descriptors s6 = file_descriptors s"
    "\<forall>a\<in>kheap_owned s - load_writes s. (\<forall>u\<in>set ts. a \<notin> region u 4096) \<longrightarrow> ram s6 a = ram s a"
    "\<exists>m d h l cur. s6 = s\<lparr>ram := m, dev := d, task_list_head := h, task_list_tail := l, current_task := cur\<rparr>"
proof -
  have f9: "9 + 2 * length (hits ys es 0) \<le> kheap_free s" using heap(1) by (simp add: h_def)
  note run = slot_memory [OF ok dev f9 heap(2) heap(3,4) [unfolded h_def k_def len_def], folded len_def start_def h_def, folded k_def]
  obtain p ptr stk s1 s3 s4 R where mem: "kZalloc 5256 s = (p, s1)" "p \<noteq> 0"
    "process_load_data fss filename p (process_init p s1) = Some (0, s3)" "kZalloc 16384 s3 = (stk, s4)" "stk \<noteq> 0"
    "io_extends s s4 R (7 + 2 * h + k) (load_writes s)" "region p 5256 \<union> run_bytes ptr k \<union> run_bytes stk 4 \<subseteq> R"
    "region p 5256 \<inter> run_bytes ptr k = {}" "page_aligned ptr" "unat ptr + 4096 * k \<le> 121634816" "page_aligned stk"
    "ld32 (ram s4) (p + 4212) = ptr" "ld32 (ram s4) (p + 4220) = len"
    "\<forall>i<unat len. ram s4 (ptr + of_nat i) = disk_byte data (start + i)" "fd_table s4 = fd_table s"
    by (rule run)
  note h4 = io_extends_heap [OF mem(6)] and g4 = io_extends_globals [OF mem(6)] io_extends_process_globals [OF mem(6)]
  have taskR: "region u 4096 \<subseteq> kheap_owned s - load_writes s" if "u \<in> set ts" for u
    using tasks(2) that kp.page_owned [OF h4(1)] by blast
  have "ram s4 a = ram s a" if "u \<in> set ts" "a \<in> region u 4096" for u a
    using taskR [OF that(1)] that(2) by (intro io_extends_keeps [OF mem(6)]) blast+
  then have tl4: "task_list s4 ts" using g4 by (intro task_list_cong [OF tasks(1)])
  have R: "region p 5256 \<subseteq> kheap_owned s4" "region p 5256 \<inter> kheap_owned s = {}" "run_bytes ptr k \<subseteq> kheap_owned s4" "run_bytes ptr k \<inter> kheap_owned s = {}"
    using mem(7) h4(3,4) by blast+
  have pg4: "\<forall>u\<in>set ts. kheap_page s4 u \<and> region u 4096 \<inter> region p 5256 = {}" using tasks(2) h4(6) taskR R(2) by blast
  have f4: "1027 \<le> kheap_free s4" using h4(5) heap(1) by simp
  have small: "unat len \<le> 4096 * k" unfolding k_def run_blocks_def by linarith
  have ptr: "unat ptr + unat len \<le> 4294963200" "unat len < 2147483648" "unat len \<le> 4294963200" using small mem(10) by linarith+
  let ?id = "ucast (of_nat i :: u32) :: u16"
  obtain t s5 m6 c where task: "task_new p (s4\<lparr>ram := st16 (st32 (strncpy (ram s4) (p + 2) filename 108) (p + 4216) stk) p ?id\<rparr>) = (t, s5)"
    "t \<noteq> 0" "process_map_memory p (st32 (ram s5) (p + 112) t) = (0, m6)" "task_list (s5\<lparr>ram := m6\<rparr>) (ts @ [t])"
    "kheap_inv (s5\<lparr>ram := m6\<rparr>)" "kheap_free (s5\<lparr>ram := m6\<rparr>) = kheap_free s4 - 1027" "kheap_owned s4 \<subseteq> kheap_owned (s5\<lparr>ram := m6\<rparr>)"
    "program_at m6 p t c ptr stk len" "(vspace_pages m6 c \<union> region t 4096) \<inter> kheap_owned s4 = {}"
    "\<forall>a\<in>kheap_owned s4. a \<notin> region p 5256 \<longrightarrow> (\<forall>u\<in>set ts. a \<notin> region u 4096) \<longrightarrow> m6 a = ram s4 a"
    "\<exists>m h l cur. s5 = s4\<lparr>ram := m, task_list_head := h, task_list_tail := l, current_task := cur\<rparr>"
    by (rule slot_task [OF h4(2) f4 tl4 pg4 R(1) mem(12,13,9,11) ptr(1,2)])
  have g5: "processes s5 = processes s" "file_descriptors s5 = file_descriptors s" using task(11) g4 by auto
  have bytes: "region ptr len \<subseteq> run_bytes ptr k" using run_bytes_region [OF ptr(3)] by (simp add: k_def)
  show thesis
  proof (rule that [of "s5\<lparr>ram := m6\<rparr>" p t c ptr stk])
    show "process_load fss filename process s = Some (0, s5\<lparr>ram := m6\<rparr>\<lparr>ram := st32 (st32 (ram (s5\<lparr>ram := m6\<rparr>)) process p) (processes s + 4 * of_nat i) p\<rparr>)"
      using process_load_run [OF free_slot [OF slot] mem(1-5) task(1-3)] g5(1) by simp
    show "\<forall>j<unat len. ram (s5\<lparr>ram := m6\<rparr>) (ptr + of_nat j) = disk_byte data (start + j)"
    proof (intro allI impI)
      fix j assume j: "j < unat len"
      then have "ptr + of_nat j \<in> run_bytes ptr k" using subsetD [OF bytes of_nat_in_region] by blast
      then have "ptr + of_nat j \<in> kheap_owned s4" "ptr + of_nat j \<notin> region p 5256" "\<forall>u\<in>set ts. ptr + of_nat j \<notin> region u 4096"
        using R(3,4) mem(8) taskR by blast+
      then have "m6 (ptr + of_nat j) = ram s4 (ptr + of_nat j)" using task(10) by blast
      then show "ram (s5\<lparr>ram := m6\<rparr>) (ptr + of_nat j) = disk_byte data (start + j)" using mem(14) j by simp
    qed
    show "(program_bytes (ram (s5\<lparr>ram := m6\<rparr>)) p t c \<union> region ptr len) \<inter> kheap_owned s = {}"
      using R(2,4) bytes task(9) h4(3) unfolding program_bytes_def by (simp del: mem_region) blast
    show "kheap_free (s5\<lparr>ram := m6\<rparr>) + 1034 + 2 * h + k = kheap_free s" using task(6) h4(5) f4 by simp
    show "kheap_owned s \<subseteq> kheap_owned (s5\<lparr>ram := m6\<rparr>)" using task(7) h4(3) by blast
    have "fd_table (s5\<lparr>ram := m6\<rparr>) = fd_table s4"
    proof (rule fd_table_cong)
      show "file_descriptors (s5\<lparr>ram := m6\<rparr>) = file_descriptors s4" using g5(2) g4(2) by simp
      have "region (file_descriptors s) 2048 \<subseteq> kheap_owned s" using ok unfolding loadable_def mounted_def by blast
      then have "region (file_descriptors s4) 2048 \<subseteq> kheap_owned s4 - region p 5256"
        "\<forall>u\<in>set ts. region (file_descriptors s4) 2048 \<inter> region u 4096 = {}"
        unfolding g4(2) using h4(3) R(2) taskR by blast+
      then have "m6 a = ram s4 a" if "a \<in> region (file_descriptors s4) 2048" for a using that task(10) by blast
      then show "ram (s5\<lparr>ram := m6\<rparr>) a = ram s4 a" if "a \<in> region (file_descriptors s4) 2048" for a using that by simp
    qed
    then show "fd_table (s5\<lparr>ram := m6\<rparr>) = fd_table s" using mem(15) by simp
    show "\<forall>a\<in>kheap_owned s - load_writes s. (\<forall>u\<in>set ts. a \<notin> region u 4096) \<longrightarrow> ram (s5\<lparr>ram := m6\<rparr>) a = ram s a"
    proof (intro ballI impI)
      fix a assume a: "a \<in> kheap_owned s - load_writes s" "\<forall>u\<in>set ts. a \<notin> region u 4096"
      then have "a \<in> kheap_owned s4" "a \<notin> region p 5256" using h4(3) R(2) by blast+
      then have "m6 a = ram s4 a" using task(10) a(2) by blast
      then show "ram (s5\<lparr>ram := m6\<rparr>) a = ram s a" using io_extends_keeps [OF mem(6), of a] a(1) by simp
    qed
    show "\<exists>m d h l cur. s5\<lparr>ram := m6\<rparr> = s\<lparr>ram := m, dev := d, task_list_head := h, task_list_tail := l, current_task := cur\<rparr>"
    proof -
      obtain m h l cur where "s5 = s4\<lparr>ram := m, task_list_head := h, task_list_tail := l, current_task := cur\<rparr>" using task(11) by blast
      moreover have "s4 = s\<lparr>ram := ram s4, dev := dev s4\<rparr>" by (rule io_extends_state [OF mem(6)])
      then obtain m' d where "s4 = s\<lparr>ram := m', dev := d\<rparr>" by blast
      ultimately have "s5\<lparr>ram := m6\<rparr> = s\<lparr>ram := m6, dev := d, task_list_head := h, task_list_tail := l, current_task := cur\<rparr>" by simp
      then show ?thesis by blast
    qed
  qed (use mem(2) task g5 in simp_all)
qed

text \<open>Entering the process in the table.\<close>

lemma process_load_spec:
  fixes s :: "('d, 'a) process_state_scheme" and es :: "(u8 list \<times> u8 list) list" and ys :: "u8 list" and i :: nat and process :: addr
  defines "h \<equiv> length (hits ys es 0)" and "len \<equiv> program_length s es ys" and "start \<equiv> program_start s es ys"
  defines "k \<equiv> run_blocks len" and "vars \<equiv> region process 4 \<union> region (processes s) 48"
  assumes ok: "loadable fss io filename ys es s" and dev: "ata_device io xfer data"
    and heap: "1034 + 2 * h + k \<le> kheap_free s" "kheap_room s l" "(18 + 6 * h) * k \<le> l" "(4 + 2 * h + k) * 4 \<le> l"
    and slot: "i < 12" "ld32 (ram s) (processes s + 4 * of_nat i) = 0" "\<forall>j<i. ld32 (ram s) (processes s + 4 * of_nat j) \<noteq> 0"
    and tasks: "task_list s ts" "\<forall>u\<in>set ts. kheap_page s u \<and> region u 4096 \<inter> (load_writes s \<union> vars) = {}"
    and vars: "vars \<subseteq> kheap_owned s - load_writes s" "region process 4 \<inter> region (processes s) 48 = {}"
  obtains s' p t c ptr stk where "process_load fss filename process s = Some (0, s')" "p \<noteq> 0"
    "ld32 (ram s') process = p" "ld32 (ram s') (processes s + 4 * of_nat i) = p" "program_at (ram s') p t c ptr stk len"
    "\<forall>j<unat len. ram s' (ptr + of_nat j) = disk_byte data (start + j)" "task_list s' (ts @ [t])"
    "fd_table s' = fd_table s" "kheap_inv s'" "kheap_free s' + 1034 + 2 * h + k = kheap_free s"
    "\<forall>a\<in>kheap_owned s - (load_writes s \<union> vars). (\<forall>u\<in>set ts. a \<notin> region u 4096) \<longrightarrow> ram s' a = ram s a"
    "\<exists>m d h l cur. s' = s\<lparr>ram := m, dev := d, task_list_head := h, task_list_tail := l, current_task := cur\<rparr>"
proof -
  have tasks': "\<forall>u\<in>set ts. kheap_page s u \<and> region u 4096 \<inter> load_writes s = {}" using tasks(2) by blast
  note run = slot_program [OF ok dev heap [unfolded h_def k_def len_def] slot tasks(1) tasks', folded len_def start_def h_def, folded k_def]
  obtain s6 p t c ptr stk where
    r: "process_load fss filename process s = Some (0, s6\<lparr>ram := st32 (st32 (ram s6) process p) (processes s + 4 * of_nat i) p\<rparr>)"
    "p \<noteq> 0" "program_at (ram s6) p t c ptr stk len" "\<forall>j<unat len. ram s6 (ptr + of_nat j) = disk_byte data (start + j)"
    "(program_bytes (ram s6) p t c \<union> region ptr len) \<inter> kheap_owned s = {}" "task_list s6 (ts @ [t])"
    "kheap_inv s6" "kheap_free s6 + 1034 + 2 * h + k = kheap_free s" "kheap_owned s \<subseteq> kheap_owned s6"
    "fd_table s6 = fd_table s" "file_descriptors s6 = file_descriptors s"
    "\<forall>a\<in>kheap_owned s - load_writes s. (\<forall>u\<in>set ts. a \<notin> region u 4096) \<longrightarrow> ram s6 a = ram s a"
    "\<exists>m d h l cur. s6 = s\<lparr>ram := m, dev := d, task_list_head := h, task_list_tail := l, current_task := cur\<rparr>"
    by (rule run)
  define m8 where "m8 = st32 (st32 (ram s6) process p) (processes s + 4 * of_nat i) p"
  have entry: "region (processes s + 4 * of_nat i) 4 \<subseteq> region (processes s) 48"
  proof -
    have "unat (4 * of_nat i :: u32) = 4 * i" using slot(1) by (subst unat_mult_u32) (simp_all add: unat_of_nat)
    then show ?thesis using slot(1) by (intro field_subset) simp
  qed
  have w8: "same_outside vars (ram s6) m8"
    unfolding m8_def vars_def using entry by (intro same_outside_st32_in same_outside_refl) blast+
  have own: "vars \<subseteq> kheap_owned s" "vars \<subseteq> kheap_owned s6" using vars(1) r(9) by blast+
  note h8 = kz.write_owned [OF r(7) same_outside_mono [OF w8 own(2)]]
  have keep: "m8 a = ram s6 a" if "a \<notin> vars" for a using same_outsideD [OF w8 that] .
  show thesis
  proof (rule that [of "s6\<lparr>ram := m8\<rparr>" p t c ptr stk])
    have "region process 4 \<inter> region (processes s + 4 * of_nat i) 4 = {}" using vars(2) entry by blast
    then show "ld32 (ram (s6\<lparr>ram := m8\<rparr>)) process = p"
      unfolding m8_def by (simp del: mem_region) (subst ld32_same_outside [OF same_outside_st32]; simp)
    have "m8 a = ram s6 a" if "a \<in> program_bytes (ram s6) p t c" for a using that r(5) own(1) by (intro keep) blast
    then show "program_at (ram (s6\<lparr>ram := m8\<rparr>)) p t c ptr stk len" using program_at_kept [OF r(3)] by simp
    have "m8 (ptr + of_nat j) = ram s6 (ptr + of_nat j)" if "j < unat len" for j
      using of_nat_in_region [OF that, of ptr] r(5) own(1) by (intro keep) blast
    then show "\<forall>j<unat len. ram (s6\<lparr>ram := m8\<rparr>) (ptr + of_nat j) = disk_byte data (start + j)" using r(4) by simp
    show "task_list (s6\<lparr>ram := m8\<rparr>) (ts @ [t])"
    proof (rule task_list_cong [OF r(6)])
      fix u a assume u: "u \<in> set (ts @ [t])" "a \<in> region u 4096"
      have "region t 4096 \<inter> vars = {}" "\<forall>u\<in>set ts. region u 4096 \<inter> vars = {}"
        using tasks(2) r(5) own(1) unfolding program_bytes_def by blast+
      moreover have "u \<in> insert t (set ts)" using u(1) by simp
      ultimately have "a \<notin> vars" using u(2) by blast
      then show "ram (s6\<lparr>ram := m8\<rparr>) a = ram s6 a" using keep by simp
    qed simp_all
    have "region (file_descriptors s6) 2048 \<inter> vars = {}" unfolding r(11) using vars(1) by blast
    then have "m8 a = ram s6 a" if "a \<in> region (file_descriptors s6) 2048" for a using that by (intro keep) blast
    then have "fd_table (s6\<lparr>ram := m8\<rparr>) = fd_table s6" by (intro fd_table_cong) simp_all
    then show "fd_table (s6\<lparr>ram := m8\<rparr>) = fd_table s" using r(10) by simp
    show "\<forall>a\<in>kheap_owned s - (load_writes s \<union> vars). (\<forall>u\<in>set ts. a \<notin> region u 4096) \<longrightarrow> ram (s6\<lparr>ram := m8\<rparr>) a = ram s a"
    proof (intro ballI impI)
      fix a assume a: "a \<in> kheap_owned s - (load_writes s \<union> vars)" "\<forall>u\<in>set ts. a \<notin> region u 4096"
      then have "a \<in> kheap_owned s - load_writes s" "a \<notin> vars" by blast+
      then show "ram (s6\<lparr>ram := m8\<rparr>) a = ram s a" using r(12) a(2) keep by simp
    qed
    show "\<exists>m d h l cur. s6\<lparr>ram := m8\<rparr> = s\<lparr>ram := m, dev := d, task_list_head := h, task_list_tail := l, current_task := cur\<rparr>"
    proof -
      obtain m d h l cur where "s6 = s\<lparr>ram := m, dev := d, task_list_head := h, task_list_tail := l, current_task := cur\<rparr>" using r(13) by blast
      then have "s6\<lparr>ram := m8\<rparr> = s\<lparr>ram := m8, dev := d, task_list_head := h, task_list_tail := l, current_task := cur\<rparr>" by simp
      then show ?thesis by blast
    qed
  qed (use r(1,2,8,9) h8 entry in \<open>simp_all add: m8_def del: mem_region\<close>)
qed

end
