(* ===== verification/Program_Run.thy ===== *)
theory Program_Run
  imports Program_Start
begin

text \<open>
  \<open>process_load_switch\<close> of \<^verbatim>\<open>task/process.c\<close>, which the kernel starts its first program with: the program runs
  in its own address space, or, when there is no such file, the caller is told.
\<close>

section \<open>The current process\<close>

lemma current_process_state:
  fixes s :: "('d, 'a) process_state_scheme"
  shows "task_list (s\<lparr>current_process := p\<rparr>) ts = task_list s ts" "fd_table (s\<lparr>current_process := p\<rparr>) = fd_table s"
    "kheap_inv (s\<lparr>current_process := p\<rparr>) = kheap_inv s" "kheap_free (s\<lparr>current_process := p\<rparr>) = kheap_free s"
  by (simp_all add: task_list_def fd_table_def kheap_inv_def kheap_free_def)

lemma process_load_switch_run:
  "process_load fss filename process s = Some (0, s') \<Longrightarrow>
    process_load_switch fss filename process s = Some (0, s'\<lparr>current_process := ld32 (ram s') process\<rparr>)"
  by (simp add: process_load_switch_def process_switch_def)

text \<open>The program sees the bytes at its first address, and a stack.\<close>

lemma program_at_sees:
  assumes "program_at m p t c ptr stk len" "\<forall>j<unat len. m (ptr + of_nat j) = b j"
  shows "\<forall>j<unat len. \<exists>a. translate m (ld32 m c) (0x400000 + of_nat j) = Some (a, True, True) \<and> m a = b j"
    "\<forall>va. va - 0x3FB000 < 0x4000 \<longrightarrow> translate m (ld32 m c) va = Some (stk + (va - 0x3FB000), True, True)"
    "ld32 m (p + 112) = t" "task_fields m t c p"
proof -
  have "translate m (ld32 m c) (0x400000 + of_nat j) = Some (ptr + of_nat j, True, True)" if "j < unat len" for j
  proof -
    have "of_nat j < len" using that by (metis le_less_trans mod_less_eq_dividend unat_of_nat word_less_nat_alt)
    then show ?thesis using assms(1) unfolding program_at_def by simp
  qed
  then show "\<forall>j<unat len. \<exists>a. translate m (ld32 m c) (0x400000 + of_nat j) = Some (a, True, True) \<and> m a = b j"
    using assms(2) by blast
qed (use assms(1) in \<open>simp_all add: program_at_def\<close>)

lemma process_load_switch_spec:
  fixes s :: "('d, 'a) process_state_scheme" and es :: "(u8 list \<times> u8 list) list" and ys :: "u8 list" and i :: nat and process :: addr
  defines "h \<equiv> length (hits ys es 0)" and "len \<equiv> program_length s es ys" and "start \<equiv> program_start s es ys"
  defines "k \<equiv> run_blocks len" and "vars \<equiv> region process 4 \<union> region (processes s) 48"
  assumes "loadable fss io filename ys es s" "ata_device io xfer data"
    and "1034 + 2 * h + k \<le> kheap_free s" "kheap_room s l" "(18 + 6 * h) * k \<le> l" "(4 + 2 * h + k) * 4 \<le> l"
    and "i < 12" "ld32 (ram s) (processes s + 4 * of_nat i) = 0" "\<forall>j<i. ld32 (ram s) (processes s + 4 * of_nat j) \<noteq> 0"
    and "task_list s ts" "\<forall>u\<in>set ts. kheap_page s u \<and> region u 4096 \<inter> (load_writes s \<union> vars) = {}"
    and "vars \<subseteq> kheap_owned s - load_writes s" "region process 4 \<inter> region (processes s) 48 = {}"
  obtains s' p t c stk where "process_load_switch fss filename process s = Some (0, s')" "p \<noteq> 0" "current_process s' = p"
    "ld32 (ram s') process = p" "ld32 (ram s') (processes s + 4 * of_nat i) = p"
    "ld32 (ram s') (p + 112) = t" "task_fields (ram s') t c p" "task_list s' (ts @ [t])"
    "\<forall>j<unat len. \<exists>a. translate (ram s') (ld32 (ram s') c) (0x400000 + of_nat j) = Some (a, True, True) \<and>
       ram s' a = disk_byte data (start + j)"
    "\<forall>va. va - 0x3FB000 < 0x4000 \<longrightarrow> translate (ram s') (ld32 (ram s') c) va = Some (stk + (va - 0x3FB000), True, True)"
    "fd_table s' = fd_table s" "kheap_inv s'" "kheap_free s' + 1034 + 2 * h + k = kheap_free s"
    "\<forall>a\<in>kheap_owned s - (load_writes s \<union> vars). (\<forall>u\<in>set ts. a \<notin> region u 4096) \<longrightarrow> ram s' a = ram s a"
    "\<exists>m d h l cur. s' = s\<lparr>ram := m, dev := d, task_list_head := h, task_list_tail := l, current_task := cur, current_process := p\<rparr>"
proof -
  note run = process_load_spec [OF assms(6-7) assms(8-18) [unfolded h_def k_def len_def vars_def], folded len_def start_def h_def,
      folded k_def vars_def]
  obtain s' p t c ptr stk where r: "process_load fss filename process s = Some (0, s')" "p \<noteq> 0"
    "ld32 (ram s') process = p" "ld32 (ram s') (processes s + 4 * of_nat i) = p" "program_at (ram s') p t c ptr stk len"
    "\<forall>j<unat len. ram s' (ptr + of_nat j) = disk_byte data (start + j)" "task_list s' (ts @ [t])"
    "fd_table s' = fd_table s" "kheap_inv s'" "kheap_free s' + 1034 + 2 * h + k = kheap_free s"
    "\<forall>a\<in>kheap_owned s - (load_writes s \<union> vars). (\<forall>u\<in>set ts. a \<notin> region u 4096) \<longrightarrow> ram s' a = ram s a"
    "\<exists>m d h l cur. s' = s\<lparr>ram := m, dev := d, task_list_head := h, task_list_tail := l, current_task := cur\<rparr>"
    by (rule run)
  note sees = program_at_sees [OF r(5,6)]
  show thesis
  proof (rule that [of "s'\<lparr>current_process := p\<rparr>" p t c stk])
    show "process_load_switch fss filename process s = Some (0, s'\<lparr>current_process := p\<rparr>)" using process_load_switch_run [OF r(1)] r(3) by simp
    obtain m d h l cur where "s' = s\<lparr>ram := m, dev := d, task_list_head := h, task_list_tail := l, current_task := cur\<rparr>" using r(12) by blast
    then have "s'\<lparr>current_process := p\<rparr> = s\<lparr>ram := m, dev := d, task_list_head := h, task_list_tail := l, current_task := cur, current_process := p\<rparr>"
      by simp
    then show "\<exists>m d h l cur. s'\<lparr>current_process := p\<rparr> =
      s\<lparr>ram := m, dev := d, task_list_head := h, task_list_tail := l, current_task := cur, current_process := p\<rparr>" by blast
  qed (use r(2-4,7-11) sees in \<open>simp_all add: current_process_state\<close>)
qed

text \<open>C3. From the path of a file to a running process.  On a mounted volume with a non-empty file of that name, not longer than a
  cluster, in the root directory, with a free slot in the table of processes and room in the heap, \<open>process_load_switch\<close> succeeds:
  the new process is the current one, stands in the caller's variable and in the slot, and its task is the last of the list of
  tasks.  In the address space of the task the bytes of the disk from the file's first sector on stand at 0x400000 and on, and 16
  KiB of stack stand below 0x3FF000, all readable and writable in user mode.  The file is closed again, the heap has the pages of
  the process less, and the other memory in use, older tasks apart, is as it was.\<close>

theorem process_load_switch_starts:
  fixes s :: "('d, 'a) process_state_scheme" and es :: "(u8 list \<times> u8 list) list" and ys :: "u8 list" and i :: nat and process :: addr
  defines "h \<equiv> length (hits ys es 0)" and "len \<equiv> program_length s es ys" and "start \<equiv> program_start s es ys"
  defines "k \<equiv> run_blocks len" and "vars \<equiv> region process 4 \<union> region (processes s) 48"
  assumes "loadable fss io filename ys es s" "ata_device io xfer data"
    and "1034 + 2 * h + k \<le> kheap_free s" "kheap_room s l" "(18 + 6 * h) * k \<le> l" "(4 + 2 * h + k) * 4 \<le> l"
    and "i < 12" "ld32 (ram s) (processes s + 4 * of_nat i) = 0" "\<forall>j<i. ld32 (ram s) (processes s + 4 * of_nat j) \<noteq> 0"
    and "task_list s ts" "\<forall>u\<in>set ts. kheap_page s u \<and> region u 4096 \<inter> (load_writes s \<union> vars) = {}"
    and "vars \<subseteq> kheap_owned s - load_writes s" "region process 4 \<inter> region (processes s) 48 = {}"
  shows "\<exists>s' p t c stk. process_load_switch fss filename process s = Some (0, s') \<and> p \<noteq> 0 \<and> current_process s' = p \<and>
    ld32 (ram s') process = p \<and> ld32 (ram s') (processes s + 4 * of_nat i) = p \<and>
    ld32 (ram s') (p + 112) = t \<and> task_fields (ram s') t c p \<and> task_list s' (ts @ [t]) \<and>
    (\<forall>j<unat len. \<exists>a. translate (ram s') (ld32 (ram s') c) (0x400000 + of_nat j) = Some (a, True, True) \<and>
       ram s' a = disk_byte data (start + j)) \<and>
    (\<forall>va. va - 0x3FB000 < 0x4000 \<longrightarrow> translate (ram s') (ld32 (ram s') c) va = Some (stk + (va - 0x3FB000), True, True)) \<and>
    fd_table s' = fd_table s \<and> kheap_inv s' \<and> kheap_free s' + 1034 + 2 * h + k = kheap_free s \<and>
    (\<forall>a\<in>kheap_owned s - (load_writes s \<union> vars). (\<forall>u\<in>set ts. a \<notin> region u 4096) \<longrightarrow> ram s' a = ram s a)"
  unfolding h_def len_def start_def k_def vars_def
  by (rule process_load_switch_spec [OF assms(6-7) assms(8-18) [unfolded h_def k_def len_def vars_def]]) blast

section \<open>An example\<close>

text \<open>The volume of \<open>demo_mounted\<close> in a machine without processes.\<close>

definition demo_loader :: "model_drive process_state" where
  "demo_loader =
     task_state.extend (fs_state.extend demo_mounted (task_state.fields 0 0 0 0 0x10)) (process_state.fields 0 0x2A000 0x26000)"

lemma demo_loader_state:
  "disk demo_loader = 0x20000" "file_descriptors demo_loader = 0x24000" "kstack demo_loader = 0x1F0000"
  "kernelHeap demo_loader = kernel_heap" "ram demo_loader = demo_root" "task_list_head demo_loader = 0"
  "processes demo_loader = 0x2A000" "rodata demo_loader = 0x26000" "current_process demo_loader = 0"
  by (simp_all add: demo_loader_def fs_state.defs task_state.defs process_state.defs flip: demo_mounted_state)

text \<open>The volume and the heap depend on the fields of \<open>fs_state\<close> only.\<close>

lemma demo_loader_heap:
  "kheap_inv demo_loader" "kheap_free demo_loader = 25600" "kheap_owned demo_loader = kheap_owned demo_mounted" "kheap_room demo_loader 25600"
proof -
  note st = demo_loader_state demo_mounted_state
  show "kheap_inv demo_loader" "kheap_free demo_loader = 25600" "kheap_owned demo_loader = kheap_owned demo_mounted"
    using demo_mounted_ready(1,2) by (simp_all add: kheap_inv_def kheap_free_def kheap_owned_def st)
  have "kheap_room demo_ready 25600" unfolding demo_ready_def by (rule KheapInit_room)
  then have "kheap_room demo_mounted 25600" using kr.extends_room [OF kr.grows_extends [OF demo_mounted_heap], of 25600 25600] by simp
  then show "kheap_room demo_loader 25600" by (simp add: kheap_room_def st)
qed

lemma demo_loader_volume:
  "mounted demo_loader [([66], [])]" "root_dir demo_loader = 0x21040" "fd_table demo_loader = fd_table demo_mounted"
  using demo_mounted_volume demo_files(1) demo_loader_heap(1,3) demo_mounted_ready(1)
  by (simp_all add: mounted_def dir_ok_def disk_bytes_def root_dir_def fd_table_def demo_loader_state demo_mounted_state)

lemma demo_loader_slot:
  "ld32 demo_root 0x2A000 = 0" "task_list demo_loader []"
  by (simp add: demo_root_def ld32_st32 del: st32_def, simp add: ld32_def) (simp add: task_list_def task_links_def demo_loader_state)

lemma demo_loader_program:
  "program_item demo_loader [([66], [])] [98] = 0x23000" "program_length demo_loader [([66], [])] [98] = 600"
  "program_start demo_loader [([66], [])] [98] = 22528" "cluster_bytes demo_loader = 2048"
proof -
  show "program_item demo_loader [([66], [])] [98] = 0x23000"
    using demo_files(2) by (simp add: program_item_def demo_hits demo_loader_volume(2) demo_loader_state)
  then show "program_length demo_loader [([66], [])] [98] = 600" "program_start demo_loader [([66], [])] [98] = 22528" "cluster_bytes demo_loader = 2048"
    using demo_root_words demo_root_bytes
    by (simp_all add: program_length_def program_start_def cluster_bytes_def demo_loader_state fat16_cluster_to_sector_def
        fat16_get_first_cluster_def ld16_def)
qed

lemma demo_loader_apart:
  assumes "0x25000 \<le> unat p" "unat p + unat n \<le> 0x1F0000"
  shows "region p n \<subseteq> kheap_owned demo_loader - load_writes demo_loader"
proof -
  have "region p n \<subseteq> kheap_owned demo_loader" using demo_region [of p n] assms by (simp add: demo_loader_heap(3) del: mem_region)
  moreover have "file_stream demo_root 0x20000 = 0x22000" using demo_root_words by (simp add: file_stream_def)
  then have "region p n \<inter> load_writes demo_loader = {}"
    using assms unfolding demo_loader_state by (auto simp: region_unat simp del: mem_region)
  ultimately show ?thesis by blast
qed

lemma demo_loader_loadable:
  "loadable (\<lambda>_. fat16_functions (model_ports demo_content)) (model_ports demo_content) 0x25000 [98] [([66], [])] demo_loader"
proof -
  have "region 0x1F0094 8 \<subseteq> kheap_owned demo_mounted" using demo_region [of "0x1F0094" 8] by (simp del: mem_region)
  moreover have "disk_bytes demo_loader = region 0x20000 20 \<union> region 0x21000 92 \<union> region 0x22000 8" "file_stream demo_root 0x20000 = 0x22000"
    using demo_root_words by (simp_all add: disk_bytes_def file_stream_def demo_loader_state)
  moreover have "region 0x1F0094 8 \<inter> (scratch demo_loader \<union> (region 0x20000 20 \<union> region 0x21000 92 \<union> region 0x22000 8)) = {}"
    unfolding demo_loader_state by (auto simp: region_unat simp del: mem_region)
  ultimately have "region (kstack demo_loader + 148) 8 \<subseteq> kheap_owned demo_loader - (scratch demo_loader \<union> disk_bytes demo_loader)"
    unfolding demo_loader_heap(3) by (simp add: demo_loader_state del: mem_region) blast
  moreover have "fat16_get_first_cluster demo_root 0x23000 = 3"
    using demo_root_bytes by (simp add: fat16_get_first_cluster_def ld16_def)
  ultimately show ?thesis
    using demo_loader_volume demo_files demo_root_bytes
    by (simp add: loadable_def demo_hits demo_loader_state demo_loader_heap(3) demo_loader_program slash_def del: mem_region)
qed

lemma demo_loader_vars: "region 0x2B000 4 \<inter> region 0x2A000 48 = ({} :: addr set)"
  by (auto simp: region_unat simp del: mem_region)

theorem process_load_switch_starts_witness:
  "\<exists>s' p t c. process_load_switch (\<lambda>_. fat16_functions (model_ports demo_content)) 0x25000 0x2B000 demo_loader = Some (0, s') \<and>
    current_process s' = p \<and> task_fields (ram s') t c p \<and> task_list s' [t] \<and>
    (\<forall>j<600. \<exists>a. translate (ram s') (ld32 (ram s') c) (0x400000 + of_nat j) = Some (a, True, True) \<and>
       ram s' a = disk_byte demo_content (22528 + j)) \<and> kheap_free s' = 24563"
proof -
  have vars: "region 0x2B000 4 \<union> region (processes demo_loader) 48 \<subseteq> kheap_owned demo_loader - load_writes demo_loader"
    using demo_loader_apart [of "0x2B000" 4] demo_loader_apart [of "0x2A000" 48] by (simp add: demo_loader_state(7) del: mem_region)
  have k: "run_blocks 600 = 1" by (simp add: run_blocks_def)
  obtain s' p t c stk where "process_load_switch (\<lambda>_. fat16_functions (model_ports demo_content)) 0x25000 0x2B000 demo_loader = Some (0, s')"
    "current_process s' = p" "task_fields (ram s') t c p" "task_list s' ([] @ [t])"
    "\<forall>j<unat (program_length demo_loader [([66], [])] [98]).
       \<exists>a. translate (ram s') (ld32 (ram s') c) (0x400000 + of_nat j) = Some (a, True, True) \<and>
         ram s' a = disk_byte demo_content (program_start demo_loader [([66], [])] [98] + j)"
    "kheap_free s' + 1034 + 2 * length (hits [98] [([66], [])] 0) + run_blocks (program_length demo_loader [([66], [])] [98]) = kheap_free demo_loader"
    using process_load_switch_starts [where i = 0 and l = 25600 and ts = "[]" and process = "0x2B000", OF demo_loader_loadable model_ports_device
        _ demo_loader_heap(4) _ _ _ _ _ demo_loader_slot(2) _ vars]
      demo_loader_slot(1) demo_loader_vars
    by (auto simp: demo_hits demo_loader_program demo_loader_heap(2) demo_loader_state k simp del: mem_region)
  then show ?thesis by (auto simp: demo_hits demo_loader_program demo_loader_heap(2) k simp del: mem_region)
qed

section \<open>A missing program\<close>






end
