(* ===== verification/Machine_Steps.thy ===== *)
theory Machine_Steps
  imports Program_Run Kernel
begin

text \<open>
  Steps of the whole machine, that write memory, take runs of blocks and also set registers and globals: the relation
  \<open>machine_extends\<close> that composes them, room in the heap for page tables, and what such steps leave of a volume.
\<close>

section \<open>Room for page tables\<close>

lemma new_table_room:
  fixes s :: "'a kheap_state_scheme" and flags :: u8
  assumes "kheap_inv s" "0 < kheap_free s" and dir: "page_aligned dir" "region dir 4096 \<subseteq> kheap_owned s"
    and i: "i < 1024" and room: "kheap_room s (Suc l)"
  shows "kheap_room (new_table dir flags i s) l"
proof -
  let ?e = "fst (kZalloc 4096 s)" and ?t = "snd (kZalloc 4096 s)"
  define m where "m = fill_table ?e (i * 1024 * 4096) flags (ram ?t)"
  note laws = kz.alloc_laws [OF assms(1) _ _ assms(2), of 4096, simplified]
  have "kheap_room ?t l" using room by (intro kheap_room_alloc [OF assms(1)]) (simp_all add: run_blocks_page)
  moreover have "same_outside (region ?e 4096) (ram ?t) m"
    using fill_table_spec(1) [OF new_table_page(1) [OF assms(1,2)]] by (simp add: m_def)
  then have "same_outside (region ?e 4096 \<union> region dir 4096) (ram ?t) (st32 m (dir + 4 * i) (?e OR ucast flags OR 2))"
    using same_outside_trans [OF _ same_outside_st32] page_word_subset [OF dir(1) i] by blast
  moreover have "region ?e 4096 \<union> region dir 4096 \<subseteq> kheap_owned ?t" using laws dir(2) by blast
  ultimately have "kheap_room (?t\<lparr>ram := st32 m (dir + 4 * i) (?e OR ucast flags OR 2)\<rparr>) l"
    using laws by (intro kheap_room_write) blast+
  moreover have "new_table dir flags i s = ?t\<lparr>ram := st32 m (dir + 4 * i) (?e OR ucast flags OR 2)\<rparr>"
    by (simp add: new_table_def m_def Let_def case_prod_beta)
  ultimately show ?thesis by simp
qed

lemma paging_new_4gb_room:
  fixes s :: "'a kheap_state_scheme" and flags :: u8
  assumes "kheap_inv s" "1026 \<le> kheap_free s" "kheap_room s (l + 1026)"
  shows "kheap_room (snd (paging_new_4gb flags s)) l"
proof -
  define dir s1 where "dir = fst (kZalloc 4096 s)" and "s1 = snd (kZalloc 4096 s)"
  define s2 where "s2 = for_u32 0 1024 (new_table dir flags) s1"
  have free: "0 < kheap_free s" using assms(2) by simp
  note l1 = kz.alloc_laws [OF assms(1) _ _ free, of 4096, folded dir_def s1_def, simplified]
  have d: "page_aligned dir" "region dir 4096 \<subseteq> kheap_owned s1" using l1 by auto
  have f1: "1024 < kheap_free s1" using l1 assms(2) by auto
  have "l + 1025 + run_blocks 4096 = l + 1026" by (simp add: run_blocks_page)
  with assms(3) have "kheap_room s (l + 1025 + run_blocks 4096)" by (simp only:)
  then have r1: "kheap_room s1 (l + 1025)" unfolding s1_def by (intro kheap_room_alloc [OF assms(1)]) simp_all
  define P where "P i s' \<longleftrightarrow> built dir flags s1 i s' \<and> kheap_room s' (l + (1025 - unat i))" for i and s' :: "'a kheap_state_scheme"
  have "P 1024 s2"
    unfolding s2_def
  proof (rule for_u32_invariant [where P = P])
    show "P 0 s1" using r1 l1 by (simp add: P_def built_def)
  next
    fix i :: u32 and t assume i: "i < 1024" and p: "P i t"
    have "l + (1025 - unat i) = Suc (l + (1024 - unat i))" using i by (simp add: word_less_nat_alt)
    with p have b: "built dir flags s1 i t" "kheap_room t (Suc (l + (1024 - unat i)))" by (simp_all only: P_def)
    then have t: "kheap_inv t" "0 < kheap_free t" "region dir 4096 \<subseteq> kheap_owned t"
      using f1 i d(2) by (auto simp: built_def word_less_nat_alt)
    show "P (i + 1) (new_table dir flags i t)"
      using built_step [OF d f1 i b(1)] new_table_room [OF t(1,2) d(1) t(3) i b(2)] unat_Suc_less [OF i]
      by (simp add: P_def)
  qed simp
  then have b: "built dir flags s1 1024 s2" "kheap_room s2 (l + 1)" by (simp_all add: P_def)
  then have t: "kheap_inv s2" "0 < kheap_free s2" using f1 by (auto simp: built_def)
  let ?c = "fst (kZalloc 4 s2)" and ?t = "snd (kZalloc 4 s2)"
  note l3 = kz.alloc_laws [OF t(1) _ _ t(2), of 4, simplified]
  have "kheap_room ?t l" using b(2) by (intro kheap_room_alloc [OF t(1)]) (simp_all add: run_blocks_page)
  moreover have "same_outside (region ?c 4096) (ram ?t) (st32 (ram ?t) ?c dir)"
    using page_word_subset [of ?c 0] l3 by (auto intro: same_outside_mono [OF same_outside_st32])
  ultimately have "kheap_room (?t\<lparr>ram := st32 (ram ?t) ?c dir\<rparr>) l"
    using l3 by (intro kheap_room_write) blast+
  then show ?thesis by (simp add: paging_new_4gb_def Let_def case_prod_beta dir_def s1_def s2_def)
qed

section \<open>Steps that also set registers and globals\<close>

lemma heap_same:
  assumes "ram t = ram s" "kernelHeap t = kernelHeap s"
  shows "kheap_inv t = kheap_inv s" "kheap_owned t = kheap_owned s" "kheap_free t = kheap_free s" "kheap_page t p = kheap_page s p"
    "kheap_room t k = kheap_room s k"
  using assms by (simp_all add: kheap_inv_def kheap_owned_def kheap_free_def kheap_page_def kheap_room_def)

lemma io_extends_fields:
  fixes s s' :: "('d, 'a) fs_state_scheme" and t t' :: "('d, 'b) fs_state_scheme"
  assumes g: "io_extends s s' R j D" and "ram t = ram s" "ram t' = ram s'" "kernelHeap t = kernelHeap s"
    and t': "t' = t\<lparr>ram := ram t', dev := dev t'\<rparr>"
  shows "io_extends t t' R j D"
proof -
  have "kernelHeap (t\<lparr>ram := ram t', dev := dev t'\<rparr>) = kernelHeap t" by simp
  then have k: "kernelHeap t' = kernelHeap s'" using t' io_extends_globals(4) [OF g] assms(4) by simp
  note h = heap_same [of "t\<lparr>dev := dev t'\<rparr>" "s\<lparr>dev := dev s'\<rparr>"] heap_same [OF assms(3) k]
  have "t\<lparr>ram := ram t', dev := dev t'\<rparr> = t\<lparr>dev := dev t'\<rparr>\<lparr>ram := ram t'\<rparr>" by simp
  with t' have "t' = t\<lparr>dev := dev t'\<rparr>\<lparr>ram := ram t'\<rparr>" by (rule trans)
  then show ?thesis using g h assms(2-4) unfolding io_extends_def kr.extends_def by simp
qed

definition machine_extends :: "('d, 'a) fs_state_scheme \<Rightarrow> ('d, 'a) fs_state_scheme \<Rightarrow> addr set \<Rightarrow> nat \<Rightarrow> addr set \<Rightarrow> bool" where
  "machine_extends s s' R j D \<longleftrightarrow> io_extends (s'\<lparr>ram := ram s, dev := dev s\<rparr>) s' R j D \<and> kernelHeap s' = kernelHeap s"

lemma machine_trans:
  assumes "machine_extends s s1 R j D" "machine_extends s1 s2 Q k E"
  shows "machine_extends s s2 (R \<union> Q) (j + k) (D \<union> E)"
proof -
  have g: "io_extends (s1\<lparr>ram := ram s, dev := dev s\<rparr>) s1 R j D" "kernelHeap s1 = kernelHeap s"
    "io_extends (s2\<lparr>ram := ram s1, dev := dev s1\<rparr>) s2 Q k E" "kernelHeap s2 = kernelHeap s1"
    using assms by (simp_all add: machine_extends_def)
  have "io_extends (s2\<lparr>ram := ram s, dev := dev s\<rparr>) (s2\<lparr>ram := ram s1, dev := dev s1\<rparr>) R j D"
    by (rule io_extends_fields [OF g(1)]) (simp_all add: g)
  from io_extends_trans [OF this g(3)] show ?thesis using g(2,4) by (simp add: machine_extends_def)
qed

lemma machine_io: "io_extends s s' R j D \<Longrightarrow> machine_extends s s' R j D"
proof -
  assume g: "io_extends s s' R j D"
  have "s'\<lparr>ram := ram s, dev := dev s\<rparr> = s\<lparr>ram := ram s', dev := dev s'\<rparr>\<lparr>ram := ram s, dev := dev s\<rparr>"
    using io_extends_state [OF g] by metis
  also have "\<dots> = s" by simp
  finally show ?thesis using g io_extends_globals(4) [OF g] by (simp add: machine_extends_def)
qed

lemma machine_write:
  assumes "kheap_inv s" "same_outside D (ram s) (ram s')" "D \<subseteq> kheap_owned s" "kernelHeap s' = kernelHeap s"
  shows "machine_extends s s' {} 0 D"
proof -
  let ?t = "s'\<lparr>ram := ram s, dev := dev s\<rparr>"
  note h = heap_same [of ?t s, simplified, OF assms(4)]
  have "io_extends ?t (?t\<lparr>ram := ram s', dev := dev s'\<rparr>) {} 0 D"
    by (rule io_extends_write(1)) (use assms h in simp_all)
  then show ?thesis using assms(4) by (simp add: machine_extends_def)
qed

lemma machine_heap:
  assumes "machine_extends s s' R j D"
  shows "kheap_inv s'" "kheap_owned s' = kheap_owned s \<union> R" "R \<inter> kheap_owned s = {}" "kheap_free s = kheap_free s' + j"
    "a \<in> kheap_owned s \<Longrightarrow> a \<notin> D \<Longrightarrow> ram s' a = ram s a"
proof -
  have g: "io_extends (s'\<lparr>ram := ram s, dev := dev s\<rparr>) s' R j D" "kernelHeap s' = kernelHeap s" using assms by (simp_all add: machine_extends_def)
  note h = heap_same [of "s'\<lparr>ram := ram s, dev := dev s\<rparr>" s, simplified, OF g(2)]
  show "kheap_inv s'" "kheap_owned s' = kheap_owned s \<union> R" "R \<inter> kheap_owned s = {}" "kheap_free s = kheap_free s' + j"
    "a \<in> kheap_owned s \<Longrightarrow> a \<notin> D \<Longrightarrow> ram s' a = ram s a"
    using io_extends_heap [OF g(1)] io_extends_keeps [OF g(1), of a] h by simp_all
qed

lemma machine_new_4gb:
  fixes s :: "('d, 'a) fs_state_scheme"
  assumes "kheap_inv s" "1026 \<le> kheap_free s" "bit flags 0" "paging_new_4gb flags s = (c, s')"
  obtains R where "machine_extends s s' R 1026 {}"
proof -
  note p = paging_new_4gb_spec [OF assms]
  have "kheap_owned s' = kheap_owned s \<union> (kheap_owned s' - kheap_owned s)" using p(4) by blast
  moreover have "same_outside (- kheap_owned s \<union> {}) (ram s) (ram s')" using p(5) by (simp add: same_outside_def)
  ultimately have "kr.extends s s' (kheap_owned s' - kheap_owned s) 1026 {}"
    using assms(1,2) p(1-3,11) unfolding kr.extends_def by auto
  then show thesis using that machine_io [OF extends_io] by blast
qed

lemma machine_room:
  assumes "machine_extends s s' R j D" "kheap_room s l" "(j + 1) * k \<le> l"
  shows "kheap_room s' k"
proof -
  have g: "io_extends (s'\<lparr>ram := ram s, dev := dev s\<rparr>) s' R j D" "kernelHeap s' = kernelHeap s" using assms(1) by (simp_all add: machine_extends_def)
  have "kheap_room (s'\<lparr>ram := ram s, dev := dev s\<rparr>) l" using heap_same(5) [of "s'\<lparr>ram := ram s, dev := dev s\<rparr>" s] g(2) assms(2) by simp
  then show ?thesis by (rule io_extends_room [OF g(1) _ assms(3)])
qed

text \<open>A program file on the volume depends on memory and on a few globals.\<close>

lemma loadable_same:
  fixes s t :: "('d, 'a) process_state_scheme"
  assumes "ram t = ram s" "kernelHeap t = kernelHeap s" "disk t = disk s" "file_descriptors t = file_descriptors s" "kstack t = kstack s"
    "rodata t = rodata s"
  shows "loadable fss io filename ys es t = loadable fss io filename ys es s" "program_length t es ys = program_length s es ys"
    "program_start t es ys = program_start s es ys" "root_dir t = root_dir s" "disk_bytes t = disk_bytes s"
proof -
  show r: "root_dir t = root_dir s" "disk_bytes t = disk_bytes s" using assms by (simp_all add: root_dir_def disk_bytes_def)
  have i: "program_item t es ys = program_item s es ys" using assms r by (simp add: program_item_def)
  show l: "program_length t es ys = program_length s es ys" "program_start t es ys = program_start s es ys"
    using assms i by (simp_all add: program_length_def program_start_def)
  have "cluster_bytes t = cluster_bytes s" "fd_table t = fd_table s" using assms by (simp_all add: cluster_bytes_def fd_table_def)
  moreover have "mounted t es = mounted s es"
    using assms r heap_same [OF assms(1,2)] by (simp add: mounted_def dir_ok_def)
  ultimately show "loadable fss io filename ys es t = loadable fss io filename ys es s"
    using assms r i l heap_same [OF assms(1,2)] by (simp add: loadable_def)
qed

lemma loadable_machine:
  fixes s :: "('d, 'a) process_state_scheme"
  assumes "loadable fss io filename ys es s" "machine_extends s s' R j D"
    and "disk s' = disk s" "file_descriptors s' = file_descriptors s" "kstack s' = kstack s" "rodata s' = rodata s"
    and "D \<inter> (directory_bytes (ram s) (root_dir s) es \<union> disk_bytes s \<union> str_bytes filename (3 + length ys) \<union>
      {rodata s} \<union> region (file_descriptors s) 2048) = {}"
  shows "loadable fss io filename ys es s'" "program_length s' es ys = program_length s es ys"
    "program_start s' es ys = program_start s es ys" "disk_bytes s' = disk_bytes s" "load_writes s' = load_writes s"
    "directory_bytes (ram s') (root_dir s') es = directory_bytes (ram s) (root_dir s) es"
proof -
  let ?t = "s'\<lparr>ram := ram s, dev := dev s\<rparr>"
  have g: "io_extends ?t s' R j D" "kernelHeap s' = kernelHeap s" using assms(2) by (simp_all add: machine_extends_def)
  have "ram ?t = ram s" "kernelHeap ?t = kernelHeap s" "disk ?t = disk s" "file_descriptors ?t = file_descriptors s" "kstack ?t = kstack s"
    "rodata ?t = rodata s" using g(2) assms(3-6) by simp_all
  note same = loadable_same [OF this] and eqs = this
  have "loadable fss io filename ys es ?t" using assms(1) same(1) by blast
  moreover have "D \<inter> (directory_bytes (ram ?t) (root_dir ?t) es \<union> disk_bytes ?t \<union> str_bytes filename (3 + length ys) \<union>
      {rodata ?t} \<union> region (file_descriptors ?t) 2048) = {}" using assms(7) unfolding same eqs .
  ultimately have k: "loadable fss io filename ys es s'" "program_length s' es ys = program_length ?t es ys"
    "program_start s' es ys = program_start ?t es ys" "load_writes s' = load_writes ?t" "disk_bytes s' = disk_bytes ?t"
    by (rule loadable_kept [OF _ g(1)])+
  show "loadable fss io filename ys es s'" by (rule k(1))
  show "program_length s' es ys = program_length s es ys" "program_start s' es ys = program_start s es ys" "disk_bytes s' = disk_bytes s"
    using k(2,3,5) same(2,3,5) by simp_all
  show "load_writes s' = load_writes s" using k(4) eqs by simp
  have m: "mounted ?t es" using assms(1) same(1) unfolding loadable_def by blast
  have d: "D \<inter> (directory_bytes (ram ?t) (root_dir ?t) es \<union> disk_bytes ?t) = {}" using assms(7) unfolding same eqs by blast
  note r = mounted_extends(2,3) [OF m g(1) d]
  have "directory_bytes (ram s') (root_dir s') es = directory_bytes (ram ?t) (root_dir ?t) es"
    unfolding directory_bytes_def r(2) r(1) ..
  then show "directory_bytes (ram s') (root_dir s') es = directory_bytes (ram s) (root_dir s) es" unfolding same(4) eqs .
qed

end
