(* ===== verification/Boot_Steps.thy ===== *)
theory Boot_Steps
  imports Machine_Steps
begin

text \<open>
  The steps of \<open>kernel_main\<close> that set up the processor and the interrupts, and the step that leaves for the first task.
\<close>

section \<open>Screen and segments\<close>

lemma terminal_initialize_frame:
  obtains m where "terminal_initialize s = s\<lparr>ram := m, video_mem := 0xB8000, terminal_row := 0, terminal_col := 0\<rparr>"
    "same_outside (region 0xB8000 3200) (ram s) m"
proof -
  let ?s = "s\<lparr>video_mem := 0xB8000, terminal_row := 0, terminal_col := 0\<rparr>"
  define P where "P t \<longleftrightarrow> (\<exists>m. t = ?s\<lparr>ram := m\<rparr> \<and> same_outside (region 0xB8000 3200) (ram s) m)" for t
  have put: "P (terminal_putchar x y 32 0 t)" if "P t" "x < 80" "y < 20" for x y t
  proof -
    obtain m where m: "t = ?s\<lparr>ram := m\<rparr>" "same_outside (region 0xB8000 3200) (ram s) m" using \<open>P t\<close> unfolding P_def by blast
    have u: "unat x < 80" "unat y < 20" using that(2,3) by (simp_all add: word_less_nat_alt)
    then have "unat (2 * (y * 80 + x)) = 2 * (unat y * 80 + unat x)" by (simp add: unat_word_ariths)
    then have "unat (2 * (y * 80 + x)) + unat (2 :: u32) \<le> unat (3200 :: u32)" using u by simp
    then have "region (0xB8000 + 2 * (y * 80 + x)) 2 \<subseteq> region 0xB8000 3200" by (rule field_subset)
    then have "same_outside (region 0xB8000 3200) (ram s) (st16 m (0xB8000 + 2 * (y * 80 + x)) (terminal_make_char 32 0))"
      using same_outside_trans [OF m(2) same_outside_st16] by blast
    then show ?thesis unfolding P_def by (intro exI conjI) (simp_all add: terminal_putchar_def m(1))
  qed
  have "P (for_u32 0 20 (\<lambda>y. for_u32 0 80 (\<lambda>x. terminal_putchar x y 32 0)) ?s)"
  proof (rule for_u32_invariant [where P = "\<lambda>_. P"])
    show "P ?s" unfolding P_def by (rule exI [of _ "ram s"]) simp
    fix y t assume y: "y < (20 :: u32)" and t: "P t"
    show "P (for_u32 0 80 (\<lambda>x. terminal_putchar x y 32 0) t)"
      by (rule for_u32_invariant [where P = "\<lambda>_. P"]) (use t y put in auto)
  qed simp
  then obtain m where "for_u32 0 20 (\<lambda>y. for_u32 0 80 (\<lambda>x. terminal_putchar x y 32 0)) ?s = ?s\<lparr>ram := m\<rparr>"
    "same_outside (region 0xB8000 3200) (ram s) m" unfolding P_def by blast
  then show thesis by (intro that [of m]) (simp_all add: terminal_initialize_def)
qed

lemma boot_segments_spec:
  fixes s :: "('d, 'a) kernel_state_scheme"
  obtains m where "boot_segments s = Returns () (s\<lparr>ram := m, video_mem := 0xB8000, terminal_row := 0, terminal_col := 0,
      gdtr_base := gdt s, gdtr_limit := 47\<rparr>)"
    "same_outside (region 0xB8000 3200 \<union> region (gdt s) 48) (ram s) m"
proof -
  obtain m1 where m1: "terminal_initialize s = s\<lparr>ram := m1, video_mem := 0xB8000, terminal_row := 0, terminal_col := 0\<rparr>"
    "same_outside (region 0xB8000 3200) (ram s) m1" by (rule terminal_initialize_frame)
  define s2 where "s2 = (terminal_initialize s)\<lparr>ram := memset m1 (gdt s) 0 48\<rparr>"
  let ?gs = "kernel_gdt_structured (tss s)"
  have len: "length ?gs = 6" by (simp add: kernel_gdt_structured_def)
  obtain m where m: "gdt_loop (gdt s) ?gs 6 1 s2 = Returns () (s2\<lparr>ram := m\<rparr>)"
    "same_outside (\<Union>j\<in>{1..<6}. region (gdt s + 8 * of_nat j) 8) (ram s2) m"
    using gdt_loop_encodes [of ?gs 1 "gdt s" s2] kernel_segments_encodable [of _ "tss s"] len by auto
  have "region (gdt s + 8 * of_nat j) 8 \<subseteq> region (gdt s) 48" if "j < 6" for j
  proof -
    have "unat (8 * of_nat j :: u32) = 8 * j" using that by (simp add: unat_word_ariths unat_of_nat)
    then show ?thesis using that by (intro field_subset) simp
  qed
  then have sub: "(\<Union>j\<in>{1..<6}. region (gdt s + 8 * of_nat j) 8) \<subseteq> region (gdt s) 48" by (simp add: UN_subset_iff del: mem_region)
  show thesis
  proof (rule that [of m])
    have "boot_segments s = (case gdt_loop (gdt s) ?gs 6 1 s2 of Panics s3 \<Rightarrow> Panics s3 | Returns _ s3 \<Rightarrow> Returns () (gdt_load (gdt s3) 47 s3))"
      by (simp add: boot_segments_def gdt_structured_to_gdt_def Let_def s2_def m1(1))
    then have "boot_segments s = Returns () (gdt_load (gdt s2) 47 (s2\<lparr>ram := m\<rparr>))" unfolding m(1) by simp
    then show "boot_segments s = Returns () (s\<lparr>ram := m, video_mem := 0xB8000, terminal_row := 0, terminal_col := 0,
      gdtr_base := gdt s, gdtr_limit := 47\<rparr>)" by (simp add: gdt_load_def s2_def m1(1))
    have "same_outside (region (gdt s) 48) (memset m1 (gdt s) 0 48) m" using same_outside_mono [OF m(2) sub] by (simp add: s2_def)
    from same_outside_trans [OF memset_frame this] have "same_outside (region (gdt s) 48) m1 m" by blast
    then show "same_outside (region 0xB8000 3200 \<union> region (gdt s) 48) (ram s) m"
      using m1(2) by (meson same_outside_mono same_outside_trans sup_ge1 sup_ge2)
  qed
qed

section \<open>Interrupts, paging, keyboard\<close>

lemma register_commands_first:
  "isr80h_commands s = (\<lambda>_. None) \<Longrightarrow> isr80h_register_commands s =
    Returns () (s\<lparr>isr80h_commands := [0 \<mapsto> Command0_sum, 1 \<mapsto> Command1_print, 2 \<mapsto> Command2_getkey, 3 \<mapsto> Command3_putchar]\<rparr>)"
  by (simp add: isr80h_register_commands_def register_command)

lemma keyboard_init_first:
  "keyboard_list_last s = 0 \<Longrightarrow> keyboard_init io s =
    s\<lparr>keyboard_list_head := classic_keyboard s, keyboard_list_last := classic_keyboard s,
      callback_functions := (callback_functions s)(0x21 \<mapsto> Classic_keyboard_handle_interrupt), dev := outb io 0x64 0xAE (dev s)\<rparr>"
  by (simp add: keyboard_init_def keyboard_insert_def classic_init_def classic_keyboard_init_def register_interrupt_callback_function_def
      word_sless_alt word_sle_eq)

lemma boot_tss_frame: "same_outside (region (tss s) 100) (ram s) (ram (boot_tss s))"
  unfolding boot_tss_def Let_def tss_load_def
  using field_subset [of 4 4 100 "tss s"] field_subset [of 8 4 100 "tss s"]
  by (simp del: mem_region) (intro same_outside_st32_in memset_frame; simp del: mem_region)

lemma boot_paging_spec:
  fixes s :: "('d, 'a) task_state_scheme"
  assumes "kheap_inv s" "1026 \<le> kheap_free s" "kheap_room s (l + 1026)"
  obtains R c m where "machine_extends s (boot_paging s) R 1026 {}" "kheap_room (boot_paging s) l"
    "boot_paging s = s\<lparr>ram := m, kernel_page_chunk := c, cr3 := ld32 m c, current_directory := ld32 m c, cr0 := cr0 s OR 0x80000000\<rparr>"
proof -
  obtain c s1 where new: "paging_new_4gb 7 s = (c, s1)" by (cases "paging_new_4gb 7 s")
  have b: "bit (7 :: u8) 0" by simp
  obtain R where g: "machine_extends s s1 R 1026 {}" by (rule machine_new_4gb [OF assms(1,2) b new])
  have s1: "s1 = s\<lparr>ram := ram s1\<rparr>" using paging_new_4gb_spec(3) [OF assms(1,2) b new] .
  have boot: "boot_paging s = s1\<lparr>kernel_page_chunk := c, cr3 := ld32 (ram s1) c, current_directory := ld32 (ram s1) c,
      cr0 := cr0 s1 OR 0x80000000\<rparr>"
    using new by (simp add: boot_paging_def paging_switch_def paging_load_directory_def enable_paging_def)
  have i: "kheap_inv s1" by (rule machine_heap(1) [OF g])
  have g2: "machine_extends s1 (boot_paging s) {} 0 {}" by (rule machine_write [OF i]) (simp_all add: boot)
  have r: "kheap_room s1 l" using paging_new_4gb_room [OF assms, of 7] new by simp
  show thesis
  proof (rule that)
    show "machine_extends s (boot_paging s) R 1026 {}" using machine_trans [OF g g2] by simp
    show "kheap_room (boot_paging s) l" by (rule machine_room [OF g2 r]) simp
    obtain m where m: "s1 = s\<lparr>ram := m\<rparr>" using s1 by blast
    show "boot_paging s = s\<lparr>ram := ram s1, kernel_page_chunk := c, cr3 := ld32 (ram s1) c, current_directory := ld32 (ram s1) c,
      cr0 := cr0 s OR 0x80000000\<rparr>" unfolding boot m by simp
  qed
qed

lemma boot_interrupts_spec:
  fixes s :: "('d, 'a) kernel_state_scheme"
  assumes inv: "kheap_inv s" "1026 \<le> kheap_free s" "kheap_room s (l + 1026)"
    and own: "region (tss s) 100 \<union> region (idt_descriptor_table s) 4096 \<union> region (idtr s) 6 \<subseteq> kheap_owned s"
    and apart: "region (tss s) 100 \<inter> (region (idt_descriptor_table s) 4096 \<union> region (idtr s) 6) = {}"
      "region (idtr s) 6 \<inter> region (idt_descriptor_table s) 4096 = {}"
    and init: "isr80h_commands s = (\<lambda>_. None)" "keyboard_list_last s = 0"
  obtains s' s'' R where "isr80h_register_commands (boot_paging (boot_tss (idtInit s))) = Returns () s'" "keyboard_init io s' = s''"
    "machine_extends s s'' R 1026 (region (tss s) 100 \<union> region (idt_descriptor_table s) 4096 \<union> region (idtr s) 6)" "kheap_room s'' l"
    "\<forall>v<512. gate_is (ram s'') (idt_descriptor_table s + 8 * v) (if v = 0x80 then isr80h_wrapper s else interrupt_func_addresses s v)"
    "\<exists>m d c dir h t. s'' = s\<lparr>ram := m, dev := d, kernel_page_chunk := c, cr3 := dir, current_directory := dir, cr0 := cr0 s OR 0x80000000,
       idtr_limit := 4095, idtr_base := idt_descriptor_table s, task_register := 0x28, keyboard_list_head := h, keyboard_list_last := t,
       isr80h_commands := [0 \<mapsto> Command0_sum, 1 \<mapsto> Command1_print, 2 \<mapsto> Command2_getkey, 3 \<mapsto> Command3_putchar],
       callback_functions := (callback_functions s)(0x21 \<mapsto> Classic_keyboard_handle_interrupt)\<rparr>"
proof -
  let ?T = "region (tss s) 100" and ?I = "region (idt_descriptor_table s) 4096" and ?R = "region (idtr s) 6"
  obtain m where m: "idtInit s = s\<lparr>ram := m, idtr_limit := 4095, idtr_base := idt_descriptor_table s\<rparr>"
    "\<forall>v<512. gate_is m (idt_descriptor_table s + 8 * v) (if v = 0x80 then isr80h_wrapper s else interrupt_func_addresses s v)"
    "same_outside (?I \<union> ?R) (ram s) m" by (rule idtInit_spec [OF apart(2)])
  define a where "a = idtInit s"
  have ga: "machine_extends s a {} 0 (?I \<union> ?R)"
    by (rule machine_write [OF inv(1)]) (use m(3) own in \<open>auto simp: a_def m(1) simp del: mem_region\<close>)
  note ha = machine_heap [OF ga]
  define b where "b = boot_tss a"
  have ta: "tss a = tss s" by (simp add: a_def m(1))
  have gb: "machine_extends a b {} 0 ?T"
    unfolding b_def by (rule machine_write [OF ha(1)])
      (use boot_tss_frame [of a] ta own ha(2) in \<open>auto simp: boot_tss_def Let_def tss_load_def simp del: mem_region\<close>)
  note hb = machine_heap [OF gb]
  have fb: "1026 \<le> kheap_free b" using inv(2) ha(4) hb(4) by simp
  have "kheap_room a (l + 1026)" by (rule machine_room [OF ga inv(3)]) simp
  then have rb: "kheap_room b (l + 1026)" by (rule machine_room [OF gb]) simp
  obtain R c m3 where p: "machine_extends b (boot_paging b) R 1026 {}" "kheap_room (boot_paging b) l"
    "boot_paging b = b\<lparr>ram := m3, kernel_page_chunk := c, cr3 := ld32 m3 c, current_directory := ld32 m3 c, cr0 := cr0 b OR 0x80000000\<rparr>"
    by (rule boot_paging_spec [OF hb(1) fb rb])
  let ?cmd = "[0 \<mapsto> Command0_sum, 1 \<mapsto> Command1_print, 2 \<mapsto> Command2_getkey, 3 \<mapsto> Command3_putchar] :: u32 \<Rightarrow> isr80h_command option"
  have "b = s\<lparr>ram := ram b, idtr_limit := 4095, idtr_base := idt_descriptor_table s, task_register := 0x28\<rparr>"
    by (simp add: b_def boot_tss_def Let_def tss_load_def a_def m(1))
  then obtain mb where bs: "b = s\<lparr>ram := mb, idtr_limit := 4095, idtr_base := idt_descriptor_table s, task_register := 0x28\<rparr>" by blast
  have pb: "boot_paging b = s\<lparr>ram := m3, idtr_limit := 4095, idtr_base := idt_descriptor_table s, task_register := 0x28,
      kernel_page_chunk := c, cr3 := ld32 m3 c, current_directory := ld32 m3 c, cr0 := cr0 s OR 0x80000000\<rparr>"
    unfolding p(3) by (simp add: bs)
  define e where "e = (boot_paging b)\<lparr>isr80h_commands := ?cmd\<rparr>"
  have "isr80h_commands (boot_paging b) = (\<lambda>_. None)" by (simp add: pb init(1))
  note reg = register_commands_first [OF this, folded e_def]
  define f where "f = keyboard_init io e"
  have "keyboard_list_last e = 0" by (simp add: e_def pb init(2))
  note kb = keyboard_init_first [OF this, of io, folded f_def]
  have ge: "machine_extends (boot_paging b) f {} 0 {}"
    by (rule machine_write [OF machine_heap(1) [OF p(1)]]) (simp_all add: kb e_def)
  have all: "machine_extends s f R 1026 (?T \<union> ?I \<union> ?R)"
    using machine_trans [OF machine_trans [OF machine_trans [OF ga gb] p(1)] ge] by (simp add: Un_ac)
  show thesis
  proof (rule that [OF _ _ all])
    show "isr80h_register_commands (boot_paging (boot_tss (idtInit s))) = Returns () e" using reg by (simp add: b_def a_def)
    show "keyboard_init io e = f" by (simp add: f_def)
    show "kheap_room f l" by (rule machine_room [OF ge p(2)]) simp
    show "\<forall>v<512. gate_is (ram f) (idt_descriptor_table s + 8 * v) (if v = 0x80 then isr80h_wrapper s else interrupt_func_addresses s v)"
    proof (intro allI impI)
      fix v :: u32 assume v: "v < 512"
      show "gate_is (ram f) (idt_descriptor_table s + 8 * v) (if v = 0x80 then isr80h_wrapper s else interrupt_func_addresses s v)"
      proof (rule gate_is_cong [OF m(2) [rule_format, OF v]])
        fix x assume x: "x \<in> region (idt_descriptor_table s + 8 * v) 8"
        have "x \<in> ?I" using x gate_in_table [of v "idt_descriptor_table s"] v by (auto simp: word_less_nat_alt simp del: mem_region)
        then have o: "x \<in> kheap_owned s" "x \<notin> ?T" using own apart(1) by blast+
        have "ram f x = ram (boot_paging b) x" using machine_heap(2) [OF p(1)] hb(2) ha(2) o(1) by (intro machine_heap(5) [OF ge]) blast+
        also have "\<dots> = ram b x" using hb(2) ha(2) o(1) by (intro machine_heap(5) [OF p(1)]) blast+
        also have "\<dots> = ram a x" using ha(2) o by (intro hb(5)) blast+
        finally show "ram f x = m x" by (simp add: a_def m(1))
      qed
    qed
    have "f = s\<lparr>ram := m3, dev := outb io 0x64 0xAE (dev e), kernel_page_chunk := c, cr3 := ld32 m3 c, current_directory := ld32 m3 c,
       cr0 := cr0 s OR 0x80000000, idtr_limit := 4095, idtr_base := idt_descriptor_table s, task_register := 0x28,
       keyboard_list_head := classic_keyboard e, keyboard_list_last := classic_keyboard e, isr80h_commands := ?cmd,
       callback_functions := (callback_functions s)(0x21 \<mapsto> Classic_keyboard_handle_interrupt)\<rparr>"
      by (simp add: kb e_def pb)
    then show "\<exists>m d c dir h t. f = s\<lparr>ram := m, dev := d, kernel_page_chunk := c, cr3 := dir, current_directory := dir, cr0 := cr0 s OR 0x80000000,
       idtr_limit := 4095, idtr_base := idt_descriptor_table s, task_register := 0x28, keyboard_list_head := h, keyboard_list_last := t,
       isr80h_commands := ?cmd, callback_functions := (callback_functions s)(0x21 \<mapsto> Classic_keyboard_handle_interrupt)\<rparr>" by blast
  qed
qed

section \<open>The first program\<close>

lemma first_task_spec:
  fixes s :: "('d, 'a) task_state_scheme"
  assumes "task_list s [t]" "task_fields (ram s) t c p"
  obtains uc where "task_run_first_ever_task frame flags s = Returns uc
      (s\<lparr>current_task := t, cr3 := ld32 (ram s) c, current_directory := ld32 (ram s) c, data_segments := 0x23\<rparr>)"
    "uc_eip uc = 0x400000" "uc_cs uc = 0x1B" "uc_esp uc = 0x3FF000" "uc_ss uc = 0x23" "uc_eflags uc = flags OR 0x200"
  using assms
  by (auto simp: task_list_def task_links_def task_fields_def task_run_first_ever_task_def task_switch_def paging_switch_def
      paging_load_directory_def task_return_def Let_def add.assoc)

lemma run_blocks_cluster: "unat len \<le> 130560 \<Longrightarrow> run_blocks len \<le> 32"
  by (simp add: run_blocks_def)

lemma boot_process_spec:
  fixes s :: "('d, 'a) kernel_state_scheme" and es :: "(u8 list \<times> u8 list) list" and ys :: "u8 list"
  defines "v \<equiv> region (kstack s + 156) 4" and "len \<equiv> program_length s es ys" and "start \<equiv> program_start s es ys"
  assumes ok: "loadable (kernel_file_systems io) io (rodata s + 2) ys es s" and dev: "ata_device io xfer data"
    and small: "unat len \<le> 130560" "length (hits ys es 0) \<le> 13"
    and heap: "1100 \<le> kheap_free s" "kheap_room s 3240"
    and slot: "ld32 (ram s) (processes s) = 0" and none: "task_list_head s = 0"
    and vars: "v \<union> region (processes s) 48 \<subseteq> kheap_owned s - load_writes s" "v \<inter> region (processes s) 48 = {}"
    and apart: "v \<inter> (directory_bytes (ram s) (root_dir s) es \<union> disk_bytes s \<union> str_bytes (rodata s + 2) (3 + length ys) \<union>
      {rodata s} \<union> region (file_descriptors s) 2048) = {}"
  obtains uc s' p t dir stk where "boot_process io frame flags s = Some (Returns uc s')"
    "uc_eip uc = 0x400000" "uc_cs uc = 0x1B" "uc_esp uc = 0x3FF000" "uc_ss uc = 0x23" "uc_eflags uc = flags OR 0x200"
    "p \<noteq> 0" "ld32 (ram s') (processes s) = p" "ld32 (ram s') (p + 112) = t"
    "\<forall>j<unat len. \<exists>a. translate (ram s') dir (0x400000 + of_nat j) = Some (a, True, True) \<and> ram s' a = disk_byte data (start + j)"
    "\<forall>va. va - 0x3FB000 < 0x4000 \<longrightarrow> translate (ram s') dir va = Some (stk + (va - 0x3FB000), True, True)"
    "\<forall>a\<in>kheap_owned s - (load_writes s \<union> (v \<union> region (processes s) 48)). ram s' a = ram s a"
    "\<exists>m d h l. s' = s\<lparr>ram := m, dev := d, task_list_head := h, task_list_tail := l, current_process := p, current_task := t,
       cr3 := dir, current_directory := dir, data_segments := 0x23\<rparr>"
proof -
  define z where "z = s\<lparr>ram := st32 (ram s) (kstack s + 156) 0\<rparr>"
  have inv: "kheap_inv s" using ok unfolding loadable_def mounted_def dir_ok_def by blast
  have own: "v \<subseteq> kheap_owned s" using vars(1) by blast
  have w: "same_outside v (ram s) (ram z)" unfolding v_def z_def using same_outside_st32 by simp
  have g: "machine_extends s z {} 0 v" by (rule machine_write [OF inv w own]) (simp add: z_def)
  have zs: "disk z = disk s" "file_descriptors z = file_descriptors s" "kstack z = kstack s" "rodata z = rodata s"
    "processes z = processes s" "task_list_head z = 0"
    by (simp_all add: z_def none)
  note L = loadable_machine [OF ok g zs(1-4) apart] and h = machine_heap [OF g]
  have len: "program_length z es ys = len" "program_start z es ys = start" using L(2,3) by (simp_all add: len_def start_def)
  have k: "run_blocks (program_length z es ys) \<le> 32" using run_blocks_cluster [OF small(1)] len by simp
  have "(18 + 6 * length (hits ys es 0)) * run_blocks (program_length z es ys) \<le> 96 * 32"
    using k small(2) by (intro mult_le_mono) simp_all
  then have bounds: "(18 + 6 * length (hits ys es 0)) * run_blocks (program_length z es ys) \<le> 3240"
    "(4 + 2 * length (hits ys es 0) + run_blocks (program_length z es ys)) * 4 \<le> 3240"
    "1034 + 2 * length (hits ys es 0) + run_blocks (program_length z es ys) \<le> kheap_free z"
    using k small(2) heap(1) h(4) by simp_all
  have room: "kheap_room z 3240" by (rule machine_room [OF g heap(2)]) simp
  have "region (processes s) 4 \<subseteq> region (processes s) 48" using field_subset [of 0 4 48 "processes s"] by simp
  then have "region (processes s) 4 \<inter> v = {}" using vars(2) by blast
  then have slot': "ld32 (ram z) (processes z + 4 * of_nat 0) = 0" using ld32_same_outside [OF w] slot zs(5) by simp
  have tl: "task_list z []" by (simp add: task_list_def task_links_def zs(6))
  have ow: "kheap_owned z = kheap_owned s" using h(2) by simp
  have vz: "region (kstack z + 156) 4 = v" "region (processes z) 48 = region (processes s) 48" by (simp_all only: zs v_def)
  have vars': "region (kstack z + 156) 4 \<union> region (processes z) 48 \<subseteq> kheap_owned z - load_writes z"
    "region (kstack z + 156) 4 \<inter> region (processes z) 48 = {}"
    unfolding vz ow L(5) by (rule vars)+
  have nots: "\<forall>j<0. ld32 (ram z) (processes z + 4 * of_nat j) \<noteq> 0" "\<forall>u\<in>set []. kheap_page z u \<and>
      region u 4096 \<inter> (load_writes z \<union> (region (kstack z + 156) 4 \<union> region (processes z) 48)) = {}" by simp_all
  have L1: "loadable (kernel_file_systems io) io (rodata z + 2) ys es z" using L(1) zs(4) by simp
  note run = process_load_switch_spec [OF L1 dev bounds(3) room bounds(1,2) _ slot' nots(1) tl nots(2) vars', unfolded len]
  obtain s1 p t c stk where r: "process_load_switch (kernel_file_systems io) (rodata z + 2) (kstack z + 156) z = Some (0, s1)" "p \<noteq> 0"
    "current_process s1 = p" "ld32 (ram s1) (kstack z + 156) = p" "ld32 (ram s1) (processes z + 4 * of_nat 0) = p"
    "ld32 (ram s1) (p + 112) = t" "task_fields (ram s1) t c p" "task_list s1 ([] @ [t])"
    "\<forall>j<unat len. \<exists>a. translate (ram s1) (ld32 (ram s1) c) (0x400000 + of_nat j) = Some (a, True, True) \<and>
       ram s1 a = disk_byte data (start + j)"
    "\<forall>va. va - 0x3FB000 < 0x4000 \<longrightarrow> translate (ram s1) (ld32 (ram s1) c) va = Some (stk + (va - 0x3FB000), True, True)"
    "\<forall>a\<in>kheap_owned z - (load_writes z \<union> (region (kstack z + 156) 4 \<union> region (processes z) 48)). (\<forall>u\<in>set []. a \<notin> region u 4096) \<longrightarrow> ram s1 a = ram z a"
    "\<exists>m d h l cur. s1 = z\<lparr>ram := m, dev := d, task_list_head := h, task_list_tail := l, current_task := cur, current_process := p\<rparr>"
    by (rule run) simp
  have tl1: "task_list s1 [t]" using r(8) by simp
  let ?s' = "s1\<lparr>current_task := t, cr3 := ld32 (ram s1) c, current_directory := ld32 (ram s1) c, data_segments := 0x23\<rparr>"
  obtain uc where uc: "task_run_first_ever_task frame flags s1 = Returns uc ?s'"
    "uc_eip uc = 0x400000" "uc_cs uc = 0x1B" "uc_esp uc = 0x3FF000" "uc_ss uc = 0x23" "uc_eflags uc = flags OR 0x200"
    by (rule first_task_spec [OF tl1 r(7)])
  show thesis
  proof (rule that [of uc ?s' p t "ld32 (ram s1) c" stk])
    show "boot_process io frame flags s = Some (Returns uc ?s')"
      using r(1) uc(1) zs(3,4) by (simp add: boot_process_def z_def)
    show "\<forall>a\<in>kheap_owned s - (load_writes s \<union> (v \<union> region (processes s) 48)). ram ?s' a = ram s a"
    proof
      fix a assume a: "a \<in> kheap_owned s - (load_writes s \<union> (v \<union> region (processes s) 48))"
      then have "ram z a = ram s a" using same_outsideD [OF w] by blast
      moreover have "a \<in> kheap_owned z - (load_writes z \<union> (region (kstack z + 156) 4 \<union> region (processes z) 48))"
        unfolding vz ow L(5) by (rule a)
      then have "ram s1 a = ram z a" using r(11) by simp
      ultimately show "ram ?s' a = ram s a" by simp
    qed
    obtain m d hd l cur where "s1 = z\<lparr>ram := m, dev := d, task_list_head := hd, task_list_tail := l, current_task := cur, current_process := p\<rparr>"
      using r(12) by blast
    then have "?s' = s\<lparr>ram := m, dev := d, task_list_head := hd, task_list_tail := l, current_process := p, current_task := t,
       cr3 := ld32 (ram s1) c, current_directory := ld32 (ram s1) c, data_segments := 0x23\<rparr>" by (simp add: z_def)
    then show "\<exists>m d h l. ?s' = s\<lparr>ram := m, dev := d, task_list_head := h, task_list_tail := l, current_process := p, current_task := t,
       cr3 := ld32 (ram s1) c, current_directory := ld32 (ram s1) c, data_segments := 0x23\<rparr>" by blast
  qed (use uc(2-6) r(2,5,6,9,10) zs(5) in simp_all)
qed

end
