(* ===== verification/Disk_Start.thy ===== *)
theory Disk_Start
  imports Mount
begin

text \<open>
  From the start of the file layer to the bytes of a file: \<open>fs_init\<close> (\<^verbatim>\<open>fs/file.c\<close>) registers FAT16,
  \<open>disk_search_and_init\<close> (\<^verbatim>\<open>disk/disk.c\<close>) mounts the disk with it, and then files can be opened by name and read.
\<close>

section \<open>Registering the file system\<close>

text \<open>The memory the start of the file layer writes.\<close>

abbreviation file_layer :: "('d, 'a) fs_state_scheme \<Rightarrow> addr set" where
  "file_layer s \<equiv> region (file_descriptors s) 2048 \<union> region (filesystems s) 48 \<union> region (fat16_fs s) 44"

definition file_tables :: "('d, 'a) fs_state_scheme \<Rightarrow> bool" where
  "file_tables s \<longleftrightarrow> file_globals s \<and> filesystems s \<noteq> 0 \<and> region (filesystems s) 48 \<union> region (fat16_fs s) 44 \<subseteq> kheap_owned s \<and>
     region (filesystems s) 48 \<inter> region (fat16_fs s) 44 = {} \<and>
     (region (filesystems s) 48 \<union> region (fat16_fs s) 44) \<inter>
       (region (disk s) 20 \<union> region (file_descriptors s) 2048 \<union> region (kstack s) 160) = {}"

lemma fat16_init_frame: "same_outside (region (fat16_fs s) 44) (ram s) (ram (snd (fat16_init s)))"
proof -
  have "fat16_fs s + k \<in> region (fat16_fs s) 44" if "k < 44" for k using that by simp
  then show ?thesis unfolding fat16_init_def
    by (simp add: add.assoc) (intro same_outside_upd same_outside_refl; simp)
qed

lemma fs_init_spec:
  fixes s :: "('d, 'a) fs_state_scheme"
  assumes "file_tables s"
  obtains s' where "fs_init s = Returns () s'" "kp.grows s s' [] (file_layer s)" "\<forall>i<512. fd_table s' ! i = 0"
    "ld32 (ram s') (filesystems s) = fat16_fs s"
proof -
  let ?fds = "region (file_descriptors s) 2048" and ?fss = "region (filesystems s) 48" and ?fs = "region (fat16_fs s) 44"
  have own: "kheap_inv s" "filesystems s \<noteq> 0" "?fds \<subseteq> kheap_owned s" "?fss \<subseteq> kheap_owned s" "?fs \<subseteq> kheap_owned s"
    and apart: "?fss \<inter> ?fs = {}" "?fss \<inter> ?fds = {}" "?fs \<inter> ?fds = {}"
    using assms unfolding file_tables_def file_globals_def by auto
  define s1 where "s1 = s\<lparr>ram := memset (ram s) (file_descriptors s) 0 2048\<rparr>"
  define s2 where "s2 = s1\<lparr>ram := memset (ram s1) (filesystems s) 0 48\<rparr>"
  define s3 where "s3 = snd (fat16_init s2)"
  define s4 where "s4 = s3\<lparr>ram := st32 (ram s3) (filesystems s) (fat16_fs s)\<rparr>"
  have st: "ram s1 = memset (ram s) (file_descriptors s) 0 2048" "ram s2 = memset (ram s1) (filesystems s) 0 48"
    "s3 = s\<lparr>ram := ram s3\<rparr>" "s4 = s\<lparr>ram := st32 (ram s3) (filesystems s) (fat16_fs s)\<rparr>"
    by (simp_all add: s1_def s2_def s3_def s4_def fat16_init_def)
  have f3: "same_outside ?fs (ram s2) (ram s3)" using fat16_init_frame [of s2] by (simp add: s3_def s2_def s1_def)
  have fss4: "region (filesystems s) 4 \<subseteq> ?fss" using field_subset [of 0 4 48 "filesystems s"] by simp
  have frame: "same_outside (file_layer s) (ram s) (ram s4)"
  proof -
    have "same_outside (file_layer s) (ram s) (ram s1)" unfolding st by (rule same_outside_mono [OF memset_frame]) blast
    moreover have "same_outside (file_layer s) (ram s1) (ram s2)" unfolding st by (rule same_outside_mono [OF memset_frame]) blast
    moreover have "same_outside (file_layer s) (ram s2) (ram s3)" by (rule same_outside_mono [OF f3]) blast
    moreover have "same_outside (file_layer s) (ram s3) (ram s4)"
      unfolding s4_def using fss4 by (auto intro: same_outside_mono [OF same_outside_st32] simp del: mem_region)
    ultimately show ?thesis by (blast intro: same_outside_trans)
  qed
  have zero: "ld32 (ram s3) (filesystems s) = 0"
  proof -
    have "ld32 (ram s3) (filesystems s) = ld32 (ram s2) (filesystems s)"
      by (rule ld32_same_outside [OF f3]) (use fss4 apart(1) in blast)
    then show ?thesis using memset_zero_word [of 0 48 "ram s1" "filesystems s"] st(2) by simp
  qed
  show thesis
  proof
    have "s1\<lparr>ram := memset (ram s1) (filesystems s1) 0 48\<rparr> = s2" by (simp add: s2_def s1_def)
    moreover have "fat16_init s2 = (fat16_fs s, s3)" by (simp add: s3_def s2_def s1_def fat16_init_def)
    moreover have "filesystems s3 = filesystems s" by (simp add: s3_def s2_def s1_def fat16_init_def)
    moreover have "fs_free_loop (ram s3) (filesystems s) 0 = filesystems s"
      using zero by (subst fs_free_loop.simps) (simp add: word_sless_alt)
    ultimately show "fs_init s = Returns () s4"
      using own(2) by (simp add: fs_init_def fs_load_def fs_static_load_def fs_insert_filesystem_def fs_get_free_filesystem_def s1_def [symmetric] s4_def)
    show "kp.grows s s4 [] (file_layer s)" unfolding st(4) using frame own by (intro kp.grows_write) (auto simp: s4_def simp del: mem_region)
    show "ld32 (ram s4) (filesystems s) = fat16_fs s" by (simp add: s4_def)
    show "\<forall>i<512. fd_table s4 ! i = 0"
    proof (intro allI impI)
      fix i :: nat assume i: "i < 512"
      have "same_outside (?fss \<union> ?fs) (ram s1) (ram s2)" unfolding st by (rule same_outside_mono [OF memset_frame]) blast
      moreover have "same_outside (?fss \<union> ?fs) (ram s2) (ram s3)" by (rule same_outside_mono [OF f3]) blast
      moreover have "same_outside (?fss \<union> ?fs) (ram s3) (ram s4)"
        unfolding s4_def using fss4 by (auto intro: same_outside_mono [OF same_outside_st32] simp del: mem_region)
      ultimately have "same_outside (?fss \<union> ?fs) (ram s1) (ram s4)" by (blast intro: same_outside_trans)
      moreover have "region (file_descriptors s + 4 * of_nat i) 4 \<inter> (?fss \<union> ?fs) = {}"
        using slot_in_table [OF i, of "file_descriptors s"] apart by blast
      ultimately have "ld32 (ram s4) (file_descriptors s + 4 * of_nat i) = ld32 (ram s1) (file_descriptors s + 4 * of_nat i)"
        by (rule ld32_same_outside)
      also have "\<dots> = 0" using memset_zero_word [of "4 * of_nat i" 2048 "ram s" "file_descriptors s"] slot_offset [OF i] i st(1) by simp
      finally show "fd_table s4 ! i = 0" using i by (simp add: fd_table_nth st(4))
    qed
  qed
qed

section \<open>Starting the disk\<close>

lemma file_tables_grows:
  fixes s :: "('d, 'a) fs_state_scheme"
  assumes "file_tables s" "io_grows s s' ps D"
  shows "file_tables s'"
  using assms(1) io_grows_heap(2,3) [OF assms(2)] io_grows_globals [OF assms(2)]
  unfolding file_tables_def file_globals_def by auto

lemma disk_search_spec:
  fixes s :: "('d, 'a) fs_state_scheme"
  assumes dev: "ata_device io xfer data" and vol: "fat16_disk data es" and st: "file_tables s" "6 \<le> kheap_free s"
    and fs: "ld32 (ram s) (filesystems s) = fat16_fs s" "fss (fat16_fs s) = fat16_functions io"
  obtains s' ps where "disk_search_and_init fss s = Some s'" "length ps = 5"
    "io_grows s s' ps (region (disk s) 20 \<union> region (kstack s + 112) 32)" "mounted s' es" "reads_volume s' data"
    "ld32 (ram s') (disk s + 12) = fat16_fs s" "(disk_bytes s' \<union> directory_bytes (ram s') (root_dir s') es) \<inter> kheap_owned s \<subseteq> region (disk s) 20"
proof -
  let ?d = "region (disk s) 20" and ?D = "region (kstack s + 112) 32 \<union> region (disk s + 12) 8"
  have gl: "kheap_inv s" "fat16_fs s \<noteq> 0" "?d \<subseteq> kheap_owned s" "region (filesystems s) 48 \<subseteq> kheap_owned s"
    "region (filesystems s) 48 \<inter> (?d \<union> region (kstack s) 160) = {}"
    using st(1) by (auto simp: file_tables_def file_globals_def simp del: mem_region)
  define m where "m = st32 (st32 (st32 (memset (ram s) (disk s) 0 20) (disk s) PEACHOS_DISK_TYPE_REAL) (disk s + 4) PEACHOS_SECTOR_SIZE) (disk s + 8) 0"
  define s1 where "s1 = s\<lparr>ram := m\<rparr>"
  have "same_outside ?d (ram s) m"
    unfolding m_def using field_subset [of 0 4 20 "disk s"] field_subset [of 4 4 20 "disk s"] field_subset [of 8 4 20 "disk s"]
    by (intro same_outside_st32_in memset_frame) simp_all
  then have g1: "io_grows s s1 [] ?d" unfolding s1_def using gl(1,3) by (intro grows_io kp.grows_write) simp_all
  note h1 = io_grows_heap [OF g1] io_grows_globals [OF g1] and t1 = file_tables_grows [OF st(1) g1]
  have w1: "ld32 (ram s1) (disk s1 + 8) = 0" "ld32 (ram s1) (disk s1 + 4) = 512" by (simp_all add: s1_def m_def struct_fields)
  obtain s2 ps where s2: "fat16_resolve io (disk s1) s1 = Some (0, s2)" "length ps = 5"
    "io_grows s1 s2 ps ?D" "mounted s2 es" "reads_volume s2 data" "ld32 (ram s2) (disk s + 12) = fat16_fs s"
    "(disk_bytes s2 \<union> directory_bytes (ram s2) (root_dir s2) es) \<inter> kheap_owned s \<subseteq> ?d"
    by (rule mount_spec [OF dev vol _ _ w1]) (use t1 h1 st(2) in \<open>auto simp: file_tables_def\<close>)
  have D: "?D \<subseteq> region (kstack s) 160 \<union> ?d"
    using field_subset [of 112 32 160 "kstack s"] field_subset [of 12 8 20 "disk s"] by (auto simp del: mem_region)
  have g2: "io_grows s s2 ps (?d \<union> region (kstack s + 112) 32)"
  proof (rule io_grows_mono)
    show "io_grows s s2 ps (?d \<union> ?D)" using io_grows_trans [OF g1 s2(3)] by simp
    show "(?d \<union> ?D) \<inter> kheap_owned s \<subseteq> ?d \<union> region (kstack s + 112) 32"
      using field_subset [of 12 8 20 "disk s"] by (auto simp del: mem_region)
  qed
  have fss: "ld32 (ram s1) (filesystems s) = fat16_fs s" "ld32 (ram s2) (filesystems s) = fat16_fs s"
  proof -
    have "region (filesystems s) 4 \<subseteq> region (filesystems s) 48" using field_subset [of 0 4 48 "filesystems s"] by simp
    then have r: "region (filesystems s) 4 \<subseteq> kheap_owned s - ?d" "region (filesystems s) 4 \<subseteq> kheap_owned s - (?d \<union> region (kstack s + 112) 32)"
      using gl(4,5) field_subset [of 112 32 160 "kstack s"] by (auto simp del: mem_region)
    show "ld32 (ram s1) (filesystems s) = fat16_fs s" "ld32 (ram s2) (filesystems s) = fat16_fs s"
      using io_grows_word [OF g1 r(1)] io_grows_word [OF g2 r(2)] fs(1) by simp_all
  qed
  show thesis
  proof (rule that [OF _ s2(2) g2 s2(4-7)])
    have "fs_resolve fss (disk s) s1 = Some (fat16_fs s, s2)"
      using fss gl(2) fs(2) s2(1) io_grows_globals(1,6) [OF g1] io_grows_globals(6) [OF g2] unfolding fs_resolve_def
      by (subst fs_resolve_loop.simps) (simp add: fat16_functions_def word_sless_alt)
    moreover have "s\<lparr>ram := st32 (st32 (st32 (memset (ram s) (disk s) 0 20) (disk s) 0) (disk s + 4) 512) (disk s + 8) 0\<rparr> = s1"
      by (simp add: s1_def m_def)
    moreover have "s2\<lparr>ram := st32 (ram s2) (disk s2 + 12) (fat16_fs s)\<rparr> = s2"
      using s2(6) io_grows_globals(1) [OF g2] st32_same [of "ram s2" "disk s + 12"] by simp
    ultimately show "disk_search_and_init fss s = Some s2" by (simp add: disk_search_and_init_def Let_def)
  qed
qed

section \<open>From the disk to the bytes of a file\<close>

abbreviation start_writes :: "('d, 'a) fs_state_scheme \<Rightarrow> addr set" where
  "start_writes s \<equiv> file_layer s \<union> region (disk s) 20 \<union> region (kstack s) 160"

lemma start_spec:
  fixes s :: "('d, 'a) fs_state_scheme"
  assumes dev: "ata_device io xfer data" and vol: "fat16_disk data es" and st: "file_tables s" "6 \<le> kheap_free s"
    and fs: "fss (fat16_fs s) = fat16_functions io"
  obtains s1 s2 ps where "fs_init s = Returns () s1" "disk_search_and_init fss s1 = Some s2" "length ps = 5"
    "io_grows s s2 ps (start_writes s)" "mounted s2 es" "reads_volume s2 data" "ld32 (ram s2) (disk s + 12) = fat16_fs s"
    "(disk_bytes s2 \<union> directory_bytes (ram s2) (root_dir s2) es) \<inter> kheap_owned s \<subseteq> region (disk s) 20" "\<forall>i<512. fd_table s2 ! i = 0"
proof -
  obtain s1 where s1: "fs_init s = Returns () s1" "kp.grows s s1 [] (file_layer s)" "\<forall>i<512. fd_table s1 ! i = 0"
    "ld32 (ram s1) (filesystems s) = fat16_fs s"
    by (rule fs_init_spec [OF st(1)])
  note h1 = io_grows_heap [OF grows_io [OF s1(2)]] io_grows_globals [OF grows_io [OF s1(2)]]
  obtain s2 ps where s2: "disk_search_and_init fss s1 = Some s2" "length ps = 5"
    "io_grows s1 s2 ps (region (disk s1) 20 \<union> region (kstack s1 + 112) 32)" "mounted s2 es" "reads_volume s2 data"
    "ld32 (ram s2) (disk s1 + 12) = fat16_fs s1" "(disk_bytes s2 \<union> directory_bytes (ram s2) (root_dir s2) es) \<inter> kheap_owned s1 \<subseteq> region (disk s1) 20"
    by (rule disk_search_spec [where fss = fss, OF dev vol file_tables_grows [OF st(1) grows_io [OF s1(2)]]]) (use h1 s1(4) st(2) fs in auto)
  have k: "region (kstack s + 112) 32 \<subseteq> region (kstack s) 160" using field_subset [of 112 32 160 "kstack s"] by simp
  have gl: "region (file_descriptors s) 2048 \<subseteq> kheap_owned s"
    "region (file_descriptors s) 2048 \<inter> (region (disk s) 20 \<union> region (kstack s) 160) = {}"
    using st(1) by (auto simp: file_tables_def file_globals_def simp del: mem_region)
  have "fd_table s2 = fd_table s1"
  proof (rule fd_table_cong)
    show "file_descriptors s2 = file_descriptors s1" by (rule io_grows_globals(2) [OF s2(3)])
    fix a assume "a \<in> region (file_descriptors s1) 2048"
    then have "a \<in> kheap_owned s1" "a \<notin> region (disk s1) 20 \<union> region (kstack s1 + 112) 32"
      using gl k h1 by (auto simp del: mem_region)
    then show "ram s2 a = ram s1 a" by (rule io_grows_keeps [OF s2(3)])
  qed
  moreover have "io_grows s s2 ps (start_writes s)"
  proof (rule io_grows_mono)
    show "io_grows s s2 ps (file_layer s \<union> (region (disk s) 20 \<union> region (kstack s + 112) 32))"
      using io_grows_trans [OF grows_io [OF s1(2)] s2(3)] h1 by simp
    show "(file_layer s \<union> (region (disk s) 20 \<union> region (kstack s + 112) 32)) \<inter> kheap_owned s \<subseteq> start_writes s" using k by blast
  qed
  ultimately show thesis using that [OF s1(1) s2(1,2) _ s2(4,5)] s2(6,7) s1(3) h1 by simp
qed

lemma disk_file_spec:
  fixes s :: "('d, 'a) fs_state_scheme" and es :: "(u8 list \<times> u8 list) list" and ys :: "u8 list" and data :: "u32 \<Rightarrow> mem"
  defines "entry \<equiv> last (hits ys es 0)"
  defines "start \<equiv> 512 * unat (file_sector data entry)" and "cb \<equiv> 512 * unat (disk_byte data 13)"
  assumes "ata_device io xfer data" "fat16_disk data es" "file_tables s" "fss (fat16_fs s) = fat16_functions io"
    and "cstr (ram s) filename (48 # of_char CHR '':'' # slash # ys)" "slash \<notin> set ys" "ys \<noteq> []" "length ys \<le> 105"
    and "str_bytes filename (3 + length ys) \<subseteq> kheap_owned s - start_writes s"
    and "ram s mode = of_char CHR ''r''" "mode \<in> kheap_owned s - start_writes s"
    and "hits ys es 0 \<noteq> []" "\<forall>k\<in>set (hits ys es 0). disk_image data (disk_entry data k + 11) AND 0x10 = 0"
    and "12 + 2 * length (hits ys es 0) \<le> kheap_free s"
    and "unat (fat16_get_first_cluster (disk_image data) (disk_entry data entry)) < 2147483648" "start + cb + 512 < 2147483648"
    and "0 < sz" "0 < n" "n * sz \<le> cb" "region out (of_nat (n * sz)) \<subseteq> kheap_owned s - region (disk s) 20"
  shows "\<exists>s1 s2 s3 m d. fs_init s = Returns () s1 \<and> disk_search_and_init fss s1 = Some s2 \<and>
    fopen fss filename mode s2 = Some (1, s3) \<and>
    fread fss out (of_nat sz) (of_nat n) 1 s3 = Some (of_nat n, s3\<lparr>ram := m, dev := d\<rparr>) \<and>
    (\<forall>k<n * sz. m (out + of_nat k) = disk_byte data (start + k))"
proof -
  have "6 \<le> kheap_free s" using assms(17) by simp
  then obtain s1 s2 ps where st: "fs_init s = Returns () s1" "disk_search_and_init fss s1 = Some s2" "length ps = 5"
    "io_grows s s2 ps (start_writes s)" "mounted s2 es" "reads_volume s2 data" "ld32 (ram s2) (disk s + 12) = fat16_fs s"
    "(disk_bytes s2 \<union> directory_bytes (ram s2) (root_dir s2) es) \<inter> kheap_owned s \<subseteq> region (disk s) 20" "\<forall>i<512. fd_table s2 ! i = 0"
    by (rule start_spec [where fss = fss, OF assms(4-6) _ assms(7)])
  note h = io_grows_heap [OF st(4)] io_grows_globals [OF st(4)]
  have entry: "entry < length es" "\<And>k. k \<in> set (hits ys es 0) \<Longrightarrow> k < length es"
    using hits_bounds [of _ ys es 0] last_in_set [OF assms(15)] unfolding entry_def by blast+
  note at = reads_volume_entry [OF st(6) assms(5)]
  have free: "first_free_fd s2 = 0" "0 \<in> set (fd_table s2)"
  proof -
    have z: "fd_table s2 ! 0 = 0" using st(9) by simp
    then show "first_free_fd s2 = 0" using first_free_fd(2) [of s2] by (metis not_gr_zero)
    show "0 \<in> set (fd_table s2)" using z nth_mem [of 0 "fd_table s2"] by simp
  qed
  have vol13: "ram s2 (ld32 (ram s2) (disk s2 + 16) + 13) = disk_byte data 13" using st(6) by (simp add: reads_volume_def)
  have keep: "ram s2 a = ram s a" if "a \<in> kheap_owned s - start_writes s" for a using io_grows_keeps [OF st(4)] that by blast
  have len: "length (48 # of_char CHR '':'' # slash # ys) = 3 + length ys" by simp
  from assms(12) have str: "cstr (ram s2) filename (48 # of_char CHR '':'' # slash # ys)"
    unfolding len [symmetric] by (rule cstr_owned [OF assms(8) _ keep])
  have dirs: "no_directories (ram s2) (root_dir s2) (hits ys es 0)"
    unfolding no_directories_def
  proof
    fix k assume k: "k \<in> set (hits ys es 0)"
    show "ram s2 (entry_at (ram s2) (root_dir s2) k + 11) AND FAT_FILE_SUBDIRECTORY = 0"
      using at(1) [OF entry(2) [OF k], of 11] assms(16) k by simp
  qed
  have own: "str_bytes filename (3 + length ys) \<subseteq> kheap_owned s2" "ram s2 mode = of_char CHR ''r''" "mode \<in> kheap_owned s2"
    using assms(12-14) h(3) keep [of mode] by auto
  have out: "region out (of_nat (n * sz)) \<subseteq> kheap_owned s2 - disk_bytes s2" using assms(23) st(8) h(3) by blast
  have "12 + 2 * length (hits ys es 0) \<le> kheap_free s2 + 5" using assms(17) h(4) st(3) by simp
  then have "7 + 2 * length (hits ys es 0) \<le> kheap_free s2" by simp
  then have "\<exists>s3 m d. fopen fss filename mode s2 = Some (1, s3) \<and>
      fread fss out (of_nat sz) (of_nat n) 1 s3 = Some (of_nat n, s3\<lparr>ram := m, dev := d\<rparr>) \<and>
      (\<forall>k<n * sz. m (out + of_nat k) = disk_byte data (start + k))"
    using fopen_fread_spec [where fss = fss and n = n and sz = sz and out = out,
        OF st(5) assms(4) _ str assms(9-11) own assms(15) dirs free(2)] st(7) h(8) assms(7,18-22) out
      at(2,3) [OF entry(1)] vol13 free(1) unfolding start_def cb_def entry_def by simp
  then show ?thesis using st(1,2) by blast
qed

text \<open>C2. From the disk to the bytes of a file, for reads that fit one cluster.  The machine has a disk with a FAT16 volume.  The
  start of the file layer and of the disk succeeds, \<^verbatim>\<open>fopen("0:/NAME", "r")\<close> gives file number 1 when the root directory on the
  disk has an entry with that name up to case and no such entry is a subdirectory, and \<open>fread\<close> on it of at most the bytes of one
  cluster returns the number of records asked for, with the bytes of the disk from the first sector of that file on, as the entry,
  the header and the format of the volume determine it.  Reads of more than a cluster are outside: the code finds the next cluster
  at a wrong place of the allocation table.  The other conditions: the name has at most 105 characters and no slash, the first
  cluster and the bytes read lie below \<open>2 ^ 31\<close>, the heap has the free pages, and the strings and the buffer are in memory in use
  that the kernel does not write itself.\<close>

theorem disk_file_read:
  fixes s :: "('d, 'a) fs_state_scheme" and es :: "(u8 list \<times> u8 list) list" and ys :: "u8 list" and data :: "u32 \<Rightarrow> mem"
  defines "entry \<equiv> last (hits ys es 0)"
  defines "start \<equiv> 512 * unat (file_sector data entry)" and "cb \<equiv> 512 * unat (disk_byte data 13)"
  assumes "ata_device io xfer data" "fat16_disk data es" "file_tables s" "fss (fat16_fs s) = fat16_functions io"
    and "cstr (ram s) filename (48 # of_char CHR '':'' # slash # ys)" "slash \<notin> set ys" "ys \<noteq> []" "length ys \<le> 105"
    and "str_bytes filename (3 + length ys) \<subseteq> kheap_owned s - start_writes s"
    and "ram s mode = of_char CHR ''r''" "mode \<in> kheap_owned s - start_writes s"
    and "hits ys es 0 \<noteq> []" "\<forall>k\<in>set (hits ys es 0). disk_image data (disk_entry data k + 11) AND 0x10 = 0"
    and "12 + 2 * length (hits ys es 0) \<le> kheap_free s"
    and "unat (fat16_get_first_cluster (disk_image data) (disk_entry data entry)) < 2147483648" "start + cb + 512 < 2147483648"
    and "0 < sz" "0 < n" "n * sz \<le> cb" "region out (of_nat (n * sz)) \<subseteq> kheap_owned s - region (disk s) 20"
  shows "\<exists>s1 s2 s3 m d. fs_init s = Returns () s1 \<and> disk_search_and_init fss s1 = Some s2 \<and>
    fopen fss filename mode s2 = Some (1, s3) \<and>
    fread fss out (of_nat sz) (of_nat n) 1 s3 = Some (of_nat n, s3\<lparr>ram := m, dev := d\<rparr>) \<and>
    (\<forall>k<n * sz. m (out + of_nat k) = disk_byte data (start + k))"
  using assms(4-) unfolding entry_def start_def cb_def by (rule disk_file_spec)

definition demo_start :: "model_drive fs_state" where
  "demo_start = demo_mounted\<lparr>filesystems := 0x28000, fat16_fs := 0x29000\<rparr>"

lemma demo_start_state:
  "disk demo_start = 0x20000" "file_descriptors demo_start = 0x24000" "kstack demo_start = 0x1F0000" "filesystems demo_start = 0x28000"
  "fat16_fs demo_start = 0x29000" "kheap_inv demo_start = kheap_inv demo_mounted" "kheap_owned demo_start = kheap_owned demo_mounted"
  "kheap_free demo_start = kheap_free demo_mounted" "kernelHeap demo_start = kernel_heap" "ram demo_start = demo_root"
  by (simp_all add: demo_start_def demo_mounted_state kheap_inv_def kheap_owned_def kheap_free_def)

lemma demo_start_tables: "file_tables demo_start"
proof -
  have r: "region 0x28000 48 \<subseteq> kheap_owned demo_mounted" "region 0x29000 44 \<subseteq> kheap_owned demo_mounted"
    by (rule demo_region; simp)+
  have "region 0x28000 48 \<inter> region 0x29000 44 = ({} :: addr set)"
    "(region 0x28000 48 \<union> region 0x29000 44) \<inter> (region 0x20000 20 \<union> region 0x24000 2048 \<union> region 0x1F0000 160) = ({} :: addr set)"
    by (auto simp: region_unat simp del: mem_region)
  moreover have "file_globals demo_start" using demo_mounted_globals(1) by (simp add: file_globals_def demo_start_state demo_mounted_state)
  ultimately show ?thesis using r unfolding file_tables_def demo_start_state by simp
qed

lemma demo_start_apart:
  assumes "0x2A000 \<le> unat p \<or> 0x25000 \<le> unat p \<and> unat p + unat n \<le> 0x28000" "unat p + unat n < 0x1F0000"
  shows "region p n \<subseteq> kheap_owned demo_start - start_writes demo_start"
proof -
  have "region p n \<subseteq> kheap_owned demo_start" using demo_region [of p n] assms by (auto simp: demo_start_state simp del: mem_region)
  moreover have "region p n \<inter> start_writes demo_start = {}"
    using assms unfolding demo_start_state by (auto simp: region_unat simp del: mem_region)
  ultimately show ?thesis by blast
qed

theorem disk_file_read_witness:
  "\<exists>s1 s2 s3 m d. fs_init demo_start = Returns () s1 \<and>
    disk_search_and_init (\<lambda>_. fat16_functions (model_ports demo_disk)) s1 = Some s2 \<and>
    fopen (\<lambda>_. fat16_functions (model_ports demo_disk)) 0x25000 0x26000 s2 = Some (1, s3) \<and>
    fread (\<lambda>_. fat16_functions (model_ports demo_disk)) 0x2B000 (of_nat 16) (of_nat 3) 1 s3 = Some (of_nat 3, s3\<lparr>ram := m, dev := d\<rparr>) \<and>
    (\<forall>k<48. m (0x2B000 + of_nat k) = disk_byte demo_disk (1024 + k))"
proof -
  have out: "region 0x2B000 (of_nat (3 * 16)) \<subseteq> kheap_owned demo_start - region (disk demo_start) 20"
    using demo_start_apart [of "0x2B000" 48] by (auto simp del: mem_region)
  have str: "str_bytes 0x25000 (3 + length [98 :: u8]) \<subseteq> kheap_owned demo_start - start_writes demo_start"
    using str_bytes_region [of 4 5 "0x25000"] demo_start_apart [of "0x25000" 5] by (auto simp del: mem_region)
  have mode: "0x26000 \<in> kheap_owned demo_start - start_writes demo_start"
    using demo_start_apart [of "0x26000" 1] by auto
  have "slash \<notin> set [98]" by (simp add: slash_def)
  from disk_file_read [where fss = "\<lambda>_. fat16_functions (model_ports demo_disk)" and ys = "[98]" and n = 3 and sz = 16 and mode = "0x26000",
      OF model_ports_device demo_disk_fat16 demo_start_tables refl _ this _ _ str _ mode _ _ _ _ _ _ _ _ out]
  show ?thesis using demo_files(3) demo_mounted_ready(2) demo_root_bytes
    by (simp add: demo_hits demo_disk_entry demo_disk_header demo_start_state del: mem_region)
qed

end
