(* ===== verification/Kernel_Start.thy ===== *)
theory Kernel_Start
  imports Boot_Steps Disk_Start
begin

text \<open>
  The whole start of the kernel, \<open>kernel_main\<close> of \<^verbatim>\<open>kernel.c\<close>: from the machine as the boot code leaves it to the first
  instruction of the first program.
\<close>

section \<open>The program on the disk\<close>

text \<open>After the start of the file layer a file of the root directory on the disk can be loaded.\<close>

definition disk_length :: "(u32 \<Rightarrow> mem) \<Rightarrow> nat \<Rightarrow> u32" where
  "disk_length data i = ld32 (disk_image data) (disk_entry data i + 28)"

definition disk_program :: "(u32 \<Rightarrow> mem) \<Rightarrow> (u8 list \<times> u8 list) list \<Rightarrow> u8 list \<Rightarrow> bool" where
  "disk_program data es ys \<longleftrightarrow> fat16_disk data es \<and> hits ys es 0 \<noteq> [] \<and>
     (\<forall>k\<in>set (hits ys es 0). disk_image data (disk_entry data k + 11) AND 0x10 = 0) \<and>
     (let entry = last (hits ys es 0); cb = 512 * unat (disk_byte data 13)
      in unat (fat16_get_first_cluster (disk_image data) (disk_entry data entry)) < 2147483648 \<and>
         512 * unat (file_sector data entry) + cb + 512 < 2147483648 \<and>
         0 < disk_length data entry \<and> unat (disk_length data entry) \<le> cb)"

lemma start_loadable:
  fixes s :: "('d, 'a) process_state_scheme" and es :: "(u8 list \<times> u8 list) list" and ys :: "u8 list"
  assumes dev: "ata_device io xfer data" and vol: "disk_program data es ys" and st: "file_tables s" "6 \<le> kheap_free s"
    and fs: "fss (fat16_fs s) = fat16_functions io"
    and name: "cstr (ram s) filename (48 # of_char CHR '':'' # slash # ys)" "slash \<notin> set ys" "ys \<noteq> []" "length ys \<le> 105"
    and own: "str_bytes filename (3 + length ys) \<subseteq> kheap_owned s - start_writes s"
      "ram s (rodata s) = of_char CHR ''r''" "rodata s \<in> kheap_owned s - start_writes s"
  obtains s1 s2 ps where "fs_init s = Returns () s1" "disk_search_and_init fss s1 = Some s2" "length ps = 5"
    "io_grows s s2 ps (start_writes s)" "loadable fss io filename ys es s2"
    "(disk_bytes s2 \<union> directory_bytes (ram s2) (root_dir s2) es) \<inter> kheap_owned s \<subseteq> region (disk s) 20"
    "program_length s2 es ys = disk_length data (last (hits ys es 0))"
    "program_start s2 es ys = 512 * unat (file_sector data (last (hits ys es 0)))"
proof -
  let ?e = "last (hits ys es 0)"
  note vol = vol [unfolded disk_program_def Let_def]
  have disk16: "fat16_disk data es" using vol by blast
  obtain s1 s2 ps where r: "fs_init s = Returns () s1" "disk_search_and_init fss s1 = Some s2" "length ps = 5"
    "io_grows s s2 ps (start_writes s)" "mounted s2 es" "reads_volume s2 data" "ld32 (ram s2) (disk s + 12) = fat16_fs s"
    "(disk_bytes s2 \<union> directory_bytes (ram s2) (root_dir s2) es) \<inter> kheap_owned s \<subseteq> region (disk s) 20" "\<forall>i<512. fd_table s2 ! i = 0"
    by (rule start_spec [where fss = fss, OF dev disk16 st fs])
  note h = io_grows_heap [OF r(4)] io_grows_globals [OF r(4)]
  have rod: "rodata s2 = rodata s" using io_extends_process_globals(2) [OF grows_io_extends [OF r(4)]] .
  have entry: "?e < length es" "\<And>k. k \<in> set (hits ys es 0) \<Longrightarrow> k < length es"
    using hits_bounds [of _ ys es 0] last_in_set [of "hits ys es 0"] vol by blast+
  note at = reads_volume_entry [OF r(6) disk16]
  have item: "program_item s2 es ys = entry_at (ram s2) (root_dir s2) ?e" by (simp add: program_item_def)
  have len: "program_length s2 es ys = disk_length data ?e"
    using at(1) [OF entry(1), of 28] at(1) [OF entry(1), of 29] at(1) [OF entry(1), of 30] at(1) [OF entry(1), of 31]
    by (simp add: program_length_def disk_length_def item ld32_def add.assoc)
  have start: "program_start s2 es ys = 512 * unat (file_sector data ?e)"
    using at(3) [OF entry(1)] by (simp add: program_start_def item)
  have "cluster_bytes s2 = 512 * unat (disk_byte data 13)" using r(6) by (simp add: cluster_bytes_def reads_volume_def)
  moreover have keep: "ram s2 a = ram s a" if "a \<in> kheap_owned s - start_writes s" for a using io_grows_keeps [OF r(4)] that by blast
  have n: "length (48 # of_char CHR '':'' # slash # ys) = 3 + length ys" by simp
  from own(1) have "cstr (ram s2) filename (48 # of_char CHR '':'' # slash # ys)"
    unfolding n [symmetric] by (rule cstr_owned [OF name(1) _ keep])
  moreover have "no_directories (ram s2) (root_dir s2) (hits ys es 0)"
    unfolding no_directories_def
  proof
    fix k assume k: "k \<in> set (hits ys es 0)"
    show "ram s2 (entry_at (ram s2) (root_dir s2) k + 11) AND FAT_FILE_SUBDIRECTORY = 0"
      using at(1) [OF entry(2) [OF k], of 11] vol k by simp
  qed
  moreover have "fd_table s2 ! 0 = 0" using r(9) by simp
  then have "0 \<in> set (fd_table s2)" using nth_mem [of 0 "fd_table s2"] by simp
  moreover have "str_bytes filename (3 + length ys) \<subseteq> kheap_owned s2" "ram s2 (rodata s2) = of_char CHR ''r''" "rodata s2 \<in> kheap_owned s2"
    using own h(3) rod keep [of "rodata s"] by auto
  moreover have "region (kstack s2 + 148) 8 \<subseteq> kheap_owned s2 - (scratch s2 \<union> disk_bytes s2)"
  proof -
    have g: "region (kstack s) 160 \<subseteq> kheap_owned s" "region (disk s) 20 \<inter> region (kstack s) 160 = {}"
      "region (file_descriptors s) 2048 \<inter> region (kstack s) 160 = {}" using st(1) by (auto simp: file_tables_def file_globals_def simp del: mem_region)
    have k: "region (kstack s + 148) 8 \<subseteq> region (kstack s) 160" "region (kstack s) 108 \<inter> region (kstack s + 148) 8 = {}"
      using field_subset [of 148 8 160 "kstack s"] field_disjoint [of 0 108 148 8 "kstack s"] by simp_all
    have gl: "kstack s2 = kstack s" "file_descriptors s2 = file_descriptors s" using h by simp_all
    show ?thesis unfolding gl using g k h(3) r(8) by blast
  qed
  ultimately have "loadable fss io filename ys es s2"
    using r(5,7) vol name(2-4) fs h len start at(2) [OF entry(1)] unfolding loadable_def item by simp
  then show thesis using that [OF r(1-4) _ r(8) len start] by blast
qed

section \<open>The kernel in memory\<close>

definition kernel_objects :: "('d, 'a) kernel_state_scheme \<Rightarrow> (addr \<times> u32) list" where
  "kernel_objects s =
     [(gdt s, 48), (tss s, 100), (idt_descriptor_table s, 4096), (idtr s, 6), (disk s, 20), (file_descriptors s, 2048),
      (filesystems s, 48), (fat16_fs s, 44), (processes s, 48), (kstack s, 160), (rodata s, 15)]"

definition kernel_image :: "('d, 'a) kernel_state_scheme \<Rightarrow> bool" where
  "kernel_image s \<longleftrightarrow>
     (\<forall>(p, n)\<in>set (kernel_objects s). 0x100000 \<le> unat p \<and> unat p + unat n \<le> 0x1000000) \<and>
     sorted_wrt (\<lambda>(p, n) (q, k). region p n \<inter> region q k = {}) (kernel_objects s) \<and>
     ram s (rodata s) = of_char CHR ''r'' \<and> cstr (ram s) (rodata s + 2) (map of_char ''0:/blank.bin'') \<and>
     ld32 (ram s) (processes s) = 0 \<and> task_list_head s = 0 \<and> isr80h_commands s = (\<lambda>_. None) \<and> keyboard_list_last s = 0"

text \<open>Objects above 1 MiB and below the pool of the heap are in use from the start.\<close>

definition image_bytes :: "addr set" where
  "image_bytes = {a. 0x100000 \<le> unat a \<and> unat a < 0x1000000}"

lemma image_region: "0x100000 \<le> unat p \<Longrightarrow> unat p + unat n \<le> 0x1000000 \<Longrightarrow> region p n \<subseteq> image_bytes"
  by (auto simp: image_bytes_def region_unat simp del: mem_region)

lemma image_owned: "image_bytes \<subseteq> kheap_owned (KheapInit s)"
  unfolding KheapInit_owned by (auto simp: image_bytes_def region_unat simp del: mem_region)

lemma image_apart: "image_bytes \<inter> region 0xB8000 3200 = {}" "image_bytes \<inter> region 0x7E00 25600 = {}"
  by (auto simp: image_bytes_def region_unat simp del: mem_region)

lemma kernel_objectsD:
  assumes "kernel_image s"
  shows "region (gdt s) 48 \<subseteq> image_bytes" "region (tss s) 100 \<subseteq> image_bytes" "region (idt_descriptor_table s) 4096 \<subseteq> image_bytes"
    "region (idtr s) 6 \<subseteq> image_bytes" "region (disk s) 20 \<subseteq> image_bytes" "region (file_descriptors s) 2048 \<subseteq> image_bytes"
    "region (filesystems s) 48 \<subseteq> image_bytes" "region (fat16_fs s) 44 \<subseteq> image_bytes" "region (processes s) 48 \<subseteq> image_bytes"
    "region (kstack s) 160 \<subseteq> image_bytes" "region (rodata s) 15 \<subseteq> image_bytes"
    "disk s \<noteq> 0" "filesystems s \<noteq> 0" "fat16_fs s \<noteq> 0"
proof -
  have b: "region p n \<subseteq> image_bytes" "p \<noteq> 0" if "(p, n) \<in> set (kernel_objects s)" for p n
  proof -
    have "0x100000 \<le> unat p" "unat p + unat n \<le> 0x1000000" using assms that unfolding kernel_image_def by blast+
    then show "region p n \<subseteq> image_bytes" "p \<noteq> 0" using image_region by auto
  qed
  show "region (gdt s) 48 \<subseteq> image_bytes" "region (tss s) 100 \<subseteq> image_bytes" "region (idt_descriptor_table s) 4096 \<subseteq> image_bytes"
    "region (idtr s) 6 \<subseteq> image_bytes" "region (disk s) 20 \<subseteq> image_bytes" "region (file_descriptors s) 2048 \<subseteq> image_bytes"
    "region (filesystems s) 48 \<subseteq> image_bytes" "region (fat16_fs s) 44 \<subseteq> image_bytes" "region (processes s) 48 \<subseteq> image_bytes"
    "region (kstack s) 160 \<subseteq> image_bytes" "region (rodata s) 15 \<subseteq> image_bytes"
    by (rule b, simp add: kernel_objects_def)+
  show "disk s \<noteq> 0" "filesystems s \<noteq> 0" "fat16_fs s \<noteq> 0"
    using b(2) [of "disk s" 20] b(2) [of "filesystems s" 48] b(2) [of "fat16_fs s" 44] by (simp_all add: kernel_objects_def)
qed

lemma kernel_objects_apart:
  assumes "kernel_image s"
  shows "region (gdt s) 48 \<inter> (region (disk s) 20 \<union> region (file_descriptors s) 2048 \<union> region (kstack s) 160 \<union> region (rodata s) 15 \<union> region (processes s) 48) = {}"
    "(region (tss s) 100 \<union> region (idt_descriptor_table s) 4096 \<union> region (idtr s) 6) \<inter>
       (region (disk s) 20 \<union> region (file_descriptors s) 2048 \<union> region (kstack s) 160 \<union> region (rodata s) 15 \<union> region (processes s) 48) = {}"
    "region (tss s) 100 \<inter> (region (idt_descriptor_table s) 4096 \<union> region (idtr s) 6) = {}"
    "region (idtr s) 6 \<inter> region (idt_descriptor_table s) 4096 = {}"
    "region (disk s) 20 \<inter> (region (file_descriptors s) 2048 \<union> region (kstack s) 160 \<union> region (rodata s) 15 \<union> region (processes s) 48) = {}"
    "region (file_descriptors s) 2048 \<inter> (region (kstack s) 160 \<union> region (rodata s) 15 \<union> region (processes s) 48) = {}"
    "region (kstack s) 160 \<inter> (region (rodata s) 15 \<union> region (processes s) 48) = {}"
    "region (rodata s) 15 \<inter> region (processes s) 48 = {}"
    "(region (filesystems s) 48 \<union> region (fat16_fs s) 44) \<inter>
       (region (disk s) 20 \<union> region (file_descriptors s) 2048 \<union> region (kstack s) 160 \<union> region (rodata s) 15 \<union> region (processes s) 48) = {}"
    "region (filesystems s) 48 \<inter> region (fat16_fs s) 44 = {}"
  using assms unfolding kernel_image_def kernel_objects_def
  by (simp_all add: Int_Un_distrib Int_Un_distrib2 Int_commute del: mem_region)

section \<open>From the boot code to the mounted disk\<close>

lemma boot_disk_spec:
  fixes s :: "('d, 'a) kernel_state_scheme" and es :: "(u8 list \<times> u8 list) list"
  defines "ys \<equiv> map of_char ''blank.bin'' :: u8 list"
  assumes img: "kernel_image s" and dev: "ata_device io xfer data" and vol: "disk_program data es ys"
  obtains s1 s2 s3 where "boot_segments s = Returns () s1" "fs_init (KheapInit s1) = Returns () s2"
    "disk_search_and_init (kernel_file_systems io) s2 = Some s3"
    "loadable (kernel_file_systems io) io (rodata s + 2) ys es s3" "image_bytes \<subseteq> kheap_owned s3"
    "(disk_bytes s3 \<union> directory_bytes (ram s3) (root_dir s3) es) \<inter> image_bytes \<subseteq> region (disk s) 20"
    "program_length s3 es ys = disk_length data (last (hits ys es 0))"
    "program_start s3 es ys = 512 * unat (file_sector data (last (hits ys es 0)))"
    "kheap_free s3 = 25595" "kheap_room s3 4266" "ld32 (ram s3) (processes s) = 0"
    "\<exists>m d. s3 = s\<lparr>ram := m, dev := d, kernelHeap := kernel_heap, video_mem := 0xB8000, terminal_row := 0, terminal_col := 0,
      gdtr_base := gdt s, gdtr_limit := 47\<rparr>"
proof -
  note obj = kernel_objectsD [OF img] and apart = kernel_objects_apart [OF img]
  obtain m1 where seg: "boot_segments s = Returns () (s\<lparr>ram := m1, video_mem := 0xB8000, terminal_row := 0, terminal_col := 0,
      gdtr_base := gdt s, gdtr_limit := 47\<rparr>)" "same_outside (region 0xB8000 3200 \<union> region (gdt s) 48) (ram s) m1"
    by (rule boot_segments_spec)
  define s1 where "s1 = s\<lparr>ram := m1, video_mem := 0xB8000, terminal_row := 0, terminal_col := 0, gdtr_base := gdt s, gdtr_limit := 47\<rparr>"
  define h where "h = KheapInit s1"
  have hm: "same_outside (region 0x7E00 25600) m1 (ram h)"
    using memset_frame [of "0x7E00" 25600 m1 0] by (simp add: h_def KheapInit_eq s1_def InitializeHeapTable_memset)
  have h: "kheap_inv h" "kheap_free h = 25600" "kheap_room h 25600" "image_bytes \<subseteq> kheap_owned h"
    unfolding h_def by (rule KheapInit_ready KheapInit_room image_owned)+
  have hs: "h = s\<lparr>ram := ram h, kernelHeap := kernel_heap, video_mem := 0xB8000, terminal_row := 0, terminal_col := 0,
      gdtr_base := gdt s, gdtr_limit := 47\<rparr>" by (simp add: h_def KheapInit_eq s1_def)
  have g: "disk h = disk s" "file_descriptors h = file_descriptors s" "filesystems h = filesystems s" "fat16_fs h = fat16_fs s"
    "kstack h = kstack s" "rodata h = rodata s" "kernelHeap h = kernel_heap"
    by (simp_all add: h_def KheapInit_eq s1_def)
  have keep: "ram h a = ram s a" if "a \<in> image_bytes" "a \<notin> region (gdt s) 48" for a
  proof -
    have "a \<notin> region 0xB8000 3200 \<union> region (gdt s) 48" "a \<notin> region 0x7E00 25600" using that image_apart by blast+
    then show ?thesis using same_outsideD [OF seg(2)] same_outsideD [OF hm] by simp
  qed
  have strs: "region (rodata s) 15 \<subseteq> image_bytes - region (gdt s) 48 - start_writes h"
    unfolding g using obj(11) apart(1,5-7,9) by blast
  have rod: "rodata s \<in> region (rodata s) 15" by simp
  have name: "str_bytes (rodata s + 2) 12 \<subseteq> region (rodata s) 15"
  proof -
    have "str_bytes (rodata s + 2) 12 \<subseteq> region (rodata s + 2) 13" by (rule str_bytes_region) simp
    also have "\<dots> \<subseteq> region (rodata s) 15" using field_subset [of 2 13 15 "rodata s"] by simp
    finally show ?thesis .
  qed
  have lit: "map of_char ''0:/blank.bin'' = 48 # of_char CHR '':'' # slash # ys" by (simp add: ys_def slash_def)
  have c: "cstr (ram s) (rodata s + 2) (48 # of_char CHR '':'' # slash # ys)" using img unfolding kernel_image_def lit by blast
  have n: "length (48 # of_char CHR '':'' # slash # ys) = 12" "length ys = 9" by (simp_all add: ys_def)
  have ch: "cstr (ram h) (rodata s + 2) (48 # of_char CHR '':'' # slash # ys)"
    by (rule cstr_owned [OF c, of "region (rodata s) 15"]) (use n name strs keep in auto)
  have "ram h (rodata s) = ram s (rodata s)" using rod strs by (intro keep) blast+
  then have rh: "ram h (rodata h) = of_char CHR ''r''" using img by (simp add: kernel_image_def g)
  have ft: "file_tables h"
    unfolding file_tables_def file_globals_def g using obj h(1,4) apart by (auto simp del: mem_region)
  have "3 + length ys = 12" by (simp add: n(2))
  with name strs h(4) have own: "str_bytes (rodata s + 2) (3 + length ys) \<subseteq> kheap_owned h - start_writes h" by (simp only:) blast
  have rodh: "rodata h \<in> kheap_owned h - start_writes h" unfolding g(6) using strs rod h(4) by blast
  have ys: "slash \<notin> set ys" "ys \<noteq> []" "length ys \<le> 105" by (simp_all add: ys_def slash_def)
  have fs: "kernel_file_systems io (fat16_fs h) = fat16_functions io" by (simp add: kernel_file_systems_def)
  have "6 \<le> kheap_free h" by (simp add: h(2))
  obtain s2 s3 ps where r: "fs_init h = Returns () s2" "disk_search_and_init (kernel_file_systems io) s2 = Some s3" "length ps = 5"
    "io_grows h s3 ps (start_writes h)" "loadable (kernel_file_systems io) io (rodata s + 2) ys es s3"
    "(disk_bytes s3 \<union> directory_bytes (ram s3) (root_dir s3) es) \<inter> kheap_owned h \<subseteq> region (disk h) 20"
    "program_length s3 es ys = disk_length data (last (hits ys es 0))"
    "program_start s3 es ys = 512 * unat (file_sector data (last (hits ys es 0)))"
    by (rule start_loadable [where fss = "kernel_file_systems io", OF dev vol ft \<open>6 \<le> kheap_free h\<close> fs ch ys own rh rodh])
  note e = grows_io_extends [OF r(4), unfolded r(3)] and k = io_grows_heap [OF r(4)]
  show thesis
  proof (rule that [of s1 s2 s3])
    show "boot_segments s = Returns () s1" unfolding s1_def by (rule seg(1))
    show "fs_init (KheapInit s1) = Returns () s2" using r(1) by (simp add: h_def)
    show "(disk_bytes s3 \<union> directory_bytes (ram s3) (root_dir s3) es) \<inter> image_bytes \<subseteq> region (disk s) 20"
      using r(6) h(4) unfolding g(1) by blast
    show "image_bytes \<subseteq> kheap_owned s3" using h(4) k(3) by blast
    show "kheap_free s3 = 25595" using io_extends_heap(5) [OF e] h(2) by simp
    show "kheap_room s3 4266" by (rule io_extends_room [OF e h(3)]) simp
    have p: "region (processes s) 4 \<subseteq> region (processes s) 48" using field_subset [of 0 4 48 "processes s"] by simp
    have "region (processes s) 48 \<subseteq> image_bytes - region (gdt s) 48 - start_writes h"
      unfolding g using obj(9) apart(1,5-7,9) by blast
    then have p4: "region (processes s) 4 \<subseteq> image_bytes - region (gdt s) 48 - start_writes h" using p by blast
    have "ram s3 a = ram s a" if "a \<in> region (processes s) 4" for a
    proof -
      have "a \<in> kheap_owned h" "a \<notin> start_writes h" "a \<in> image_bytes" "a \<notin> region (gdt s) 48"
        using subsetD [OF p4 that] h(4) by blast+
      then show ?thesis using io_grows_keeps [OF r(4)] keep by simp
    qed
    then have "ld32 (ram s3) (processes s) = ld32 (ram s) (processes s)" by (intro ld32_cong)
    then show "ld32 (ram s3) (processes s) = 0" using img by (simp add: kernel_image_def)
    have "s3 = h\<lparr>ram := ram s3, dev := dev s3\<rparr>" by (rule io_extends_state [OF e])
    also have "\<dots> = s\<lparr>ram := ram s3, dev := dev s3, kernelHeap := kernel_heap, video_mem := 0xB8000, terminal_row := 0, terminal_col := 0,
      gdtr_base := gdt s, gdtr_limit := 47\<rparr>" by (subst hs) simp
    finally show "\<exists>m d. s3 = s\<lparr>ram := m, dev := d, kernelHeap := kernel_heap, video_mem := 0xB8000, terminal_row := 0, terminal_col := 0,
      gdtr_base := gdt s, gdtr_limit := 47\<rparr>" by blast
  qed (rule r(2,5,7,8))+
qed

section \<open>The start of the kernel\<close>

lemma kernel_main_spec:
  fixes s :: "('d, 'a) kernel_state_scheme" and es :: "(u8 list \<times> u8 list) list"
  defines "ys \<equiv> map of_char ''blank.bin'' :: u8 list"
  defines "entry \<equiv> last (hits ys es 0)"
  assumes img: "kernel_image s" and dev: "ata_device io xfer data" and vol: "disk_program data es ys" and few: "length (hits ys es 0) \<le> 13"
  obtains uc s' p t stk where "kernel_main io frame flags s = Some (Returns uc s')"
    "uc_eip uc = 0x400000" "uc_cs uc = 0x1B" "uc_esp uc = 0x3FF000" "uc_ss uc = 0x23" "uc_eflags uc = flags OR 0x200"
    "cr0 s' = cr0 s OR 0x80000000"
    "\<forall>j<unat (disk_length data entry). \<exists>a. translate (ram s') (cr3 s') (0x400000 + of_nat j) = Some (a, True, True) \<and>
       ram s' a = disk_byte data (512 * unat (file_sector data entry) + j)"
    "\<forall>va. va - 0x3FB000 < 0x4000 \<longrightarrow> translate (ram s') (cr3 s') va = Some (stk + (va - 0x3FB000), True, True)"
    "p \<noteq> 0" "current_process s' = p" "ld32 (ram s') (processes s) = p" "current_task s' = t" "ld32 (ram s') (p + 112) = t"
    "idtr_base s' = idt_descriptor_table s" "task_register s' = 0x28" "gdtr_base s' = gdt s"
    "\<forall>v<512. gate_is (ram s') (idt_descriptor_table s + 8 * v) (if v = 0x80 then isr80h_wrapper s else interrupt_func_addresses s v)"
    "isr80h_commands s' = [0 \<mapsto> Command0_sum, 1 \<mapsto> Command1_print, 2 \<mapsto> Command2_getkey, 3 \<mapsto> Command3_putchar]"
    "callback_functions s' = (callback_functions s)(0x21 \<mapsto> Classic_keyboard_handle_interrupt)"
proof -
  note obj = kernel_objectsD [OF img] and apart = kernel_objects_apart [OF img]
  let ?D = "region (tss s) 100 \<union> region (idt_descriptor_table s) 4096 \<union> region (idtr s) 6" and ?K = "region (kstack s + 156) 4"
  obtain s1 s2 s3 where A: "boot_segments s = Returns () s1" "fs_init (KheapInit s1) = Returns () s2"
    "disk_search_and_init (kernel_file_systems io) s2 = Some s3"
    "loadable (kernel_file_systems io) io (rodata s + 2) ys es s3" "image_bytes \<subseteq> kheap_owned s3"
    "(disk_bytes s3 \<union> directory_bytes (ram s3) (root_dir s3) es) \<inter> image_bytes \<subseteq> region (disk s) 20"
    "program_length s3 es ys = disk_length data entry" "program_start s3 es ys = 512 * unat (file_sector data entry)"
    "kheap_free s3 = 25595" "kheap_room s3 4266" "ld32 (ram s3) (processes s) = 0"
    "\<exists>m d. s3 = s\<lparr>ram := m, dev := d, kernelHeap := kernel_heap, video_mem := 0xB8000, terminal_row := 0, terminal_col := 0,
      gdtr_base := gdt s, gdtr_limit := 47\<rparr>"
    using boot_disk_spec [OF img dev vol [unfolded ys_def]] unfolding entry_def ys_def by blast
  obtain m d where s3: "s3 = s\<lparr>ram := m, dev := d, kernelHeap := kernel_heap, video_mem := 0xB8000, terminal_row := 0, terminal_col := 0,
      gdtr_base := gdt s, gdtr_limit := 47\<rparr>" using A(12) by blast
  have g3: "disk s3 = disk s" "file_descriptors s3 = file_descriptors s" "kstack s3 = kstack s" "rodata s3 = rodata s" "processes s3 = processes s"
    "tss s3 = tss s" "idt_descriptor_table s3 = idt_descriptor_table s" "idtr s3 = idtr s" "isr80h_wrapper s3 = isr80h_wrapper s"
    "interrupt_func_addresses s3 = interrupt_func_addresses s" "isr80h_commands s3 = (\<lambda>_. None)" "keyboard_list_last s3 = 0"
    using img by (simp_all add: s3 kernel_image_def)
  have inv3: "kheap_inv s3" using A(4) unfolding loadable_def mounted_def dir_ok_def by blast
  have D: "?D \<subseteq> image_bytes" "?D \<inter> region (disk s) 20 = {}" "?D \<inter> region (file_descriptors s) 2048 = {}" "?D \<inter> region (kstack s) 160 = {}"
    "?D \<inter> region (rodata s) 15 = {}" "?D \<inter> region (processes s) 48 = {}"
    using obj(2-4) apart(2) by blast+
  have own3: "?D \<subseteq> kheap_owned s3" using D(1) A(5) by blast
  obtain s4 s5 R where B: "isr80h_register_commands (boot_paging (boot_tss (idtInit s3))) = Returns () s4" "keyboard_init io s4 = s5"
    "machine_extends s3 s5 R 1026 ?D" "kheap_room s5 3240"
    "\<forall>v<512. gate_is (ram s5) (idt_descriptor_table s + 8 * v) (if v = 0x80 then isr80h_wrapper s else interrupt_func_addresses s v)"
    "\<exists>m d c dir h t. s5 = s3\<lparr>ram := m, dev := d, kernel_page_chunk := c, cr3 := dir, current_directory := dir, cr0 := cr0 s3 OR 0x80000000,
       idtr_limit := 4095, idtr_base := idt_descriptor_table s, task_register := 0x28, keyboard_list_head := h, keyboard_list_last := t,
       isr80h_commands := [0 \<mapsto> Command0_sum, 1 \<mapsto> Command1_print, 2 \<mapsto> Command2_getkey, 3 \<mapsto> Command3_putchar],
       callback_functions := (callback_functions s3)(0x21 \<mapsto> Classic_keyboard_handle_interrupt)\<rparr>"
    by (rule boot_interrupts_spec [where s = s3 and io = io and l = 3240, OF inv3, unfolded g3, OF _ _ own3 apart(3,4) refl refl])
      (use A(9,10) in simp_all)
  obtain m5 d5 c5 dir5 h5 t5 where s5: "s5 = s3\<lparr>ram := m5, dev := d5, kernel_page_chunk := c5, cr3 := dir5, current_directory := dir5,
       cr0 := cr0 s3 OR 0x80000000,
       idtr_limit := 4095, idtr_base := idt_descriptor_table s, task_register := 0x28, keyboard_list_head := h5, keyboard_list_last := t5,
       isr80h_commands := [0 \<mapsto> Command0_sum, 1 \<mapsto> Command1_print, 2 \<mapsto> Command2_getkey, 3 \<mapsto> Command3_putchar],
       callback_functions := (callback_functions s3)(0x21 \<mapsto> Classic_keyboard_handle_interrupt)\<rparr>"
    using B(6) by blast
  have g5: "disk s5 = disk s3" "file_descriptors s5 = file_descriptors s3" "kstack s5 = kstack s3" "rodata s5 = rodata s3"
    "processes s5 = processes s" "task_list_head s5 = 0"
    using g3(5) img by (simp_all add: s5 s3 kernel_image_def)
  note h5 = machine_heap [OF B(3)]
  have n: "3 + length ys = 12" by (simp add: ys_def)
  have name: "str_bytes (rodata s + 2) (3 + length ys) \<subseteq> region (rodata s) 15"
  proof -
    have "str_bytes (rodata s + 2) 12 \<subseteq> region (rodata s + 2) 13" by (rule str_bytes_region) simp
    also have "\<dots> \<subseteq> region (rodata s) 15" using field_subset [of 2 13 15 "rodata s"] by simp
    finally show ?thesis unfolding n .
  qed
  have rod: "rodata s \<in> region (rodata s) 15" by simp
  have disk_dir: "X \<inter> (directory_bytes (ram s3) (root_dir s3) es \<union> disk_bytes s3) = {}" if "X \<subseteq> image_bytes" "X \<inter> region (disk s) 20 = {}" for X
    using that A(6) by blast
  have "?D \<inter> (str_bytes (rodata s + 2) (3 + length ys) \<union> {rodata s} \<union> region (file_descriptors s) 2048) = {}"
    using D(3,5) name rod by blast
  then have D5: "?D \<inter> (directory_bytes (ram s3) (root_dir s3) es \<union> disk_bytes s3 \<union> str_bytes (rodata s + 2) (3 + length ys) \<union>
      {rodata s3} \<union> region (file_descriptors s3) 2048) = {}"
    using disk_dir [OF D(1,2)] unfolding g3(2,4) by blast
  note L = loadable_machine [OF A(4) B(3) g5(1-4) D5]
  have ok5: "loadable (kernel_file_systems io) io (rodata s5 + 2) ys es s5" using L(1) g3(4) g5(4) by simp
  have len: "program_length s5 es ys = disk_length data entry" "program_start s5 es ys = 512 * unat (file_sector data entry)"
    using L(2,3) A(7,8) by simp_all
  have "unat (disk_length data entry) \<le> 512 * unat (disk_byte data 13)" using vol unfolding disk_program_def Let_def entry_def by blast
  moreover have "unat (disk_byte data 13) < 256" using unsigned_less [of "disk_byte data 13"] by simp
  ultimately have small: "unat (program_length s5 es ys) \<le> 130560" unfolding len by linarith
  have free: "1100 \<le> kheap_free s5" using h5(4) A(9) by simp
  have own5: "image_bytes \<subseteq> kheap_owned s5" using A(5) h5(2) by blast
  have keep5: "ram s5 a = ram s3 a" if "a \<in> image_bytes" "a \<notin> ?D" for a using that A(5) by (intro h5(5)) blast+
  have kst: "?K \<subseteq> region (kstack s) 160" "region (kstack s) 108 \<subseteq> region (kstack s) 160" "region (kstack s + 148) 8 \<subseteq> region (kstack s) 160"
    "?K \<inter> region (kstack s) 108 = {}" "?K \<inter> region (kstack s + 148) 8 = {}"
    using field_subset [of 156 4 160 "kstack s"] field_subset [of 0 108 160 "kstack s"] field_subset [of 148 8 160 "kstack s"]
      field_disjoint [of 0 108 156 4 "kstack s"] field_disjoint [of 148 8 156 4 "kstack s"] by (simp_all add: Int_commute del: mem_region)
  have "region (processes s) 4 \<subseteq> region (processes s) 48" using field_subset [of 0 4 48 "processes s"] by simp
  then have "ram s5 a = ram s3 a" if "a \<in> region (processes s) 4" for a using that obj(9) D(6) by (intro keep5) blast+
  then have "ld32 (ram s5) (processes s) = ld32 (ram s3) (processes s)" by (intro ld32_cong)
  then have slot: "ld32 (ram s5) (processes s5) = 0" using A(11) g5(5) by simp
  have "region (file_stream (ram s3) (disk s3)) 4 \<subseteq> disk_bytes s3"
    using field_subset [of 0 4 8 "file_stream (ram s3) (disk s3)"] unfolding disk_bytes_def by auto
  then have str: "region (file_stream (ram s3) (disk s3)) 4 \<inter> image_bytes \<subseteq> region (disk s) 20" using A(6) by blast
  have W: "X \<inter> load_writes s5 = {}" if "X \<subseteq> image_bytes" "X \<inter> region (disk s) 20 = {}" "X \<inter> region (file_descriptors s) 2048 = {}"
      "X \<inter> (region (kstack s) 108 \<union> region (kstack s + 148) 8) = {}" for X
    unfolding L(5) g3(2,3) using that str by blast
  have K: "?K \<subseteq> image_bytes" "?K \<inter> region (disk s) 20 = {}" "?K \<inter> region (file_descriptors s) 2048 = {}"
    "?K \<inter> region (rodata s) 15 = {}" "?K \<inter> region (processes s) 48 = {}"
    using kst(1) obj(10) apart(5,6,7) by blast+
  have P: "region (processes s) 48 \<inter> region (disk s) 20 = {}" "region (processes s) 48 \<inter> region (file_descriptors s) 2048 = {}"
    "region (processes s) 48 \<inter> region (kstack s) 160 = {}" using apart(5,6,7) by blast+
  have KW: "?K \<inter> load_writes s5 = {}" using kst(4,5) by (intro W K) blast
  have PW: "region (processes s) 48 \<inter> load_writes s5 = {}" using P(3) kst(2,3) by (intro W obj(9) P) blast
  have vars: "region (kstack s5 + 156) 4 \<union> region (processes s5) 48 \<subseteq> kheap_owned s5 - load_writes s5"
    "region (kstack s5 + 156) 4 \<inter> region (processes s5) 48 = {}"
  proof -
    have "kstack s5 = kstack s" using g3(3) g5(3) by simp
    then have e: "region (kstack s5 + 156) 4 = ?K" "region (processes s5) 48 = region (processes s) 48" using g5(5) by simp_all
    show "region (kstack s5 + 156) 4 \<inter> region (processes s5) 48 = {}" unfolding e by (rule K(5))
    have "?K \<union> region (processes s) 48 \<subseteq> kheap_owned s5" using K(1) obj(9) own5 by blast
    then show "region (kstack s5 + 156) 4 \<union> region (processes s5) 48 \<subseteq> kheap_owned s5 - load_writes s5"
      unfolding e using KW PW by blast
  qed
  have KA: "region (kstack s5 + 156) 4 \<inter> (directory_bytes (ram s5) (root_dir s5) es \<union> disk_bytes s5 \<union> str_bytes (rodata s5 + 2) (3 + length ys) \<union>
      {rodata s5} \<union> region (file_descriptors s5) 2048) = {}"
  proof -
    have e: "kstack s5 = kstack s" "rodata s5 = rodata s" "file_descriptors s5 = file_descriptors s" using g3 g5 by simp_all
    have "?K \<inter> (str_bytes (rodata s + 2) (3 + length ys) \<union> {rodata s} \<union> region (file_descriptors s) 2048) = {}"
      using K(3,4) name rod by blast
    then show ?thesis unfolding L(4,6) e using disk_dir [OF K(1,2)] by blast
  qed
  obtain uc s' p t dir stk where C: "boot_process io frame flags s5 = Some (Returns uc s')"
    "uc_eip uc = 0x400000" "uc_cs uc = 0x1B" "uc_esp uc = 0x3FF000" "uc_ss uc = 0x23" "uc_eflags uc = flags OR 0x200"
    "p \<noteq> 0" "ld32 (ram s') (processes s5) = p" "ld32 (ram s') (p + 112) = t"
    "\<forall>j<unat (program_length s5 es ys). \<exists>a. translate (ram s') dir (0x400000 + of_nat j) = Some (a, True, True) \<and>
       ram s' a = disk_byte data (program_start s5 es ys + j)"
    "\<forall>va. va - 0x3FB000 < 0x4000 \<longrightarrow> translate (ram s') dir va = Some (stk + (va - 0x3FB000), True, True)"
    "\<forall>a\<in>kheap_owned s5 - (load_writes s5 \<union> (region (kstack s5 + 156) 4 \<union> region (processes s5) 48)). ram s' a = ram s5 a"
    "\<exists>m d h l. s' = s5\<lparr>ram := m, dev := d, task_list_head := h, task_list_tail := l, current_process := p, current_task := t,
       cr3 := dir, current_directory := dir, data_segments := 0x23\<rparr>"
    by (rule boot_process_spec [OF ok5 dev small few free B(4) slot g5(6) vars KA])
  obtain m6 d6 h6 l6 where s': "s' = s5\<lparr>ram := m6, dev := d6, task_list_head := h6, task_list_tail := l6, current_process := p, current_task := t,
       cr3 := dir, current_directory := dir, data_segments := 0x23\<rparr>" using C(13) by blast
  show thesis
  proof (rule that [of uc s' stk p t])
    show "kernel_main io frame flags s = Some (Returns uc s')"
      using A(1-3) B(1,2) C(1) by (simp add: kernel_main_def)
    have c: "cr3 s' = dir" by (simp add: s')
    show "\<forall>j<unat (disk_length data entry). \<exists>a. translate (ram s') (cr3 s') (0x400000 + of_nat j) = Some (a, True, True) \<and>
       ram s' a = disk_byte data (512 * unat (file_sector data entry) + j)" using C(10) unfolding c len .
    show "\<forall>va. va - 0x3FB000 < 0x4000 \<longrightarrow> translate (ram s') (cr3 s') va = Some (stk + (va - 0x3FB000), True, True)"
      using C(11) unfolding c .
    show "\<forall>v<512. gate_is (ram s') (idt_descriptor_table s + 8 * v) (if v = 0x80 then isr80h_wrapper s else interrupt_func_addresses s v)"
    proof (intro allI impI)
      fix v :: u32 assume v: "v < 512"
      show "gate_is (ram s') (idt_descriptor_table s + 8 * v) (if v = 0x80 then isr80h_wrapper s else interrupt_func_addresses s v)"
      proof (rule gate_is_cong [OF B(5) [rule_format, OF v]])
        let ?I = "region (idt_descriptor_table s) 4096"
        fix x assume x: "x \<in> region (idt_descriptor_table s + 8 * v) 8"
        have "x \<in> ?I" using x gate_in_table [of v "idt_descriptor_table s"] v by (auto simp: word_less_nat_alt simp del: mem_region)
        moreover have "?I \<inter> load_writes s5 = {}"
          using obj(3) D(2-4) kst(2,3) by (intro W) blast+
        moreover have "?I \<inter> ?K = {}" "?I \<inter> region (processes s) 48 = {}" using D(4,6) kst(1) by blast+
        moreover have "kstack s5 = kstack s" using g3(3) g5(3) by simp
        ultimately have "x \<in> kheap_owned s5 - (load_writes s5 \<union> (region (kstack s5 + 156) 4 \<union> region (processes s5) 48))"
          unfolding g5(5) using obj(3) own5 by (simp only:) blast
        then show "ram s' x = ram s5 x" using C(12) by blast
      qed
    qed
  qed (use C(2-9) g5(5) in \<open>simp_all add: s' s5 s3\<close>)
qed

text \<open>C1. The whole start of the kernel.  On a machine with the kernel in memory, its globals as the boot code leaves them, and a drive
  with a FAT16 volume that has a non-empty \<^verbatim>\<open>BLANK.BIN\<close> of at most one cluster in its root directory (and at most thirteen entries
  with that name), \<open>kernel_main\<close> returns to user mode without a panic: at 0x400000, with the user's segments, an empty stack at
  0x3FF000 and interrupts on.  Paging is on, and in the address space that is loaded the bytes of the file on the disk stand at 0x400000
  and on, and 16 KiB below the stack pointer are writable.  The program's process is the current one and the first of the table; the
  gates of all 512 interrupts, the four system calls and the keyboard handler are installed.\<close>

theorem kernel_main_starts_program:
  fixes s :: "('d, 'a) kernel_state_scheme" and es :: "(u8 list \<times> u8 list) list"
  defines "ys \<equiv> map of_char ''blank.bin'' :: u8 list"
  defines "entry \<equiv> last (hits ys es 0)"
  assumes "kernel_image s" "ata_device io xfer data" "disk_program data es ys" "length (hits ys es 0) \<le> 13"
  shows "\<exists>uc s' p t stk. kernel_main io frame flags s = Some (Returns uc s') \<and>
    uc_eip uc = 0x400000 \<and> uc_cs uc = 0x1B \<and> uc_esp uc = 0x3FF000 \<and> uc_ss uc = 0x23 \<and> uc_eflags uc = flags OR 0x200 \<and>
    cr0 s' = cr0 s OR 0x80000000 \<and>
    (\<forall>j<unat (disk_length data entry). \<exists>a. translate (ram s') (cr3 s') (0x400000 + of_nat j) = Some (a, True, True) \<and>
       ram s' a = disk_byte data (512 * unat (file_sector data entry) + j)) \<and>
    (\<forall>va. va - 0x3FB000 < 0x4000 \<longrightarrow> translate (ram s') (cr3 s') va = Some (stk + (va - 0x3FB000), True, True)) \<and>
    p \<noteq> 0 \<and> current_process s' = p \<and> ld32 (ram s') (processes s) = p \<and> current_task s' = t \<and> ld32 (ram s') (p + 112) = t \<and>
    idtr_base s' = idt_descriptor_table s \<and> task_register s' = 0x28 \<and> gdtr_base s' = gdt s \<and>
    (\<forall>v<512. gate_is (ram s') (idt_descriptor_table s + 8 * v) (if v = 0x80 then isr80h_wrapper s else interrupt_func_addresses s v)) \<and>
    isr80h_commands s' = [0 \<mapsto> Command0_sum, 1 \<mapsto> Command1_print, 2 \<mapsto> Command2_getkey, 3 \<mapsto> Command3_putchar] \<and>
    callback_functions s' = (callback_functions s)(0x21 \<mapsto> Classic_keyboard_handle_interrupt)"
  using assms(3-6) unfolding entry_def ys_def by (rule kernel_main_spec [where frame = frame and flags = flags]) blast

text \<open>A disk with \<^verbatim>\<open>BLANK.BIN\<close>, of 1500 bytes from cluster 2 on, and a kernel linked at 1 MiB.\<close>

definition boot_disk :: "u32 \<Rightarrow> mem" where
  "boot_disk lba i =
     (if lba = 0 then (if i = 13 then 4 else if i = 14 then 1 else if i = 17 then 16 else if i = 38 then 0x29 else 0)
      else if lba = 1 then
        (if i < 11 then map of_char ''BLANK   BIN'' ! unat i else if i = 26 then 2 else if i = 28 then 0xDC else if i = 29 then 5 else 0)
      else ucast (lba * 7 + i))"

definition boot_machine :: "model_drive kernel_state" where
  "boot_machine = \<lparr>ram = st32 (st32 (st32 (st32 (\<lambda>_. 0) 0x106000 0x3A300072) 0x106004 0x616C622F) 0x106008 0x622E6B6E) 0x10600C 0x6E69,
     kernelHeap = kernel_heap, current_directory = 0, cr3 = 0, cr0 = 1, video_mem = 0, terminal_row = 0, terminal_col = 0,
     dev = \<lparr>high = 0, low = 0, mid = 0, upper = 0, words_taken = 0\<rparr>, disk = 0x100000, fat16_fs = 0x100100, filesystems = 0x100200,
     file_descriptors = 0x101000, kstack = 0x1FF000, current_task = 0, task_list_head = 0, task_list_tail = 0, kernel_page_chunk = 0,
     data_segments = 0x10, current_process = 0, processes = 0x100300, rodata = 0x106000,
     idt_descriptor_table = 0x102000, idtr = 0x100400, interrupt_func_addresses = (\<lambda>i. 0x110000 + 16 * i),
     isr80h_wrapper = 0x120000, isr80h_commands = (\<lambda>_. None), callback_functions = (\<lambda>_. None), idtr_base = 0, idtr_limit = 0,
     keyboard_list_head = 0, keyboard_list_last = 0, classic_keyboard = 0x100500,
     gdt = 0x100600, tss = 0x100700, gdtr_base = 0, gdtr_limit = 0, task_register = 0\<rparr>"

lemma boot_machine_image: "kernel_image boot_machine"
proof -
  have "ram boot_machine 0x106000 = of_char CHR ''r''" "cstr (ram boot_machine) 0x106002 (map of_char ''0:/blank.bin'')"
    by (simp_all add: boot_machine_def st32_def)
  moreover have "ld32 (ram boot_machine) 0x100300 = 0" by (simp add: boot_machine_def ld32_st32) (simp add: ld32_def)
  moreover have "sorted_wrt (\<lambda>(p, n) (q, k). region p n \<inter> region q k = {}) (kernel_objects boot_machine)"
    unfolding kernel_objects_def boot_machine_def by (auto simp: region_unat simp del: mem_region)
  moreover have "\<forall>(p, n)\<in>set (kernel_objects boot_machine). 0x100000 \<le> unat p \<and> unat p + unat n \<le> 0x1000000"
    by (simp add: kernel_objects_def boot_machine_def)
  ultimately show ?thesis by (simp add: kernel_image_def) (simp add: boot_machine_def)
qed

lemma boot_disk_header:
  "disk_byte boot_disk 13 = 4" "disk_byte boot_disk 38 = 0x29" "root_sector boot_disk = 1" "root_entries boot_disk = 16"
  by (simp_all add: disk_byte_def boot_disk_def root_sector_def root_entries_def disk_image_def ld16_def)

lemma boot_disk_fat16: "fat16_disk boot_disk [(map of_char ''BLANK'', map of_char ''BIN'')]"
proof -
  have "\<exists>n<2 ^ 20. (\<forall>i<n. disk_byte boot_disk (512 + 32 * i) \<noteq> 0) \<and> disk_byte boot_disk (512 + 32 * n) = 0 \<and>
      used_entries boot_disk 512 n = length [(map of_char ''BLANK'', map of_char ''BIN'') :: u8 list \<times> u8 list]"
    by (rule exI [of _ 1]) (simp add: disk_byte_def boot_disk_def)
  then show ?thesis
    by (simp add: fat16_disk_def boot_disk_header) (simp add: disk_image_def disk_byte_def boot_disk_def)
qed

lemma boot_disk_hits: "hits (map of_char ''blank.bin'') [(map of_char ''BLANK'', map of_char ''BIN'')] 0 = [0]"
  by (simp add: hits_def same_name_def entry_name_def toLower_def word_sle_eq)

lemma boot_disk_entry:
  "disk_entry boot_disk 0 = 512" "fat16_get_first_cluster (disk_image boot_disk) 512 = 2" "disk_image boot_disk 523 = 0"
  "file_sector boot_disk 0 = 2" "disk_length boot_disk 0 = 1500"
proof -
  show e: "disk_entry boot_disk 0 = 512" by (simp add: disk_entry_def boot_disk_header)
  show c: "fat16_get_first_cluster (disk_image boot_disk) 512 = 2"
    by (simp add: fat16_get_first_cluster_def ld16_def disk_image_def disk_byte_def boot_disk_def)
  show "disk_image boot_disk 523 = 0" by (simp add: disk_image_def disk_byte_def boot_disk_def)
  show "file_sector boot_disk 0 = 2" by (simp add: file_sector_def e c boot_disk_header root_sectors_def)
  show "disk_length boot_disk 0 = 1500" by (simp add: disk_length_def e ld32_def disk_image_def disk_byte_def boot_disk_def)
qed

lemma boot_disk_program: "disk_program boot_disk [(map of_char ''BLANK'', map of_char ''BIN'')] (map of_char ''blank.bin'')"
  unfolding disk_program_def boot_disk_hits using boot_disk_fat16 by (simp add: boot_disk_entry boot_disk_header)

theorem kernel_main_starts_program_witness:
  "\<exists>uc s'. kernel_main (model_ports boot_disk) 0x1FFF00 2 boot_machine = Some (Returns uc s') \<and> uc_eip uc = 0x400000 \<and>
    (\<forall>j<1500. \<exists>a. translate (ram s') (cr3 s') (0x400000 + of_nat j) = Some (a, True, True) \<and> ram s' a = disk_byte boot_disk (1024 + j))"
proof -
  have "length (hits (map of_char ''blank.bin'') [(map of_char ''BLANK'', map of_char ''BIN'')] 0) \<le> 13" unfolding boot_disk_hits by simp
  from kernel_main_starts_program [OF boot_machine_image model_ports_device boot_disk_program this, of "0x1FFF00" 2,
    unfolded boot_disk_hits last.simps boot_disk_entry]
  show ?thesis by (simp add: boot_disk_entry) blast
qed

end
