(* ===== verification/Console.thy ===== *)
theory Console
  imports Isr80h
begin

text \<open>
  The console as a state machine: what happens between a program that polls for keys and the keyboard,
  as the kernel sees it.  A run is a sequence of keyboard interrupts, system calls for a key, steps of the
  program and the processor (they write the interrupt frame and memory outside the structures the
  kernel uses here) and changes of the devices; it keeps the keys typed and the keys read.
\<close>

section \<open>Reading a key\<close>

definition console_structures :: "('d, 'a) keyboard_state_scheme \<Rightarrow> addr set" where
  "console_structures s = region (current_task s) 64 \<union> region (current_process s + 4224) 1032"

definition console_ok :: "addr \<Rightarrow> ('d, 'a) keyboard_state_scheme \<Rightarrow> bool" where
  "console_ok frame s \<longleftrightarrow> keyboard_inv s \<and> isr80h_commands s 2 = Some Command2_getkey \<and>
     callback_functions s 0x21 = Some Classic_keyboard_handle_interrupt \<and>
     region (current_task s) 64 \<inter> region frame 52 = {} \<and>
     region (current_task s) 52 \<inter> region (current_process s + 4224) 1032 = {}"

text \<open>Saving the registers of the task on entry leaves the keys alone.\<close>

lemma entry_keeps_keys:
  assumes "console_ok frame s"
  defines "s1 \<equiv> kernel_page s\<lparr>ram := task_save_state (current_task s) frame (ram s)\<rparr>"
  shows "keyboard_inv s1" "keys_waiting s1 = keys_waiting s" "current_task s1 = current_task s"
    "current_process s1 = current_process s" "isr80h_commands s1 = isr80h_commands s"
    "callback_functions s1 = callback_functions s"
    "task_current_save_state frame (kernel_page s) = Returns () s1"
proof -
  have ok: "keyboard_inv s" "region (current_task s) 64 \<inter> region frame 52 = {}"
    "region (current_task s) 52 \<inter> region (current_process s + 4224) 1032 = {}" using assms(1) by (simp_all add: console_ok_def)
  note saved = saved_registers [OF ok(2), of "ram s"]
  have "task_save_state (current_task s) frame (ram s) a = ram s a" if "a \<in> region (current_process s + 4224) 1032" for a
    using that ok(3) saved(12) by (auto intro: same_outsideD simp del: mem_region)
  note r = ring_cong [OF this]
  have "region (current_task s + 52) 4 \<inter> region (current_task s + 0) 52 = {}"
    using field_disjoint [of 0 52 52 4 "current_task s"] by auto
  then have "ld32 (task_save_state (current_task s) frame (ram s)) (current_task s + 52) = ld32 (ram s) (current_task s + 52)"
    using ld32_same_outside [OF saved(12)] by simp
  then show "keyboard_inv s1" "keys_waiting s1 = keys_waiting s"
    using ok(1) r by (simp_all add: s1_def keyboard_inv_def keys_waiting_def)
  show "current_task s1 = current_task s" "current_process s1 = current_process s" "isr80h_commands s1 = isr80h_commands s"
    "callback_functions s1 = callback_functions s" by (simp_all add: s1_def)
  show "task_current_save_state frame (kernel_page s) = Returns () s1"
    using ok(1) by (simp add: task_current_save_state_def task_current_def keyboard_inv_def s1_def)
qed

lemma task_page_keeps:
  "keyboard_inv (snd (task_page s)) = keyboard_inv s" "keys_waiting (snd (task_page s)) = keys_waiting s"
  "current_task (snd (task_page s)) = current_task s" "current_process (snd (task_page s)) = current_process s"
  "isr80h_commands (snd (task_page s)) = isr80h_commands s" "callback_functions (snd (task_page s)) = callback_functions s"
  by (simp_all add: task_page_def task_switch_def user_registers_def paging_switch_def paging_load_directory_def
      keyboard_inv_def keys_waiting_def)

lemma keyboard_pop_keeps:
  assumes "keyboard_inv s"
  shows "keyboard_inv (snd (keyboard_pop s))" "current_task (snd (keyboard_pop s)) = current_task s"
    "current_process (snd (keyboard_pop s)) = current_process s"
    "isr80h_commands (snd (keyboard_pop s)) = isr80h_commands s" "callback_functions (snd (keyboard_pop s)) = callback_functions s"
    "(if fst (keyboard_pop s) = 0 then [] else [fst (keyboard_pop s)]) @ keys_waiting (snd (keyboard_pop s)) = keys_waiting s"
proof -
  note pop = keyboard_pop_queue [OF assms]
  show "keyboard_inv (snd (keyboard_pop s))" using pop assms by (cases "keys_waiting s = []") auto
  show "current_task (snd (keyboard_pop s)) = current_task s" "current_process (snd (keyboard_pop s)) = current_process s"
    "isr80h_commands (snd (keyboard_pop s)) = isr80h_commands s" "callback_functions (snd (keyboard_pop s)) = callback_functions s"
    by (simp_all add: keyboard_pop_ring [OF assms] Let_def)
  show "(if fst (keyboard_pop s) = 0 then [] else [fst (keyboard_pop s)]) @ keys_waiting (snd (keyboard_pop s)) = keys_waiting s"
    using pop by (cases "keys_waiting s") auto
qed

lemma getkey_spec:
  assumes "console_ok frame s"
  shows "\<exists>c s'. isr80h_handler 2 frame s = Some (Returns (scast (c :: u8)) s') \<and> console_ok frame s' \<and>
    (if c = 0 then [] else [c]) @ keys_waiting s' = keys_waiting s"
proof -
  define s1 where "s1 = kernel_page s\<lparr>ram := task_save_state (current_task s) frame (ram s)\<rparr>"
  note entry = entry_keeps_keys [OF assms, folded s1_def]
  note pop = keyboard_pop_keeps [OF entry(1)]
  have "isr80h_commands s1 2 = Some Command2_getkey" using entry(5) assms by (simp add: console_ok_def)
  then have "isr80h_handler 2 frame s =
      Some (Returns (scast (fst (keyboard_pop s1))) (snd (task_page (snd (keyboard_pop s1)))))"
    by (simp add: isr80h_handler_def entry(7) handle_command isr80h_command2_getkey_def split_beta)
  moreover have "console_ok frame (snd (task_page (snd (keyboard_pop s1))))"
    using assms entry pop by (simp add: console_ok_def task_page_keeps)
  ultimately show ?thesis using pop(6) entry(2) by (auto simp: task_page_keeps)
qed

section \<open>Runs\<close>

inductive console_run :: "'d ports \<Rightarrow> u8 \<Rightarrow> addr \<Rightarrow> ('d, 'a) keyboard_state_scheme \<Rightarrow>
    u8 list \<Rightarrow> u8 list \<Rightarrow> ('d, 'a) keyboard_state_scheme \<Rightarrow> bool" for io beyond frame s where
  start: "console_run io beyond frame s [] [] s"
| elsewhere: "console_run io beyond frame s ts rs s1 \<Longrightarrow> same_outside (- console_structures s1) (ram s1) m \<Longrightarrow>
    console_run io beyond frame s ts rs (s1\<lparr>ram := m, dev := d\<rparr>)"
| key: "console_run io beyond frame s ts rs s1 \<Longrightarrow> length (keys_waiting s1) < 1024 \<Longrightarrow>
    interrupt_handler io beyond 0x21 frame s1 = Returns () s2 \<Longrightarrow>
    console_run io beyond frame s (ts @ typed beyond (fst (insb io 0x60 (dev s1)))) rs s2"
| getkey: "console_run io beyond frame s ts rs s1 \<Longrightarrow> isr80h_handler 2 frame s1 = Some (Returns c s2) \<Longrightarrow>
    console_run io beyond frame s ts (rs @ (if c = 0 then [] else [ucast c])) s2"

lemma elsewhere_ok:
  assumes "console_ok frame s" "same_outside (- console_structures s) (ram s) m"
  shows "console_ok frame (s\<lparr>ram := m, dev := d\<rparr>)" "keys_waiting (s\<lparr>ram := m, dev := d\<rparr>) = keys_waiting s"
proof -
  have same: "m a = ram s a" if "a \<in> console_structures s" for a using that assms(2) by (auto intro: same_outsideD)
  have r: "ring m (current_process s) = ring (ram s) (current_process s)" "ring_ok m (current_process s) = ring_ok (ram s) (current_process s)"
    using ring_cong [of "current_process s" m "ram s"] same by (simp_all add: console_structures_def del: mem_region)
  have "region (current_task s + 52) 4 \<subseteq> region (current_task s) 64" using field_subset [of 52 4 64 "current_task s"] by simp
  then have "m a = ram s a" if "a \<in> region (current_task s + 52) 4" for a
    using that same unfolding console_structures_def by blast
  then have "ld32 m (current_task s + 52) = ld32 (ram s) (current_task s + 52)" by (rule ld32_cong)
  with r show "console_ok frame (s\<lparr>ram := m, dev := d\<rparr>)" "keys_waiting (s\<lparr>ram := m, dev := d\<rparr>) = keys_waiting s"
    using assms(1) by (simp_all add: console_ok_def keyboard_inv_def keys_waiting_def)
qed

lemma key_spec:
  assumes "console_ok frame s" "length (keys_waiting s) < 1024"
  shows "\<exists>s'. interrupt_handler io beyond 0x21 frame s = Returns () s' \<and> console_ok frame s' \<and>
    keys_waiting s' = keys_waiting s @ typed beyond (fst (insb io 0x60 (dev s)))"
proof -
  obtain scancode d1 where scan: "insb io 0x60 (dev s) = (scancode, d1)" by fastforce
  show ?thesis
    using keyboard_interrupt_spec [OF _ assms(2) _ scan, of frame beyond] assms(1) scan
    by (auto simp: console_ok_def)
qed

text \<open>C22. For every run, however key presses, polls, steps of the program and of the devices are interleaved,
  as long as a key is pressed only while fewer than 1024 wait: the keys the program has read, followed by
  those that still wait, are the keys that waited at the start followed by the keys typed, in order; and
  the kernel is ready again, both entry points return without a panic.\<close>

theorem console_run_fifo:
  assumes "console_run io beyond frame s ts rs s'" "console_ok frame s"
  shows "rs @ keys_waiting s' = keys_waiting s @ ts \<and> console_ok frame s' \<and>
    (\<exists>c s''. isr80h_handler 2 frame s' = Some (Returns c s'')) \<and>
    (length (keys_waiting s') < 1024 \<longrightarrow> (\<exists>s''. interrupt_handler io beyond 0x21 frame s' = Returns () s''))"
proof -
  have "rs @ keys_waiting s' = keys_waiting s @ ts \<and> console_ok frame s'"
    using assms
  proof (induction rule: console_run.induct)
    case (elsewhere ts rs s1 m d)
    then show ?case using elsewhere_ok [of frame s1 m d] by simp
  next
    case (key ts rs s1 s2)
    then show ?case using key_spec [of frame s1 io beyond] by auto
  next
    case (getkey ts rs s1 c s2)
    then show ?case using getkey_spec [of frame s1] by (auto split: if_splits)
  qed simp
  moreover from this have "\<exists>c s''. isr80h_handler 2 frame s' = Some (Returns c s'')"
    using getkey_spec [of frame s'] by auto
  ultimately show ?thesis using key_spec [of frame s' io beyond] by auto
qed

section \<open>A run\<close>

theorem console_run_fifo_witness:
  "\<exists>s'. console_run demo_keyboard_ports 0 0x6000 (demo_keyboard\<lparr>isr80h_commands := [2 \<mapsto> Command2_getkey]\<rparr>)
    [of_char CHR ''Q''] [] s' \<and> keys_waiting s' = [of_char CHR ''Q'']"
proof -
  let ?s = "demo_keyboard\<lparr>isr80h_commands := [2 \<mapsto> Command2_getkey]\<rparr>"
  have apart: "region 0x30000 64 \<inter> region 0x6000 (52 :: u32) = {}" "region 0x30000 52 \<inter> region (0x20000 + 4224) (1032 :: u32) = {}"
    by (auto simp: region_unat simp del: mem_region)
  have inv: "keyboard_inv ?s" "keys_waiting ?s = []"
    using demo_keyboard_inv demo_keyboard_empty by (simp_all add: keyboard_inv_def keys_waiting_def)
  have f: "callback_functions ?s 0x21 = Some Classic_keyboard_handle_interrupt" "isr80h_commands ?s 2 = Some Command2_getkey"
    "current_task ?s = 0x30000" "current_process ?s = 0x20000"
    by (simp_all add: demo_keyboard_def demo_keyboard_ports_def)
  have ok: "console_ok 0x6000 ?s" using inv f(1,2) apart unfolding console_ok_def f(3,4) by blast
  have "typed 0 0x10 = [of_char CHR ''Q'']"
    by (simp add: typed_def classic_keyboard_scancode_to_char_def keyboard_scan_set_one_def)
  moreover obtain s' where "interrupt_handler demo_keyboard_ports 0 0x21 0x6000 ?s = Returns () s'"
    using key_spec [OF ok, of demo_keyboard_ports 0] inv(2) by auto
  then have "console_run demo_keyboard_ports 0 0x6000 ?s ([] @ typed 0 (fst (insb demo_keyboard_ports 0x60 (dev ?s)))) [] s'"
    using inv(2) by (intro console_run.key [OF console_run.start]) simp_all
  ultimately have run: "console_run demo_keyboard_ports 0 0x6000 ?s [of_char CHR ''Q''] [] s'" by (simp add: demo_keyboard_ports_def)
  from console_run_fifo [OF this ok] inv(2) have "keys_waiting s' = [of_char CHR ''Q'']" by simp
  with run show ?thesis by blast
qed

end
