(* ===== verification/Spec2Isabelle.thy ===== *)
theory Spec2Isabelle
  imports Typed_Access User_String Kernel_Start Console
begin

text \<open>
  A verification development for PeachOS as it is in this repository: a 32-bit kernel for the i686 with
  a block heap, paging, an ATA disk, FAT16, tasks in user mode, a PS/2 keyboard and four system calls.

  \<^bold>\<open>How the program fits together.\<close>  \<^verbatim>\<open>kernel_main\<close> (\<^verbatim>\<open>kernel.c\<close>) brings the parts up in order: terminal,
  segments, heap, file systems and disk, interrupt table, task state segment, paging, system calls,
  keyboard, and the first program, and leaves the kernel for the first task with \<^verbatim>\<open>iretd\<close>.  From then on
  it is entered by interrupts: 0x21 for the keyboard, 0x80 for system calls.  Everything dynamic comes
  from the block heap, page directories and file buffers included.

  \<^bold>\<open>The state.\<close>  The machine is one record that grows along the theories (\<open>kheap_state\<close>, \<open>paging_state\<close>,
  \<open>terminal_state\<close>, \<open>disk_state\<close>, \<open>fs_state\<close>, \<open>task_state\<close>, \<open>process_state\<close>, \<open>idt_state\<close>, \<open>keyboard_state\<close>,
  \<open>kernel_state\<close>): each theory adds the globals of its C files.  \<open>ram\<close> is the flat memory, a total
  function from 32-bit addresses to bytes, and C structures, arrays and page tables are bytes in it,
  at the offsets the compiler gives them (computed from the declarations in \<open>Layout\<close>; \<open>Typed_Access\<close> proves
  representative operations equal to ones written with the declared members).  Addresses fixed by the
  linker (arrays, static structures, string literals) are fields of the record; \<open>kstack\<close> is the part of the
  kernel stack that holds local variables whose address is passed on.  Integers keep their width: a C
  \<open>int\<close> is a \<open>u32\<close> read with \<open>sint\<close> where the code compares or divides.

  \<^bold>\<open>The theories\<close>, in the order of their imports:
  \<^item> \<open>Prelude\<close>: words, memory, counting loops, fields of structures, pages;
  \<^item> \<open>Config\<close>: \<^verbatim>\<open>config.h\<close>, \<^verbatim>\<open>status.h\<close>; \<open>Layout\<close>: the structures of the headers and of \<^verbatim>\<open>fat16.c\<close> with
    the sizes and offsets the compiler gives them; \<open>Memory\<close>: \<^verbatim>\<open>memory/memory.c\<close>; \<open>CString\<close>: \<^verbatim>\<open>string/string.c\<close>;
  \<^item> \<open>Allocator\<close>: the interfaces \<open>page_allocator\<close> and \<open>page_heap\<close>, what every client of the heap relies on;
  \<^item> \<open>Heap\<close>: \<^verbatim>\<open>memory/heap/heap.c\<close> and \<^verbatim>\<open>kheap.c\<close>, with the interpretations of both interfaces by the
    kernel heap; \<open>Heap_Runs\<close>: requests of several blocks, the interface \<open>run_heap\<close> that extends \<open>page_heap\<close>, and its
    interpretation;
  \<^item> \<open>Paging\<close>: \<^verbatim>\<open>memory/paging/paging.c\<close> and \<^verbatim>\<open>paging.asm\<close>; \<open>Terminal\<close>: terminal and \<open>panic\<close> of \<^verbatim>\<open>kernel.c\<close>;
    \<open>Gdt\<close>: \<^verbatim>\<open>gdt/gdt.c\<close>;
  \<^item> \<open>Path_Parser\<close>: \<^verbatim>\<open>fs/pparser.c\<close>; \<open>Disk\<close>: \<^verbatim>\<open>disk/disk.c\<close> and \<^verbatim>\<open>disk/streamer.c\<close>; \<open>Vfs\<close>: \<^verbatim>\<open>fs/file.h\<close>;
    \<open>Fat16\<close>: \<^verbatim>\<open>fs/fat/fat16.c\<close>; \<open>Directory\<close>: looking up names and opening in FAT16; \<open>File\<close>: \<^verbatim>\<open>fs/file.c\<close> and
    \<open>disk_search_and_init\<close>; \<open>Open\<close>: from a name through \<open>fopen\<close>, \<open>fread\<close> and \<open>fclose\<close>, on a mounted volume;
    \<open>Mount\<close>: mounting a FAT16 disk; \<open>Disk_Start\<close>: from \<open>fs_init\<close> and \<open>disk_search_and_init\<close> to the bytes of a file;
  \<^item> \<open>Task\<close>: \<^verbatim>\<open>task/task.c\<close>, \<^verbatim>\<open>task/task.asm\<close>, \<open>kernel_page\<close>; \<open>Process\<close>: \<^verbatim>\<open>task/process.c\<close>;
    \<open>Program_File\<close>: loading a program file; \<open>Program_Start\<close>: from a path to a mapped process;
    \<open>Program_Run\<close>: \<open>process_load_switch\<close>, for a file that exists and for one that does not;
  \<^item> \<open>Idt\<close>: \<^verbatim>\<open>idt/idt.c\<close>; \<open>Key_Queue\<close>: the interface of a queue of keys; \<open>Keyboard\<close>: \<^verbatim>\<open>keyboard/keyboard.c\<close>
    and \<^verbatim>\<open>classicPs2.c\<close>, with its interpretation; \<open>Isr80h\<close>: \<^verbatim>\<open>isr80h/\<close> and the entry points of \<^verbatim>\<open>idt.c\<close>;
    \<open>User_String\<close>: the strings the kernel takes from a task, up to the system call that prints them;
    \<open>Console\<close>: runs of keyboard interrupts and system calls as a step relation;
  \<^item> \<open>Kernel\<close>: \<open>kernel_main\<close>; \<open>Machine_Steps\<close>: steps that also set registers and globals, and room in the heap for
    page tables; \<open>Boot_Steps\<close>: the steps of \<open>kernel_main\<close> one by one; \<open>Kernel_Start\<close>: their composition, from the boot
    code to the first instruction of the first program;
  \<^item> \<open>Typed_Access\<close>: loads and assignments of members of the structures in \<open>Layout\<close>, and operations of most parts written
    with them.

  \<^bold>\<open>How code becomes definitions.\<close>  A C function is a definition of its name; a loop is a function of its
  own, with the suffix \<open>_loop\<close>, or \<open>for_u32\<close>/\<open>for_s32\<close> when it counts.  Functions that touch only memory
  map \<open>mem\<close> to \<open>mem\<close>, the others pass the state.  Loops without a bound in the code (\<open>strlen\<close>, the wait for
  the drive, reads across sectors, walks along linked lists) are partial functions whose value \<open>None\<close> is
  not returning; \<open>None\<close> is also a processor fault: a division by zero, or an access of a page a task has not
  mapped.  \<open>panic\<close> stops for ever, so what may panic has an \<open>outcome\<close>.  No fuel is used anywhere: what is
  partial is proved to return where a property needs it.  A label \<open>out\<close> with clean-up code splits a
  function in two (\<open>fopen_body\<close>, \<open>load_slot_body\<close>, \<open>load_binary_body\<close>, \<open>fat16_resolve_body\<close>).  Function
  pointers are values of a datatype (\<open>isr80h_command\<close>, \<open>interrupt_callback\<close>), the function table of a file
  system is the record \<open>fileSystem\<close>.  Code that runs while a task's page directory is loaded (\<open>vload32\<close>,
  \<open>vstrncpy\<close>) goes through \<open>translate\<close>, the translation of the MMU.  The devices behind the ports are a
  parameter (\<open>ports\<close>); \<open>ata_device\<close> is what the disk driver relies on, and a model drive satisfies it.

  \<^bold>\<open>What is proved.\<close>
  \<^item> Heap: allocation is first fit, takes a run of free blocks away from all older ones, release undoes it
    byte for byte; on every heap reachable by requests and releases each taken block is in exactly one
    run; what happens when nothing fits; the bounds of the block count; the kernel heap as a page allocator.
  \<^item> Memory and strings: copying, bounded copying, comparison up to case, termination of \<open>strlen\<close>.
  \<^item> Paging: new address spaces are the identity, \<open>paging_map_to\<close> maps exactly its range, errors, release of
    every page, \<open>paging_get\<close>, rounding; turning paging on is transparent to the kernel.
  \<^item> Terminal: a refinement of a typewriter screen; descriptors: the processor reads back what was asked for.
  \<^item> Paths: parsing builds the list of parts, releases restore the heap, malformed paths are refused.
  \<^item> Structures: parts of an object lie inside it, do not overlap and are aligned; operations with literal offsets are the
    ones written with the members of the headers.
  \<^item> Files: the bytes of the disk arrive in order through stream, FAT16 and descriptor table; names of
    directory entries; the table of descriptors; from a path to the entry with that name, its file number
    and its bytes, what closing gives back, and what a name that does not exist leaves behind; mounting a FAT16 disk, refusing
    one without its signature, and the whole way from the content of the disk to the bytes \<open>fread\<close> returns.
  \<^item> Tasks and processes: the list of tasks, round robin, creation of a task, saved registers, the memory a
    program sees; starting a program, from its path to the process whose task sees the bytes of the file on the disk, and
    what a path that no file has leaves behind.  Loading needs free runs of blocks, not only free blocks:
    \<open>kheap_room s l\<close> says that there is one of \<open>l\<close>, and a pigeonhole argument gives the runs of the later requests.
  \<^item> Interrupts: the gates, the system calls and their registration, the keyboard as a queue from the
    interrupt to the program, for every interleaving of interrupts, system calls and the program's steps;
    the copy of a string from a task, through its page directory, to the kernel and to the screen.

  \<^item> The whole: from the machine as the boot code leaves it, with \<^verbatim>\<open>BLANK.BIN\<close> on a FAT16 disk, \<open>kernel_main\<close> starts the
    program without a panic.  \<open>kernel_image\<close> says where the linker places the objects of the kernel (from 1 MiB to 16 MiB, apart
    from each other) and what they hold; nothing is assumed of the heap, since \<open>KheapInit\<close> sets it up and the 25600 blocks are enough
    for a file of one cluster.

  \<^bold>\<open>Not modelled.\<close>  The boot sector and the entry code (\<^verbatim>\<open>boot/boot.asm\<close>, \<^verbatim>\<open>kernel.asm\<close> up to the call of
  \<^verbatim>\<open>kernel_main\<close>, the linker scripts) run before the model starts.  The instructions of \<^verbatim>\<open>io/io.asm\<close> are the
  parameter \<open>ports\<close>.  The stubs of \<^verbatim>\<open>idt/idt.asm\<close> that push the interrupt frame, and \<open>enable_interrupts\<close>, are
  outside: a handler gets the address of its frame.  The user program \<^verbatim>\<open>programs/blank\<close> is not kernel code.
  Interrupts arrive one at a time: handlers run with interrupts off, as the stubs make them.
\<close>

end
